(* ===== verification/Rust_Prelude.thy ===== *)
theory Rust_Prelude
  imports Main "HOL-Library.List_Lexorder" "HOL-Library.Sublist" "HOL-Library.Multiset"
begin

text \<open>
  The shared vocabulary of the development: the part of the Rust language and of its
  standard library that the modelled crates use.

  \<^item> A Rust \<open>char\<close> is a Unicode scalar value, here a natural number; a Rust \<open>str\<close> is the
    list of its scalar values. Byte offsets are not list positions: \<open>len_utf8\<close> is the
    number of bytes of one scalar value and \<open>str_len\<close> the byte length of a string, and
    \<open>str_from\<close> and \<open>str_upto\<close> are the checked slicings \<open>s.get(i..)\<close> and \<open>s.get(..i)\<close>,
    which fail when \<open>i\<close> is not a character boundary.
  \<^item> Rust compares strings byte by byte; on UTF-8 this is the lexicographic order on scalar
    values, which is the order of \<open>HOL-Library.List_Lexorder\<close>.
  \<^item> \<open>ordering\<close> is \<open>std::cmp::Ordering\<close>, \<open>sort_by\<close> the stable sort of slices. The
    locale \<open>total_compare\<close> is the contract \<open>sort_by\<close> asks of a comparison function.
  \<^item> \<open>str::to_lowercase\<close> is driven by the Unicode character tables. It is a parameter
    \<open>lc\<close> of every definition that uses it; nothing is assumed about it.
\<close>

section \<open>Collections of facts\<close>

named_theorems str_simps \<open>evaluation of the string functions\<close>
named_theorems cmp_simps \<open>facts on comparison functions\<close>

section \<open>Orderings and stable sorting\<close>

datatype ordering = Less | Equal | Greater

fun ordering_rank :: "ordering \<Rightarrow> nat" where
  "ordering_rank Less = 0"
| "ordering_rank Equal = 1"
| "ordering_rank Greater = 2"

instantiation ordering :: linorder
begin

definition less_eq_ordering :: "ordering \<Rightarrow> ordering \<Rightarrow> bool" where
  "less_eq_ordering a b \<longleftrightarrow> ordering_rank a \<le> ordering_rank b"

definition less_ordering :: "ordering \<Rightarrow> ordering \<Rightarrow> bool" where
  "less_ordering a b \<longleftrightarrow> ordering_rank a < ordering_rank b"

instance
proof
  fix x y :: ordering
  show "x \<le> y \<Longrightarrow> y \<le> x \<Longrightarrow> x = y"
    by (cases x; cases y) (simp_all add: less_eq_ordering_def)
qed (auto simp: less_eq_ordering_def less_ordering_def)

end

definition cmp_of :: "'a::linorder \<Rightarrow> 'a \<Rightarrow> ordering" where
  "cmp_of a b = (if a < b then Less else if a = b then Equal else Greater)"

text \<open>\<open>Ordering::then_with\<close>.\<close>

definition cmp_then :: "ordering \<Rightarrow> ordering \<Rightarrow> ordering" where
  "cmp_then o1 o2 = (if o1 = Equal then o2 else o1)"

fun insort_by :: "('a \<Rightarrow> 'a \<Rightarrow> ordering) \<Rightarrow> 'a \<Rightarrow> 'a list \<Rightarrow> 'a list" where
  "insort_by cmp x [] = [x]"
| "insort_by cmp x (y # ys) =
     (if cmp x y = Greater then y # insort_by cmp x ys else x # y # ys)"

text \<open>The stable sort \<open>slice::sort_by\<close>; \<open>sort_by_key\<close> and \<open>sort_by_cached_key\<close> are
  \<open>sort_by\<close> on the compared keys.\<close>

fun sort_by :: "('a \<Rightarrow> 'a \<Rightarrow> ordering) \<Rightarrow> 'a list \<Rightarrow> 'a list" where
  "sort_by cmp [] = []"
| "sort_by cmp (x # xs) = insort_by cmp x (sort_by cmp xs)"

definition sort_by_key :: "('a \<Rightarrow> 'k::linorder) \<Rightarrow> 'a list \<Rightarrow> 'a list" where
  "sort_by_key k = sort_by (\<lambda>a b. cmp_of (k a) (k b))"

lemma mset_insort_by [simp]: "mset (insort_by cmp x xs) = add_mset x (mset xs)"
  by (induction xs) auto

lemma mset_sort_by [simp]: "mset (sort_by cmp xs) = mset xs"
  by (induction xs) auto

lemma set_insort_by [simp]: "set (insort_by cmp x xs) = insert x (set xs)"
  by (induction xs) auto

lemma set_sort_by [simp]: "set (sort_by cmp xs) = set xs"
  by (induction xs) auto

lemma length_insort_by [simp]: "length (insort_by cmp x xs) = Suc (length xs)"
  by (induction xs) auto

lemma length_sort_by [simp]: "length (sort_by cmp xs) = length xs"
  by (induction xs) auto

lemma distinct_sort_by [simp]: "distinct (sort_by cmp xs) = distinct xs"
  by (metis mset_sort_by mset_eq_imp_distinct_iff)

lemma cmp_of_simps [simp]:
  "cmp_of a b = Less \<longleftrightarrow> a < b"
  "cmp_of a b = Equal \<longleftrightarrow> a = b"
  "cmp_of a b = Greater \<longleftrightarrow> b < a"
  by (auto simp: cmp_of_def)

lemma cmp_then_simps [simp]:
  "cmp_then Equal b = b"
  "cmp_then Less b = Less"
  "cmp_then Greater b = Greater"
  by (simp_all add: cmp_then_def)

lemma cmp_then_eq_iff:
  "cmp_then a b = Equal \<longleftrightarrow> a = Equal \<and> b = Equal"
  "cmp_then a b = Less \<longleftrightarrow> a = Less \<or> (a = Equal \<and> b = Less)"
  "cmp_then a b = Greater \<longleftrightarrow> a = Greater \<or> (a = Equal \<and> b = Greater)"
  by (auto simp: cmp_then_def)

text \<open>
  What \<open>slice::sort_by\<close> requires of its comparison (its documentation: a total preorder;
  since Rust 1.81 the sort may panic otherwise), and what it then delivers.
\<close>

locale total_compare =
  fixes cmp :: "'a \<Rightarrow> 'a \<Rightarrow> ordering"
  assumes cmp_refl: "cmp a a = Equal"
    and cmp_flip: "cmp a b = Less \<longleftrightarrow> cmp b a = Greater"
    and cmp_trans: "cmp a b \<noteq> Greater \<Longrightarrow> cmp b c \<noteq> Greater \<Longrightarrow> cmp a c \<noteq> Greater"
begin

definition le :: "'a \<Rightarrow> 'a \<Rightarrow> bool" where
  "le a b \<longleftrightarrow> cmp a b \<noteq> Greater"

lemma le_total: "le a b \<or> le b a"
  unfolding le_def by (metis cmp_flip ordering.distinct(3))

lemma le_trans: "le a b \<Longrightarrow> le b c \<Longrightarrow> le a c"
  unfolding le_def by (rule cmp_trans)

lemma equal_iff_le: "cmp a b = Equal \<longleftrightarrow> le a b \<and> le b a"
  unfolding le_def by (metis cmp_flip ordering.exhaust ordering.distinct(1,3,5))

lemma equal_sym: "cmp a b = Equal \<longleftrightarrow> cmp b a = Equal"
  by (auto simp: equal_iff_le)

lemma equal_trans: "cmp a b = Equal \<Longrightarrow> cmp b c = Equal \<Longrightarrow> cmp a c = Equal"
  by (auto simp: equal_iff_le intro: le_trans)

lemma sorted_insort_by: "sorted_wrt le xs \<Longrightarrow> sorted_wrt le (insort_by cmp x xs)"
proof (induction xs)
  case Nil
  then show ?case by simp
next
  case (Cons y ys)
  show ?case
  proof (cases "cmp x y = Greater")
    case True
    then have "le y x" using le_total [of x y] by (simp add: le_def)
    with Cons True show ?thesis by simp
  next
    case False
    then have "le x y" by (simp add: le_def)
    with Cons.prems False show ?thesis by (auto intro: le_trans)
  qed
qed

lemma sorted_sort_by: "sorted_wrt le (sort_by cmp xs)"
  by (induction xs) (auto intro: sorted_insort_by)

lemma stable_insort_by:
  "sorted_wrt le xs \<Longrightarrow>
   filter (\<lambda>y. cmp k y = Equal) (insort_by cmp x xs) = filter (\<lambda>y. cmp k y = Equal) (x # xs)"
proof (induction xs)
  case Nil
  then show ?case by simp
next
  case (Cons y ys)
  show ?case
  proof (cases "cmp x y = Greater")
    case True
    then have "\<not> (cmp k x = Equal \<and> cmp k y = Equal)"
      by (metis equal_sym equal_trans ordering.distinct(5))
    with Cons True show ?thesis by auto
  next
    case False
    then show ?thesis by simp
  qed
qed

text \<open>Stability: the elements that compare equal to a given key keep their order.\<close>

lemma stable_sort_by:
  "filter (\<lambda>y. cmp k y = Equal) (sort_by cmp xs) = filter (\<lambda>y. cmp k y = Equal) xs"
  by (induction xs) (auto simp: stable_insort_by sorted_sort_by)

lemma insort_by_least:
  "\<forall>y \<in> set xs. le x y \<Longrightarrow> insort_by cmp x xs = x # xs"
  by (cases xs) (auto simp: le_def)

lemma sort_by_sorted: "sorted_wrt le xs \<Longrightarrow> sort_by cmp xs = xs"
  by (induction xs) (auto simp: insort_by_least)

end

text \<open>Comparing by a key in a linear order meets the contract.\<close>

lemma total_compare_key: "total_compare (\<lambda>a b. cmp_of (k a) (k b))"
  by unfold_locales auto

text \<open>So does \<open>then_with\<close> on two comparisons that meet it.\<close>

lemma total_compare_then:
  assumes "total_compare c1" and "total_compare c2"
  shows "total_compare (\<lambda>a b. cmp_then (c1 a b) (c2 a b))"
proof -
  note r = total_compare.cmp_refl [OF assms(1)] total_compare.cmp_refl [OF assms(2)]
  note f = total_compare.cmp_flip [OF assms(1)] total_compare.cmp_flip [OF assms(2)]
  note e = total_compare.equal_sym [OF assms(1)] total_compare.equal_sym [OF assms(2)]
  note t = total_compare.cmp_trans [OF assms(1)] total_compare.cmp_trans [OF assms(2)]
  note q = total_compare.equal_iff_le [OF assms(1)]
  show ?thesis
  proof (unfold_locales, goal_cases)
    case (1 a)
    then show ?case by (simp add: r)
  next
    case (2 a b)
    then show ?case using f e by (auto simp: cmp_then_eq_iff)
  next
    case (3 a b c)
    have "c1 a b \<noteq> Greater" "c1 b c \<noteq> Greater"
      using 3 by (auto simp: cmp_then_eq_iff)
    then have ac: "c1 a c \<noteq> Greater" by (rule t(1))
    show ?case
    proof (cases "c1 a c = Equal")
      case True
      then have "c1 c a \<noteq> Greater" using e(1) by (metis ordering.distinct(5))
      then have "c1 b a \<noteq> Greater" "c1 c b \<noteq> Greater"
        using t(1) \<open>c1 a b \<noteq> Greater\<close> \<open>c1 b c \<noteq> Greater\<close> by blast+
      then have "c1 a b = Equal" "c1 b c = Equal"
        using \<open>c1 a b \<noteq> Greater\<close> \<open>c1 b c \<noteq> Greater\<close>
        by (metis f(1) ordering.exhaust)+
      with 3 True show ?thesis using t(2) by (auto simp: cmp_then_eq_iff)
    next
      case False
      with ac show ?thesis by (auto simp: cmp_then_eq_iff)
    qed
  qed
qed

section \<open>Iterator adapters and overlays\<close>

text \<open>\<open>Iterator::filter_map\<close> and \<open>find_map\<close>.\<close>

fun filter_map :: "('a \<Rightarrow> 'b option) \<Rightarrow> 'a list \<Rightarrow> 'b list" where
  "filter_map f [] = []"
| "filter_map f (x # xs) = (case f x of None \<Rightarrow> filter_map f xs | Some y \<Rightarrow> y # filter_map f xs)"

fun find_map :: "('a \<Rightarrow> 'b option) \<Rightarrow> 'a list \<Rightarrow> 'b option" where
  "find_map f [] = None"
| "find_map f (x # xs) = (case f x of None \<Rightarrow> find_map f xs | Some y \<Rightarrow> Some y)"

lemma filter_map_cong [fundef_cong]:
  "xs = ys \<Longrightarrow> (\<And>x. x \<in> set ys \<Longrightarrow> f x = g x) \<Longrightarrow> filter_map f xs = filter_map g ys"
  by (induction ys arbitrary: xs) (auto split: option.splits)

lemma set_filter_map: "set (filter_map f xs) = {y. \<exists>x \<in> set xs. f x = Some y}"
  by (induction xs) (auto split: option.splits)

text \<open>\<open>Vec::dedup_by\<close>: an element equal to the one kept before it is dropped.\<close>

fun dedup_by :: "('a \<Rightarrow> 'a \<Rightarrow> bool) \<Rightarrow> 'a list \<Rightarrow> 'a list" where
  "dedup_by same [] = []"
| "dedup_by same [x] = [x]"
| "dedup_by same (x # y # xs) = (if same y x then dedup_by same (x # xs) else x # dedup_by same (y # xs))"

text \<open>\<open>Option::or\<close> and \<open>Option::unwrap_or\<close>.\<close>

definition or_else :: "'a option \<Rightarrow> 'a option \<Rightarrow> 'a option" where
  "or_else a b = (case a of None \<Rightarrow> b | Some x \<Rightarrow> Some x)"

definition unwrap_or :: "'a \<Rightarrow> 'a option \<Rightarrow> 'a" where
  "unwrap_or d a = (case a of None \<Rightarrow> d | Some x \<Rightarrow> x)"

text \<open>Replace the first element that clashes with the new one, or append it: the loop
  \<open>if let Some(existing) = xs.iter_mut().find(..) { *existing = x } else { xs.push(x) }\<close>.\<close>

fun upsert :: "('a \<Rightarrow> bool) \<Rightarrow> 'a \<Rightarrow> 'a list \<Rightarrow> 'a list" where
  "upsert p x [] = [x]"
| "upsert p x (y # ys) = (if p y then x # ys else y # upsert p x ys)"

text \<open>A clash relation, as two named things clash when they share a name, and the overlay of a
  list on another one.\<close>

locale overlay =
  fixes clash :: "'a \<Rightarrow> 'a \<Rightarrow> bool" and merge :: "'a list \<Rightarrow> 'a list \<Rightarrow> 'a list"
  assumes merge_eq: "merge dest incoming = fold (\<lambda>x. upsert (clash x) x) incoming dest"
begin

lemma upsert_set: "set (upsert p x ys) \<subseteq> insert x (set ys) \<and> x \<in> set (upsert p x ys)"
  by (induction ys) auto

lemma upsert_keeps: "y \<in> set ys \<Longrightarrow> \<not> p y \<Longrightarrow> y \<in> set (upsert p x ys)"
  by (induction ys) auto

lemma upsert_length: "length ys \<le> length (upsert p x ys) \<and> length (upsert p x ys) \<le> Suc (length ys)"
  by (induction ys) auto

lemma merge_provenance: "set (merge dest incoming) \<subseteq> set dest \<union> set incoming"
  unfolding merge_eq
proof (induction incoming arbitrary: dest)
  case (Cons x incoming)
  then show ?case using upsert_set [of "clash x" x dest] by (simp, blast)
qed simp

lemma merge_keeps_unclashed:
  "y \<in> set dest \<Longrightarrow> (\<And>x. x \<in> set incoming \<Longrightarrow> \<not> clash x y) \<Longrightarrow> y \<in> set (merge dest incoming)"
  unfolding merge_eq by (induction incoming arbitrary: dest) (auto intro: upsert_keeps)

lemma merge_takes_last:
  assumes "incoming = pre @ x # post" and "\<And>z. z \<in> set post \<Longrightarrow> \<not> clash z x"
  shows "x \<in> set (merge dest incoming)"
proof -
  let ?d = "upsert (clash x) x (fold (\<lambda>x. upsert (clash x) x) pre dest)"
  have "x \<in> set ?d" by (rule upsert_set [THEN conjunct2])
  then have "x \<in> set (merge ?d post)" using assms(2) by (rule merge_keeps_unclashed)
  then show ?thesis by (simp add: merge_eq assms(1))
qed

lemma merge_length:
  "length dest \<le> length (merge dest incoming) \<and> length (merge dest incoming) \<le> length dest + length incoming"
  unfolding merge_eq
proof (induction incoming arbitrary: dest)
  case (Cons x incoming)
  show ?case
    using Cons.IH [of "upsert (clash x) x dest"] upsert_length [of dest "clash x" x]
    unfolding fold_simps list.size by linarith
qed simp

end

end
