(* ===== verification/Rust_Str.thy ===== *)
theory Rust_Str
  imports Rust_Prelude
begin

text \<open>
  Rust strings: scalar values, UTF-8 and UTF-16 lengths, checked slicing, and the
  \<open>str\<close> methods the engine calls (\<open>trim\<close>, \<open>split\<close>, \<open>strip_prefix\<close>, \<open>lines\<close>, \<open>join\<close>,
  \<open>eq_ignore_ascii_case\<close>, \<open>rsplit\<close>). Lemmas about slices at character boundaries are
  collected here because the shell scanner, the path splitter and the history prefix all
  use them.
\<close>

section \<open>Scalar values\<close>

type_synonym rchar = nat
type_synonym str = "rchar list"

abbreviation lit :: "string \<Rightarrow> str" where
  "lit s \<equiv> map of_char s"

abbreviation (input) c_tab :: rchar where "c_tab \<equiv> 9"
abbreviation (input) c_nl :: rchar where "c_nl \<equiv> 10"
abbreviation (input) c_cr :: rchar where "c_cr \<equiv> 13"
abbreviation (input) c_space :: rchar where "c_space \<equiv> 32"
abbreviation (input) c_dquote :: rchar where "c_dquote \<equiv> 34"
abbreviation (input) c_dollar :: rchar where "c_dollar \<equiv> 36"
abbreviation (input) c_amp :: rchar where "c_amp \<equiv> 38"
abbreviation (input) c_squote :: rchar where "c_squote \<equiv> 39"
abbreviation (input) c_lparen :: rchar where "c_lparen \<equiv> 40"
abbreviation (input) c_rparen :: rchar where "c_rparen \<equiv> 41"
abbreviation (input) c_plus :: rchar where "c_plus \<equiv> 43"
abbreviation (input) c_comma :: rchar where "c_comma \<equiv> 44"
abbreviation (input) c_dash :: rchar where "c_dash \<equiv> 45"
abbreviation (input) c_dot :: rchar where "c_dot \<equiv> 46"
abbreviation (input) c_slash :: rchar where "c_slash \<equiv> 47"
abbreviation (input) c_semi :: rchar where "c_semi \<equiv> 59"
abbreviation (input) c_lt :: rchar where "c_lt \<equiv> 60"
abbreviation (input) c_eq :: rchar where "c_eq \<equiv> 61"
abbreviation (input) c_gt :: rchar where "c_gt \<equiv> 62"
abbreviation (input) c_lbracket :: rchar where "c_lbracket \<equiv> 91"
abbreviation (input) c_bslash :: rchar where "c_bslash \<equiv> 92"
abbreviation (input) c_rbracket :: rchar where "c_rbracket \<equiv> 93"
abbreviation (input) c_under :: rchar where "c_under \<equiv> 95"
abbreviation (input) c_tick :: rchar where "c_tick \<equiv> 96"
abbreviation (input) c_v :: rchar where "c_v \<equiv> 118"
abbreviation (input) c_lbrace :: rchar where "c_lbrace \<equiv> 123"
abbreviation (input) c_pipe :: rchar where "c_pipe \<equiv> 124"
abbreviation (input) c_rbrace :: rchar where "c_rbrace \<equiv> 125"

text \<open>\<open>char::is_whitespace\<close>: the Unicode property \<open>White_Space\<close>.\<close>

definition is_whitespace :: "rchar \<Rightarrow> bool" where
  "is_whitespace c \<longleftrightarrow>
     (9 \<le> c \<and> c \<le> 13) \<or> c = 32 \<or> c = 133 \<or> c = 160 \<or> c = 5760 \<or>
     (8192 \<le> c \<and> c \<le> 8202) \<or> c = 8232 \<or> c = 8233 \<or> c = 8239 \<or> c = 8287 \<or> c = 12288"

text \<open>\<open>char::is_control\<close>: the Unicode category \<open>Cc\<close>.\<close>

definition is_control :: "rchar \<Rightarrow> bool" where
  "is_control c \<longleftrightarrow> c \<le> 31 \<or> (127 \<le> c \<and> c \<le> 159)"

definition is_ascii_digit :: "rchar \<Rightarrow> bool" where
  "is_ascii_digit c \<longleftrightarrow> 48 \<le> c \<and> c \<le> 57"

definition is_ascii_alphabetic :: "rchar \<Rightarrow> bool" where
  "is_ascii_alphabetic c \<longleftrightarrow> (65 \<le> c \<and> c \<le> 90) \<or> (97 \<le> c \<and> c \<le> 122)"

definition is_ascii_alphanumeric :: "rchar \<Rightarrow> bool" where
  "is_ascii_alphanumeric c \<longleftrightarrow> is_ascii_alphabetic c \<or> is_ascii_digit c"

definition to_ascii_lowercase :: "rchar \<Rightarrow> rchar" where
  "to_ascii_lowercase c = (if 65 \<le> c \<and> c \<le> 90 then c + 32 else c)"

definition eq_ignore_ascii_case :: "str \<Rightarrow> str \<Rightarrow> bool" where
  "eq_ignore_ascii_case a b \<longleftrightarrow> map to_ascii_lowercase a = map to_ascii_lowercase b"

lemmas char_class_defs =
  is_whitespace_def is_control_def is_ascii_digit_def is_ascii_alphabetic_def
  is_ascii_alphanumeric_def to_ascii_lowercase_def

definition len_utf8 :: "rchar \<Rightarrow> nat" where
  "len_utf8 c = (if c < 128 then 1 else if c < 2048 then 2 else if c < 65536 then 3 else 4)"

definition encode_utf16_char :: "rchar \<Rightarrow> nat list" where
  "encode_utf16_char c =
     (if c < 65536 then [c]
      else [55296 + (c - 65536) div 1024, 56320 + (c - 65536) mod 1024])"

definition encode_utf16 :: "str \<Rightarrow> nat list" where
  "encode_utf16 s = concat (map encode_utf16_char s)"

lemma len_utf8_pos [simp]: "0 < len_utf8 c"
  by (simp add: len_utf8_def)

lemma len_utf8_ascii [simp]: "c < 128 \<Longrightarrow> len_utf8 c = 1"
  by (simp add: len_utf8_def)

section \<open>Byte offsets and slices\<close>

text \<open>\<open>str::len\<close>, in bytes.\<close>

definition str_len :: "str \<Rightarrow> nat" where
  "str_len s = sum_list (map len_utf8 s)"

text \<open>\<open>s.get(i..)\<close>: \<open>None\<close> past the end and inside a character.\<close>

fun str_from :: "str \<Rightarrow> nat \<Rightarrow> str option" where
  "str_from [] i = (if i = 0 then Some [] else None)"
| "str_from (c # cs) i =
     (if i = 0 then Some (c # cs)
      else if i < len_utf8 c then None
      else str_from cs (i - len_utf8 c))"

text \<open>\<open>s.get(..i)\<close>.\<close>

fun str_upto :: "str \<Rightarrow> nat \<Rightarrow> str option" where
  "str_upto [] i = (if i = 0 then Some [] else None)"
| "str_upto (c # cs) i =
     (if i = 0 then Some []
      else if i < len_utf8 c then None
      else map_option ((#) c) (str_upto cs (i - len_utf8 c)))"

declare str_from.simps [simp del] str_upto.simps [simp del]

lemmas str_from_Cons = str_from.simps(2)
lemmas str_upto_Cons = str_upto.simps(2)

definition is_char_boundary :: "str \<Rightarrow> nat \<Rightarrow> bool" where
  "is_char_boundary s i \<longleftrightarrow> str_from s i \<noteq> None"

lemma str_len_simps [simp]:
  "str_len [] = 0"
  "str_len (c # s) = len_utf8 c + str_len s"
  "str_len (s @ t) = str_len s + str_len t"
  by (simp_all add: str_len_def)

lemma str_len_0_iff [simp]: "str_len s = 0 \<longleftrightarrow> s = []"
  by (cases s) auto

lemma str_len_pos_iff: "0 < str_len s \<longleftrightarrow> s \<noteq> []"
  by (metis neq0_conv str_len_0_iff)

lemma str_from_0 [simp]: "str_from s 0 = Some s"
  by (cases s) (auto simp: str_from.simps)

lemma str_upto_0 [simp]: "str_upto s 0 = Some []"
  by (cases s) (auto simp: str_upto.simps)

lemma str_from_prefix [simp]: "str_from (p @ s) (str_len p) = Some s"
  by (induction p) (auto simp: str_from_Cons)

lemma str_from_prefix_add: "str_from (p @ s) (str_len p + k) = str_from s k"
  by (induction p) (auto simp: str_from_Cons)

lemma str_upto_prefix [simp]: "str_upto (p @ s) (str_len p) = Some p"
  by (induction p) (auto simp: str_upto_Cons)

lemma str_from_len [simp]: "str_from s (str_len s) = Some []"
  using str_from_prefix [of s "[]"] by simp

lemma str_from_SomeD: "str_from s i = Some t \<Longrightarrow> \<exists>p. s = p @ t \<and> str_len p = i"
proof (induction s arbitrary: i)
  case Nil
  then show ?case by (auto simp: str_from.simps split: if_splits)
next
  case (Cons c s)
  show ?case
  proof (cases "i = 0")
    case True
    with Cons.prems show ?thesis by (auto intro: exI [of _ "[]"])
  next
    case False
    with Cons.prems have "\<not> i < len_utf8 c" and "str_from s (i - len_utf8 c) = Some t"
      by (auto simp: str_from_Cons split: if_splits)
    then obtain p where "s = p @ t" and "str_len p = i - len_utf8 c"
      using Cons.IH by blast
    then have "c # s = (c # p) @ t" and "str_len (c # p) = i"
      using \<open>\<not> i < len_utf8 c\<close> by auto
    then show ?thesis by blast
  qed
qed

lemma str_from_suffix: "str_from s i = Some t \<Longrightarrow> suffix t s"
  by (auto dest!: str_from_SomeD simp: suffix_def)

lemma is_char_boundary_iff: "is_char_boundary s i \<longleftrightarrow> (\<exists>p t. s = p @ t \<and> str_len p = i)"
  unfolding is_char_boundary_def using str_from_SomeD [of s i] str_from_prefix by fastforce

lemma str_upto_from: "str_from s i = Some t \<Longrightarrow> str_upto s i = Some (take (length s - length t) s)"
  by (auto dest!: str_from_SomeD)

text \<open>The position table of \<open>str::char_indices\<close>.\<close>

fun char_indices_from :: "nat \<Rightarrow> str \<Rightarrow> (nat \<times> rchar) list" where
  "char_indices_from i [] = []"
| "char_indices_from i (c # cs) = (i, c) # char_indices_from (i + len_utf8 c) cs"

abbreviation char_indices :: "str \<Rightarrow> (nat \<times> rchar) list" where
  "char_indices \<equiv> char_indices_from 0"

section \<open>Prefixes, suffixes, trimming, splitting\<close>

definition starts_with :: "str \<Rightarrow> str \<Rightarrow> bool" where
  "starts_with s p \<longleftrightarrow> take (length p) s = p"

definition ends_with :: "str \<Rightarrow> str \<Rightarrow> bool" where
  "ends_with s p \<longleftrightarrow> length p \<le> length s \<and> drop (length s - length p) s = p"

definition strip_prefix :: "str \<Rightarrow> str \<Rightarrow> str option" where
  "strip_prefix p s = (if starts_with s p then Some (drop (length p) s) else None)"

definition strip_suffix :: "str \<Rightarrow> str \<Rightarrow> str option" where
  "strip_suffix p s = (if ends_with s p then Some (take (length s - length p) s) else None)"

definition starts_with_char :: "str \<Rightarrow> rchar \<Rightarrow> bool" where
  "starts_with_char s c \<longleftrightarrow> (case s of [] \<Rightarrow> False | x # _ \<Rightarrow> x = c)"

definition trim_start_matches :: "(rchar \<Rightarrow> bool) \<Rightarrow> str \<Rightarrow> str" where
  "trim_start_matches p s = dropWhile p s"

definition trim_end_matches :: "(rchar \<Rightarrow> bool) \<Rightarrow> str \<Rightarrow> str" where
  "trim_end_matches p s = rev (dropWhile p (rev s))"

definition trim_end :: "str \<Rightarrow> str" where
  "trim_end s = trim_end_matches is_whitespace s"

definition trim :: "str \<Rightarrow> str" where
  "trim s = trim_end (trim_start_matches is_whitespace s)"

definition trim_matches :: "(rchar \<Rightarrow> bool) \<Rightarrow> str \<Rightarrow> str" where
  "trim_matches p s = trim_end_matches p (trim_start_matches p s)"

text \<open>\<open>str::split\<close> on one character: always at least one segment.\<close>

fun split_char :: "rchar \<Rightarrow> str \<Rightarrow> str list" where
  "split_char c [] = [[]]"
| "split_char c (x # xs) =
     (if x = c then [] # split_char c xs
      else (case split_char c xs of [] \<Rightarrow> [[x]] | s # ss \<Rightarrow> (x # s) # ss))"

text \<open>\<open>str::split_once\<close> on one character.\<close>

fun split_once :: "rchar \<Rightarrow> str \<Rightarrow> (str \<times> str) option" where
  "split_once c [] = None"
| "split_once c (x # xs) =
     (if x = c then Some ([], xs)
      else map_option (\<lambda>(a, b). (x # a, b)) (split_once c xs))"

text \<open>\<open>str::rsplit\<close> with a set of separators, first item: the text after the last one.\<close>

definition rsplit_first :: "(rchar \<Rightarrow> bool) \<Rightarrow> str \<Rightarrow> str" where
  "rsplit_first p s = rev (takeWhile (\<lambda>c. \<not> p c) (rev s))"

text \<open>\<open>str::split_whitespace().next()\<close>.\<close>

definition first_word :: "str \<Rightarrow> str option" where
  "first_word s =
     (let w = takeWhile (\<lambda>c. \<not> is_whitespace c) (dropWhile is_whitespace s)
      in if w = [] then None else Some w)"

text \<open>\<open>str::lines\<close>: split at line feeds, a final empty line dropped, a carriage return
  before the line feed removed.\<close>

definition strip_cr :: "str \<Rightarrow> str" where
  "strip_cr l = (if l \<noteq> [] \<and> last l = c_cr then butlast l else l)"

definition str_lines :: "str \<Rightarrow> str list" where
  "str_lines s =
     (let ps = split_char c_nl s
      in map strip_cr (butlast ps) @ (if last ps = [] then [] else [last ps]))"

text \<open>\<open>[String]::join\<close>.\<close>

fun str_join :: "str \<Rightarrow> str list \<Rightarrow> str" where
  "str_join sep [] = []"
| "str_join sep [s] = s"
| "str_join sep (s # t # ts) = s @ sep @ str_join sep (t # ts)"

lemma starts_with_iff: "starts_with s p \<longleftrightarrow> (\<exists>t. s = p @ t)"
  by (auto simp: starts_with_def) (metis append_take_drop_id)

lemma strip_prefix_Some_iff: "strip_prefix p s = Some t \<longleftrightarrow> s = p @ t"
  by (auto simp: strip_prefix_def starts_with_iff)

lemma ends_with_iff: "ends_with s p \<longleftrightarrow> (\<exists>t. s = t @ p)"
  by (auto simp: ends_with_def) (metis append_take_drop_id)

lemma strip_suffix_Some_iff: "strip_suffix p s = Some t \<longleftrightarrow> s = t @ p"
  by (auto simp: strip_suffix_def ends_with_iff)

lemma split_char_not_Nil [simp]: "split_char c s \<noteq> []"
  by (induction s) (auto split: list.splits)

lemma join_split_char: "str_join [c] (split_char c s) = s"
proof (induction s)
  case Nil
  then show ?case by simp
next
  case (Cons x s)
  obtain y ys where y: "split_char c s = y # ys"
    by (cases "split_char c s") auto
  with Cons show ?case by (cases ys) auto
qed

lemma split_char_no_sep: "p \<in> set (split_char c s) \<Longrightarrow> c \<notin> set p"
proof (induction s arbitrary: p)
  case Nil
  then show ?case by simp
next
  case (Cons x s)
  obtain y ys where "split_char c s = y # ys"
    by (cases "split_char c s") auto
  with Cons show ?case by (auto split: if_splits)
qed

lemma split_char_no_occ: "c \<notin> set s \<Longrightarrow> split_char c s = [s]"
  by (induction s) auto

lemma split_char_append_sep: "split_char c (s @ c # t) = split_char c s @ split_char c t"
proof (induction s)
  case Nil
  then show ?case by simp
next
  case (Cons x s)
  obtain y ys where "split_char c s = y # ys"
    by (cases "split_char c s") auto
  with Cons show ?case by simp
qed

lemma split_once_Some_iff: "split_once c s = Some (a, b) \<longleftrightarrow> s = a @ c # b \<and> c \<notin> set a"
proof (induction s arbitrary: a)
  case Nil
  then show ?case by simp
next
  case (Cons x s)
  show ?case by (cases a) (auto simp: Cons)
qed

lemma split_once_None_iff: "split_once c s = None \<longleftrightarrow> c \<notin> set s"
  by (induction s) auto

lemma dropWhile_suffix: "suffix (dropWhile p s) s"
  by (metis suffix_def takeWhile_dropWhile_id)

lemma trim_end_prefix: "prefix (trim_end_matches p s) s"
  unfolding trim_end_matches_def
  by (metis dropWhile_suffix rev_rev_ident suffix_to_prefix)

lemma trim_end_matches_idem [simp]: "trim_end_matches p (trim_end_matches p s) = trim_end_matches p s"
  by (simp add: trim_end_matches_def dropWhile_idem)

lemma trim_start_end_hd:
  "trim_start_matches p s = s \<Longrightarrow> trim_start_matches p (trim_end_matches p s) = trim_end_matches p s"
proof (cases "trim_end_matches p s")
  case Nil
  then show ?thesis by (simp add: trim_start_matches_def)
next
  case (Cons x xs)
  assume *: "trim_start_matches p s = s"
  from Cons trim_end_prefix [of p s] obtain t where "s = x # t"
    by (auto simp: prefix_def)
  with * have "length (dropWhile p (x # t)) = Suc (length t)"
    by (simp add: trim_start_matches_def)
  then have "\<not> p x"
    using length_dropWhile_le [of p t] by (auto split: if_splits)
  with Cons show ?thesis by (simp add: trim_start_matches_def)
qed

lemma trim_idem [simp]: "trim (trim s) = trim s"
proof -
  have "trim_start_matches is_whitespace (trim s) = trim s"
    unfolding trim_def trim_end_def
    by (rule trim_start_end_hd) (simp add: trim_start_matches_def dropWhile_idem)
  then show ?thesis
    by (simp add: trim_def trim_end_def)
qed

text \<open>Decimal digits, as \<open>Display\<close> prints an unsigned number.\<close>

fun show_nat :: "nat \<Rightarrow> str" where
  "show_nat n = (if n < 10 then [48 + n] else show_nat (n div 10) @ [48 + n mod 10])"

declare show_nat.simps [simp del]

end
