(* ===== verification/Query.thy ===== *)
theory Query
  imports Rust_Str
begin

text \<open>
  Prefix and fuzzy matching, \<open>crates/fastab_engine/src/query.rs\<close>: the match buckets, the
  local port of \<open>fuzzysort\<close> (a greedy subsequence, then a backtracking search for a match
  that starts at word beginnings), its score, and the case-insensitive comparison the
  suggestion lists are sorted by.

  \<open>str::to_lowercase\<close> is the parameter \<open>lc\<close>. The table of next word beginnings is an
  interface: the locale \<open>beginning_table\<close> states what the backtracking search relies on
  and proves that the search returns, is sound and is complete; it is interpreted on the
  table the code computes.
\<close>

section \<open>Match buckets\<close>

datatype match_kind = ExactCase | ExactInsensitive | PrefixCase | PrefixInsensitive | Fuzzy

record match_result =
  ms_kind :: match_kind
  ms_score :: int

fun kind_bucket :: "match_kind \<Rightarrow> nat" where
  "kind_bucket ExactCase = 0"
| "kind_bucket ExactInsensitive = 1"
| "kind_bucket PrefixCase = 2"
| "kind_bucket PrefixInsensitive = 3"
| "kind_bucket Fuzzy = 4"

definition bucket :: "match_result \<Rightarrow> nat" where
  "bucket m = kind_bucket (ms_kind m)"

section \<open>The fuzzy matcher\<close>

record fuzzy_result =
  fm_score :: int
  fm_indexes :: "nat list"

definition U32_MAX :: nat where
  "U32_MAX = 4294967295"

definition prepare_lower_codes :: "(str \<Rightarrow> str) \<Rightarrow> str \<Rightarrow> nat list" where
  "prepare_lower_codes lc value =
     (let original_len = length (encode_utf16 value);
          lowered = encode_utf16 (lc value)
      in map (\<lambda>index. if index < length lowered then lowered ! index else U32_MAX) [0..<original_len])"

text \<open>The loop walks the target once; the last argument is what is left of the search
  string. The caller has checked that the search string is not empty.\<close>

fun greedy_loop :: "nat \<Rightarrow> nat list \<Rightarrow> nat list \<Rightarrow> nat list \<Rightarrow> nat list option" where
  "greedy_loop target_index indexes [] search = None"
| "greedy_loop target_index indexes (c # cs) [] = None"
| "greedy_loop target_index indexes (c # cs) (s # ss) =
     (if c = s then
        (if ss = [] then Some (indexes @ [target_index])
         else greedy_loop (Suc target_index) (indexes @ [target_index]) cs ss)
      else greedy_loop (Suc target_index) indexes cs (s # ss))"

definition greedy_indexes :: "nat list \<Rightarrow> nat list \<Rightarrow> nat list option" where
  "greedy_indexes target search = greedy_loop 0 [] target search"

definition code_is_upper :: "nat \<Rightarrow> bool" where
  "code_is_upper code \<longleftrightarrow> 65 \<le> code \<and> code \<le> 90"

definition code_is_alphanumeric :: "nat \<Rightarrow> bool" where
  "code_is_alphanumeric code \<longleftrightarrow>
     code_is_upper code \<or> (97 \<le> code \<and> code \<le> 122) \<or> (48 \<le> code \<and> code \<le> 57)"

fun beginning_loop :: "nat \<Rightarrow> bool \<Rightarrow> bool \<Rightarrow> nat list \<Rightarrow> nat list" where
  "beginning_loop index was_upper was_alphanumeric [] = []"
| "beginning_loop index was_upper was_alphanumeric (code # codes) =
     (let is_upper = code_is_upper code;
          is_alphanumeric = code_is_alphanumeric code;
          is_beginning = (is_upper \<and> \<not> was_upper) \<or> \<not> was_alphanumeric \<or> \<not> is_alphanumeric;
          rest = beginning_loop (Suc index) is_upper is_alphanumeric codes
      in if is_beginning then index # rest else rest)"

definition beginning_indexes :: "str \<Rightarrow> nat list" where
  "beginning_indexes target = beginning_loop 0 False False (encode_utf16 target)"

text \<open>\<open>last_beginning\<close>: the entry the cursor into the beginnings points at, the target
  length past the last one.\<close>

definition last_beginning :: "nat \<Rightarrow> nat list \<Rightarrow> nat" where
  "last_beginning target_len bs = (case bs of [] \<Rightarrow> target_len | b # _ \<Rightarrow> b)"

fun next_beginning_loop :: "nat \<Rightarrow> nat list \<Rightarrow> nat list \<Rightarrow> nat list" where
  "next_beginning_loop target_len bs [] = []"
| "next_beginning_loop target_len bs (index # is) =
     (let bs' = (if last_beginning target_len bs > index then bs else tl bs)
      in last_beginning target_len bs' # next_beginning_loop target_len bs' is)"

definition next_beginning_indexes :: "nat \<Rightarrow> nat list \<Rightarrow> nat list" where
  "next_beginning_indexes target_len beginnings =
     next_beginning_loop target_len beginnings [0..<target_len]"

text \<open>The backtracking loop. \<open>search_index\<close> is the length of \<open>indexes\<close> throughout: both
  grow by one on a match and shrink by one on a backtrack. The outer \<open>None\<close> is a loop that
  does not end, the inner one the answer \<open>None\<close>.\<close>

partial_function (option) strict_loop ::
  "nat list \<Rightarrow> nat list \<Rightarrow> nat list \<Rightarrow> nat \<Rightarrow> nat list \<Rightarrow> nat list option option" where
  "strict_loop target search next_beginning target_index indexes =
     (if length target \<le> target_index then
        (if indexes = [] then Some None
         else strict_loop target search next_beginning
                (next_beginning ! last indexes) (butlast indexes))
      else if search ! length indexes = target ! target_index then
        (if Suc (length indexes) = length search then Some (Some (indexes @ [target_index]))
         else strict_loop target search next_beginning (Suc target_index) (indexes @ [target_index]))
      else strict_loop target search next_beginning (next_beginning ! target_index) indexes)"

definition strict_indexes :: "nat list \<Rightarrow> nat list \<Rightarrow> nat list \<Rightarrow> nat \<Rightarrow> nat list option" where
  "strict_indexes target search next_beginning target_index =
     (if target_index = length target then None
      else (case strict_loop target search next_beginning target_index [] of
              None \<Rightarrow> None
            | Some r \<Rightarrow> r))"

definition checked_sub1 :: "nat \<Rightarrow> nat option" where
  "checked_sub1 n = (if n = 0 then None else Some (n - 1))"

fun gap_score :: "nat option \<Rightarrow> int \<Rightarrow> nat list \<Rightarrow> int" where
  "gap_score last_target acc [] = acc"
| "gap_score last_target acc (index # is) =
     gap_score (Some index) (if last_target \<noteq> checked_sub1 index then acc - int index else acc) is"

definition first_possible :: "nat list \<Rightarrow> nat list \<Rightarrow> nat" where
  "first_possible next_beginning simple =
     (if simple ! 0 = 0 then 0 else next_beginning ! (simple ! 0 - 1))"

definition fuzzy_match :: "(str \<Rightarrow> str) \<Rightarrow> str \<Rightarrow> str \<Rightarrow> fuzzy_result option" where
  "fuzzy_match lc name query =
     (let target = prepare_lower_codes lc name;
          search = prepare_lower_codes lc query
      in if search = [] then None
         else case greedy_indexes target search of
           None \<Rightarrow> None
         | Some simple \<Rightarrow>
             (let next_beginning = next_beginning_indexes (length target) (beginning_indexes name);
                  strict = strict_indexes target search next_beginning
                             (first_possible next_beginning simple);
                  indexes = (case strict of Some is \<Rightarrow> is | None \<Rightarrow> simple);
                  gaps = gap_score None 0 indexes;
                  scaled = (if strict = None then gaps * 1000 else gaps)
              in Some \<lparr>fm_score = scaled - int (length target - length search),
                       fm_indexes = indexes\<rparr>))"

section \<open>Matching a name\<close>

definition match_score :: "(str \<Rightarrow> str) \<Rightarrow> str \<Rightarrow> str \<Rightarrow> bool \<Rightarrow> match_result option" where
  "match_score lc name query fuzzy =
     (if query = [] then None
      else if name = query then Some \<lparr>ms_kind = ExactCase, ms_score = 0\<rparr>
      else if lc name = lc query then Some \<lparr>ms_kind = ExactInsensitive, ms_score = -1\<rparr>
      else if starts_with name query then Some \<lparr>ms_kind = PrefixCase, ms_score = -2\<rparr>
      else if starts_with (lc name) (lc query) then Some \<lparr>ms_kind = PrefixInsensitive, ms_score = -3\<rparr>
      else if fuzzy then
        map_option (\<lambda>m. \<lparr>ms_kind = Fuzzy, ms_score = fm_score m\<rparr>) (fuzzy_match lc name query)
      else None)"

definition matches_query :: "(str \<Rightarrow> str) \<Rightarrow> str \<Rightarrow> str \<Rightarrow> bool \<Rightarrow> bool" where
  "matches_query lc name query fuzzy \<longleftrightarrow> query = [] \<or> match_score lc name query fuzzy \<noteq> None"

definition starts_with_ignore_case :: "(str \<Rightarrow> str) \<Rightarrow> str \<Rightarrow> str \<Rightarrow> bool" where
  "starts_with_ignore_case lc name query \<longleftrightarrow> starts_with (lc name) (lc query)"

fun cmp_ignore_ascii_case :: "str \<Rightarrow> str \<Rightarrow> ordering" where
  "cmp_ignore_ascii_case [] [] = Equal"
| "cmp_ignore_ascii_case [] (b # bs) = Less"
| "cmp_ignore_ascii_case (a # as) [] = Greater"
| "cmp_ignore_ascii_case (a # as) (b # bs) =
     (let ord = cmp_of (to_ascii_lowercase a) (to_ascii_lowercase b)
      in if ord \<noteq> Equal then ord else cmp_ignore_ascii_case as bs)"

section \<open>The greedy pass\<close>

text \<open>The positions \<open>is\<close> embed \<open>search\<close> into \<open>target\<close>.\<close>

definition embeds :: "nat list \<Rightarrow> nat list \<Rightarrow> nat list \<Rightarrow> bool" where
  "embeds target search is \<longleftrightarrow>
     length is = length search \<and> sorted_wrt (<) is \<and>
     (\<forall>i \<in> set is. i < length target) \<and> map ((!) target) is = search"

lemma greedy_loop_Some:
  "greedy_loop k acc cs ss = Some is \<Longrightarrow>
     \<exists>js. is = acc @ js \<and> length js = length ss \<and> sorted_wrt (<) js \<and>
          (\<forall>j \<in> set js. k \<le> j \<and> j < k + length cs) \<and> map (\<lambda>j. cs ! (j - k)) js = ss"
proof (induction k acc cs ss arbitrary: "is" rule: greedy_loop.induct)
  case (3 k acc c cs s ss)
  have shift: "map (\<lambda>j. (x # cs) ! (j - k)) js = map (\<lambda>j. cs ! (j - Suc k)) js"
    if "\<forall>j \<in> set js. Suc k \<le> j \<and> j < Suc k + length cs" for x js
    using that by (intro map_cong) (auto simp: nth_Cons')
  show ?case
  proof (cases "c = s")
    case True
    show ?thesis
    proof (cases "ss = []")
      case True
      with \<open>c = s\<close> "3.prems" show ?thesis by auto
    next
      case False
      with \<open>c = s\<close> "3.prems" have "greedy_loop (Suc k) (acc @ [k]) cs ss = Some is" by simp
      from "3.IH"(1) [OF \<open>c = s\<close> False this] obtain js where js:
        "is = (acc @ [k]) @ js" "length js = length ss" "sorted_wrt (<) js"
        "\<forall>j \<in> set js. Suc k \<le> j \<and> j < Suc k + length cs" "map (\<lambda>j. cs ! (j - Suc k)) js = ss"
        by (elim exE conjE)
      have "map (\<lambda>j. (c # cs) ! (j - k)) (k # js) = s # ss"
        using shift [OF js(4), of c] js(5) \<open>c = s\<close> by simp
      moreover have "\<forall>j \<in> set (k # js). k \<le> j \<and> j < k + length (c # cs)"
        using js(4) by auto
      moreover have "sorted_wrt (<) (k # js)" using js(3,4) by auto
      moreover have "is = acc @ (k # js)" "length (k # js) = length (s # ss)"
        using js(1,2) by simp_all
      ultimately show ?thesis by - (rule exI [of _ "k # js"], intro conjI)
    qed
  next
    case False
    with "3.prems" have "greedy_loop (Suc k) acc cs (s # ss) = Some is" by simp
    from "3.IH"(2) [OF False this] obtain js where js:
      "is = acc @ js" "length js = length (s # ss)" "sorted_wrt (<) js"
      "\<forall>j \<in> set js. Suc k \<le> j \<and> j < Suc k + length cs" "map (\<lambda>j. cs ! (j - Suc k)) js = s # ss"
      by (elim exE conjE)
    have "map (\<lambda>j. (c # cs) ! (j - k)) js = s # ss"
      using shift [OF js(4), of c] js(5) by (rule trans)
    moreover have "\<forall>j \<in> set js. k \<le> j \<and> j < k + length (c # cs)"
      using js(4) by auto
    ultimately show ?thesis using js(1,2,3) by - (rule exI [of _ js], intro conjI)
  qed
qed auto

lemma greedy_loop_None_iff:
  "ss \<noteq> [] \<Longrightarrow> greedy_loop k acc cs ss = None \<longleftrightarrow> \<not> subseq ss cs"
  by (induction k acc cs ss rule: greedy_loop.induct) (auto simp: subseq_Cons2_iff)

lemma greedy_indexes_embeds: "greedy_indexes target search = Some is \<Longrightarrow> embeds target search is"
  using greedy_loop_Some [of 0 "[]" target search "is"]
  by (auto simp: greedy_indexes_def embeds_def)

lemma greedy_indexes_None_iff:
  "search \<noteq> [] \<Longrightarrow> greedy_indexes target search = None \<longleftrightarrow> \<not> subseq search target"
  by (simp add: greedy_indexes_def greedy_loop_None_iff)

section \<open>The backtracking search\<close>

text \<open>
  A strict match starts at \<open>from\<close> or at a later word beginning, and each further character
  is either the very next one of the target or stands at a later word beginning.
\<close>

fun strict_chain :: "nat list \<Rightarrow> nat set \<Rightarrow> nat \<Rightarrow> nat list \<Rightarrow> nat list \<Rightarrow> bool" where
  "strict_chain target beginnings from [] is \<longleftrightarrow> is = []"
| "strict_chain target beginnings from (c # cs) [] \<longleftrightarrow> False"
| "strict_chain target beginnings from (c # cs) (j # js) \<longleftrightarrow>
     j < length target \<and> (j = from \<or> (from < j \<and> j \<in> beginnings)) \<and> target ! j = c \<and>
     strict_chain target beginnings (Suc j) cs js"

text \<open>What the search relies on: the table sends every position to the least word
  beginning after it, or to the length of the target.\<close>

locale beginning_table =
  fixes target :: "nat list" and beginnings :: "nat set" and next_beginning :: "nat list"
  assumes table_length: "length next_beginning = length target"
    and table_advances: "i < length target \<Longrightarrow> i < next_beginning ! i"
    and table_bounded: "i < length target \<Longrightarrow> next_beginning ! i \<le> length target"
    and table_beginning: "i < length target \<Longrightarrow> next_beginning ! i < length target \<Longrightarrow>
                            next_beginning ! i \<in> beginnings"
    and table_least: "i < length target \<Longrightarrow> b \<in> beginnings \<Longrightarrow> i < b \<Longrightarrow> next_beginning ! i \<le> b"
begin

abbreviation "chain \<equiv> strict_chain target beginnings"

lemma chain_end: "length target \<le> i \<Longrightarrow> cs \<noteq> [] \<Longrightarrow> \<not> chain i cs js"
  by (cases "(target, beginnings, i, cs, js)" rule: strict_chain.cases) auto

lemma chain_skip:
  assumes "i < length target" "cs \<noteq> []" and "\<And>ks. js = i # ks \<Longrightarrow> \<not> chain i cs js"
  shows "chain i cs js \<longleftrightarrow> chain (next_beginning ! i) cs js"
proof -
  obtain c cs' where cs: "cs = c # cs'" using \<open>cs \<noteq> []\<close> by (cases cs) auto
  note adv = table_advances [OF assms(1)]
  show ?thesis
  proof (cases js)
    case Nil
    then show ?thesis by (simp add: cs)
  next
    case (Cons j ks)
    have "(j = i \<or> i < j \<and> j \<in> beginnings) \<longleftrightarrow>
          (j = next_beginning ! i \<or> next_beginning ! i < j \<and> j \<in> beginnings)"
      if "j < length target" "j \<noteq> i"
      using that adv table_beginning [OF assms(1)] table_least [OF assms(1), of j] by force
    moreover have "\<not> chain i cs js" "\<not> chain (next_beginning ! i) cs js" if "j = i"
      using that assms(3) [of ks] adv by (auto simp: Cons cs)
    ultimately show ?thesis by (cases "j = i") (auto simp: Cons cs)
  qed
qed

text \<open>From any state of the loop, either a chain is found for the rest of the search
  string, or there is none and the loop runs off the end of the target with the same
  partial match.\<close>

lemma strict_loop_outcome:
  assumes "length indexes < length search"
  shows "(\<exists>js. chain i (drop (length indexes) search) js \<and>
              strict_loop target search next_beginning i indexes = Some (Some (indexes @ js))) \<or>
         ((\<forall>js. \<not> chain i (drop (length indexes) search) js) \<and>
          (\<exists>e \<ge> length target. strict_loop target search next_beginning i indexes =
                                strict_loop target search next_beginning e indexes))"
  using assms
proof (induction "(length search - length indexes) * Suc (length target) + (length target - i)"
    arbitrary: i indexes rule: less_induct)
  case less
  let ?loop = "strict_loop target search next_beginning"
  let ?rest = "drop (length indexes) search"
  have rest: "?rest = search ! length indexes # drop (Suc (length indexes)) search"
    using less.prems by (rule Cons_nth_drop_Suc [symmetric])
  then have rest_ne: "?rest \<noteq> []" by simp
  show ?case
  proof (cases "length target \<le> i")
    case True
    then show ?thesis using chain_end [OF True rest_ne] by auto
  next
    case False
    then have i: "i < length target" by simp
    have later: ?thesis
      if "?loop i indexes = ?loop (next_beginning ! i) indexes"
        and "\<And>js. chain i ?rest js \<longleftrightarrow> chain (next_beginning ! i) ?rest js"
      using less.hyps [of indexes "next_beginning ! i", OF _ less.prems] that
        table_advances [OF i] i by simp
    show ?thesis
    proof (cases "search ! length indexes = target ! i")
      case False
      then have "chain i ?rest js \<longleftrightarrow> chain (next_beginning ! i) ?rest js" for js
        by (intro chain_skip [OF i rest_ne]) (auto simp: rest)
      moreover have "?loop i indexes = ?loop (next_beginning ! i) indexes"
        using False i by (simp add: strict_loop.simps [of target search next_beginning i indexes])
      ultimately show ?thesis by (intro later)
    next
      case hit: True
      show ?thesis
      proof (cases "Suc (length indexes) = length search")
        case True
        then have "?loop i indexes = Some (Some (indexes @ [i]))"
          using hit i by (simp add: strict_loop.simps [of target search next_beginning i indexes])
        moreover have "chain i ?rest [i]" using True hit i by (simp add: rest)
        ultimately show ?thesis by blast
      next
        case False
        then have more: "length (indexes @ [i]) < length search" using less.prems by simp
        have push: "?loop i indexes = ?loop (Suc i) (indexes @ [i])"
          using hit i False by (simp add: strict_loop.simps [of target search next_beginning i indexes])
        have "length search - length indexes = Suc (length search - length (indexes @ [i]))"
          using more by simp
        then have dec: "(length search - length (indexes @ [i])) * Suc (length target) +
                   (length target - Suc i)
                 < (length search - length indexes) * Suc (length target) + (length target - i)"
          by simp
        from less.hyps [OF dec more] show ?thesis
        proof (elim disjE exE conjE)
          fix js assume js: "chain (Suc i) (drop (length (indexes @ [i])) search) js"
            and "?loop (Suc i) (indexes @ [i]) = Some (Some ((indexes @ [i]) @ js))"
          then have "?loop i indexes = Some (Some (indexes @ (i # js)))" by (simp add: push)
          moreover have "chain i ?rest (i # js)" using js hit i by (simp add: rest)
          ultimately show ?thesis by blast
        next
          fix e assume none: "\<forall>js. \<not> chain (Suc i) (drop (length (indexes @ [i])) search) js"
            and e: "length target \<le> e" "?loop (Suc i) (indexes @ [i]) = ?loop e (indexes @ [i])"
          have "?loop e (indexes @ [i]) = ?loop (next_beginning ! i) indexes"
            using e(1) by (simp add: strict_loop.simps [of target search next_beginning e])
          moreover have "chain i ?rest js \<longleftrightarrow> chain (next_beginning ! i) ?rest js" for js
            using none by (intro chain_skip [OF i rest_ne]) (auto simp: rest)
          ultimately show ?thesis using push e(2) by (intro later) simp_all
        qed
      qed
    qed
  qed
qed

lemma strict_loop_result:
  assumes "search \<noteq> []"
  shows "(\<exists>js. chain i search js \<and> strict_loop target search next_beginning i [] = Some (Some js)) \<or>
         ((\<forall>js. \<not> chain i search js) \<and> strict_loop target search next_beginning i [] = Some None)"
proof -
  have "strict_loop target search next_beginning e [] = Some None" if "length target \<le> e" for e
    using that by (simp add: strict_loop.simps [of target search next_beginning e])
  then show ?thesis
    using strict_loop_outcome [of "[]" search i] assms by force
qed

lemma strict_loop_returns: "search \<noteq> [] \<Longrightarrow> strict_loop target search next_beginning i [] \<noteq> None"
  using strict_loop_result [of search i] by auto

lemma strict_indexes_Some:
  "search \<noteq> [] \<Longrightarrow> strict_indexes target search next_beginning i = Some js \<Longrightarrow> chain i search js"
  using strict_loop_result [of search i] by (auto simp: strict_indexes_def split: if_splits)

lemma strict_indexes_None_iff:
  "search \<noteq> [] \<Longrightarrow>
   strict_indexes target search next_beginning i = None \<longleftrightarrow> (\<forall>js. \<not> chain i search js)"
  using strict_loop_result [of search i] chain_end [of i search]
  by (auto simp: strict_indexes_def split: if_splits)

end

lemma strict_chain_embeds:
  "strict_chain target B i cs js \<Longrightarrow> embeds target cs js \<and> (\<forall>j \<in> set js. i \<le> j)"
proof (induction target B i cs js rule: strict_chain.induct)
  case (3 target B i c cs j js)
  then have "embeds target cs js" "\<forall>k \<in> set js. Suc j \<le> k" by auto
  with "3.prems" show ?case by (auto simp: embeds_def Suc_le_eq)
qed (auto simp: embeds_def)

lemma beginning_loop_sorted:
  "sorted_wrt (<) (beginning_loop k u a codes) \<and>
   (\<forall>b \<in> set (beginning_loop k u a codes). k \<le> b \<and> b < k + length codes)"
proof (induction k u a codes rule: beginning_loop.induct)
  case (2 k u a code codes)
  let ?rest = "beginning_loop (Suc k) (code_is_upper code) (code_is_alphanumeric code) codes"
  have "sorted_wrt (<) ?rest" "\<forall>b \<in> set ?rest. Suc k \<le> b \<and> b < Suc k + length codes"
    using 2 by auto
  then show ?case by (auto simp: Let_def Suc_le_eq intro: less_imp_le)
qed auto

lemma length_next_beginning_loop [simp]: "length (next_beginning_loop n bs is) = length is"
  by (induction n bs "is" rule: next_beginning_loop.induct) (auto simp: Let_def)

text \<open>The table computed by one pass over the sorted list of beginnings.\<close>

lemma next_beginning_loop_table:
  assumes "sorted_wrt (<) bs" "\<forall>b \<in> set bs. i \<le> b \<and> b < n" "i \<le> k" "k < n"
  shows "k < next_beginning_loop n bs [i..<n] ! (k - i) \<and>
         next_beginning_loop n bs [i..<n] ! (k - i) \<in> insert n (set bs) \<and>
         (\<forall>b \<in> set bs. k < b \<longrightarrow> next_beginning_loop n bs [i..<n] ! (k - i) \<le> b)"
  using assms
proof (induction "n - i" arbitrary: i bs)
  case 0
  then show ?case by simp
next
  case (Suc d)
  then have upt: "[i..<n] = i # [Suc i..<n]" by (simp add: upt_conv_Cons)
  define bs' where "bs' = (if last_beginning n bs > i then bs else tl bs)"
  have sub: "set bs' \<subseteq> set bs" and keep: "\<forall>b \<in> set bs. i < b \<longrightarrow> b \<in> set bs'"
    and sorted': "sorted_wrt (<) bs'" and above: "\<forall>b \<in> set bs'. Suc i \<le> b \<and> b < n"
    using Suc.prems by (atomize (full), cases bs) (force simp: bs'_def last_beginning_def)+
  have eq: "next_beginning_loop n bs [i..<n] =
              last_beginning n bs' # next_beginning_loop n bs' [Suc i..<n]"
    by (simp add: upt bs'_def Let_def)
  show ?case
  proof (cases "k = i")
    case True
    then have "next_beginning_loop n bs [i..<n] ! (k - i) = last_beginning n bs'"
      by (simp add: eq)
    moreover have "i < last_beginning n bs'" "last_beginning n bs' \<in> insert n (set bs)"
      "\<forall>b \<in> set bs'. last_beginning n bs' \<le> b"
      using above sorted' sub Suc.prems
      by (atomize (full), cases bs') (force simp: last_beginning_def)+
    ultimately show ?thesis using True keep by auto
  next
    case False
    then have k: "Suc i \<le> k" "k < n" using Suc.prems by auto
    have "next_beginning_loop n bs [i..<n] ! (k - i) =
          next_beginning_loop n bs' [Suc i..<n] ! (k - Suc i)"
      using k by (simp add: eq nth_Cons')
    moreover have "d = n - Suc i" using Suc.hyps(2) by simp
    ultimately show ?thesis
      using Suc.hyps(1) [OF _ sorted' above k] sub keep k by auto
  qed
qed

lemma length_prepare_lower_codes [simp]:
  "length (prepare_lower_codes lc s) = length (encode_utf16 s)"
  by (simp add: prepare_lower_codes_def Let_def)

interpretation nb: beginning_table "prepare_lower_codes lc name" "set (beginning_indexes name)"
  "next_beginning_indexes (length (prepare_lower_codes lc name)) (beginning_indexes name)" for lc name
proof (unfold_locales, goal_cases)
  case 1
  then show ?case by (simp add: next_beginning_indexes_def)
next
  case (2 i)
  with next_beginning_loop_table [of "beginning_indexes name" 0 _ i]
    beginning_loop_sorted [of 0 False False "encode_utf16 name"]
  show ?case by (simp add: next_beginning_indexes_def beginning_indexes_def)
next
  case (3 i)
  with next_beginning_loop_table [of "beginning_indexes name" 0 _ i]
    beginning_loop_sorted [of 0 False False "encode_utf16 name"]
  show ?case by (fastforce simp: next_beginning_indexes_def beginning_indexes_def)
next
  case (4 i)
  with next_beginning_loop_table [of "beginning_indexes name" 0 _ i]
    beginning_loop_sorted [of 0 False False "encode_utf16 name"]
  show ?case by (fastforce simp: next_beginning_indexes_def beginning_indexes_def)
next
  case (5 i b)
  with next_beginning_loop_table [of "beginning_indexes name" 0 _ i]
    beginning_loop_sorted [of 0 False False "encode_utf16 name"]
  show ?case by (simp add: next_beginning_indexes_def beginning_indexes_def)
qed

section \<open>What the fuzzy matcher returns\<close>

lemma embeds_subseq: "embeds target search is \<Longrightarrow> subseq search target"
proof (induction "is" arbitrary: search target rule: rev_induct)
  case Nil
  then show ?case by (simp add: embeds_def)
next
  case (snoc i "is")
  have len: "length search = Suc (length is)" and map: "map ((!) target) (is @ [i]) = search"
    and less: "\<forall>j \<in> set is. j < i" and i: "i < length target" and sorted: "sorted_wrt (<) is"
    using snoc.prems by (auto simp: embeds_def sorted_wrt_append)
  have "embeds (take i target) (map ((!) target) is) is"
    using less i sorted by (auto simp: embeds_def)
  then have "subseq (map ((!) target) is) (take i target)" by (rule snoc.IH)
  moreover have "subseq [target ! i] (drop i target)"
    using i by (simp add: Cons_nth_drop_Suc [symmetric])
  ultimately have "subseq (map ((!) target) is @ [target ! i]) (take i target @ drop i target)"
    by (rule list_emb_append_mono)
  then show ?case using map by auto
qed

lemma fuzzy_match_cases:
  assumes "fuzzy_match lc name query = Some m"
  obtains simple strict where
    "prepare_lower_codes lc query \<noteq> []"
    "greedy_indexes (prepare_lower_codes lc name) (prepare_lower_codes lc query) = Some simple"
    "strict = strict_indexes (prepare_lower_codes lc name) (prepare_lower_codes lc query)
                (next_beginning_indexes (length (prepare_lower_codes lc name)) (beginning_indexes name))
                (first_possible (next_beginning_indexes (length (prepare_lower_codes lc name))
                   (beginning_indexes name)) simple)"
    "fm_indexes m = (case strict of Some is \<Rightarrow> is | None \<Rightarrow> simple)"
    "fm_score m = (if strict = None then gap_score None 0 (fm_indexes m) * 1000
                   else gap_score None 0 (fm_indexes m))
                  - int (length (prepare_lower_codes lc name) - length (prepare_lower_codes lc query))"
  using assms by (auto simp: fuzzy_match_def Let_def split: if_splits option.splits)

lemma fuzzy_match_embeds:
  assumes "fuzzy_match lc name query = Some m"
  shows "embeds (prepare_lower_codes lc name) (prepare_lower_codes lc query) (fm_indexes m)"
  using assms
proof (rule fuzzy_match_cases)
  fix simple strict
  assume ne: "prepare_lower_codes lc query \<noteq> []"
    and simple: "greedy_indexes (prepare_lower_codes lc name) (prepare_lower_codes lc query) = Some simple"
    and strict: "strict = strict_indexes (prepare_lower_codes lc name) (prepare_lower_codes lc query)
                (next_beginning_indexes (length (prepare_lower_codes lc name)) (beginning_indexes name))
                (first_possible (next_beginning_indexes (length (prepare_lower_codes lc name))
                   (beginning_indexes name)) simple)"
    and idx: "fm_indexes m = (case strict of Some is \<Rightarrow> is | None \<Rightarrow> simple)"
  show ?thesis
  proof (cases strict)
    case None
    with idx greedy_indexes_embeds [OF simple] show ?thesis by simp
  next
    case (Some js)
    with strict nb.strict_indexes_Some [OF ne] idx show ?thesis
      using strict_chain_embeds by fastforce
  qed
qed

lemma gap_score_bounds:
  "acc - int (sum_list is) \<le> gap_score l acc is \<and> gap_score l acc is \<le> acc"
  by (induction l acc "is" rule: gap_score.induct) (auto split: if_splits)

lemma sum_list_bound: "\<forall>i \<in> set is. i < n \<Longrightarrow> sum_list is \<le> length is * n" for n :: nat
  by (induction "is") auto

lemma embeds_length_le: "embeds target search is \<Longrightarrow> length search \<le> length target"
  using embeds_subseq list_emb_length by blast

text \<open>A concrete match, evaluated: the row of the test \<open>fuzzy_indexes_are_character_positions\<close>.\<close>

lemmas query_eval =
  fuzzy_match_def prepare_lower_codes_def encode_utf16_def encode_utf16_char_def
  to_ascii_lowercase_def U32_MAX_def greedy_indexes_def beginning_indexes_def code_is_upper_def
  code_is_alphanumeric_def next_beginning_indexes_def last_beginning_def first_possible_def
  strict_indexes_def checked_sub1_def Let_def upt_rec strict_loop.simps

lemma fuzzy_match_checkout:
  "fuzzy_match (map to_ascii_lowercase) (lit ''checkout'') (lit ''ckt'') =
     Some \<lparr>fm_score = -11005, fm_indexes = [0, 4, 7]\<rparr>"
  by (simp add: query_eval)

section \<open>Properties\<close>

text \<open>
  Property C1. The fuzzy matcher accepts a name exactly when the query is non-empty and its
  lowered UTF-16 codes are a subsequence of the name's: the strict word-boundary pass only
  chooses better positions, it never loses or adds a match.
\<close>

theorem fuzzy_match_iff_subseq:
  "fuzzy_match lc name query \<noteq> None \<longleftrightarrow>
     query \<noteq> [] \<and> subseq (prepare_lower_codes lc query) (prepare_lower_codes lc name)"
proof -
  have ne: "prepare_lower_codes lc query \<noteq> [] \<longleftrightarrow> query \<noteq> []"
    by (cases query) (auto simp: prepare_lower_codes_def encode_utf16_def encode_utf16_char_def Let_def)
  show ?thesis
  proof (cases "query = []")
    case True
    then show ?thesis using ne by (simp add: fuzzy_match_def Let_def)
  next
    case False
    then have "greedy_indexes (prepare_lower_codes lc name) (prepare_lower_codes lc query) = None
       \<longleftrightarrow> \<not> subseq (prepare_lower_codes lc query) (prepare_lower_codes lc name)"
      using ne by (intro greedy_indexes_None_iff) simp
    with False ne show ?thesis by (auto simp: fuzzy_match_def Let_def split: option.splits)
  qed
qed

text \<open>
  Property C2. On the table of next word beginnings that the code computes, the
  backtracking loop returns for every non-empty search string and every start position. The
  answer it gives is a chain that starts at the start position or at a later word beginning
  and continues with the next character or at a later word beginning; it gives no answer
  only if there is no such chain.
\<close>

theorem strict_search_sound_complete:
  assumes "search \<noteq> []"
  shows "\<exists>r. strict_loop (prepare_lower_codes lc name) search
               (next_beginning_indexes (length (prepare_lower_codes lc name)) (beginning_indexes name))
               start [] = Some r \<and>
             (case r of
                Some js \<Rightarrow> strict_chain (prepare_lower_codes lc name) (set (beginning_indexes name))
                             start search js
              | None \<Rightarrow> (\<nexists>js. strict_chain (prepare_lower_codes lc name)
                             (set (beginning_indexes name)) start search js))"
  using nb.strict_loop_result [OF assms, where lc = lc and name = name and i = start] by auto

theorem strict_search_sound_complete_witness:
  "\<exists>r. strict_loop (prepare_lower_codes (map to_ascii_lowercase) (lit ''fooBar'')) (lit ''fb'')
         (next_beginning_indexes (length (prepare_lower_codes (map to_ascii_lowercase) (lit ''fooBar'')))
            (beginning_indexes (lit ''fooBar'')))
         0 [] = Some r \<and>
       (case r of
          Some js \<Rightarrow> strict_chain (prepare_lower_codes (map to_ascii_lowercase) (lit ''fooBar''))
                       (set (beginning_indexes (lit ''fooBar''))) 0 (lit ''fb'') js
        | None \<Rightarrow> (\<nexists>js. strict_chain (prepare_lower_codes (map to_ascii_lowercase) (lit ''fooBar''))
                       (set (beginning_indexes (lit ''fooBar''))) 0 (lit ''fb'') js))"
  by (rule strict_search_sound_complete) simp

text \<open>
  The positions of a fuzzy match are strictly increasing positions of the name,
  one per code of the query, and the codes at these positions are the query's.
\<close>

theorem fuzzy_match_positions:
  assumes "fuzzy_match lc name query = Some m"
  shows "length (fm_indexes m) = length (prepare_lower_codes lc query) \<and>
         sorted_wrt (<) (fm_indexes m) \<and>
         (\<forall>i \<in> set (fm_indexes m). i < length (encode_utf16 name)) \<and>
         map ((!) (prepare_lower_codes lc name)) (fm_indexes m) = prepare_lower_codes lc query"
  using fuzzy_match_embeds [OF assms] by (simp add: embeds_def)

theorem fuzzy_match_positions_witness:
  "length [0, 4, 7::nat] = length (prepare_lower_codes (map to_ascii_lowercase) (lit ''ckt'')) \<and>
   map ((!) (prepare_lower_codes (map to_ascii_lowercase) (lit ''checkout''))) [0, 4, 7] =
     prepare_lower_codes (map to_ascii_lowercase) (lit ''ckt'')"
  using fuzzy_match_positions [OF fuzzy_match_checkout] unfolding fuzzy_result.simps by blast

text \<open>
  The score of a fuzzy match is never positive, and it fits the code's 64-bit
  integer for every name of fewer than \<open>2 ^ 26\<close> UTF-16 units.
\<close>

theorem fuzzy_score_in_i64:
  assumes "fuzzy_match lc name query = Some m" and "length (encode_utf16 name) < 2 ^ 26"
  shows "- (2 ^ 63) \<le> fm_score m \<and> fm_score m \<le> 0"
proof -
  let ?n = "length (encode_utf16 name)"
  let ?g = "gap_score None 0 (fm_indexes m)"
  have emb: "embeds (prepare_lower_codes lc name) (prepare_lower_codes lc query) (fm_indexes m)"
    by (rule fuzzy_match_embeds [OF assms(1)])
  have "length (fm_indexes m) \<le> ?n"
    using embeds_length_le [OF emb] emb by (simp add: embeds_def)
  moreover have "sum_list (fm_indexes m) \<le> length (fm_indexes m) * ?n"
    using emb by (intro sum_list_bound) (simp add: embeds_def)
  ultimately have "sum_list (fm_indexes m) \<le> 2 ^ 26 * 2 ^ 26"
    using assms(2) by (meson le_trans less_imp_le mult_le_mono)
  then have g: "- (2 ^ 52) \<le> ?g" "?g \<le> 0"
    using gap_score_bounds [of 0 "fm_indexes m" None] by auto
  from assms(1) show ?thesis
    by (rule fuzzy_match_cases) (use g assms(2) in \<open>auto split: if_splits\<close>)
qed

theorem fuzzy_score_in_i64_witness:
  "length (encode_utf16 (lit ''checkout'')) < 2 ^ 26 \<and> - (2 ^ 63) \<le> (-11005::int) \<and> (-11005::int) \<le> 0"
proof -
  have n: "length (encode_utf16 (lit ''checkout'')) < 2 ^ 26" by (simp add: query_eval)
  from n fuzzy_score_in_i64 [OF fuzzy_match_checkout n] show ?thesis by simp
qed

text \<open>
  Fuzzy mode only adds rows, and only in the last bucket: whatever matches in
  prefix mode keeps its bucket and score in fuzzy mode, and a row that matches only in fuzzy
  mode falls into a bucket behind every exact or prefix match.
\<close>

theorem fuzzy_mode_extends_prefix_mode:
  "case match_score lc name query False of
     Some m \<Rightarrow> match_score lc name query True = Some m \<and> bucket m < kind_bucket Fuzzy
   | None \<Rightarrow> (case match_score lc name query True of
                Some m \<Rightarrow> bucket m = kind_bucket Fuzzy | None \<Rightarrow> True)"
  by (auto simp: match_score_def bucket_def split: option.splits)

section \<open>The case-insensitive comparison\<close>

lemma cmp_ignore_ascii_case_eq:
  "cmp_ignore_ascii_case a b = cmp_of (map to_ascii_lowercase a) (map to_ascii_lowercase b)"
  by (induction a b rule: cmp_ignore_ascii_case.induct) (auto simp: Let_def cmp_of_def)

interpretation ignore_case: total_compare cmp_ignore_ascii_case
  unfolding cmp_ignore_ascii_case_eq [abs_def] by (rule total_compare_key)

end
