(* ===== verification/Shell_Tokens.thy ===== *)
theory Shell_Tokens
  imports Query "HOL-Library.AList"
begin

text \<open>
  The shell scanner of \<open>crates/fastab_engine/src/lookup.rs\<close>, lines 11 to 640 and 2425: the
  tokenizer with its three kinds of quotes, alias expansion, the raw token under the caret,
  and the slice of the buffer that holds the command being typed (separators, subshells,
  leading assignments and redirections).

  Each scanning loop is a recursion over the characters that are left, with the loop's
  variables as arguments or as a record; byte offsets are kept where the code keeps them.
\<close>

section \<open>The tokenizer\<close>

datatype quote = Single | Double | AnsiC

fun quote_closer :: "quote \<Rightarrow> rchar" where
  "quote_closer Double = c_dquote"
| "quote_closer Single = c_squote"
| "quote_closer AnsiC = c_squote"

definition double_quote_escape :: "rchar \<Rightarrow> bool" where
  "double_quote_escape ch \<longleftrightarrow>
     ch = c_dollar \<or> ch = c_tick \<or> ch = c_dquote \<or> ch = c_bslash \<or> ch = c_nl"

record tok_state =
  ts_tokens :: "str list"
  ts_token :: str
  ts_started :: bool
  ts_quote :: "quote option"
  ts_escaped :: bool
  ts_trailing_space :: bool

definition tok_init :: tok_state where
  "tok_init = \<lparr>ts_tokens = [], ts_token = [], ts_started = False, ts_quote = None, ts_escaped = False,
               ts_trailing_space = False\<rparr>"

text \<open>The character after a backslash.\<close>

definition tok_escaped :: "tok_state \<Rightarrow> rchar \<Rightarrow> tok_state" where
  "tok_escaped st ch =
     st\<lparr>ts_token := (if ts_quote st = Some AnsiC then ts_token st @ [ch]
                  else ts_token st
                       @ (if ts_quote st = Some Double \<and> \<not> double_quote_escape ch then [c_bslash] else [])
                       @ (if ch \<noteq> c_nl \<or> ts_quote st \<noteq> Some Double then [ch] else [])),
        ts_started := True, ts_escaped := False, ts_trailing_space := False\<rparr>"

text \<open>A backslash.\<close>

definition tok_backslash :: "tok_state \<Rightarrow> tok_state" where
  "tok_backslash st =
     (case ts_quote st of
        Some Single \<Rightarrow> st\<lparr>ts_token := ts_token st @ [c_bslash], ts_started := True, ts_trailing_space := False\<rparr>
      | Some AnsiC \<Rightarrow> st\<lparr>ts_token := ts_token st @ [c_bslash], ts_escaped := True, ts_started := True,
                         ts_trailing_space := False\<rparr>
      | _ \<Rightarrow> st\<lparr>ts_escaped := True, ts_started := True, ts_trailing_space := False\<rparr>)"

text \<open>A character inside quotes.\<close>

definition tok_quoted :: "tok_state \<Rightarrow> quote \<Rightarrow> rchar \<Rightarrow> tok_state" where
  "tok_quoted st active ch =
     (if ch = quote_closer active then st\<lparr>ts_quote := None, ts_started := True, ts_trailing_space := False\<rparr>
      else st\<lparr>ts_token := ts_token st @ [ch], ts_started := True, ts_trailing_space := False\<rparr>)"

definition tok_open :: "tok_state \<Rightarrow> quote \<Rightarrow> tok_state" where
  "tok_open st q = st\<lparr>ts_quote := Some q, ts_started := True, ts_trailing_space := False\<rparr>"

text \<open>A separator ends the token that has been started; only a space is a trailing space.\<close>

definition tok_separator :: "tok_state \<Rightarrow> bool \<Rightarrow> tok_state" where
  "tok_separator st space =
     (if ts_started st
      then st\<lparr>ts_tokens := ts_tokens st @ [ts_token st], ts_token := [], ts_started := False, ts_trailing_space := space\<rparr>
      else st\<lparr>ts_trailing_space := space\<rparr>)"

definition tok_plain :: "tok_state \<Rightarrow> rchar \<Rightarrow> tok_state" where
  "tok_plain st ch =
     (if ch = c_squote then tok_open st Single
      else if ch = c_dquote then tok_open st Double
      else if ch = c_space then tok_separator st True
      else if ch = c_tab then tok_separator st False
      else if ch = c_nl \<or> ch = c_cr then tok_separator st False
      else st\<lparr>ts_token := ts_token st @ [ch], ts_started := True, ts_trailing_space := False\<rparr>)"

fun tok_loop :: "tok_state \<Rightarrow> str \<Rightarrow> tok_state" where
  "tok_loop st [] = st"
| "tok_loop st (ch # rest) =
     (if ts_escaped st then tok_loop (tok_escaped st ch) rest
      else if ch = c_bslash then tok_loop (tok_backslash st) rest
      else case ts_quote st of
        Some active \<Rightarrow> tok_loop (tok_quoted st active ch) rest
      | None \<Rightarrow>
          (if ch = c_dollar then
             (case rest of
                next # rest' \<Rightarrow>
                  (if next = c_squote then tok_loop (tok_open st AnsiC) rest'
                   else tok_loop (tok_plain st ch) rest)
              | [] \<Rightarrow> tok_plain st ch)
           else tok_loop (tok_plain st ch) rest))"

definition tok_finish :: "tok_state \<Rightarrow> str list \<times> bool" where
  "tok_finish st =
     (let st' = (if ts_escaped st then st\<lparr>ts_started := True, ts_trailing_space := False\<rparr> else st)
      in (if ts_started st' then ts_tokens st' @ [ts_token st'] else ts_tokens st',
          ts_trailing_space st' \<and> ts_quote st' = None))"

definition tokenize :: "str \<Rightarrow> str list \<times> bool" where
  "tokenize buffer = tok_finish (tok_loop tok_init buffer)"

definition parser_inner_text :: "str \<Rightarrow> str" where
  "parser_inner_text raw =
     (case fst (tokenize raw) of
        [] \<Rightarrow> []
      | [t] \<Rightarrow> t
      | _ \<Rightarrow> raw)"

section \<open>Aliases\<close>

definition str_contains :: "str \<Rightarrow> str \<Rightarrow> bool" where
  "str_contains s p \<longleftrightarrow> list_ex (\<lambda>t. starts_with t p) (suffixes s)"

text \<open>One line of the alias listing.\<close>

definition parse_alias_line :: "rchar \<Rightarrow> str \<Rightarrow> (str \<times> str) option" where
  "parse_alias_line separator raw_line =
     (let line = trim raw_line;
          line' = (case strip_prefix (lit ''alias '') line of Some l \<Rightarrow> l | None \<Rightarrow> line)
      in case split_once separator line' of
           None \<Rightarrow> None
         | Some (key, value) \<Rightarrow>
             (let key' = trim key
              in if key' = [] then None
                 else Some (key', trim_matches (\<lambda>c. c = c_squote) (trim value))))"

definition parse_alias_map :: "str \<Rightarrow> str option \<Rightarrow> (str \<times> str) list" where
  "parse_alias_map raw shell_path =
     (let separator = (case shell_path of
                         Some path \<Rightarrow> (if str_contains path (lit ''fish'') then c_space else c_eq)
                       | None \<Rightarrow> c_eq)
      in fold (\<lambda>line aliases.
                 case parse_alias_line separator line of
                   None \<Rightarrow> aliases
                 | Some (key, value) \<Rightarrow> AList.update key value aliases)
              (str_lines raw) [])"

text \<open>The expansion loop: \<open>used\<close> holds the names already expanded.\<close>

function alias_loop :: "(str \<times> str) list \<Rightarrow> bool \<Rightarrow> str set \<Rightarrow> str list \<Rightarrow> str list" where
  "alias_loop aliases ends_with_space used toks =
     (if length toks = 1 \<and> \<not> ends_with_space then toks
      else case toks of
        [] \<Rightarrow> toks
      | name # rest \<Rightarrow>
          (if name \<in> used then toks
           else case map_of aliases name of
             None \<Rightarrow> toks
           | Some value \<Rightarrow>
               (let alias_tokens = fst (tokenize value)
                in if alias_tokens = [] then toks
                   else alias_loop aliases ends_with_space (insert name used) (alias_tokens @ rest))))"
  by pat_completeness auto
termination
proof (relation "measure (\<lambda>(aliases, e, used, toks). card (set (map fst aliases) - used))", goal_cases)
  case 1
  then show ?case by simp
next
  case (2 aliases e used toks name rest val alias_tokens)
  then have "name \<in> set (map fst aliases)" by (auto dest: map_of_SomeD simp: rev_image_eqI)
  then have "set (map fst aliases) - insert name used \<subset> set (map fst aliases) - used"
    using 2 by auto
  then show ?case by (simp add: psubset_card_mono)
qed

declare alias_loop.simps [simp del]

definition expand_alias_tokens_with :: "str list \<Rightarrow> bool \<Rightarrow> (str \<times> str) list \<Rightarrow> str list" where
  "expand_alias_tokens_with toks ends_with_space aliases =
     (if toks = [] \<or> (length toks = 1 \<and> \<not> ends_with_space) then toks
      else alias_loop aliases ends_with_space {} toks)"

definition expand_alias_tokens :: "str list \<Rightarrow> bool \<Rightarrow> str \<Rightarrow> str option \<Rightarrow> str list" where
  "expand_alias_tokens toks ends_with_space raw_aliases shell_path =
     (if toks = [] \<or> (length toks = 1 \<and> \<not> ends_with_space) then toks
      else expand_alias_tokens_with toks ends_with_space (parse_alias_map raw_aliases shell_path))"

section \<open>The raw token under the caret\<close>

record raw_state =
  rs_start :: "nat option"
  rs_quote :: "quote option"
  rs_ansi_c_open :: bool
  rs_escaped :: bool

definition raw_init :: raw_state where
  "raw_init = \<lparr>rs_start = None, rs_quote = None, rs_ansi_c_open = False, rs_escaped = False\<rparr>"

definition mark_start :: "nat \<Rightarrow> raw_state \<Rightarrow> raw_state" where
  "mark_start index st = (if rs_start st = None then st\<lparr>rs_start := Some index\<rparr> else st)"

text \<open>One iteration; \<open>rest\<close> is the buffer after the character.\<close>

definition raw_step :: "raw_state \<Rightarrow> nat \<Rightarrow> rchar \<Rightarrow> str \<Rightarrow> raw_state" where
  "raw_step st index ch rest =
     (if rs_escaped st then mark_start index (st\<lparr>rs_escaped := False\<rparr>)
      else case rs_quote st of
        Some active \<Rightarrow>
          (if ch = c_bslash \<and> active \<noteq> Single then mark_start index (st\<lparr>rs_escaped := True\<rparr>)
           else if rs_ansi_c_open st then st\<lparr>rs_ansi_c_open := False\<rparr>
           else if ch = quote_closer active then st\<lparr>rs_quote := None\<rparr>
           else st)
      | None \<Rightarrow>
          (if ch = c_bslash then mark_start index (st\<lparr>rs_escaped := True\<rparr>)
           else if ch = c_dollar \<and> starts_with_char rest c_squote
           then mark_start index (st\<lparr>rs_quote := Some AnsiC, rs_ansi_c_open := True\<rparr>)
           else if ch = c_squote then mark_start index (st\<lparr>rs_quote := Some Single\<rparr>)
           else if ch = c_dquote then mark_start index (st\<lparr>rs_quote := Some Double\<rparr>)
           else if is_whitespace ch then st\<lparr>rs_start := None\<rparr>
           else mark_start index st))"

fun raw_loop :: "raw_state \<Rightarrow> nat \<Rightarrow> str \<Rightarrow> raw_state" where
  "raw_loop st index [] = st"
| "raw_loop st index (ch # rest) = raw_loop (raw_step st index ch rest) (index + len_utf8 ch) rest"

text \<open>The final slice \<open>buffer[index..]\<close> is at a character boundary (\<open>raw_start_boundary\<close>
  below), so the panic of an unchecked slice does not occur.\<close>

definition current_token_raw :: "str \<Rightarrow> str" where
  "current_token_raw buffer =
     (case rs_start (raw_loop raw_init 0 buffer) of
        None \<Rightarrow> []
      | Some index \<Rightarrow> (case str_from buffer index of Some s \<Rightarrow> s | None \<Rightarrow> []))"

section \<open>Assignments and redirections before the command\<close>

fun skip_ws_loop :: "nat \<Rightarrow> str \<Rightarrow> nat" where
  "skip_ws_loop index [] = index"
| "skip_ws_loop index (ch # rest) =
     (if is_whitespace ch then skip_ws_loop (index + len_utf8 ch) rest else index)"

definition skip_ws_bytes :: "str \<Rightarrow> nat \<Rightarrow> nat" where
  "skip_ws_bytes buffer index =
     (case str_from buffer index of None \<Rightarrow> index | Some rest \<Rightarrow> skip_ws_loop index rest)"

definition peek_char :: "str \<Rightarrow> nat \<Rightarrow> rchar option" where
  "peek_char buffer index =
     (case str_from buffer index of Some (c # _) \<Rightarrow> Some c | _ \<Rightarrow> None)"

text \<open>Only ASCII bytes are compared, so characters stand for the bytes of the code.\<close>

definition is_fd_redirection_token :: "str \<Rightarrow> bool" where
  "is_fd_redirection_token tok =
     (let saw_fd = (takeWhile is_ascii_digit tok \<noteq> []);
          after_fd = dropWhile is_ascii_digit tok
      in case after_fd of
           b # rest \<Rightarrow>
             (if b = c_gt \<or> b = c_lt then
                (let saw_amp = starts_with_char rest c_amp;
                     after_amp = (if saw_amp then tl rest else rest)
                 in dropWhile is_ascii_digit after_amp = [] \<and> (saw_fd \<or> saw_amp))
              else False)
         | [] \<Rightarrow> False)"

fun assignment_loop :: "bool \<Rightarrow> str \<Rightarrow> bool" where
  "assignment_loop saw_name [] = False"
| "assignment_loop saw_name (ch # rest) =
     (if is_ascii_alphanumeric ch \<or> ch = c_under \<or> ch = c_lbracket \<or> ch = c_rbracket
      then assignment_loop True rest
      else if ch = c_plus then saw_name \<and> starts_with_char rest c_eq
      else saw_name \<and> ch = c_eq)"

definition is_assignment_token :: "str \<Rightarrow> bool" where
  "is_assignment_token tok = assignment_loop False tok"

record first_state =
  fs_started :: bool
  fs_quote :: "quote option"
  fs_ansi_c_open :: bool
  fs_escaped :: bool
  fs_end :: nat

definition first_init :: first_state where
  "first_init = \<lparr>fs_started = False, fs_quote = None, fs_ansi_c_open = False, fs_escaped = False,
                 fs_end = 0\<rparr>"

text \<open>One iteration of the scan for the end of the first token. \<open>None\<close>: the token ended
  before this character.\<close>

definition first_step :: "first_state \<Rightarrow> nat \<Rightarrow> rchar \<Rightarrow> str \<Rightarrow> first_state option" where
  "first_step st index ch rest =
     (let take_char = (\<lambda>s. s\<lparr>fs_started := True, fs_end := index + len_utf8 ch\<rparr>)
      in if fs_escaped st then Some (take_char (st\<lparr>fs_escaped := False\<rparr>))
         else case fs_quote st of
           Some active \<Rightarrow>
             (if ch = c_bslash \<and> active \<noteq> Single then Some (take_char (st\<lparr>fs_escaped := True\<rparr>))
              else if fs_ansi_c_open st then Some (take_char (st\<lparr>fs_ansi_c_open := False\<rparr>))
              else if ch = quote_closer active then Some (take_char (st\<lparr>fs_quote := None\<rparr>))
              else Some (take_char st))
         | None \<Rightarrow>
             (if ch = c_bslash then Some (take_char (st\<lparr>fs_escaped := True\<rparr>))
              else if ch = c_dollar \<and> starts_with_char rest c_squote
              then Some (take_char (st\<lparr>fs_quote := Some AnsiC, fs_ansi_c_open := True\<rparr>))
              else if ch = c_squote \<or> ch = c_dquote
              then Some (take_char (st\<lparr>fs_quote := Some (if ch = c_squote then Single else Double)\<rparr>))
              else if is_whitespace ch then (if fs_started st then None else Some st)
              else Some (take_char st)))"

fun first_loop :: "first_state \<Rightarrow> nat \<Rightarrow> str \<Rightarrow> nat" where
  "first_loop st index [] = (if fs_started st then fs_end st else 0)"
| "first_loop st index (ch # rest) =
     (case first_step st index ch rest of
        None \<Rightarrow> index
      | Some st' \<Rightarrow> first_loop st' (index + len_utf8 ch) rest)"

definition raw_first_token_end :: "str \<Rightarrow> nat" where
  "raw_first_token_end buffer = first_loop first_init 0 buffer"

definition get_from :: "str \<Rightarrow> nat \<Rightarrow> str" where
  "get_from s i = (case str_from s i of Some t \<Rightarrow> t | None \<Rightarrow> [])"

definition get_upto :: "str \<Rightarrow> nat \<Rightarrow> str" where
  "get_upto s i = (case str_upto s i of Some t \<Rightarrow> t | None \<Rightarrow> [])"

lemma str_from_shorter: "str_from s i = Some t \<Longrightarrow> 0 < i \<Longrightarrow> length t < length s"
  by (auto dest!: str_from_SomeD simp: str_len_pos_iff)

lemma get_from_shorter: "s \<noteq> [] \<Longrightarrow> 0 < i \<Longrightarrow> length (get_from s i) < length s"
  by (auto simp: get_from_def str_from_shorter split: option.splits)

lemma get_from_suffix: "suffix (get_from s i) s"
  by (auto simp: get_from_def str_from_suffix split: option.splits)

definition is_quoted_start :: "str \<Rightarrow> bool" where
  "is_quoted_start raw \<longleftrightarrow>
     starts_with_char raw c_squote \<or> starts_with_char raw c_dquote \<or>
     starts_with raw [c_dollar, c_squote]"

function skip_leading_assignments :: "str \<Rightarrow> str" where
  "skip_leading_assignments rest =
     (let start = skip_ws_bytes rest 0
      in if str_len rest \<le> start then []
         else (let candidate = get_from rest start
               in case fst (tokenize candidate) of
                    [] \<Rightarrow> []
                  | first # _ \<Rightarrow>
                      (let token_end = raw_first_token_end candidate
                       in if token_end = 0 then candidate
                          else if is_quoted_start (get_upto candidate token_end) \<or>
                                  \<not> (is_assignment_token first \<or> is_fd_redirection_token first)
                          then candidate
                          else skip_leading_assignments (get_from candidate token_end))))"
  by pat_completeness auto
termination
proof (relation "measure length", goal_cases)
  case 1
  then show ?case by simp
next
  case (2 rest start candidate first tail token_end)
  have le: "length candidate \<le> length rest"
    using get_from_suffix 2(3) by (simp add: suffix_length_le)
  show ?case
  proof (cases "candidate = []")
    case True
    then have "tokenize candidate = ([], False)"
      by (simp add: tokenize_def tok_finish_def tok_init_def)
    with 2 show ?thesis by simp
  next
    case False
    then show ?thesis using get_from_shorter [of candidate token_end] 2 le by simp
  qed
qed

declare skip_leading_assignments.simps [simp del]

section \<open>The command under the caret\<close>

text \<open>The operator at \<open>index\<close>: \<open>rest\<close> is the buffer from there, \<open>prev\<close> the character
  before.\<close>

definition operator_len :: "str \<Rightarrow> nat \<Rightarrow> nat option" where
  "operator_len buffer index =
     (case str_from buffer index of
        None \<Rightarrow> None
      | Some [] \<Rightarrow> None
      | Some (ch # chars) \<Rightarrow>
          (let next = (case chars of [] \<Rightarrow> None | c # _ \<Rightarrow> Some c)
           in if ((ch = c_amp \<or> ch = c_pipe) \<and> next = Some c_amp) \<or>
                 (ch = c_amp \<and> next = Some c_semi) \<or>
                 (ch = c_pipe \<and> next = Some c_pipe)
              then Some 2
              else if ch = c_semi \<or> ch = c_pipe \<or> ch = c_nl then Some 1
              else if ch = c_amp then
                (let prev = (case str_upto buffer index of
                               Some p \<Rightarrow> (if p = [] then None else Some (last p))
                             | None \<Rightarrow> None)
                 in if prev = Some c_gt \<or> prev = Some c_lt \<or> next = Some c_gt then None else Some 1)
              else None))"

datatype frame_kind = Root | Subshell | Compound | Backtick

record command_frame =
  cf_start :: nat
  cf_kind :: frame_kind

definition at_statement_boundary :: "str \<Rightarrow> nat \<Rightarrow> nat \<Rightarrow> bool" where
  "at_statement_boundary buffer command_start current =
     (case str_upto buffer current of
        None \<Rightarrow> False
      | Some upto_current \<Rightarrow>
          (case str_from upto_current command_start of
             None \<Rightarrow> False
           | Some statement \<Rightarrow> list_all is_whitespace (skip_leading_assignments statement)))"

text \<open>The frame stack, innermost frame first.\<close>

definition pop_frame :: "frame_kind \<Rightarrow> command_frame list \<Rightarrow> command_frame list option" where
  "pop_frame k frames =
     (case frames of
        f # fs \<Rightarrow> (if cf_kind f = k then Some fs else None)
      | [] \<Rightarrow> None)"

definition top_start :: "command_frame list \<Rightarrow> nat" where
  "top_start frames = (case frames of [] \<Rightarrow> 0 | f # _ \<Rightarrow> cf_start f)"

definition set_top_start :: "nat \<Rightarrow> command_frame list \<Rightarrow> command_frame list" where
  "set_top_start s frames = (case frames of [] \<Rightarrow> [] | f # fs \<Rightarrow> f\<lparr>cf_start := s\<rparr> # fs)"

text \<open>What one iteration outside quotes does at a character that is neither a quote, nor a
  dollar, nor a backtick: the new frames and the number of characters (all of them ASCII
  when it is not the character itself) that are consumed.\<close>

definition frame_step :: "str \<Rightarrow> command_frame list \<Rightarrow> nat \<Rightarrow> rchar \<Rightarrow> command_frame list \<times> nat" where
  "frame_step buffer frames index ch =
     (let after = index + len_utf8 ch;
          command_start = top_start frames
      in if ch = c_lparen \<and> at_statement_boundary buffer command_start index
         then (\<lparr>cf_start = after, cf_kind = Subshell\<rparr> # frames, 1)
         else if ch = c_lbrace \<and> at_statement_boundary buffer command_start index
         then (\<lparr>cf_start = after, cf_kind = Compound\<rparr> # frames, 1)
         else if ch = c_rparen \<and> pop_frame Subshell frames \<noteq> None
         then (the (pop_frame Subshell frames), 1)
         else if ch = c_rbrace \<and> pop_frame Compound frames \<noteq> None
         then (the (pop_frame Compound frames), 1)
         else case operator_len buffer index of
                Some op_len \<Rightarrow>
                  (set_top_start (skip_ws_bytes buffer (index + op_len)) frames, op_len)
              | None \<Rightarrow> (frames, 1))"

text \<open>The scan; \<open>rest\<close> is the buffer from \<open>index\<close>.\<close>

function (sequential) command_loop ::
  "str \<Rightarrow> command_frame list \<Rightarrow> quote option \<Rightarrow> bool \<Rightarrow> nat \<Rightarrow> str \<Rightarrow> command_frame list" where
  "command_loop buffer frames quote escaped index [] = frames"
| "command_loop buffer frames quote escaped index (ch # rest) =
     (let after = index + len_utf8 ch
      in if escaped then command_loop buffer frames quote False after rest
         else if ch = c_bslash \<and> quote \<noteq> Some Single
         then command_loop buffer frames quote True after rest
         else case quote of
           Some active \<Rightarrow>
             command_loop buffer frames (if ch = quote_closer active then None else quote) False after rest
         | None \<Rightarrow>
             (if ch = c_squote \<or> ch = c_dquote
              then command_loop buffer frames (Some (if ch = c_squote then Single else Double)) False
                     after rest
              else if ch = c_dollar then
                (if starts_with_char rest c_squote
                 then command_loop buffer frames (Some AnsiC) False (after + 1) (tl rest)
                 else if starts_with_char rest c_lparen then
                   (if starts_with_char (tl rest) c_lparen
                    then command_loop buffer frames None False after rest
                    else command_loop buffer
                           (\<lparr>cf_start = after + 1, cf_kind = Subshell\<rparr> # frames) None False
                           (after + 1) (tl rest))
                 else command_loop buffer frames None False after rest)
              else if ch = c_tick then
                (case pop_frame Backtick frames of
                   Some fs \<Rightarrow> command_loop buffer fs None False after rest
                 | None \<Rightarrow> command_loop buffer (\<lparr>cf_start = after, cf_kind = Backtick\<rparr> # frames)
                             None False after rest)
              else case frame_step buffer frames index ch of
                (frames', n) \<Rightarrow>
                  (if n = 2
                   then command_loop buffer frames' None False (index + 2) (tl rest)
                   else command_loop buffer frames' None False after rest)))"
  by pat_completeness auto
termination
  by (relation "measure (\<lambda>(buffer, frames, quote, escaped, index, rest). length rest)") auto

definition innermost_command_start :: "str \<Rightarrow> nat" where
  "innermost_command_start buffer =
     top_start (command_loop buffer [\<lparr>cf_start = 0, cf_kind = Root\<rparr>] None False 0 buffer)"

definition current_command_slice :: "str \<Rightarrow> str" where
  "current_command_slice buffer =
     skip_leading_assignments (get_from buffer (innermost_command_start buffer))"

fun floor_boundary :: "str \<Rightarrow> nat \<Rightarrow> nat" where
  "floor_boundary s end =
     (if end = 0 \<or> is_char_boundary s end then end else floor_boundary s (end - 1))"

declare floor_boundary.simps [simp del]

definition buffer_before_cursor :: "str \<Rightarrow> nat option \<Rightarrow> str" where
  "buffer_before_cursor buffer cursor =
     (case cursor of
        None \<Rightarrow> buffer
      | Some c \<Rightarrow> get_upto buffer (floor_boundary buffer (min c (str_len buffer))))"

definition completion_buffer :: "str \<Rightarrow> nat option \<Rightarrow> str" where
  "completion_buffer buffer cursor = current_command_slice (buffer_before_cursor buffer cursor)"

definition is_fresh_command_position :: "str \<Rightarrow> bool" where
  "is_fresh_command_position buffer =
     (let start = innermost_command_start buffer
      in 0 < start \<and> buffer \<noteq> [] \<and> is_whitespace (last buffer) \<and>
         (case str_from buffer start of
            None \<Rightarrow> False | Some rest \<Rightarrow> list_all is_whitespace rest))"

end
