(* ===== verification/Shell_Facts.thy ===== *)
theory Shell_Facts
  imports Shell_Tokens
begin

text \<open>
  Properties of the shell scanner: quoting round trip, agreement of the raw token under the
  caret with the tokenizer, alias expansion, and the slice that holds the current command.
\<close>

section \<open>Running the tokenizer\<close>

lemmas tok_defs =
  tok_escaped_def tok_backslash_def tok_quoted_def tok_open_def tok_separator_def tok_plain_def

declare tok_loop.simps(2) [simp del]

text \<open>The loop, one rule per branch.\<close>

lemma tok_loop_branches:
  "ts_escaped st \<Longrightarrow> tok_loop st (ch # rest) = tok_loop (tok_escaped st ch) rest"
  "\<not> ts_escaped st \<Longrightarrow> tok_loop st (c_bslash # rest) = tok_loop (tok_backslash st) rest"
  "\<not> ts_escaped st \<Longrightarrow> ch \<noteq> c_bslash \<Longrightarrow> ts_quote st = Some active \<Longrightarrow>
     tok_loop st (ch # rest) = tok_loop (tok_quoted st active ch) rest"
  "\<not> ts_escaped st \<Longrightarrow> ts_quote st = None \<Longrightarrow>
     tok_loop st (c_dollar # c_squote # rest) = tok_loop (tok_open st AnsiC) rest"
  "\<not> ts_escaped st \<Longrightarrow> ch \<noteq> c_bslash \<Longrightarrow> ts_quote st = None \<Longrightarrow>
     \<not> (ch = c_dollar \<and> starts_with_char rest c_squote) \<Longrightarrow>
     tok_loop st (ch # rest) = tok_loop (tok_plain st ch) rest"
  by (subst tok_loop.simps(2); auto simp: starts_with_char_def split: list.splits)+

text \<open>Induction over the branches of the loop.\<close>

lemma tok_loop_induct [case_names Nil escaped backslash quoted ansi plain]:
  assumes "\<And>st. P st []"
    and "\<And>st ch rest. ts_escaped st \<Longrightarrow> P (tok_escaped st ch) rest \<Longrightarrow> P st (ch # rest)"
    and "\<And>st rest. \<not> ts_escaped st \<Longrightarrow> P (tok_backslash st) rest \<Longrightarrow> P st (c_bslash # rest)"
    and "\<And>st ch rest active. \<not> ts_escaped st \<Longrightarrow> ch \<noteq> c_bslash \<Longrightarrow> ts_quote st = Some active \<Longrightarrow>
           P (tok_quoted st active ch) rest \<Longrightarrow> P st (ch # rest)"
    and "\<And>st rest. \<not> ts_escaped st \<Longrightarrow> ts_quote st = None \<Longrightarrow> P (tok_open st AnsiC) rest \<Longrightarrow>
           P st (c_dollar # c_squote # rest)"
    and "\<And>st ch rest. \<not> ts_escaped st \<Longrightarrow> ch \<noteq> c_bslash \<Longrightarrow> ts_quote st = None \<Longrightarrow>
           \<not> (ch = c_dollar \<and> starts_with_char rest c_squote) \<Longrightarrow>
           P (tok_plain st ch) rest \<Longrightarrow> P st (ch # rest)"
  shows "P st cs"
proof (induction cs arbitrary: st rule: length_induct)
  case (1 cs)
  show ?case
  proof (cases cs)
    case Nil
    then show ?thesis using assms(1) by simp
  next
    case (Cons ch rest)
    have IH: "P st' rest" for st' using 1 Cons by simp
    consider "ts_escaped st" | "\<not> ts_escaped st" "ch = c_bslash"
      | active where "\<not> ts_escaped st" "ch \<noteq> c_bslash" "ts_quote st = Some active"
      | "\<not> ts_escaped st" "ch \<noteq> c_bslash" "ts_quote st = None"
        "ch = c_dollar \<and> starts_with_char rest c_squote"
      | "\<not> ts_escaped st" "ch \<noteq> c_bslash" "ts_quote st = None"
        "\<not> (ch = c_dollar \<and> starts_with_char rest c_squote)"
      by blast
    then show ?thesis
    proof cases
      case 4
      then obtain rest' where r: "rest = c_squote # rest'"
        by (auto simp: starts_with_char_def split: list.splits)
      then have "P (tok_open st AnsiC) rest'" using 1 Cons by simp
      with 4 Cons r assms(5) show ?thesis by simp
    qed (use Cons IH assms in auto)
  qed
qed

text \<open>Finished tokens are only appended to.\<close>

lemma tok_step_prepend:
  fixes st ts
  defines "st2 \<equiv> st\<lparr>ts_tokens := ts @ ts_tokens st\<rparr>"
  shows "tok_escaped st2 c = (tok_escaped st c)\<lparr>ts_tokens := ts @ ts_tokens (tok_escaped st c)\<rparr>"
    and "tok_backslash st2 = (tok_backslash st)\<lparr>ts_tokens := ts @ ts_tokens (tok_backslash st)\<rparr>"
    and "tok_quoted st2 a c = (tok_quoted st a c)\<lparr>ts_tokens := ts @ ts_tokens (tok_quoted st a c)\<rparr>"
    and "tok_open st2 a = (tok_open st a)\<lparr>ts_tokens := ts @ ts_tokens (tok_open st a)\<rparr>"
    and "tok_plain st2 c = (tok_plain st c)\<lparr>ts_tokens := ts @ ts_tokens (tok_plain st c)\<rparr>"
  by (cases st; simp add: st2_def tok_defs split: option.split quote.split)+

lemma tok_loop_prepend:
  "tok_loop (st\<lparr>ts_tokens := ts @ ts_tokens st\<rparr>) cs =
     (tok_loop st cs)\<lparr>ts_tokens := ts @ ts_tokens (tok_loop st cs)\<rparr>"
  by (induction st cs rule: tok_loop_induct)
     (simp_all add: tok_loop_branches tok_step_prepend)

text \<open>The trailing-space flag is overwritten by every character.\<close>

lemma tok_step_trailing:
  fixes st b
  defines "st2 \<equiv> st\<lparr>ts_trailing_space := b\<rparr>"
  shows "tok_escaped st2 c = tok_escaped st c" and "tok_backslash st2 = tok_backslash st"
    and "tok_quoted st2 a c = tok_quoted st a c" and "tok_open st2 a = tok_open st a"
    and "tok_plain st2 c = tok_plain st c"
  by (cases st; simp add: st2_def tok_defs split: option.split quote.split)+

lemma tok_loop_trailing: "cs \<noteq> [] \<Longrightarrow> tok_loop (st\<lparr>ts_trailing_space := b\<rparr>) cs = tok_loop st cs"
  by (induction st cs rule: tok_loop_induct)
     (simp_all add: tok_loop_branches tok_step_trailing)

section \<open>Quoting round trip\<close>

definition single_quote :: "str \<Rightarrow> str" where
  "single_quote w = [c_squote] @ w @ [c_squote]"

lemma tok_loop_in_single:
  assumes "c_squote \<notin> set w" "ts_quote st = Some Single" "\<not> ts_escaped st" "ts_started st"
    "\<not> ts_trailing_space st"
  shows "tok_loop st (w @ rest) = tok_loop (st\<lparr>ts_token := ts_token st @ w\<rparr>) rest"
  using assms
proof (induction w arbitrary: st)
  case Nil
  then show ?case by simp
next
  case (Cons c w)
  let ?st = "st\<lparr>ts_token := ts_token st @ [c]\<rparr>"
  have "tok_loop st ((c # w) @ rest) = tok_loop ?st (w @ rest)"
    using Cons.prems
    by (cases st; cases "c = c_bslash") (auto simp: tok_loop_branches tok_defs)
  also have "\<dots> = tok_loop (?st\<lparr>ts_token := ts_token ?st @ w\<rparr>) rest"
    using Cons.prems by (intro Cons.IH) auto
  finally show ?case by simp
qed

definition tok_ready :: "str list \<Rightarrow> bool \<Rightarrow> tok_state" where
  "tok_ready ts b = \<lparr>ts_tokens = ts, ts_token = [], ts_started = False, ts_quote = None,
                     ts_escaped = False, ts_trailing_space = b\<rparr>"

definition tok_word :: "str list \<Rightarrow> str \<Rightarrow> tok_state" where
  "tok_word ts w = \<lparr>ts_tokens = ts, ts_token = w, ts_started = True, ts_quote = None,
                    ts_escaped = False, ts_trailing_space = False\<rparr>"

lemma tok_loop_single_quoted:
  assumes "c_squote \<notin> set w"
  shows "tok_loop (tok_ready ts b) (single_quote w @ rest) = tok_loop (tok_word ts w) rest"
  using assms
  by (simp add: single_quote_def tok_loop_branches tok_loop_in_single tok_ready_def tok_word_def tok_defs)

lemma tok_word_space [simp]:
  "tok_loop (tok_word ts w) (c_space # rest) = tok_loop (tok_ready (ts @ [w]) True) rest"
  by (simp add: tok_loop_branches tok_word_def tok_ready_def tok_defs)

lemma tok_loop_quoted_words:
  assumes "\<forall>w \<in> set (w # ws). c_squote \<notin> set w"
  shows "tok_loop (tok_ready ts b) (str_join [c_space] (map single_quote (w # ws))) =
           tok_word (ts @ butlast (w # ws)) (last (w # ws))"
  using assms
proof (induction ws arbitrary: w ts b)
  case Nil
  then show ?case
    using tok_loop_single_quoted [of w ts b "[]"] by (simp add: tok_word_def)
next
  case (Cons v vs)
  have "tok_loop (tok_ready ts b) (str_join [c_space] (map single_quote (w # v # vs))) =
        tok_loop (tok_ready (ts @ [w]) True) (str_join [c_space] (map single_quote (v # vs)))"
    using Cons.prems by (simp add: tok_loop_single_quoted)
  also have "\<dots> = tok_word ((ts @ [w]) @ butlast (v # vs)) (last (v # vs))"
    using Cons.prems by (intro Cons.IH) auto
  finally show ?case by simp
qed

lemma tok_init_ready: "tok_init = tok_ready [] False"
  by (simp add: tok_init_def tok_ready_def)

text \<open>
  Property C3. Quoting round trip: for words without single quotes, tokenizing the
  single-quoted words joined by spaces gives the words back, whatever spaces, backslashes,
  dollars, double quotes or separators they contain, with no trailing space.
\<close>

theorem tokenize_single_quoted:
  assumes "\<forall>w \<in> set ws. c_squote \<notin> set w"
  shows "tokenize (str_join [c_space] (map single_quote ws)) = (ws, False)"
proof (cases ws)
  case Nil
  then show ?thesis by (simp add: tokenize_def tok_finish_def tok_init_def)
next
  case (Cons w vs)
  have "tok_loop tok_init (str_join [c_space] (map single_quote ws)) = tok_word (butlast ws) (last ws)"
    using tok_loop_quoted_words [of w vs "[]" False] assms by (simp add: Cons tok_init_ready)
  then show ?thesis
    using Cons by (simp add: tokenize_def tok_finish_def tok_word_def)
qed

theorem tokenize_single_quoted_witness:
  "tokenize (str_join [c_space] (map single_quote [lit ''a && b'', [], [c_bslash, c_dquote]])) =
     ([lit ''a && b'', [], [c_bslash, c_dquote]], False)"
  by (rule tokenize_single_quoted) simp

section \<open>The raw token and the tokenizer\<close>

text \<open>The separators of the tokenizer; \<open>char::is_whitespace\<close> knows more.\<close>

definition ascii_separator :: "rchar \<Rightarrow> bool" where
  "ascii_separator c \<longleftrightarrow> c = c_space \<or> c = c_tab \<or> c = c_nl \<or> c = c_cr"

lemma ascii_separator_whitespace: "ascii_separator c \<Longrightarrow> is_whitespace c"
  by (auto simp: ascii_separator_def is_whitespace_def)

text \<open>The two scanners at the same point of the buffer.\<close>

definition in_sync :: "tok_state \<Rightarrow> raw_state \<Rightarrow> bool" where
  "in_sync st rs \<longleftrightarrow>
     ts_quote st = rs_quote rs \<and> ts_escaped st = rs_escaped rs \<and> \<not> rs_ansi_c_open rs \<and>
     (rs_start rs = None \<longleftrightarrow> \<not> ts_started st) \<and>
     (\<not> ts_started st \<longrightarrow> ts_token st = [] \<and> ts_quote st = None \<and> \<not> ts_escaped st)"

lemma not_started_ready:
  "in_sync st rs \<Longrightarrow> \<not> ts_started st \<Longrightarrow> tok_ready (ts_tokens st) b = st\<lparr>ts_trailing_space := b\<rparr>"
  by (cases st) (simp add: in_sync_def tok_ready_def)

text \<open>What the scanners have found at the end, given where they stand at byte \<open>i\<close>: either
  the raw token started before \<open>i\<close> and the tokenizer has finished no token since, or it
  started later, and the tokenizer run on the raw token alone ends in the same state.\<close>

definition raw_agrees :: "tok_state \<Rightarrow> raw_state \<Rightarrow> nat \<Rightarrow> str \<Rightarrow> bool" where
  "raw_agrees st rs i cs \<longleftrightarrow>
     (let st' = tok_loop st cs; rs' = raw_loop rs i cs
      in in_sync st' rs' \<and>
         (\<forall>k. rs_start rs' = Some k \<longrightarrow>
            (if k < i then rs_start rs = Some k \<and> ts_tokens st' = ts_tokens st
             else \<exists>a q. cs = a @ q \<and> i + str_len a = k \<and> q \<noteq> [] \<and>
                         tok_loop (tok_ready (ts_tokens st') False) q = st')))"

lemma raw_agreesI:
  assumes "raw_agrees st1 rs1 (i + str_len p) rest"
    and "p \<noteq> []" and "in_sync st rs" and "\<And>k. rs_start rs = Some k \<Longrightarrow> k < i"
    and tok: "tok_loop st (p @ rest) = tok_loop st1 rest"
    and raw: "raw_loop rs i (p @ rest) = raw_loop rs1 (i + str_len p) rest"
    and change: "rs_start rs1 = None \<or>
                 (ts_tokens st1 = ts_tokens st \<and>
                  rs_start rs1 = (if rs_start rs = None then Some i else rs_start rs))"
  shows "raw_agrees st rs i (p @ rest)"
proof -
  let ?st' = "tok_loop st1 rest" and ?rs' = "raw_loop rs1 (i + str_len p) rest"
  have sync': "in_sync ?st' ?rs'" using assms(1) by (simp add: raw_agrees_def Let_def)
  have p: "0 < str_len p" using \<open>p \<noteq> []\<close> by (simp add: str_len_pos_iff)
  have "(if k < i then rs_start rs = Some k \<and> ts_tokens ?st' = ts_tokens st
         else \<exists>a q. p @ rest = a @ q \<and> i + str_len a = k \<and> q \<noteq> [] \<and>
                     tok_loop (tok_ready (ts_tokens ?st') False) q = ?st')"
    if k: "rs_start ?rs' = Some k" for k
  proof (cases "k < i + str_len p")
    case True
    then have start: "rs_start rs1 = Some k" and toks: "ts_tokens ?st' = ts_tokens st1"
      using assms(1) k by (auto simp: raw_agrees_def Let_def)
    show ?thesis
    proof (cases "rs_start rs")
      case None
      then have ki: "k = i" and toks1: "ts_tokens st1 = ts_tokens st"
        using change start by auto
      have "\<not> ts_started st" using None assms(3) by (simp add: in_sync_def)
      with assms(3) have "tok_ready (ts_tokens st) False = st\<lparr>ts_trailing_space := False\<rparr>"
        by (rule not_started_ready)
      then have "tok_loop (tok_ready (ts_tokens st) False) (p @ rest) = tok_loop st (p @ rest)"
        using \<open>p \<noteq> []\<close> by (simp add: tok_loop_trailing)
      then show ?thesis
        using ki toks toks1 tok \<open>p \<noteq> []\<close> by (auto intro!: exI [of _ "[]"])
    next
      case (Some k0)
      then show ?thesis using change start assms(4) toks by auto
    qed
  next
    case False
    then obtain a q where "rest = a @ q" "i + str_len p + str_len a = k" "q \<noteq> []"
      "tok_loop (tok_ready (ts_tokens ?st') False) q = ?st'"
      using assms(1) k by (auto simp: raw_agrees_def Let_def)
    then have "\<exists>a q. p @ rest = a @ q \<and> i + str_len a = k \<and> q \<noteq> [] \<and>
                      tok_loop (tok_ready (ts_tokens ?st') False) q = ?st'"
      by (intro exI [of _ "p @ a"] exI [of _ q]) simp
    with False show ?thesis by simp
  qed
  with sync' show ?thesis by (simp add: raw_agrees_def Let_def tok raw)
qed

text \<open>Outside quotes the two scanners take the same kind of step.\<close>

lemma sync_plain_step:
  assumes "is_whitespace ch \<longrightarrow> ascii_separator ch" and "in_sync st rs"
    and "\<not> ts_escaped st" "ch \<noteq> c_bslash" "ts_quote st = None"
    and "\<not> (ch = c_dollar \<and> starts_with_char rest c_squote)"
  shows "in_sync (tok_plain st ch) (raw_step rs i ch rest) \<and>
         (rs_start (raw_step rs i ch rest) = None \<or>
          (ts_tokens (tok_plain st ch) = ts_tokens st \<and>
           rs_start (raw_step rs i ch rest) = (if rs_start rs = None then Some i else rs_start rs)))"
proof -
  have raw: "raw_step rs i ch rest =
      (if ch = c_squote then mark_start i (rs\<lparr>rs_quote := Some Single\<rparr>)
       else if ch = c_dquote then mark_start i (rs\<lparr>rs_quote := Some Double\<rparr>)
       else if is_whitespace ch then rs\<lparr>rs_start := None\<rparr>
       else mark_start i rs)"
    using assms by (auto simp: raw_step_def in_sync_def)
  consider "ch = c_squote" | "ch = c_dquote" | "ascii_separator ch"
    | "\<not> is_whitespace ch" "ch \<noteq> c_squote" "ch \<noteq> c_dquote"
    using assms(1) by blast
  then show ?thesis
  proof cases
    case 3
    then have "tok_plain st ch = tok_separator st (ch = c_space)"
      by (auto simp: tok_plain_def ascii_separator_def)
    moreover have "raw_step rs i ch rest = rs\<lparr>rs_start := None\<rparr>"
      using 3 ascii_separator_whitespace [OF 3] by (auto simp: raw ascii_separator_def)
    ultimately show ?thesis using assms by (simp add: in_sync_def tok_separator_def)
  next
    case 4
    then have "tok_plain st ch =
        st\<lparr>ts_token := ts_token st @ [ch], ts_started := True, ts_trailing_space := False\<rparr>"
      by (auto simp: tok_plain_def is_whitespace_def)
    with 4 show ?thesis using assms by (auto simp: raw in_sync_def mark_start_def)
  next
    case 1
    then show ?thesis unfolding raw
      using assms by (auto simp: in_sync_def mark_start_def tok_plain_def tok_open_def)
  next
    case 2
    then show ?thesis unfolding raw
      using assms by (auto simp: in_sync_def mark_start_def tok_plain_def tok_open_def)
  qed
qed

lemma raw_agrees_all:
  assumes "\<forall>c \<in> set cs. is_whitespace c \<longrightarrow> ascii_separator c"
    and "in_sync st rs" and "\<And>k. rs_start rs = Some k \<Longrightarrow> k < i"
  shows "raw_agrees st rs i cs"
  using assms
proof (induction st cs arbitrary: rs i rule: tok_loop_induct)
  case (Nil st)
  then show ?case by (auto simp: raw_agrees_def Let_def)
next
  case (escaped st ch rest)
  let ?rs = "raw_step rs i ch rest"
  have sync: "in_sync (tok_escaped st ch) ?rs" and start: "rs_start ?rs = rs_start rs" "rs_start rs \<noteq> None"
    using escaped.hyps escaped.prems(2)
    by (cases st; cases rs; auto simp: in_sync_def raw_step_def mark_start_def tok_defs)+
  have "raw_agrees (tok_escaped st ch) ?rs (i + str_len [ch]) rest"
    using escaped.prems sync start by (intro escaped.IH) (auto intro: trans_less_add1)
  from raw_agreesI [OF this _ escaped.prems(2,3)] escaped.hyps start show ?case
    by (simp add: tok_loop_branches tok_defs)
next
  case (backslash st rest)
  let ?rs = "raw_step rs i c_bslash rest"
  have sync: "in_sync (tok_backslash st) ?rs"
    and start: "rs_start ?rs = (if rs_start rs = None then Some i else rs_start rs)"
    and toks: "ts_tokens (tok_backslash st) = ts_tokens st"
    using backslash.hyps backslash.prems(2)
    by (cases st; cases rs; auto simp: in_sync_def raw_step_def mark_start_def tok_defs
        split: option.splits quote.splits)+
  have "raw_agrees (tok_backslash st) ?rs (i + str_len [c_bslash]) rest"
    using backslash.prems sync start by (intro backslash.IH) (auto split: if_splits intro: less_SucI)
  from raw_agreesI [OF this _ backslash.prems(2,3)] backslash.hyps start toks show ?case
    by (simp add: tok_loop_branches)
next
  case (quoted st ch rest active)
  let ?rs = "raw_step rs i ch rest"
  have sync: "in_sync (tok_quoted st active ch) ?rs"
    and start: "rs_start ?rs = rs_start rs" "rs_start rs \<noteq> None"
    and toks: "ts_tokens (tok_quoted st active ch) = ts_tokens st"
    using quoted.hyps quoted.prems(2)
    by (cases st; cases rs; auto simp: in_sync_def raw_step_def mark_start_def tok_defs)+
  have "raw_agrees (tok_quoted st active ch) ?rs (i + str_len [ch]) rest"
    using quoted.prems sync start by (intro quoted.IH) (auto intro: trans_less_add1)
  from raw_agreesI [OF this _ quoted.prems(2,3)] quoted.hyps start toks show ?case
    by (simp add: tok_loop_branches)
next
  case (ansi st rest)
  let ?p = "[c_dollar, c_squote]"
  let ?rs = "raw_step (raw_step rs i c_dollar (c_squote # rest)) (i + 1) c_squote rest"
  have sync: "in_sync (tok_open st AnsiC) ?rs"
    and start: "rs_start ?rs = (if rs_start rs = None then Some i else rs_start rs)"
    and toks: "ts_tokens (tok_open st AnsiC) = ts_tokens st"
    using ansi.hyps ansi.prems(2)
    by (cases st; cases rs; auto simp: in_sync_def raw_step_def mark_start_def tok_defs
        starts_with_char_def)+
  have "raw_agrees (tok_open st AnsiC) ?rs (i + str_len ?p) rest"
    using ansi.prems sync start by (intro ansi.IH) (auto split: if_splits intro: less_SucI)
  from raw_agreesI [OF this _ ansi.prems(2,3)] ansi.hyps start toks show ?case
    by (simp add: tok_loop_branches)
next
  case (plain st ch rest)
  let ?rs = "raw_step rs i ch rest"
  have sync: "in_sync (tok_plain st ch) ?rs"
    and change: "rs_start ?rs = None \<or> (ts_tokens (tok_plain st ch) = ts_tokens st \<and>
                 rs_start ?rs = (if rs_start rs = None then Some i else rs_start rs))"
    using sync_plain_step [of ch st rs rest i] plain.hyps plain.prems(1,2) by auto
  have "raw_agrees (tok_plain st ch) ?rs (i + str_len [ch]) rest"
    using plain.prems sync change
    by (intro plain.IH) (auto split: if_splits intro: trans_less_add1)
  from raw_agreesI [OF this _ plain.prems(2,3)] plain.hyps change show ?case
    by (simp add: tok_loop_branches)
qed

lemma raw_init_sync: "in_sync tok_init raw_init"
  by (simp add: in_sync_def tok_init_def raw_init_def)

text \<open>Only a separator leaves the tokenizer without a started token, and the next ordinary character starts one.\<close>

lemma not_started_separator: "\<not> ts_started (tok_loop st cs) \<Longrightarrow> cs \<noteq> [] \<Longrightarrow> ascii_separator (last cs)"
  by (induction st cs rule: tok_loop_induct)
     (auto simp: tok_loop_branches tok_defs ascii_separator_def split: if_splits option.splits quote.splits)

lemma tok_loop_snoc: "c \<noteq> c_squote \<Longrightarrow> tok_loop st (cs @ [c]) = tok_loop (tok_loop st cs) [c]"
proof (induction st cs rule: tok_loop_induct)
  case (plain st ch rest)
  then have "\<not> (ch = c_dollar \<and> starts_with_char (rest @ [c]) c_squote)" by (cases rest) (auto simp: starts_with_char_def)
  with plain show ?case by (simp add: tok_loop_branches)
qed (simp_all add: tok_loop_branches)

text \<open>
  Property C4. The raw token under the caret and the tokenizer agree on every buffer whose
  whitespace is the four ASCII separators of the tokenizer: a non-empty raw token is a suffix of the
  buffer that tokenizes to exactly one token, and that is the last token of the buffer. When the raw
  token is empty the buffer is empty or ends with a separator, and a plain character typed next is
  a token of its own after those of the buffer.
\<close>

theorem current_token_raw_is_last_token:
  assumes "\<forall>c \<in> set buffer. is_whitespace c \<longrightarrow> ascii_separator c"
  shows "if current_token_raw buffer = []
    then (buffer = [] \<or> ascii_separator (last buffer)) \<and>
      (\<forall>c. \<not> ascii_separator c \<and> c \<notin> {c_squote, c_dquote, c_bslash} \<longrightarrow>
         fst (tokenize (buffer @ [c])) = fst (tokenize buffer) @ [[c]])
    else \<exists>ts t. fst (tokenize buffer) = ts @ [t] \<and> fst (tokenize (current_token_raw buffer)) = [t] \<and>
                suffix (current_token_raw buffer) buffer"
proof -
  let ?st = "tok_loop tok_init buffer" and ?rs = "raw_loop raw_init 0 buffer"
  have agrees: "raw_agrees tok_init raw_init 0 buffer"
    using assms(1) raw_init_sync by (rule raw_agrees_all) (simp add: raw_init_def)
  show ?thesis
  proof (cases "rs_start ?rs")
    case None
    then have idle: "\<not> ts_started ?st" "ts_token ?st = []" "ts_quote ?st = None" "\<not> ts_escaped ?st"
      using agrees by (auto simp: raw_agrees_def in_sync_def Let_def)
    then have "fst (tokenize (buffer @ [c])) = fst (tokenize buffer) @ [[c]]"
      if "\<not> ascii_separator c" "c \<notin> {c_squote, c_dquote, c_bslash}" for c
      using that by (simp add: tokenize_def tok_loop_snoc tok_loop_branches(5) starts_with_char_def tok_finish_def Let_def tok_plain_def ascii_separator_def)
    with None idle(1) not_started_separator [of tok_init buffer] show ?thesis by (auto simp: current_token_raw_def)
  next
    case k: (Some k)
    then obtain a q where q: "buffer = a @ q" "str_len a = k" "q \<noteq> []"
      "tok_loop (tok_ready (ts_tokens ?st) False) q = ?st"
      using agrees by (auto simp: raw_agrees_def Let_def)
    then have raw: "current_token_raw buffer = q"
      using k str_from_prefix [of a q] by (simp add: current_token_raw_def)
    have started: "ts_started ?st" using agrees k by (auto simp: raw_agrees_def in_sync_def Let_def)
    have "tok_ready (ts_tokens ?st) False = tok_init\<lparr>ts_tokens := ts_tokens ?st @ ts_tokens tok_init\<rparr>"
      by (simp add: tok_ready_def tok_init_def)
    then have eq: "?st = (tok_loop tok_init q)\<lparr>ts_tokens := ts_tokens ?st @ ts_tokens (tok_loop tok_init q)\<rparr>"
      using q(4) tok_loop_prepend [where st = tok_init and ts = "ts_tokens ?st" and cs = q] by simp
    then have "ts_tokens (tok_loop tok_init q) = []"
      by (metis self_append_conv tok_state.select_convs(1) tok_state.surjective tok_state.update_convs(1))
    moreover have "ts_started (tok_loop tok_init q)" "ts_token (tok_loop tok_init q) = ts_token ?st"
      using started eq by (metis tok_state.select_convs(2,3) tok_state.surjective tok_state.update_convs(1))+
    ultimately have "fst (tokenize q) = [ts_token ?st]" "fst (tokenize buffer) = ts_tokens ?st @ [ts_token ?st]"
      using started by (simp_all add: tokenize_def tok_finish_def Let_def)
    with q(1,3) raw show ?thesis by (auto simp: suffix_def)
  qed
qed

theorem current_token_raw_is_last_token_witness:
  "(\<exists>ts t. fst (tokenize (lit ''git co'' @ [c_bslash, c_space] @ lit ''x'')) = ts @ [t] \<and>
     fst (tokenize (current_token_raw (lit ''git co'' @ [c_bslash, c_space] @ lit ''x''))) = [t] \<and>
     suffix (current_token_raw (lit ''git co'' @ [c_bslash, c_space] @ lit ''x''))
       (lit ''git co'' @ [c_bslash, c_space] @ lit ''x'')) \<and>
   fst (tokenize (lit ''git '' @ [97])) = fst (tokenize (lit ''git '')) @ [[97]]"
proof -
  let ?a = "lit ''git co'' @ [c_bslash, c_space] @ lit ''x''" and ?b = "lit ''git ''"
  have "\<forall>c \<in> set ?a. is_whitespace c \<longrightarrow> ascii_separator c" "\<forall>c \<in> set ?b. is_whitespace c \<longrightarrow> ascii_separator c"
    by (simp_all add: is_whitespace_def ascii_separator_def)
  moreover have "current_token_raw ?a \<noteq> []" "current_token_raw ?b = []"
    by (simp_all add: is_whitespace_def current_token_raw_def raw_step_def raw_init_def mark_start_def str_from.simps starts_with_char_def)
  ultimately show ?thesis
    using current_token_raw_is_last_token [of ?a] current_token_raw_is_last_token [of ?b] by (simp add: ascii_separator_def)
qed

text \<open>
  The two scanners disagree on other Unicode whitespace: with an ideographic
  space (U+3000) in a word, the tokenizer keeps the word whole while the raw token under the
  caret starts after the space, so matching and deletion work on different texts.
\<close>

lemma current_token_raw_splits_ideographic_space:
  "fst (tokenize (lit ''git ab'' @ [12288] @ lit ''cd'')) = [lit ''git'', lit ''ab'' @ [12288] @ lit ''cd''] \<and>
   current_token_raw (lit ''git ab'' @ [12288] @ lit ''cd'') = lit ''cd''"
  by (simp add: tokenize_def tok_loop_branches tok_init_def tok_defs tok_finish_def starts_with_char_def
      is_whitespace_def current_token_raw_def raw_step_def raw_init_def mark_start_def str_from.simps
      len_utf8_def)

section \<open>Alias expansion\<close>

text \<open>The specification: one expansion replaces the first token by the tokens of its alias.\<close>

inductive alias_step :: "(str \<times> str) list \<Rightarrow> str list \<Rightarrow> str list \<Rightarrow> bool"
  for aliases :: "(str \<times> str) list" where
  "map_of aliases name = Some val \<Longrightarrow> fst (tokenize val) \<noteq> [] \<Longrightarrow>
   alias_step aliases (name # rest) (fst (tokenize val) @ rest)"

inductive_cases alias_step_ConsE: "alias_step aliases (name # rest) toks"

lemma alias_step_keeps_tail:
  "(alias_step aliases)\<^sup>*\<^sup>* toks toks' \<Longrightarrow> toks = x # rest \<Longrightarrow> \<exists>y ys. toks' = y # ys @ rest"
proof (induction arbitrary: x rule: rtranclp_induct)
  case base
  then show ?case by (intro exI [of _ x] exI [of _ "[]"]) simp
next
  case (step mid final)
  from step.IH [OF step.prems] obtain y ys where mid: "mid = y # ys @ rest" by blast
  with step.hyps(2) obtain val where "final = fst (tokenize val) @ ys @ rest" "fst (tokenize val) \<noteq> []"
    by (auto elim: alias_step_ConsE)
  then show ?case by (cases "fst (tokenize val)") auto
qed

lemma alias_loop_expand:
  "e \<or> rest \<noteq> [] \<Longrightarrow> name \<notin> used \<Longrightarrow> map_of aliases name = Some v \<Longrightarrow> fst (tokenize v) \<noteq> [] \<Longrightarrow>
   alias_loop aliases e used (name # rest) =
   alias_loop aliases e (insert name used) (fst (tokenize v) @ rest)"
  by (subst alias_loop.simps) (auto simp: Let_def)

lemma alias_loop_steps: "(alias_step aliases)\<^sup>*\<^sup>* toks (alias_loop aliases e used toks)"
proof (induction aliases e used toks rule: alias_loop.induct)
  case (1 aliases e used toks)
  show ?case
  proof (cases "(length toks = 1 \<and> \<not> e) \<or> toks = []")
    case True
    then show ?thesis by (auto simp: alias_loop.simps split: list.splits)
  next
    case False
    then obtain name rest where toks: "toks = name # rest" by (cases toks) auto
    show ?thesis
    proof (cases "name \<notin> used \<and> (\<exists>v. map_of aliases name = Some v \<and> fst (tokenize v) \<noteq> [])")
      case True
      then obtain v where v: "name \<notin> used" "map_of aliases name = Some v" "fst (tokenize v) \<noteq> []"
        by blast
      then have "alias_step aliases toks (fst (tokenize v) @ rest)"
        unfolding toks by (intro alias_step.intros)
      moreover have "(alias_step aliases)\<^sup>*\<^sup>* (fst (tokenize v) @ rest)
                       (alias_loop aliases e (insert name used) (fst (tokenize v) @ rest))"
        using 1 [of name rest v "fst (tokenize v)"] False toks v by auto
      moreover have "alias_loop aliases e used toks =
                     alias_loop aliases e (insert name used) (fst (tokenize v) @ rest)"
        unfolding toks using False toks v by (intro alias_loop_expand) auto
      ultimately show ?thesis by (simp add: converse_rtranclp_into_rtranclp)
    next
      case False
      then have "alias_loop aliases e used toks = toks"
        by (subst alias_loop.simps) (auto simp: toks Let_def split: option.splits)
      then show ?thesis by simp
    qed
  qed
qed

text \<open>Every name in \<open>used\<close> was the first token of an earlier expansion.\<close>

definition was_first :: "(str \<times> str) list \<Rightarrow> str list \<Rightarrow> str \<Rightarrow> str list \<Rightarrow> bool" where
  "was_first aliases toks0 name toks \<longleftrightarrow>
     (\<exists>rest. (alias_step aliases)\<^sup>*\<^sup>* toks0 (name # rest) \<and> (alias_step aliases)\<^sup>+\<^sup>+ (name # rest) toks)"

lemma was_first_step: "was_first aliases t0 n toks \<Longrightarrow> alias_step aliases toks toks' \<Longrightarrow>
    was_first aliases t0 n toks'"
  unfolding was_first_def by (meson tranclp.trancl_into_trancl)

lemma alias_loop_stops:
  assumes "(alias_step aliases)\<^sup>*\<^sup>* t0 toks" and "\<forall>n \<in> used. was_first aliases t0 n toks"
    and "alias_loop aliases e used toks = name # rest" and "e \<or> rest \<noteq> []"
  shows "(\<nexists>toks'. alias_step aliases (name # rest) toks') \<or> was_first aliases t0 name (name # rest)"
  using assms
proof (induction aliases e used toks rule: alias_loop.induct)
  case (1 aliases e used toks)
  show ?case
  proof (cases "alias_loop aliases e used toks = toks")
    case True
    then have toks: "toks = name # rest" using "1.prems"(3) by simp
    have "name \<in> used \<or> map_of aliases name = None \<or> (\<exists>v. map_of aliases name = Some v \<and> fst (tokenize v) = [])
          \<or> (\<exists>v. name \<notin> used \<and> map_of aliases name = Some v \<and> fst (tokenize v) \<noteq> [])"
      by (cases "map_of aliases name") auto
    then consider "name \<in> used" | "\<nexists>toks'. alias_step aliases (name # rest) toks'"
      | v where "name \<notin> used" "map_of aliases name = Some v" "fst (tokenize v) \<noteq> []"
      by (auto elim!: alias_step_ConsE)
    then show ?thesis
    proof cases
      case 1
      then show ?thesis using "1.prems"(2) toks by blast
    next
      case (3 v)
      have step: "alias_step aliases toks (fst (tokenize v) @ rest)"
        unfolding toks using 3 by (intro alias_step.intros)
      have "alias_loop aliases e (insert name used) (fst (tokenize v) @ rest) = name # rest"
        using "1.prems"(3,4) toks alias_loop_expand [of e rest name used aliases v] 3 by simp
      then have "(alias_step aliases)\<^sup>*\<^sup>* (fst (tokenize v) @ rest) (name # rest)"
        using alias_loop_steps by metis
      then have "(alias_step aliases)\<^sup>+\<^sup>+ (name # rest) (name # rest)"
        using step toks by (metis tranclp_rtranclp_tranclp tranclp.r_into_trancl)
      then show ?thesis using "1.prems"(1) toks unfolding was_first_def by blast
    qed simp
  next
    case False
    then obtain n r v where toks: "toks = n # r" and v: "n \<notin> used" "map_of aliases n = Some v"
      "fst (tokenize v) \<noteq> []" and g: "\<not> (length toks = 1 \<and> \<not> e)"
      by (auto simp: alias_loop.simps [of aliases e used toks] Let_def
          split: if_splits list.splits option.splits)
    let ?next = "fst (tokenize v) @ r"
    have step: "alias_step aliases toks ?next" unfolding toks using v by (intro alias_step.intros)
    have loop: "alias_loop aliases e used toks = alias_loop aliases e (insert n used) ?next"
      unfolding toks using g toks v by (intro alias_loop_expand) auto
    have "was_first aliases t0 n ?next"
      unfolding was_first_def using "1.prems"(1) step toks by blast
    moreover have "(alias_step aliases)\<^sup>*\<^sup>* t0 ?next" using "1.prems"(1) step by (rule rtranclp.intros(2))
    moreover have "\<forall>m \<in> used. was_first aliases t0 m ?next"
      using "1.prems"(2) step was_first_step by blast
    ultimately show ?thesis
      using "1.prems"(3,4) loop g toks v by (intro "1.IH" [of n r v "fst (tokenize v)"]) auto
  qed
qed

text \<open>
  Property C5. Alias expansion against its specification: the result is reached from the typed
  tokens by replacing the first token by its alias, again and again; the tokens after the
  first one are kept at the end; and it stops only when the first token has no alias left to
  expand or was itself expanded on the way (a recursive alias). A lone word still being
  typed is left alone.
\<close>

theorem alias_expansion_normal_form:
  assumes "toks = name # rest" and "rest \<noteq> [] \<or> ends_with_space"
  shows "let result = expand_alias_tokens_with toks ends_with_space aliases
         in (alias_step aliases)\<^sup>*\<^sup>* toks result \<and>
            (\<exists>y ys. result = y # ys @ rest \<and>
               ((\<nexists>toks'. alias_step aliases result toks') \<or> was_first aliases toks y result))"
proof -
  let ?result = "alias_loop aliases ends_with_space {} toks"
  have result: "expand_alias_tokens_with toks ends_with_space aliases = ?result"
    using assms by (auto simp: expand_alias_tokens_with_def)
  have steps: "(alias_step aliases)\<^sup>*\<^sup>* toks ?result" by (rule alias_loop_steps)
  then obtain y ys where y: "?result = y # ys @ rest" using alias_step_keeps_tail assms(1) by blast
  have "(\<nexists>toks'. alias_step aliases ?result toks') \<or> was_first aliases toks y ?result"
    using alias_loop_stops [OF _ _ y, of toks] assms(2) by (auto simp: y)
  with steps y show ?thesis by (auto simp: result Let_def)
qed

theorem alias_expansion_normal_form_witness:
  "let toks = [lit ''g'', lit ''x'']; aliases = [(lit ''g'', lit ''git'')];
       result = expand_alias_tokens_with toks False aliases
   in (alias_step aliases)\<^sup>*\<^sup>* toks result \<and>
      (\<exists>y ys. result = y # ys @ [lit ''x''] \<and>
         ((\<nexists>toks'. alias_step aliases result toks') \<or> was_first aliases toks y result))"
  using alias_expansion_normal_form [of "[lit ''g'', lit ''x'']" "lit ''g''" "[lit ''x'']" False
      "[(lit ''g'', lit ''git'')]"]
  by (simp add: Let_def)

end
