(* ===== verification/Command_Slice.thy ===== *)
theory Command_Slice
  imports Shell_Facts
begin

text \<open>
  The command under the caret (\<open>innermost_command_start\<close>, \<open>current_command_slice\<close>,
  \<open>skip_leading_assignments\<close>, \<open>completion_buffer\<close> of \<open>lookup.rs\<close>): every byte offset the
  scanners produce is a character boundary, so no slice of the code panics; the completion buffer is
  a suffix of what precedes the caret; control operators start a new command; skipping
  assignments reaches a fixed point.
\<close>

section \<open>Offsets are character boundaries\<close>

text \<open>A scanner stands at byte \<open>i\<close> of \<open>b\<close> with \<open>rest\<close> still to read.\<close>

definition stands_at :: "str \<Rightarrow> nat \<Rightarrow> str \<Rightarrow> bool" where
  "stands_at b i rest \<longleftrightarrow> str_from b i = Some rest"

lemma stands_at_0 [simp]: "stands_at b 0 b"
  by (simp add: stands_at_def)

lemma stands_at_iff: "stands_at b i rest \<longleftrightarrow> (\<exists>p. b = p @ rest \<and> str_len p = i)"
  unfolding stands_at_def using str_from_SomeD str_from_prefix by blast

lemma stands_at_next [intro]: "stands_at b i (c # rest) \<Longrightarrow> stands_at b (i + len_utf8 c) rest"
  unfolding stands_at_iff by (elim exE conjE, rule_tac x = "p @ [c]" in exI) simp

lemma stands_at_boundary [intro]: "stands_at b i rest \<Longrightarrow> is_char_boundary b i"
  by (auto simp: stands_at_def is_char_boundary_def)

lemma stands_at_len: "stands_at b i rest \<Longrightarrow> i + str_len rest = str_len b"
  by (auto simp: stands_at_iff)

lemma boundary_0 [simp]: "is_char_boundary b 0"
  by (simp add: is_char_boundary_def)

lemma raw_loop_boundary:
  "stands_at b i cs \<Longrightarrow> (\<And>k. rs_start rs = Some k \<Longrightarrow> is_char_boundary b k) \<Longrightarrow>
   rs_start (raw_loop rs i cs) = Some k \<Longrightarrow> is_char_boundary b k"
proof (induction rs i cs rule: raw_loop.induct)
  case (2 st index ch rest)
  have "rs_start (raw_step st index ch rest) \<in> {rs_start st, Some index, None}"
    by (auto simp: raw_step_def mark_start_def split: option.splits)
  then have "\<And>k. rs_start (raw_step st index ch rest) = Some k \<Longrightarrow> is_char_boundary b k"
    using "2.prems"(1,2) by auto
  with 2 show ?case by auto
qed simp

lemma raw_start_boundary:
  "rs_start (raw_loop raw_init 0 buffer) = Some k \<Longrightarrow> is_char_boundary buffer k"
  using raw_loop_boundary [of buffer 0 buffer raw_init k] by (simp add: raw_init_def)

lemma skip_ws_loop_spec:
  "skip_ws_loop i cs = i + str_len (takeWhile is_whitespace cs)"
  by (induction i cs rule: skip_ws_loop.induct) auto

lemma skip_ws_bytes_stands:
  "stands_at b i rest \<Longrightarrow> stands_at b (skip_ws_bytes b i) (dropWhile is_whitespace rest)"
proof -
  assume at: "stands_at b i rest"
  then obtain p where p: "b = p @ rest" "str_len p = i" by (auto simp: stands_at_iff)
  have "b = (p @ takeWhile is_whitespace rest) @ dropWhile is_whitespace rest" by (simp add: p)
  moreover have "str_len (p @ takeWhile is_whitespace rest) = skip_ws_bytes b i"
    using at p by (simp add: skip_ws_bytes_def stands_at_def skip_ws_loop_spec)
  ultimately show ?thesis unfolding stands_at_iff by blast
qed

lemma operator_len_cases:
  assumes "stands_at b i (c # rest)" and "operator_len b i = Some n"
  shows "(n = 1 \<and> c < 128) \<or> (n = 2 \<and> c < 128 \<and> (\<exists>d rest'. rest = d # rest' \<and> d < 128))"
  using assms
  by (cases rest) (auto simp: operator_len_def stands_at_def Let_def split: if_splits)

lemma operator_stands:
  assumes "stands_at b i (c # rest)" and "operator_len b i = Some n"
  shows "stands_at b (i + n) (drop (n - 1) rest)"
proof -
  have at: "stands_at b (i + len_utf8 c) rest" using assms(1) by blast
  from operator_len_cases [OF assms] show ?thesis
  proof (elim disjE conjE exE)
    fix d rest' assume "n = 2" "c < 128" "rest = d # rest'" "d < 128"
    then show ?thesis using at stands_at_next [of b "i + 1" d rest'] by simp
  qed (use at in simp)
qed

text \<open>All frames start at character boundaries.\<close>

definition frames_ok :: "str \<Rightarrow> command_frame list \<Rightarrow> bool" where
  "frames_ok b frames \<longleftrightarrow> (\<forall>f \<in> set frames. is_char_boundary b (cf_start f))"

lemma frames_ok_simps [simp]:
  "frames_ok b []"
  "frames_ok b (f # fs) \<longleftrightarrow> is_char_boundary b (cf_start f) \<and> frames_ok b fs"
  by (auto simp: frames_ok_def)

lemma frames_ok_pop: "frames_ok b frames \<Longrightarrow> pop_frame k frames = Some fs \<Longrightarrow> frames_ok b fs"
  by (auto simp: pop_frame_def split: list.splits if_splits)

lemma frames_ok_set_top: "frames_ok b frames \<Longrightarrow> is_char_boundary b s \<Longrightarrow> frames_ok b (set_top_start s frames)"
  by (cases frames) (auto simp: set_top_start_def)

lemma frame_step_ok:
  assumes "stands_at b i (c # rest)" and "frames_ok b frames" and "frame_step b frames i c = (frames', n)"
  shows "frames_ok b frames' \<and> (n \<noteq> 2 \<or> stands_at b (i + 2) (tl rest))"
proof (cases "frames' = frames \<or> n = 1 \<and> operator_len b i = None")
  case True
  have "is_char_boundary b (i + len_utf8 c)" using assms(1) by blast
  with True assms show ?thesis
    by (auto simp: frame_step_def Let_def frames_ok_pop drop_Suc
        split: if_splits option.splits dest!: operator_stands)
next
  case False
  have next_ok: "is_char_boundary b (i + len_utf8 c)" using assms(1) by blast
  have "is_char_boundary b (skip_ws_bytes b (i + m)) \<and> (m \<noteq> 2 \<or> stands_at b (i + 2) (tl rest))"
    if "operator_len b i = Some m" for m
    using operator_stands [OF assms(1) that] skip_ws_bytes_stands by (auto simp: drop_Suc)
  then show ?thesis using assms next_ok
    by (auto simp: frame_step_def Let_def frames_ok_pop frames_ok_set_top split: if_splits option.splits)
qed

lemma command_loop_ok:
  "stands_at b i rest \<Longrightarrow> frames_ok b frames \<Longrightarrow> frames_ok b (command_loop b frames q e i rest)"
proof (induction rest arbitrary: frames q e i rule: length_induct)
  case (1 cs)
  show ?case
  proof (cases cs)
    case Nil
    then show ?thesis using 1 by simp
  next
    case (Cons ch rest)
    have IH: "frames_ok b (command_loop b fs q' e' k r)"
      if "stands_at b k r" "frames_ok b fs" "length r \<le> length rest" for fs q' e' k r
      using 1 that by (auto simp: Cons less_Suc_eq_le)
    have at: "stands_at b (i + len_utf8 ch) rest" using 1(2) Cons by blast
    have at2: "stands_at b (i + len_utf8 ch + 1) (tl rest)" if "starts_with_char rest c" "c < 128" for c
      using that at stands_at_next [of b "i + len_utf8 ch" c "tl rest"]
      by (cases rest) (auto simp: starts_with_char_def)
    have tl_le: "length (tl rest) \<le> length rest" by simp
    have step: "frames_ok b fs \<and> (n = 2 \<longrightarrow> stands_at b (i + 2) (tl rest))"
      if "frame_step b frames i ch = (fs, n)" for fs n
      using frame_step_ok [OF _ 1(3) that] 1(2) Cons by auto
    have bnd: "is_char_boundary b (i + len_utf8 ch)" using at by blast
    have bnd2: "is_char_boundary b (i + len_utf8 ch + 1)" if "starts_with_char rest c_lparen"
      using at2 [OF that] by auto
    note [simp del] = One_nat_def add_Suc_right
    show ?thesis unfolding Cons command_loop.simps Let_def
      using at at2 [of c_squote] at2 [of c_lparen] tl_le bnd bnd2 1(3)
      by (auto split: option.splits prod.splits intro!: IH dest: step frames_ok_pop)
  qed
qed

lemma command_start_ok: "is_char_boundary buffer (innermost_command_start buffer)"
proof -
  have "frames_ok buffer (command_loop buffer [\<lparr>cf_start = 0, cf_kind = Root\<rparr>] None False 0 buffer)"
    by (rule command_loop_ok) simp_all
  then show ?thesis
    by (auto simp: innermost_command_start_def top_start_def split: list.splits)
qed

text \<open>
  Property C6. No slice of the command scan panics: the start of the innermost command and the
  start of the raw token under the caret are character boundaries inside the buffer, for
  every buffer, whatever quotes, escapes, brackets and multi-byte characters it holds.
\<close>

theorem scan_offsets_are_boundaries:
  "(\<exists>slice. str_from buffer (innermost_command_start buffer) = Some slice) \<and>
   innermost_command_start buffer \<le> str_len buffer \<and>
   (case rs_start (raw_loop raw_init 0 buffer) of
      None \<Rightarrow> current_token_raw buffer = []
    | Some k \<Rightarrow> str_from buffer k = Some (current_token_raw buffer))"
proof -
  obtain slice where "str_from buffer (innermost_command_start buffer) = Some slice"
    using command_start_ok by (auto simp: is_char_boundary_def)
  moreover from this have "innermost_command_start buffer \<le> str_len buffer"
    using stands_at_len by (fastforce simp: stands_at_def)
  ultimately show ?thesis
    using raw_start_boundary [of buffer]
    by (auto simp: current_token_raw_def is_char_boundary_def split: option.splits)
qed

section \<open>Leading assignments\<close>

lemma tokenize_Nil [simp]: "tokenize [] = ([], False)"
  by (simp add: tokenize_def tok_finish_def tok_init_def)

lemma skip_ws_bytes_0: "get_from s (skip_ws_bytes s 0) = dropWhile is_whitespace s"
  using skip_ws_bytes_stands [of s 0 s] by (simp add: stands_at_def get_from_def)

lemma skip_ws_bytes_end: "str_len s \<le> skip_ws_bytes s 0 \<longleftrightarrow> dropWhile is_whitespace s = []"
  using stands_at_len [OF skip_ws_bytes_stands [of s 0 s]] by (auto simp flip: str_len_0_iff)

text \<open>The loop with its offsets read as strings: a leading assignment or redirection is the
  first token, unquoted.\<close>

definition leading_assignment :: "str \<Rightarrow> bool" where
  "leading_assignment s \<longleftrightarrow>
     raw_first_token_end s \<noteq> 0 \<and> \<not> is_quoted_start (get_upto s (raw_first_token_end s)) \<and>
     (case fst (tokenize s) of [] \<Rightarrow> False
      | first # _ \<Rightarrow> is_assignment_token first \<or> is_fd_redirection_token first)"

lemma skip_leading_unfold:
  "skip_leading_assignments s =
     (let t = dropWhile is_whitespace s
      in if fst (tokenize t) = [] then []
         else if leading_assignment t then skip_leading_assignments (get_from t (raw_first_token_end t))
         else t)"
proof (cases "dropWhile is_whitespace s")
  case Nil
  then show ?thesis
    by (subst skip_leading_assignments.simps) (simp add: skip_ws_bytes_end Nil Let_def del: dropWhile_eq_Nil_conv)
next
  case (Cons c t)
  then have "\<not> str_len s \<le> skip_ws_bytes s 0" by (simp only: skip_ws_bytes_end) simp
  then show ?thesis
    by (subst skip_leading_assignments.simps)
       (simp add: Let_def skip_ws_bytes_0 leading_assignment_def Cons split: list.splits)
qed

lemma skip_leading_ws: "skip_leading_assignments (dropWhile is_whitespace s) = skip_leading_assignments s"
  by (simp add: skip_leading_unfold [of s] skip_leading_unfold [of "dropWhile is_whitespace s"]
      dropWhile_idem)

lemma skip_leading_result:
  "suffix (skip_leading_assignments s) s \<and>
   (skip_leading_assignments s = [] \<or>
    \<not> is_whitespace (hd (skip_leading_assignments s)) \<and>
    fst (tokenize (skip_leading_assignments s)) \<noteq> [] \<and>
    \<not> leading_assignment (skip_leading_assignments s))"
proof (induction "length s" arbitrary: s rule: less_induct)
  case less
  let ?t = "dropWhile is_whitespace s"
  have t: "suffix ?t s" by (rule dropWhile_suffix)
  consider (empty) "fst (tokenize ?t) = []" | (skip) "fst (tokenize ?t) \<noteq> []" "leading_assignment ?t"
    | (stop) "fst (tokenize ?t) \<noteq> []" "\<not> leading_assignment ?t"
    by blast
  then show ?case
  proof cases
    case empty
    then show ?thesis by (simp add: skip_leading_unfold [of s])
  next
    case skip
    let ?u = "get_from ?t (raw_first_token_end ?t)"
    have "?t \<noteq> []" using skip(1) by (metis fst_conv tokenize_Nil)
    moreover have "0 < raw_first_token_end ?t" using skip by (simp add: leading_assignment_def)
    ultimately have "length ?u < length ?t" by (rule get_from_shorter)
    then have "length ?u < length s" using suffix_length_le [OF t] by (rule less_le_trans)
    moreover have "skip_leading_assignments s = skip_leading_assignments ?u"
      using skip by (simp add: skip_leading_unfold [of s] Let_def)
    moreover have "suffix ?u s" using get_from_suffix t by (blast intro: suffix_order.trans)
    ultimately show ?thesis using less [of ?u] by (auto intro: suffix_order.trans)
  next
    case stop
    then have "?t \<noteq> []" by (metis fst_conv tokenize_Nil)
    then have "\<not> is_whitespace (hd ?t)" by (rule hd_dropWhile)
    then show ?thesis using stop t by (simp add: skip_leading_unfold [of s] Let_def)
  qed
qed

text \<open>
  Skipping the assignments and redirections in front of a command reaches a
  fixed point: what is left is a suffix of the input that starts at a word (no whitespace),
  whose first word is not an unquoted assignment or redirection, and skipping again changes
  nothing.
\<close>

theorem skip_leading_assignments_fixpoint:
  "suffix (skip_leading_assignments s) s \<and>
   skip_leading_assignments (skip_leading_assignments s) = skip_leading_assignments s \<and>
   (skip_leading_assignments s = [] \<or>
    \<not> is_whitespace (hd (skip_leading_assignments s)) \<and> \<not> leading_assignment (skip_leading_assignments s))"
proof -
  let ?t = "skip_leading_assignments s"
  have "skip_leading_assignments ?t = ?t"
  proof (cases "?t = []")
    case True
    then show ?thesis by (simp add: skip_leading_unfold [of "[]"])
  next
    case False
    then have "dropWhile is_whitespace ?t = ?t"
      using skip_leading_result [of s] by (metis dropWhile_eq_self_iff)
    then show ?thesis using False skip_leading_result [of s]
      by (simp add: skip_leading_unfold [of "?t"])
  qed
  with skip_leading_result [of s] show ?thesis by blast
qed

section \<open>The text before the caret\<close>

lemma floor_boundary_spec:
  "floor_boundary s n \<le> n \<and> is_char_boundary s (floor_boundary s n) \<and>
   (\<forall>k. is_char_boundary s k \<and> k \<le> n \<longrightarrow> k \<le> floor_boundary s n)"
proof (induction s n rule: floor_boundary.induct)
  case (1 s n)
  show ?case
  proof (cases "n = 0 \<or> is_char_boundary s n")
    case True
    then show ?thesis by (auto simp: floor_boundary.simps [of s n])
  next
    case False
    then have "k \<le> n - 1" if "is_char_boundary s k" "k \<le> n" for k
      using that by (cases "k = n") auto
    with False 1 show ?thesis by (auto simp: floor_boundary.simps [of s n])
  qed
qed

text \<open>
  The completion buffer comes from what precedes the caret: with a caret at
  byte \<open>c\<close> the text kept is a prefix of the buffer of at most \<open>c\<close> bytes, the longest one
  that ends at a character boundary, and the command handed to the completer is a suffix of it.
\<close>

theorem completion_buffer_before_caret:
  "\<exists>p r. buffer = p @ r \<and> buffer_before_cursor buffer (Some c) = p \<and> str_len p \<le> c \<and>
         (\<forall>p' r'. buffer = p' @ r' \<and> str_len p' \<le> c \<longrightarrow> prefix p' p) \<and>
         suffix (completion_buffer buffer (Some c)) p"
proof -
  let ?f = "floor_boundary buffer (min c (str_len buffer))"
  have f: "?f \<le> min c (str_len buffer)" "is_char_boundary buffer ?f"
    "\<And>k. is_char_boundary buffer k \<Longrightarrow> k \<le> min c (str_len buffer) \<Longrightarrow> k \<le> ?f"
    using floor_boundary_spec [of buffer "min c (str_len buffer)"] by blast+
  from f(2) obtain p r where p: "buffer = p @ r" "str_len p = ?f"
    unfolding is_char_boundary_iff by blast
  have kept: "buffer_before_cursor buffer (Some c) = p"
    unfolding buffer_before_cursor_def using p str_upto_prefix [of p r] by (simp add: get_upto_def)
  have "prefix p' p" if "buffer = p' @ r'" "str_len p' \<le> c" for p' r'
  proof -
    have "is_char_boundary buffer (str_len p')" using that(1) unfolding is_char_boundary_iff by blast
    then have le: "str_len p' \<le> str_len p" using f(3) [of "str_len p'"] that p(2) by simp
    have "prefix p p' \<or> prefix p' p" using that(1) p(1) by (metis prefix_same_cases prefixI)
    then show ?thesis using le by (auto simp: prefix_def)
  qed
  moreover have "suffix (completion_buffer buffer (Some c)) p"
    unfolding completion_buffer_def kept current_command_slice_def
    using skip_leading_result get_from_suffix by (blast intro: suffix_order.trans)
  moreover have "str_len p \<le> c" using p(2) f(1) by simp
  ultimately show ?thesis using p(1) kept by blast
qed

theorem completion_buffer_before_caret_witness:
  "\<exists>p r. lit ''ls -l'' = p @ r \<and> buffer_before_cursor (lit ''ls -l'') (Some 2) = p \<and> str_len p \<le> 2 \<and>
         (\<forall>p' r'. lit ''ls -l'' = p' @ r' \<and> str_len p' \<le> 2 \<longrightarrow> prefix p' p) \<and>
         suffix (completion_buffer (lit ''ls -l'') (Some 2)) p"
  by (rule completion_buffer_before_caret)

section \<open>Control operators\<close>

text \<open>Characters that the command scan passes over.\<close>

definition plain_char :: "rchar \<Rightarrow> bool" where
  "plain_char c \<longleftrightarrow> c \<notin> {c_bslash, c_squote, c_dquote, c_dollar, c_tick, c_lparen, c_lbrace, c_rparen,
                          c_rbrace, c_amp, c_pipe, c_semi, c_nl}"

definition separators :: "str set" where
  "separators = {[c_amp, c_amp], [c_pipe, c_pipe], [c_pipe, c_amp], [c_amp, c_semi], [c_semi], [c_pipe], [c_nl]}"

lemma operator_len_plain: "stands_at b i (c # rest) \<Longrightarrow> plain_char c \<Longrightarrow> operator_len b i = None"
  by (auto simp: operator_len_def stands_at_def plain_char_def)

lemma operator_len_separator:
  "op \<in> separators \<Longrightarrow> stands_at b i (op @ q) \<Longrightarrow> list_all plain_char q \<Longrightarrow> operator_len b i = Some (length op)"
  by (cases q) (auto simp: operator_len_def stands_at_def separators_def plain_char_def)

lemma command_loop_frame:
  "c \<notin> {c_bslash, c_squote, c_dquote, c_dollar, c_tick} \<Longrightarrow>
   command_loop b frames None False i (c # rest) =
     (case frame_step b frames i c of
        (frames', n) \<Rightarrow>
          (if n = 2 then command_loop b frames' None False (i + 2) (tl rest)
           else command_loop b frames' None False (i + len_utf8 c) rest))"
  by simp

declare command_loop.simps(2) [simp del]

lemma command_loop_plain_step:
  "stands_at b i (c # rest) \<Longrightarrow> plain_char c \<Longrightarrow>
   command_loop b frames None False i (c # rest) = command_loop b frames None False (i + len_utf8 c) rest"
  by (subst command_loop_frame) (simp_all add: plain_char_def frame_step_def Let_def operator_len_plain)

lemma command_loop_plain:
  "stands_at b i (p @ rest) \<Longrightarrow> list_all plain_char p \<Longrightarrow>
   command_loop b frames None False i (p @ rest) = command_loop b frames None False (i + str_len p) rest"
proof (induction p arbitrary: i)
  case (Cons c p)
  then have "stands_at b (i + len_utf8 c) (p @ rest)" by auto
  with Cons show ?case
    using command_loop_plain_step [of b i c "p @ rest"] by (simp del: command_loop.simps add: add.assoc)
qed simp

lemma command_loop_separator:
  assumes "op \<in> separators" "stands_at b i (op @ q)" "list_all plain_char q"
  shows "command_loop b frames None False i (op @ q) =
         command_loop b (set_top_start (skip_ws_bytes b (i + length op)) frames) None False (i + length op) q"
proof -
  have "frame_step b frames i (hd op) = (set_top_start (skip_ws_bytes b (i + length op)) frames, length op)"
    using operator_len_separator [OF assms] assms(1) by (auto simp: frame_step_def Let_def separators_def)
  with assms(1) show ?thesis by (auto simp: separators_def command_loop_frame)
qed

text \<open>
  Every control operator of the shell starts a new command: after text without
  quoting, expansion or brackets, the command under the caret is the text after the operator,
  less its leading blanks, assignments and redirections.
\<close>

theorem command_after_separator:
  assumes "list_all plain_char p" and "op \<in> separators" and "list_all plain_char q"
  shows "current_command_slice (p @ op @ q) = skip_leading_assignments q"
proof -
  let ?b = "p @ op @ q" and ?root = "[\<lparr>cf_start = 0, cf_kind = Root\<rparr>]"
  have op: "str_len op = length op" using assms(2) by (auto simp: separators_def)
  have at1: "stands_at ?b (str_len p) (op @ q)" unfolding stands_at_iff by blast
  have at2: "stands_at ?b (str_len p + length op) (q @ [])"
    unfolding stands_at_iff using op by (intro exI [of _ "p @ op"]) simp
  let ?s = "skip_ws_bytes ?b (str_len p + length op)"
  have "command_loop ?b ?root None False 0 ?b = command_loop ?b ?root None False (str_len p) (op @ q)"
    using command_loop_plain [of ?b 0 p "op @ q"] assms(1) by simp
  also have "\<dots> = command_loop ?b [\<lparr>cf_start = ?s, cf_kind = Root\<rparr>] None False (str_len p + length op) q"
    using command_loop_separator [OF assms(2) at1 assms(3)] by (simp add: set_top_start_def)
  also have "\<dots> = [\<lparr>cf_start = ?s, cf_kind = Root\<rparr>]"
    using command_loop_plain [OF at2 assms(3)] by simp
  finally have "innermost_command_start ?b = ?s" by (simp add: innermost_command_start_def top_start_def)
  moreover have "get_from ?b ?s = dropWhile is_whitespace q"
    using skip_ws_bytes_stands [OF at2] by (simp add: stands_at_def get_from_def)
  ultimately show ?thesis by (simp add: current_command_slice_def skip_leading_ws)
qed

theorem command_after_separator_witness:
  "current_command_slice (lit ''cd x '' @ [c_amp, c_amp] @ lit '' git st'') = skip_leading_assignments (lit '' git st'')"
  by (rule command_after_separator) (simp_all add: plain_char_def separators_def)

end
