(* ===== verification/Cancel_Token.thy ===== *)
theory Cancel_Token
  imports Rust_Prelude
begin

text \<open>
  Cooperative cancellation of one completion attempt (\<open>cancellation.rs\<close>). A token is a shared
  cell whose state is read and written under its publication mutex, so every operation below
  is one atomic step; the threads' interleavings are the sequences of actions that \<open>sys_run\<close>
  executes. The state that commits write is an arbitrary type \<open>'s\<close>.
\<close>

section \<open>Tokens and scopes\<close>

datatype attempt = ACTIVE | CANCELLED | COMPLETED

datatype cancelled_error = CompletionCancelled

text \<open>The tokens live in a store, addressed by the position of their creation; a thread has
  the token in scope (\<open>CURRENT\<close>) and the \<open>Scope\<close> guards it holds, innermost first, each with the
  token to restore.\<close>

record 's shared =
  sh_tokens :: "attempt list"
  sh_current :: "nat \<Rightarrow> nat option"
  sh_scopes :: "nat \<Rightarrow> nat option list"
  sh_data :: 's

definition token_new :: "'s shared \<Rightarrow> nat \<times> 's shared" where
  "token_new sh = (length (sh_tokens sh), sh\<lparr>sh_tokens := sh_tokens sh @ [ACTIVE]\<rparr>)"

definition token_state :: "'s shared \<Rightarrow> nat \<Rightarrow> attempt" where
  "token_state sh tok = (if tok < length (sh_tokens sh) then sh_tokens sh ! tok else ACTIVE)"

definition set_token :: "nat \<Rightarrow> attempt \<Rightarrow> 's shared \<Rightarrow> 's shared" where
  "set_token tok a sh = sh\<lparr>sh_tokens := (sh_tokens sh)[tok := a]\<rparr>"

text \<open>\<open>compare_exchange(ACTIVE, CANCELLED)\<close>.\<close>

definition token_cancel :: "nat \<Rightarrow> 's shared \<Rightarrow> bool \<times> 's shared" where
  "token_cancel tok sh =
     (if token_state sh tok = ACTIVE then (True, set_token tok CANCELLED sh) else (False, sh))"

definition token_is_cancelled :: "nat \<Rightarrow> 's shared \<Rightarrow> bool" where
  "token_is_cancelled tok sh = (token_state sh tok = CANCELLED)"

type_synonym ('s, 'a) commit = "'s \<Rightarrow> 'a \<times> 's"

definition run_commit :: "('s, 'a) commit \<Rightarrow> 's shared \<Rightarrow> (cancelled_error + 'a) \<times> 's shared" where
  "run_commit commit sh = (case commit (sh_data sh) of (a, d) \<Rightarrow> (Inr a, sh\<lparr>sh_data := d\<rparr>))"

definition token_commit_if_active ::
  "nat \<Rightarrow> ('s, 'a) commit \<Rightarrow> 's shared \<Rightarrow> (cancelled_error + 'a) \<times> 's shared" where
  "token_commit_if_active tok commit sh =
     (if token_state sh tok \<noteq> ACTIVE then (Inl CompletionCancelled, sh) else run_commit commit sh)"

definition token_finish_if_active ::
  "nat \<Rightarrow> ('s, 'a) commit \<Rightarrow> 's shared \<Rightarrow> (cancelled_error + 'a) \<times> 's shared" where
  "token_finish_if_active tok commit sh =
     (if token_state sh tok \<noteq> ACTIVE then (Inl CompletionCancelled, sh)
      else case run_commit commit sh of (r, sh') \<Rightarrow> (r, set_token tok COMPLETED sh'))"

definition enter :: "nat \<Rightarrow> nat \<Rightarrow> 's shared \<Rightarrow> 's shared" where
  "enter thread tok sh =
     sh\<lparr>sh_scopes := (sh_scopes sh)(thread := sh_current sh thread # sh_scopes sh thread),
        sh_current := (sh_current sh)(thread := Some tok)\<rparr>"

text \<open>\<open>Drop for Scope\<close>: the innermost guard of the thread.\<close>

definition drop_scope :: "nat \<Rightarrow> 's shared \<Rightarrow> 's shared" where
  "drop_scope thread sh =
     (case sh_scopes sh thread of
        [] \<Rightarrow> sh
      | previous # scopes \<Rightarrow>
          sh\<lparr>sh_scopes := (sh_scopes sh)(thread := scopes),
             sh_current := (sh_current sh)(thread := previous)\<rparr>)"

definition is_cancelled :: "nat \<Rightarrow> 's shared \<Rightarrow> bool" where
  "is_cancelled thread sh =
     (case sh_current sh thread of None \<Rightarrow> False | Some tok \<Rightarrow> token_is_cancelled tok sh)"

definition check :: "nat \<Rightarrow> 's shared \<Rightarrow> cancelled_error + unit" where
  "check thread sh = (if is_cancelled thread sh then Inl CompletionCancelled else Inr ())"

definition commit_if_active ::
  "nat \<Rightarrow> ('s, 'a) commit \<Rightarrow> 's shared \<Rightarrow> (cancelled_error + 'a) \<times> 's shared" where
  "commit_if_active thread commit sh =
     (case sh_current sh thread of
        Some tok \<Rightarrow> token_commit_if_active tok commit sh
      | None \<Rightarrow> run_commit commit sh)"

definition finish_if_active ::
  "nat \<Rightarrow> ('s, 'a) commit \<Rightarrow> 's shared \<Rightarrow> (cancelled_error + 'a) \<times> 's shared" where
  "finish_if_active thread commit sh =
     (case sh_current sh thread of
        Some tok \<Rightarrow> token_finish_if_active tok commit sh
      | None \<Rightarrow> run_commit commit sh)"

section \<open>Interleavings\<close>

text \<open>What the threads do, and what is seen of it. A step that finds no token in scope has no
  token in its event.\<close>

datatype ('s, 'a) action =
    New
  | Enter nat nat
  | Drop nat
  | Cancel nat
  | Commit nat "('s, 'a) commit"
  | Finish nat "('s, 'a) commit"

datatype event = Silent | CancelWon nat | CommitOk "nat option" | FinishOk "nat option" | Refused

definition sys_act :: "('s, 'a) action \<Rightarrow> 's shared \<Rightarrow> event \<times> 's shared" where
  "sys_act a sh =
     (case a of
        New \<Rightarrow> (Silent, snd (token_new sh))
      | Enter thread tok \<Rightarrow> (Silent, if tok < length (sh_tokens sh) then enter thread tok sh else sh)
      | Drop thread \<Rightarrow> (Silent, drop_scope thread sh)
      | Cancel tok \<Rightarrow>
          (if tok < length (sh_tokens sh)
           then (case token_cancel tok sh of (won, sh') \<Rightarrow> (if won then CancelWon tok else Refused, sh'))
           else (Refused, sh))
      | Commit thread c \<Rightarrow>
          (case commit_if_active thread c sh of
             (Inr _, sh') \<Rightarrow> (CommitOk (sh_current sh thread), sh')
           | (Inl _, sh') \<Rightarrow> (Refused, sh'))
      | Finish thread c \<Rightarrow>
          (case finish_if_active thread c sh of
             (Inr _, sh') \<Rightarrow> (FinishOk (sh_current sh thread), sh')
           | (Inl _, sh') \<Rightarrow> (Refused, sh')))"

fun sys_run :: "('s, 'a) action list \<Rightarrow> 's shared \<Rightarrow> event list \<times> 's shared" where
  "sys_run [] sh = ([], sh)"
| "sys_run (a # as) sh =
     (let (e, sh') = sys_act a sh; (es, sh'') = sys_run as sh' in (e # es, sh''))"

definition sys_start :: "'s \<Rightarrow> 's shared" where
  "sys_start d = \<lparr>sh_tokens = [], sh_current = (\<lambda>_. None), sh_scopes = (\<lambda>_. []), sh_data = d\<rparr>"

text \<open>The events of one token.\<close>

definition concerns :: "nat \<Rightarrow> event \<Rightarrow> bool" where
  "concerns tok e \<longleftrightarrow> e = CancelWon tok \<or> e = CommitOk (Some tok) \<or> e = FinishOk (Some tok)"

text \<open>Tokens in scope exist: \<open>enter\<close> takes a token that was created.\<close>

definition scoped :: "'s shared \<Rightarrow> bool" where
  "scoped sh \<longleftrightarrow>
     (\<forall>thread tok. sh_current sh thread = Some tok \<or> Some tok \<in> set (sh_scopes sh thread) \<longrightarrow>
        tok < length (sh_tokens sh))"

lemma scoped_start: "scoped (sys_start d)"
  by (simp add: scoped_def sys_start_def)

lemma run_commit_fst [simp]: "run_commit c sh = (r, sh') \<Longrightarrow> \<exists>a. r = Inr a"
  by (auto simp: run_commit_def split: prod.splits)

lemma run_commit_frame:
  "run_commit c sh = (r, sh') \<Longrightarrow>
   sh_tokens sh' = sh_tokens sh \<and> sh_current sh' = sh_current sh \<and> sh_scopes sh' = sh_scopes sh"
  by (auto simp: run_commit_def split: prod.splits)

lemmas cancel_defs =
  sys_act_def token_new_def token_cancel_def commit_if_active_def finish_if_active_def
  token_commit_if_active_def token_finish_if_active_def set_token_def enter_def drop_scope_def
  run_commit_def

lemma scoped_set_token [simp]: "scoped (set_token tok a sh) = scoped sh"
  by (simp add: scoped_def set_token_def)

lemma scoped_data [simp]: "scoped (sh\<lparr>sh_data := d\<rparr>) = scoped sh"
  by (simp add: scoped_def)

lemma scoped_enter: "scoped sh \<Longrightarrow> tok < length (sh_tokens sh) \<Longrightarrow> scoped (enter t tok sh)"
  by (auto simp: scoped_def enter_def)

lemma scoped_drop: "scoped sh \<Longrightarrow> scoped (drop_scope t sh)"
proof (cases "sh_scopes sh t")
  case (Cons p ps)
  assume sc: "scoped sh"
  then have "\<forall>tok. Some tok \<in> set (p # ps) \<longrightarrow> tok < length (sh_tokens sh)"
    unfolding scoped_def Cons [symmetric] by blast
  with sc Cons show ?thesis by (auto simp: scoped_def drop_scope_def)
qed (simp add: drop_scope_def)

lemma scoped_new: "scoped sh \<Longrightarrow> scoped (snd (token_new sh))"
  by (auto simp: scoped_def token_new_def less_Suc_eq)

lemma scoped_act: "scoped sh \<Longrightarrow> scoped (snd (sys_act a sh))"
  by (cases a)
     (auto simp: sys_act_def scoped_enter scoped_drop scoped_new token_cancel_def commit_if_active_def
       finish_if_active_def token_commit_if_active_def token_finish_if_active_def run_commit_def
       split: prod.splits option.splits)

text \<open>What a step does to one token: it changes only by an event of that token, from active.\<close>

lemma act_token:
  assumes "scoped sh" and "tok < length (sh_tokens sh)" and "sys_act a sh = (e, sh')"
  shows "tok < length (sh_tokens sh')"
    and "concerns tok e \<Longrightarrow> sh_tokens sh ! tok = ACTIVE"
    and "sh_tokens sh' ! tok =
           (if e = CancelWon tok then CANCELLED else if e = FinishOk (Some tok) then COMPLETED
            else sh_tokens sh ! tok)"
  using assms
  by (cases a; force simp: cancel_defs scoped_def concerns_def token_state_def nth_append nth_list_update
      split: prod.splits option.splits list.splits if_splits)+

text \<open>What one token can show: some commits, then at most one of a won cancellation and a
  successful finish, then nothing.\<close>

definition attempt_history :: "nat \<Rightarrow> event list \<Rightarrow> bool" where
  "attempt_history tok es \<longleftrightarrow>
     (\<exists>n tl. es = replicate n (CommitOk (Some tok)) @ tl \<and>
             (tl = [] \<or> tl = [CancelWon tok] \<or> tl = [FinishOk (Some tok)]))"

lemma attempt_history_intros:
  "attempt_history tok []"
  "attempt_history tok [CancelWon tok]"
  "attempt_history tok [FinishOk (Some tok)]"
  "attempt_history tok es \<Longrightarrow> attempt_history tok (CommitOk (Some tok) # es)"
  unfolding attempt_history_def
     apply (intro exI [of _ 0] exI [of _ "[]"], simp)
    apply (intro exI [of _ 0] exI [of _ "[CancelWon tok]"], simp)
   apply (intro exI [of _ 0] exI [of _ "[FinishOk (Some tok)]"], simp)
  by (metis append_Cons replicate_Suc)

lemma run_Cons: "sys_act a sh = (e, sh') \<Longrightarrow> sys_run (a # as) sh = (e # fst (sys_run as sh'), snd (sys_run as sh'))"
  by (simp split: prod.splits)

declare sys_run.simps(2) [simp del]

lemma settled_silent:
  "scoped sh \<Longrightarrow> tok < length (sh_tokens sh) \<Longrightarrow> sh_tokens sh ! tok \<noteq> ACTIVE \<Longrightarrow>
   filter (concerns tok) (fst (sys_run as sh)) = []"
proof (induction as arbitrary: sh)
  case (Cons a as)
  obtain e sh' where a: "sys_act a sh = (e, sh')" by force
  note step = act_token [OF Cons.prems(1,2) a]
  have "\<not> concerns tok e" using step(2) Cons.prems(3) by blast
  moreover have "sh_tokens sh' ! tok \<noteq> ACTIVE" using step(3) Cons.prems(3) by simp
  moreover have "scoped sh'" using scoped_act [OF Cons.prems(1), of a] a by simp
  ultimately show ?case using Cons.IH [of sh'] step(1) by (simp add: run_Cons [OF a])
qed simp

lemma absent_token:
  assumes "scoped sh" "length (sh_tokens sh) \<le> tok" "sys_act a sh = (e, sh')"
  shows "\<not> concerns tok e" and "tok < length (sh_tokens sh') \<Longrightarrow> sh_tokens sh' ! tok = ACTIVE"
  using assms
  by (cases a; force simp: cancel_defs scoped_def concerns_def token_state_def nth_append
      split: prod.splits option.splits list.splits if_splits)+

lemma run_attempt_history:
  "scoped sh \<Longrightarrow> (tok < length (sh_tokens sh) \<Longrightarrow> sh_tokens sh ! tok = ACTIVE) \<Longrightarrow>
   attempt_history tok (filter (concerns tok) (fst (sys_run as sh)))"
proof (induction as arbitrary: sh)
  case (Cons a as)
  obtain e sh' where a: "sys_act a sh = (e, sh')" by force
  have sc: "scoped sh'" using scoped_act [OF Cons.prems(1), of a] a by simp
  have sys_run: "fst (sys_run (a # as) sh) = e # fst (sys_run as sh')" by (simp add: run_Cons [OF a])
  show ?case
  proof (cases "tok < length (sh_tokens sh)")
    case True
    note step = act_token [OF Cons.prems(1) True a]
    show ?thesis
    proof (cases "e = CancelWon tok \<or> e = FinishOk (Some tok)")
      case True
      then have "filter (concerns tok) (fst (sys_run as sh')) = []"
        using step by (intro settled_silent [OF sc]) auto
      with True show ?thesis unfolding sys_run by (auto simp: concerns_def [of tok e] intro: attempt_history_intros)
    next
      case False
      then have "attempt_history tok (filter (concerns tok) (fst (sys_run as sh')))"
        using step Cons.prems(2) True by (intro Cons.IH [OF sc]) auto
      with False show ?thesis unfolding sys_run by (auto simp: concerns_def [of tok e] intro: attempt_history_intros)
    qed
  next
    case False
    then show ?thesis using absent_token [OF Cons.prems(1) _ a, of tok] Cons.IH [OF sc] by (simp add: sys_run)
  qed
qed (simp add: attempt_history_intros)

text \<open>The commits that took effect.\<close>

fun published :: "('s, 'a) action list \<Rightarrow> event list \<Rightarrow> ('s, 'a) commit list" where
  "published (Commit _ c # as) (CommitOk _ # es) = c # published as es"
| "published (Finish _ c # as) (FinishOk _ # es) = c # published as es"
| "published (_ # as) (_ # es) = published as es"
| "published _ _ = []"

lemma act_published:
  "sys_act a sh = (e, sh') \<Longrightarrow>
   published (a # as) (e # es) = published [a] [e] @ published as es \<and>
   sh_data sh' = fold (\<lambda>c d. snd (c d)) (published [a] [e]) (sh_data sh)"
  by (cases a; force simp: cancel_defs split: prod.splits option.splits list.splits if_splits)

lemma run_published:
  "sh_data (snd (sys_run as sh)) = fold (\<lambda>c d. snd (c d)) (published as (fst (sys_run as sh))) (sh_data sh)"
proof (induction as arbitrary: sh)
  case (Cons a as)
  obtain e sh' where a: "sys_act a sh = (e, sh')" by force
  show ?case using act_published [OF a, of as "fst (sys_run as sh')"] Cons.IH [of sh']
    by (simp add: run_Cons [OF a])
qed simp

text \<open>
  Property C7. Publication against cancellation, for every interleaving of any number of
  threads and tokens: the visible events of an attempt are commits followed by at most one of
  a won cancellation and a successful finish, and nothing after it; a cancelled or completed
  attempt therefore never publishes again, cancellation and completion never both win, and
  the shared data is exactly the result of the commits that were reported successful, in order.
\<close>

theorem cancellation_serializes_publication:
  "attempt_history tok (filter (concerns tok) (fst (sys_run as (sys_start d)))) \<and>
   sh_data (snd (sys_run as (sys_start d))) =
     fold (\<lambda>c d. snd (c d)) (published as (fst (sys_run as (sys_start d)))) d"
proof
  show "attempt_history tok (filter (concerns tok) (fst (sys_run as (sys_start d))))"
    by (rule run_attempt_history [OF scoped_start]) (simp add: sys_start_def)
  show "sh_data (snd (sys_run as (sys_start d))) =
     fold (\<lambda>c d. snd (c d)) (published as (fst (sys_run as (sys_start d)))) d"
    using run_published [of as "sys_start d"] by (simp add: sys_start_def)
qed

end
