(* ===== verification/Spec_IR.thy ===== *)
theory Spec_IR
  imports Rust_Str
begin

text \<open>
  The completion specs of \<open>ir.rs\<close>: commands, options, arguments and their generators as the
  bundled JSON files describe them. A struct with fields of its own recursion is a constructor
  that carries a record with the other fields; the selectors have the names of the fields, with
  the prefix of their struct. Shared handles (\<open>Arc\<close>) and boxes are their contents.
\<close>

section \<open>Enumerations and JSON values\<close>

datatype builtin =
    GitRefs | GitBranches | GitTags | GitCommits | GitRemotes | GitChangedFiles | GitStashes
  | GitAliases | NpmScripts | NpmDeps | Cobra

datatype template = Filepaths | Folders | History | Help

datatype filter_strategy = Prefix | Fuzzy | Default

definition effective_fuzzy :: "filter_strategy \<Rightarrow> bool \<Rightarrow> bool" where
  "effective_fuzzy strategy user_fuzzy =
     (case strategy of Prefix \<Rightarrow> False | Fuzzy \<Rightarrow> True | Default \<Rightarrow> user_fuzzy)"

text \<open>The values of \<open>serde_json\<close>; a float keeps its text, no code here computes with it.\<close>

datatype json_number = PosInt nat | NegInt int | Float str

datatype json =
    JNull | JBool bool | JNumber json_number | JString str | JArray "json list"
  | JObject "(str \<times> json) list"

section \<open>Records without recursion\<close>

record suggestion_meta =
  sm_ai_resolved_reference :: bool
  sm_ai_generated :: bool
  sm_suggestion_type :: "str option"
  sm_original_type :: "str option"
  sm_get_query_term :: "str option"
  sm_js_get_query_term :: "str option"
  sm_insert_value :: "str option"
  sm_display_name :: "str option"
  sm_separator_to_add :: "str option"
  sm_should_add_space :: "bool option"
  sm_hidden :: bool
  sm_priority :: "int option"
  sm_icon :: "str option"
  sm_is_dangerous :: bool

definition meta_default :: suggestion_meta where
  "meta_default =
     \<lparr>sm_ai_resolved_reference = False, sm_ai_generated = False, sm_suggestion_type = None,
      sm_original_type = None, sm_get_query_term = None, sm_js_get_query_term = None,
      sm_insert_value = None, sm_display_name = None, sm_separator_to_add = None,
      sm_should_add_space = None, sm_hidden = False, sm_priority = None, sm_icon = None,
      sm_is_dangerous = False\<rparr>"

record suggestion_seed =
  ss_names :: "str list"
  ss_description :: str
  ss_args_hint :: str
  ss_meta :: suggestion_meta

record parser_directives =
  pd_options_must_precede_arguments :: "bool option"
  pd_flags_are_posix_noncompliant :: "bool option"
  pd_option_arg_separators :: "str list option"
  pd_alias :: "str option"
  pd_js_alias :: "str option"

definition directives_default :: parser_directives where
  "directives_default =
     \<lparr>pd_options_must_precede_arguments = None, pd_flags_are_posix_noncompliant = None,
      pd_option_arg_separators = None, pd_alias = None, pd_js_alias = None\<rparr>"

record generator_trigger =
  gt_on :: str
  gt_string :: "json option"
  gt_length :: "int option"
  gt_js_trigger :: "str option"

record generator_spec =
  gs_templates :: "template list"
  gs_script :: "str list"
  gs_split_on :: "str option"
  gs_js_post_process :: "str option"
  gs_js_custom :: "str option"
  gs_js_script :: "str option"
  gs_cache_key :: "str option"
  gs_cache_by_directory :: "bool option"
  gs_cache_ttl_ms :: "int option"
  gs_cache_strategy :: "str option"
  gs_script_timeout_ms :: "int option"
  gs_builtin :: "builtin option"
  gs_get_query_term :: "str option"
  gs_js_get_query_term :: "str option"
  gs_js_filter_template_suggestions :: "str option"
  gs_trigger :: "generator_trigger option"
  gs_extensions :: "str list"
  gs_equals :: "str list"
  gs_show_folders :: "str option"
  gs_filter_folders :: "bool option"
  gs_file_priority :: "int option"
  gs_folder_priority :: "int option"
  gs_root_directory :: "str option"
  gs_matches :: "str option"
  gs_matches_flags :: "str option"

record arg_fields =
  af_name :: str
  af_description :: str
  af_templates :: "template list"
  af_script :: "str list"
  af_split_on :: "str option"
  af_js_post_process :: "str option"
  af_js_custom :: "str option"
  af_js_script :: "str option"
  af_cache_key :: "str option"
  af_cache_by_directory :: "bool option"
  af_cache_ttl_ms :: "int option"
  af_script_timeout_ms :: "int option"
  af_builtin :: "builtin option"
  af_builtins :: "builtin list"
  af_suggestions :: "suggestion_seed list"
  af_meta :: suggestion_meta
  af_is_optional :: bool
  af_is_variadic :: bool
  af_filter_strategy :: "filter_strategy option"
  af_suggest_current_token :: "bool option"
  af_options_can_break_variadic_arg :: "bool option"
  af_is_command :: bool
  af_is_script :: bool
  af_is_module :: "str option"
  af_js_load_spec :: "str option"
  af_js_get_query_term :: "str option"
  af_debounce_ms :: "int option"
  af_parser_directives :: "parser_directives option"
  af_cache_strategy :: "str option"
  af_generators :: "generator_spec list"

record option_fields =
  of_names :: "str list"
  of_description :: str
  of_meta :: suggestion_meta
  of_requires_separator :: "json option"
  of_requires_equals :: bool
  of_requires_subcommand :: "bool option"
  of_exclusive_on :: "str list"
  of_depends_on :: "str list"
  of_is_repeatable :: "json option"
  of_is_persistent :: bool

record spec_fields =
  sf_names :: "str list"
  sf_description :: str
  sf_additional_suggestions :: "suggestion_seed list"
  sf_meta :: suggestion_meta
  sf_requires_subcommand :: "bool option"
  sf_filter_strategy :: "filter_strategy option"
  sf_parser_directives :: "parser_directives option"
  sf_js_generate_spec :: "str option"
  sf_generate_spec_cache_key :: "str option"
  sf_js_load_spec :: "str option"

section \<open>The recursive structs\<close>

datatype spec =
    Spec (sp_fields: spec_fields) (sp_subcommands: "spec list") (sp_options: "option_spec list")
      (sp_persistent_options: "option_spec list") (sp_args: "arg_spec list")
      (sp_load_spec: "load_spec option")
and arg_spec =
    ArgSpec (ar_fields: arg_fields) (ar_load_spec: "load_spec option") (ar_resolved_spec: "spec option")
and option_spec =
    OptionSpec (op_fields: option_fields) (op_args: "arg_spec list") (op_load_spec: "load_spec option")
and load_spec = LPath str | LInline spec

abbreviation sp_names :: "spec \<Rightarrow> str list" where "sp_names s \<equiv> sf_names (sp_fields s)"
abbreviation op_names :: "option_spec \<Rightarrow> str list" where "op_names opt \<equiv> of_names (op_fields opt)"
abbreviation ar_is_variadic :: "arg_spec \<Rightarrow> bool" where "ar_is_variadic a \<equiv> af_is_variadic (ar_fields a)"
abbreviation ar_is_optional :: "arg_spec \<Rightarrow> bool" where "ar_is_optional a \<equiv> af_is_optional (ar_fields a)"

definition arg_fields_default :: arg_fields where
  "arg_fields_default =
     \<lparr>af_name = [], af_description = [], af_templates = [], af_script = [], af_split_on = None,
      af_js_post_process = None, af_js_custom = None, af_js_script = None, af_cache_key = None,
      af_cache_by_directory = None, af_cache_ttl_ms = None, af_script_timeout_ms = None,
      af_builtin = None, af_builtins = [], af_suggestions = [], af_meta = meta_default,
      af_is_optional = False, af_is_variadic = False, af_filter_strategy = None,
      af_suggest_current_token = None, af_options_can_break_variadic_arg = None,
      af_is_command = False, af_is_script = False, af_is_module = None, af_js_load_spec = None,
      af_js_get_query_term = None, af_debounce_ms = None, af_parser_directives = None,
      af_cache_strategy = None, af_generators = []\<rparr>"

definition option_fields_default :: option_fields where
  "option_fields_default =
     \<lparr>of_names = [], of_description = [], of_meta = meta_default, of_requires_separator = None,
      of_requires_equals = False, of_requires_subcommand = None, of_exclusive_on = [],
      of_depends_on = [], of_is_repeatable = None, of_is_persistent = False\<rparr>"

definition spec_fields_default :: spec_fields where
  "spec_fields_default =
     \<lparr>sf_names = [], sf_description = [], sf_additional_suggestions = [], sf_meta = meta_default,
      sf_requires_subcommand = None, sf_filter_strategy = None, sf_parser_directives = None,
      sf_js_generate_spec = None, sf_generate_spec_cache_key = None, sf_js_load_spec = None\<rparr>"

definition arg_default :: arg_spec where
  "arg_default = ArgSpec arg_fields_default None None"

definition option_default :: option_spec where
  "option_default = OptionSpec option_fields_default [] None"

definition spec_default :: spec where
  "spec_default = Spec spec_fields_default [] [] [] [] None"

lemmas spec_defaults =
  arg_default_def option_default_def spec_default_def arg_fields_default_def
  option_fields_default_def spec_fields_default_def meta_default_def directives_default_def

section \<open>Lookup by name\<close>

definition has_name :: "spec \<Rightarrow> str \<Rightarrow> bool" where
  "has_name spec name \<longleftrightarrow> name \<in> set (sp_names spec)"

definition find_subcommand :: "spec \<Rightarrow> str \<Rightarrow> spec option" where
  "find_subcommand spec name = find (\<lambda>s. has_name s name) (sp_subcommands spec)"

lemma find_subcommand_SomeD:
  "find_subcommand spec name = Some s \<Longrightarrow> s \<in> set (sp_subcommands spec) \<and> has_name s name"
  by (auto simp: find_subcommand_def find_Some_iff)

end
