(* ===== verification/Fig_Spec.thy ===== *)
theory Fig_Spec
  imports Spec_IR
begin

text \<open>
  Fig JSON to the static IR (\<open>fig_spec.rs\<close>): what the hooks of \<open>generateSpec\<close> and \<open>loadSpec\<close>
  return is converted to a \<open>spec\<close>, marked as generated and merged with the node that owns the
  hook.
\<close>

section \<open>JSON accessors\<close>

text \<open>The accessors of \<open>serde_json::Value\<close>; an object is the list of its members.\<close>

type_synonym json_object = "(str \<times> json) list"

definition get :: "string \<Rightarrow> json_object \<Rightarrow> json option" where
  "get key obj = map_of obj (lit key)"

definition as_str :: "json \<Rightarrow> str option" where
  "as_str v = (case v of JString s \<Rightarrow> Some s | _ \<Rightarrow> None)"

definition as_bool :: "json \<Rightarrow> bool option" where
  "as_bool v = (case v of JBool b \<Rightarrow> Some b | _ \<Rightarrow> None)"

definition as_i64 :: "json \<Rightarrow> int option" where
  "as_i64 v = (case v of
       JNumber (PosInt n) \<Rightarrow> (if n < 2 ^ 63 then Some (int n) else None)
     | JNumber (NegInt i) \<Rightarrow> Some i
     | _ \<Rightarrow> None)"

definition as_array :: "json \<Rightarrow> json list option" where
  "as_array v = (case v of JArray xs \<Rightarrow> Some xs | _ \<Rightarrow> None)"

definition as_object :: "json \<Rightarrow> json_object option" where
  "as_object v = (case v of JObject obj \<Rightarrow> Some obj | _ \<Rightarrow> None)"

abbreviation get_str :: "string \<Rightarrow> json_object \<Rightarrow> str option" where
  "get_str key obj \<equiv> Option.bind (get key obj) as_str"

abbreviation get_bool :: "string \<Rightarrow> json_object \<Rightarrow> bool option" where
  "get_bool key obj \<equiv> Option.bind (get key obj) as_bool"

abbreviation get_i64 :: "string \<Rightarrow> json_object \<Rightarrow> int option" where
  "get_i64 key obj \<equiv> Option.bind (get key obj) as_i64"

definition json_name :: "json \<Rightarrow> str option" where
  "json_name v =
     (case v of
        JString name \<Rightarrow> (if name \<noteq> [] then Some name else None)
      | JArray names \<Rightarrow> find_map as_str names
      | _ \<Rightarrow> None)"

definition json_names :: "json option \<Rightarrow> str list option" where
  "json_names v =
     (case v of
        None \<Rightarrow> None
      | Some (JString name) \<Rightarrow> Some [name]
      | Some (JArray items) \<Rightarrow>
          (let names = filter_map as_str items in if names = [] then None else Some names)
      | Some _ \<Rightarrow> None)"

definition json_array :: "json option \<Rightarrow> json list" where
  "json_array v = unwrap_or [] (Option.bind v as_array)"

definition json_string_list :: "json option \<Rightarrow> str list" where
  "json_string_list v =
     (case v of
        Some (JString item) \<Rightarrow> (if item \<noteq> [] then [item] else [])
      | Some (JArray items) \<Rightarrow> filter_map as_str items
      | _ \<Rightarrow> [])"

definition object_names :: "json_object \<Rightarrow> str list option" where
  "object_names obj = or_else (json_names (get ''name'' obj)) (json_names (get ''names'' obj))"

section \<open>Leaves\<close>

definition template_from_fig :: "str \<Rightarrow> template option" where
  "template_from_fig item =
     (if item = lit ''filepaths'' then Some Filepaths
      else if item = lit ''folders'' then Some Folders
      else if item = lit ''history'' then Some History
      else if item = lit ''help'' then Some Help
      else None)"

definition templates_from_fig :: "json \<Rightarrow> template list" where
  "templates_from_fig v =
     (case v of
        JString item \<Rightarrow> filter_map template_from_fig [item]
      | JArray items \<Rightarrow> filter_map template_from_fig (filter_map as_str items)
      | _ \<Rightarrow> [])"

definition object_templates :: "json_object \<Rightarrow> template list" where
  "object_templates obj =
     unwrap_or [] (map_option templates_from_fig (or_else (get ''template'' obj) (get ''templates'' obj)))"

definition filter_strategy_from_fig :: "json option \<Rightarrow> filter_strategy option" where
  "filter_strategy_from_fig v =
     (case Option.bind v as_str of
        None \<Rightarrow> None
      | Some s \<Rightarrow> (if s = lit ''prefix'' then Some Prefix else if s = lit ''fuzzy'' then Some Fuzzy
                   else if s = lit ''default'' then Some Default else None))"

definition parser_directives_from_fig :: "json option \<Rightarrow> parser_directives option" where
  "parser_directives_from_fig v =
     map_option (\<lambda>obj.
       \<lparr>pd_options_must_precede_arguments = get_bool ''optionsMustPrecedeArguments'' obj,
        pd_flags_are_posix_noncompliant = get_bool ''flagsArePosixNoncompliant'' obj,
        pd_option_arg_separators =
          map_option (filter_map as_str) (Option.bind (get ''optionArgSeparators'' obj) as_array),
        pd_alias = get_str ''alias'' obj,
        pd_js_alias = get_str ''jsAlias'' obj\<rparr>)
     (Option.bind v as_object)"

definition script_from_fig :: "json option \<Rightarrow> str list" where
  "script_from_fig v =
     (case v of
        None \<Rightarrow> []
      | Some (JString script) \<Rightarrow>
          (let script' = trim script
           in if script' = [] then [] else [lit ''sh'', lit ''-c'', script'])
      | Some (JArray items) \<Rightarrow> filter_map as_str items
      | Some (JObject obj) \<Rightarrow>
          (case get_str ''command'' obj of
             None \<Rightarrow> []
           | Some command \<Rightarrow>
               (if trim command = [] then []
                else command # filter_map as_str (json_array (get ''args'' obj))))
      | Some _ \<Rightarrow> [])"

definition builtin_from_fig :: "json \<Rightarrow> builtin option" where
  "builtin_from_fig v =
     (case as_str v of
        None \<Rightarrow> None
      | Some s \<Rightarrow> map_of [
          (lit ''git-refs'', GitRefs), (lit ''git-branches'', GitBranches), (lit ''git-tags'', GitTags),
          (lit ''git-commits'', GitCommits), (lit ''git-remotes'', GitRemotes),
          (lit ''git-changed-files'', GitChangedFiles), (lit ''git-stashes'', GitStashes),
          (lit ''git-aliases'', GitAliases), (lit ''npm-scripts'', NpmScripts),
          (lit ''npm-deps'', NpmDeps), (lit ''cobra'', Cobra)] s)"

definition debounce_ms_from_fig :: "json_object \<Rightarrow> int option" where
  "debounce_ms_from_fig obj =
     (case get_i64 ''debounceMs'' obj of
        Some ms \<Rightarrow> (if ms > 0 then Some ms else None)
      | None \<Rightarrow>
          (case get ''debounce'' obj of
             Some (JBool True) \<Rightarrow> Some 200
           | Some (JNumber n) \<Rightarrow>
               Option.bind (as_i64 (JNumber n)) (\<lambda>ms. if ms > 0 then Some ms else None)
           | _ \<Rightarrow> None))"

definition cache_fields_from_fig ::
  "json_object \<Rightarrow> str option \<times> bool option \<times> int option \<times> str option" where
  "cache_fields_from_fig obj =
     (let nested = Option.bind (get ''cache'' obj) as_object
      in (or_else (get_str ''cacheKey'' obj)
            (Option.bind nested (\<lambda>cache. Option.bind (or_else (get ''cacheKey'' cache) (get ''key'' cache)) as_str)),
          or_else (get_bool ''cacheByDirectory'' obj) (Option.bind nested (get_bool ''cacheByDirectory'')),
          or_else (get_i64 ''cacheTtl'' obj) (Option.bind nested (get_i64 ''ttl'')),
          or_else (get_str ''cacheStrategy'' obj) (Option.bind nested (get_str ''strategy''))))"

definition trigger_from_fig :: "json \<Rightarrow> generator_trigger option" where
  "trigger_from_fig v =
     (case v of
        JString s \<Rightarrow>
          Some \<lparr>gt_on = lit ''string'', gt_string = Some (JString s), gt_length = None, gt_js_trigger = None\<rparr>
      | JObject obj \<Rightarrow>
          Some \<lparr>gt_on = unwrap_or (lit ''change'') (get_str ''on'' obj), gt_string = get ''string'' obj,
                gt_length = get_i64 ''length'' obj, gt_js_trigger = get_str ''jsTrigger'' obj\<rparr>
      | _ \<Rightarrow> None)"

definition meta_from_fig :: "json_object \<Rightarrow> suggestion_meta" where
  "meta_from_fig obj =
     \<lparr>sm_ai_resolved_reference = False, sm_ai_generated = False,
      sm_suggestion_type = get_str ''type'' obj, sm_original_type = get_str ''originalType'' obj,
      sm_get_query_term = get_str ''getQueryTerm'' obj,
      sm_js_get_query_term = get_str ''jsGetQueryTerm'' obj,
      sm_insert_value = get_str ''insertValue'' obj, sm_display_name = get_str ''displayName'' obj,
      sm_separator_to_add = get_str ''separatorToAdd'' obj,
      sm_should_add_space = get_bool ''shouldAddSpace'' obj,
      sm_hidden = unwrap_or False (get_bool ''hidden'' obj), sm_priority = get_i64 ''priority'' obj,
      sm_icon = get_str ''icon'' obj, sm_is_dangerous = unwrap_or False (get_bool ''isDangerous'' obj)\<rparr>"

definition seed_from_fig_json :: "json \<Rightarrow> suggestion_seed option" where
  "seed_from_fig_json v =
     (case v of
        JString name \<Rightarrow>
          Some \<lparr>ss_names = [name], ss_description = [], ss_args_hint = [], ss_meta = meta_default\<rparr>
      | JObject obj \<Rightarrow>
          map_option (\<lambda>names.
            \<lparr>ss_names = names, ss_description = unwrap_or [] (get_str ''description'' obj),
             ss_args_hint = [], ss_meta = meta_from_fig obj\<rparr>) (object_names obj)
      | _ \<Rightarrow> None)"

definition generator_from_fig :: "json \<Rightarrow> generator_spec option" where
  "generator_from_fig v =
     map_option (\<lambda>obj. case cache_fields_from_fig obj of (key, by_dir, ttl, strategy) \<Rightarrow>
       \<lparr>gs_templates = object_templates obj, gs_script = script_from_fig (get ''script'' obj),
        gs_split_on = get_str ''splitOn'' obj, gs_js_post_process = get_str ''jsPostProcess'' obj,
        gs_js_custom = get_str ''jsCustom'' obj, gs_js_script = get_str ''jsScript'' obj,
        gs_cache_key = key, gs_cache_by_directory = by_dir, gs_cache_ttl_ms = ttl,
        gs_cache_strategy = strategy, gs_script_timeout_ms = get_i64 ''scriptTimeout'' obj,
        gs_builtin = Option.bind (get ''builtin'' obj) builtin_from_fig,
        gs_get_query_term = get_str ''getQueryTerm'' obj,
        gs_js_get_query_term = get_str ''jsGetQueryTerm'' obj,
        gs_js_filter_template_suggestions = get_str ''jsFilterTemplateSuggestions'' obj,
        gs_trigger = Option.bind (get ''trigger'' obj) trigger_from_fig,
        gs_extensions = json_string_list (get ''extensions'' obj),
        gs_equals = json_string_list (get ''equals'' obj),
        gs_show_folders = get_str ''showFolders'' obj,
        gs_filter_folders = get_bool ''filterFolders'' obj,
        gs_file_priority = get_i64 ''filePriority'' obj,
        gs_folder_priority = get_i64 ''folderPriority'' obj,
        gs_root_directory = get_str ''rootDirectory'' obj, gs_matches = get_str ''matches'' obj,
        gs_matches_flags = get_str ''matchesFlags'' obj\<rparr>)
     (as_object v)"

definition generators_from_fig :: "json_object \<Rightarrow> generator_spec list" where
  "generators_from_fig obj =
     (case Option.bind (get ''generator'' obj) generator_from_fig of None \<Rightarrow> [] | Some g \<Rightarrow> [g]) @
     (case get ''generators'' obj of
        Some (JArray items) \<Rightarrow> filter_map generator_from_fig items
      | Some item \<Rightarrow> filter_map generator_from_fig [item]
      | None \<Rightarrow> [])"

section \<open>Specs, options and arguments\<close>

lemma size_json_member: "map_of obj k = Some v \<Longrightarrow> size v < size (JObject obj)"
proof (induction obj)
  case (Cons kv obj)
  then show ?case by (cases kv) (auto split: if_splits)
qed simp

lemma size_json_item: "v \<in> set items \<Longrightarrow> size v < size (JArray items)"
  by (induction items) auto

lemma size_get [termination_simp]: "get k obj = Some v \<Longrightarrow> size v < size (JObject obj)"
  unfolding get_def by (rule size_json_member)

lemma size_json_array [termination_simp]:
  assumes "v \<in> set (json_array (get k obj))" shows "size v < size (JObject obj)"
proof -
  obtain items where items: "get k obj = Some (JArray items)" "v \<in> set items"
    using assms
    by (cases "get k obj") (auto simp: json_array_def unwrap_or_def as_array_def split: json.splits)
  have "size v < size (JArray items)" by (rule size_json_item) fact
  also have "\<dots> < size (JObject obj)" by (rule size_get) fact
  finally show ?thesis .
qed

declare json.size [simp del]

function (sequential) spec_from_fig_json :: "json \<Rightarrow> spec option"
  and option_from_fig_json :: "json \<Rightarrow> option_spec option"
  and args_from_fig :: "json option \<Rightarrow> arg_spec list"
  and arg_from_fig_json :: "json \<Rightarrow> arg_spec option"
  and load_spec_from_fig :: "json \<Rightarrow> load_spec option" where
  "spec_from_fig_json (JObject obj) =
     (case object_names obj of
        None \<Rightarrow> None
      | Some names \<Rightarrow>
          (if names = [] then None
           else Some (Spec
             \<lparr>sf_names = names, sf_description = unwrap_or [] (get_str ''description'' obj),
              sf_additional_suggestions =
                filter_map seed_from_fig_json (json_array (get ''additionalSuggestions'' obj)),
              sf_meta = meta_from_fig obj,
              sf_requires_subcommand = get_bool ''requiresSubcommand'' obj,
              sf_filter_strategy = filter_strategy_from_fig (get ''filterStrategy'' obj),
              sf_parser_directives = parser_directives_from_fig (get ''parserDirectives'' obj),
              sf_js_generate_spec = None,
              sf_generate_spec_cache_key = get_str ''generateSpecCacheKey'' obj,
              sf_js_load_spec = get_str ''jsLoadSpec'' obj\<rparr>
             (filter_map spec_from_fig_json (json_array (get ''subcommands'' obj)))
             (filter_map option_from_fig_json (json_array (get ''options'' obj)))
             (filter_map option_from_fig_json (json_array (get ''persistentOptions'' obj)))
             (args_from_fig (get ''args'' obj))
             (map_option LPath (get_str ''loadSpec'' obj)))))"
| "spec_from_fig_json _ = None"
| "option_from_fig_json (JObject obj) =
     (case object_names obj of
        None \<Rightarrow> None
      | Some names \<Rightarrow>
          (if names = [] then None
           else Some (OptionSpec
             (option_fields_default
                \<lparr>of_names := names, of_description := unwrap_or [] (get_str ''description'' obj),
                 of_meta := meta_from_fig obj\<rparr>)
             (args_from_fig (get ''args'' obj))
             (map_option LPath (get_str ''loadSpec'' obj)))))"
| "option_from_fig_json _ = None"
| "args_from_fig (Some (JArray items)) = filter_map arg_from_fig_json items"
| "args_from_fig (Some item) = (case arg_from_fig_json item of None \<Rightarrow> [] | Some a \<Rightarrow> [a])"
| "args_from_fig None = []"
| "arg_from_fig_json (JObject obj) =
     Some (case cache_fields_from_fig obj of (key, by_dir, ttl, strategy) \<Rightarrow>
       ArgSpec
         (arg_fields_default
            \<lparr>af_name := unwrap_or [] (Option.bind (get ''name'' obj) (\<lambda>n. or_else (json_name n) (as_str n))),
             af_description := unwrap_or [] (get_str ''description'' obj),
             af_templates := object_templates obj, af_script := script_from_fig (get ''script'' obj),
             af_split_on := get_str ''splitOn'' obj,
             af_js_post_process := get_str ''jsPostProcess'' obj,
             af_js_custom := get_str ''jsCustom'' obj, af_js_script := get_str ''jsScript'' obj,
             af_cache_key := key, af_cache_by_directory := by_dir, af_cache_ttl_ms := ttl,
             af_cache_strategy := strategy, af_script_timeout_ms := get_i64 ''scriptTimeout'' obj,
             af_builtin := Option.bind (get ''builtin'' obj) builtin_from_fig,
             af_builtins := filter_map builtin_from_fig (json_array (get ''builtins'' obj)),
             af_suggestions := filter_map seed_from_fig_json (json_array (get ''suggestions'' obj)),
             af_is_optional := unwrap_or False (get_bool ''isOptional'' obj),
             af_is_variadic := unwrap_or False (get_bool ''isVariadic'' obj),
             af_is_command := unwrap_or False (get_bool ''isCommand'' obj),
             af_is_script := unwrap_or False (get_bool ''isScript'' obj),
             af_is_module := get_str ''isModule'' obj,
             af_js_load_spec := get_str ''jsLoadSpec'' obj,
             af_js_get_query_term := get_str ''jsGetQueryTerm'' obj,
             af_debounce_ms := debounce_ms_from_fig obj,
             af_parser_directives := parser_directives_from_fig (get ''parserDirectives'' obj),
             af_generators := generators_from_fig obj, af_meta := meta_from_fig obj\<rparr>)
         (Option.bind (get ''loadSpec'' obj) load_spec_from_fig)
         None)"
| "arg_from_fig_json _ = None"
| "load_spec_from_fig (JString path) = Some (LPath path)"
| "load_spec_from_fig v = map_option LInline (spec_from_fig_json v)"
  by pat_completeness auto
termination
proof (relation "measure (\<lambda>x. case x of
      Inl (Inl v) \<Rightarrow> 2 * size v
    | Inl (Inr v) \<Rightarrow> 2 * size v
    | Inr (Inl None) \<Rightarrow> 0
    | Inr (Inl (Some v)) \<Rightarrow> 2 * size v + 1
    | Inr (Inr (Inl v)) \<Rightarrow> 2 * size v
    | Inr (Inr (Inr v)) \<Rightarrow> 2 * size v + 1)", goal_cases)
qed (auto simp: size_json_array dest!: size_get size_json_item split: option.splits, simp_all add: json.size)

section \<open>Marking and merging generated specs\<close>

abbreviation taint :: "suggestion_meta \<Rightarrow> suggestion_meta" where
  "taint m \<equiv> m\<lparr>sm_ai_generated := True\<rparr>"

definition mark_seed :: "suggestion_seed \<Rightarrow> suggestion_seed" where
  "mark_seed seed = seed\<lparr>ss_meta := taint (ss_meta seed)\<rparr>"

text \<open>The load spec of an option is not visited.\<close>

fun mark_generated_spec :: "spec \<Rightarrow> spec"
  and mark_generated_arg :: "arg_spec \<Rightarrow> arg_spec"
  and mark_generated_option :: "option_spec \<Rightarrow> option_spec"
  and mark_generated_load :: "load_spec \<Rightarrow> load_spec" where
  "mark_generated_spec (Spec f subs opts pers args ls) =
     Spec (f\<lparr>sf_meta := taint (sf_meta f),
             sf_additional_suggestions := map mark_seed (sf_additional_suggestions f)\<rparr>)
       (map mark_generated_spec subs) (map mark_generated_option opts) (map mark_generated_option pers)
       (map mark_generated_arg args) (map_option mark_generated_load ls)"
| "mark_generated_arg (ArgSpec f ls rs) =
     ArgSpec (f\<lparr>af_meta := taint (af_meta f), af_suggestions := map mark_seed (af_suggestions f)\<rparr>)
       (map_option mark_generated_load ls) (map_option mark_generated_spec rs)"
| "mark_generated_option (OptionSpec f args ls) =
     OptionSpec (f\<lparr>of_meta := taint (of_meta f)\<rparr>) (map mark_generated_arg args) ls"
| "mark_generated_load (LInline spec) = LInline (mark_generated_spec spec)"
| "mark_generated_load (LPath p) = LPath p"

definition spec_clash :: "spec \<Rightarrow> spec \<Rightarrow> bool" where
  "spec_clash spec existing \<longleftrightarrow> list_ex (has_name existing) (sp_names spec)"

definition merge_specs :: "spec list \<Rightarrow> spec list \<Rightarrow> spec list" where
  "merge_specs dest incoming = fold (\<lambda>spec. upsert (spec_clash spec) spec) incoming dest"

definition option_clash :: "option_spec \<Rightarrow> option_spec \<Rightarrow> bool" where
  "option_clash opt existing \<longleftrightarrow> list_ex (\<lambda>name. name \<in> set (op_names existing)) (op_names opt)"

definition merge_options :: "option_spec list \<Rightarrow> option_spec list \<Rightarrow> option_spec list" where
  "merge_options dest incoming = fold (\<lambda>opt. upsert (option_clash opt) opt) incoming dest"

interpretation spec_overlay: overlay spec_clash merge_specs
  by unfold_locales (simp add: merge_specs_def)

interpretation option_overlay: overlay option_clash merge_options
  by unfold_locales (simp add: merge_options_def)

definition merge_generated_spec :: "spec \<Rightarrow> spec \<Rightarrow> spec" where
  "merge_generated_spec wrapper generated =
     (let merged = mark_generated_spec generated;
          mf = sp_fields merged;
          wf = sp_fields wrapper
      in Spec
           (mf\<lparr>sf_names := (if sf_names wf = [] then sf_names mf else sf_names wf),
               sf_description := (if sf_description mf = [] then sf_description wf else sf_description mf),
               sf_meta := (sf_meta mf)\<lparr>sm_ai_generated := sm_ai_generated (sf_meta wf)\<rparr>\<rparr>)
           (if sp_subcommands wrapper = [] then sp_subcommands merged
            else merge_specs (sp_subcommands wrapper) (sp_subcommands merged))
           (if sp_options wrapper = [] then sp_options merged
            else merge_options (sp_options wrapper) (sp_options merged))
           (if sp_persistent_options wrapper = [] then sp_persistent_options merged
            else merge_options (sp_persistent_options wrapper) (sp_persistent_options merged))
           (if sp_args wrapper = [] then sp_args merged else sp_args wrapper)
           (sp_load_spec merged))"

definition replace_spec_with_loaded :: "spec \<Rightarrow> spec \<Rightarrow> spec" where
  "replace_spec_with_loaded base loaded =
     (if sp_names base = [] then loaded
      else (case loaded of Spec f subs opts pers args ls \<Rightarrow>
              Spec (f\<lparr>sf_names := sp_names base\<rparr>) subs opts pers args ls))"

section \<open>Provenance\<close>

text \<open>The metadata of every node and row of a spec, at any depth.\<close>

fun spec_metas :: "spec \<Rightarrow> suggestion_meta list"
  and arg_metas :: "arg_spec \<Rightarrow> suggestion_meta list"
  and option_metas :: "option_spec \<Rightarrow> suggestion_meta list"
  and load_metas :: "load_spec \<Rightarrow> suggestion_meta list" where
  "spec_metas (Spec f subs opts pers args ls) =
     sf_meta f # map ss_meta (sf_additional_suggestions f) @ concat (map spec_metas subs) @
     concat (map option_metas opts) @ concat (map option_metas pers) @ concat (map arg_metas args) @
     (case ls of None \<Rightarrow> [] | Some l \<Rightarrow> load_metas l)"
| "arg_metas (ArgSpec f ls rs) =
     af_meta f # map ss_meta (af_suggestions f) @
     (case ls of None \<Rightarrow> [] | Some l \<Rightarrow> load_metas l) @
     (case rs of None \<Rightarrow> [] | Some s \<Rightarrow> spec_metas s)"
| "option_metas (OptionSpec f args ls) =
     of_meta f # concat (map arg_metas args) @ (case ls of None \<Rightarrow> [] | Some l \<Rightarrow> load_metas l)"
| "load_metas (LInline spec) = spec_metas spec"
| "load_metas (LPath p) = []"

definition unproven :: "suggestion_meta \<Rightarrow> bool" where
  "unproven m \<longleftrightarrow> \<not> sm_ai_generated m \<and> \<not> sm_ai_resolved_reference m"

lemma unproven_seed: "seed_from_fig_json v = Some seed \<Longrightarrow> unproven (ss_meta seed)"
  by (auto simp: seed_from_fig_json_def unproven_def meta_from_fig_def meta_default_def split: json.splits)

lemma unproven_meta [simp]: "unproven (meta_from_fig obj)"
  by (simp add: unproven_def meta_from_fig_def)

text \<open>Options converted from JSON never carry an inline spec of their own.\<close>

fun options_flat :: "spec \<Rightarrow> bool"
  and arg_flat :: "arg_spec \<Rightarrow> bool"
  and option_flat :: "option_spec \<Rightarrow> bool"
  and load_flat :: "load_spec \<Rightarrow> bool" where
  "options_flat (Spec f subs opts pers args ls) \<longleftrightarrow>
     list_all options_flat subs \<and> list_all option_flat opts \<and> list_all option_flat pers \<and>
     list_all arg_flat args \<and> (case ls of None \<Rightarrow> True | Some l \<Rightarrow> load_flat l)"
| "arg_flat (ArgSpec f ls rs) \<longleftrightarrow>
     (case ls of None \<Rightarrow> True | Some l \<Rightarrow> load_flat l) \<and> (case rs of None \<Rightarrow> True | Some s \<Rightarrow> options_flat s)"
| "option_flat (OptionSpec f args ls) \<longleftrightarrow>
     list_all arg_flat args \<and> (case ls of None \<Rightarrow> True | Some l \<Rightarrow> load_metas l = [])"
| "load_flat (LInline spec) = options_flat spec"
| "load_flat (LPath p) = True"

definition tainted :: "suggestion_meta list \<Rightarrow> bool" where
  "tainted ms \<longleftrightarrow> (\<forall>m \<in> set ms. sm_ai_generated m)"

lemma tainted_simps [simp]:
  "tainted []" "tainted (m # ms) \<longleftrightarrow> sm_ai_generated m \<and> tainted ms"
  "tainted (ms @ ms') \<longleftrightarrow> tainted ms \<and> tainted ms'"
  "tainted (concat mss) \<longleftrightarrow> (\<forall>ms \<in> set mss. tainted ms)"
  "tainted (map (ss_meta \<circ> mark_seed) seeds)"
  by (auto simp: tainted_def mark_seed_def)

lemma mark_taints:
  "options_flat spec \<Longrightarrow> tainted (spec_metas (mark_generated_spec spec))"
  "arg_flat arg \<Longrightarrow> tainted (arg_metas (mark_generated_arg arg))"
  "option_flat opt \<Longrightarrow> tainted (option_metas (mark_generated_option opt))"
  "load_flat load \<Longrightarrow> tainted (load_metas (mark_generated_load load))"
  by (induction spec and arg and opt and load
      rule: mark_generated_spec_mark_generated_arg_mark_generated_option_mark_generated_load.induct)
     (auto simp: list_all_iff split: option.splits)

lemma json_conversion_clean:
  "spec_from_fig_json v1 = Some spec \<Longrightarrow>
     list_all unproven (spec_metas spec) \<and> options_flat spec \<and> sp_names spec \<noteq> []"
  "option_from_fig_json v2 = Some opt \<Longrightarrow> list_all unproven (option_metas opt) \<and> option_flat opt"
  "list_all (\<lambda>arg. list_all unproven (arg_metas arg) \<and> arg_flat arg) (args_from_fig v3)"
  "arg_from_fig_json v4 = Some arg \<Longrightarrow> list_all unproven (arg_metas arg) \<and> arg_flat arg"
  "load_spec_from_fig v5 = Some load \<Longrightarrow> list_all unproven (load_metas load) \<and> load_flat load"
proof (induction v1 and v2 and v3 and v4 and v5 arbitrary: spec and opt and and arg and load
    rule: spec_from_fig_json_option_from_fig_json_args_from_fig_arg_from_fig_json_load_spec_from_fig.induct)
  case (1 obj)
  then show ?case
    by (auto simp: list_all_iff set_filter_map unproven_seed split: option.splits if_splits)
next
  case (3 obj)
  then show ?case
    by (auto simp: list_all_iff option_fields_default_def split: option.splits if_splits)
next
  case (8 obj)
  let ?load = "Option.bind (get ''loadSpec'' obj) load_spec_from_fig"
  have load: "list_all unproven (load_metas l) \<and> load_flat l" if "?load = Some l" for l
  proof -
    obtain k b t s where c: "cache_fields_from_fig obj = (k, b, t, s)" by (cases "cache_fields_from_fig obj")
    obtain a where a: "get ''loadSpec'' obj = Some a" "load_spec_from_fig a = Some l"
      using \<open>?load = Some l\<close> by (auto simp: bind_eq_Some_conv)
    show ?thesis by (rule 8(1) [OF c [symmetric] refl refl a])
  qed
  obtain f where "arg = ArgSpec f ?load None" "unproven (af_meta f)"
    "af_suggestions f = filter_map seed_from_fig_json (json_array (get ''suggestions'' obj))"
    using 8(2) by (auto split: prod.splits)
  then show ?case using load
    by (cases ?load) (auto simp: list_all_iff set_filter_map unproven_seed)
qed (auto simp: list_all_iff set_filter_map split: option.splits)

text \<open>
  Input JSON cannot grant or erase provenance: a spec converted from JSON has at
  least one name, and no node, option, argument or suggestion row in it, at any depth, is
  marked as resolved from the pinned tree or as generated.
\<close>

theorem json_grants_no_provenance:
  assumes "spec_from_fig_json v = Some spec"
  shows "sp_names spec \<noteq> [] \<and> list_all unproven (spec_metas spec)"
  using json_conversion_clean(1) [OF assms] by blast

theorem json_grants_no_provenance_witness:
  "let spec = the (spec_from_fig_json (JObject [(lit ''name'', JString (lit ''git'')),
                                                (lit ''aiGenerated'', JBool True)]))
   in sp_names spec \<noteq> [] \<and> list_all unproven (spec_metas spec)"
  unfolding Let_def
  by (rule json_grants_no_provenance [where v = "JObject [(lit ''name'', JString (lit ''git'')),
                                                (lit ''aiGenerated'', JBool True)]"])
     (simp add: object_names_def get_def json_names_def or_else_def)

text \<open>
  Property C8. Merging a generated spec into the node that owns the hook keeps the two
  kinds of rows apart: every child command and every option of the result is either one of
  the wrapper's own, unchanged, or marked as generated throughout; every child or option of
  the wrapper that shares no name with a generated one is still there; the node keeps its names and
  its own mark.
\<close>

theorem merge_keeps_provenance_apart:
  assumes "spec_from_fig_json v = Some generated"
  shows "let merged = merge_generated_spec wrapper generated in
         (\<forall>c \<in> set (sp_subcommands merged). c \<in> set (sp_subcommands wrapper) \<or> tainted (spec_metas c)) \<and>
         (\<forall>opt \<in> set (sp_options merged) \<union> set (sp_persistent_options merged).
            opt \<in> set (sp_options wrapper) \<union> set (sp_persistent_options wrapper) \<or> tainted (option_metas opt)) \<and>
         (\<forall>c \<in> set (sp_subcommands wrapper).
            c \<in> set (sp_subcommands merged) \<or> (\<exists>g \<in> set (sp_subcommands generated). spec_clash g c)) \<and>
         (\<forall>opt \<in> set (sp_options wrapper).
            opt \<in> set (sp_options merged) \<or> (\<exists>g \<in> set (sp_options generated). option_clash g opt)) \<and>
         sp_names merged = (if sp_names wrapper = [] then sp_names generated else sp_names wrapper) \<and>
         sm_ai_generated (sf_meta (sp_fields merged)) = sm_ai_generated (sf_meta (sp_fields wrapper))"
proof -
  define merged where "merged = merge_generated_spec wrapper generated"
  obtain f subs opts pers args ls where gen: "generated = Spec f subs opts pers args ls"
    by (cases generated)
  have flat: "list_all options_flat subs" "list_all option_flat opts" "list_all option_flat pers"
    using json_conversion_clean(1) [OF assms(1)] by (auto simp: gen)
  have subs: "tainted (spec_metas c)" if "c \<in> mark_generated_spec ` set subs" for c
    using that flat mark_taints(1) by (auto simp: list_all_iff)
  have opts: "tainted (option_metas opt)" if "opt \<in> mark_generated_option ` (set opts \<union> set pers)" for opt
    using that flat mark_taints(3) by (auto simp: list_all_iff)
  have clash: "spec_clash (mark_generated_spec g) c = spec_clash g c"
    "option_clash (mark_generated_option q) r = option_clash q r" for g c q r
    by (cases g; cases q; simp add: spec_clash_def option_clash_def)+
  have merged: "sp_subcommands merged = (if sp_subcommands wrapper = [] then map mark_generated_spec subs
      else merge_specs (sp_subcommands wrapper) (map mark_generated_spec subs))"
    "sp_options merged = (if sp_options wrapper = [] then map mark_generated_option opts
      else merge_options (sp_options wrapper) (map mark_generated_option opts))"
    "sp_persistent_options merged = (if sp_persistent_options wrapper = [] then map mark_generated_option pers
      else merge_options (sp_persistent_options wrapper) (map mark_generated_option pers))"
    by (simp_all add: merged_def merge_generated_spec_def gen Let_def)
  have "\<forall>c \<in> set (sp_subcommands merged). c \<in> set (sp_subcommands wrapper) \<or> tainted (spec_metas c)"
    using subs spec_overlay.merge_provenance [of "sp_subcommands wrapper" "map mark_generated_spec subs"]
    by (auto simp: merged)
  moreover have "\<forall>opt \<in> set (sp_options merged) \<union> set (sp_persistent_options merged).
      opt \<in> set (sp_options wrapper) \<union> set (sp_persistent_options wrapper) \<or> tainted (option_metas opt)"
    using opts option_overlay.merge_provenance [of "sp_options wrapper" "map mark_generated_option opts"]
      option_overlay.merge_provenance [of "sp_persistent_options wrapper" "map mark_generated_option pers"]
    by (auto simp: merged split: if_splits)
  moreover have "\<forall>c \<in> set (sp_subcommands wrapper).
      c \<in> set (sp_subcommands merged) \<or> (\<exists>g \<in> set (sp_subcommands generated). spec_clash g c)"
    using spec_overlay.merge_keeps_unclashed [where incoming = "map mark_generated_spec subs"]
    by (force simp: merged gen clash)
  moreover have "\<forall>opt \<in> set (sp_options wrapper).
      opt \<in> set (sp_options merged) \<or> (\<exists>g \<in> set (sp_options generated). option_clash g opt)"
    using option_overlay.merge_keeps_unclashed [where incoming = "map mark_generated_option opts"]
    by (force simp: merged gen clash)
  moreover have "sp_names merged = (if sp_names wrapper = [] then sp_names generated else sp_names wrapper)"
    "sm_ai_generated (sf_meta (sp_fields merged)) = sm_ai_generated (sf_meta (sp_fields wrapper))"
    by (simp_all add: merged_def merge_generated_spec_def gen Let_def)
  ultimately show ?thesis unfolding Let_def merged_def [symmetric] by blast
qed

theorem merge_keeps_provenance_apart_witness:
  "let generated = Spec (spec_fields_default\<lparr>sf_names := [lit ''git'']\<rparr>) [] [] [] [] None;
       merged = merge_generated_spec spec_default generated in
   (\<forall>c \<in> set (sp_subcommands merged). c \<in> set (sp_subcommands spec_default) \<or> tainted (spec_metas c)) \<and>
   sp_names merged = [lit ''git''] \<and> \<not> sm_ai_generated (sf_meta (sp_fields merged))"
  using merge_keeps_provenance_apart [of "JObject [(lit ''name'', JString (lit ''git''))]"
      "Spec (spec_fields_default\<lparr>sf_names := [lit ''git'']\<rparr>) [] [] [] [] None" spec_default]
  by (simp add: object_names_def get_def json_names_def or_else_def spec_defaults Let_def unwrap_or_def
      json_array_def meta_from_fig_def filter_strategy_from_fig_def parser_directives_from_fig_def)

end
