(* ===== verification/Store_Contract.thy ===== *)
theory Store_Contract
  imports Rust_Prelude
begin

text \<open>
  The contract of the bounded caches: a store may forget an entry at any time, but it never
  answers with a value other than the last one written under the key. The hook caches, the
  history indexes and the listing caches are instances.
\<close>

datatype ('k, 'v) store_op = Ins 'k 'v | Del 'k

text \<open>The last value written under \<open>k\<close>, if no deletion followed; \<open>v0\<close> before the first
  operation.\<close>

fun last_write :: "('k, 'v) store_op list \<Rightarrow> 'k \<Rightarrow> 'v option \<Rightarrow> 'v option" where
  "last_write [] k v0 = v0"
| "last_write (Ins k' v # ops) k v0 = last_write ops k (if k' = k then Some v else v0)"
| "last_write (Del k' # ops) k v0 = last_write ops k (if k' = k then None else v0)"

locale keyed_store =
  fixes inv :: "'s \<Rightarrow> bool"
    and look :: "'s \<Rightarrow> 'k \<Rightarrow> 'v option"
    and ins :: "'k \<Rightarrow> 'v \<Rightarrow> 's \<Rightarrow> 's"
    and del :: "'k \<Rightarrow> 's \<Rightarrow> 's"
  assumes inv_ins: "inv s \<Longrightarrow> inv (ins k v s)"
    and inv_del: "inv s \<Longrightarrow> inv (del k s)"
    and look_ins: "inv s \<Longrightarrow> look (ins k v s) k = None \<or> look (ins k v s) k = Some v"
    and look_ins_other: "inv s \<Longrightarrow> k' \<noteq> k \<Longrightarrow> look (ins k v s) k' = None \<or> look (ins k v s) k' = look s k'"
    and look_del: "inv s \<Longrightarrow> look (del k s) k = None"
    and look_del_other: "inv s \<Longrightarrow> k' \<noteq> k \<Longrightarrow> look (del k s) k' = None \<or> look (del k s) k' = look s k'"
begin

primrec apply_op :: "('k, 'v) store_op \<Rightarrow> 's \<Rightarrow> 's" where
  "apply_op (Ins k v) s = ins k v s"
| "apply_op (Del k) s = del k s"

lemma inv_ops: "inv s \<Longrightarrow> inv (fold apply_op ops s)"
proof (induction ops arbitrary: s)
  case (Cons a ops)
  then show ?case by (cases a) (simp_all add: inv_ins inv_del)
qed simp

lemma never_stale:
  "inv s \<Longrightarrow> look s k = None \<or> look s k = v0 \<Longrightarrow> look (fold apply_op ops s) k = Some v \<Longrightarrow>
   last_write ops k v0 = Some v"
proof (induction ops arbitrary: s v0)
  case (Cons a ops)
  let ?v1 = "last_write [a] k v0"
  have "inv (apply_op a s)" using Cons.prems(1) by (cases a) (simp_all add: inv_ins inv_del)
  moreover have "look (apply_op a s) k = None \<or> look (apply_op a s) k = ?v1"
  proof (cases a)
    case (Ins k' w)
    then show ?thesis
      using look_ins [OF Cons.prems(1)] look_ins_other [OF Cons.prems(1)] Cons.prems(2)
      by (cases "k' = k") (auto, metis+)
  next
    case (Del k')
    then show ?thesis
      using look_del [OF Cons.prems(1)] look_del_other [OF Cons.prems(1)] Cons.prems(2)
      by (cases "k' = k") (auto, metis+)
  qed
  ultimately have "last_write ops k ?v1 = Some v" using Cons.IH Cons.prems(3) by simp
  then show ?case by (cases a) simp_all
qed auto

end

end
