(* ===== verification/Hook_Cache.thy ===== *)
theory Hook_Cache
  imports Cancel_Token Store_Contract Spec_IR "HOL-Library.AList"
begin

text \<open>
  The generator result caches (\<open>hook_cache.rs\<close>): three maps bounded in entries and bytes, read
  and written through the publication gate of \<open>Cancel_Token\<close>, with a time to live taken from
  the generator's cache block. Times are nanoseconds; the size of a value, the capacity the
  allocator gives a key and the setting \<open>beta.autocomplete.auto-cache\<close> are parameters.
\<close>

section \<open>The bounded map\<close>

definition MAX_CACHE_ENTRIES :: nat where "MAX_CACHE_ENTRIES = 512"
definition MAX_CACHE_BYTES :: nat where "MAX_CACHE_BYTES = 4 * 1024 * 1024"
definition U64_MAX :: nat where "U64_MAX = 2 ^ 64 - 1"

definition saturating_inc :: "nat \<Rightarrow> nat" where
  "saturating_inc n = min (n + 1) U64_MAX"

record cache_counters =
  cc_hits :: nat
  cc_misses :: nat
  cc_expired_removals :: nat
  cc_capacity_clears :: nat

text \<open>An entry keeps the capacity of its owned key: that is what removing it gives back.\<close>

record 'v cache_map =
  cm_entries :: "(str \<times> nat \<times> 'v) list"
  cm_allocated_bytes :: nat
  cm_counters :: cache_counters

record 'v sizes =
  sz_string :: nat
  sz_value :: nat
  sz_heap :: "'v \<Rightarrow> nat"

definition cache_map_default :: "'v cache_map" where
  "cache_map_default =
     \<lparr>cm_entries = [], cm_allocated_bytes = 0,
      cm_counters = \<lparr>cc_hits = 0, cc_misses = 0, cc_expired_removals = 0, cc_capacity_clears = 0\<rparr>\<rparr>"

definition cm_clear :: "'v cache_map \<Rightarrow> 'v cache_map" where
  "cm_clear m = m\<lparr>cm_entries := [], cm_allocated_bytes := 0\<rparr>"

definition entry_bytes :: "'v sizes \<Rightarrow> nat \<Rightarrow> 'v \<Rightarrow> nat" where
  "entry_bytes sz key_capacity v = sz_string sz + key_capacity + sz_value sz + sz_heap sz v"

definition cm_get :: "'v cache_map \<Rightarrow> str \<Rightarrow> 'v option" where
  "cm_get m key = map_option snd (map_of (cm_entries m) key)"

definition cm_remove :: "'v sizes \<Rightarrow> str \<Rightarrow> 'v cache_map \<Rightarrow> 'v cache_map" where
  "cm_remove sz key m =
     (case map_of (cm_entries m) key of
        None \<Rightarrow> m
      | Some (cap, v) \<Rightarrow>
          (let m' = m\<lparr>cm_entries := AList.delete key (cm_entries m),
                      cm_allocated_bytes := cm_allocated_bytes m - entry_bytes sz cap v\<rparr>
           in if cm_entries m' = [] then cm_clear m' else m'))"

definition cm_insert :: "'v sizes \<Rightarrow> str \<Rightarrow> nat \<Rightarrow> 'v \<Rightarrow> 'v cache_map \<Rightarrow> 'v cache_map" where
  "cm_insert sz key key_capacity v m =
     (let m1 = cm_remove sz key m;
          bytes = entry_bytes sz key_capacity v
      in if bytes > MAX_CACHE_BYTES then m1
         else (let m2 = (if length (cm_entries m1) \<ge> MAX_CACHE_ENTRIES \<or>
                            cm_allocated_bytes m1 + bytes > MAX_CACHE_BYTES
                         then (cm_clear m1)\<lparr>cm_counters := (cm_counters m1)
                                 \<lparr>cc_capacity_clears := saturating_inc (cc_capacity_clears (cm_counters m1))\<rparr>\<rparr>
                         else m1)
               in m2\<lparr>cm_allocated_bytes := cm_allocated_bytes m2 + bytes,
                     cm_entries := AList.update key (key_capacity, v) (cm_entries m2)\<rparr>))"

text \<open>The invariant: distinct keys, the byte count is the sum over the entries, and both budgets
  hold. The subtraction of \<open>cm_remove\<close> is therefore exact.\<close>

definition total_bytes :: "'v sizes \<Rightarrow> (str \<times> nat \<times> 'v) list \<Rightarrow> nat" where
  "total_bytes sz es = sum_list (map (\<lambda>(k, cap, v). entry_bytes sz cap v) es)"

definition cache_inv :: "'v sizes \<Rightarrow> 'v cache_map \<Rightarrow> bool" where
  "cache_inv sz m \<longleftrightarrow>
     distinct (map fst (cm_entries m)) \<and>
     cm_allocated_bytes m = total_bytes sz (cm_entries m) \<and>
     length (cm_entries m) \<le> MAX_CACHE_ENTRIES \<and>
     cm_allocated_bytes m \<le> MAX_CACHE_BYTES"

lemma total_bytes_delete:
  "distinct (map fst es) \<Longrightarrow> map_of es key = Some (cap, v) \<Longrightarrow>
   total_bytes sz es = entry_bytes sz cap v + total_bytes sz (AList.delete key es)"
proof (induction es)
  case (Cons e es)
  show ?case
  proof (cases "fst e = key")
    case True
    then have "AList.delete key es = es" using Cons.prems(1) by (intro delete_id) auto
    with True Cons.prems show ?thesis by (cases e) (auto simp: total_bytes_def)
  next
    case False
    with Cons show ?thesis by (cases e) (auto simp: total_bytes_def)
  qed
qed simp

lemma update_fresh: "key \<notin> fst ` set es \<Longrightarrow> AList.update key v es = es @ [(key, v)]"
  by (induction es) auto

lemma cache_inv_default [simp]: "cache_inv sz cache_map_default"
  by (simp add: cache_inv_def cache_map_default_def total_bytes_def)

lemma cache_inv_clear [simp]: "cache_inv sz (cm_clear m)"
  by (simp add: cache_inv_def cm_clear_def total_bytes_def)

lemma cache_inv_counters [simp]: "cache_inv sz (m\<lparr>cm_counters := c\<rparr>) = cache_inv sz m"
  by (simp add: cache_inv_def)

lemma cache_inv_remove: "cache_inv sz m \<Longrightarrow> cache_inv sz (cm_remove sz key m)"
proof (cases "map_of (cm_entries m) key")
  case (Some e)
  assume inv: "cache_inv sz m"
  then have "total_bytes sz (cm_entries m) =
      entry_bytes sz (fst e) (snd e) + total_bytes sz (AList.delete key (cm_entries m))"
    using Some by (intro total_bytes_delete) (auto simp: cache_inv_def)
  with inv Some show ?thesis
    using AList.length_delete_le [of key "cm_entries m"]
    by (cases e) (auto simp: cm_remove_def cache_inv_def distinct_delete Let_def cm_clear_def total_bytes_def)
qed (simp add: cm_remove_def)

lemma cm_remove_key: "key \<notin> fst ` set (cm_entries (cm_remove sz key m))"
proof (cases "map_of (cm_entries m) key")
  case None
  then have "cm_remove sz key m = m" by (simp add: cm_remove_def)
  with None show ?thesis by (simp add: map_of_eq_None_iff)
next
  case (Some e)
  have "key \<notin> fst ` set (AList.delete key (cm_entries m))" by (rule delete_notin_dom)
  with Some show ?thesis by (cases e) (simp add: cm_remove_def Let_def cm_clear_def)
qed

lemma cache_inv_insert:
  assumes "cache_inv sz m" shows "cache_inv sz (cm_insert sz key cap v m)"
proof -
  let ?m1 = "cm_remove sz key m"
  have m1: "cache_inv sz ?m1" using assms by (rule cache_inv_remove)
  have fresh: "key \<notin> fst ` set (cm_entries ?m1)" by (rule cm_remove_key)
  show ?thesis
    using m1 fresh unfolding cm_insert_def Let_def
    by (auto simp: cache_inv_def cm_clear_def update_fresh total_bytes_def MAX_CACHE_ENTRIES_def distinct_update)
qed

definition cm_find :: "'v cache_map \<Rightarrow> str \<Rightarrow> (nat \<times> 'v) option" where
  "cm_find m key = map_of (cm_entries m) key"

lemma cm_get_find: "cm_get m key = map_option snd (cm_find m key)"
  by (simp add: cm_get_def cm_find_def)

lemma cm_find_clear [simp]: "cm_find (cm_clear m) key = None"
  by (simp add: cm_find_def cm_clear_def)

lemma cm_find_counters [simp]: "cm_find (m\<lparr>cm_counters := c\<rparr>) key = cm_find m key"
  by (simp add: cm_find_def)

lemma cm_find_remove: "cm_find (cm_remove sz key m) key' = (if key' = key then None else cm_find m key')"
proof (cases "map_of (cm_entries m) key")
  case None
  then show ?thesis by (auto simp: cm_remove_def cm_find_def)
next
  case (Some e)
  have eq: "map_of (AList.delete key (cm_entries m)) key' = (if key' = key then None else map_of (cm_entries m) key')"
    by (simp add: delete_conv')
  have "map_of (cm_entries m) key' = None" if "AList.delete key (cm_entries m) = []" "key' \<noteq> key"
    using eq that by simp
  then show ?thesis using Some eq by (cases e) (auto simp: cm_remove_def cm_find_def Let_def cm_clear_def)
qed

lemma cm_find_insert:
  "cm_find (cm_insert sz key cap v m) key = (if entry_bytes sz cap v > MAX_CACHE_BYTES then None else Some (cap, v))"
  using cm_find_remove [of sz key m key]
  by (auto simp: cm_insert_def Let_def cm_find_def update_conv' cm_clear_def)

lemma cm_find_insert_other:
  "key' \<noteq> key \<Longrightarrow> cm_find (cm_insert sz key cap v m) key' = None \<or>
                cm_find (cm_insert sz key cap v m) key' = cm_find m key'"
  using cm_find_remove [of sz key m key']
  by (auto simp: cm_insert_def Let_def cm_find_def update_conv' cm_clear_def)

text \<open>The cache map is a keyed store; the stored value has its key's capacity with it.\<close>

interpretation hook_store:
  keyed_store "cache_inv sz" cm_find "\<lambda>key e m. cm_insert sz key (fst e) (snd e) m" "cm_remove sz" for sz
  by unfold_locales
     (auto simp: cache_inv_insert cache_inv_remove cm_find_insert cm_find_insert_other cm_find_remove)

section \<open>Keys and policies\<close>

definition cache_key :: "bool \<Rightarrow> str \<Rightarrow> str option \<Rightarrow> str \<Rightarrow> str" where
  "cache_key cache_by_directory cwd key fallback =
     (let second = (case key of Some k \<Rightarrow> (if k = [] then fallback else k) | None \<Rightarrow> fallback)
      in if cache_by_directory then cwd @ [c_comma] @ second else [c_comma] @ second)"

definition custom_cache_fallback :: "str list \<Rightarrow> str" where
  "custom_cache_fallback toks = str_join [c_space] toks"

record owned_cache_policy =
  cp_by_directory :: bool
  cp_key :: "str option"
  cp_ttl :: "nat option"

definition from_millis :: "nat \<Rightarrow> nat" where "from_millis ms = ms * 1000000"

text \<open>\<open>auto_cache\<close> is the setting; a negative time to live becomes zero.\<close>

definition owned_cache_policy :: "bool \<Rightarrow> arg_fields \<Rightarrow> owned_cache_policy option" where
  "owned_cache_policy auto_cache arg =
     (let has_explicit = (af_cache_key arg \<noteq> None \<or> af_cache_by_directory arg \<noteq> None \<or>
                          af_cache_ttl_ms arg \<noteq> None \<or> af_cache_strategy arg \<noteq> None)
      in if \<not> has_explicit then
           (if auto_cache
            then Some \<lparr>cp_by_directory = False, cp_key = None, cp_ttl = Some (from_millis 1000)\<rparr>
            else None)
         else Some
           \<lparr>cp_by_directory = (case af_cache_by_directory arg of Some b \<Rightarrow> b | None \<Rightarrow> False),
            cp_key = af_cache_key arg,
            cp_ttl = (case af_cache_ttl_ms arg of
                        Some ms \<Rightarrow> Some (from_millis (nat ms))
                      | None \<Rightarrow> (if af_cache_strategy arg = Some (lit ''max-age'') then None else Some 0))\<rparr>)"

section \<open>Reading and writing through the gate\<close>

record 'v cache_entry =
  ce_value :: 'v
  ce_fetched_at :: nat

definition expired :: "nat option \<Rightarrow> nat \<Rightarrow> 'v cache_entry \<Rightarrow> bool" where
  "expired ttl now entry = (case ttl of None \<Rightarrow> False | Some t \<Rightarrow> t < now - ce_fetched_at entry)"

text \<open>The closure of \<open>cache_get\<close>: it runs only while the attempt is active.\<close>

definition cache_lookup ::
  "('v cache_entry) sizes \<Rightarrow> str \<Rightarrow> nat option \<Rightarrow> nat \<Rightarrow> ('v cache_entry) cache_map \<Rightarrow>
   'v option \<times> ('v cache_entry) cache_map" where
  "cache_lookup sz key ttl now m =
     (let is_expired = (case cm_get m key of None \<Rightarrow> False | Some entry \<Rightarrow> expired ttl now entry);
          m1 = (if is_expired
                then (cm_remove sz key m)\<lparr>cm_counters := (cm_counters (cm_remove sz key m))
                        \<lparr>cc_expired_removals := saturating_inc (cc_expired_removals (cm_counters m))\<rparr>\<rparr>
                else m);
          hit = map_option ce_value (cm_get m1 key)
      in (hit, m1\<lparr>cm_counters :=
            (if hit \<noteq> None
             then (cm_counters m1)\<lparr>cc_hits := saturating_inc (cc_hits (cm_counters m1))\<rparr>
             else (cm_counters m1)\<lparr>cc_misses := saturating_inc (cc_misses (cm_counters m1))\<rparr>)\<rparr>))"

definition cache_get ::
  "('v cache_entry) sizes \<Rightarrow> nat \<Rightarrow> str \<Rightarrow> nat option \<Rightarrow> nat \<Rightarrow> ('v cache_entry) cache_map shared \<Rightarrow>
   'v option \<times> ('v cache_entry) cache_map shared" where
  "cache_get sz thread key ttl now sh =
     (case commit_if_active thread (cache_lookup sz key ttl now) sh of
        (Inr hit, sh') \<Rightarrow> (hit, sh')
      | (Inl _, sh') \<Rightarrow> (None, sh'))"

definition cache_put ::
  "('v cache_entry) sizes \<Rightarrow> nat \<Rightarrow> str \<Rightarrow> nat \<Rightarrow> 'v \<Rightarrow> nat \<Rightarrow> ('v cache_entry) cache_map shared \<Rightarrow>
   ('v cache_entry) cache_map shared" where
  "cache_put sz thread key key_capacity v now sh =
     snd (commit_if_active thread
            (\<lambda>m. ((), cm_insert sz key key_capacity \<lparr>ce_value = v, ce_fetched_at = now\<rparr> m)) sh)"

text \<open>A cached run. \<open>env n\<close> is what the other threads do before the \<open>n\<close>-th look at the shared
  state; \<open>run\<close> is the generator; \<open>default\<close> the empty result of a cancelled attempt.\<close>

record ('v, 's) cached_call =
  ca_thread :: nat
  ca_auto :: bool
  ca_arg :: arg_fields
  ca_cwd :: str
  ca_kind :: str
  ca_fallback :: str
  ca_capacity :: "str \<Rightarrow> nat"
  ca_default :: 'v
  ca_run :: "'s shared \<Rightarrow> 'v \<times> 's shared"
  ca_env :: "nat \<Rightarrow> 's shared \<Rightarrow> 's shared"
  ca_now_get :: nat
  ca_now_put :: nat

definition call_key :: "('v, 's) cached_call \<Rightarrow> owned_cache_policy \<Rightarrow> str" where
  "call_key c policy =
     ca_kind c @ lit '':'' @ cache_key (cp_by_directory policy) (ca_cwd c) (cp_key policy) (ca_fallback c)"

definition run_cached ::
  "('v cache_entry) sizes \<Rightarrow> ('v, ('v cache_entry) cache_map) cached_call \<Rightarrow>
   ('v cache_entry) cache_map shared \<Rightarrow> 'v \<times> ('v cache_entry) cache_map shared" where
  "run_cached sz c sh =
     (let sh0 = ca_env c 0 sh
      in if is_cancelled (ca_thread c) sh0 then (ca_default c, sh0)
         else case owned_cache_policy (ca_auto c) (ca_arg c) of
           None \<Rightarrow> ca_run c sh0
         | Some policy \<Rightarrow>
             (let key = call_key c policy
              in case cache_get sz (ca_thread c) key (cp_ttl policy) (ca_now_get c) (ca_env c 1 sh0) of
                   (Some hit, sh1) \<Rightarrow> (hit, sh1)
                 | (None, sh1) \<Rightarrow>
                     (let sh2 = ca_env c 2 sh1
                      in if is_cancelled (ca_thread c) sh2 then (ca_default c, sh2)
                         else case ca_run c sh2 of
                           (v, sh3) \<Rightarrow>
                             (let sh4 = ca_env c 3 sh3
                              in if is_cancelled (ca_thread c) sh4 then (ca_default c, sh4)
                                 else (v, cache_put sz (ca_thread c) key (ca_capacity c key) v (ca_now_put c)
                                            (ca_env c 4 sh4))))))"

text \<open>\<open>cached_suggestions\<close> and \<open>cached_script_output\<close> with a cache bound, and the spec cache, which
  has no time to live and does not look again after the generator ran.\<close>

definition cached_call_bound ::
  "('v cache_entry) sizes \<Rightarrow> bool \<Rightarrow> ('v, ('v cache_entry) cache_map) cached_call \<Rightarrow>
   ('v cache_entry) cache_map shared \<Rightarrow> 'v \<times> ('v cache_entry) cache_map shared" where
  "cached_call_bound sz bound c sh =
     (if is_cancelled (ca_thread c) sh then (ca_default c, sh)
      else if bound then run_cached sz c sh else ca_run c sh)"

definition spec_lookup :: "str \<Rightarrow> 'v cache_map \<Rightarrow> 'v option \<times> 'v cache_map" where
  "spec_lookup key m =
     (case cm_get m key of
        Some v \<Rightarrow> (Some v, m\<lparr>cm_counters := (cm_counters m)\<lparr>cc_hits := saturating_inc (cc_hits (cm_counters m))\<rparr>\<rparr>)
      | None \<Rightarrow> (None, m\<lparr>cm_counters := (cm_counters m)\<lparr>cc_misses := saturating_inc (cc_misses (cm_counters m))\<rparr>\<rparr>))"

definition cached_spec ::
  "'v sizes \<Rightarrow> nat \<Rightarrow> (nat \<Rightarrow> 'v cache_map shared \<Rightarrow> 'v cache_map shared) \<Rightarrow> str \<Rightarrow> nat \<Rightarrow>
   ('v cache_map shared \<Rightarrow> 'v option \<times> 'v cache_map shared) \<Rightarrow> 'v cache_map shared \<Rightarrow>
   'v option \<times> 'v cache_map shared" where
  "cached_spec sz thread env key key_capacity run sh =
     (let sh0 = env 0 sh
      in if is_cancelled thread sh0 then (None, sh0)
         else case commit_if_active thread (spec_lookup key) (env 1 sh0) of
           (Inl _, sh1) \<Rightarrow> (None, sh1)
         | (Inr (Some spec), sh1) \<Rightarrow> (Some spec, sh1)
         | (Inr None, sh1) \<Rightarrow>
             (let sh2 = env 2 sh1
              in if is_cancelled thread sh2 then (None, sh2)
                 else case run sh2 of
                   (None, sh3) \<Rightarrow> (None, sh3)
                 | (Some v, sh3) \<Rightarrow>
                     (case commit_if_active thread (\<lambda>m. ((), cm_insert sz key key_capacity v m)) (env 3 sh3) of
                        (Inl _, sh4) \<Rightarrow> (None, sh4)
                      | (Inr _, sh4) \<Rightarrow> (Some v, sh4))))"

section \<open>Budgets and freshness\<close>

text \<open>What the engine does to one cache: lookups, stores and the clearing of all caches.\<close>

datatype 'v cache_op = Lookup str "nat option" nat | Store str nat 'v nat | ClearAll

primrec cache_apply ::
  "('v cache_entry) sizes \<Rightarrow> 'v cache_op \<Rightarrow> ('v cache_entry) cache_map \<Rightarrow> ('v cache_entry) cache_map" where
  "cache_apply sz (Lookup key ttl now) m = snd (cache_lookup sz key ttl now m)"
| "cache_apply sz (Store key cap v now) m = cm_insert sz key cap \<lparr>ce_value = v, ce_fetched_at = now\<rparr> m"
| "cache_apply sz ClearAll m = cm_clear m"

definition cache_after :: "('v cache_entry) sizes \<Rightarrow> 'v cache_op list \<Rightarrow> ('v cache_entry) cache_map" where
  "cache_after sz ops = fold (cache_apply sz) ops cache_map_default"

lemma cache_lookup_inv: "cache_inv sz m \<Longrightarrow> cache_inv sz (snd (cache_lookup sz key ttl now m))"
  by (auto simp: cache_lookup_def Let_def hook_store.inv_del)

lemma cache_lookup_find:
  "cm_find (snd (cache_lookup sz key ttl now m)) k = None \<or>
   cm_find (snd (cache_lookup sz key ttl now m)) k = cm_find m k"
  by (auto simp: cache_lookup_def Let_def cm_find_remove)

lemma cache_apply_inv: "cache_inv sz m \<Longrightarrow> cache_inv sz (cache_apply sz op m)"
  by (cases op) (auto intro: cache_lookup_inv cache_inv_insert)

lemma cache_after_inv: "cache_inv sz (cache_after sz ops)"
  unfolding cache_after_def
  by (induction ops rule: rev_induct) (simp_all add: cache_apply_inv)

text \<open>
  Property C9. The budgets hold after every sequence of lookups, stores and clears: at most 512
  entries and 4 MiB, and the byte counter is exactly the sum over the stored entries, so that its
  subtraction never underflows.
\<close>

theorem cache_budget:
  "length (cm_entries (cache_after sz ops)) \<le> 512 \<and>
   cm_allocated_bytes (cache_after sz ops) \<le> 4194304 \<and>
   cm_allocated_bytes (cache_after sz ops) = total_bytes sz (cm_entries (cache_after sz ops)) \<and>
   distinct (map fst (cm_entries (cache_after sz ops)))"
  using cache_after_inv [of sz ops]
  by (simp add: cache_inv_def MAX_CACHE_ENTRIES_def MAX_CACHE_BYTES_def)

text \<open>The store that is visible under a key: the last one, unless everything was cleared since.\<close>

fun last_store :: "'v cache_op list \<Rightarrow> str \<Rightarrow> (nat \<times> 'v cache_entry) option" where
  "last_store [] key = None"
| "last_store (op # ops) key =
     (case op of
        Store k cap v now \<Rightarrow>
          (if k = key then Some (cap, \<lparr>ce_value = v, ce_fetched_at = now\<rparr>) else last_store ops key)
      | ClearAll \<Rightarrow> None
      | Lookup _ _ _ \<Rightarrow> last_store ops key)"

lemma cache_after_find:
  "cm_find (cache_after sz ops) key = None \<or> cm_find (cache_after sz ops) key = last_store (rev ops) key"
proof (induction ops rule: rev_induct)
  case Nil
  then show ?case by (simp add: cache_after_def cache_map_default_def cm_find_def)
next
  case (snoc op ops)
  let ?m = "cache_after sz ops"
  have after: "cache_after sz (ops @ [op]) = cache_apply sz op ?m" by (simp add: cache_after_def)
  have inv: "cache_inv sz ?m" by (rule cache_after_inv)
  show ?case
  proof (cases op)
    case (Lookup k ttl now)
    then show ?thesis unfolding after
      using snoc.IH cache_lookup_find [of sz k ttl now ?m key] by auto
  next
    case (Store k cap v now)
    then show ?thesis unfolding after
      using snoc.IH hook_store.look_ins [OF inv, of k "(cap, \<lparr>ce_value = v, ce_fetched_at = now\<rparr>)"]
        hook_store.look_ins_other [OF inv, of key k "(cap, \<lparr>ce_value = v, ce_fetched_at = now\<rparr>)"]
      by auto
  next
    case ClearAll
    then show ?thesis unfolding after by simp
  qed
qed

text \<open>
  Property C10. A hit is never stale: what a lookup answers is the value of the last store under
  that key since the caches were cleared, and its age is within the time to live of the lookup.
\<close>

theorem cache_hit_fresh:
  assumes "fst (cache_lookup sz key ttl now (cache_after sz ops)) = Some v"
  shows "\<exists>cap t. last_store (rev ops) key = Some (cap, \<lparr>ce_value = v, ce_fetched_at = t\<rparr>) \<and>
                 (case ttl of None \<Rightarrow> True | Some limit \<Rightarrow> now - t \<le> limit)"
proof -
  let ?m = "cache_after sz ops"
  obtain e where e: "cm_get ?m key = Some e" "\<not> expired ttl now e" "ce_value e = v"
    using assms
    by (auto simp: cache_lookup_def Let_def cm_get_find cm_find_remove split: if_splits option.splits)
  then obtain cap where "cm_find ?m key = Some (cap, e)" by (auto simp: cm_get_find)
  then have "last_store (rev ops) key = Some (cap, e)" using cache_after_find [of sz ops key] by auto
  moreover have "e = \<lparr>ce_value = v, ce_fetched_at = ce_fetched_at e\<rparr>" using e(3) by (cases e) simp
  ultimately show ?thesis using e(2) by (intro exI [of _ cap] exI [of _ "ce_fetched_at e"])
      (auto simp: expired_def split: option.splits)
qed

definition unit_sizes :: "'v sizes" where
  "unit_sizes = \<lparr>sz_string = 24, sz_value = 1, sz_heap = (\<lambda>_. 0)\<rparr>"

lemmas cache_eval =
  cache_after_def cache_lookup_def cm_insert_def cm_remove_def cm_get_def entry_bytes_def unit_sizes_def
  cache_map_default_def MAX_CACHE_BYTES_def MAX_CACHE_ENTRIES_def expired_def saturating_inc_def U64_MAX_def
  Let_def

theorem cache_hit_fresh_witness:
  "\<exists>cap t. last_store (rev [Store (lit ''k'') 1 (7::nat) 100]) (lit ''k'') =
             Some (cap, \<lparr>ce_value = 7, ce_fetched_at = t\<rparr>) \<and>
           (case Some 10 of None \<Rightarrow> True | Some limit \<Rightarrow> 105 - t \<le> limit)"
  by (rule cache_hit_fresh [where sz = unit_sizes]) (simp add: cache_eval)

section \<open>Cached runs\<close>

text \<open>A thread may publish: it has no attempt in scope, or an active one.\<close>

definition may_publish :: "nat \<Rightarrow> 's shared \<Rightarrow> bool" where
  "may_publish thread sh \<longleftrightarrow>
     (case sh_current sh thread of None \<Rightarrow> True | Some tok \<Rightarrow> token_state sh tok = ACTIVE)"

lemma commit_allowed:
  "may_publish thread sh \<Longrightarrow> commit_if_active thread c sh = run_commit c sh"
  by (auto simp: commit_if_active_def may_publish_def token_commit_if_active_def split: option.splits)

lemma commit_refused:
  "\<not> may_publish thread sh \<Longrightarrow> commit_if_active thread c sh = (Inl CompletionCancelled, sh)"
  by (auto simp: commit_if_active_def may_publish_def token_commit_if_active_def split: option.splits)

lemma may_publish_not_cancelled: "may_publish thread sh \<Longrightarrow> \<not> is_cancelled thread sh"
  by (auto simp: may_publish_def is_cancelled_def token_is_cancelled_def split: option.splits)

lemma publish_data [simp]:
  "may_publish thread (sh\<lparr>sh_data := d\<rparr>) = may_publish thread sh"
  "is_cancelled thread (sh\<lparr>sh_data := d\<rparr>) = is_cancelled thread sh"
  by (auto simp: may_publish_def is_cancelled_def token_is_cancelled_def token_state_def split: option.splits)

lemma cache_get_allowed:
  "may_publish thread sh \<Longrightarrow>
   cache_get sz thread key ttl now sh =
     (fst (cache_lookup sz key ttl now (sh_data sh)),
      sh\<lparr>sh_data := snd (cache_lookup sz key ttl now (sh_data sh))\<rparr>)"
  by (simp add: cache_get_def commit_allowed run_commit_def split: prod.splits)

lemma cache_put_allowed:
  "may_publish thread sh \<Longrightarrow>
   cache_put sz thread key cap v now sh =
     sh\<lparr>sh_data := cm_insert sz key cap \<lparr>ce_value = v, ce_fetched_at = now\<rparr> (sh_data sh)\<rparr>"
  by (simp add: cache_put_def commit_allowed run_commit_def)

text \<open>A call that nothing disturbs: other threads are quiet and the generator only computes.\<close>

definition undisturbed :: "('v, 's) cached_call \<Rightarrow> 'v \<Rightarrow> bool" where
  "undisturbed c v \<longleftrightarrow> (\<forall>n sh. ca_env c n sh = sh) \<and> (\<forall>sh. ca_run c sh = (v, sh))"

lemma run_cached_undisturbed:
  assumes "undisturbed c v" and "may_publish (ca_thread c) sh"
    and "owned_cache_policy (ca_auto c) (ca_arg c) = Some policy"
  shows "run_cached sz c sh =
    (let key = call_key c policy;
         look = cache_lookup sz key (cp_ttl policy) (ca_now_get c) (sh_data sh)
     in case fst look of
       Some hit \<Rightarrow> (hit, sh\<lparr>sh_data := snd look\<rparr>)
     | None \<Rightarrow> (v, sh\<lparr>sh_data := cm_insert sz key (ca_capacity c key)
                                   \<lparr>ce_value = v, ce_fetched_at = ca_now_put c\<rparr> (snd look)\<rparr>))"
  using assms may_publish_not_cancelled [OF assms(2)]
  by (simp add: run_cached_def undisturbed_def cache_get_allowed cache_put_allowed Let_def split: option.splits)

text \<open>
  A cached result is reused: after an undisturbed call under a cache policy, a
  second call with the same key that looks within the time to live answers with the value of the
  first call without running its own generator, whatever that would return, as long as the entry
  fits the byte budget.
\<close>

theorem run_cached_reuses:
  assumes first: "undisturbed c v" "may_publish (ca_thread c) sh"
      "owned_cache_policy (ca_auto c) (ca_arg c) = Some policy"
    and miss: "cm_get (sh_data sh) (call_key c policy) = None"
    and fits: "entry_bytes sz (ca_capacity c (call_key c policy))
                 \<lparr>ce_value = v, ce_fetched_at = ca_now_put c\<rparr> \<le> MAX_CACHE_BYTES"
    and second: "undisturbed c' w" "may_publish (ca_thread c') sh"
      "owned_cache_policy (ca_auto c') (ca_arg c') = Some policy" "call_key c' policy = call_key c policy"
    and fresh: "\<forall>ttl. cp_ttl policy = Some ttl \<longrightarrow> ca_now_get c' - ca_now_put c \<le> ttl"
  shows "fst (run_cached sz c sh) = v \<and> fst (run_cached sz c' (snd (run_cached sz c sh))) = v"
proof -
  let ?key = "call_key c policy" and ?e = "\<lparr>ce_value = v, ce_fetched_at = ca_now_put c\<rparr>"
  have "fst (cache_lookup sz ?key (cp_ttl policy) (ca_now_get c) (sh_data sh)) = None"
    using miss by (simp add: cache_lookup_def Let_def)
  then have run1: "run_cached sz c sh =
      (v, sh\<lparr>sh_data := cm_insert sz ?key (ca_capacity c ?key) ?e
               (snd (cache_lookup sz ?key (cp_ttl policy) (ca_now_get c) (sh_data sh)))\<rparr>)"
    using run_cached_undisturbed [OF first, of sz] by (simp add: Let_def)
  then have "cm_get (sh_data (snd (run_cached sz c sh))) ?key = Some ?e"
    using fits by (simp add: cm_get_find cm_find_insert)
  moreover have "\<not> expired (cp_ttl policy) (ca_now_get c') ?e"
    using fresh by (auto simp: expired_def split: option.splits)
  ultimately have "fst (cache_lookup sz ?key (cp_ttl policy) (ca_now_get c') (sh_data (snd (run_cached sz c sh)))) = Some v"
    by (simp add: cache_lookup_def Let_def)
  moreover have "may_publish (ca_thread c') (snd (run_cached sz c sh))" using second(2) run1 by simp
  ultimately show ?thesis
    using run_cached_undisturbed [OF second(1) _ second(3), of "snd (run_cached sz c sh)" sz] second(4) run1
    by (simp add: Let_def)
qed

text \<open>The cache block \<open>{ cacheKey: "k", cacheTtl: 1000 }\<close>.\<close>

definition sample_call :: "nat \<Rightarrow> nat \<Rightarrow> (nat, (nat cache_entry) cache_map) cached_call" where
  "sample_call v now =
     \<lparr>ca_thread = 0, ca_auto = False,
      ca_arg = arg_fields_default\<lparr>af_cache_key := Some (lit ''k''), af_cache_ttl_ms := Some 1000\<rparr>,
      ca_cwd = [], ca_kind = lit ''script'', ca_fallback = [], ca_capacity = length, ca_default = 0,
      ca_run = (\<lambda>sh. (v, sh)), ca_env = (\<lambda>_ sh. sh), ca_now_get = now, ca_now_put = now\<rparr>"

definition sample_policy :: owned_cache_policy where
  "sample_policy = \<lparr>cp_by_directory = False, cp_key = Some (lit ''k''), cp_ttl = Some 1000000000\<rparr>"

theorem run_cached_reuses_witness:
  "let sh = sys_start cache_map_default; sz = unit_sizes
   in fst (run_cached sz (sample_call 7 100) sh) = 7 \<and>
      fst (run_cached sz (sample_call 9 200) (snd (run_cached sz (sample_call 7 100) sh))) = 7"
  unfolding Let_def
  by (rule run_cached_reuses [where policy = sample_policy and w = 9])
     (simp_all add: undisturbed_def may_publish_def sys_start_def sample_call_def sample_policy_def
       owned_cache_policy_def spec_defaults from_millis_def call_key_def cache_key_def cm_get_def
       cache_map_default_def entry_bytes_def unit_sizes_def MAX_CACHE_BYTES_def)

text \<open>The other threads and the generator leave this cache alone; they may do anything to the
  tokens.\<close>

definition cache_private :: "('v, 's) cached_call \<Rightarrow> bool" where
  "cache_private c \<longleftrightarrow>
     (\<forall>n sh. sh_data (ca_env c n sh) = sh_data sh) \<and> (\<forall>sh. sh_data (snd (ca_run c sh)) = sh_data sh)"

definition no_new_entry :: "'v cache_map \<Rightarrow> 'v cache_map \<Rightarrow> bool" where
  "no_new_entry m m' \<longleftrightarrow> (\<forall>k. cm_find m' k = None \<or> cm_find m' k = cm_find m k)"

lemma no_new_entry_refl [simp]: "no_new_entry m m"
  by (simp add: no_new_entry_def)

lemma cache_get_no_new: "no_new_entry (sh_data sh) (sh_data (snd (cache_get sz thread key ttl now sh)))"
proof (cases "may_publish thread sh")
  case True
  then show ?thesis using cache_lookup_find [of sz key ttl now "sh_data sh"]
    by (simp add: cache_get_allowed no_new_entry_def)
qed (simp add: cache_get_def commit_refused)

lemma cache_put_cancelled:
  "is_cancelled thread (cache_put sz thread key cap v now sh) \<Longrightarrow>
   sh_data (cache_put sz thread key cap v now sh) = sh_data sh"
proof (cases "may_publish thread sh")
  case True
  assume "is_cancelled thread (cache_put sz thread key cap v now sh)"
  with True may_publish_not_cancelled [OF True] show ?thesis by (simp add: cache_put_allowed)
qed (simp add: cache_put_def commit_refused)

text \<open>
  A cancelled attempt publishes nothing: whenever other threads cancel it, however
  the cancellation falls between the steps of the cached run, an attempt that is cancelled at its
  end has put no entry in the cache (it may have dropped an expired one).
\<close>

theorem cancelled_run_publishes_nothing:
  assumes "cache_private c" and "is_cancelled (ca_thread c) (snd (run_cached sz c sh))"
  shows "no_new_entry (sh_data sh) (sh_data (snd (run_cached sz c sh)))"
proof -
  have env: "sh_data (ca_env c n s) = sh_data s" and run: "sh_data (snd (ca_run c s)) = sh_data s" for n s
    using assms(1) by (auto simp: cache_private_def)
  have run': "ca_run c (ca_env c 2 s) = (v, s') \<Longrightarrow> sh_data s' = sh_data s" for s v s'
    using run [of "ca_env c 2 s"] by (simp add: env)
  let ?sh0 = "ca_env c 0 sh"
  consider (early) "is_cancelled (ca_thread c) ?sh0"
    | (uncached) "\<not> is_cancelled (ca_thread c) ?sh0" "owned_cache_policy (ca_auto c) (ca_arg c) = None"
    | (cached) policy where "\<not> is_cancelled (ca_thread c) ?sh0"
        "owned_cache_policy (ca_auto c) (ca_arg c) = Some policy"
    by (cases "owned_cache_policy (ca_auto c) (ca_arg c)") auto
  then show ?thesis
  proof cases
    case early
    then show ?thesis by (simp add: run_cached_def Let_def env)
  next
    case uncached
    then show ?thesis by (simp add: run_cached_def Let_def env run)
  next
    case (cached policy)
    let ?get = "cache_get sz (ca_thread c) (call_key c policy) (cp_ttl policy) (ca_now_get c) (ca_env c 1 ?sh0)"
    have get: "no_new_entry (sh_data sh) (sh_data (snd ?get))"
      using cache_get_no_new [of "ca_env c 1 ?sh0"] by (simp add: env)
    show ?thesis
      using assms(2) get cached
      by (auto simp: run_cached_def Let_def env run' dest!: cache_put_cancelled
          split: prod.splits option.splits if_splits)
  qed
qed

text \<open>The other thread cancels while the generator runs.\<close>

definition cancel_during_run :: "nat \<Rightarrow> nat \<Rightarrow> 's shared \<Rightarrow> 's shared" where
  "cancel_during_run tok n sh = (if n = 3 then snd (token_cancel tok sh) else sh)"

theorem cancelled_run_publishes_nothing_witness:
  "let sh = enter 0 0 (snd (token_new (sys_start cache_map_default)));
       c = (sample_call 7 100)\<lparr>ca_env := cancel_during_run 0\<rparr>
   in no_new_entry (sh_data sh) (sh_data (snd (run_cached unit_sizes c sh)))"
  unfolding Let_def
  by (rule cancelled_run_publishes_nothing)
     (simp_all add: cache_private_def cancel_during_run_def token_cancel_def set_token_def sample_call_def
       run_cached_def enter_def token_new_def sys_start_def is_cancelled_def token_is_cancelled_def
       token_state_def owned_cache_policy_def spec_defaults cache_get_def commit_if_active_def
       token_commit_if_active_def run_commit_def cache_lookup_def cm_get_def cache_map_default_def Let_def)

end
