(* ===== verification/Versioned.thy ===== *)
theory Versioned
  imports Rust_Str "HOL-Library.Product_Lexorder"
begin

text \<open>
  Versioned specs (\<open>versioned.rs\<close>): the order on version strings, the choice of the spec file
  for the installed version of a command, and the reading of a version from a command's output.
  The regular expression engine and the process runner are parameters.
\<close>

section \<open>Versions\<close>

record parsed_semver =
  pv_numbers :: "nat \<times> nat \<times> nat"
  pv_prerelease :: str

text \<open>\<open>str::parse::<u64>\<close>: an optional plus sign and at least one digit, in range.\<close>

definition digits_value :: "str \<Rightarrow> nat" where
  "digits_value ds = foldl (\<lambda>n d. 10 * n + (d - 48)) 0 ds"

definition parse_u64 :: "str \<Rightarrow> nat option" where
  "parse_u64 s =
     (let ds = (if starts_with_char s c_plus then tl s else s)
      in if ds \<noteq> [] \<and> list_all is_ascii_digit ds \<and> digits_value ds < 2 ^ 64
         then Some (digits_value ds) else None)"

definition parse_semver :: "str \<Rightarrow> parsed_semver option" where
  "parse_semver s =
     (let trimmed = trim_start_matches (\<lambda>c. c = c_v) (trim s);
          (core, prerelease) =
            (case split_once c_dash trimmed of
               Some (core, rest) \<Rightarrow> (core, hd (split_char c_plus rest))
             | None \<Rightarrow> (hd (split_char c_plus trimmed), []))
      in case split_char c_dot core of
           [major, minor, patch] \<Rightarrow>
             (case (parse_u64 major, parse_u64 minor, parse_u64 patch) of
                (Some a, Some b, Some c) \<Rightarrow> Some \<lparr>pv_numbers = (a, b, c), pv_prerelease = prerelease\<rparr>
              | _ \<Rightarrow> None)
         | _ \<Rightarrow> None)"

definition compare_numbers :: "nat \<times> nat \<times> nat \<Rightarrow> nat \<times> nat \<times> nat \<Rightarrow> ordering" where
  "compare_numbers l r =
     (case (l, r) of ((l0, l1, l2), (r0, r1, r2)) \<Rightarrow>
        (if cmp_of l0 r0 \<noteq> Equal then cmp_of l0 r0
         else if cmp_of l1 r1 \<noteq> Equal then cmp_of l1 r1
         else cmp_of l2 r2))"

definition compare_semver :: "str \<Rightarrow> str \<Rightarrow> ordering" where
  "compare_semver left right =
     (case (parse_semver left, parse_semver right) of
        (None, None) \<Rightarrow> cmp_of left right
      | (None, Some _) \<Rightarrow> Greater
      | (Some _, None) \<Rightarrow> Less
      | (Some l, Some r) \<Rightarrow>
          (let numbers = compare_numbers (pv_numbers l) (pv_numbers r)
           in if numbers \<noteq> Equal then numbers
              else if pv_prerelease l = [] \<and> pv_prerelease r \<noteq> [] then Greater
              else if pv_prerelease l \<noteq> [] \<and> pv_prerelease r = [] then Less
              else if pv_prerelease l = [] \<and> pv_prerelease r = [] then Equal
              else cmp_of (pv_prerelease l) (pv_prerelease r)))"

text \<open>The order is the order of a key: parsed versions before unparsed ones, then the numbers, then a
  prerelease before its release.\<close>

definition semver_key :: "str \<Rightarrow> bool \<times> (nat \<times> nat \<times> nat) \<times> bool \<times> str" where
  "semver_key s =
     (case parse_semver s of
        None \<Rightarrow> (True, (0, 0, 0), False, s)
      | Some v \<Rightarrow> (False, pv_numbers v, pv_prerelease v = [], pv_prerelease v))"

lemma cmp_of_pair:
  fixes a c :: "'a::linorder" and b d :: "'b::linorder"
  shows "cmp_of (a, b) (c, d) = cmp_then (cmp_of a c) (cmp_of b d)"
  by (auto simp: cmp_of_def cmp_then_def)

lemma compare_semver_key: "compare_semver left right = cmp_of (semver_key left) (semver_key right)"
  by (cases "parse_semver left"; cases "parse_semver right")
     (auto simp: compare_semver_def semver_key_def compare_numbers_def cmp_of_pair cmp_then_def Let_def
       cmp_of_def split: prod.splits if_splits)

interpretation semver: total_compare compare_semver
  unfolding compare_semver_key by (rule total_compare_key)

section \<open>Choosing a file\<close>

record versioned_command =
  vc_command :: "str list"
  vc_parse :: str
  vc_regex :: "str option"
  vc_regex_group :: "nat option"
  vc_parse_fallback :: "str option"
  vc_fallback :: str
  vc_files :: "(str \<times> str) list"
  vc_applied :: "(str \<times> (str \<times> str) list) list"

text \<open>The loop from the last version down; \<open>index\<close> counts the versions still to try.\<close>

fun best_version_loop :: "str list \<Rightarrow> str \<Rightarrow> nat \<Rightarrow> nat" where
  "best_version_loop versions target 0 = length versions - 1"
| "best_version_loop versions target (Suc index) =
     (if compare_semver (versions ! index) target \<noteq> Greater then index
      else best_version_loop versions target index)"

definition get_best_version_index :: "str list \<Rightarrow> str option \<Rightarrow> nat" where
  "get_best_version_index versions target =
     (if versions = [] then 0
      else case target of
        None \<Rightarrow> length versions - 1
      | Some t \<Rightarrow> (if t = [] then length versions - 1
                   else best_version_loop versions t (length versions)))"

definition semver_keys :: "(str \<times> 'v) list \<Rightarrow> str list" where
  "semver_keys m = sort_by compare_semver (map fst m)"

definition resolve_versioned_path :: "versioned_command \<Rightarrow> str option \<Rightarrow> str option" where
  "resolve_versioned_path entry detected =
     (let file_versions = semver_keys (vc_files entry)
      in if file_versions = [] then None
         else (let file_version = file_versions ! get_best_version_index file_versions detected
               in case map_of (vc_files entry) file_version of
                    None \<Rightarrow> None
                  | Some file_path \<Rightarrow>
                      (case map_of (vc_applied entry) file_version of
                         None \<Rightarrow> Some file_path
                       | Some applied \<Rightarrow>
                           (if applied = [] then Some file_path
                            else (let diff_versions = semver_keys applied;
                                      diff = diff_versions ! get_best_version_index diff_versions detected
                                  in case map_of applied diff of
                                       Some path \<Rightarrow> Some path
                                     | None \<Rightarrow> Some file_path)))))"

text \<open>The specification: \<open>v\<close> is the newest of the versions at or below the target, or the newest of
  all when there is none or no target.\<close>

definition best_version :: "str set \<Rightarrow> str option \<Rightarrow> str \<Rightarrow> bool" where
  "best_version vs target v \<longleftrightarrow>
     v \<in> vs \<and>
     (let eligible = (case target of None \<Rightarrow> {} | Some t \<Rightarrow> {w \<in> vs. t \<noteq> [] \<and> semver.le w t})
      in if eligible = {} then \<forall>w \<in> vs. semver.le w v
         else v \<in> eligible \<and> (\<forall>w \<in> eligible. semver.le w v))"

lemma best_version_loop_spec:
  "n \<le> length vs \<Longrightarrow> vs \<noteq> [] \<Longrightarrow> i = best_version_loop vs t n \<Longrightarrow>
         (i < n \<and> semver.le (vs ! i) t \<and> (\<forall>j < n. semver.le (vs ! j) t \<longrightarrow> j \<le> i)) \<or>
         (i = length vs - 1 \<and> (\<forall>j < n. \<not> semver.le (vs ! j) t))"
proof (induction n arbitrary: i)
  case (Suc n)
  show ?case
  proof (cases "semver.le (vs ! n) t")
    case True
    then show ?thesis by (auto simp: Suc.prems(3) semver.le_def)
  next
    case False
    then have i: "i = best_version_loop vs t n" by (simp add: Suc.prems(3) semver.le_def)
    from Suc.IH [of i] i Suc.prems False show ?thesis by (auto simp: less_Suc_eq)
  qed
qed simp

lemma best_version_index:
  assumes "vs \<noteq> []" "sorted_wrt semver.le vs" and i_def: "i = get_best_version_index vs target"
  shows "i < length vs \<and> best_version (set vs) target (vs ! i)"
proof -
  have le: "semver.le (vs ! j) (vs ! k)" if "j \<le> k" "k < length vs" for j k
  proof (cases "j = k")
    case True
    then show ?thesis using semver.le_total by blast
  next
    case False
    then show ?thesis using assms(2) that by (simp add: sorted_wrt_nth_less)
  qed
  have last: "semver.le w (vs ! (length vs - 1))" if "w \<in> set vs" for w
    using that le assms(1) by (auto simp: in_set_conv_nth)
  show ?thesis
  proof (cases "target = None \<or> target = Some []")
    case True
    then have "i = length vs - 1" using assms(1) by (auto simp: i_def get_best_version_index_def)
    then show ?thesis using True last assms(1) by (auto simp: best_version_def)
  next
    case False
    then obtain t where t: "target = Some t" "t \<noteq> []" by auto
    have i: "i = best_version_loop vs t (length vs)"
      using t assms(1) by (simp add: i_def get_best_version_index_def)
    have "(i < length vs \<and> semver.le (vs ! i) t \<and> (\<forall>j < length vs. semver.le (vs ! j) t \<longrightarrow> j \<le> i)) \<or>
          (i = length vs - 1 \<and> (\<forall>j < length vs. \<not> semver.le (vs ! j) t))"
      using assms(1) i by (intro best_version_loop_spec) auto
    then show ?thesis
    proof
      assume a: "i < length vs \<and> semver.le (vs ! i) t \<and> (\<forall>j < length vs. semver.le (vs ! j) t \<longrightarrow> j \<le> i)"
      then have "\<forall>w \<in> set vs. semver.le w t \<longrightarrow> semver.le w (vs ! i)"
        using le by (auto simp: in_set_conv_nth)
      with a t show ?thesis by (auto simp: best_version_def)
    next
      assume a: "i = length vs - 1 \<and> (\<forall>j < length vs. \<not> semver.le (vs ! j) t)"
      then have "\<forall>w \<in> set vs. \<not> semver.le w t" by (auto simp: in_set_conv_nth)
      with a t last assms(1) show ?thesis by (auto simp: best_version_def)
    qed
  qed
qed

lemma semver_keys_best:
  assumes "m \<noteq> []"
  shows "\<exists>v. semver_keys m ! get_best_version_index (semver_keys m) target = v \<and>
             best_version (fst ` set m) target v"
proof -
  have "semver_keys m \<noteq> []" using assms by (metis length_sort_by length_map length_0_conv semver_keys_def)
  moreover have "sorted_wrt semver.le (semver_keys m)" by (simp add: semver_keys_def semver.sorted_sort_by)
  moreover have "set (semver_keys m) = fst ` set m" by (simp add: semver_keys_def)
  ultimately show ?thesis using best_version_index [of "semver_keys m" _ target] by auto
qed

text \<open>
  The spec file for a detected version: a command with at least one file always
  gets one; it is the file of the newest version at or below the detected one (the newest of all when
  every version is newer or none was detected), and where that file has version diffs, the diff chosen
  by the same rule.
\<close>

theorem resolve_versioned_path_best:
  assumes "vc_files entry \<noteq> []"
  shows "\<exists>v path. best_version (fst ` set (vc_files entry)) detected v \<and>
           map_of (vc_files entry) v = Some path \<and>
           (case map_of (vc_applied entry) v of
              None \<Rightarrow> resolve_versioned_path entry detected = Some path
            | Some applied \<Rightarrow>
                (if applied = [] then resolve_versioned_path entry detected = Some path
                 else \<exists>d p. best_version (fst ` set applied) detected d \<and> map_of applied d = Some p \<and>
                            resolve_versioned_path entry detected = Some p))"
proof -
  have ne: "semver_keys m \<noteq> []" if "m \<noteq> []" for m :: "(str \<times> 'b) list"
    using that by (metis length_sort_by length_map length_0_conv semver_keys_def)
  have in_map: "\<exists>p. map_of m v = Some p" if "best_version (fst ` set m) detected v" for m :: "(str \<times> str) list" and v
    using that by (auto simp: best_version_def dest: weak_map_of_SomeI)
  obtain v where v: "semver_keys (vc_files entry) ! get_best_version_index (semver_keys (vc_files entry)) detected = v"
    "best_version (fst ` set (vc_files entry)) detected v"
    using semver_keys_best [OF assms] by blast
  obtain path where path: "map_of (vc_files entry) v = Some path" using in_map v(2) by blast
  have "case map_of (vc_applied entry) v of
              None \<Rightarrow> resolve_versioned_path entry detected = Some path
            | Some applied \<Rightarrow>
                (if applied = [] then resolve_versioned_path entry detected = Some path
                 else \<exists>d p. best_version (fst ` set applied) detected d \<and> map_of applied d = Some p \<and>
                            resolve_versioned_path entry detected = Some p)"
  proof (cases "map_of (vc_applied entry) v")
    case None
    then show ?thesis using v(1) path ne [OF assms] by (simp add: resolve_versioned_path_def Let_def)
  next
    case (Some applied)
    show ?thesis
    proof (cases "applied = []")
      case True
      then show ?thesis using Some v(1) path ne [OF assms] by (simp add: resolve_versioned_path_def Let_def)
    next
      case False
      obtain d where d: "semver_keys applied ! get_best_version_index (semver_keys applied) detected = d"
        "best_version (fst ` set applied) detected d"
        using semver_keys_best [OF False] by blast
      then obtain p where "map_of applied d = Some p" using in_map by blast
      with d False Some v(1) path ne [OF assms] show ?thesis
        by (auto simp: resolve_versioned_path_def Let_def)
    qed
  qed
  with v(2) path show ?thesis by blast
qed

definition sample_versioned :: versioned_command where
  "sample_versioned =
     \<lparr>vc_command = [lit ''tool'', lit ''--version''], vc_parse = lit ''semver-clean'', vc_regex = None,
      vc_regex_group = None, vc_parse_fallback = None, vc_fallback = [],
      vc_files = [(lit ''1.0.0'', lit ''tool/1.0.0.json''), (lit ''2.0.0'', lit ''tool/2.0.0.json'')],
      vc_applied = []\<rparr>"

theorem resolve_versioned_path_best_witness:
  "\<exists>v path. best_version (fst ` set (vc_files sample_versioned)) (Some (lit ''1.5.0'')) v \<and>
           map_of (vc_files sample_versioned) v = Some path \<and>
           (case map_of (vc_applied sample_versioned) v of
              None \<Rightarrow> resolve_versioned_path sample_versioned (Some (lit ''1.5.0'')) = Some path
            | Some applied \<Rightarrow>
                (if applied = [] then resolve_versioned_path sample_versioned (Some (lit ''1.5.0'')) = Some path
                 else \<exists>d p. best_version (fst ` set applied) (Some (lit ''1.5.0'')) d \<and> map_of applied d = Some p \<and>
                            resolve_versioned_path sample_versioned (Some (lit ''1.5.0'')) = Some p))"
  by (rule resolve_versioned_path_best) (simp add: sample_versioned_def)

text \<open>Prerelease tags are compared as texts, not identifier by identifier as semantic versioning
  has it: the tenth release candidate sorts before the ninth.\<close>

lemma prerelease_order_is_textual:
  "compare_semver (lit ''1.0.0-rc.10'') (lit ''1.0.0-rc.9'') = Less"
  by (simp add: compare_semver_def parse_semver_def trim_def trim_end_def trim_end_matches_def
      trim_start_matches_def is_whitespace_def parse_u64_def starts_with_char_def is_ascii_digit_def
      digits_value_def compare_numbers_def Let_def cmp_of_def)

section \<open>Reading a version\<close>

definition version_char :: "rchar \<Rightarrow> bool" where
  "version_char ch \<longleftrightarrow>
     is_ascii_digit ch \<or> ch = c_dot \<or> ch = c_dash \<or> ch = c_plus \<or> is_ascii_alphabetic ch"

definition semver_clean :: "str \<Rightarrow> str option" where
  "semver_clean s =
     (let trimmed = trim_start_matches (\<lambda>c. c = c_v \<or> c = c_eq) (trim s);
          rest = dropWhile (\<lambda>c. \<not> is_ascii_digit c) trimmed
      in if rest = [] then None
         else (let taken = takeWhile version_char rest
               in if length (filter (\<lambda>c. c = c_dot) taken) < 2 then None
                  else Some (trim_end_matches (\<lambda>c. c = c_dot \<or> c = c_dash \<or> c = c_plus) taken)))"

definition after_space :: "str \<Rightarrow> str" where
  "after_space stdout = (case split_once c_space stdout of Some (_, rest) \<Rightarrow> rest | None \<Rightarrow> stdout)"

text \<open>A compiled pattern maps a text to its capture groups; \<open>regex_new pattern = None\<close> when the
  pattern does not compile.\<close>

type_synonym regex = "str \<Rightarrow> (str option list) option"

definition parse_version_stdout ::
  "(str \<Rightarrow> regex option) \<Rightarrow> str \<Rightarrow> versioned_command \<Rightarrow> str option" where
  "parse_version_stdout regex_new stdout entry =
     (if vc_parse entry = lit ''stdout'' then Some stdout
      else if vc_parse entry = lit ''after-first-space'' then Some (after_space stdout)
      else if vc_parse entry = lit ''semver-clean'' then semver_clean stdout
      else if vc_parse entry = lit ''semver-clean-after-space'' then semver_clean (after_space stdout)
      else if vc_parse entry = lit ''regex'' then
        (case vc_regex entry of
           None \<Rightarrow> None
         | Some pattern \<Rightarrow>
             (case regex_new pattern of
                None \<Rightarrow> vc_parse_fallback entry
              | Some regex \<Rightarrow>
                  (case regex stdout of
                     None \<Rightarrow> vc_parse_fallback entry
                   | Some groups \<Rightarrow>
                       (let group = (case vc_regex_group entry of Some g \<Rightarrow> g | None \<Rightarrow> 0)
                        in if group < length groups \<and> groups ! group \<noteq> None then groups ! group
                           else vc_parse_fallback entry))))
      else None)"

text \<open>\<open>execute command args\<close> is the standard output of a successful run.\<close>

definition detect_cli_version ::
  "(str \<Rightarrow> regex option) \<Rightarrow> (str \<Rightarrow> str list \<Rightarrow> str option) \<Rightarrow> versioned_command \<Rightarrow> str option" where
  "detect_cli_version regex_new execute entry =
     (case vc_command entry of
        [] \<Rightarrow> None
      | command # args \<Rightarrow>
          (case execute command args of
             None \<Rightarrow> None
           | Some stdout \<Rightarrow>
               (case parse_version_stdout regex_new stdout entry of
                  None \<Rightarrow> None
                | Some parsed \<Rightarrow> (let trimmed = trim parsed in if trimmed = [] then None else Some trimmed))))"

lemma detected_version_trimmed:
  "detect_cli_version re ex entry = Some v \<Longrightarrow> v \<noteq> [] \<and> trim v = v"
  by (auto simp: detect_cli_version_def Let_def split: list.splits option.splits if_splits)

end
