(* ===== verification/Acceptance.thy ===== *)
theory Acceptance
  imports Rust_Str "HOL-Library.AList" "HOL-Library.Product_Lexorder"
begin

text \<open>
  The two recency indexes of \<open>rank.rs\<close>: what the user accepted last, by root command and name
  (\<open>AcceptanceIndex\<close>) and by argument slot (\<open>ScopedAcceptanceIndex\<close>). The nested hash maps are one
  association list keyed by the pair of keys (an inner map is removed with its last entry, so it is
  never empty); its order is the iteration order of the maps, which is arbitrary. The settings store
  is outside the model: loading starts from the deserialized entries.
\<close>

section \<open>Shared parts\<close>

type_synonym entries = "((str \<times> str) \<times> nat) list"

definition c_hook_arrow :: rchar where "c_hook_arrow = 8618"

text \<open>The rows for running the line as it is and for the parent directory are never recorded.\<close>

definition special_name :: "str \<Rightarrow> bool" where
  "special_name name \<longleftrightarrow> name = [c_hook_arrow] \<or> name = lit ''../''"

definition timestamp :: "entries \<Rightarrow> str \<Rightarrow> str \<Rightarrow> nat option" where
  "timestamp es key name = map_of es (key, name)"

text \<open>\<open>Iterator::min_by\<close>: the first of the least elements.\<close>

fun min_by :: "('a \<Rightarrow> 'k::linorder) \<Rightarrow> 'a list \<Rightarrow> 'a option" where
  "min_by k [] = None"
| "min_by k (x # xs) =
     (case min_by k xs of None \<Rightarrow> Some x | Some y \<Rightarrow> (if k y < k x then Some y else Some x))"

lemma min_by_None [simp]: "min_by k xs = None \<longleftrightarrow> xs = []"
  by (cases xs) (auto split: option.splits)

lemma min_by_Some: "min_by k xs = Some m \<Longrightarrow> m \<in> set xs \<and> (\<forall>x \<in> set xs. k m \<le> k x)"
  by (induction xs arbitrary: m) (auto split: option.splits if_splits)

section \<open>The contract of a recency index\<close>

text \<open>
  What the two indexes promise: recording keeps the bounds; a refused or dropped entry changes
  nothing; an entry that stays has the newest time seen for it; an entry at least as new as the one
  recorded is never lost.
\<close>

locale recency_index =
  fixes ok :: "entries \<Rightarrow> bool" and record_in :: "str \<Rightarrow> str \<Rightarrow> nat \<Rightarrow> entries \<Rightarrow> entries"
  assumes ok_record: "ok es \<Longrightarrow> ok (record_in key name t es)"
    and record_same: "ok es \<Longrightarrow> map_of (record_in key name t es) e = Some t' \<Longrightarrow>
                      map_of es e = Some t' \<or> (t' \<ge> t \<and> (map_of es e = None \<longrightarrow> t' = t))"
    and record_keeps_newer: "ok es \<Longrightarrow> map_of es e = Some t' \<Longrightarrow> t \<le> t' \<Longrightarrow>
                             map_of (record_in key name t es) e = Some t'"
begin

text \<open>Recording a list of acceptances.\<close>

definition record_list :: "(str \<times> str \<times> nat) list \<Rightarrow> entries \<Rightarrow> entries" where
  "record_list xs es = fold (\<lambda>(key, name, t). record_in key name t) xs es"

lemma ok_record_list: "ok es \<Longrightarrow> ok (record_list xs es)"
  unfolding record_list_def by (induction xs arbitrary: es) (auto simp: ok_record)

text \<open>No replay of queued, older acceptances loses an entry: the newest is never lost.\<close>

lemma keeps_newest:
  "ok es \<Longrightarrow> map_of es e = Some t' \<Longrightarrow> \<forall>(key, name, t) \<in> set xs. t \<le> t' \<Longrightarrow>
   map_of (record_list xs es) e = Some t'"
  unfolding record_list_def
  by (induction xs arbitrary: es) (auto simp: ok_record record_keeps_newer)

end

section \<open>Argument values\<close>

definition MAX_SCOPED_ACCEPTANCES :: nat where "MAX_SCOPED_ACCEPTANCES = 512"
definition MAX_SCOPED_NAME_BYTES :: nat where "MAX_SCOPED_NAME_BYTES = 128"

definition is_hex :: "rchar \<Rightarrow> bool" where
  "is_hex c \<longleftrightarrow> is_ascii_digit c \<or> (97 \<le> c \<and> c \<le> 102)"

definition valid_scope :: "str \<Rightarrow> bool" where
  "valid_scope scope \<longleftrightarrow>
     (case strip_prefix (lit ''v1:'') scope of
        None \<Rightarrow> False
      | Some hex \<Rightarrow> str_len hex = 64 \<and> list_all is_hex hex)"

definition scoped_refused :: "str \<Rightarrow> str \<Rightarrow> bool" where
  "scoped_refused scope name \<longleftrightarrow>
     \<not> valid_scope scope \<or> name = [] \<or> str_len name > MAX_SCOPED_NAME_BYTES \<or>
     list_ex is_control name \<or> special_name name"

text \<open>The result and the new index.\<close>

definition scoped_record_at :: "str \<Rightarrow> str \<Rightarrow> nat \<Rightarrow> entries \<Rightarrow> bool \<times> entries" where
  "scoped_record_at scope name t es =
     (if scoped_refused scope name then (False, es)
      else case map_of es (scope, name) of
        Some existing \<Rightarrow> (True, AList.update (scope, name) (max existing t) es)
      | None \<Rightarrow>
          (if length es \<ge> MAX_SCOPED_ACCEPTANCES then
             (case min_by snd es of
                Some (old, oldest) \<Rightarrow>
                  (if t \<le> oldest then (True, es)
                   else (True, AList.update (scope, name) t (AList.delete old es)))
              | None \<Rightarrow> (True, AList.update (scope, name) t es))
           else (True, AList.update (scope, name) t es)))"

text \<open>\<open>load\<close>: the deserialized entries, oldest first.\<close>

definition scoped_load :: "entries \<Rightarrow> entries" where
  "scoped_load loaded =
     fold (\<lambda>((scope, name), t) es. snd (scoped_record_at scope name t es)) (sort_by_key snd loaded) []"

definition scoped_ok :: "entries \<Rightarrow> bool" where
  "scoped_ok es \<longleftrightarrow> distinct (map fst es) \<and> length es \<le> MAX_SCOPED_ACCEPTANCES"

lemma length_update: "length (AList.update k v es) = (if k \<in> fst ` set es then length es else Suc (length es))"
  by (induction es) auto

lemma length_delete_distinct:
  "distinct (map fst es) \<Longrightarrow> k \<in> fst ` set es \<Longrightarrow> length (AList.delete k es) = length es - 1"
proof (induction es)
  case (Cons e es)
  show ?case
  proof (cases "fst e = k")
    case True
    then have "AList.delete k es = es" using Cons.prems(1) by (intro delete_id) auto
    with True show ?thesis by (cases e) auto
  next
    case False
    then have "k \<in> fst ` set es" using Cons.prems(2) by auto
    then have "es \<noteq> []" by auto
    with False Cons \<open>k \<in> fst ` set es\<close> show ?thesis by (cases e) (auto simp: Suc_pred)
  qed
qed simp

lemma scoped_record_ok: "scoped_ok es \<Longrightarrow> scoped_ok (snd (scoped_record_at scope name t es))"
proof -
  assume ok: "scoped_ok es"
  then have d: "distinct (map fst es)" and l: "length es \<le> 512"
    by (auto simp: scoped_ok_def MAX_SCOPED_ACCEPTANCES_def)
  have "length (AList.delete old es) < 512" if "min_by snd es = Some (old, t0)" for old t0
  proof -
    have "old \<in> fst ` set es" using min_by_Some [OF that] by force
    moreover from this have "0 < length es" by (cases es) auto
    ultimately show ?thesis using length_delete_distinct [OF d] l by fastforce
  qed
  then show ?thesis using d l
    by (auto simp: scoped_record_at_def scoped_ok_def MAX_SCOPED_ACCEPTANCES_def distinct_update distinct_delete
        length_update Suc_le_eq map_of_eq_None_iff split: option.splits)
       (auto simp: image_iff dest!: map_of_SomeD)
qed

lemma map_of_update: "map_of (AList.update k v es) e = (if e = k then Some v else map_of es e)"
  by (simp add: update_conv')

lemma map_of_delete_eq: "map_of (AList.delete k es) e = (if e = k then None else map_of es e)"
  by (simp add: delete_conv')

lemma scoped_record_look:
  "map_of (snd (scoped_record_at scope name t es)) e = Some t' \<Longrightarrow>
   map_of es e = Some t' \<or> (t' \<ge> t \<and> (map_of es e = None \<longrightarrow> t' = t))"
  by (auto simp: scoped_record_at_def map_of_update map_of_delete_eq split: if_splits option.splits)

lemma scoped_record_keeps_newer:
  assumes "distinct (map fst es)" "map_of es e = Some t'" "t \<le> t'"
  shows "map_of (snd (scoped_record_at scope name t es)) e = Some t'"
proof -
  have "old \<noteq> e" if "min_by snd es = Some (old, oldest)" "oldest < t" for old oldest
  proof
    assume "old = e"
    have "(old, oldest) \<in> set es" using min_by_Some [OF that(1)] by blast
    with assms(1) have "map_of es old = Some oldest" by (rule map_of_is_SomeI)
    with \<open>old = e\<close> assms(2,3) that(2) show False by simp
  qed
  with assms(2,3) show ?thesis
    by (auto simp: scoped_record_at_def map_of_update map_of_delete_eq max_def not_le split: option.splits)
qed

interpretation scoped_index: recency_index scoped_ok "\<lambda>scope name t es. snd (scoped_record_at scope name t es)"
proof unfold_locales
  fix es and e :: "str \<times> str" and t t' :: nat and key name :: str
  show "scoped_ok es \<Longrightarrow> scoped_ok (snd (scoped_record_at key name t es))" by (rule scoped_record_ok)
  show "map_of (snd (scoped_record_at key name t es)) e = Some t' \<Longrightarrow>
        map_of es e = Some t' \<or> (t' \<ge> t \<and> (map_of es e = None \<longrightarrow> t' = t))"
    by (rule scoped_record_look)
  show "scoped_ok es \<Longrightarrow> map_of es e = Some t' \<Longrightarrow> t \<le> t' \<Longrightarrow>
        map_of (snd (scoped_record_at key name t es)) e = Some t'"
    by (intro scoped_record_keeps_newer) (simp_all add: scoped_ok_def)
qed

lemma update_same: "map_of es k = Some v \<Longrightarrow> AList.update k v es = es"
  by (induction es) auto

text \<open>
  The argument index under replay: recording keeps at most 512 distinct entries, and
  recording the same acceptance again changes nothing and answers the same.
\<close>

theorem scoped_record_idempotent:
  assumes "scoped_ok es" and "scoped_record_at scope name t es = (r, es')"
  shows "length es' \<le> 512 \<and> distinct (map fst es') \<and> scoped_record_at scope name t es' = (r, es')"
proof -
  have "scoped_ok es'" using scoped_record_ok [OF assms(1), of scope name t] assms(2) by simp
  moreover have "scoped_record_at scope name t es' = (r, es')"
  proof (cases "map_of es' (scope, name)")
    case None
    then have "es' = es" using assms(2)
      by (auto simp: scoped_record_at_def map_of_update split: if_splits option.splits)
    with assms(2) show ?thesis by simp
  next
    case (Some t')
    have "r = (\<not> scoped_refused scope name)"
      using assms(2) by (auto simp: scoped_record_at_def split: if_splits option.splits)
    moreover have "max t' t = t'" if "\<not> scoped_refused scope name"
      using that assms(2) Some
      by (auto simp: scoped_record_at_def map_of_update map_of_delete_eq split: if_splits option.splits)
    ultimately show ?thesis using Some by (simp add: scoped_record_at_def update_same)
  qed
  ultimately show ?thesis by (simp add: scoped_ok_def MAX_SCOPED_ACCEPTANCES_def)
qed

definition sample_scope :: str where
  "sample_scope = lit ''v1:'' @ replicate 64 48"

lemma sample_scope_valid: "valid_scope sample_scope"
proof -
  have "strip_prefix (lit ''v1:'') sample_scope = Some (replicate 64 48)"
    unfolding strip_prefix_Some_iff sample_scope_def by simp
  then show ?thesis by (simp add: valid_scope_def is_hex_def is_ascii_digit_def numeral_eq_Suc)
qed

theorem scoped_record_idempotent_witness:
  "length [((sample_scope, lit ''main''), 5::nat)] \<le> 512 \<and>
   distinct (map fst [((sample_scope, lit ''main''), 5::nat)]) \<and>
   scoped_record_at sample_scope (lit ''main'') 5 [((sample_scope, lit ''main''), 5)] =
     (True, [((sample_scope, lit ''main''), 5)])"
  by (rule scoped_record_idempotent [of "[]"])
     (simp_all add: scoped_ok_def scoped_record_at_def scoped_refused_def sample_scope_valid is_control_def
       special_name_def MAX_SCOPED_NAME_BYTES_def MAX_SCOPED_ACCEPTANCES_def)

section \<open>Commands\<close>

definition MAX_ACCEPTANCES :: nat where "MAX_ACCEPTANCES = 2048"
definition MAX_ACCEPTANCE_BYTES :: nat where "MAX_ACCEPTANCE_BYTES = 256 * 1024"
definition MAX_ACCEPTANCE_ROOT_BYTES :: nat where "MAX_ACCEPTANCE_ROOT_BYTES = 256"
definition MAX_ACCEPTANCE_NAME_BYTES :: nat where "MAX_ACCEPTANCE_NAME_BYTES = 1024"

definition valid_acceptance :: "str \<Rightarrow> str \<Rightarrow> bool" where
  "valid_acceptance command name \<longleftrightarrow>
     command \<noteq> [] \<and> str_len command \<le> MAX_ACCEPTANCE_ROOT_BYTES \<and>
     name \<noteq> [] \<and> str_len name \<le> MAX_ACCEPTANCE_NAME_BYTES \<and> \<not> special_name name"

text \<open>The bytes of the escaped JSON text; a character outside ASCII has only plain bytes.\<close>

definition acceptance_string_bytes :: "str \<Rightarrow> nat" where
  "acceptance_string_bytes s =
     sum_list (map (\<lambda>c. if c = c_dquote \<or> c = c_bslash then 2 else if c \<le> 31 then 6 else len_utf8 c) s)"

definition acceptance_root_bytes :: "str \<Rightarrow> nat" where
  "acceptance_root_bytes command = 256 + acceptance_string_bytes command"

definition acceptance_name_bytes :: "str \<Rightarrow> nat" where
  "acceptance_name_bytes name = 96 + acceptance_string_bytes name"

definition roots :: "entries \<Rightarrow> str set" where
  "roots es = (fst \<circ> fst) ` set es"

definition estimated_bytes :: "entries \<Rightarrow> nat" where
  "estimated_bytes es =
     sum acceptance_root_bytes (roots es) + sum_list (map (\<lambda>((_, name), _). acceptance_name_bytes name) es)"

definition fits_new_entry :: "entries \<Rightarrow> str \<Rightarrow> str \<Rightarrow> bool" where
  "fits_new_entry es command name \<longleftrightarrow>
     length es < MAX_ACCEPTANCES \<and>
     estimated_bytes es + (if command \<in> roots es then 0 else acceptance_root_bytes command) +
       acceptance_name_bytes name \<le> MAX_ACCEPTANCE_BYTES"

text \<open>The loop that charges the new entry and every entry it may not evict; \<open>charged\<close> are the roots
  charged so far. It stops at the first budget it exceeds.\<close>

fun newer_loop :: "nat \<Rightarrow> str set \<Rightarrow> nat \<Rightarrow> nat \<Rightarrow> entries \<Rightarrow> bool" where
  "newer_loop t charged n bytes [] = True"
| "newer_loop t charged n bytes (((root, name), accepted) # es) =
     (if accepted < t then newer_loop t charged n bytes es
      else (let bytes' = bytes + (if root \<in> charged then 0 else acceptance_root_bytes root) +
                         acceptance_name_bytes name
            in if n + 1 > MAX_ACCEPTANCES \<or> bytes' > MAX_ACCEPTANCE_BYTES then False
               else newer_loop t (insert root charged) (n + 1) bytes' es))"

definition fits_with_newer_entries :: "entries \<Rightarrow> str \<Rightarrow> str \<Rightarrow> nat \<Rightarrow> bool" where
  "fits_with_newer_entries es command name t =
     newer_loop t {command} 1 (acceptance_root_bytes command + acceptance_name_bytes name) es"

definition remove_oldest :: "entries \<Rightarrow> entries" where
  "remove_oldest es =
     (case min_by (\<lambda>((command, name), t). (t, command, name)) es of
        Some (old, _) \<Rightarrow> AList.delete old es
      | None \<Rightarrow> es)"

lemma length_delete_member: "k \<in> fst ` set es \<Longrightarrow> length (AList.delete k es) < length es"
proof -
  assume "k \<in> fst ` set es"
  then have "\<not> (\<forall>e \<in> set es. fst e \<noteq> k)" by auto
  then show ?thesis unfolding AList.delete_eq by (metis (mono_tags, lifting) case_prod_unfold length_filter_less)
qed

lemma remove_oldest_shorter: "es \<noteq> [] \<Longrightarrow> length (remove_oldest es) < length es"
proof -
  assume "es \<noteq> []"
  then obtain old t where m: "min_by (\<lambda>((command, name), t). (t, command, name)) es = Some (old, t)"
    by (cases "min_by (\<lambda>((command, name), t). (t, command, name)) es") auto
  then have "old \<in> fst ` set es" using min_by_Some by force
  with m show ?thesis by (simp add: remove_oldest_def length_delete_member)
qed

text \<open>\<open>while !fits { remove_oldest }\<close>. On an empty index that still does not fit the loop of the code
  would not end: \<open>None\<close>.\<close>

function evict_loop :: "str \<Rightarrow> str \<Rightarrow> entries \<Rightarrow> entries option" where
  "evict_loop command name es =
     (if fits_new_entry es command name then Some es
      else if es = [] then None
      else evict_loop command name (remove_oldest es))"
  by pat_completeness auto

termination
  by (relation "measure (\<lambda>(command, name, es). length es)") (auto simp: remove_oldest_shorter)

declare evict_loop.simps [simp del]

text \<open>\<open>None\<close>: the eviction loop does not end.\<close>

definition record_at :: "str \<Rightarrow> str \<Rightarrow> nat \<Rightarrow> entries \<Rightarrow> (bool \<times> entries) option" where
  "record_at command0 name0 t es =
     (let command = trim command0; name = trim name0
      in if \<not> valid_acceptance command name then Some (False, es)
         else case map_of es (command, name) of
           Some existing \<Rightarrow> Some (True, AList.update (command, name) (max existing t) es)
         | None \<Rightarrow>
             (if fits_new_entry es command name then Some (True, AList.update (command, name) t es)
              else if \<not> fits_with_newer_entries es command name t then Some (True, es)
              else map_option (\<lambda>es'. (True, AList.update (command, name) t es'))
                     (evict_loop command name es)))"

section \<open>The eviction loop ends and evicts only older entries\<close>

abbreviation newer :: "nat \<Rightarrow> entries \<Rightarrow> entries" where
  "newer t es \<equiv> filter (\<lambda>e. t \<le> snd e) es"

abbreviation names_bytes :: "entries \<Rightarrow> nat" where
  "names_bytes es \<equiv> sum_list (map (\<lambda>((_, name), _). acceptance_name_bytes name) es)"

lemma finite_roots [simp]: "finite (roots es)"
  by (simp add: roots_def)

lemma roots_simps [simp]: "roots [] = {}" "roots (((r, n), t) # es) = insert r (roots es)"
  by (auto simp: roots_def)

lemma newer_loop_bound:
  "newer_loop t charged n bytes es \<Longrightarrow>
   newer t es = [] \<or>
   (n + length (newer t es) \<le> MAX_ACCEPTANCES \<and>
    bytes + sum acceptance_root_bytes (roots (newer t es) - charged) + names_bytes (newer t es)
      \<le> MAX_ACCEPTANCE_BYTES)"
proof (induction t charged n bytes es rule: newer_loop.induct)
  case (2 t charged n bytes root name accepted es)
  show ?case
  proof (cases "accepted < t")
    case True
    with 2 show ?thesis by simp
  next
    case False
    let ?b = "bytes + (if root \<in> charged then 0 else acceptance_root_bytes root) + acceptance_name_bytes name"
    have fits: "n + 1 \<le> MAX_ACCEPTANCES" "?b \<le> MAX_ACCEPTANCE_BYTES"
      "newer_loop t (insert root charged) (n + 1) ?b es"
      using "2.prems" False by (auto simp: Let_def split: if_splits)
    have split: "sum acceptance_root_bytes (insert root R - charged) =
        (if root \<in> charged then 0 else acceptance_root_bytes root) +
        sum acceptance_root_bytes (R - insert root charged)" if "finite R" for R
    proof (cases "root \<in> charged")
      case True
      then show ?thesis by (simp add: insert_absorb)
    next
      case False
      then have "insert root R - charged = insert root (R - insert root charged)" by auto
      with False that show ?thesis by simp
    qed
    have "newer t es = [] \<or>
        (n + 1 + length (newer t es) \<le> MAX_ACCEPTANCES \<and>
         ?b + sum acceptance_root_bytes (roots (newer t es) - insert root charged) + names_bytes (newer t es)
           \<le> MAX_ACCEPTANCE_BYTES)"
      using "2.IH"(2) [OF False refl] fits by auto
    then show ?thesis
      using fits(1,2) False split [of "roots (newer t es)"] by (auto simp: split [of "{}"])
  qed
qed simp

lemma string_bytes_bound: "acceptance_string_bytes s \<le> 6 * str_len s"
  unfolding acceptance_string_bytes_def by (induction s) (auto simp: len_utf8_def)

lemma valid_fits_empty:
  "valid_acceptance command name \<Longrightarrow>
   acceptance_root_bytes command + acceptance_name_bytes name \<le> MAX_ACCEPTANCE_BYTES"
  using string_bytes_bound [of command] string_bytes_bound [of name]
  by (simp add: valid_acceptance_def acceptance_root_bytes_def acceptance_name_bytes_def
      MAX_ACCEPTANCE_ROOT_BYTES_def MAX_ACCEPTANCE_NAME_BYTES_def MAX_ACCEPTANCE_BYTES_def)

lemma fits_newer:
  assumes "valid_acceptance command name" and "fits_with_newer_entries es command name t"
  shows "fits_new_entry (newer t es) command name"
proof (cases "newer t es = []")
  case True
  then show ?thesis using valid_fits_empty [OF assms(1)]
    unfolding True by (simp add: fits_new_entry_def estimated_bytes_def MAX_ACCEPTANCES_def)
next
  case False
  let ?R = "roots (newer t es)"
  have "sum acceptance_root_bytes ?R + (if command \<in> ?R then 0 else acceptance_root_bytes command) =
        acceptance_root_bytes command + sum acceptance_root_bytes (?R - {command})"
    by (auto simp: sum.remove)
  then show ?thesis
    using newer_loop_bound [OF assms(2) [unfolded fits_with_newer_entries_def]] False
    by (simp add: fits_new_entry_def estimated_bytes_def)
qed

lemma remove_oldest_set: "set (remove_oldest es) \<subseteq> set es"
  by (auto simp: remove_oldest_def AList.delete_eq split: option.splits)

lemma remove_oldest_newer:
  assumes "distinct (map fst es)" "newer t es \<noteq> es"
  shows "newer t (remove_oldest es) = newer t es"
proof -
  let ?k = "\<lambda>((command, name), t). (t, command, name)"
  obtain x where x: "x \<in> set es" "snd x < t" using assms(2) by (auto simp: filter_id_conv not_le)
  then obtain old t0 where m: "min_by ?k es = Some (old, t0)" by (cases "min_by ?k es") auto
  have old: "(old, t0) \<in> set es" "?k (old, t0) \<le> ?k x"
    using min_by_Some [OF m] x(1) by blast+
  then have "t0 \<le> snd x" by (cases x; cases old) (auto split: prod.splits)
  have "\<not> (e \<in> set es \<and> fst e = old \<and> t \<le> snd e)" for e
  proof
    assume e: "e \<in> set es \<and> fst e = old \<and> t \<le> snd e"
    then have "(old, snd e) \<in> set es" by (metis prod.collapse)
    then have "snd e = t0" using assms(1) old(1) by (metis eq_key_imp_eq_value)
    with e \<open>t0 \<le> snd x\<close> x(2) show False by simp
  qed
  then have "filter (\<lambda>e. old \<noteq> fst e \<and> t \<le> snd e) es = newer t es"
    by (intro filter_cong) auto
  then show ?thesis using m by (simp add: remove_oldest_def AList.delete_eq case_prod_unfold)
qed

lemma evict_loop_ends:
  "valid_acceptance command name \<Longrightarrow> distinct (map fst es) \<Longrightarrow> fits_new_entry (newer t es) command name \<Longrightarrow>
   \<exists>es'. evict_loop command name es = Some es' \<and> fits_new_entry es' command name \<and> newer t es' = newer t es \<and>
         set es' \<subseteq> set es \<and> distinct (map fst es')"
proof (induction command name es rule: evict_loop.induct)
  case (1 command name es)
  show ?case
  proof (cases "fits_new_entry es command name")
    case True
    then show ?thesis using "1.prems" by (simp add: evict_loop.simps [of command name es])
  next
    case False
    then have ne: "newer t es \<noteq> es" using "1.prems"(3) by metis
    then have "es \<noteq> []" by auto
    have d: "distinct (map fst (remove_oldest es))"
      using "1.prems"(2) by (auto simp: remove_oldest_def distinct_delete split: option.splits)
    have "newer t (remove_oldest es) = newer t es" using "1.prems"(2) ne by (rule remove_oldest_newer)
    then have "\<exists>es'. evict_loop command name (remove_oldest es) = Some es' \<and> fits_new_entry es' command name \<and>
        newer t es' = newer t es \<and> set es' \<subseteq> set (remove_oldest es) \<and> distinct (map fst es')"
      using "1.IH" [OF False \<open>es \<noteq> []\<close> "1.prems"(1) d] "1.prems"(3) by simp
    then show ?thesis using False \<open>es \<noteq> []\<close> remove_oldest_set [of es]
      by (auto simp: evict_loop.simps [of command name es])
  qed
qed

definition accept_ok :: "entries \<Rightarrow> bool" where
  "accept_ok es \<longleftrightarrow> distinct (map fst es) \<and> length es \<le> MAX_ACCEPTANCES \<and>
                   estimated_bytes es \<le> MAX_ACCEPTANCE_BYTES"

lemma estimated_keys: "estimated_bytes es = sum acceptance_root_bytes (fst ` set (map fst es)) +
    sum_list (map (\<lambda>(_, name). acceptance_name_bytes name) (map fst es))"
  by (simp add: estimated_bytes_def roots_def image_comp comp_def case_prod_unfold)

lemma accept_ok_update_present:
  assumes "accept_ok es" "k \<in> fst ` set es" shows "accept_ok (AList.update k v es)"
proof -
  have keys: "map fst (AList.update k v es) = map fst es" using assms(2) by (simp add: update_keys)
  then have "length (AList.update k v es) = length es" by (metis length_map)
  with assms(1) keys show ?thesis unfolding accept_ok_def estimated_keys by presburger
qed

lemma accept_ok_insert:
  assumes "distinct (map fst es)" "fits_new_entry es command name" "(command, name) \<notin> fst ` set es"
  shows "accept_ok (AList.update (command, name) t es)"
proof -
  have upd: "AList.update (command, name) t es = es @ [((command, name), t)]"
    using assms(3) by (induction es) auto
  have roots: "roots (es @ [((command, name), t)]) = insert command (roots es)"
    by (auto simp: roots_def)
  have "estimated_bytes (es @ [((command, name), t)]) =
      estimated_bytes es + (if command \<in> roots es then 0 else acceptance_root_bytes command) +
      acceptance_name_bytes name"
    by (simp add: estimated_bytes_def roots insert_absorb)
  with assms show ?thesis by (simp add: accept_ok_def upd fits_new_entry_def image_iff)
qed

lemma map_of_newer:
  "distinct (map fst es) \<Longrightarrow> distinct (map fst es') \<Longrightarrow> newer t es' = newer t es \<Longrightarrow>
   map_of es e = Some t' \<Longrightarrow> t \<le> t' \<Longrightarrow> map_of es' e = Some t'"
proof -
  assume a: "distinct (map fst es)" "distinct (map fst es')" "newer t es' = newer t es"
    "map_of es e = Some t'" "t \<le> t'"
  have "(e, t') \<in> set (newer t es)" using a(4,5) by (auto dest: map_of_SomeD)
  then have "(e, t') \<in> set (newer t es')" using a(3) by simp
  then have "(e, t') \<in> set es'" by simp
  with a(2) show ?thesis by (rule map_of_is_SomeI)
qed

lemma record_at_total:
  assumes "accept_ok es"
  shows "\<exists>r es'. record_at command0 name0 t es = Some (r, es') \<and> accept_ok es' \<and>
           (\<forall>e t'. map_of es e = Some t' \<longrightarrow> t \<le> t' \<longrightarrow> map_of es' e = Some t') \<and>
           (\<forall>e t'. map_of es' e = Some t' \<longrightarrow> map_of es e = Some t' \<or> (t' \<ge> t \<and> (map_of es e = None \<longrightarrow> t' = t)))"
proof -
  let ?c = "trim command0" and ?n = "trim name0"
  have d: "distinct (map fst es)" using assms by (simp add: accept_ok_def)
  consider (bad) "\<not> valid_acceptance ?c ?n"
    | (known) existing where "valid_acceptance ?c ?n" "map_of es (?c, ?n) = Some existing"
    | (fits) "valid_acceptance ?c ?n" "map_of es (?c, ?n) = None" "fits_new_entry es ?c ?n"
    | (drop) "valid_acceptance ?c ?n" "map_of es (?c, ?n) = None" "\<not> fits_new_entry es ?c ?n"
        "\<not> fits_with_newer_entries es ?c ?n t"
    | (evict) "valid_acceptance ?c ?n" "map_of es (?c, ?n) = None" "\<not> fits_new_entry es ?c ?n"
        "fits_with_newer_entries es ?c ?n t"
    by (cases "map_of es (?c, ?n)") blast+
  then show ?thesis
  proof cases
    case bad
    then show ?thesis using assms by (auto simp: record_at_def Let_def)
  next
    case (known existing)
    then have "accept_ok (AList.update (?c, ?n) (max existing t) es)"
      using assms by (intro accept_ok_update_present) (auto dest!: map_of_SomeD simp: rev_image_eqI)
    then show ?thesis using known by (auto simp: record_at_def Let_def map_of_update)
  next
    case fits
    then have "accept_ok (AList.update (?c, ?n) t es)"
      using d by (intro accept_ok_insert) (auto simp: map_of_eq_None_iff)
    then show ?thesis using fits by (auto simp: record_at_def Let_def map_of_update)
  next
    case drop
    then show ?thesis using assms by (auto simp: record_at_def Let_def)
  next
    case evict
    obtain es' where es': "evict_loop ?c ?n es = Some es'" "fits_new_entry es' ?c ?n" "newer t es' = newer t es"
      "set es' \<subseteq> set es" "distinct (map fst es')"
      using evict_loop_ends [OF evict(1) d fits_newer [OF evict(1,4)]] by blast
    have "(?c, ?n) \<notin> fst ` set es'" using evict(2) es'(4) by (auto simp: map_of_eq_None_iff)
    with es' have ok: "accept_ok (AList.update (?c, ?n) t es')" by (intro accept_ok_insert)
    have keep: "map_of es' e = Some t'" if "map_of es e = Some t'" "t \<le> t'" for e t'
      using map_of_newer [OF d es'(5,3) that] .
    have old: "map_of es e = Some t'" if "map_of es' e = Some t'" for e t'
    proof -
      have "(e, t') \<in> set es" using that es'(4) by (auto dest: map_of_SomeD)
      with d show ?thesis by (rule map_of_is_SomeI)
    qed
    have rec: "record_at command0 name0 t es = Some (True, AList.update (?c, ?n) t es')"
      using evict es'(1) by (simp add: record_at_def Let_def)
    have "map_of (AList.update (?c, ?n) t es') e = Some t'" if "map_of es e = Some t'" "t \<le> t'" for e t'
      using keep [OF that] evict(2) that(1) by (auto simp: map_of_update)
    moreover have "map_of es e = Some t' \<or> (t' \<ge> t \<and> (map_of es e = None \<longrightarrow> t' = t))"
      if "map_of (AList.update (?c, ?n) t es') e = Some t'" for e t'
      using that old [of e t'] by (auto simp: map_of_update split: if_splits)
    ultimately show ?thesis using rec ok by blast
  qed
qed

definition record_entry :: "str \<Rightarrow> str \<Rightarrow> nat \<Rightarrow> entries \<Rightarrow> entries" where
  "record_entry command name t es = (case record_at command name t es of Some (_, es') \<Rightarrow> es' | None \<Rightarrow> es)"

interpretation command_index: recency_index accept_ok record_entry
proof unfold_locales
  fix es and e :: "str \<times> str" and t t' :: nat and key name :: str
  assume ok: "accept_ok es"
  from record_at_total [OF ok, of key name t] obtain r es' where r: "record_at key name t es = Some (r, es')"
    and facts: "accept_ok es'" "\<And>e t'. map_of es e = Some t' \<Longrightarrow> t \<le> t' \<Longrightarrow> map_of es' e = Some t'"
      "\<And>e t'. map_of es' e = Some t' \<Longrightarrow> map_of es e = Some t' \<or> (t' \<ge> t \<and> (map_of es e = None \<longrightarrow> t' = t))"
    by blast
  show "accept_ok (record_entry key name t es)" using r facts by (simp add: record_entry_def)
  show "map_of (record_entry key name t es) e = Some t' \<Longrightarrow>
        map_of es e = Some t' \<or> (t' \<ge> t \<and> (map_of es e = None \<longrightarrow> t' = t))"
    using r facts by (simp add: record_entry_def)
  show "map_of es e = Some t' \<Longrightarrow> t \<le> t' \<Longrightarrow> map_of (record_entry key name t es) e = Some t'"
    using r facts by (simp add: record_entry_def)
qed

text \<open>
  Recording an accepted command always ends, keeps both budgets (2048 entries, 256 KiB
  estimated) and evicts only entries older than the one recorded: in particular the eviction loop
  never runs forever.
\<close>

theorem acceptance_record_total:
  assumes "accept_ok es"
  shows "\<exists>r es'. record_at command name t es = Some (r, es') \<and>
           length es' \<le> 2048 \<and> estimated_bytes es' \<le> 262144 \<and> distinct (map fst es') \<and>
           (\<forall>e t'. map_of es e = Some t' \<and> t \<le> t' \<longrightarrow> map_of es' e = Some t')"
  using record_at_total [OF assms, of command name t]
  by (auto simp: accept_ok_def MAX_ACCEPTANCES_def MAX_ACCEPTANCE_BYTES_def)

theorem acceptance_record_total_witness:
  "\<exists>r es'. record_at (lit ''git'') (lit ''add'') 5 [] = Some (r, es') \<and>
           length es' \<le> 2048 \<and> estimated_bytes es' \<le> 262144 \<and> distinct (map fst es') \<and>
           (\<forall>e t'. map_of [] e = Some t' \<and> 5 \<le> t' \<longrightarrow> map_of es' e = Some t')"
  by (rule acceptance_record_total) (simp add: accept_ok_def estimated_bytes_def)

text \<open>
  Replays of queued acceptances never lose a newer one, in either index: an entry
  recorded at \<open>t'\<close> is still there, with that time, after any sequence of recordings none of which is
  newer.
\<close>

theorem newest_acceptance_survives:
  assumes "\<forall>(key, name, t) \<in> set xs. t \<le> t'"
  shows "(accept_ok es \<and> map_of es e = Some t' \<longrightarrow>
            map_of (fold (\<lambda>(key, name, t). record_entry key name t) xs es) e = Some t') \<and>
         (scoped_ok es \<and> map_of es e = Some t' \<longrightarrow>
            map_of (fold (\<lambda>(key, name, t) es. snd (scoped_record_at key name t es)) xs es) e = Some t')"
  using command_index.keeps_newest [of es e t' xs] scoped_index.keeps_newest [of es e t' xs] assms
  by (simp add: command_index.record_list_def scoped_index.record_list_def)

theorem newest_acceptance_survives_witness:
  "map_of (fold (\<lambda>(key, name, t). record_entry key name t) [(lit ''git'', lit ''add'', 3), (lit ''ls'', lit ''-l'', 7)]
     [((lit ''git'', lit ''push''), 9)]) (lit ''git'', lit ''push'') = Some 9"
  using newest_acceptance_survives [of "[(lit ''git'', lit ''add'', 3), (lit ''ls'', lit ''-l'', 7)]" 9
      "[((lit ''git'', lit ''push''), 9)]" "(lit ''git'', lit ''push'')"]
  by (simp add: accept_ok_def estimated_bytes_def acceptance_root_bytes_def acceptance_name_bytes_def
      acceptance_string_bytes_def MAX_ACCEPTANCES_def MAX_ACCEPTANCE_BYTES_def)

section \<open>Pruning a loaded index\<close>

text \<open>The candidates: \<open>pl_timestamps\<close> is the bounded map; the ordered set beside it in the code
  holds the same triples, and its first element is the one \<open>remove_oldest\<close> removes.\<close>

record prune_state =
  pl_timestamps :: entries
  pl_pruned :: bool

definition prune_name :: "str \<Rightarrow> str \<times> nat \<Rightarrow> prune_state \<Rightarrow> prune_state" where
  "prune_name root entry st =
     (case entry of (name, t) \<Rightarrow>
        (let trimmed = trim name
         in if \<not> valid_acceptance root trimmed then st\<lparr>pl_pruned := True\<rparr>
            else (let st1 = st\<lparr>pl_pruned := pl_pruned st \<or> trimmed \<noteq> name\<rparr>
                  in case map_of (pl_timestamps st) (root, trimmed) of
                       Some existing \<Rightarrow>
                         st1\<lparr>pl_pruned := True,
                             pl_timestamps := (if t > existing
                               then AList.update (root, trimmed) t (pl_timestamps st)
                               else pl_timestamps st)\<rparr>
                     | None \<Rightarrow>
                         (let es = AList.update (root, trimmed) t (pl_timestamps st)
                          in if length es > MAX_ACCEPTANCES
                             then st1\<lparr>pl_timestamps := remove_oldest es, pl_pruned := True\<rparr>
                             else st1\<lparr>pl_timestamps := es\<rparr>))))"

definition prune_command :: "str \<times> (str \<times> nat) list \<Rightarrow> prune_state \<Rightarrow> prune_state" where
  "prune_command entry st =
     (case entry of (command, names) \<Rightarrow>
        (let root = trim command;
             st1 = st\<lparr>pl_pruned := pl_pruned st \<or> names = [] \<or> root \<noteq> command\<rparr>
         in if root = [] \<or> str_len root > MAX_ACCEPTANCE_ROOT_BYTES then st1\<lparr>pl_pruned := True\<rparr>
            else fold (prune_name root) names st1))"

definition prune_loaded :: "(str \<times> (str \<times> nat) list) list \<Rightarrow> entries \<times> bool" where
  "prune_loaded loaded =
     (let st = fold prune_command loaded \<lparr>pl_timestamps = [], pl_pruned = False\<rparr>;
          newest = rev (sort_by_key (\<lambda>((root, name), t). (t, root, name)) (pl_timestamps st));
          bounded = fold (\<lambda>((root, name), t). record_entry root name t) newest [];
          original_count = sum_list (map (length \<circ> snd) loaded)
      in (bounded, pl_pruned st \<or> length bounded \<noteq> original_count))"

lemma prune_loaded_ok: "accept_ok (fst (prune_loaded loaded))"
proof -
  have "accept_ok (fold (\<lambda>((root, name), t). record_entry root name t) xs es)" if "accept_ok es" for xs es
    using that by (induction xs arbitrary: es) (auto simp: command_index.ok_record)
  moreover have "accept_ok []" by (simp add: accept_ok_def estimated_bytes_def)
  ultimately show ?thesis by (simp add: prune_loaded_def Let_def)
qed

end
