(* ===== verification/Suggestion.thy ===== *)
theory Suggestion
  imports Rust_Str
begin

text \<open>
  The rows and results of the engine (\<open>runtime.rs\<close>): \<open>Suggestion\<close> with its builders,
  \<open>CompleteRequest\<close>, \<open>CompleteResult\<close>, and the query terms of rows.
\<close>

record public_ai_candidate =
  pc_name :: str
  pc_description :: str

record public_ai_context =
  px_command_path :: "str list"
  px_token_prefix :: str

record complete_request =
  rq_include_public_ai :: bool
  rq_buffer :: str
  rq_cwd :: str
  rq_cursor :: "nat option"
  rq_fuzzy :: bool
  rq_history_only :: bool
  rq_include_history :: bool
  rq_suggest_first_token :: bool
  rq_current_shell :: "str option"
  rq_current_process :: "str option"
  rq_environment_variables :: "(str \<times> str) list"
  rq_alias :: "str option"

definition request_default :: complete_request where
  "request_default =
     \<lparr>rq_include_public_ai = False, rq_buffer = [], rq_cwd = [], rq_cursor = None, rq_fuzzy = False,
      rq_history_only = False, rq_include_history = True, rq_suggest_first_token = False,
      rq_current_shell = None, rq_current_process = None, rq_environment_variables = [],
      rq_alias = None\<rparr>"

record suggestion =
  sg_public_ai_candidate :: "public_ai_candidate option"
  sg_argument_value :: bool
  sg_acceptance_scope :: "str option"
  sg_name :: str
  sg_description :: str
  sg_kind :: str
  sg_args_hint :: str
  sg_insert_value :: "str option"
  sg_display_name :: "str option"
  sg_primary_name :: "str option"
  sg_separator_to_add :: "str option"
  sg_should_add_space :: bool
  sg_hidden :: bool
  sg_priority :: int
  sg_icon :: "str option"
  sg_original_type :: "str option"
  sg_query_term :: "str option"
  sg_is_dangerous :: bool
  sg_requires_arg :: bool
  sg_alias_names :: "str list"

definition suggestion_new :: "str \<Rightarrow> str \<Rightarrow> str \<Rightarrow> suggestion" where
  "suggestion_new name description kind =
     \<lparr>sg_public_ai_candidate = None, sg_argument_value = False, sg_acceptance_scope = None,
      sg_name = name, sg_description = description, sg_kind = kind, sg_args_hint = [],
      sg_insert_value = None, sg_display_name = None, sg_primary_name = None,
      sg_separator_to_add = None, sg_should_add_space = False, sg_hidden = False, sg_priority = 50,
      sg_icon = None, sg_original_type = None, sg_query_term = None, sg_is_dangerous = False,
      sg_requires_arg = False, sg_alias_names = []\<rparr>"

definition clamp :: "int \<Rightarrow> int \<Rightarrow> int \<Rightarrow> int" where
  "clamp lo hi x = max lo (min hi x)"

definition normalize_priority :: "int \<Rightarrow> int" where
  "normalize_priority priority = (if priority = 0 then 50 else clamp 0 100 priority)"

definition with_meta ::
  "str option \<Rightarrow> str option \<Rightarrow> str option \<Rightarrow> bool \<Rightarrow> bool \<Rightarrow> int option \<Rightarrow> str option \<Rightarrow> suggestion \<Rightarrow> suggestion"
where
  "with_meta insert_value display_name separator_to_add should_add_space hidden priority icon s =
     s\<lparr>sg_insert_value := insert_value, sg_display_name := display_name,
       sg_separator_to_add := separator_to_add, sg_should_add_space := should_add_space,
       sg_hidden := hidden,
       sg_priority := (case priority of None \<Rightarrow> 50 | Some p \<Rightarrow> normalize_priority p), sg_icon := icon\<rparr>"

definition with_insert_value :: "str \<Rightarrow> suggestion \<Rightarrow> suggestion" where
  "with_insert_value v s = s\<lparr>sg_insert_value := Some v\<rparr>"

definition with_priority :: "int \<Rightarrow> suggestion \<Rightarrow> suggestion" where
  "with_priority p s = s\<lparr>sg_priority := normalize_priority p\<rparr>"

text \<open>Priorities a builder has set are in range.\<close>

lemma normalize_priority_range: "0 \<le> normalize_priority p \<and> normalize_priority p \<le> 100"
  by (auto simp: normalize_priority_def clamp_def)

record current_arg =
  cu_name :: str
  cu_description :: str

record complete_result =
  cr_public_ai_context :: "public_ai_context option"
  cr_suggestions :: "suggestion list"
  cr_fuzzy :: bool
  cr_search_term :: str
  cr_match_term :: str
  cr_current_arg :: "current_arg option"
  cr_pending_generators :: bool
  cr_debounce_ms :: "int option"

definition result_default :: complete_result where
  "result_default =
     \<lparr>cr_public_ai_context = None, cr_suggestions = [], cr_fuzzy = False, cr_search_term = [],
      cr_match_term = [], cr_current_arg = None, cr_pending_generators = False, cr_debounce_ms = None\<rparr>"

definition history_loading_enabled :: "bool \<Rightarrow> bool" where
  "history_loading_enabled disabled = (\<not> disabled)"

definition should_merge_history :: "bool \<Rightarrow> bool \<Rightarrow> bool" where
  "should_merge_history include_history disabled = (include_history \<and> history_loading_enabled disabled)"

section \<open>Query terms\<close>

text \<open>The text from the last occurrence of a separator (\<open>str::rfind\<close> and the slice from there).\<close>

fun rfind_rest :: "str \<Rightarrow> str \<Rightarrow> str option" where
  "rfind_rest sep [] = (if sep = [] then Some [] else None)"
| "rfind_rest sep (c # cs) =
     (case rfind_rest sep cs of
        Some t \<Rightarrow> Some t
      | None \<Rightarrow> (if starts_with (c # cs) sep then Some (c # cs) else None))"

definition query_term_for :: "str \<Rightarrow> str option \<Rightarrow> str" where
  "query_term_for search_term separator =
     (case separator of
        None \<Rightarrow> search_term
      | Some sep \<Rightarrow>
          (if sep = [] then []
           else case rfind_rest sep search_term of
             None \<Rightarrow> search_term
           | Some rest \<Rightarrow> (case rest of [] \<Rightarrow> [] | _ # t \<Rightarrow> t)))"

text \<open>\<open>get_query_term hook_id term\<close> is what the hook of that id answers; \<open>None\<close> when it fails.\<close>

definition query_term_with_hook ::
  "(str \<Rightarrow> str \<Rightarrow> str option) \<Rightarrow> str \<Rightarrow> str option \<Rightarrow> str option \<Rightarrow> str" where
  "query_term_with_hook get_query_term search_term separator js_hook =
     (case js_hook of
        Some hook_id \<Rightarrow>
          (if hook_id = [] then query_term_for search_term separator
           else case get_query_term hook_id search_term of
             Some term \<Rightarrow> term
           | None \<Rightarrow> query_term_for search_term separator)
      | None \<Rightarrow> query_term_for search_term separator)"

definition suggestion_query_term_with_hook ::
  "(str \<Rightarrow> str \<Rightarrow> str option) \<Rightarrow> str \<Rightarrow> str option \<Rightarrow> str option \<Rightarrow> str \<Rightarrow> str \<Rightarrow> str \<times> str option" where
  "suggestion_query_term_with_hook get_query_term kind explicit_separator js_hook query search_term =
     (if explicit_separator \<noteq> None \<or> js_hook \<noteq> None
      then (let term = query_term_with_hook get_query_term search_term explicit_separator js_hook
            in (term, Some term))
      else if kind = lit ''shortcut'' \<and> starts_with_char search_term 63
      then (tl search_term, Some (tl search_term))
      else (query, None))"

text \<open>The documentation of \<open>query_term_with_hook\<close> puts the string form first and the function next;
  the function wins whenever it answers.\<close>

lemma hook_wins_over_separator:
  "hook_id \<noteq> [] \<Longrightarrow> get_query_term hook_id term = Some answer \<Longrightarrow>
   query_term_with_hook get_query_term term (Some sep) (Some hook_id) = answer"
  by (simp add: query_term_with_hook_def)

lemma rfind_rest_Some:
  "rfind_rest sep s = Some t \<Longrightarrow> suffix t s \<and> starts_with t sep"
  by (induction s) (auto split: option.splits if_splits simp: starts_with_def suffix_Cons)

text \<open>With a one-character separator the query term is what follows its last occurrence.\<close>

lemma query_term_after_last:
  assumes "c \<notin> set b" shows "query_term_for (a @ c # b) (Some [c]) = b"
proof -
  have none: "rfind_rest [c] b = None" using assms
    by (induction b) (auto simp: starts_with_def)
  have "rfind_rest [c] (a @ c # b) = Some (c # b)"
    by (induction a) (simp_all add: none starts_with_def)
  then show ?thesis by (simp add: query_term_for_def)
qed

end
