(* ===== verification/Frecency.thy ===== *)
theory Frecency
  imports Query Suggestion
begin

text \<open>
  History frequencies (\<open>Frecency\<close> and \<open>NextWords\<close> of \<open>rank.rs\<close>): an arena of word nodes that
  counts, for every prefix of the history lines, the words that follow it, and the history rows.
  The arena is shown to count exactly what a scan of the lines would.
\<close>

section \<open>The arena\<close>

text \<open>Hash maps that are only looked up are functions; the word table keeps its entries, its size is
  the next identifier.\<close>

record word_node =
  wn_children :: "str \<Rightarrow> nat option"
  wn_counts :: "nat \<Rightarrow> nat option"

definition node_default :: word_node where
  "node_default = \<lparr>wn_children = (\<lambda>_. None), wn_counts = (\<lambda>_. None)\<rparr>"

record next_words =
  nw_nodes :: "word_node list"
  nw_words :: "(str \<times> nat) list"

definition next_words_default :: next_words where
  "next_words_default = \<lparr>nw_nodes = [], nw_words = []\<rparr>"

definition word_id :: "str \<Rightarrow> next_words \<Rightarrow> nat \<times> next_words" where
  "word_id word nw =
     (case map_of (nw_words nw) word of
        Some wid \<Rightarrow> (wid, nw)
      | None \<Rightarrow> (length (nw_words nw), nw\<lparr>nw_words := (word, length (nw_words nw)) # nw_words nw\<rparr>))"

definition child :: "nat \<Rightarrow> str \<Rightarrow> next_words \<Rightarrow> nat \<times> next_words" where
  "child parent segment nw =
     (case wn_children (nw_nodes nw ! parent) segment of
        Some c \<Rightarrow> (c, nw)
      | None \<Rightarrow>
          (let c = length (nw_nodes nw);
               nodes = nw_nodes nw @ [node_default];
               p = nodes ! parent
           in (c, nw\<lparr>nw_nodes := nodes[parent := p\<lparr>wn_children := (wn_children p)(segment \<mapsto> c)\<rparr>]\<rparr>)))"

definition bump :: "nat \<Rightarrow> nat \<Rightarrow> next_words \<Rightarrow> next_words" where
  "bump node wid nw =
     (let n = nw_nodes nw ! node
      in nw\<lparr>nw_nodes := (nw_nodes nw)[node := n\<lparr>wn_counts := (wn_counts n)(wid \<mapsto>
               (case wn_counts n wid of None \<Rightarrow> 1 | Some c \<Rightarrow> c + 1))\<rparr>]\<rparr>)"

text \<open>The scan of the characters: \<open>start\<close> is the offset of the word being read with its text so far;
  the words come with their offset and identifier, the spaces with their offset.\<close>

fun scan_line ::
  "next_words \<Rightarrow> nat \<Rightarrow> (nat \<times> str) option \<Rightarrow> str \<Rightarrow> next_words \<times> (nat \<times> nat) list \<times> nat list" where
  "scan_line nw offset start [] =
     (case start of
        None \<Rightarrow> (nw, [], [])
      | Some (s, w) \<Rightarrow> (case word_id w nw of (wid, nw') \<Rightarrow> (nw', [(s, wid)], [])))"
| "scan_line nw offset start (ch # rest) =
     (let spaces = (if ch = c_space then [offset] else []);
          after = offset + len_utf8 ch
      in if is_whitespace ch then
           (case start of
              None \<Rightarrow>
                (case scan_line nw after None rest of (nw', ws, sps) \<Rightarrow> (nw', ws, spaces @ sps))
            | Some (s, w) \<Rightarrow>
                (case word_id w nw of
                   (wid, nw1) \<Rightarrow>
                     (case scan_line nw1 after None rest of
                        (nw', ws, sps) \<Rightarrow> (nw', (s, wid) # ws, spaces @ sps))))
         else
           (case scan_line nw after (Some (case start of None \<Rightarrow> (offset, [ch]) | Some (s, w) \<Rightarrow> (s, w @ [ch]))) rest of
              (nw', ws, sps) \<Rightarrow> (nw', ws, spaces @ sps)))"

text \<open>The slice \<open>command[a..b]\<close>.\<close>

definition slice :: "str \<Rightarrow> nat \<Rightarrow> nat \<Rightarrow> str" where
  "slice s a b = (case str_upto s b of
       None \<Rightarrow> [] | Some p \<Rightarrow> (case str_from p a of None \<Rightarrow> [] | Some q \<Rightarrow> q))"

text \<open>The walk along the spaces; \<open>words\<close> are the words not yet passed.\<close>

fun space_loop :: "str \<Rightarrow> nat \<Rightarrow> nat \<Rightarrow> (nat \<times> nat) list \<Rightarrow> nat list \<Rightarrow> next_words \<Rightarrow> next_words" where
  "space_loop command node segment_start words [] nw = nw"
| "space_loop command node segment_start words (space # spaces) nw =
     (case child node (slice command segment_start space) nw of
        (node', nw1) \<Rightarrow>
          (let words' = dropWhile (\<lambda>w. fst w \<le> space) words;
               nw2 = (case words' of [] \<Rightarrow> nw1 | (_, wid) # _ \<Rightarrow> bump node' wid nw1)
           in space_loop command node' (space + 1) words' spaces nw2))"

definition record_line :: "str \<Rightarrow> next_words \<Rightarrow> next_words" where
  "record_line command nw =
     (case scan_line nw 0 None command of
        (nw1, words, spaces) \<Rightarrow>
          (let nw2 = (if nw_nodes nw1 = [] then nw1\<lparr>nw_nodes := [node_default]\<rparr> else nw1);
               nw3 = (case words of [] \<Rightarrow> nw2 | (_, wid) # _ \<Rightarrow> bump 0 wid nw2)
           in space_loop command 0 0 words spaces nw3))"

text \<open>Walking a prefix from a node.\<close>

fun walk_nodes :: "word_node list \<Rightarrow> nat \<Rightarrow> str list \<Rightarrow> nat option" where
  "walk_nodes nodes node [] = Some node"
| "walk_nodes nodes node (segment # segments) =
     (case wn_children (nodes ! node) segment of
        Some c \<Rightarrow> walk_nodes nodes c segments
      | None \<Rightarrow> None)"

definition prefix_segments :: "str \<Rightarrow> str list" where
  "prefix_segments p = (if p = [] then [] else split_char c_space p)"

definition counts_get :: "next_words \<Rightarrow> str \<Rightarrow> str \<Rightarrow> nat option" where
  "counts_get nw prefix_text word =
     (if nw_nodes nw = [] then None
      else case walk_nodes (nw_nodes nw) 0 (prefix_segments prefix_text) of
        None \<Rightarrow> None
      | Some node \<Rightarrow>
          (case map_of (nw_words nw) word of
             None \<Rightarrow> None
           | Some wid \<Rightarrow> wn_counts (nw_nodes nw ! node) wid))"

section \<open>Frecency\<close>

record frecency =
  fr_lines :: "str list"
  fr_next_words :: next_words

definition add_command :: "str \<Rightarrow> frecency \<Rightarrow> frecency" where
  "add_command command0 fr =
     (let command = trim command0
      in if command = [] then fr
         else \<lparr>fr_lines = fr_lines fr @ [command], fr_next_words = record_line command (fr_next_words fr)\<rparr>)"

text \<open>\<open>build\<close> without a cancelled check; a check that fails discards the whole construction.\<close>

definition from_commands :: "(str \<times> nat) list \<Rightarrow> frecency" where
  "from_commands commands =
     fold (\<lambda>(command, _). add_command command) commands \<lparr>fr_lines = [], fr_next_words = next_words_default\<rparr>"

definition next_word_counts :: "frecency \<Rightarrow> str \<Rightarrow> str \<Rightarrow> nat option" where
  "next_word_counts fr p word = counts_get (fr_next_words fr) p word"

text \<open>The reference: how many lines continue a prefix with a word.\<close>

definition line_next_word :: "str \<Rightarrow> str \<Rightarrow> str option" where
  "line_next_word p line =
     (if p = [] then first_word line
      else case strip_prefix (p @ [c_space]) line of
        None \<Rightarrow> None
      | Some rest \<Rightarrow> first_word rest)"

definition next_word_ref :: "str list \<Rightarrow> str \<Rightarrow> str \<Rightarrow> nat" where
  "next_word_ref lines p word = length (filter (\<lambda>line. line_next_word p line = Some word) lines)"

section \<open>The arena is a tree\<close>

text \<open>Children have larger indexes than their parents, and no two edges lead to the same node.\<close>

definition arena_ok :: "word_node list \<Rightarrow> bool" where
  "arena_ok nodes \<longleftrightarrow>
     (\<forall>i < length nodes. \<forall>s c. wn_children (nodes ! i) s = Some c \<longrightarrow> i < c \<and> c < length nodes) \<and>
     (\<forall>i < length nodes. \<forall>j < length nodes. \<forall>s t c.
        wn_children (nodes ! i) s = Some c \<longrightarrow> wn_children (nodes ! j) t = Some c \<longrightarrow> i = j \<and> s = t)"

definition words_ok :: "(str \<times> nat) list \<Rightarrow> bool" where
  "words_ok ws \<longleftrightarrow> distinct (map fst ws) \<and> distinct (map snd ws) \<and> (\<forall>(w, i) \<in> set ws. i < length ws)"

definition counts_ok :: "next_words \<Rightarrow> bool" where
  "counts_ok nw \<longleftrightarrow>
     (\<forall>n \<in> set (nw_nodes nw). \<forall>i c. wn_counts n i = Some c \<longrightarrow> i < length (nw_words nw) \<and> 0 < c)"

definition nw_ok :: "next_words \<Rightarrow> bool" where
  "nw_ok nw \<longleftrightarrow> arena_ok (nw_nodes nw) \<and> words_ok (nw_words nw) \<and> counts_ok nw"

lemma arena_okD:
  "arena_ok nodes \<Longrightarrow> i < length nodes \<Longrightarrow> wn_children (nodes ! i) s = Some c \<Longrightarrow> i < c \<and> c < length nodes"
  "arena_ok nodes \<Longrightarrow> i < length nodes \<Longrightarrow> j < length nodes \<Longrightarrow> wn_children (nodes ! i) s = Some c \<Longrightarrow>
   wn_children (nodes ! j) t = Some c \<Longrightarrow> i = j \<and> s = t"
  unfolding arena_ok_def by blast+

lemma walk_append:
  "walk_nodes nodes n (xs @ ys) = Option.bind (walk_nodes nodes n xs) (\<lambda>m. walk_nodes nodes m ys)"
  by (induction nodes n xs rule: walk_nodes.induct) (auto split: option.splits)

lemma walk_snoc:
  "walk_nodes nodes n (xs @ [s]) = Option.bind (walk_nodes nodes n xs) (\<lambda>m. wn_children (nodes ! m) s)"
  by (cases "walk_nodes nodes n xs") (auto simp: walk_append split: option.splits)

lemma walk_range:
  "arena_ok nodes \<Longrightarrow> n < length nodes \<Longrightarrow> walk_nodes nodes n xs = Some m \<Longrightarrow> n \<le> m \<and> m < length nodes"
proof (induction nodes n xs rule: walk_nodes.induct)
  case (2 nodes n s xs)
  then obtain c where c: "wn_children (nodes ! n) s = Some c" "walk_nodes nodes c xs = Some m"
    by (auto split: option.splits)
  with arena_okD(1) [OF "2.prems"(1,2) c(1)] "2.IH" [OF c(1) "2.prems"(1)] show ?case by simp
qed simp

lemma walk_inj:
  assumes ok: "arena_ok nodes" and n: "n < length nodes"
  shows "walk_nodes nodes n xs = Some m \<Longrightarrow> walk_nodes nodes n ys = Some m \<Longrightarrow> xs = ys"
proof (induction xs arbitrary: ys m rule: rev_induct)
  case Nil
  show ?case
  proof (cases ys rule: rev_cases)
    case (snoc ys' t)
    then obtain k where k: "walk_nodes nodes n ys' = Some k" "wn_children (nodes ! k) t = Some n"
      using Nil by (auto simp: walk_snoc bind_eq_Some_conv)
    then have "n \<le> k" "k < length nodes" using walk_range [OF ok n k(1)] by auto
    then show ?thesis using arena_okD(1) [OF ok _ k(2)] by simp
  qed simp
next
  case (snoc s xs)
  obtain k where k: "walk_nodes nodes n xs = Some k" "wn_children (nodes ! k) s = Some m"
    using snoc.prems(1) by (auto simp: walk_snoc bind_eq_Some_conv)
  have range: "n \<le> k" "k < length nodes" using walk_range [OF ok n k(1)] by auto
  show ?case
  proof (cases ys rule: rev_cases)
    case Nil
    then have "m = n" using snoc.prems(2) by simp
    then show ?thesis using arena_okD(1) [OF ok range(2) k(2)] range by simp
  next
    case ys: (snoc ys' t)
    then obtain j where j: "walk_nodes nodes n ys' = Some j" "wn_children (nodes ! j) t = Some m"
      using snoc.prems(2) by (auto simp: walk_snoc bind_eq_Some_conv)
    have "j < length nodes" using walk_range [OF ok n j(1)] by simp
    then have "k = j \<and> s = t" using arena_okD(2) [OF ok range(2) _ k(2) j(2)] by blast
    with snoc.IH [OF k(1)] j(1) ys show ?thesis by simp
  qed
qed

section \<open>What the arena counts\<close>

definition view :: "next_words \<Rightarrow> str list \<Rightarrow> str \<Rightarrow> nat" where
  "view nw segs word =
     (if nw_nodes nw = [] then 0
      else case walk_nodes (nw_nodes nw) 0 segs of
        None \<Rightarrow> 0
      | Some n \<Rightarrow> (case map_of (nw_words nw) word of
          None \<Rightarrow> 0
        | Some i \<Rightarrow> (case wn_counts (nw_nodes nw ! n) i of None \<Rightarrow> 0 | Some c \<Rightarrow> c)))"

lemma counts_get_view:
  assumes "nw_ok nw"
  shows "counts_get nw p w = (if view nw (prefix_segments p) w = 0 then None else Some (view nw (prefix_segments p) w))"
proof (cases "nw_nodes nw = []")
  case False
  then have "m < length (nw_nodes nw)" if "walk_nodes (nw_nodes nw) 0 xs = Some m" for xs m
    using walk_range [OF _ _ that] assms by (auto simp: nw_ok_def)
  then show ?thesis using assms False
    by (auto simp: counts_get_def view_def nw_ok_def counts_ok_def split: option.splits)
       (metis less_numeral_extra(3) nth_mem)
qed (simp add: counts_get_def view_def)

lemma word_id_facts:
  assumes "nw_ok nw" "word_id w nw = (i, nw')"
  shows "nw_ok nw'" "nw_nodes nw' = nw_nodes nw" "map_of (nw_words nw') w = Some i"
    "map_of (nw_words nw) \<subseteq>\<^sub>m map_of (nw_words nw')" "view nw' = view nw"
proof -
  show "nw_ok nw'"
    using assms
    by (auto simp: word_id_def nw_ok_def words_ok_def counts_ok_def map_of_eq_None_iff less_Suc_eq
        split: option.splits) fastforce+
  show nodes: "nw_nodes nw' = nw_nodes nw" and "map_of (nw_words nw') w = Some i"
    and "map_of (nw_words nw) \<subseteq>\<^sub>m map_of (nw_words nw')"
    using assms(2) by (auto simp: word_id_def map_le_def split: option.splits)
  show "view nw' = view nw"
  proof (cases "map_of (nw_words nw) w")
    case None
    then have nw': "nw' = nw\<lparr>nw_words := (w, length (nw_words nw)) # nw_words nw\<rparr>"
      using assms(2) by (auto simp: word_id_def)
    have "wn_counts (nw_nodes nw ! m) (length (nw_words nw)) = None"
      if "walk_nodes (nw_nodes nw) 0 segs = Some m" "nw_nodes nw \<noteq> []" for segs m
    proof -
      have "m < length (nw_nodes nw)" using walk_range [of "nw_nodes nw" 0 segs m] that assms(1)
        by (simp add: nw_ok_def)
      then show ?thesis using assms(1) unfolding nw_ok_def counts_ok_def
        by (metis less_irrefl not_None_eq nth_mem)
    qed
    with None show ?thesis by (auto simp: nw' view_def fun_eq_iff split: option.splits)
  next
    case (Some j)
    then show ?thesis using assms(2) by (simp add: word_id_def)
  qed
qed

section \<open>The scan of a line\<close>

text \<open>The words of a line with their offsets, and the offsets of its spaces.\<close>

fun word_starts :: "nat \<Rightarrow> (nat \<times> str) option \<Rightarrow> str \<Rightarrow> (nat \<times> str) list" where
  "word_starts offset start [] = (case start of None \<Rightarrow> [] | Some sw \<Rightarrow> [sw])"
| "word_starts offset start (c # cs) =
     (if is_whitespace c
      then (case start of None \<Rightarrow> [] | Some sw \<Rightarrow> [sw]) @ word_starts (offset + len_utf8 c) None cs
      else word_starts (offset + len_utf8 c)
             (Some (case start of None \<Rightarrow> (offset, [c]) | Some (s, w) \<Rightarrow> (s, w @ [c]))) cs)"

fun space_offsets :: "nat \<Rightarrow> str \<Rightarrow> nat list" where
  "space_offsets offset [] = []"
| "space_offsets offset (c # cs) = (if c = c_space then [offset] else []) @ space_offsets (offset + len_utf8 c) cs"

definition resolves :: "(str \<times> nat) list \<Rightarrow> (nat \<times> str) list \<Rightarrow> (nat \<times> nat) list \<Rightarrow> bool" where
  "resolves ws xs ys \<longleftrightarrow> list_all2 (\<lambda>(s, w) (s', i). s = s' \<and> map_of ws w = Some i) xs ys"

lemma map_leD: "m \<subseteq>\<^sub>m m' \<Longrightarrow> m k = Some v \<Longrightarrow> m' k = Some v"
  by (metis domI map_le_def)

lemma resolves_mono: "map_of ws \<subseteq>\<^sub>m map_of ws' \<Longrightarrow> resolves ws xs ys \<Longrightarrow> resolves ws' xs ys"
  unfolding resolves_def by (erule list_all2_mono) (auto dest: map_leD)

definition extends_words :: "next_words \<Rightarrow> next_words \<Rightarrow> bool" where
  "extends_words nw nw' \<longleftrightarrow>
     nw_ok nw' \<and> nw_nodes nw' = nw_nodes nw \<and> map_of (nw_words nw) \<subseteq>\<^sub>m map_of (nw_words nw') \<and> view nw' = view nw"

lemma extends_words_trans: "extends_words a b \<Longrightarrow> extends_words b c \<Longrightarrow> extends_words a c"
  by (auto simp: extends_words_def intro: map_le_trans)

lemma word_id_extends:
  "nw_ok nw \<Longrightarrow> word_id w nw = (i, nw') \<Longrightarrow> extends_words nw nw' \<and> map_of (nw_words nw') w = Some i"
  using word_id_facts [of nw w i nw'] by (simp add: extends_words_def)

lemma scan_line_facts:
  "nw_ok nw \<Longrightarrow> scan_line nw offset start line = (nw', ws, sps) \<Longrightarrow>
   extends_words nw nw' \<and> sps = space_offsets offset line \<and>
   resolves (nw_words nw') (word_starts offset start line) ws"
proof (induction nw offset start line arbitrary: nw' ws sps rule: scan_line.induct)
  case (1 nw offset start)
  then show ?case
    by (auto simp: resolves_def extends_words_def dest: word_id_extends split: option.splits prod.splits)
next
  case (2 nw offset start ch rest)
  show ?case
  proof (cases "is_whitespace ch \<and> start \<noteq> None")
    case True
    then obtain s w i nw1 ws1 sps1 where start: "start = Some (s, w)" and wid: "word_id w nw = (i, nw1)"
      and scan: "scan_line nw1 (offset + len_utf8 ch) None rest = (nw', ws1, sps1)"
      and eqs: "ws = (s, i) # ws1" "sps = (if ch = c_space then [offset] else []) @ sps1"
      using "2.prems"(2) by (auto simp: Let_def split: prod.splits)
    have id: "extends_words nw nw1" "map_of (nw_words nw1) w = Some i"
      using word_id_extends [OF "2.prems"(1) wid] by auto
    then have "nw_ok nw1" by (simp add: extends_words_def)
    then have IH: "extends_words nw1 nw'" "sps1 = space_offsets (offset + len_utf8 ch) rest"
      "resolves (nw_words nw') (word_starts (offset + len_utf8 ch) None rest) ws1"
      using "2.IH"(2) [OF refl refl _ _ _ _ _ scan] True start wid by auto
    have "map_of (nw_words nw') w = Some i" using IH(1) id(2) map_leD unfolding extends_words_def by metis
    then show ?thesis using IH id(1) True start eqs
      by (auto simp: resolves_def intro: extends_words_trans)
  next
    case False
    then show ?thesis using "2.prems" "2.IH"(1,3) by (auto simp: Let_def split: prod.splits option.splits)
  qed
qed

lemma word_starts_space:
  "word_starts offset start (a @ c_space # b) =
   word_starts offset start a @ word_starts (offset + str_len a + 1) None b"
  by (induction offset start a rule: word_starts.induct) (auto simp: is_whitespace_def algebra_simps)

lemma space_offsets_append:
  "space_offsets offset (a @ b) = space_offsets offset a @ space_offsets (offset + str_len a) b"
  by (induction offset a rule: space_offsets.induct) (auto simp: algebra_simps)

lemma space_offsets_none [simp]: "c_space \<notin> set a \<Longrightarrow> space_offsets offset a = []"
  by (induction offset a rule: space_offsets.induct) auto

lemma word_starts_range:
  "(s, w) \<in> set (word_starts offset start line) \<Longrightarrow>
   (\<exists>w0. start = Some (s, w0)) \<or> (offset \<le> s \<and> s < offset + str_len line)"
proof (induction offset start line rule: word_starts.induct)
  case (2 offset start c cs)
  show ?case
  proof (cases "is_whitespace c")
    case True
    then have "(\<exists>w0. start = Some (s, w0)) \<or> (s, w) \<in> set (word_starts (offset + len_utf8 c) None cs)"
      using "2.prems" by (auto split: option.splits)
    then show ?thesis using "2.IH"(1) [OF True] by auto
  next
    case False
    then show ?thesis using "2.IH"(2) [OF False] "2.prems" by (cases start) auto
  qed
qed (auto split: option.splits)

lemma word_starts_Some:
  "\<exists>r. word_starts offset (Some (s, w)) line = (s, w @ takeWhile (\<lambda>c. \<not> is_whitespace c) line) # r"
proof (induction line arbitrary: offset w)
  case (Cons c line)
  then show ?case using Cons.IH [of "offset + len_utf8 c" "w @ [c]"] by auto
qed auto

lemma word_starts_first:
  "(case word_starts offset None line of [] \<Rightarrow> None | (_, w) # _ \<Rightarrow> Some w) = first_word line"
proof (induction line arbitrary: offset)
  case (Cons c cs)
  show ?case
  proof (cases "is_whitespace c")
    case True
    then show ?thesis using Cons by (simp add: first_word_def Let_def)
  next
    case False
    obtain r where "word_starts (offset + len_utf8 c) (Some (offset, [c])) cs =
        (offset, [c] @ takeWhile (\<lambda>c. \<not> is_whitespace c) cs) # r"
      using word_starts_Some by blast
    with False show ?thesis by (simp add: first_word_def Let_def)
  qed
qed (simp add: first_word_def)

section \<open>Growing the arena\<close>

abbreviation at_path :: "next_words \<Rightarrow> str list \<Rightarrow> nat \<Rightarrow> bool" where
  "at_path nw segs n \<equiv> nw_nodes nw \<noteq> [] \<and> walk_nodes (nw_nodes nw) 0 segs = Some n"

lemma at_path_range: "nw_ok nw \<Longrightarrow> at_path nw segs n \<Longrightarrow> n < length (nw_nodes nw)"
  using walk_range [of "nw_nodes nw" 0 segs n] by (simp add: nw_ok_def)

text \<open>A fresh child: the new node is reached by one path only.\<close>

lemma fresh_child:
  assumes ok: "arena_ok nodes" and p: "p < length nodes" and walk: "walk_nodes nodes 0 segs = Some p"
    and none: "wn_children (nodes ! p) s = None"
    and nodes': "nodes' = (nodes @ [node_default])[p := (nodes ! p)\<lparr>wn_children := (wn_children (nodes ! p))(s \<mapsto> length nodes)\<rparr>]"
  shows "arena_ok nodes'"
    and "walk_nodes nodes' 0 xs = (if xs = segs @ [s] then Some (length nodes) else walk_nodes nodes 0 xs)"
    and "n < length nodes \<Longrightarrow> wn_counts (nodes' ! n) = wn_counts (nodes ! n)"
    and "wn_counts (nodes' ! length nodes) = (\<lambda>_. None)"
proof -
  have ch: "wn_children (nodes' ! k) t =
      (if k = p \<and> t = s then Some (length nodes) else if k = length nodes then None else wn_children (nodes ! k) t)"
    if "k \<le> length nodes" for k t
    using that p by (auto simp: nodes' nth_list_update nth_append node_default_def)
  have len: "length nodes' = Suc (length nodes)" by (simp add: nodes')
  have cases: "wn_children (nodes' ! k) t = Some c \<Longrightarrow> k < length nodes' \<Longrightarrow>
      (k = p \<and> t = s \<and> c = length nodes) \<or> (k < length nodes \<and> wn_children (nodes ! k) t = Some c)" for k t c
    using ch [of k t] by (auto simp: len less_Suc_eq split: if_splits)
  show "arena_ok nodes'"
    unfolding arena_ok_def
  proof (intro conjI allI impI)
    fix i t c assume "i < length nodes'" "wn_children (nodes' ! i) t = Some c"
    then show "i < c" "c < length nodes'" using cases [of i t c] arena_okD(1) [OF ok, of i t c] p by (auto simp: len)
  next
    fix i j t u c
    assume a: "i < length nodes'" "j < length nodes'" "wn_children (nodes' ! i) t = Some c"
      "wn_children (nodes' ! j) u = Some c"
    have "c < length nodes" if "k < length nodes" "wn_children (nodes ! k) t' = Some c" for k t'
      using arena_okD(1) [OF ok that] by simp
    then show "i = j" "t = u"
      using cases [OF a(3,1)] cases [OF a(4,2)] arena_okD(2) [OF ok, of i j t c u] by auto
  qed
  show "wn_counts (nodes' ! n) = wn_counts (nodes ! n)" if "n < length nodes" for n
    using that p by (simp add: nodes' nth_list_update nth_append)
  show "wn_counts (nodes' ! length nodes) = (\<lambda>_. None)"
    using p by (simp add: nodes' nth_list_update nth_append node_default_def)
  have ne: "0 < length nodes" using p by linarith
  show "walk_nodes nodes' 0 xs = (if xs = segs @ [s] then Some (length nodes) else walk_nodes nodes 0 xs)"
  proof (induction xs rule: rev_induct)
    case (snoc t xs)
    show ?case
    proof (cases "xs = segs @ [s]")
      case True
      have "walk_nodes nodes 0 xs = None" using walk none by (simp add: True walk_snoc)
      moreover have "walk_nodes nodes' 0 xs = Some (length nodes)" using snoc True by simp
      moreover have "wn_children (nodes' ! length nodes) t = None" using ch [of "length nodes" t] p by simp
      ultimately show ?thesis using True by (simp only: walk_snoc) simp
    next
      case False
      then have w: "walk_nodes nodes' 0 xs = walk_nodes nodes 0 xs" using snoc by simp
      show ?thesis
      proof (cases "walk_nodes nodes 0 xs")
        case None
        then have "xs \<noteq> segs" using walk by auto
        with None w show ?thesis by (simp add: walk_snoc)
      next
        case (Some k)
        then have k: "k < length nodes" using walk_range [OF ok ne] by blast
        have "k = p \<longleftrightarrow> xs = segs" using walk_inj [OF ok ne] Some walk by fastforce
        then show ?thesis using ch [of k t] k w Some none by (auto simp: walk_snoc)
      qed
    qed
  qed simp
qed

lemma child_facts:
  assumes ok: "nw_ok nw" and at: "at_path nw segs p" and c: "child p s nw = (c, nw')"
  shows "nw_ok nw' \<and> nw_words nw' = nw_words nw \<and> at_path nw' (segs @ [s]) c \<and> view nw' = view nw"
proof (cases "wn_children (nw_nodes nw ! p) s")
  case (Some k)
  then show ?thesis using assms by (auto simp: child_def walk_snoc)
next
  case None
  have p: "p < length (nw_nodes nw)" using at_path_range [OF ok at] .
  let ?nodes' = "(nw_nodes nw @ [node_default])[p := (nw_nodes nw ! p)
      \<lparr>wn_children := (wn_children (nw_nodes nw ! p))(s \<mapsto> length (nw_nodes nw))\<rparr>]"
  have nw': "nw' = nw\<lparr>nw_nodes := ?nodes'\<rparr>" "c = length (nw_nodes nw)"
    using c None p by (auto simp: child_def Let_def nth_append)
  have arena: "arena_ok (nw_nodes nw)" using ok by (simp add: nw_ok_def)
  note fresh = fresh_child [OF arena p _ None refl, of segs]
  have walk: "walk_nodes ?nodes' 0 xs = (if xs = segs @ [s] then Some (length (nw_nodes nw)) else walk_nodes (nw_nodes nw) 0 xs)" for xs
    using fresh(2) at by blast
  have counts: "n < length (nw_nodes nw) \<Longrightarrow> wn_counts (?nodes' ! n) = wn_counts (nw_nodes nw ! n)"
    "wn_counts (?nodes' ! length (nw_nodes nw)) = (\<lambda>_. None)" for n
    using fresh(3,4) at by blast+
  have "counts_ok nw'"
    unfolding counts_ok_def
  proof (intro ballI allI impI)
    fix n i k assume "n \<in> set (nw_nodes nw')" "wn_counts n i = Some k"
    then obtain j where j: "j \<le> length (nw_nodes nw)" "wn_counts (?nodes' ! j) i = Some k"
      by (auto simp: nw' in_set_conv_nth less_Suc_eq_le)
    then have "j < length (nw_nodes nw)" using counts(2) by (cases "j = length (nw_nodes nw)") auto
    then have "nw_nodes nw ! j \<in> set (nw_nodes nw)" "wn_counts (nw_nodes nw ! j) i = Some k"
      using j counts(1) by auto
    then show "i < length (nw_words nw') \<and> 0 < k"
      using ok by (auto simp: nw' nw_ok_def counts_ok_def)
  qed
  moreover have "arena_ok (nw_nodes nw')" using fresh(1) at by (simp add: nw')
  moreover have "view nw' = view nw"
  proof (intro ext)
    fix xs w
    have "walk_nodes (nw_nodes nw) 0 (segs @ [s]) = None" using at None by (simp add: walk_snoc)
    moreover have "k < length (nw_nodes nw)" if "walk_nodes (nw_nodes nw) 0 xs = Some k" for k
      using at_path_range [OF ok] that at by blast
    ultimately show "view nw' xs w = view nw xs w"
      using at counts by (auto simp: view_def nw' walk split: option.splits)
  qed
  ultimately show ?thesis using ok walk [of "segs @ [s]"] by (simp add: nw_ok_def nw')
qed

lemma bump_facts:
  assumes ok: "nw_ok nw" and at: "at_path nw segs n" and w: "map_of (nw_words nw) w = Some i"
  shows "nw_ok (bump n i nw) \<and> nw_words (bump n i nw) = nw_words nw \<and>
         (\<forall>xs m. at_path (bump n i nw) xs m \<longleftrightarrow> at_path nw xs m) \<and>
         view (bump n i nw) xs w' = view nw xs w' + (if xs = segs \<and> w' = w then 1 else 0)"
proof -
  have n: "n < length (nw_nodes nw)" using at_path_range [OF ok at] .
  let ?nodes' = "nw_nodes (bump n i nw)"
  have ch: "wn_children (?nodes' ! k) = wn_children (nw_nodes nw ! k)" for k
    by (cases "k = n") (auto simp: bump_def Let_def nth_list_update n)
  have len: "length ?nodes' = length (nw_nodes nw)" by (simp add: bump_def Let_def)
  have walk: "walk_nodes ?nodes' m xs = walk_nodes (nw_nodes nw) m xs" for m xs
    by (induction "nw_nodes nw" m xs rule: walk_nodes.induct) (auto simp: ch split: option.splits)
  have counts: "wn_counts (?nodes' ! k) j =
      (if k = n \<and> j = i then Some (case wn_counts (nw_nodes nw ! n) i of None \<Rightarrow> 1 | Some c \<Rightarrow> c + 1)
       else wn_counts (nw_nodes nw ! k) j)" for k j
    by (auto simp: bump_def Let_def nth_list_update n)
  have words: "nw_words (bump n i nw) = nw_words nw" by (simp add: bump_def Let_def)
  have i: "i < length (nw_words nw)" using w ok by (auto simp: nw_ok_def words_ok_def dest!: map_of_SomeD)
  have inj: "w' = w" if "map_of (nw_words nw) w' = Some i"
  proof -
    have d: "distinct (map snd (nw_words nw))" using ok by (simp add: nw_ok_def words_ok_def)
    have "(w', i) \<in> set (nw_words nw)" "(w, i) \<in> set (nw_words nw)" using that w by (auto dest: map_of_SomeD)
    moreover have "inj_on snd (set (nw_words nw))" using d by (simp add: distinct_map)
    ultimately have "(w', i) = (w, i)" by (elim inj_onD) simp
    then show ?thesis by simp
  qed
  have "arena_ok ?nodes'" using ok unfolding nw_ok_def arena_ok_def ch len by (elim conjE, intro conjI)
  moreover have "counts_ok (bump n i nw)"
  proof -
    have "\<forall>k < length (nw_nodes nw). \<forall>j c. wn_counts (nw_nodes nw ! k) j = Some c \<longrightarrow> j < length (nw_words nw) \<and> 0 < c"
      using ok nth_mem unfolding nw_ok_def counts_ok_def by blast
    then have "\<forall>k < length ?nodes'. \<forall>j c. wn_counts (?nodes' ! k) j = Some c \<longrightarrow> j < length (nw_words nw) \<and> 0 < c"
      using i by (auto simp: counts len split: option.splits)
    then show ?thesis by (auto simp: counts_ok_def words in_set_conv_nth)
  qed
  moreover have "view (bump n i nw) xs w' = view nw xs w' + (if xs = segs \<and> w' = w then 1 else 0)"
  proof (cases "walk_nodes (nw_nodes nw) 0 xs")
    case None
    then show ?thesis using at len by (auto simp: view_def walk)
  next
    case (Some k)
    have "k = n \<longleftrightarrow> xs = segs"
      using walk_inj [of "nw_nodes nw" 0 xs k segs] Some at ok n by (auto simp: nw_ok_def)
    note k = this
    have ne: "?nodes' \<noteq> []" "nw_nodes nw \<noteq> []" using n len by auto
    show ?thesis
    proof (cases "map_of (nw_words nw) w'")
      case None
      then have "w' \<noteq> w" using w by auto
      with None Some ne show ?thesis by (simp add: view_def walk words)
    next
      case j: (Some j)
      have "j = i \<longleftrightarrow> w' = w" using inj j w by auto
      then show ?thesis using j k Some ne by (auto simp: view_def walk words counts split: option.splits)
    qed
  qed
  moreover have "at_path (bump n i nw) xs m \<longleftrightarrow> at_path nw xs m" for xs m
    using len walk by (metis length_0_conv)
  ultimately show ?thesis using ok words by (simp add: nw_ok_def)
qed

section \<open>The arena counts what the lines say\<close>

text \<open>What recording a line adds: for every space the path of segments before it and the word after it.\<close>

lemma split_once_shorter [termination_simp]: "split_once c s = Some (a, b) \<Longrightarrow> length b < length s"
  by (auto simp: split_once_Some_iff)

function line_counts :: "str list \<Rightarrow> str \<Rightarrow> (str list \<times> str option) list" where
  "line_counts segs rest =
     (case split_once c_space rest of
        None \<Rightarrow> []
      | Some (a, b) \<Rightarrow> (segs @ [a], first_word b) # line_counts (segs @ [a]) b)"
  by pat_completeness auto
termination
  by (relation "measure (length \<circ> snd)") (auto simp: split_once_shorter)

declare line_counts.simps [simp del]

lemma resolves_offsets: "resolves ws xs ys \<Longrightarrow> map fst xs = map fst ys"
  unfolding resolves_def by (induction rule: list_all2_induct) auto

lemma dropWhile_words:
  assumes "c_space \<notin> set a" "resolves ws (word_starts off None (a @ c_space # b)) words"
  shows "resolves ws (word_starts (off + str_len a + 1) None b) (dropWhile (\<lambda>w. fst w \<le> off + str_len a) words)"
proof -
  obtain w1 w2 where words: "words = w1 @ w2" "resolves ws (word_starts off None a) w1"
    "resolves ws (word_starts (off + str_len a + 1) None b) w2"
    using assms(2) unfolding word_starts_space resolves_def by (auto simp: list_all2_append1)
  have "\<forall>x \<in> set w1. fst x \<le> off + str_len a"
  proof
    fix x assume "x \<in> set w1"
    then have "fst x \<in> set (map fst w1)" by simp
    then obtain u where "(fst x, u) \<in> set (word_starts off None a)"
      unfolding resolves_offsets [OF words(2), symmetric] by auto
    then show "fst x \<le> off + str_len a" using word_starts_range [of "fst x" u off None a] by auto
  qed
  moreover have "dropWhile (\<lambda>w. fst w \<le> off + str_len a) w2 = w2"
  proof (cases w2)
    case (Cons x xs)
    then have "fst x \<in> set (map fst w2)" by simp
    then obtain u where "(fst x, u) \<in> set (word_starts (off + str_len a + 1) None b)"
      unfolding resolves_offsets [OF words(3), symmetric] by auto
    then have "off + str_len a < fst x"
      using word_starts_range [of "fst x" u "off + str_len a + 1" None b] by auto
    with Cons show ?thesis by simp
  qed simp
  ultimately show ?thesis using words by (simp add: dropWhile_append2)
qed

lemma slice_segment: "slice (d @ a @ rest) (str_len d) (str_len d + str_len a) = a"
  using str_upto_prefix [of "d @ a" rest] by (simp add: slice_def)

lemma resolves_first:
  "resolves ws (word_starts off None b) words \<Longrightarrow>
   (case words of [] \<Rightarrow> first_word b = None | (_, i) # _ \<Rightarrow> \<exists>w. first_word b = Some w \<and> map_of ws w = Some i)"
  using word_starts_first [of off b, symmetric]
  by (cases "word_starts off None b") (auto simp: resolves_def list_all2_Cons1 split: list.splits prod.splits)

lemma space_loop_facts:
  "command = d @ rest \<Longrightarrow> nw_ok nw \<Longrightarrow> at_path nw segs node \<Longrightarrow>
   resolves (nw_words nw) (word_starts (str_len d) None rest) words \<Longrightarrow>
   nw' = space_loop command node (str_len d) words (space_offsets (str_len d) rest) nw \<Longrightarrow>
   nw_ok nw' \<and> nw_words nw' = nw_words nw \<and> nw_nodes nw' \<noteq> [] \<and>
   view nw' xs w = view nw xs w + count_list (line_counts segs rest) (xs, Some w)"
proof (induction segs rest arbitrary: d nw node words nw' rule: line_counts.induct)
  case (1 segs rest)
  show ?case
  proof (cases "split_once c_space rest")
    case None
    moreover from None have "space_offsets (str_len d) rest = []" by (simp add: split_once_None_iff)
    ultimately show ?thesis using "1.prems" by (simp add: line_counts.simps [of segs rest])
  next
    case (Some ab)
    obtain a b where ab: "ab = (a, b)" by (cases ab)
    then have rest: "rest = a @ c_space # b" "c_space \<notin> set a" using Some by (auto simp: split_once_Some_iff)
    let ?sp = "str_len d + str_len a"
    have offs: "space_offsets (str_len d) rest = ?sp # space_offsets (?sp + 1) b"
      using rest by (simp add: space_offsets_append)
    obtain c nw1 where c: "child node a nw = (c, nw1)" by (cases "child node a nw")
    have child: "nw_ok nw1" "nw_words nw1 = nw_words nw" "at_path nw1 (segs @ [a]) c" "view nw1 = view nw"
      using child_facts [OF "1.prems"(2,3) c] by auto
    define words' where "words' = dropWhile (\<lambda>w. fst w \<le> ?sp) words"
    have words': "resolves (nw_words nw) (word_starts (?sp + 1) None b) words'"
      unfolding words'_def using dropWhile_words "1.prems"(4) rest by blast
    define nw2 where "nw2 = (case words' of [] \<Rightarrow> nw1 | (_, i) # _ \<Rightarrow> bump c i nw1)"
    have nw2: "nw_ok nw2 \<and> nw_words nw2 = nw_words nw \<and> at_path nw2 (segs @ [a]) c \<and>
        view nw2 xs w = view nw xs w + (if (segs @ [a], first_word b) = (xs, Some w) then 1 else 0)"
    proof (cases words')
      case Nil
      then have "first_word b = None" using resolves_first [OF words'] by simp
      with Nil child show ?thesis by (simp add: nw2_def)
    next
      case (Cons x words1)
      then obtain o1 i where x: "x = (o1, i)" by (cases x)
      then obtain u where u: "first_word b = Some u" "map_of (nw_words nw1) u = Some i"
        using resolves_first [OF words'] Cons child(2) by auto
      show ?thesis using bump_facts [OF child(1,3) u(2), of xs w] u child x Cons by (auto simp: nw2_def)
    qed
    have loop: "nw' = space_loop command c (?sp + 1) words' (space_offsets (?sp + 1) b) nw2"
      unfolding "1.prems"(5) offs using "1.prems"(1) c rest(1) slice_segment [of d a "c_space # b"]
      by (simp add: words'_def nw2_def Let_def)
    have d': "str_len (d @ a @ [c_space]) = ?sp + 1" by simp
    have "nw_ok nw' \<and> nw_words nw' = nw_words nw2 \<and> nw_nodes nw' \<noteq> [] \<and>
        view nw' xs w = view nw2 xs w + count_list (line_counts (segs @ [a]) b) (xs, Some w)"
      using "1.IH" [OF Some ab [symmetric], of "d @ a @ [c_space]" nw2 c words' nw'] "1.prems"(1) rest nw2 words' loop d'
      by auto
    then show ?thesis using nw2 Some ab by (auto simp: line_counts.simps [of segs rest])
  qed
qed

lemma line_counts_paths: "(xs, x) \<in> set (line_counts segs rest) \<Longrightarrow> \<exists>q. q \<noteq> [] \<and> xs = segs @ q"
proof (induction segs rest arbitrary: xs x rule: line_counts.induct)
  case (1 segs rest)
  show ?case
  proof (cases "split_once c_space rest")
    case None
    then show ?thesis using "1.prems" by (simp add: line_counts.simps [of segs rest])
  next
    case (Some ab)
    obtain a b where ab: "ab = (a, b)" by (cases ab)
    consider "xs = segs @ [a]" | "(xs, x) \<in> set (line_counts (segs @ [a]) b)"
      using "1.prems" Some ab by (auto simp: line_counts.simps [of segs rest])
    then show ?thesis
    proof cases
      case 2
      then show ?thesis using "1.IH" [OF Some ab [symmetric] 2] by auto
    qed auto
  qed
qed

lemma line_counts_none: "\<nexists>q. q \<noteq> [] \<and> xs = segs @ q \<Longrightarrow> count_list (line_counts segs rest) (xs, x) = 0"
  using line_counts_paths [of xs x segs rest] by (auto simp: count_list_0_iff)

lemma split_prefix_unique:
  fixes c :: rchar
  shows "c \<notin> set a \<Longrightarrow> c \<notin> set a' \<Longrightarrow> a @ c # b = a' @ c # b' \<longleftrightarrow> a = a' \<and> b = b'"
  using split_once_Some_iff [of c "a @ c # b"] by (metis option.inject prod.inject)

lemma line_counts_count:
  "q \<noteq> [] \<Longrightarrow> \<forall>s \<in> set q. c_space \<notin> set s \<Longrightarrow>
   count_list (line_counts segs rest) (segs @ q, Some w) =
     (if \<exists>b. rest = str_join [c_space] q @ [c_space] @ b \<and> first_word b = Some w then 1 else 0)"
proof (induction segs rest arbitrary: q rule: line_counts.induct)
  case (1 segs rest)
  obtain a' q' where q: "q = a' # q'" using "1.prems"(1) by (cases q) auto
  have a': "c_space \<notin> set a'" using "1.prems"(2) q by simp
  show ?case
  proof (cases "split_once c_space rest")
    case None
    then have "c_space \<notin> set rest" by (simp add: split_once_None_iff)
    with None show ?thesis by (auto simp: line_counts.simps [of segs rest])
  next
    case (Some ab)
    obtain a b where ab: "ab = (a, b)" by (cases ab)
    then have rest: "rest = a @ c_space # b" "c_space \<notin> set a" using Some by (auto simp: split_once_Some_iff)
    have unfold: "line_counts segs rest = (segs @ [a], first_word b) # line_counts (segs @ [a]) b"
      using Some ab by (simp add: line_counts.simps [of segs rest])
    show ?thesis
    proof (cases "q' = []")
      case True
      have "count_list (line_counts (segs @ [a]) b) (segs @ [a'], Some w) = 0"
        by (rule line_counts_none) auto
      moreover have "(\<exists>b'. rest = a' @ [c_space] @ b' \<and> first_word b' = Some w) \<longleftrightarrow> a = a' \<and> first_word b = Some w"
        using rest a' by (auto simp: split_prefix_unique)
      ultimately show ?thesis unfolding unfold using True q by auto
    next
      case False
      have join: "str_join [c_space] q = a' @ [c_space] @ str_join [c_space] q'"
        using False q by (cases q') auto
      have iff: "(\<exists>b'. rest = str_join [c_space] q @ [c_space] @ b' \<and> first_word b' = Some w) \<longleftrightarrow>
          a = a' \<and> (\<exists>b'. b = str_join [c_space] q' @ [c_space] @ b' \<and> first_word b' = Some w)"
        using rest a' by (auto simp: join split_prefix_unique)
      have head: "(segs @ [a], first_word b) \<noteq> (segs @ q, Some w)" using False q by auto
      show ?thesis
      proof (cases "a = a'")
        case True
        have "count_list (line_counts (segs @ [a]) b) ((segs @ [a]) @ q', Some w) =
            (if \<exists>b'. b = str_join [c_space] q' @ [c_space] @ b' \<and> first_word b' = Some w then 1 else 0)"
          using False "1.prems"(2) q by (intro "1.IH" [OF Some ab [symmetric]]) auto
        then show ?thesis unfolding unfold iff using True q head False by simp
      next
        case neq: False
        have "count_list (line_counts (segs @ [a]) b) (segs @ q, Some w) = 0"
          using neq q by (intro line_counts_none) auto
        then show ?thesis unfolding unfold iff using neq head by simp
      qed
    qed
  qed
qed

lemma record_line_facts:
  assumes "nw_ok nw"
  shows "nw_ok (record_line line nw) \<and>
    view (record_line line nw) xs w = view nw xs w + (if xs = [] \<and> first_word line = Some w then 1 else 0) +
      count_list (line_counts [] line) (xs, Some w)"
proof -
  obtain nw1 words spaces where scan: "scan_line nw 0 None line = (nw1, words, spaces)"
    by (cases "scan_line nw 0 None line") auto
  have nw1: "nw_ok nw1" "view nw1 = view nw" "spaces = space_offsets 0 line"
    "resolves (nw_words nw1) (word_starts 0 None line) words"
    using scan_line_facts [OF assms scan] by (auto simp: extends_words_def)
  define nw2 where "nw2 = (if nw_nodes nw1 = [] then nw1\<lparr>nw_nodes := [node_default]\<rparr> else nw1)"
  have nw2: "nw_ok nw2" "nw_words nw2 = nw_words nw1" "at_path nw2 [] 0"
  proof (atomize (full), cases "nw_nodes nw1 = []")
    case True
    have "arena_ok [node_default]" by (simp add: arena_ok_def node_default_def)
    moreover have "counts_ok nw2" using True by (simp add: nw2_def counts_ok_def node_default_def)
    ultimately show "nw_ok nw2 \<and> nw_words nw2 = nw_words nw1 \<and> at_path nw2 [] 0"
      using nw1(1) True by (simp add: nw2_def nw_ok_def)
  next
    case False
    then show "nw_ok nw2 \<and> nw_words nw2 = nw_words nw1 \<and> at_path nw2 [] 0"
      using nw1(1) by (simp add: nw2_def)
  qed
  have "view nw2 xs w = view nw1 xs w"
    by (cases xs) (auto simp: nw2_def view_def node_default_def split: option.splits)
  define nw3 where "nw3 = (case words of [] \<Rightarrow> nw2 | (_, i) # _ \<Rightarrow> bump 0 i nw2)"
  have nw3: "nw_ok nw3 \<and> nw_words nw3 = nw_words nw1 \<and> at_path nw3 [] 0 \<and>
      view nw3 xs w = view nw xs w + (if xs = [] \<and> first_word line = Some w then 1 else 0)"
  proof (cases words)
    case Nil
    then have "first_word line = None" using resolves_first [OF nw1(4)] by simp
    with Nil nw2 nw1 \<open>view nw2 xs w = view nw1 xs w\<close> show ?thesis by (simp add: nw3_def)
  next
    case (Cons x words1)
    then obtain o1 i where x: "x = (o1, i)" by (cases x)
    then obtain u where u: "first_word line = Some u" "map_of (nw_words nw2) u = Some i"
      using resolves_first [OF nw1(4)] Cons nw2(2) by auto
    note bump = bump_facts [OF nw2(1,3) u(2), of xs w]
    have nw3: "nw3 = bump 0 i nw2" using x Cons by (simp add: nw3_def)
    have "at_path nw3 [] 0" using bump nw2(3) nw3 by blast
    moreover have "(if xs = [] \<and> w = u then 1 else 0) = (if xs = [] \<and> first_word line = Some w then 1 else (0::nat))"
      using u(1) by auto
    ultimately show ?thesis using bump nw2(2) nw1(2) nw3 \<open>view nw2 xs w = view nw1 xs w\<close> by auto
  qed
  have "record_line line nw = space_loop line 0 (str_len []) words (space_offsets (str_len []) line) nw3"
    unfolding nw3_def nw2_def by (simp add: record_line_def scan nw1(3) Let_def)
  then show ?thesis
    using space_loop_facts [of line "[]" line nw3 "[]" 0 words "record_line line nw" xs w] nw3 nw1(4) by auto
qed

lemma line_increment:
  "(if prefix_segments p = [] \<and> first_word line = Some w then 1 else 0) +
     count_list (line_counts [] line) (prefix_segments p, Some w) =
   (if line_next_word p line = Some w then 1 else 0)"
proof (cases "p = []")
  case True
  then show ?thesis using line_counts_none [of "[]" "[]" line "Some w"]
    by (simp add: prefix_segments_def line_next_word_def)
next
  case False
  have "count_list (line_counts [] line) ([] @ split_char c_space p, Some w) =
      (if \<exists>b. line = str_join [c_space] (split_char c_space p) @ [c_space] @ b \<and> first_word b = Some w then 1 else 0)"
    by (rule line_counts_count) (auto dest: split_char_no_sep)
  moreover have "line_next_word p line = Some w \<longleftrightarrow> (\<exists>b. line = p @ [c_space] @ b \<and> first_word b = Some w)"
  proof (cases "strip_prefix (p @ [c_space]) line")
    case None
    then have "line \<noteq> p @ [c_space] @ b" for b
      using strip_prefix_Some_iff [of "p @ [c_space]" line b] by auto
    with None False show ?thesis by (auto simp: line_next_word_def)
  next
    case (Some b)
    then have "line = (p @ [c_space]) @ b" by (simp add: strip_prefix_Some_iff)
    with Some False show ?thesis by (auto simp: line_next_word_def)
  qed
  ultimately show ?thesis using False by (simp add: prefix_segments_def join_split_char)
qed

lemma from_commands_view:
  "nw_ok (fr_next_words (from_commands cmds)) \<and>
   view (fr_next_words (from_commands cmds)) (prefix_segments p) w =
     next_word_ref (fr_lines (from_commands cmds)) p w"
proof (induction cmds rule: rev_induct)
  case Nil
  then show ?case
    by (simp add: from_commands_def next_words_default_def nw_ok_def arena_ok_def words_ok_def counts_ok_def
        view_def next_word_ref_def)
next
  case (snoc cmd cmds)
  have step: "from_commands (cmds @ [cmd]) = add_command (fst cmd) (from_commands cmds)"
    by (simp add: from_commands_def case_prod_unfold)
  show ?case
  proof (cases "trim (fst cmd) = []")
    case True
    then show ?thesis using snoc by (simp add: step add_command_def)
  next
    case False
    then show ?thesis
      using record_line_facts [of "fr_next_words (from_commands cmds)" "trim (fst cmd)" "prefix_segments p" w]
        snoc line_increment [of p "trim (fst cmd)" w]
      by (auto simp: step add_command_def next_word_ref_def Let_def)
  qed
qed

text \<open>
  Property C11. The word arena against its specification: for every prefix, with whatever spacing, and
  every word, the count the arena answers is the number of history lines that continue the prefix and
  a space with that word, and it answers nothing exactly when there is no such line.
\<close>

theorem next_word_counts_refine:
  "next_word_counts (from_commands cmds) p w =
     (let n = next_word_ref (fr_lines (from_commands cmds)) p w in if n = 0 then None else Some n)"
  using from_commands_view [of cmds p w] counts_get_view [of "fr_next_words (from_commands cmds)" p w]
  by (simp add: next_word_counts_def Let_def)

end
