(* ===== verification/Option_Parse.thy ===== *)
theory Option_Parse
  imports Fig_Spec Shell_Tokens
begin

text \<open>
  Option tokens (\<open>lookup.rs\<close>, lines 740--830 and 1593--1842): which tokens may be options, how a
  token names an option of the spec or one inherited from a parent, short option chains such as
  \<open>-am\<close>, and values attached to an option. A byte offset into a token, always the end of some
  characters already read, is represented by the text before and after it.
\<close>

section \<open>Parser state of an option argument\<close>

record option_arg_state =
  oa_option :: option_spec
  oa_arg :: arg_spec
  oa_count :: nat

definition merge_parser_directives :: "parser_directives \<Rightarrow> spec \<Rightarrow> parser_directives" where
  "merge_parser_directives parent spec =
     (let child = sf_parser_directives (sp_fields spec)
      in \<lparr>pd_options_must_precede_arguments =
            or_else (Option.bind child pd_options_must_precede_arguments) (pd_options_must_precede_arguments parent),
          pd_flags_are_posix_noncompliant =
            or_else (Option.bind child pd_flags_are_posix_noncompliant) (pd_flags_are_posix_noncompliant parent),
          pd_option_arg_separators =
            or_else (Option.bind child pd_option_arg_separators) (pd_option_arg_separators parent),
          pd_alias = or_else (Option.bind child pd_alias) (pd_alias parent),
          pd_js_alias = or_else (Option.bind child pd_js_alias) (pd_js_alias parent)\<rparr>)"

definition inherit_subcommand_directives :: "parser_directives \<Rightarrow> spec \<Rightarrow> parser_directives" where
  "inherit_subcommand_directives parent spec = unwrap_or parent (sf_parser_directives (sp_fields spec))"

definition options_can_break_variadic_arg :: "arg_spec \<Rightarrow> bool" where
  "options_can_break_variadic_arg arg \<longleftrightarrow> af_options_can_break_variadic_arg (ar_fields arg) \<noteq> Some False"

definition can_consume_subcommands :: "option_arg_state option \<Rightarrow> bool \<Rightarrow> bool" where
  "can_consume_subcommands option_arg entered_args \<longleftrightarrow>
     \<not> (case option_arg of
          Some st \<Rightarrow> ar_is_variadic (oa_arg st) \<or> \<not> ar_is_optional (oa_arg st)
        | None \<Rightarrow> False) \<and> \<not> entered_args"

definition can_consume_options ::
  "parser_directives \<Rightarrow> bool \<Rightarrow> bool \<Rightarrow> option_arg_state option \<Rightarrow> arg_spec option \<Rightarrow> nat \<Rightarrow> bool" where
  "can_consume_options directives after_double_dash entered_args option_arg subcommand_arg variadic_count =
     (if after_double_dash then False
      else if pd_options_must_precede_arguments directives = Some True \<and> entered_args then False
      else case option_arg of
        Some st \<Rightarrow>
          (if ar_is_variadic (oa_arg st) \<or> \<not> ar_is_optional (oa_arg st)
           then ar_is_variadic (oa_arg st) \<and> oa_count st > 0 \<and> options_can_break_variadic_arg (oa_arg st)
           else \<not> (case subcommand_arg of
                     Some arg \<Rightarrow> ar_is_variadic arg \<and> variadic_count > 0 \<and> \<not> options_can_break_variadic_arg arg
                   | None \<Rightarrow> False))
      | None \<Rightarrow>
          \<not> (case subcommand_arg of
               Some arg \<Rightarrow> ar_is_variadic arg \<and> variadic_count > 0 \<and> \<not> options_can_break_variadic_arg arg
             | None \<Rightarrow> False))"

text \<open>An argument with nothing to say is no slot, unless it is variadic.\<close>

definition placeholder_arg :: "arg_spec \<Rightarrow> bool" where
  "placeholder_arg arg \<longleftrightarrow>
     (let f = ar_fields arg
      in af_name f = [] \<and> af_description f = [] \<and> af_builtin f = None \<and> af_builtins f = [] \<and>
         af_script f = [] \<and> af_templates f = [] \<and> af_suggestions f = [] \<and> af_generators f = [] \<and>
         af_js_custom f = None \<and> af_js_script f = None \<and> af_js_post_process f = None \<and>
         af_js_load_spec f = None \<and> \<not> af_is_command f \<and> \<not> af_is_script f \<and> af_is_module f = None)"

definition positional_arg :: "arg_spec list \<Rightarrow> nat \<Rightarrow> arg_spec option" where
  "positional_arg args index =
     (case (if index < length args then Some (args ! index)
            else if args \<noteq> [] \<and> ar_is_variadic (last args) then Some (last args) else None) of
        None \<Rightarrow> None
      | Some arg \<Rightarrow> (if placeholder_arg arg then if ar_is_variadic arg then Some arg else None else Some arg))"

section \<open>Options in scope\<close>

definition options_are_equal :: "option_spec \<Rightarrow> option_spec \<Rightarrow> bool" where
  "options_are_equal a b \<longleftrightarrow> list_ex (\<lambda>name. list_ex (\<lambda>candidate. candidate = name) (op_names b)) (op_names a)"

definition merge_persistent_options :: "option_spec list \<Rightarrow> spec \<Rightarrow> option_spec list" where
  "merge_persistent_options parent spec =
     fold (\<lambda>opt. upsert (\<lambda>existing. options_are_equal existing opt) opt) (sp_persistent_options spec) parent"

definition is_separator :: "parser_directives \<Rightarrow> rchar \<Rightarrow> bool" where
  "is_separator directives character \<longleftrightarrow>
     (case pd_option_arg_separators directives of
        None \<Rightarrow> character = c_eq
      | Some separators \<Rightarrow>
          list_ex (\<lambda>separator. length separator = 1 \<and> starts_with_char separator character) separators)"

text \<open>The first separator of a token, with the text before and after it.\<close>

fun separator_at :: "parser_directives \<Rightarrow> str \<Rightarrow> (str \<times> rchar \<times> str) option" where
  "separator_at directives [] = None"
| "separator_at directives (c # cs) =
     (if is_separator directives c then Some ([], c, cs)
      else case separator_at directives cs of
        None \<Rightarrow> None
      | Some (before, sep, after) \<Rightarrow> Some (c # before, sep, after))"

definition named_option :: "option_spec list \<Rightarrow> str \<Rightarrow> option_spec option" where
  "named_option options name = find (\<lambda>opt. name \<in> set (op_names opt)) options"

definition find_option_in ::
  "spec \<Rightarrow> option_spec list \<Rightarrow> str \<Rightarrow> parser_directives \<Rightarrow> option_spec option" where
  "find_option_in spec persistent token directives =
     (let option_name = (case separator_at directives token of Some (before, _) \<Rightarrow> before | None \<Rightarrow> token)
      in or_else (named_option (sp_options spec) option_name) (named_option persistent option_name))"

definition short_option_name :: "option_spec \<Rightarrow> str option" where
  "short_option_name opt =
     find_map (\<lambda>name. case strip_prefix [c_dash] name of
         None \<Rightarrow> None
       | Some rest \<Rightarrow> (if \<not> starts_with_char rest c_dash \<and> length rest = 1 then Some name else None))
       (op_names opt)"

definition is_short_name :: "rchar \<Rightarrow> str \<Rightarrow> bool" where
  "is_short_name letter name \<longleftrightarrow>
     (case strip_prefix [c_dash] name of
        None \<Rightarrow> False
      | Some rest \<Rightarrow> \<not> starts_with_char rest c_dash \<and> rest = [letter])"

definition find_short_option_in :: "spec \<Rightarrow> option_spec list \<Rightarrow> rchar \<Rightarrow> option_spec option" where
  "find_short_option_in spec persistent letter =
     find (\<lambda>opt. list_ex (is_short_name letter) (op_names opt)) (sp_options spec @ persistent)"

section \<open>Short option chains\<close>

record short_option_chain =
  sc_option :: option_spec
  sc_prefix :: str
  sc_attached_value :: "str option"

definition mandatory_arg :: "option_spec \<Rightarrow> bool" where
  "mandatory_arg opt \<longleftrightarrow> (case op_args opt of [] \<Rightarrow> False | arg # _ \<Rightarrow> \<not> ar_is_optional arg)"

text \<open>The loop over the letters after the dash: \<open>read\<close> is \<open>&token[..end]\<close>, the last argument
  \<open>&token[end..]\<close>.\<close>

fun chain_loop ::
  "spec \<Rightarrow> option_spec list \<Rightarrow> str \<Rightarrow> option_spec option \<Rightarrow> str \<Rightarrow> short_option_chain option" where
  "chain_loop spec persistent read seen [] =
     map_option (\<lambda>opt. \<lparr>sc_option = opt, sc_prefix = read, sc_attached_value = None\<rparr>) seen"
| "chain_loop spec persistent read seen (letter # remainder) =
     (case find_short_option_in spec persistent letter of
        None \<Rightarrow> None
      | Some opt \<Rightarrow>
          (if op_args opt = [] \<or> remainder = []
           then chain_loop spec persistent (read @ [letter]) (Some opt) remainder
           else if mandatory_arg opt \<or> starts_with_char remainder c_eq \<or>
             find_short_option_in spec persistent (hd remainder) = None
           then Some \<lparr>sc_option = opt, sc_prefix = read @ [letter],
                      sc_attached_value = Some (unwrap_or remainder (strip_prefix [c_eq] remainder))\<rparr>
           else chain_loop spec persistent (read @ [letter]) (Some opt) remainder))"

definition parse_short_option_chain ::
  "spec \<Rightarrow> option_spec list \<Rightarrow> str \<Rightarrow> parser_directives \<Rightarrow> short_option_chain option" where
  "parse_short_option_chain spec persistent token directives =
     (if pd_flags_are_posix_noncompliant directives = Some True \<or> \<not> starts_with_char token c_dash \<or>
         starts_with token [c_dash, c_dash] \<or> length (tl token) < 2
      then None
      else chain_loop spec persistent [c_dash] None (tl token))"

section \<open>Resolution of an option token\<close>

record resolved_option_token =
  ro_option :: option_spec
  ro_attached_value :: "str option"
  ro_attached_separator :: "rchar option"
  ro_chain :: "short_option_chain option"

definition resolve_exact ::
  "spec \<Rightarrow> option_spec list \<Rightarrow> str \<Rightarrow> parser_directives \<Rightarrow> resolved_option_token option" where
  "resolve_exact spec persistent token directives =
     (case find_option_in spec persistent token directives of
        None \<Rightarrow> None
      | Some opt \<Rightarrow>
          (let attached = separator_at directives token
           in Some \<lparr>ro_option = opt,
                    ro_attached_value =
                      (if op_args opt = [] then None else map_option (\<lambda>(_, _, after). after) attached),
                    ro_attached_separator =
                      (if op_args opt = [] then None else map_option (\<lambda>(_, sep, _). sep) attached),
                    ro_chain = None\<rparr>))"

definition resolve_option_token_with_persistent ::
  "spec \<Rightarrow> option_spec list \<Rightarrow> str \<Rightarrow> parser_directives \<Rightarrow> resolved_option_token option" where
  "resolve_option_token_with_persistent spec persistent token directives =
     (let long_form = (pd_flags_are_posix_noncompliant directives = Some True \<or> starts_with token [c_dash, c_dash])
      in if \<not> long_form \<and> starts_with_char token c_dash \<and> str_len token > 1 \<and> length (tl token) \<ge> 2
         then case parse_short_option_chain spec persistent token directives of
                Some chain \<Rightarrow>
                  Some \<lparr>ro_option = sc_option chain, ro_attached_value = sc_attached_value chain,
                        ro_attached_separator = None, ro_chain = Some chain\<rparr>
              | None \<Rightarrow> resolve_exact spec persistent token directives
         else resolve_exact spec persistent token directives)"

fun option_letters :: "spec \<Rightarrow> option_spec list \<Rightarrow> parser_directives \<Rightarrow> str \<Rightarrow> option_spec list" where
  "option_letters spec persistent directives [] = []"
| "option_letters spec persistent directives (letter # remainder) =
     (case find_short_option_in spec persistent letter of
        None \<Rightarrow> []
      | Some opt \<Rightarrow>
          opt # (if mandatory_arg opt \<or> separator_at directives remainder \<noteq> None \<or>
                    (remainder \<noteq> [] \<and> find_short_option_in spec persistent (hd remainder) = None)
                 then [] else option_letters spec persistent directives remainder))"

definition options_in_token ::
  "spec \<Rightarrow> option_spec list \<Rightarrow> str \<Rightarrow> parser_directives \<Rightarrow> option_spec list" where
  "options_in_token spec persistent token directives =
     (if token = [c_dash, c_dash] \<or> \<not> starts_with_char token c_dash then []
      else if starts_with token [c_dash, c_dash] \<or> pd_flags_are_posix_noncompliant directives = Some True
      then (case find_option_in spec persistent token directives of None \<Rightarrow> [] | Some opt \<Rightarrow> [opt])
      else option_letters spec persistent directives (tl token))"

definition attached_search_term :: "str \<Rightarrow> resolved_option_token \<Rightarrow> str \<Rightarrow> str" where
  "attached_search_term raw_query resolved fallback =
     (case ro_chain resolved of
        Some chain \<Rightarrow>
          (case strip_prefix (sc_prefix chain) raw_query of
             None \<Rightarrow> fallback
           | Some v \<Rightarrow> unwrap_or v (strip_prefix [c_eq] v))
      | None \<Rightarrow>
          (case ro_attached_separator resolved of
             None \<Rightarrow> fallback
           | Some sep \<Rightarrow> (case split_once sep raw_query of None \<Rightarrow> fallback | Some (_, after) \<Rightarrow> after)))"

definition should_consume_option_value :: "spec \<Rightarrow> option_spec \<Rightarrow> str \<Rightarrow> bool" where
  "should_consume_option_value spec opt next \<longleftrightarrow>
     (if next = [c_dash, c_dash] \<or> starts_with_char next c_dash then False
      else if mandatory_arg opt then True
      else find_subcommand spec next = None)"

interpretation persistent_overlay: overlay "\<lambda>opt existing. options_are_equal existing opt"
  "\<lambda>parent options. merge_persistent_options parent (Spec f subs opts options args ls)"
  for f subs opts args ls
  by unfold_locales (simp add: merge_persistent_options_def)

section \<open>Separators and attached values\<close>

lemma separator_at_Some_iff:
  "separator_at directives s = Some (before, sep, after) \<longleftrightarrow>
     s = before @ sep # after \<and> is_separator directives sep \<and> (\<forall>c \<in> set before. \<not> is_separator directives c)"
proof (induction s arbitrary: before)
  case (Cons c s)
  show ?case
    by (cases before) (use Cons.IH [of "tl before"] in \<open>auto split: option.splits prod.splits\<close>)
qed simp

lemma separator_at_None_iff:
  "separator_at directives s = None \<longleftrightarrow> (\<forall>c \<in> set s. \<not> is_separator directives c)"
  by (induction s) (auto split: option.splits)

lemma long_form_resolves_exactly:
  "pd_flags_are_posix_noncompliant directives = Some True \<or> starts_with token [c_dash, c_dash] \<Longrightarrow>
     resolve_option_token_with_persistent spec persistent token directives =
     resolve_exact spec persistent token directives"
  by (auto simp: resolve_option_token_with_persistent_def)

text \<open>
  A value attached to a long option comes back whole. Let \<open>opt\<close> be the option in scope
  under the name \<open>n\<close> (an option of the spec itself before an inherited one), taking an argument, and
  \<open>n\<close> a long name, or the directives noncompliant ones. Then the token made of \<open>n\<close>, any separator the
  directives allow and any value \<open>v\<close> resolves to \<open>opt\<close> with the attached value \<open>v\<close>, and the search
  term of the raw, still quoted, query is what follows its first separator.
\<close>

theorem attached_value_roundtrip:
  assumes "or_else (named_option (sp_options spec) n) (named_option persistent n) = Some opt"
    and "op_args opt \<noteq> []"
    and "pd_flags_are_posix_noncompliant directives = Some True \<or> starts_with n [c_dash, c_dash]"
    and "\<forall>c \<in> set n. \<not> is_separator directives c"
    and "is_separator directives sep"
    and "sep \<notin> set raw_name"
  shows "\<exists>r. resolve_option_token_with_persistent spec persistent (n @ sep # v) directives = Some r \<and>
           ro_option r = opt \<and> ro_attached_value r = Some v \<and>
           attached_search_term (raw_name @ sep # raw_value) r v = raw_value"
proof -
  have at: "separator_at directives (n @ sep # v) = Some (n, sep, v)"
    using assms(4,5) by (simp add: separator_at_Some_iff)
  have raw: "split_once sep (raw_name @ sep # raw_value) = Some (raw_name, raw_value)"
    using assms(6) by (simp add: split_once_Some_iff)
  have "starts_with (n @ sep # v) [c_dash, c_dash]" if "starts_with n [c_dash, c_dash]"
    using that by (auto simp: starts_with_iff)
  then have "resolve_option_token_with_persistent spec persistent (n @ sep # v) directives =
      resolve_exact spec persistent (n @ sep # v) directives"
    using assms(3) by (intro long_form_resolves_exactly) blast
  then show ?thesis
    using assms(1,2) by (simp add: resolve_exact_def find_option_in_def at raw attached_search_term_def Let_def)
qed

definition sample_option :: "string list \<Rightarrow> arg_spec list \<Rightarrow> option_spec" where
  "sample_option names args = OptionSpec (option_fields_default\<lparr>of_names := map lit names\<rparr>) args None"

definition sample_spec :: "option_spec list \<Rightarrow> arg_spec list \<Rightarrow> spec" where
  "sample_spec options args = Spec (spec_fields_default\<lparr>sf_names := [lit ''tool'']\<rparr>) [] options [] args None"

lemmas sample_defs = sample_option_def sample_spec_def spec_defaults

theorem attached_value_roundtrip_witness:
  "\<exists>r. resolve_option_token_with_persistent (sample_spec [sample_option [''--file''] [arg_default]] []) []
         (lit ''--file'' @ c_eq # lit ''a=b'') directives_default = Some r \<and>
       ro_option r = sample_option [''--file''] [arg_default] \<and> ro_attached_value r = Some (lit ''a=b'') \<and>
       attached_search_term (lit ''--fi\"le\"'' @ c_eq # lit ''\"a=b\"'') r (lit ''a=b'') = lit ''\"a=b\"''"
  by (rule attached_value_roundtrip)
    (simp_all add: sample_defs named_option_def or_else_def starts_with_def is_separator_def)

section \<open>Letters of a short option chain\<close>

lemma chain_loop_letters:
  assumes "chain_loop spec persistent read seen s = Some chain" and "s \<noteq> []"
    and "\<forall>c \<in> set s. c \<noteq> c_eq \<and> \<not> is_separator directives c"
  shows "\<exists>letters rest. s = letters @ rest \<and> letters \<noteq> [] \<and> sc_prefix chain = read @ letters \<and>
     map (find_short_option_in spec persistent) letters = map Some (option_letters spec persistent directives s) \<and>
     sc_option chain = last (option_letters spec persistent directives s) \<and>
     sc_attached_value chain = (if rest = [] then None else Some rest)"
  using assms
proof (induction s arbitrary: read seen)
  case (Cons letter s)
  let ?find = "find_short_option_in spec persistent" and ?letters = "option_letters spec persistent directives"
  obtain opt where opt: "?find letter = Some opt" using Cons.prems(1) by (auto split: option.splits)
  have sep: "separator_at directives s = None" using Cons.prems(3) by (simp add: separator_at_None_iff)
  have no_eq: "\<not> starts_with_char s c_eq" "strip_prefix [c_eq] s = None"
    using Cons.prems(3) by (cases s; simp add: starts_with_char_def strip_prefix_def starts_with_def)+
  consider (single) "s = []"
    | (attached) "s \<noteq> []" "op_args opt \<noteq> []" "mandatory_arg opt \<or> ?find (hd s) = None"
    | (more) "s \<noteq> []" "op_args opt = [] \<or> \<not> (mandatory_arg opt \<or> ?find (hd s) = None)"
    by argo
  then show ?case
  proof cases
    case single
    with Cons.prems(1) opt show ?thesis by (intro exI [of _ "[letter]"] exI [of _ "[]"]) auto
  next
    case attached
    with Cons.prems(1) opt no_eq
    have "chain = \<lparr>sc_option = opt, sc_prefix = read @ [letter], sc_attached_value = Some s\<rparr>"
      by (auto simp: unwrap_or_def)
    moreover have "?letters (letter # s) = [opt]" using attached opt by auto
    ultimately show ?thesis using attached(1) opt by (intro exI [of _ "[letter]"] exI [of _ s]) simp
  next
    case more
    then have rec: "chain_loop spec persistent (read @ [letter]) (Some opt) s = Some chain"
      using Cons.prems(1) opt no_eq by (auto split: if_splits)
    with more(1) have "?find (hd s) \<noteq> None" by (cases s) (auto split: option.splits)
    moreover have "\<not> mandatory_arg opt" using more(2) by (auto simp: mandatory_arg_def)
    ultimately have "?letters (letter # s) = opt # ?letters s" using opt sep by auto
    moreover have "?letters s \<noteq> []" using \<open>?find (hd s) \<noteq> None\<close> more(1) by (cases s) auto
    moreover from Cons.IH [OF rec more(1)] Cons.prems(3) obtain letters rest where
      "s = letters @ rest" "sc_prefix chain = (read @ [letter]) @ letters" "letters \<noteq> []"
      "map ?find letters = map Some (?letters s)" "sc_option chain = last (?letters s)"
      "sc_attached_value chain = (if rest = [] then None else Some rest)" by auto
    ultimately show ?thesis using opt by (intro exI [of _ "letter # letters"] exI [of _ rest]) simp
  qed
qed simp

text \<open>
  What a chain of short options is resolved to and the options it counts as passed
  agree: in a token without \<open>=\<close> and without a separator, a chain that parses splits the token into the
  dash, its letters and the rest; the options counted as passed are those of the letters, one for
  each, the resolved option is the last of them, and the rest is its attached value.
\<close>

theorem chain_counts_every_letter:
  assumes "parse_short_option_chain spec persistent token directives = Some chain"
    and "\<forall>c \<in> set (tl token). c \<noteq> c_eq \<and> \<not> is_separator directives c"
  shows "\<exists>letters rest. token = c_dash # letters @ rest \<and> letters \<noteq> [] \<and> sc_prefix chain = c_dash # letters \<and>
     map (find_short_option_in spec persistent) letters =
       map Some (options_in_token spec persistent token directives) \<and>
     sc_option chain = last (options_in_token spec persistent token directives) \<and>
     sc_attached_value chain = (if rest = [] then None else Some rest)"
proof -
  have token: "token = c_dash # tl token" "tl token \<noteq> []" "\<not> starts_with token [c_dash, c_dash]"
      "pd_flags_are_posix_noncompliant directives \<noteq> Some True"
      "chain_loop spec persistent [c_dash] None (tl token) = Some chain"
    using assms(1) by (auto simp: parse_short_option_chain_def starts_with_char_def split: if_splits list.splits)
  then have "options_in_token spec persistent token directives = option_letters spec persistent directives (tl token)"
    by (auto simp: options_in_token_def starts_with_char_def starts_with_def split: list.splits)
  with chain_loop_letters [OF token(5,2) assms(2)] show ?thesis using token(1) by (metis append_Cons append_Nil)
qed

theorem chain_counts_every_letter_witness:
  "let spec = sample_spec [sample_option [''-a''] [], sample_option [''-m''] [arg_default]] [];
       token = lit ''-amfix''
   in \<exists>letters rest. token = c_dash # letters @ rest \<and> letters \<noteq> [] \<and> lit ''-am'' = c_dash # letters \<and>
     map (find_short_option_in spec []) letters = map Some (options_in_token spec [] token directives_default) \<and>
     sample_option [''-m''] [arg_default] = last (options_in_token spec [] token directives_default) \<and>
     Some (lit ''fix'') = (if rest = [] then None else Some rest)"
  unfolding Let_def
  by (rule chain_counts_every_letter [where chain =
        "\<lparr>sc_option = sample_option [''-m''] [arg_default], sc_prefix = lit ''-am'', sc_attached_value = Some (lit ''fix'')\<rparr>",
        simplified short_option_chain.simps])
    (simp_all add: sample_defs parse_short_option_chain_def find_short_option_in_def is_short_name_def
      strip_prefix_def starts_with_def starts_with_char_def mandatory_arg_def is_separator_def unwrap_or_def)

text \<open>
  With an attached value the two part company: for the flags \<open>-a\<close>, \<open>-b\<close> and the option
  \<open>-c\<close> with an argument, the token \<open>-abc=x\<close> resolves to \<open>-c\<close> with the value \<open>x\<close>, but only \<open>-a\<close> is
  counted as passed, because the scan stops at a letter when a separator occurs anywhere after it.
\<close>

lemma chain_with_value_counts_one_letter:
  "let a = sample_option [''-a''] []; b = sample_option [''-b''] []; c = sample_option [''-c''] [arg_default];
       spec = sample_spec [a, b, c] []; token = lit ''-abc=x''
   in map_option (\<lambda>r. (ro_option r, ro_attached_value r))
        (resolve_option_token_with_persistent spec [] token directives_default) = Some (c, Some (lit ''x'')) \<and>
      options_in_token spec [] token directives_default = [a]"
  by (simp add: sample_defs resolve_option_token_with_persistent_def parse_short_option_chain_def
      find_short_option_in_def is_short_name_def strip_prefix_def starts_with_def starts_with_char_def
      mandatory_arg_def is_separator_def unwrap_or_def options_in_token_def Let_def)

end
