(* ===== verification/Walk.thy ===== *)
theory Walk
  imports Option_Parse Suggestion "HOL-Library.While_Combinator"
begin

text \<open>
  The spec walker (\<open>lookup.rs\<close>, \<open>walk_spec\<close> and its helpers, lines 832--1385) and the recorder it
  fills (\<open>history.rs\<close>, \<open>WalkTrace\<close>). The walk is a loop over the tokens; its body is \<open>walk_step\<close> on
  a record of the loop's variables, and the loop is \<open>while_option\<close>, so that a walk that does not end
  is \<open>None\<close>.
\<close>

section \<open>The recorder\<close>

record arg_slot =
  sl_root :: str
  sl_path :: "str list"
  sl_option :: "str option"
  sl_index :: nat

definition primary_name :: "str list \<Rightarrow> str" where
  "primary_name names = unwrap_or [] (find (\<lambda>name. name \<noteq> []) names)"

record walk_trace =
  tr_root :: str
  tr_path :: "str list"
  tr_values :: "(arg_slot \<times> str) list"
  tr_current :: "arg_slot list"

definition trace_new :: "spec \<Rightarrow> walk_trace" where
  "trace_new root = \<lparr>tr_root = primary_name (sp_names root), tr_path = [], tr_values = [], tr_current = []\<rparr>"

definition enter_root :: "spec \<Rightarrow> walk_trace \<Rightarrow> walk_trace" where
  "enter_root spec tr = tr\<lparr>tr_root := primary_name (sp_names spec), tr_path := []\<rparr>"

definition enter_subcommand :: "spec \<Rightarrow> walk_trace \<Rightarrow> walk_trace" where
  "enter_subcommand spec tr = tr\<lparr>tr_path := tr_path tr @ [primary_name (sp_names spec)]\<rparr>"

definition slot :: "walk_trace \<Rightarrow> option_spec option \<Rightarrow> nat \<Rightarrow> arg_slot" where
  "slot tr opt index =
     \<lparr>sl_root = tr_root tr, sl_path = tr_path tr,
      sl_option = map_option (\<lambda>opt. primary_name (op_names opt)) opt, sl_index = index\<rparr>"

definition record_positional :: "arg_spec list \<Rightarrow> nat \<Rightarrow> str \<Rightarrow> walk_trace \<Rightarrow> walk_trace" where
  "record_positional args index val tr =
     (if index < length args then tr\<lparr>tr_values := tr_values tr @ [(slot tr None index, val)]\<rparr> else tr)"

definition record_option_arg :: "option_spec \<Rightarrow> nat \<Rightarrow> str \<Rightarrow> walk_trace \<Rightarrow> walk_trace" where
  "record_option_arg opt index val tr =
     (if index < length (op_args opt) then tr\<lparr>tr_values := tr_values tr @ [(slot tr (Some opt) index, val)]\<rparr>
      else tr)"

definition set_current :: "arg_spec list \<Rightarrow> nat \<Rightarrow> (option_spec \<times> nat) option \<Rightarrow> walk_trace \<Rightarrow> walk_trace" where
  "set_current args positional option_arg tr =
     tr\<lparr>tr_current :=
          (if positional < length args then [slot tr None positional] else []) @
          (case option_arg of
             Some (opt, index) \<Rightarrow> (if index < length (op_args opt) then [slot tr (Some opt) index] else [])
           | None \<Rightarrow> [])\<rparr>"

section \<open>What the walker asks\<close>

text \<open>The registry and the hook hosts as the walker sees them: the answers they give during one walk.
  \<open>we_cached_spec key run\<close> is \<open>hook_cache::cached_spec\<close>, \<open>run\<close> the answer of the hook.\<close>

record registry_view =
  rv_load_referenced_spec :: "str \<Rightarrow> spec option"
  rv_get_arc :: "str \<Rightarrow> spec option"

record walk_env =
  we_registry :: "registry_view option"
  we_cwd :: "str option"
  we_script_timeout_ms :: int
  we_dispatch_alias :: "str \<Rightarrow> str \<Rightarrow> str \<Rightarrow> nat \<Rightarrow> str option"
  we_dispatch_load_spec :: "str \<Rightarrow> str \<Rightarrow> str \<Rightarrow> nat \<Rightarrow> spec option"
  we_dispatch_generate_spec :: "str \<Rightarrow> str list \<Rightarrow> str \<Rightarrow> nat \<Rightarrow> spec option"
  we_cached_spec :: "str \<Rightarrow> spec option \<Rightarrow> spec option"

definition duration_from_script_timeout_ms :: "int \<Rightarrow> nat" where
  "duration_from_script_timeout_ms milliseconds = (if milliseconds < 0 then 0 else nat milliseconds)"

definition dynamic_hook_timeout :: "walk_env \<Rightarrow> nat" where
  "dynamic_hook_timeout env = duration_from_script_timeout_ms (we_script_timeout_ms env)"

definition resolve_arg_alias :: "walk_env \<Rightarrow> arg_spec \<Rightarrow> str \<Rightarrow> str option" where
  "resolve_arg_alias env arg token =
     (case af_parser_directives (ar_fields arg) of
        None \<Rightarrow> None
      | Some directives \<Rightarrow>
          (case pd_alias directives of
             Some literal \<Rightarrow>
               (if literal \<noteq> [] then Some literal
                else case (pd_js_alias directives, we_cwd env) of
                  (Some hook_id, Some cwd) \<Rightarrow> we_dispatch_alias env hook_id token cwd (dynamic_hook_timeout env)
                | _ \<Rightarrow> None)
           | None \<Rightarrow>
               (case (pd_js_alias directives, we_cwd env) of
                  (Some hook_id, Some cwd) \<Rightarrow> we_dispatch_alias env hook_id token cwd (dynamic_hook_timeout env)
                | _ \<Rightarrow> None)))"

text \<open>\<open>tokens.splice(index..index + 1, alias_tokens)\<close>, with the number of tokens added.\<close>

definition substitute_token_alias :: "str list \<Rightarrow> nat \<Rightarrow> str \<Rightarrow> (str list \<times> nat) option" where
  "substitute_token_alias tokens index alias_value =
     (let alias_tokens = fst (tokenize (trim alias_value))
      in if alias_tokens = [] then None
         else Some (take index tokens @ alias_tokens @ drop (index + 1) tokens, length alias_tokens - 1))"

definition apply_js_load_spec :: "walk_env \<Rightarrow> str \<Rightarrow> spec \<Rightarrow> spec" where
  "apply_js_load_spec env token current =
     (case (sf_js_load_spec (sp_fields current), we_cwd env) of
        (Some hook_id, Some cwd) \<Rightarrow>
          (case we_dispatch_load_spec env hook_id token cwd (dynamic_hook_timeout env) of
             None \<Rightarrow> current
           | Some loaded \<Rightarrow> merge_generated_spec current loaded)
      | _ \<Rightarrow> current)"

definition apply_generate_spec :: "walk_env \<Rightarrow> str list \<Rightarrow> spec \<Rightarrow> spec" where
  "apply_generate_spec env tokens current =
     (case (sf_js_generate_spec (sp_fields current), we_cwd env) of
        (Some hook_id, Some cwd) \<Rightarrow>
          (let run = we_dispatch_generate_spec env hook_id tokens cwd (dynamic_hook_timeout env);
               generated =
                 (case sf_generate_spec_cache_key (sp_fields current) of
                    Some key \<Rightarrow>
                      we_cached_spec env ((case tokens of [] \<Rightarrow> [] | token # _ \<Rightarrow> token) @ lit '':'' @ key) run
                  | None \<Rightarrow> run)
           in case generated of None \<Rightarrow> current | Some g \<Rightarrow> merge_generated_spec current g)
      | _ \<Rightarrow> current)"

definition load_restarts_parser :: "arg_spec \<Rightarrow> bool" where
  "load_restarts_parser arg =
     (if af_js_load_spec (ar_fields arg) \<noteq> None then False
      else case ar_load_spec arg of
        Some (LPath _) \<Rightarrow> True
      | Some (LInline _) \<Rightarrow> False
      | None \<Rightarrow> af_is_command (ar_fields arg) \<or> af_is_script (ar_fields arg) \<or> af_is_module (ar_fields arg) \<noteq> None)"

definition command_lookup_name :: "str \<Rightarrow> bool \<Rightarrow> str" where
  "command_lookup_name token is_script =
     (let pathish = starts_with_char token c_slash \<or> starts_with token (lit ''./'') \<or> starts_with token (lit ''~/'')
      in if is_script \<or> pathish
         then (let name = rsplit_first (\<lambda>c. c = c_slash \<or> c = c_bslash) token in if name = [] then token else name)
         else token)"

definition dynamic_spec_name :: "arg_spec \<Rightarrow> str \<Rightarrow> str option" where
  "dynamic_spec_name arg token =
     (case af_is_module (ar_fields arg) of
        Some pre \<Rightarrow> (if pre = [] then None else Some (pre @ token))
      | None \<Rightarrow>
          (if af_is_command (ar_fields arg) \<or> af_is_script (ar_fields arg)
           then Some (command_lookup_name token (af_is_script (ar_fields arg))) else None))"

definition next_spec_after_arg :: "walk_env \<Rightarrow> arg_spec \<Rightarrow> str \<Rightarrow> spec option" where
  "next_spec_after_arg env arg token =
     (case af_js_load_spec (ar_fields arg) of
        Some hook_id \<Rightarrow>
          (case we_cwd env of
             None \<Rightarrow> None
           | Some cwd \<Rightarrow> we_dispatch_load_spec env hook_id token cwd (dynamic_hook_timeout env))
      | None \<Rightarrow>
          (case ar_load_spec arg of
             Some (LPath reference) \<Rightarrow>
               (case we_registry env of None \<Rightarrow> None | Some registry \<Rightarrow> rv_load_referenced_spec registry reference)
           | Some (LInline _) \<Rightarrow> ar_resolved_spec arg
           | None \<Rightarrow>
               (case ar_resolved_spec arg of
                  Some resolved \<Rightarrow> Some resolved
                | None \<Rightarrow>
                    (case dynamic_spec_name arg token of
                       None \<Rightarrow> None
                     | Some name \<Rightarrow>
                         (if name = [] \<or> name = lit ''?'' then None
                          else case we_registry env of
                            None \<Rightarrow> None
                          | Some registry \<Rightarrow> rv_get_arc registry name)))))"

section \<open>The loop body\<close>

record walk_state =
  ws_tokens :: "str list"
  ws_limit :: nat
  ws_current :: spec
  ws_parent :: spec
  ws_index :: nat
  ws_path_end :: nat
  ws_positional :: nat
  ws_after_double_dash :: bool
  ws_persistent_options :: "option_spec list"
  ws_passed_options :: "option_spec list"
  ws_parser_directives :: parser_directives
  ws_option_arg :: "option_arg_state option"
  ws_entered_args :: bool
  ws_subcommand_variadic_count :: nat
  ws_crossed_loaded_spec :: bool
  ws_substituted_aliases :: "str set"
  ws_trace :: "walk_trace option"

abbreviation on_trace :: "(walk_trace \<Rightarrow> walk_trace) \<Rightarrow> walk_state \<Rightarrow> walk_state" where
  "on_trace f st \<equiv> st\<lparr>ws_trace := map_option f (ws_trace st)\<rparr>"

definition walk_subcommand_arg :: "walk_state \<Rightarrow> arg_spec option" where
  "walk_subcommand_arg st = positional_arg (sp_args (ws_current st)) (ws_positional st)"

definition walk_options_allowed :: "walk_state \<Rightarrow> bool" where
  "walk_options_allowed st =
     can_consume_options (ws_parser_directives st) (ws_after_double_dash st) (ws_entered_args st)
       (ws_option_arg st) (walk_subcommand_arg st) (ws_subcommand_variadic_count st)"

definition walk_subcommands_allowed :: "walk_state \<Rightarrow> bool" where
  "walk_subcommands_allowed st = can_consume_subcommands (ws_option_arg st) (ws_entered_args st)"

definition enter_loaded_spec :: "walk_env \<Rightarrow> spec \<Rightarrow> bool \<Rightarrow> walk_state \<Rightarrow> walk_state" where
  "enter_loaded_spec env next restart_parser st =
     (let generated = apply_generate_spec env (ws_tokens st) next;
          at = ws_index st - 1;
          current = (if at < length (ws_tokens st) then apply_js_load_spec env (ws_tokens st ! at) generated
                     else generated)
      in st\<lparr>ws_parent := ws_current st, ws_current := current, ws_path_end := ws_index st, ws_positional := 0,
           ws_persistent_options := merge_persistent_options (ws_persistent_options st) current,
           ws_parser_directives := merge_parser_directives (ws_parser_directives st) current,
           ws_passed_options := [], ws_option_arg := None, ws_entered_args := False,
           ws_subcommand_variadic_count := 0,
           ws_after_double_dash := (if restart_parser then False else ws_after_double_dash st)\<rparr>)"

text \<open>A completed value of an option, attached or separated: record it, step over it, and enter the
  spec it loads.\<close>

definition take_option_value :: "walk_env \<Rightarrow> option_spec \<Rightarrow> arg_spec \<Rightarrow> str \<Rightarrow> nat \<Rightarrow> walk_state \<Rightarrow> walk_state" where
  "take_option_value env opt arg val advance st =
     (let st1 = (on_trace (record_option_arg opt 0 val) st)
                  \<lparr>ws_option_arg := (if ar_is_variadic arg
                                     then Some \<lparr>oa_option = opt, oa_arg = arg, oa_count = 1\<rparr> else None),
                   ws_index := ws_index st + advance\<rparr>;
          st2 = (case next_spec_after_arg env arg val of
                   None \<Rightarrow> st1
                 | Some next \<Rightarrow>
                     enter_loaded_spec env next (load_restarts_parser arg)
                       ((on_trace (enter_root next) st1)\<lparr>ws_crossed_loaded_spec := True\<rparr>))
      in st2\<lparr>ws_substituted_aliases := {}\<rparr>)"

definition walk_option :: "walk_env \<Rightarrow> resolved_option_token \<Rightarrow> str \<Rightarrow> walk_state \<Rightarrow> walk_state" where
  "walk_option env resolved token st =
     (let opt = ro_option resolved;
          st1 = st\<lparr>ws_passed_options := ws_passed_options st @
                     options_in_token (ws_current st) (ws_persistent_options st) token (ws_parser_directives st)\<rparr>
      in case op_args opt of
           [] \<Rightarrow> st1\<lparr>ws_index := ws_index st + 1, ws_substituted_aliases := {}\<rparr>
         | arg # _ \<Rightarrow>
             (case ro_attached_value resolved of
                Some attached \<Rightarrow> take_option_value env opt arg attached 1 st1
              | None \<Rightarrow>
                  (if ws_index st + 1 < ws_limit st \<and>
                      (should_consume_option_value (ws_current st) opt (ws_tokens st ! (ws_index st + 1)) \<or>
                       \<not> ar_is_optional arg)
                   then take_option_value env opt arg (ws_tokens st ! (ws_index st + 1)) 2 st1
                   else st1\<lparr>ws_option_arg := Some \<lparr>oa_option = opt, oa_arg = arg, oa_count = 0\<rparr>,
                            ws_index := ws_index st + 1, ws_substituted_aliases := {}\<rparr>)))"

text \<open>Alias substitution at the current token. A substituted token is not substituted again before the
  walk moves on; an alias without tokens changes nothing.\<close>

definition substitute_alias :: "walk_env \<Rightarrow> arg_spec \<Rightarrow> str \<Rightarrow> walk_state \<Rightarrow> walk_state option" where
  "substitute_alias env arg token st =
     (case resolve_arg_alias env arg token of
        None \<Rightarrow> None
      | Some alias_value \<Rightarrow>
          (if token \<in> ws_substituted_aliases st then None
           else case substitute_token_alias (ws_tokens st) (ws_index st) alias_value of
             None \<Rightarrow> None
           | Some (tokens, extra) \<Rightarrow>
               Some (st\<lparr>ws_tokens := tokens, ws_limit := ws_limit st + extra,
                        ws_substituted_aliases := insert token (ws_substituted_aliases st)\<rparr>)))"

definition walk_option_arg :: "walk_env \<Rightarrow> option_arg_state \<Rightarrow> str \<Rightarrow> walk_state \<Rightarrow> walk_state" where
  "walk_option_arg env oa token st =
     (case substitute_alias env (oa_arg oa) token st of
        Some st' \<Rightarrow> st'
      | None \<Rightarrow>
          (on_trace (record_option_arg (oa_option oa) (oa_count oa) token) st)
            \<lparr>ws_option_arg := (if ar_is_variadic (oa_arg oa) then Some (oa\<lparr>oa_count := oa_count oa + 1\<rparr>) else None),
             ws_index := ws_index st + 1, ws_substituted_aliases := {}\<rparr>)"

definition resolved_reference :: "spec \<Rightarrow> spec" where
  "resolved_reference spec =
     (case spec of Spec f subs opts pers args ls \<Rightarrow>
        Spec (f\<lparr>sf_meta := (sf_meta f)\<lparr>sm_ai_resolved_reference := True\<rparr>\<rparr>) subs opts pers args ls)"

definition entered_subcommand :: "walk_env \<Rightarrow> spec \<Rightarrow> spec" where
  "entered_subcommand env next =
     (case (sp_load_spec next, we_registry env) of
        (Some (LPath reference), Some registry) \<Rightarrow>
          (case rv_load_referenced_spec registry reference of
             None \<Rightarrow> next
           | Some loaded \<Rightarrow> resolved_reference (replace_spec_with_loaded next loaded))
      | _ \<Rightarrow> next)"

definition walk_subcommand :: "walk_env \<Rightarrow> spec \<Rightarrow> str \<Rightarrow> walk_state \<Rightarrow> walk_state" where
  "walk_subcommand env next token st =
     (let current = apply_js_load_spec env token
                      (apply_generate_spec env (ws_tokens st) (entered_subcommand env next))
      in (on_trace (enter_subcommand next) st)
           \<lparr>ws_parent := ws_current st, ws_current := current, ws_index := ws_index st + 1,
            ws_path_end := ws_index st + 1, ws_positional := 0,
            ws_persistent_options := merge_persistent_options (ws_persistent_options st) current,
            ws_parser_directives := inherit_subcommand_directives (ws_parser_directives st) current,
            ws_passed_options := [], ws_entered_args := False, ws_subcommand_variadic_count := 0,
            ws_substituted_aliases := {}\<rparr>)"

definition walk_positional :: "walk_env \<Rightarrow> arg_spec \<Rightarrow> str \<Rightarrow> walk_state \<Rightarrow> walk_state" where
  "walk_positional env arg token st =
     (case substitute_alias env arg token st of
        Some st' \<Rightarrow> st'
      | None \<Rightarrow>
          (let annotation_index = ws_positional st + ws_subcommand_variadic_count st;
               next = next_spec_after_arg env arg token;
               st1 = (on_trace (case next of
                          Some spec \<Rightarrow> enter_root spec
                        | None \<Rightarrow> record_positional (sp_args (ws_current st)) annotation_index token) st)
                       \<lparr>ws_entered_args := True,
                        ws_subcommand_variadic_count :=
                          (if ar_is_variadic arg then ws_subcommand_variadic_count st + 1
                           else ws_subcommand_variadic_count st),
                        ws_positional := (if ar_is_variadic arg then ws_positional st else ws_positional st + 1),
                        ws_index := ws_index st + 1\<rparr>;
               st2 = (case next of
                        None \<Rightarrow> st1
                      | Some spec \<Rightarrow>
                          enter_loaded_spec env spec (load_restarts_parser arg)
                            (st1\<lparr>ws_crossed_loaded_spec := True\<rparr>))
           in st2\<lparr>ws_substituted_aliases := {}\<rparr>))"

text \<open>A token that is neither an option nor the value of one: a subcommand, a positional argument, or
  nothing the spec knows.\<close>

definition walk_word :: "walk_env \<Rightarrow> str \<Rightarrow> walk_state \<Rightarrow> walk_state" where
  "walk_word env token st =
     (case (if \<not> ws_after_double_dash st \<and> walk_subcommands_allowed st \<and> \<not> starts_with_char token c_dash
            then find_subcommand (ws_current st) token else None) of
        Some next \<Rightarrow> walk_subcommand env next token st
      | None \<Rightarrow>
          (case walk_subcommand_arg st of
             Some arg \<Rightarrow> walk_positional env arg token st
           | None \<Rightarrow> st\<lparr>ws_positional := ws_positional st + 1, ws_index := ws_index st + 1,
                        ws_substituted_aliases := {}\<rparr>))"

definition walk_step :: "walk_env \<Rightarrow> walk_state \<Rightarrow> walk_state" where
  "walk_step env st =
     (let token = ws_tokens st ! ws_index st
      in if \<not> ws_after_double_dash st \<and> token = [c_dash, c_dash] \<and> walk_options_allowed st
         then st\<lparr>ws_after_double_dash := True, ws_index := ws_index st + 1, ws_substituted_aliases := {}\<rparr>
         else case (if \<not> ws_after_double_dash st \<and> starts_with_char token c_dash \<and> walk_options_allowed st
                    then resolve_option_token_with_persistent (ws_current st) (ws_persistent_options st) token
                           (ws_parser_directives st)
                    else None) of
             Some resolved \<Rightarrow> walk_option env resolved token st
           | None \<Rightarrow>
               (case ws_option_arg st of
                  Some oa \<Rightarrow> walk_option_arg env oa token st
                | None \<Rightarrow> walk_word env token st))"

section \<open>The walk\<close>

record walked_spec =
  wk_spec :: spec
  wk_parent :: spec
  wk_path_end :: nat
  wk_limit :: nat
  wk_persistent_options :: "option_spec list"
  wk_passed_options :: "option_spec list"
  wk_parser_directives :: parser_directives
  wk_options_allowed :: bool
  wk_subcommands_allowed :: bool
  wk_end_of_options :: bool
  wk_crossed_loaded_spec :: bool

definition walk_init :: "walk_env \<Rightarrow> spec \<Rightarrow> str list \<Rightarrow> nat \<Rightarrow> walk_trace option \<Rightarrow> walk_state" where
  "walk_init env root tokens limit trace =
     (let current = apply_generate_spec env tokens root
      in \<lparr>ws_tokens = tokens, ws_limit = limit, ws_current = current, ws_parent = current, ws_index = 1,
          ws_path_end = 1, ws_positional = 0, ws_after_double_dash = False,
          ws_persistent_options = merge_persistent_options [] current, ws_passed_options = [],
          ws_parser_directives = unwrap_or directives_default (sf_parser_directives (sp_fields current)),
          ws_option_arg = None, ws_entered_args = False, ws_subcommand_variadic_count = 0,
          ws_crossed_loaded_spec = False, ws_substituted_aliases = {}, ws_trace = trace\<rparr>)"

definition walk_loop :: "walk_env \<Rightarrow> walk_state \<Rightarrow> walk_state option" where
  "walk_loop env st = while_option (\<lambda>st. ws_index st < ws_limit st) (walk_step env) st"

definition walk_result :: "walk_state \<Rightarrow> walked_spec" where
  "walk_result st =
     \<lparr>wk_spec = ws_current st, wk_parent = ws_parent st, wk_path_end = ws_path_end st, wk_limit = ws_limit st,
      wk_persistent_options = ws_persistent_options st, wk_passed_options = ws_passed_options st,
      wk_parser_directives = ws_parser_directives st, wk_options_allowed = walk_options_allowed st,
      wk_subcommands_allowed = walk_subcommands_allowed st, wk_end_of_options = ws_after_double_dash st,
      wk_crossed_loaded_spec = ws_crossed_loaded_spec st\<rparr>"

text \<open>The result, the tokens after alias substitution, and the recorder.\<close>

definition walk_spec ::
  "walk_env \<Rightarrow> spec \<Rightarrow> str list \<Rightarrow> nat \<Rightarrow> walk_trace option \<Rightarrow> (walked_spec \<times> str list \<times> walk_trace option) option" where
  "walk_spec env root tokens limit trace =
     map_option (\<lambda>st.
       (walk_result st, ws_tokens st,
        map_option (set_current (sp_args (ws_current st)) (ws_positional st + ws_subcommand_variadic_count st)
          (map_option (\<lambda>oa. (oa_option oa, oa_count oa)) (ws_option_arg st))) (ws_trace st)))
       (walk_loop env (walk_init env root tokens limit trace))"

definition annotate_history_command ::
  "walk_env \<Rightarrow> spec \<Rightarrow> str list \<Rightarrow> walk_trace \<Rightarrow> (str list \<times> walk_trace) option" where
  "annotate_history_command env root tokens trace =
     map_option (\<lambda>(_, tokens', trace'). (tokens', the trace')) (walk_spec env root tokens (length tokens) (Some trace))"

end
