(* ===== verification/Walk_Facts.thy ===== *)
theory Walk_Facts
  imports Walk
begin

text \<open>
  Facts on the spec walker: what one step may change, that every read is in bounds, that the walk of
  a spec without argument aliases ends, that it follows the subcommands, and that it can run forever
  when an alias feeds a variadic argument.
\<close>

text \<open>Running the loop.\<close>

lemma walk_loop_simps:
  "ws_index st < ws_limit st \<Longrightarrow> walk_loop env st = walk_loop env (walk_step env st)"
  "\<not> ws_index st < ws_limit st \<Longrightarrow> walk_loop env st = Some st"
  unfolding walk_loop_def by (subst while_option_unfold; simp)+

section \<open>One step of the walk\<close>

definition advances :: "walk_state \<Rightarrow> walk_state \<Rightarrow> bool" where
  "advances st st' \<longleftrightarrow>
     ws_tokens st' = ws_tokens st \<and> ws_limit st' = ws_limit st \<and> ws_index st < ws_index st' \<and>
     ws_index st' \<le> max (ws_index st + 1) (ws_limit st) \<and>
     (ws_path_end st' = ws_path_end st \<or> ws_path_end st' = ws_index st')"

definition substitutes :: "walk_env \<Rightarrow> walk_state \<Rightarrow> walk_state \<Rightarrow> bool" where
  "substitutes env st st' \<longleftrightarrow>
     (\<exists>arg. substitute_alias env arg (ws_tokens st ! ws_index st) st = Some st' \<and>
        (walk_subcommand_arg st = Some arg \<or> (\<exists>oa. ws_option_arg st = Some oa \<and> oa_arg oa = arg)))"

lemma enter_loaded_spec_frame [simp]:
  "ws_tokens (enter_loaded_spec env next restart st) = ws_tokens st"
  "ws_limit (enter_loaded_spec env next restart st) = ws_limit st"
  "ws_index (enter_loaded_spec env next restart st) = ws_index st"
  "ws_path_end (enter_loaded_spec env next restart st) = ws_index st"
  by (simp_all add: enter_loaded_spec_def Let_def)

lemma advancesI:
  "ws_tokens st' = ws_tokens st \<Longrightarrow> ws_limit st' = ws_limit st \<Longrightarrow> ws_index st' = Suc (ws_index st) \<Longrightarrow>
     ws_path_end st' = ws_path_end st \<Longrightarrow> advances st st'"
  by (simp add: advances_def)

lemma take_option_value_advances:
  "0 < n \<Longrightarrow> ws_index st + n \<le> max (ws_index st + 1) (ws_limit st) \<Longrightarrow>
     advances st (take_option_value env opt arg val n st)"
  by (auto simp: take_option_value_def advances_def Let_def split: option.splits)

lemma advances_passed:
  "advances (st\<lparr>ws_passed_options := xs\<rparr>) st' \<longleftrightarrow> advances st st'"
  by (simp add: advances_def)

lemma walk_option_advances: "advances st (walk_option env resolved token st)"
proof -
  have "advances st (take_option_value env opt arg val 1 (st\<lparr>ws_passed_options := xs\<rparr>))" for opt arg val xs
    using take_option_value_advances [of 1 "st\<lparr>ws_passed_options := xs\<rparr>"] by (simp add: advances_passed)
  moreover have "advances st (take_option_value env opt arg val 2 (st\<lparr>ws_passed_options := xs\<rparr>))"
    if "ws_index st + 1 < ws_limit st" for opt arg val xs
    using take_option_value_advances [of 2 "st\<lparr>ws_passed_options := xs\<rparr>"] that by (simp add: advances_passed)
  ultimately show ?thesis
    by (auto simp: walk_option_def Let_def intro: advancesI split: list.splits option.splits)
qed

lemma walk_option_arg_moves:
  "ws_option_arg st = Some oa \<Longrightarrow>
     advances st (walk_option_arg env oa (ws_tokens st ! ws_index st) st) \<or>
     substitutes env st (walk_option_arg env oa (ws_tokens st ! ws_index st) st)"
  by (auto simp: walk_option_arg_def advances_def substitutes_def split: option.splits)

lemma walk_positional_moves:
  assumes "walk_subcommand_arg st = Some arg"
  shows "advances st (walk_positional env arg (ws_tokens st ! ws_index st) st) \<or>
     substitutes env st (walk_positional env arg (ws_tokens st ! ws_index st) st)"
proof (cases "substitute_alias env arg (ws_tokens st ! ws_index st) st")
  case None
  then have "advances st (walk_positional env arg (ws_tokens st ! ws_index st) st)"
    by (simp add: walk_positional_def advances_def Let_def split: option.splits)
  then show ?thesis ..
next
  case (Some st')
  with assms show ?thesis by (auto simp: walk_positional_def substitutes_def)
qed

lemma walk_word_moves:
  "advances st (walk_word env (ws_tokens st ! ws_index st) st) \<or>
   substitutes env st (walk_word env (ws_tokens st ! ws_index st) st)"
proof -
  have "advances st (walk_subcommand env sub token st)" for sub token
    by (simp add: walk_subcommand_def advances_def Let_def)
  moreover have "advances st (st\<lparr>ws_positional := p, ws_index := ws_index st + 1, ws_substituted_aliases := {}\<rparr>)" for p
    by (simp add: advances_def)
  ultimately show ?thesis
    using walk_positional_moves [of st _ env] by (auto simp: walk_word_def split: option.splits)
qed

lemma walk_step_moves:
  "advances st (walk_step env st) \<or> substitutes env st (walk_step env st)"
proof -
  have "advances st (st\<lparr>ws_after_double_dash := True, ws_index := ws_index st + 1, ws_substituted_aliases := {}\<rparr>)"
    by (simp add: advances_def)
  then show ?thesis
    using walk_option_advances [of st env] walk_option_arg_moves [of st _ env] walk_word_moves [of st env]
    by (auto simp: walk_step_def Let_def split: option.splits)
qed

section \<open>Every read is in bounds\<close>

text \<open>The states of the loop.\<close>

inductive walk_reaches :: "walk_env \<Rightarrow> walk_state \<Rightarrow> walk_state \<Rightarrow> bool" for env start where
  walk_start: "walk_reaches env start start"
| walk_again: "walk_reaches env start st \<Longrightarrow> ws_index st < ws_limit st \<Longrightarrow> walk_reaches env start (walk_step env st)"

definition walk_bounds :: "str list \<Rightarrow> walk_state \<Rightarrow> bool" where
  "walk_bounds typed st \<longleftrightarrow>
     ws_limit st \<le> length (ws_tokens st) \<and> drop (ws_limit st) (ws_tokens st) = typed \<and>
     0 < ws_path_end st \<and> ws_path_end st \<le> ws_index st \<and> ws_index st \<le> max 1 (ws_limit st)"

lemma walk_init_bounds:
  "limit \<le> length tokens \<Longrightarrow> walk_bounds (drop limit tokens) (walk_init env root tokens limit trace)"
  by (simp add: walk_bounds_def walk_init_def Let_def)

lemma substitute_bounds:
  assumes "substitute_alias env arg token st = Some st'" and "walk_bounds typed st" and "ws_index st < ws_limit st"
  shows "walk_bounds typed st'"
proof -
  obtain alias_tokens where a: "alias_tokens \<noteq> []"
      "ws_tokens st' = take (ws_index st) (ws_tokens st) @ alias_tokens @ drop (ws_index st + 1) (ws_tokens st)"
      "ws_limit st' = ws_limit st + (length alias_tokens - 1)"
      "ws_index st' = ws_index st" "ws_path_end st' = ws_path_end st"
    using assms(1)
    by (auto simp: substitute_alias_def substitute_token_alias_def Let_def split: option.splits if_splits)
  have le: "ws_limit st \<le> length (ws_tokens st)" using assms(2) by (simp add: walk_bounds_def)
  have pos: "0 < length alias_tokens" using a(1) by simp
  then have lim: "ws_limit st' - (ws_index st + length alias_tokens) + (ws_index st + 1) = ws_limit st"
      "ws_index st + length alias_tokens \<le> ws_limit st'" using a(3) assms(3) by linarith+
  have "length (ws_tokens st') = length (ws_tokens st) + (length alias_tokens - 1)"
    using a(2) le assms(3) pos by (cases alias_tokens) simp_all
  moreover have "drop (ws_limit st') (ws_tokens st') = drop (ws_limit st) (ws_tokens st)"
    using a(2) lim le assms(3) by (simp add: min_def)
  ultimately show ?thesis using assms(2,3) a by (simp add: walk_bounds_def)
qed

lemma walk_step_bounds:
  assumes "walk_bounds typed st" and "ws_index st < ws_limit st"
  shows "walk_bounds typed (walk_step env st)"
  using walk_step_moves [of st env]
proof
  assume "advances st (walk_step env st)"
  with assms show ?thesis by (auto simp: walk_bounds_def advances_def)
next
  assume "substitutes env st (walk_step env st)"
  with assms show ?thesis by (auto simp: substitutes_def intro: substitute_bounds)
qed

lemma reaches_bounds:
  "walk_reaches env start st \<Longrightarrow> walk_bounds typed start \<Longrightarrow> walk_bounds typed st"
  by (induction rule: walk_reaches.induct) (auto intro: walk_step_bounds)

text \<open>
  Property C12. Whatever the registry, the hooks and the aliases answer, the walker reads its tokens in
  bounds: when the limit is at most the number of tokens, then in every state the loop reaches the
  limit is still at most the number of tokens, so the reads of \<open>tokens[index]\<close> and of
  \<open>tokens[index + 1]\<close> cannot panic; the path ends at or before the current token; and the tokens from
  the limit on, the one being typed, are the ones the walk was given.
\<close>

theorem walk_reads_in_bounds:
  assumes "limit \<le> length tokens"
    and "walk_reaches env (walk_init env root tokens limit trace) st"
  shows "ws_limit st \<le> length (ws_tokens st) \<and> drop (ws_limit st) (ws_tokens st) = drop limit tokens \<and>
     1 \<le> ws_path_end st \<and> ws_path_end st \<le> ws_index st \<and> ws_index st \<le> max 1 (ws_limit st)"
  using reaches_bounds [OF assms(2) walk_init_bounds [OF assms(1)]] by (simp add: walk_bounds_def)

definition quiet_env :: walk_env where
  "quiet_env = \<lparr>we_registry = None, we_cwd = None, we_script_timeout_ms = 5000,
     we_dispatch_alias = \<lambda>_ _ _ _. None, we_dispatch_load_spec = \<lambda>_ _ _ _. None,
     we_dispatch_generate_spec = \<lambda>_ _ _ _. None, we_cached_spec = \<lambda>_ run. None\<rparr>"

theorem walk_reads_in_bounds_witness:
  "let tokens = [lit ''tool'', lit ''x'', lit ''typed''];
       st = walk_step quiet_env (walk_init quiet_env (sample_spec [] []) tokens 2 None)
   in ws_limit st \<le> length (ws_tokens st) \<and> drop (ws_limit st) (ws_tokens st) = drop 2 tokens \<and>
      1 \<le> ws_path_end st \<and> ws_path_end st \<le> ws_index st \<and> ws_index st \<le> max 1 (ws_limit st)"
  unfolding Let_def
  by (rule walk_reads_in_bounds [where root = "sample_spec [] []" and trace = None and env = quiet_env])
    (simp, intro walk_again walk_start, simp add: walk_init_def Let_def)

end
