(* ===== verification/Walk_Path.thy ===== *)
theory Walk_Path
  imports Walk_Facts
begin

text \<open>
  The walk follows subcommands: on a command line that names nested subcommands it ends in the node
  the names lead to, with the persistent options of all nodes on the way.
\<close>

section \<open>Reference: the nodes a list of names leads through\<close>

fun path_specs :: "spec \<Rightarrow> str list \<Rightarrow> spec list option" where
  "path_specs spec [] = Some []"
| "path_specs spec (name # names) =
     (case find_subcommand spec name of
        None \<Rightarrow> None
      | Some sub \<Rightarrow> map_option ((#) sub) (path_specs sub names))"

text \<open>A node without hooks and without a referenced file.\<close>

definition plain_node :: "spec \<Rightarrow> bool" where
  "plain_node spec \<longleftrightarrow>
     sf_js_generate_spec (sp_fields spec) = None \<and> sf_js_load_spec (sp_fields spec) = None \<and>
     (case sp_load_spec spec of Some (LPath _) \<Rightarrow> False | _ \<Rightarrow> True)"

lemma plain_node_hooks [simp]:
  assumes "plain_node spec"
  shows "apply_generate_spec env tokens spec = spec" and "apply_js_load_spec env token spec = spec"
    and "entered_subcommand env spec = spec"
  using assms
  by (auto simp: plain_node_def apply_generate_spec_def apply_js_load_spec_def entered_subcommand_def
      split: option.splits load_spec.splits)

definition at_command :: "walk_state \<Rightarrow> bool" where
  "at_command st \<longleftrightarrow> \<not> ws_after_double_dash st \<and> ws_option_arg st = None \<and> \<not> ws_entered_args st \<and>
     ws_passed_options st = [] \<and> ws_path_end st = ws_index st"

lemma walk_enters_subcommand:
  assumes "at_command st" and "\<not> starts_with_char (ws_tokens st ! ws_index st) c_dash"
    and "find_subcommand (ws_current st) (ws_tokens st ! ws_index st) = Some sub" and "plain_node sub"
  shows "at_command (walk_step env st)" and "ws_tokens (walk_step env st) = ws_tokens st"
    and "ws_limit (walk_step env st) = ws_limit st" and "ws_index (walk_step env st) = Suc (ws_index st)"
    and "ws_current (walk_step env st) = sub" and "ws_parent (walk_step env st) = ws_current st"
    and "ws_persistent_options (walk_step env st) = merge_persistent_options (ws_persistent_options st) sub"
    and "ws_crossed_loaded_spec (walk_step env st) = ws_crossed_loaded_spec st"
    and "ws_trace (walk_step env st) = map_option (enter_subcommand sub) (ws_trace st)"
proof -
  have "ws_tokens st ! ws_index st \<noteq> [c_dash, c_dash]" using assms(2) by (auto simp: starts_with_char_def)
  then have step: "walk_step env st = walk_subcommand env sub (ws_tokens st ! ws_index st) st"
    using assms
    by (auto simp: walk_step_def walk_word_def walk_subcommands_allowed_def can_consume_subcommands_def
        at_command_def Let_def)
  show "at_command (walk_step env st)" "ws_tokens (walk_step env st) = ws_tokens st"
    "ws_limit (walk_step env st) = ws_limit st" "ws_index (walk_step env st) = Suc (ws_index st)"
    "ws_current (walk_step env st) = sub" "ws_parent (walk_step env st) = ws_current st"
    "ws_persistent_options (walk_step env st) = merge_persistent_options (ws_persistent_options st) sub"
    "ws_crossed_loaded_spec (walk_step env st) = ws_crossed_loaded_spec st"
    "ws_trace (walk_step env st) = map_option (enter_subcommand sub) (ws_trace st)"
    using assms(1,4) unfolding step by (simp_all add: walk_subcommand_def at_command_def Let_def)
qed

lemma walk_follows_names:
  assumes "path_specs (ws_current st) names = Some nodes" and "list_all plain_node nodes"
    and "at_command st" and "\<not> ws_crossed_loaded_spec st"
    and "ws_limit st = ws_index st + length names"
    and "\<forall>i < length names. ws_tokens st ! (ws_index st + i) = names ! i"
    and "\<forall>name \<in> set names. \<not> starts_with_char name c_dash"
  shows "\<exists>st'. walk_loop env st = Some st' \<and> at_command st' \<and> \<not> ws_crossed_loaded_spec st' \<and>
     ws_tokens st' = ws_tokens st \<and> ws_limit st' = ws_limit st \<and> ws_index st' = ws_limit st \<and>
     ws_current st' = last (ws_current st # nodes) \<and>
     ws_persistent_options st' = fold (\<lambda>node opts. merge_persistent_options opts node) nodes (ws_persistent_options st) \<and>
     ws_trace st' = map_option (fold enter_subcommand nodes) (ws_trace st)"
  using assms
proof (induction names arbitrary: st nodes)
  case Nil
  then show ?case by (simp add: walk_loop_simps(2) option.map_ident)
next
  case (Cons name names)
  from Cons.prems(1) obtain sub nodes' where sub: "find_subcommand (ws_current st) name = Some sub"
    "path_specs sub names = Some nodes'" "nodes = sub # nodes'" by (auto split: option.splits)
  have name: "ws_tokens st ! ws_index st = name" using Cons.prems(6) by (metis add.right_neutral length_greater_0_conv list.distinct(1) nth_Cons_0)
  have plain: "plain_node sub" "list_all plain_node nodes'" using Cons.prems(2) sub(3) by simp_all
  have dash: "\<not> starts_with_char (ws_tokens st ! ws_index st) c_dash" using name Cons.prems(7) by simp
  note entered = walk_enters_subcommand [OF Cons.prems(3) dash, unfolded name, OF sub(1) plain(1), of env]
  have rest: "\<forall>i < length names. ws_tokens (walk_step env st) ! (ws_index (walk_step env st) + i) = names ! i"
    using Cons.prems(6) unfolding entered by (metis Suc_less_eq add_Suc_shift length_Cons nth_Cons_Suc)
  have "ws_index st < ws_limit st" using Cons.prems(5) by simp
  then have "walk_loop env st = walk_loop env (walk_step env st)" by (rule walk_loop_simps(1))
  moreover obtain st' where "walk_loop env (walk_step env st) = Some st'" "at_command st'"
    "\<not> ws_crossed_loaded_spec st'" "ws_tokens st' = ws_tokens st" "ws_limit st' = ws_limit st" "ws_index st' = ws_limit st"
    "ws_current st' = last (sub # nodes')"
    "ws_persistent_options st' = fold (\<lambda>node opts. merge_persistent_options opts node) nodes'
       (merge_persistent_options (ws_persistent_options st) sub)"
    "ws_trace st' = map_option (fold enter_subcommand nodes') (map_option (enter_subcommand sub) (ws_trace st))"
    using Cons.IH [of "walk_step env st" nodes'] sub(2) plain(2) Cons.prems(4,5,7) rest by (auto simp: entered)
  ultimately show ?case using sub(3) by (auto simp: option.map_comp comp_def)
qed

text \<open>
  Property C14. A command line that names nested subcommands leads to the node they name: when every
  name is the name of a subcommand of the node before, none starts with a dash, and the root and the
  nodes on the way have no hooks and refer to no other file, the walk returns, ends in the last node
  with the path covering all names, counts no options as passed, still allows subcommands, has the
  persistent options of all nodes merged from the root down, and has recorded the path of primary
  names under the root.
\<close>

theorem walk_follows_subcommands:
  assumes "path_specs root names = Some nodes" and "plain_node root" and "list_all plain_node nodes"
    and "\<forall>name \<in> set names. \<not> starts_with_char name c_dash"
  shows "\<exists>walked trace.
     walk_spec env root (cmd # names @ typed) (Suc (length names)) (Some (trace_new root)) =
       Some (walked, cmd # names @ typed, Some trace) \<and>
     wk_spec walked = last (root # nodes) \<and> wk_path_end walked = Suc (length names) \<and>
     wk_limit walked = Suc (length names) \<and> wk_passed_options walked = [] \<and> wk_subcommands_allowed walked \<and>
     wk_persistent_options walked = fold (\<lambda>node opts. merge_persistent_options opts node) (root # nodes) [] \<and>
     \<not> wk_crossed_loaded_spec walked \<and>
     tr_root trace = primary_name (sp_names root) \<and> tr_path trace = map (\<lambda>node. primary_name (sp_names node)) nodes"
proof -
  let ?init = "walk_init env root (cmd # names @ typed) (Suc (length names)) (Some (trace_new root))"
  have init: "ws_current ?init = root" "at_command ?init" "\<not> ws_crossed_loaded_spec ?init" "ws_index ?init = 1"
    "ws_limit ?init = Suc (length names)" "ws_tokens ?init = cmd # names @ typed"
    "ws_persistent_options ?init = merge_persistent_options [] root" "ws_trace ?init = Some (trace_new root)"
    using assms(2) by (simp_all add: walk_init_def at_command_def Let_def)
  obtain st where st: "walk_loop env ?init = Some st" "at_command st" "\<not> ws_crossed_loaded_spec st"
    "ws_tokens st = cmd # names @ typed" "ws_limit st = Suc (length names)" "ws_index st = Suc (length names)"
    "ws_current st = last (root # nodes)"
    "ws_persistent_options st = fold (\<lambda>node opts. merge_persistent_options opts node) nodes (merge_persistent_options [] root)"
    "ws_trace st = Some (fold enter_subcommand nodes (trace_new root))"
    using walk_follows_names [of ?init names nodes env] assms init by (auto simp: nth_append)
  have "tr_root (fold enter_subcommand nodes tr) = tr_root tr \<and>
      tr_path (fold enter_subcommand nodes tr) = tr_path tr @ map (\<lambda>node. primary_name (sp_names node)) nodes" for tr
    by (induction nodes arbitrary: tr) (auto simp: enter_subcommand_def)
  then show ?thesis
    using st
    by (auto simp: walk_spec_def walk_result_def walk_subcommands_allowed_def can_consume_subcommands_def
        at_command_def set_current_def trace_new_def)
qed

definition git_spec :: spec where
  "git_spec =
     (let named = \<lambda>name subs. Spec (spec_fields_default\<lparr>sf_names := [lit name]\<rparr>) subs [] [] [] None
      in named ''git'' [named ''stash'' [named ''pop'' []]])"

theorem walk_follows_subcommands_witness:
  "\<exists>walked trace nodes.
     path_specs git_spec [lit ''stash'', lit ''pop''] = Some nodes \<and>
     walk_spec quiet_env git_spec [lit ''git'', lit ''stash'', lit ''pop''] 3 (Some (trace_new git_spec)) =
       Some (walked, [lit ''git'', lit ''stash'', lit ''pop''], Some trace) \<and>
     wk_spec walked = last (git_spec # nodes) \<and> tr_path trace = [lit ''stash'', lit ''pop'']"
proof -
  obtain nodes where nodes: "path_specs git_spec [lit ''stash'', lit ''pop''] = Some nodes"
    "list_all plain_node nodes" "map (\<lambda>node. primary_name (sp_names node)) nodes = [lit ''stash'', lit ''pop'']"
    by (simp add: git_spec_def find_subcommand_def has_name_def plain_node_def spec_fields_default_def
        primary_name_def unwrap_or_def Let_def)
  have "plain_node git_spec" by (simp add: git_spec_def plain_node_def spec_fields_default_def Let_def)
  then show ?thesis
    using walk_follows_subcommands [OF nodes(1) _ nodes(2), where env = quiet_env and cmd = "lit ''git''" and typed = "[]"]
      nodes by (auto simp: starts_with_char_def numeral_3_eq_3)
qed

end
