(* ===== verification/Rank.thy ===== *)
theory Rank
  imports Complex_Main Frecency Acceptance Suggestion Query Shell_Facts
begin

text \<open>
  Ranking and history rows (\<open>rank.rs\<close>, lines 170--230, 326--393 and 782--1290): which history is read,
  the rows it gives, and the order of the rows of a result.
\<close>

section \<open>History sources\<close>

datatype history_shell = Zsh | Bash | Fish | Unknown

record history_source_config =
  hc_custom_command :: "str option"
  hc_all_shells :: bool
  hc_current_shell :: history_shell

definition strip_first :: "str list \<Rightarrow> str \<Rightarrow> str" where
  "strip_first endings s = (case find_map (\<lambda>x. strip_suffix x s) endings of Some t \<Rightarrow> t | None \<Rightarrow> s)"

definition normalize_history_shell :: "str option \<Rightarrow> history_shell" where
  "normalize_history_shell shell =
     (case shell of
        None \<Rightarrow> Unknown
      | Some text \<Rightarrow>
          (if trim text = [] then Unknown
           else
             (let bare = strip_first (map lit ['' (fterm)'', '' (fastabterm)'', '' (figterm)'', '' (ecterm)'', '' (qterm)''])
                           (trim text);
                  name = rsplit_first (\<lambda>c. c = c_slash) bare
              in if name = lit ''zsh'' then Zsh
                 else if name = lit ''bash'' then Bash
                 else if name = lit ''fish'' then Fish
                 else Unknown)))"

definition history_source_config_of ::
  "str option \<Rightarrow> bool \<Rightarrow> str option \<Rightarrow> str option \<Rightarrow> history_source_config" where
  "history_source_config_of custom_command all_shells current_shell current_process =
     (let shell = normalize_history_shell current_shell
      in \<lparr>hc_custom_command = custom_command, hc_all_shells = all_shells,
          hc_current_shell = (if shell \<noteq> Unknown then shell else normalize_history_shell current_process)\<rparr>)"

definition MAX_DATABASE_HISTORY_COMMANDS :: nat where "MAX_DATABASE_HISTORY_COMMANDS = 10000"

definition recent_shell_history_command :: "history_shell \<Rightarrow> str" where
  "recent_shell_history_command shell =
     (case shell of
        Zsh \<Rightarrow> lit ''fc -R; fc -ln -10000''
      | Bash \<Rightarrow> lit ''fc -ln -10000''
      | Fish \<Rightarrow> lit ''history search --max=10000''
      | Unknown \<Rightarrow> [])"

definition includes_database_shell :: "history_source_config \<Rightarrow> history_shell \<Rightarrow> bool" where
  "includes_database_shell config row_shell \<longleftrightarrow>
     (case hc_current_shell config of
        Unknown \<Rightarrow> True
      | current \<Rightarrow>
          (if (current = Zsh \<or> current = Bash) \<and> hc_all_shells config
           then row_shell = Zsh \<or> row_shell = Bash else row_shell = current))"

definition non_empty_history_command :: "str \<Rightarrow> str option" where
  "non_empty_history_command command = (if trim command = [] then None else Some command)"

definition history_commands_from_output_limited :: "str \<Rightarrow> bool \<Rightarrow> (str \<times> nat) list" where
  "history_commands_from_output_limited output newest_first =
     (let commands = map (\<lambda>command. (command, 0)) (filter_map non_empty_history_command (str_lines output));
          recent =
            (if length commands > MAX_DATABASE_HISTORY_COMMANDS
             then if newest_first then take MAX_DATABASE_HISTORY_COMMANDS commands
                  else drop (length commands - MAX_DATABASE_HISTORY_COMMANDS) commands
             else commands)
      in if newest_first then rev recent else recent)"

definition history_commands_from_output :: "str \<Rightarrow> (str \<times> nat) list" where
  "history_commands_from_output output = history_commands_from_output_limited output False"

text \<open>The shell and the history database as the loader sees them: \<open>hs_execute shell flag command\<close> is
  the standard output of a run that succeeded, \<open>hs_rows limit\<close> the newest rows of the database, newest
  first: shell, command and the seconds of the start time.\<close>

record history_system =
  hs_execute :: "str \<Rightarrow> str \<Rightarrow> str \<Rightarrow> str option"
  hs_rows :: "nat \<Rightarrow> (str option \<times> str option \<times> nat option) list"

definition run_custom_history :: "history_system \<Rightarrow> str \<Rightarrow> str option" where
  "run_custom_history sys command =
     (case hs_execute sys (lit ''zsh'') (lit ''-c'') command of
        None \<Rightarrow> None
      | Some output \<Rightarrow> (if trim output = [] then None else Some output))"

definition login_history_commands :: "history_system \<Rightarrow> history_shell \<Rightarrow> (str \<times> nat) list" where
  "login_history_commands sys shell =
     (let command = recent_shell_history_command shell
      in if command = [] then []
         else case (case shell of
                      Zsh \<Rightarrow> Some (lit ''zsh'') | Bash \<Rightarrow> Some (lit ''bash'') | Fish \<Rightarrow> Some (lit ''fish'')
                    | Unknown \<Rightarrow> None) of
           None \<Rightarrow> []
         | Some shell_name \<Rightarrow>
             (case hs_execute sys shell_name (lit ''-lc'') command of
                None \<Rightarrow> []
              | Some output \<Rightarrow> history_commands_from_output_limited output (shell = Fish)))"

definition load_database_commands :: "history_system \<Rightarrow> (history_shell \<Rightarrow> bool) \<Rightarrow> (str \<times> nat) list" where
  "load_database_commands sys included =
     filter_map (\<lambda>(shell, command, start_time).
       if \<not> included (normalize_history_shell shell) then None
       else case Option.bind command non_empty_history_command of
         None \<Rightarrow> None
       | Some text \<Rightarrow> Some (text, case start_time of None \<Rightarrow> 0 | Some secs \<Rightarrow> secs))
       (rev (hs_rows sys MAX_DATABASE_HISTORY_COMMANDS))"

definition load_commands_for :: "history_system \<Rightarrow> history_source_config \<Rightarrow> (str \<times> nat) list" where
  "load_commands_for sys config =
     (case hc_custom_command config of
        Some command \<Rightarrow>
          (case run_custom_history sys command of
             Some commands \<Rightarrow> history_commands_from_output commands
           | None \<Rightarrow> load_database_commands sys (\<lambda>_. True))
      | None \<Rightarrow>
          (let current = hc_current_shell config;
               from_shell =
                 (case current of Unknown \<Rightarrow> [] | _ \<Rightarrow> login_history_commands sys current) @
                 (if hc_all_shells config
                  then (if current \<noteq> Zsh then login_history_commands sys Zsh else []) @
                       (if current \<noteq> Bash then login_history_commands sys Bash else [])
                  else [])
           in if from_shell = []
              then (case current of
                      Unknown \<Rightarrow> load_database_commands sys (\<lambda>_. True)
                    | _ \<Rightarrow> load_database_commands sys (includes_database_shell config))
              else from_shell))"

section \<open>History rows\<close>

definition HISTORY_LIMIT :: nat where "HISTORY_LIMIT = 10000"

definition history_priority_base :: "nat \<Rightarrow> int" where
  "history_priority_base n = (if n > 1 then 75 else 50)"

text \<open>\<open>seen.insert(x).then_some(x)\<close> over an iterator: the first of equal elements stays.\<close>

fun first_seen :: "'a list \<Rightarrow> 'a list \<Rightarrow> 'a list" where
  "first_seen seen [] = []"
| "first_seen seen (x # xs) = (if x \<in> set seen then first_seen seen xs else x # first_seen (x # seen) xs)"

definition history_row :: "(str \<Rightarrow> nat option) \<Rightarrow> str \<Rightarrow> suggestion" where
  "history_row counts command =
     with_priority (case counts (unwrap_or [] (first_word command)) of None \<Rightarrow> 50 | Some n \<Rightarrow> history_priority_base n)
       (with_insert_value command (suggestion_new command (lit ''past command'') (lit ''history'')))"

definition history_suggestions :: "(str \<Rightarrow> str) \<Rightarrow> frecency \<Rightarrow> str \<Rightarrow> bool \<Rightarrow> bool \<Rightarrow> suggestion list" where
  "history_suggestions lc fr query fuzzy include_empty_query =
     (if query = [] \<and> \<not> include_empty_query then []
      else map (history_row (next_word_counts fr []))
             (take HISTORY_LIMIT (first_seen []
               (map trim_end (filter (\<lambda>command. query = [] \<or> matches_query lc command query fuzzy) (rev (fr_lines fr)))))))"

definition history_suffixes :: "(str \<Rightarrow> str) \<Rightarrow> frecency \<Rightarrow> str \<Rightarrow> str \<Rightarrow> bool \<Rightarrow> str list" where
  "history_suffixes lc fr prefix_text query fuzzy =
     filter_map (\<lambda>command.
       case strip_prefix prefix_text command of
         None \<Rightarrow> None
       | Some rest \<Rightarrow>
           (let suffix_text = trim_end rest
            in if suffix_text = [] \<or> (query \<noteq> [] \<and> \<not> matches_query lc suffix_text query fuzzy) then None
               else Some suffix_text)) (rev (fr_lines fr))"

definition history_suffix_suggestions ::
  "(str \<Rightarrow> str) \<Rightarrow> frecency \<Rightarrow> str \<Rightarrow> str \<Rightarrow> bool \<Rightarrow> suggestion list" where
  "history_suffix_suggestions lc fr prefix_text query fuzzy =
     map (history_row (next_word_counts fr (trim_end prefix_text)))
       (take HISTORY_LIMIT (first_seen [] (history_suffixes lc fr prefix_text query fuzzy)))"

section \<open>Priorities\<close>

definition first_word_count :: "(str \<Rightarrow> nat option) \<Rightarrow> str \<Rightarrow> nat" where
  "first_word_count counts text = unwrap_or 0 (counts (unwrap_or [] (first_word text)))"

definition suggestion_name_spellings :: "suggestion \<Rightarrow> str list" where
  "suggestion_name_spellings s =
     sg_alias_names s @ [sg_name s] @ (case sg_primary_name s of None \<Rightarrow> [] | Some name \<Rightarrow> [name])"

definition suggestion_first_word_count :: "suggestion \<Rightarrow> (str \<Rightarrow> nat option) \<Rightarrow> nat" where
  "suggestion_first_word_count s counts =
     fold max (map (first_word_count counts) (suggestion_name_spellings s)) 0"

definition history_priority_tenths :: "nat \<Rightarrow> int" where
  "history_priority_tenths n = (if n = 0 then 0 else if n = 1 then 500 else 750 + int (min n 10))"

definition effective_priority_tenths :: "suggestion \<Rightarrow> (str \<Rightarrow> nat option) \<Rightarrow> int" where
  "effective_priority_tenths s counts =
     max (clamp 0 100 (sg_priority s) * 10)
       (if sg_argument_value s then 0 else history_priority_tenths (suggestion_first_word_count s counts))"

text \<open>The two acceptance indexes of a request.\<close>

record acceptance_index =
  ai_commands :: entries
  ai_scoped :: entries

definition accepted_at :: "acceptance_index \<Rightarrow> str \<Rightarrow> suggestion \<Rightarrow> nat option" where
  "accepted_at acceptance root_command s =
     (let name = unwrap_or (sg_name s) (sg_primary_name s)
      in if sg_argument_value s
         then Option.bind (sg_acceptance_scope s) (\<lambda>scope. timestamp (ai_scoped acceptance) scope name)
         else timestamp (ai_commands acceptance) root_command name)"

text \<open>\<open>fl\<close> rounds a number to a double. Every operation of the score rounds once; the scores are finite
  and not negative, so comparing their bits is comparing their values.\<close>

definition effective_priority_score ::
  "(rat \<Rightarrow> rat) \<Rightarrow> suggestion \<Rightarrow> (str \<Rightarrow> nat option) \<Rightarrow> acceptance_index \<Rightarrow> str \<Rightarrow> bool \<Rightarrow> rat" where
  "effective_priority_score fl s counts acceptance root_command use_acceptance =
     (let priority = fl (of_int (effective_priority_tenths s counts) / 10)
      in if use_acceptance \<and> sg_kind s \<noteq> lit ''auto-execute'' \<and> sg_name s \<noteq> lit ''../'' \<and> sg_name s \<noteq> [c_hook_arrow]
         then case accepted_at acceptance root_command s of
                None \<Rightarrow> priority
              | Some t \<Rightarrow>
                  fl ((if 50 \<le> priority \<and> priority \<le> 75 then 75 else priority)
                      + fl (fl (of_nat t) / 10000000000000))
         else priority)"

section \<open>The order of the rows\<close>

definition better_match :: "match_result \<Rightarrow> match_result \<Rightarrow> bool" where
  "better_match left right \<longleftrightarrow>
     bucket left < bucket right \<or> (bucket left = bucket right \<and> ms_score left > ms_score right)"

definition best_match :: "(str \<Rightarrow> str) \<Rightarrow> suggestion \<Rightarrow> str \<Rightarrow> match_result option" where
  "best_match lc s query0 =
     (let query = unwrap_or query0 (sg_query_term s);
          best = match_score lc (sg_name s) query True
      in case sg_display_name s of
           None \<Rightarrow> best
         | Some display_name \<Rightarrow>
             (case match_score lc display_name query True of
                None \<Rightarrow> best
              | Some candidate \<Rightarrow>
                  (case best of
                     None \<Rightarrow> Some candidate
                   | Some current \<Rightarrow> (if better_match candidate current then Some candidate else best))))"

definition matching_term :: "complete_result \<Rightarrow> str" where
  "matching_term result = (if cr_match_term result = [] then cr_search_term result else cr_match_term result)"

definition completion_prefix :: "str list \<Rightarrow> str \<Rightarrow> str" where
  "completion_prefix tokens search_term =
     (if tokens = [] \<or> (length tokens = 1 \<and> search_term \<noteq> []) then []
      else if search_term = [] then str_join [c_space] tokens
      else str_join [c_space] (take (length tokens - 1) tokens))"

text \<open>The sort key; \<open>Reverse\<close> is negation, and \<open>u8::MAX\<close> stands for no match.\<close>

definition match_key :: "(str \<Rightarrow> str) \<Rightarrow> str \<Rightarrow> suggestion \<Rightarrow> nat \<times> int" where
  "match_key lc query s =
     (case (if query = [] then None else best_match lc s query) of
        None \<Rightarrow> (255, 0)
      | Some m \<Rightarrow> (bucket m, - ms_score m))"

definition rank_compare ::
  "(str \<Rightarrow> str) \<Rightarrow> str \<Rightarrow> (suggestion \<Rightarrow> rat) \<Rightarrow> suggestion \<Rightarrow> suggestion \<Rightarrow> ordering" where
  "rank_compare lc query score a b =
     cmp_then (cmp_of (sg_kind a \<noteq> lit ''auto-execute'') (sg_kind b \<noteq> lit ''auto-execute''))
       (cmp_then (cmp_of (fst (match_key lc query a)) (fst (match_key lc query b)))
         (cmp_then (cmp_of (snd (match_key lc query a)) (snd (match_key lc query b)))
           (cmp_of (- score a) (- score b))))"

definition same_row :: "suggestion \<Rightarrow> suggestion \<Rightarrow> bool" where
  "same_row existing s \<longleftrightarrow>
     sg_name existing = sg_name s \<and> sg_insert_value existing = sg_insert_value s \<and>
     sg_display_name existing = sg_display_name s \<and> sg_args_hint existing = sg_args_hint s"

definition deduplicate :: "suggestion list \<Rightarrow> suggestion list" where
  "deduplicate rows =
     fold (\<lambda>s kept. if list_ex (\<lambda>existing. same_row existing s) kept then kept else kept @ [s]) rows []"

text \<open>The comparison of two rows of a result in a request.\<close>

definition ranking ::
  "(rat \<Rightarrow> rat) \<Rightarrow> (str \<Rightarrow> str) \<Rightarrow> str list \<Rightarrow> frecency \<Rightarrow> acceptance_index \<Rightarrow> str \<Rightarrow> bool \<Rightarrow> complete_result \<Rightarrow>
   suggestion \<Rightarrow> suggestion \<Rightarrow> ordering" where
  "ranking fl lc tokens fr acceptance root_command0 alphabetical result =
     (let query = matching_term result;
          counts = next_word_counts fr (completion_prefix tokens query);
          root_command = (if root_command0 = [] then (case tokens of [] \<Rightarrow> [] | t # _ \<Rightarrow> t) else root_command0)
      in rank_compare lc query
           (\<lambda>s. effective_priority_score fl s counts acceptance root_command (\<not> alphabetical)))"

definition apply_with_acceptance ::
  "(rat \<Rightarrow> rat) \<Rightarrow> (str \<Rightarrow> str) \<Rightarrow> str list \<Rightarrow> frecency \<Rightarrow> acceptance_index \<Rightarrow> str \<Rightarrow> bool \<Rightarrow> complete_result \<Rightarrow> complete_result"
where
  "apply_with_acceptance fl lc tokens fr acceptance root_command alphabetical result =
     (let rows = sort_by (ranking fl lc tokens fr acceptance root_command alphabetical result) (cr_suggestions result)
      in result\<lparr>cr_suggestions := (if length rows \<le> 50 then deduplicate rows else rows)\<rparr>)"

section \<open>Merging history rows\<close>

definition history_prefix :: "str list \<Rightarrow> str \<Rightarrow> str option" where
  "history_prefix tokens query =
     (if tokens = [] \<or> (length tokens = 1 \<and> query \<noteq> []) then None
      else
        (let prefix_text = (if query = [] then str_join [c_space] tokens
                            else str_join [c_space] (take (length tokens - 1) tokens))
         in if prefix_text = [] then None else Some (prefix_text @ [c_space])))"

definition history_prefix_from_buffer :: "str \<Rightarrow> bool \<Rightarrow> str list \<Rightarrow> str option" where
  "history_prefix_from_buffer command_buffer ends_with_space tokens =
     (if tokens = [] \<or> (length tokens = 1 \<and> \<not> ends_with_space) then None
      else if ends_with_space
      then Some (if ends_with command_buffer [c_space] then command_buffer else command_buffer @ [c_space])
      else
        (let raw = current_token_raw command_buffer;
             inner = last tokens
         in if str_len command_buffer < str_len raw then history_prefix tokens inner
            else
              (let start = str_len command_buffer - str_len raw;
                   prefix_end =
                     (if starts_with_char raw c_squote \<or> starts_with_char raw c_dquote \<or>
                         starts_with raw [c_dollar, c_squote]
                      then start + (str_len raw - str_len inner) else start)
               in case str_upto command_buffer (min prefix_end (str_len command_buffer)) of
                    None \<Rightarrow> None
                  | Some prefix_text \<Rightarrow> (if prefix_text = [] then None else Some prefix_text))))"

definition merge_history_with_prefix ::
  "(str \<Rightarrow> str) \<Rightarrow> str list \<Rightarrow> str option \<Rightarrow> frecency \<Rightarrow> bool \<Rightarrow> complete_result \<Rightarrow> complete_result" where
  "merge_history_with_prefix lc tokens buffer_prefix fr fuzzy result =
     (if tokens = [] then result
      else
        (let query = matching_term result;
             history =
               (case or_else buffer_prefix (history_prefix tokens query) of
                  Some prefix_text \<Rightarrow> history_suffix_suggestions lc fr prefix_text query fuzzy
                | None \<Rightarrow> history_suggestions lc fr query fuzzy False);
             static_names = concat (map suggestion_name_spellings (cr_suggestions result))
         in result\<lparr>cr_suggestions := cr_suggestions result @ filter (\<lambda>item. sg_name item \<notin> set static_names) history\<rparr>))"

section \<open>The ranked rows\<close>

interpretation ranking: total_compare "ranking fl lc tokens fr acceptance root_command alphabetical result"
  for fl lc tokens fr acceptance root_command alphabetical result
  unfolding ranking_def rank_compare_def Let_def by (intro total_compare_then total_compare_key)

lemma subseq_set: "subseq xs ys \<Longrightarrow> set xs \<subseteq> set ys"
  by (induction rule: list_emb.induct) auto

lemma subseq_sorted_wrt: "subseq xs ys \<Longrightarrow> sorted_wrt P ys \<Longrightarrow> sorted_wrt P xs"
  by (induction rule: list_emb.induct) (auto dest: subseq_set)

lemma same_row_refl [simp]: "same_row s s"
  by (simp add: same_row_def)

lemma deduplicate_simps [simp]:
  "deduplicate [] = []"
  "deduplicate (rows @ [s]) =
     (if \<exists>k \<in> set (deduplicate rows). same_row k s then deduplicate rows else deduplicate rows @ [s])"
  by (auto simp: deduplicate_def list_ex_iff)

lemma deduplicate_subseq: "subseq (deduplicate rows) rows"
  by (induction rows rule: rev_induct) (auto intro: list_emb_append_mono subseq_rev_drop_many)

lemma deduplicate_distinct: "sorted_wrt (\<lambda>a b. \<not> same_row a b) (deduplicate rows)"
  by (induction rows rule: rev_induct) (auto simp: sorted_wrt_append)

lemma deduplicate_covers:
  "sorted_wrt P rows \<Longrightarrow> (\<And>s. P s s) \<Longrightarrow> s \<in> set rows \<Longrightarrow> \<exists>k \<in> set (deduplicate rows). same_row k s \<and> P k s"
proof (induction rows rule: rev_induct)
  case (snoc x rows)
  show ?case
  proof (cases "s = x")
    case True
    have sub: "set (deduplicate rows) \<subseteq> set rows" using deduplicate_subseq by (rule subseq_set)
    show ?thesis
    proof (cases "\<exists>k \<in> set (deduplicate rows). same_row k x")
      case found: True
      then obtain k where "k \<in> set (deduplicate rows)" "same_row k x" by blast
      moreover from this sub have "P k x" using snoc.prems(1) by (auto simp: sorted_wrt_append)
      ultimately show ?thesis using True found by auto
    qed (use True snoc.prems(2) in auto)
  next
    case False
    with snoc show ?thesis by (auto simp: sorted_wrt_append)
  qed
qed simp

text \<open>The ranked rows, by the comparison the code sorts with.\<close>

lemma ranked_rows_cmp:
  fixes fl lc tokens fr acceptance root_command alphabetical result
  defines "cmp \<equiv> ranking fl lc tokens fr acceptance root_command alphabetical result"
    and "rows \<equiv> cr_suggestions result"
    and "out \<equiv> cr_suggestions (apply_with_acceptance fl lc tokens fr acceptance root_command alphabetical result)"
  shows "sorted_wrt (\<lambda>a b. cmp a b \<noteq> Greater) out \<and>
     (if length rows > 50
      then mset out = mset rows \<and> (\<forall>k. filter (\<lambda>s. cmp k s = Equal) out = filter (\<lambda>s. cmp k s = Equal) rows)
      else set out \<subseteq> set rows \<and> sorted_wrt (\<lambda>a b. \<not> same_row a b) out \<and>
        (\<forall>s \<in> set rows. \<exists>k \<in> set out. same_row k s \<and> cmp k s \<noteq> Greater))"
proof -
  let ?sorted = "sort_by cmp rows"
  have out: "out = (if length rows > 50 then ?sorted else deduplicate ?sorted)"
    by (simp add: out_def rows_def cmp_def apply_with_acceptance_def Let_def)
  have sorted: "sorted_wrt (\<lambda>a b. cmp a b \<noteq> Greater) ?sorted"
    using ranking.sorted_sort_by unfolding cmp_def ranking.le_def .
  have refl: "cmp s s \<noteq> Greater" for s unfolding cmp_def by (simp add: ranking.cmp_refl)
  show ?thesis
  proof (cases "length rows > 50")
    case True
    moreover have "\<forall>k. filter (\<lambda>s. cmp k s = Equal) ?sorted = filter (\<lambda>s. cmp k s = Equal) rows"
      using ranking.stable_sort_by unfolding cmp_def by blast
    ultimately show ?thesis using sorted by (simp add: out)
  next
    case False
    have sub: "subseq (deduplicate ?sorted) ?sorted" by (rule deduplicate_subseq)
    then have "sorted_wrt (\<lambda>a b. cmp a b \<noteq> Greater) (deduplicate ?sorted)"
      using sorted by (rule subseq_sorted_wrt)
    moreover have "set (deduplicate ?sorted) \<subseteq> set rows" using subseq_set [OF sub] by simp
    moreover have "\<forall>s \<in> set rows. \<exists>k \<in> set (deduplicate ?sorted). same_row k s \<and> cmp k s \<noteq> Greater"
      using deduplicate_covers [OF sorted refl] by simp
    ultimately show ?thesis using False by (simp add: out deduplicate_distinct)
  qed
qed

text \<open>
  The order of the list as its reader sees it, without the comparison function. The grade of a text says
  how it matches a query, smaller is better; a row has the better grade of its name and its display name
  for its own query term.
\<close>

definition text_grade :: "(str \<Rightarrow> str) \<Rightarrow> str \<Rightarrow> str \<Rightarrow> nat \<times> int" where
  "text_grade lc q text =
     (if q = [] then (5, 0) else if text = q then (0, 0) else if lc text = lc q then (1, 0)
      else if starts_with text q then (2, 0) else if starts_with (lc text) (lc q) then (3, 0)
      else case fuzzy_match lc text q of Some m \<Rightarrow> (4, - fm_score m) | None \<Rightarrow> (5, 0))"

definition better_grade :: "nat \<times> int \<Rightarrow> nat \<times> int \<Rightarrow> bool" where
  "better_grade g h \<longleftrightarrow> fst g < fst h \<or> fst g = fst h \<and> snd g < snd h"

definition row_grade :: "(str \<Rightarrow> str) \<Rightarrow> str \<Rightarrow> suggestion \<Rightarrow> nat \<times> int" where
  "row_grade lc query s =
     (let q = (if query = [] then [] else case sg_query_term s of Some q \<Rightarrow> q | None \<Rightarrow> query);
          name = text_grade lc q (sg_name s)
      in case sg_display_name s of
           None \<Rightarrow> name
         | Some display \<Rightarrow> (if better_grade (text_grade lc q display) name then text_grade lc q display else name))"

text \<open>
  The priority of a row: its own between 0 and 100, or what its use in the history gives, and for a row
  accepted before a little more, the later the more, with the ordinary ones lifted above all others.
\<close>

definition row_priority :: "(rat \<Rightarrow> rat) \<Rightarrow> suggestion \<Rightarrow> nat \<Rightarrow> nat option \<Rightarrow> rat" where
  "row_priority fl s uses accepted =
     (let given = of_int (max 0 (min 100 (sg_priority s)));
          used = (if sg_argument_value s \<or> uses = 0 then 0 else if uses = 1 then 50 else 75 + of_nat (min uses 10) / 10);
          p = fl (max given used)
      in case accepted of None \<Rightarrow> p | Some time \<Rightarrow> fl ((if p < 50 \<or> 75 < p then p else 75) + fl (fl (of_nat time) / 10000000000000)))"

definition stands_before :: "(str \<Rightarrow> str) \<Rightarrow> str \<Rightarrow> (suggestion \<Rightarrow> rat) \<Rightarrow> suggestion \<Rightarrow> suggestion \<Rightarrow> bool" where
  "stands_before lc query priority a b \<longleftrightarrow>
     (if (sg_kind a = lit ''auto-execute'') \<noteq> (sg_kind b = lit ''auto-execute'') then sg_kind a = lit ''auto-execute''
      else if row_grade lc query a \<noteq> row_grade lc query b then better_grade (row_grade lc query a) (row_grade lc query b)
      else priority b \<le> priority a)"

definition shown_row :: "suggestion \<Rightarrow> str \<times> str option \<times> str option \<times> str" where
  "shown_row s = (sg_name s, sg_insert_value s, sg_display_name s, sg_args_hint s)"

definition grade_of :: "match_result option \<Rightarrow> nat \<times> int" where
  "grade_of m = (case m of None \<Rightarrow> (5, 0) | Some m \<Rightarrow> (bucket m, if ms_kind m = Fuzzy then - ms_score m else 0))"

definition fixed_score :: "match_result option \<Rightarrow> bool" where
  "fixed_score m \<longleftrightarrow> (case m of None \<Rightarrow> True | Some m \<Rightarrow> ms_kind m \<noteq> Fuzzy \<longrightarrow> ms_score m = - int (bucket m))"

lemma text_grade_score: "text_grade lc q text = grade_of (match_score lc text q True) \<and> fixed_score (match_score lc text q True)"
  by (auto simp: text_grade_def grade_of_def fixed_score_def match_score_def bucket_def split: option.split)

lemma kind_bucket_facts: "kind_bucket k = kind_bucket k' \<longleftrightarrow> k = k'" "kind_bucket k < 5" "k \<noteq> Fuzzy \<Longrightarrow> kind_bucket k < 4"
  by (cases k; cases k'; simp)+

lemma better_grade_match:
  "fixed_score (Some m) \<Longrightarrow> fixed_score (Some m') \<Longrightarrow> better_grade (grade_of (Some m)) (grade_of (Some m')) \<longleftrightarrow> better_match m m'"
  by (auto simp: better_grade_def better_match_def grade_of_def fixed_score_def bucket_def kind_bucket_facts)

lemma row_grade_match: "row_grade lc query s = grade_of (if query = [] then None else best_match lc s query) \<and>
    fixed_score (if query = [] then None else best_match lc s query)"
proof (cases "query = []")
  case True
  then show ?thesis by (auto simp: row_grade_def Let_def text_grade_def grade_of_def fixed_score_def better_grade_def split: option.split)
next
  case False
  let ?q = "unwrap_or query (sg_query_term s)"
  have q: "(case sg_query_term s of Some q \<Rightarrow> q | None \<Rightarrow> query) = ?q" by (simp add: unwrap_or_def split: option.split)
  have none: "better_grade (grade_of (Some m)) (grade_of None)" for m
    using kind_bucket_facts(2) [of "ms_kind m"] by (auto simp: better_grade_def grade_of_def bucket_def)
  show ?thesis
  proof (cases "sg_display_name s")
    case None
    then show ?thesis using False text_grade_score [of lc ?q "sg_name s"] by (simp add: row_grade_def best_match_def q Let_def)
  next
    case (Some display)
    note grades = text_grade_score [of lc ?q "sg_name s"] text_grade_score [of lc ?q display]
    show ?thesis
    proof (cases "match_score lc display ?q True")
      case miss: None
      have "\<not> better_grade (grade_of None) (grade_of m)" for m
        by (cases m) (use kind_bucket_facts(2) in \<open>auto simp: better_grade_def grade_of_def bucket_def not_less less_imp_le dest: less_imp_neq\<close>)
      then show ?thesis using False grades Some miss by (simp add: row_grade_def best_match_def q Let_def)
    next
      case hit: (Some m)
      show ?thesis
        using False grades Some hit none [of m] better_grade_match [of m]
        by (cases "match_score lc (sg_name s) ?q True") (auto simp: row_grade_def best_match_def q Let_def grade_of_def)
    qed
  qed
qed

lemma match_key_grade:
  assumes "fixed_score m" "fixed_score m'"
  defines "key \<equiv> \<lambda>m. case m of None \<Rightarrow> (255 :: nat, 0 :: int) | Some m \<Rightarrow> (bucket m, - ms_score m)"
  shows "(fst (key m) < fst (key m') \<or> fst (key m) = fst (key m') \<and> snd (key m) < snd (key m')) \<longleftrightarrow> better_grade (grade_of m) (grade_of m')" (is ?order)
    and "key m = key m' \<longleftrightarrow> grade_of m = grade_of m'" (is ?same)
proof -
  have b: "bucket m < 5" for m using kind_bucket_facts(2) by (simp add: bucket_def)
  have kinds: "bucket x = bucket y \<longleftrightarrow> ms_kind x = ms_kind y" for x y by (simp add: bucket_def kind_bucket_facts)
  consider "m = None" "m' = None" | x where "m = Some x" "m' = None" | x where "m = None" "m' = Some x"
    | x y where "m = Some x" "m' = Some y" by (cases m; cases m') blast+
  then have "?order \<and> ?same"
  proof cases
    case (2 x)
    then show ?thesis using b [of x] by (simp add: key_def better_grade_def grade_of_def)
  next
    case (3 x)
    then show ?thesis using b [of x] by (simp add: key_def better_grade_def grade_of_def)
  next
    case (4 x y)
    then show ?thesis using assms(1,2) kinds [of x y] by (auto simp: key_def better_grade_def grade_of_def fixed_score_def)
  qed (simp add: key_def better_grade_def grade_of_def)
  then show ?order ?same by blast+
qed

lemma priority_score:
  "effective_priority_score fl s counts acceptance root_command use =
     row_priority fl s (suggestion_first_word_count s counts)
       (if use \<and> sg_kind s \<noteq> lit ''auto-execute'' \<and> sg_name s \<noteq> lit ''../'' \<and> sg_name s \<noteq> [c_hook_arrow]
        then accepted_at acceptance root_command s else None)"
proof -
  let ?n = "suggestion_first_word_count s counts"
  have max: "of_int (max a b) / (10 :: rat) = max (of_int a / 10) (of_int b / 10)" for a b :: int by (simp add: max_def)
  have "of_int (if sg_argument_value s then 0 else history_priority_tenths ?n) / (10 :: rat) =
      (if sg_argument_value s \<or> ?n = 0 then 0 else if ?n = 1 then 50 else 75 + of_nat (min ?n 10) / 10)"
    by (simp add: history_priority_tenths_def add_divide_distrib del: of_nat_min)
  then have "of_int (effective_priority_tenths s counts) / (10 :: rat) = Orderings.max (of_int (Orderings.max 0 (min 100 (sg_priority s))))
      (if sg_argument_value s \<or> ?n = 0 then 0 else if ?n = 1 then 50 else 75 + of_nat (min ?n 10) / 10)"
    unfolding effective_priority_tenths_def max by (simp add: clamp_def)
  moreover have band: "(if 50 \<le> p \<and> p \<le> 75 then 75 else p) = (if p < 50 \<or> 75 < p then p else 75)" for p :: rat by auto
  ultimately have "effective_priority_score fl s counts acceptance root_command use = row_priority fl s ?n (if c then accepted_at acceptance root_command s else None)"
    if "c \<longleftrightarrow> use \<and> sg_kind s \<noteq> lit ''auto-execute'' \<and> sg_name s \<noteq> lit ''../'' \<and> sg_name s \<noteq> [c_hook_arrow]" for c
    unfolding effective_priority_score_def row_priority_def Let_def that [symmetric]
    by (cases "accepted_at acceptance root_command s"; cases c) (simp_all only: if_True if_False option.case band)
  then show ?thesis by blast
qed

lemma rank_compare_lex:
  "cmp_then (cmp_of x y) (cmp_then (cmp_of (fst g) (fst h)) (cmp_then (cmp_of (snd g) (snd h)) (cmp_of (- p) (- q)))) \<noteq> Greater \<longleftrightarrow>
     (if x \<noteq> y then x < y else if g \<noteq> h then fst g < fst h \<or> fst g = fst h \<and> snd g < snd h else q \<le> (p :: rat))"
  by (auto simp: cmp_then_eq_iff prod_eq_iff)

lemma ranking_stands_before:
  "ranking fl lc tokens fr acceptance root_command0 alphabetical result a b \<noteq> Greater \<longleftrightarrow>
   stands_before lc (matching_term result) (\<lambda>s. effective_priority_score fl s (next_word_counts fr (completion_prefix tokens (matching_term result))) acceptance
     (if root_command0 = [] then (case tokens of [] \<Rightarrow> [] | t # _ \<Rightarrow> t) else root_command0) (\<not> alphabetical)) a b"
proof -
  let ?q = "matching_term result"
  let ?m = "\<lambda>s. if ?q = [] then None else best_match lc s ?q"
  have key: "match_key lc ?q s = (case ?m s of None \<Rightarrow> (255, 0) | Some m \<Rightarrow> (bucket m, - ms_score m))" for s by (simp add: match_key_def)
  note g = row_grade_match [of lc ?q a] row_grade_match [of lc ?q b]
  note cmp = match_key_grade [of "?m a" "?m b", folded key]
  have order: "fst (match_key lc ?q a) < fst (match_key lc ?q b) \<or> fst (match_key lc ?q a) = fst (match_key lc ?q b) \<and> snd (match_key lc ?q a) < snd (match_key lc ?q b)
      \<longleftrightarrow> better_grade (row_grade lc ?q a) (row_grade lc ?q b)"
    "match_key lc ?q a = match_key lc ?q b \<longleftrightarrow> row_grade lc ?q a = row_grade lc ?q b"
    using cmp g by simp_all
  show ?thesis unfolding ranking_def rank_compare_def Let_def rank_compare_lex order stands_before_def by auto
qed

text \<open>
  Property C16. The rows of a result after ranking: they are in order, auto-execute rows before others, then
  exact matches, exact ones but for case, prefixes, prefixes but for case, fuzzy matches by their score
  and the rest, each by name or display name, and of equal matches the higher priority first, where the
  priority is the row's own or that of its use in the history, raised by its last acceptance unless the
  list is alphabetical; above 50 rows nothing is lost and rows that rank alike keep their order; up to 50
  rows no two rows show the same name, insertion, display name and argument hint, and for every row
  given there is one that shows the same and may stand before it.
\<close>

theorem ranked_rows:
  fixes fl lc tokens fr acceptance root_command alphabetical result
  defines "rows \<equiv> cr_suggestions result"
    and "out \<equiv> cr_suggestions (apply_with_acceptance fl lc tokens fr acceptance root_command alphabetical result)"
    and "command \<equiv> if root_command = [] then (case tokens of [] \<Rightarrow> [] | t # _ \<Rightarrow> t) else root_command"
    and "counts \<equiv> next_word_counts fr (completion_prefix tokens (matching_term result))"
  defines "priority \<equiv> \<lambda>s. row_priority fl s (suggestion_first_word_count s counts)
      (if \<not> alphabetical \<and> sg_kind s \<noteq> lit ''auto-execute'' \<and> sg_name s \<noteq> lit ''../'' \<and> sg_name s \<noteq> [c_hook_arrow]
       then accepted_at acceptance command s else None)"
  defines "before \<equiv> stands_before lc (matching_term result) priority"
  shows "sorted_wrt before out \<and>
     (if length rows > 50
      then mset out = mset rows \<and> (\<forall>k. filter (\<lambda>s. before k s \<and> before s k) out = filter (\<lambda>s. before k s \<and> before s k) rows)
      else set out \<subseteq> set rows \<and> distinct (map shown_row out) \<and> (\<forall>s \<in> set rows. \<exists>k \<in> set out. shown_row k = shown_row s \<and> before k s))"
proof -
  define cmp where "cmp = ranking fl lc tokens fr acceptance root_command alphabetical result"
  have before: "before a b \<longleftrightarrow> cmp a b \<noteq> Greater" for a b
    unfolding before_def priority_def cmp_def ranking_stands_before counts_def command_def priority_score ..
  have tied: "before a b \<and> before b a \<longleftrightarrow> cmp a b = Equal" for a b
    unfolding before cmp_def using ranking.equal_iff_le unfolding ranking.le_def by blast
  have shown_row: "shown_row a = shown_row b \<longleftrightarrow> same_row a b" for a b by (simp add: shown_row_def same_row_def)
  have "sorted_wrt (\<lambda>a b. \<not> same_row a b) xs \<Longrightarrow> distinct (map shown_row xs)" for xs by (induction xs) (auto simp: shown_row [symmetric])
  then show ?thesis using ranked_rows_cmp [of fl lc tokens fr acceptance root_command alphabetical result, folded cmp_def]
    unfolding tied unfolding before [abs_def] shown_row rows_def out_def Let_def by (auto split: if_splits)
qed

definition sample_row :: "string \<Rightarrow> int \<Rightarrow> suggestion" where
  "sample_row name p = with_priority p (suggestion_new (lit name) [] (lit ''subcommand''))"

definition sample_result :: complete_result where
  "sample_result = result_default\<lparr>cr_suggestions := [sample_row ''add'' 50, sample_row ''commit'' 75, sample_row ''add'' 50]\<rparr>"

definition no_acceptance :: acceptance_index where
  "no_acceptance = \<lparr>ai_commands = [], ai_scoped = []\<rparr>"

theorem ranked_rows_witness:
  "let out = cr_suggestions (apply_with_acceptance id id [lit ''git''] (from_commands []) no_acceptance [] False sample_result)
   in distinct (map shown_row out) \<and> (\<exists>k \<in> set out. shown_row k = shown_row (sample_row ''commit'' 75))"
  using ranked_rows [where fl = id and lc = id and tokens = "[lit ''git'']" and fr = "from_commands []" and
      acceptance = no_acceptance and root_command = "[]" and alphabetical = False and result = sample_result]
  unfolding Let_def by (auto simp: sample_result_def)

section \<open>Recency\<close>

text \<open>Rounding to a double: monotone, and exact on the whole numbers a double holds.\<close>

definition rounds :: "(rat \<Rightarrow> rat) \<Rightarrow> bool" where
  "rounds fl \<longleftrightarrow> mono fl \<and> (\<forall>n :: nat. n \<le> 2 ^ 53 \<longrightarrow> fl (of_nat n) = of_nat n)"

lemma rounds_exact: "rounds fl \<Longrightarrow> fl 0 = 0 \<and> fl 50 = 50 \<and> fl 75 = 75"
proof -
  assume "rounds fl"
  then have "fl (of_nat n) = of_nat n" if "n \<le> 2 ^ 53" for n using that by (simp add: rounds_def)
  from this [of 0] this [of 50] this [of 75] show ?thesis by simp
qed

lemma rounds_mono: "rounds fl \<Longrightarrow> x \<le> y \<Longrightarrow> fl x \<le> fl y"
  by (auto simp: rounds_def dest: monoD)

definition recency :: "(rat \<Rightarrow> rat) \<Rightarrow> nat \<Rightarrow> rat" where
  "recency fl t = fl (fl (of_nat t) / 10000000000000)"

lemma recency_mono:
  assumes "rounds fl" and "t' \<le> t"
  shows "recency fl t' \<le> recency fl t"
proof -
  have "fl (of_nat t') \<le> fl (of_nat t)" using assms(2) by (intro rounds_mono [OF assms(1)]) simp
  then have "fl (of_nat t') / 10000000000000 \<le> fl (of_nat t) / 10000000000000" by (rule divide_right_mono) simp
  then show ?thesis unfolding recency_def by (rule rounds_mono [OF assms(1)])
qed

lemma recency_nonneg: "rounds fl \<Longrightarrow> 0 \<le> recency fl t"
  using recency_mono [of fl 0 t] rounds_exact [of fl] by (simp add: recency_def)

text \<open>Rows whose acceptance counts.\<close>

definition recency_eligible :: "suggestion \<Rightarrow> bool" where
  "recency_eligible s \<longleftrightarrow>
     sg_kind s \<noteq> lit ''auto-execute'' \<and> sg_name s \<noteq> lit ''../'' \<and> sg_name s \<noteq> [c_hook_arrow]"

lemma score_cases:
  "effective_priority_score fl s counts acceptance cmd True =
     (let priority = fl (of_int (effective_priority_tenths s counts) / 10)
      in case (if recency_eligible s then accepted_at acceptance cmd s else None) of
           None \<Rightarrow> priority
         | Some t \<Rightarrow> fl ((if 50 \<le> priority \<and> priority \<le> 75 then 75 else priority) + recency fl t))"
  by (cases "accepted_at acceptance cmd s")
    (auto simp: effective_priority_score_def recency_eligible_def recency_def Let_def)

text \<open>
  Among rows of ordinary priority the most recently accepted one wins: let \<open>a\<close> be a row
  whose acceptance counts, accepted at time \<open>t\<close>, with an effective priority between 50 and 75, and
  \<open>b\<close> any row with an effective priority of at most 75 that was accepted no later or never. Then the
  score of \<open>b\<close> is at most that of \<open>a\<close>, however doubles are rounded.
\<close>

theorem latest_acceptance_wins:
  assumes "rounds fl" and "recency_eligible a" and "accepted_at acceptance cmd a = Some t"
    and "500 \<le> effective_priority_tenths a counts" and "effective_priority_tenths a counts \<le> 750"
    and "effective_priority_tenths b counts \<le> 750"
    and "\<forall>t'. accepted_at acceptance cmd b = Some t' \<longrightarrow> t' \<le> t"
  shows "effective_priority_score fl b counts acceptance cmd True \<le>
         effective_priority_score fl a counts acceptance cmd True"
proof -
  let ?p = "\<lambda>s. fl (of_int (effective_priority_tenths s counts) / 10)"
  note exact = rounds_exact [OF assms(1)] and mono = rounds_mono [OF assms(1)]
  have tenths: "of_int (effective_priority_tenths s counts) / 10 \<le> (75 :: rat)"
    if "effective_priority_tenths s counts \<le> 750" for s
    using of_int_le_iff [of "effective_priority_tenths s counts" 750, where ?'a = rat] that by simp
  have "(50 :: rat) \<le> of_int (effective_priority_tenths a counts) / 10"
    using of_int_le_iff [of 500 "effective_priority_tenths a counts", where ?'a = rat] assms(4) by simp
  then have "50 \<le> ?p a" "?p a \<le> 75" using mono [of 50] mono [OF tenths [OF assms(5)]] exact by auto
  then have a: "effective_priority_score fl a counts acceptance cmd True = fl (75 + recency fl t)"
    using assms(2,3) by (simp add: score_cases Let_def)
  have b: "?p b \<le> 75" using mono [OF tenths [OF assms(6)]] exact by simp
  show ?thesis
  proof (cases "if recency_eligible b then accepted_at acceptance cmd b else None")
    case None
    then have "effective_priority_score fl b counts acceptance cmd True = ?p b" by (simp add: score_cases Let_def)
    also have "\<dots> \<le> fl 75" using b exact by simp
    also have "\<dots> \<le> fl (75 + recency fl t)" using recency_nonneg [OF assms(1)] by (intro mono) simp
    finally show ?thesis by (simp add: a)
  next
    case (Some t')
    then have "t' \<le> t" using assms(7) by (simp split: if_splits)
    then have "(if 50 \<le> ?p b \<and> ?p b \<le> 75 then 75 else ?p b) + recency fl t' \<le> 75 + recency fl t"
      using b recency_mono [OF assms(1)] by (intro add_mono) auto
    then show ?thesis unfolding a using Some by (simp add: score_cases Let_def mono)
  qed
qed

theorem latest_acceptance_wins_witness:
  "let acceptance = \<lparr>ai_commands = [((lit ''git'', lit ''add''), 2000), ((lit ''git'', lit ''commit''), 1000)], ai_scoped = []\<rparr>
   in effective_priority_score id (sample_row ''commit'' 75) (\<lambda>_. None) acceptance (lit ''git'') True \<le>
      effective_priority_score id (sample_row ''add'' 50) (\<lambda>_. None) acceptance (lit ''git'') True"
  unfolding Let_def
  by (rule latest_acceptance_wins [where t = 2000])
    (auto simp: rounds_def recency_eligible_def sample_row_def with_priority_def suggestion_new_def normalize_priority_def
      clamp_def accepted_at_def timestamp_def unwrap_or_def c_hook_arrow_def effective_priority_tenths_def
      history_priority_tenths_def suggestion_first_word_count_def suggestion_name_spellings_def first_word_count_def
      intro: monoI)

section \<open>Merged history rows\<close>

lemma first_seen_facts:
  "set (first_seen seen xs) = set xs - set seen \<and> distinct (first_seen seen xs)"
  by (induction xs arbitrary: seen) auto

lemma length_first_seen: "length (first_seen seen xs) \<le> length xs"
  by (induction xs arbitrary: seen) (auto simp: le_SucI)

lemma length_filter_map: "length (filter_map f xs) \<le> length xs"
  by (induction xs) (auto split: option.split simp: le_SucI)

lemma history_row_facts [simp]:
  "sg_name (history_row counts text) = text" "sg_insert_value (history_row counts text) = Some text"
  by (simp_all add: history_row_def with_priority_def with_insert_value_def suggestion_new_def)

text \<open>The texts of the history that continue a prefix and match the query.\<close>

definition continues_prefix :: "(str \<Rightarrow> str) \<Rightarrow> str list \<Rightarrow> str \<Rightarrow> str \<Rightarrow> bool \<Rightarrow> str \<Rightarrow> bool" where
  "continues_prefix lc lines prefix_text query fuzzy text \<longleftrightarrow>
     text \<noteq> [] \<and> (\<exists>rest. prefix_text @ rest \<in> set lines \<and> text = trim_end rest) \<and>
     (query = [] \<or> matches_query lc text query fuzzy)"

lemma set_history_suffixes:
  "set (history_suffixes lc fr prefix_text query fuzzy) =
     {text. continues_prefix lc (fr_lines fr) prefix_text query fuzzy text}"
proof -
  have "s \<in> set (history_suffixes lc fr prefix_text query fuzzy) \<longleftrightarrow>
      (\<exists>line \<in> set (fr_lines fr). \<exists>rest. strip_prefix prefix_text line = Some rest \<and> s = trim_end rest) \<and>
      s \<noteq> [] \<and> (query = [] \<or> matches_query lc s query fuzzy)" for s
    unfolding history_suffixes_def set_filter_map by (auto simp: Let_def split: option.splits if_splits)
  then show ?thesis by (auto simp: continues_prefix_def strip_prefix_Some_iff)
qed

text \<open>
  Property C19. History rows after a typed prefix: with the prefix known and at most 10,000 history
  lines, merging keeps the rows of the result as they are and appends one row for each text that
  continues the prefix on some history line, matches the query, and is not a spelling of a row already
  there; no text comes twice, and accepting a row inserts the continuation, not the whole line.
\<close>

theorem merged_history_rows:
  assumes "tokens \<noteq> []"
    and "or_else buffer_prefix (history_prefix tokens (matching_term result)) = Some prefix_text"
    and "length (fr_lines fr) \<le> HISTORY_LIMIT"
  shows "\<exists>new. cr_suggestions (merge_history_with_prefix lc tokens buffer_prefix fr fuzzy result) =
       cr_suggestions result @ new \<and>
     distinct (map sg_name new) \<and> (\<forall>row \<in> set new. sg_insert_value row = Some (sg_name row)) \<and>
     sg_name ` set new =
       {text. continues_prefix lc (fr_lines fr) prefix_text (matching_term result) fuzzy text} -
       (\<Union>row \<in> set (cr_suggestions result). set (suggestion_name_spellings row))"
proof -
  let ?texts = "first_seen [] (history_suffixes lc fr prefix_text (matching_term result) fuzzy)"
  let ?row = "history_row (next_word_counts fr (trim_end prefix_text))"
  let ?static = "\<Union>row \<in> set (cr_suggestions result). set (suggestion_name_spellings row)"
  define new where "new = filter (\<lambda>item. sg_name item \<notin> ?static) (map ?row ?texts)"
  have "length ?texts \<le> HISTORY_LIMIT"
    using length_first_seen [of "[]" "history_suffixes lc fr prefix_text (matching_term result) fuzzy"]
      length_filter_map assms(3) unfolding history_suffixes_def
    by (metis (no_types, lifting) length_rev order_trans)
  then have "cr_suggestions (merge_history_with_prefix lc tokens buffer_prefix fr fuzzy result) =
      cr_suggestions result @ new"
    using assms(1,2) by (simp add: merge_history_with_prefix_def history_suffix_suggestions_def Let_def new_def)
  moreover have names: "map sg_name new = filter (\<lambda>text. text \<notin> ?static) ?texts"
    by (simp add: new_def filter_map comp_def)
  moreover have "distinct (map sg_name new)" unfolding names using first_seen_facts by (intro distinct_filter) blast
  moreover have "\<forall>row \<in> set new. sg_insert_value row = Some (sg_name row)" by (auto simp: new_def)
  moreover have "sg_name ` set new = {text. continues_prefix lc (fr_lines fr) prefix_text (matching_term result) fuzzy text} - ?static"
    using arg_cong [OF names, of set]
      first_seen_facts [of "[]" "history_suffixes lc fr prefix_text (matching_term result) fuzzy"]
    by (auto simp: set_history_suffixes)
  ultimately show ?thesis by blast
qed

theorem merged_history_rows_witness:
  "\<exists>new. cr_suggestions (merge_history_with_prefix id [lit ''git''] None
       (from_commands [(lit ''git push'', 0), (lit ''ls'', 0)]) False result_default) = [] @ new \<and>
     distinct (map sg_name new) \<and> (\<forall>row \<in> set new. sg_insert_value row = Some (sg_name row)) \<and>
     sg_name ` set new =
       {text. continues_prefix id (fr_lines (from_commands [(lit ''git push'', 0), (lit ''ls'', 0)])) (lit ''git '') [] False text}"
proof -
  have "length (fr_lines (add_command c fr)) \<le> Suc (length (fr_lines fr))" for c fr
    by (simp add: add_command_def Let_def)
  from this [of "lit ''ls''" "add_command (lit ''git push'') \<lparr>fr_lines = [], fr_next_words = next_words_default\<rparr>"]
    this [of "lit ''git push''" "\<lparr>fr_lines = [], fr_next_words = next_words_default\<rparr>"]
  have "length (fr_lines (from_commands [(lit ''git push'', 0), (lit ''ls'', 0)])) \<le> HISTORY_LIMIT"
    by (simp add: from_commands_def HISTORY_LIMIT_def del: list.map)
  then show ?thesis
    using merged_history_rows [of "[lit ''git'']" None result_default "lit ''git ''"
        "from_commands [(lit ''git push'', 0), (lit ''ls'', 0)]" id False]
    by (simp add: or_else_def history_prefix_def matching_term_def result_default_def del: list.map) simp
qed

section \<open>Loaded history\<close>

text \<open>The recent window of a shell's history: at most 10,000 commands, oldest first, none blank.\<close>

lemma history_output_window:
  "length (history_commands_from_output_limited output newest_first) \<le> MAX_DATABASE_HISTORY_COMMANDS \<and>
   (\<forall>(command, t) \<in> set (history_commands_from_output_limited output newest_first). trim command \<noteq> [] \<and> t = 0)"
proof -
  let ?commands = "map (\<lambda>command. (command, 0 :: nat)) (filter_map non_empty_history_command (str_lines output))"
  have "\<forall>(command, t) \<in> set ?commands. trim command \<noteq> [] \<and> t = 0"
    by (auto simp: set_filter_map non_empty_history_command_def split: if_splits)
  moreover have "set (history_commands_from_output_limited output newest_first) \<subseteq> set ?commands"
    by (auto simp: history_commands_from_output_limited_def Let_def split: if_splits dest: in_set_takeD in_set_dropD)
  ultimately show ?thesis
    by (auto simp: history_commands_from_output_limited_def Let_def)
qed

end
