(* ===== verification/Active_Arg.thy ===== *)
theory Active_Arg
  imports Walk_Facts
begin

text \<open>
  The argument under the caret (\<open>lookup.rs\<close>, \<open>active_arg\<close>, lines 1387--1591) and the completion
  context built from the walk (\<open>resolve_context\<close>, lines 832--880).
\<close>

section \<open>The scan\<close>

datatype active_arg_source = OptionName | OptionValue | PositionalValue

record active_arg =
  aa_arg :: arg_spec
  aa_slot :: "arg_slot option"
  aa_query :: str
  aa_search_term :: str
  aa_only_suggest_args :: bool
  aa_source :: active_arg_source

text \<open>The parameters of the scan and its loop variables.\<close>

record active_input =
  ai_spec :: spec
  ai_persistent_options :: "option_spec list"
  ai_tokens :: "str list"
  ai_path_end :: nat
  ai_limit :: nat
  ai_ends_with_space :: bool
  ai_query :: str
  ai_raw_query :: str
  ai_parser_directives :: parser_directives
  ai_trace :: walk_trace

record active_state =
  av_index :: nat
  av_positional :: nat
  av_option_arg :: "option_arg_state option"
  av_entered_args :: bool
  av_subcommand_variadic_count :: nat
  av_after_double_dash :: bool

definition current_index :: "active_input \<Rightarrow> nat" where
  "current_index inp = (if ai_ends_with_space inp then length (ai_tokens inp) else length (ai_tokens inp) - 1)"

definition active_init :: "active_input \<Rightarrow> active_state" where
  "active_init inp =
     \<lparr>av_index = ai_path_end inp, av_positional = 0, av_option_arg = None, av_entered_args = False,
      av_subcommand_variadic_count = 0,
      av_after_double_dash = list_ex (\<lambda>token. token = [c_dash, c_dash]) (take (ai_path_end inp) (ai_tokens inp))\<rparr>"

definition active_subcommand_arg :: "active_input \<Rightarrow> active_state \<Rightarrow> arg_spec option" where
  "active_subcommand_arg inp st = positional_arg (sp_args (ai_spec inp)) (av_positional st)"

definition active_options_allowed :: "active_input \<Rightarrow> active_state \<Rightarrow> bool" where
  "active_options_allowed inp st =
     can_consume_options (ai_parser_directives inp) (av_after_double_dash st) (av_entered_args st)
       (av_option_arg st) (active_subcommand_arg inp st) (av_subcommand_variadic_count st)"

definition active_resolve :: "active_input \<Rightarrow> str \<Rightarrow> resolved_option_token option" where
  "active_resolve inp token =
     resolve_option_token_with_persistent (ai_spec inp) (ai_persistent_options inp) token (ai_parser_directives inp)"

definition option_value_arg ::
  "active_input \<Rightarrow> option_spec \<Rightarrow> str \<Rightarrow> str \<Rightarrow> bool \<Rightarrow> active_arg_source \<Rightarrow> active_arg option" where
  "option_value_arg inp opt query search_term only_suggest_args source =
     (case op_args opt of
        [] \<Rightarrow> None
      | arg # _ \<Rightarrow>
          Some \<lparr>aa_arg = arg, aa_slot = Some (slot (ai_trace inp) (Some opt) 0), aa_query = query,
                aa_search_term = search_term, aa_only_suggest_args = only_suggest_args, aa_source = source\<rparr>)"

text \<open>The tail of the loop body: a further value of a variadic option, or a positional token.\<close>

definition active_positional :: "active_input \<Rightarrow> active_state \<Rightarrow> active_state" where
  "active_positional inp st =
     (case av_option_arg st of
        Some oa \<Rightarrow> st\<lparr>av_option_arg := Some (oa\<lparr>oa_count := oa_count oa + 1\<rparr>), av_index := av_index st + 1\<rparr>
      | None \<Rightarrow>
          (if (case active_subcommand_arg inp st of Some arg \<Rightarrow> ar_is_variadic arg | None \<Rightarrow> False)
           then st\<lparr>av_subcommand_variadic_count := av_subcommand_variadic_count st + 1,
                   av_entered_args := True, av_index := av_index st + 1\<rparr>
           else st\<lparr>av_positional := av_positional st + 1,
                   av_entered_args := True, av_index := av_index st + 1\<rparr>))"

text \<open>A token that names an option: \<open>Inl\<close> is an early return.\<close>

definition active_option ::
  "active_input \<Rightarrow> resolved_option_token \<Rightarrow> active_state \<Rightarrow> active_arg option + active_state" where
  "active_option inp resolved st0 =
     (let opt = ro_option resolved; st = st0\<lparr>av_option_arg := None\<rparr>
      in case ro_attached_value resolved of
           Some val \<Rightarrow>
             (if \<not> ai_ends_with_space inp \<and> av_index st = current_index inp
              then Inl (option_value_arg inp opt val (attached_search_term (ai_raw_query inp) resolved val) True OptionValue)
              else Inr (st\<lparr>av_option_arg :=
                             (case op_args opt of
                                arg # _ \<Rightarrow> (if ar_is_variadic arg
                                            then Some \<lparr>oa_option = opt, oa_arg = arg, oa_count = 1\<rparr> else None)
                              | [] \<Rightarrow> None),
                           av_index := av_index st + 1\<rparr>))
         | None \<Rightarrow>
             (case op_args opt of
                [] \<Rightarrow> Inr (active_positional inp st)
              | arg # _ \<Rightarrow>
                  (if av_index st + 1 < ai_limit inp \<and>
                      (should_consume_option_value (ai_spec inp) opt (ai_tokens inp ! (av_index st + 1)) \<or>
                       \<not> ar_is_optional arg)
                   then Inr (st\<lparr>av_option_arg :=
                                 (if ar_is_variadic arg
                                  then Some \<lparr>oa_option = opt, oa_arg = arg, oa_count = 1\<rparr> else None),
                               av_index := av_index st + 2\<rparr>)
                   else Inl (option_value_arg inp opt (ai_query inp) (ai_raw_query inp) False OptionValue))))"

definition active_step :: "active_input \<Rightarrow> active_state \<Rightarrow> active_arg option + active_state" where
  "active_step inp st =
     (let token = ai_tokens inp ! av_index st;
          options_allowed = active_options_allowed inp st
      in if \<not> av_after_double_dash st \<and> token = [c_dash, c_dash] \<and> options_allowed
         then Inr (st\<lparr>av_after_double_dash := True, av_index := av_index st + 1\<rparr>)
         else case (if \<not> av_after_double_dash st \<and> starts_with_char token c_dash \<and> options_allowed
                    then active_resolve inp token else None) of
             Some resolved \<Rightarrow> active_option inp resolved st
           | None \<Rightarrow> Inr (active_positional inp st))"

lemma active_positional_index [simp]: "av_index (active_positional inp st) = Suc (av_index st)"
  by (simp add: active_positional_def split: option.split)

lemma active_step_index: "active_step inp st = Inr st' \<Longrightarrow> av_index st < av_index st'"
  by (auto simp: active_step_def active_option_def Let_def split: if_splits option.splits list.splits)

function active_loop :: "active_input \<Rightarrow> active_state \<Rightarrow> active_arg option + active_state" where
  "active_loop inp st =
     (if av_index st < ai_limit inp
      then case active_step inp st of Inl r \<Rightarrow> Inl r | Inr st' \<Rightarrow> active_loop inp st'
      else Inr st)"
  by pat_completeness auto
termination
  by (relation "measure (\<lambda>(inp, st). ai_limit inp - av_index st)")
    (auto dest: active_step_index intro: diff_less_mono2)

declare active_loop.simps [simp del]

section \<open>After the loop\<close>

text \<open>The token under the caret itself: an attached value, or the last option of a chain. \<open>None\<close>: the
  scan goes on; \<open>Some r\<close>: it returns \<open>r\<close>.\<close>

definition active_current_token :: "active_input \<Rightarrow> active_state \<Rightarrow> active_arg option option" where
  "active_current_token inp st =
     (if ai_ends_with_space inp \<or> length (ai_tokens inp) \<le> current_index inp then None
      else
        (let token = ai_tokens inp ! current_index inp;
             options_allowed = active_options_allowed inp st;
             resolved = (if options_allowed then active_resolve inp token else None);
             early =
               (case resolved of
                  None \<Rightarrow> None
                | Some r \<Rightarrow>
                    (case ro_attached_value r of
                       Some val \<Rightarrow>
                         option_value_arg inp (ro_option r) val (attached_search_term (ai_raw_query inp) r val)
                           True OptionValue
                     | None \<Rightarrow>
                         (if ro_chain r \<noteq> None then option_value_arg inp (ro_option r) [] [] False OptionName else None)))
         in case early of
              Some a \<Rightarrow> Some (Some a)
            | None \<Rightarrow>
                (if starts_with_char token c_dash \<and> \<not> av_after_double_dash st \<and> options_allowed then Some None
                 else None)))"

definition active_finish :: "active_input \<Rightarrow> active_state \<Rightarrow> active_arg option" where
  "active_finish inp st =
     (case av_option_arg st of
        Some oa \<Rightarrow>
          Some \<lparr>aa_arg = oa_arg oa,
                aa_slot = (if oa_count oa < length (op_args (oa_option oa))
                           then Some (slot (ai_trace inp) (Some (oa_option oa)) (oa_count oa)) else None),
                aa_query = ai_query inp, aa_search_term = ai_raw_query inp, aa_only_suggest_args = False,
                aa_source = OptionValue\<rparr>
      | None \<Rightarrow>
          (case active_current_token inp st of
             Some r \<Rightarrow> r
           | None \<Rightarrow>
               (let slot_index = av_positional st + av_subcommand_variadic_count st
                in map_option (\<lambda>arg.
                     \<lparr>aa_arg = arg,
                      aa_slot = (if slot_index < length (sp_args (ai_spec inp))
                                 then Some (slot (ai_trace inp) None slot_index) else None),
                      aa_query = ai_query inp, aa_search_term = ai_raw_query inp, aa_only_suggest_args = False,
                      aa_source = PositionalValue\<rparr>) (active_subcommand_arg inp st))))"

definition active_arg_of :: "active_input \<Rightarrow> active_arg option" where
  "active_arg_of inp = (case active_loop inp (active_init inp) of Inl r \<Rightarrow> r | Inr st \<Rightarrow> active_finish inp st)"

section \<open>The completion context\<close>

record completion_context =
  cc_spec :: spec
  cc_active_arg :: "active_arg option"
  cc_help_parent :: spec
  cc_persistent_options :: "option_spec list"
  cc_passed_options :: "option_spec list"
  cc_parser_directives :: parser_directives
  cc_options_allowed :: bool
  cc_subcommands_allowed :: bool
  cc_end_of_options :: bool
  cc_crossed_loaded_spec :: bool
  cc_history_slots :: "arg_slot list"

text \<open>The context and the tokens after alias substitution; \<open>None\<close> when the walk does not end.\<close>

definition resolve_context ::
  "walk_env \<Rightarrow> spec \<Rightarrow> str list \<Rightarrow> bool \<Rightarrow> str \<Rightarrow> str \<Rightarrow> (completion_context \<times> str list) option" where
  "resolve_context env root tokens ends_with_space query raw_query =
     (let current_limit = (if ends_with_space then length tokens else length tokens - 1)
      in map_option (\<lambda>(walked, tokens', trace).
           (let tr = the trace;
                active = active_arg_of
                  \<lparr>ai_spec = wk_spec walked, ai_persistent_options = wk_persistent_options walked,
                   ai_tokens = tokens', ai_path_end = wk_path_end walked, ai_limit = wk_limit walked,
                   ai_ends_with_space = ends_with_space, ai_query = query, ai_raw_query = raw_query,
                   ai_parser_directives = wk_parser_directives walked, ai_trace = tr\<rparr>
            in (\<lparr>cc_spec = wk_spec walked, cc_active_arg = active, cc_help_parent = wk_parent walked,
                 cc_persistent_options = wk_persistent_options walked, cc_passed_options = wk_passed_options walked,
                 cc_parser_directives = wk_parser_directives walked, cc_options_allowed = wk_options_allowed walked,
                 cc_subcommands_allowed = wk_subcommands_allowed walked, cc_end_of_options = wk_end_of_options walked,
                 cc_crossed_loaded_spec = wk_crossed_loaded_spec walked, cc_history_slots = tr_current tr\<rparr>, tokens')))
           (walk_spec env root tokens current_limit (Some (trace_new root))))"

section \<open>Positional arguments\<close>

text \<open>The argument a positional word belongs to: the words fill the arguments in order, and the first
  variadic argument takes all that follow.\<close>

definition positional_index :: "arg_spec list \<Rightarrow> nat \<Rightarrow> nat" where
  "positional_index args n =
     (if list_ex (\<lambda>arg. ar_is_variadic arg) args
      then min n (length (takeWhile (\<lambda>arg. \<not> ar_is_variadic arg) args)) else n)"

lemma positional_arg_variadic:
  "(case positional_arg args (positional_index args n) of Some arg \<Rightarrow> ar_is_variadic arg | None \<Rightarrow> False) \<longleftrightarrow>
     positional_index args (Suc n) = positional_index args n"
proof (cases "list_ex (\<lambda>arg. ar_is_variadic arg) args")
  case False
  then have none: "\<not> ar_is_variadic arg" if "arg \<in> set args" for arg using that by (auto simp: list_ex_iff)
  have "\<not> ar_is_variadic arg" if "positional_arg args n = Some arg" for arg
    using that none by (auto simp: positional_arg_def split: if_splits)
  with False show ?thesis by (auto simp: positional_index_def split: option.splits)
next
  case True
  define k where "k = length (takeWhile (\<lambda>arg. \<not> ar_is_variadic arg) args)"
  have "takeWhile (\<lambda>arg. \<not> ar_is_variadic arg) args \<noteq> args"
    using True by (auto simp: takeWhile_eq_all_conv list_ex_iff)
  then have k: "k < length args"
    unfolding k_def by (metis le_neq_implies_less length_takeWhile_le order_refl take_all takeWhile_eq_take)
  have before: "\<not> ar_is_variadic (args ! i)" if "i < k" for i
    using that unfolding k_def by (metis nth_mem set_takeWhileD takeWhile_nth)
  have at: "ar_is_variadic (args ! k)" using k nth_length_takeWhile unfolding k_def by blast
  show ?thesis
  proof (cases "n < k")
    case True
    then have "positional_index args n = n" "positional_index args (Suc n) = Suc n"
      using \<open>list_ex _ args\<close> by (simp_all add: positional_index_def k_def)
    with True before [of n] k show ?thesis by (auto simp: positional_arg_def split: option.splits)
  next
    case False
    then have "positional_index args n = k" "positional_index args (Suc n) = k"
      using \<open>list_ex _ args\<close> by (simp_all add: positional_index_def k_def)
    with at k show ?thesis by (simp add: positional_arg_def)
  qed
qed

definition after_words :: "active_input \<Rightarrow> nat \<Rightarrow> active_state \<Rightarrow> bool" where
  "after_words inp n st \<longleftrightarrow>
     av_index st = ai_path_end inp + n \<and> av_option_arg st = None \<and>
     av_positional st = positional_index (sp_args (ai_spec inp)) n \<and>
     av_subcommand_variadic_count st + av_positional st = n"

lemma positional_index_Suc:
  "positional_index args (Suc n) = positional_index args n \<or>
   positional_index args (Suc n) = Suc (positional_index args n)"
  by (auto simp: positional_index_def)

lemma after_words_step:
  assumes "after_words inp n st" and "\<not> starts_with_char (ai_tokens inp ! av_index st) c_dash"
  shows "\<exists>st'. active_step inp st = Inr st' \<and> after_words inp (Suc n) st'"
proof -
  have "active_step inp st = Inr (active_positional inp st)"
    using assms(2) by (auto simp: active_step_def Let_def starts_with_char_def)
  moreover have "after_words inp (Suc n) (active_positional inp st)"
    using assms(1) positional_arg_variadic [of "sp_args (ai_spec inp)" n]
      positional_index_Suc [of "sp_args (ai_spec inp)" n]
    by (auto simp: after_words_def active_positional_def active_subcommand_arg_def)
  ultimately show ?thesis by blast
qed

lemma after_words_loop:
  assumes "after_words inp n st"
    and "\<forall>i. ai_path_end inp \<le> i \<and> i < ai_limit inp \<longrightarrow> \<not> starts_with_char (ai_tokens inp ! i) c_dash"
    and "ai_path_end inp + n \<le> ai_limit inp"
  shows "\<exists>st'. active_loop inp st = Inr st' \<and> after_words inp (ai_limit inp - ai_path_end inp) st'"
  using assms
proof (induction "ai_limit inp - ai_path_end inp - n" arbitrary: n st)
  case 0
  then have "n = ai_limit inp - ai_path_end inp" "\<not> av_index st < ai_limit inp"
    by (auto simp: after_words_def)
  with 0 show ?case by (subst active_loop.simps) simp
next
  case (Suc d)
  have idx: "av_index st = ai_path_end inp + n" "ai_path_end inp + n < ai_limit inp"
    using Suc.hyps(2) Suc.prems(1) by (auto simp: after_words_def)
  obtain st' where st': "active_step inp st = Inr st'" "after_words inp (Suc n) st'"
    using after_words_step [OF Suc.prems(1)] Suc.prems(2) idx by auto
  have "\<exists>st''. active_loop inp st' = Inr st'' \<and> after_words inp (ai_limit inp - ai_path_end inp) st''"
    using Suc.hyps st'(2) Suc.prems(2) idx(2) by (intro Suc.hyps(1) [of "Suc n"]) auto
  with st'(1) idx show ?case by (subst active_loop.simps) simp
qed

text \<open>
  Property C15. With plain words after the command path, the argument under the caret is the one the
  words lead to: after \<open>n\<close> completed words, none of them starting with a dash, the active argument is
  the \<open>n\<close>-th one, or the first variadic one when the words have reached it, with the typed text as its
  query; its history slot is the \<open>n\<close>-th argument of the spec, and there is none past the end of the
  argument list.
\<close>

theorem active_arg_after_words:
  fixes inp :: active_input
  defines "args \<equiv> sp_args (ai_spec inp)" and "n \<equiv> ai_limit inp - ai_path_end inp"
    and "typed \<equiv> ai_tokens inp ! current_index inp"
  assumes "ai_path_end inp \<le> ai_limit inp"
    and "\<forall>i. ai_path_end inp \<le> i \<and> i < ai_limit inp \<longrightarrow> \<not> starts_with_char (ai_tokens inp ! i) c_dash"
    and "ai_ends_with_space inp \<or> \<not> starts_with_char typed c_dash \<and> active_resolve inp typed = None"
  shows "active_arg_of inp =
     map_option (\<lambda>arg.
       \<lparr>aa_arg = arg, aa_slot = (if n < length args then Some (slot (ai_trace inp) None n) else None),
        aa_query = ai_query inp, aa_search_term = ai_raw_query inp, aa_only_suggest_args = False,
        aa_source = PositionalValue\<rparr>) (positional_arg args (positional_index args n))"
proof -
  have "after_words inp 0 (active_init inp)"
    by (simp add: after_words_def active_init_def positional_index_def)
  then obtain st where st: "active_loop inp (active_init inp) = Inr st" "after_words inp n st"
    using after_words_loop [of inp 0] assms(4,5) by (auto simp: n_def)
  have "active_current_token inp st = None"
    using assms(6) by (auto simp: active_current_token_def typed_def Let_def)
  moreover have "av_positional st + av_subcommand_variadic_count st = n"
      "active_subcommand_arg inp st = positional_arg args (positional_index args n)" "av_option_arg st = None"
    using st(2) by (auto simp: after_words_def active_subcommand_arg_def args_def)
  ultimately show ?thesis by (simp add: active_arg_of_def st(1) active_finish_def args_def Let_def)
qed

definition sample_arg :: "string \<Rightarrow> arg_spec" where
  "sample_arg name = ArgSpec (arg_fields_default\<lparr>af_name := lit name\<rparr>) None None"

definition mv_spec :: spec where
  "mv_spec = sample_spec [sample_option [''-f''] []] [sample_arg ''source'', sample_arg ''target'']"

definition mv_input :: "string list \<Rightarrow> active_input" where
  "mv_input words =
     \<lparr>ai_spec = mv_spec, ai_persistent_options = [], ai_tokens = map lit (''mv'' # words), ai_path_end = 1,
      ai_limit = Suc (length words), ai_ends_with_space = True, ai_query = [], ai_raw_query = [],
      ai_parser_directives = directives_default, ai_trace = trace_new mv_spec\<rparr>"

theorem active_arg_after_words_witness:
  "active_arg_of (mv_input [''a'']) =
     Some \<lparr>aa_arg = sample_arg ''target'', aa_slot = Some (slot (trace_new mv_spec) None 1), aa_query = [],
           aa_search_term = [], aa_only_suggest_args = False, aa_source = PositionalValue\<rparr>"
proof -
  let ?inp = "mv_input [''a'']"
  have args: "sp_args (ai_spec ?inp) = [sample_arg ''source'', sample_arg ''target'']"
    by (simp add: mv_input_def mv_spec_def sample_spec_def)
  have "\<forall>i. ai_path_end ?inp \<le> i \<and> i < ai_limit ?inp \<longrightarrow> \<not> starts_with_char (ai_tokens ?inp ! i) c_dash"
    by (auto simp: mv_input_def less_Suc_eq starts_with_char_def)
  then have "active_arg_of ?inp =
      map_option (\<lambda>arg.
        \<lparr>aa_arg = arg, aa_slot = (if ai_limit ?inp - ai_path_end ?inp < length (sp_args (ai_spec ?inp))
           then Some (slot (ai_trace ?inp) None (ai_limit ?inp - ai_path_end ?inp)) else None),
         aa_query = ai_query ?inp, aa_search_term = ai_raw_query ?inp, aa_only_suggest_args = False,
         aa_source = PositionalValue\<rparr>)
        (positional_arg (sp_args (ai_spec ?inp))
           (positional_index (sp_args (ai_spec ?inp)) (ai_limit ?inp - ai_path_end ?inp)))"
    by (intro active_arg_after_words) (simp_all add: mv_input_def)
  also have "positional_arg (sp_args (ai_spec ?inp))
      (positional_index (sp_args (ai_spec ?inp)) (ai_limit ?inp - ai_path_end ?inp)) = Some (sample_arg ''target'')"
    unfolding args
    by (simp add: mv_input_def positional_index_def positional_arg_def sample_arg_def placeholder_arg_def
        arg_fields_default_def)
  finally show ?thesis unfolding args by (simp add: mv_input_def)
qed

text \<open>
  A flag is counted as a positional word by the scan but not by the walk: in \<open>mv -f a\<close>, with
  the flag \<open>-f\<close> and the arguments \<open>source\<close> and \<open>target\<close>, the walk places the next word in the slot of
  \<open>target\<close>, while the active argument is none, because the scan has counted \<open>-f\<close> as the source.
\<close>

lemma flag_counts_as_positional:
  "\<exists>ctx. resolve_context quiet_env mv_spec (map lit [''mv'', ''-f'', ''a'']) True [] [] =
       Some (ctx, map lit [''mv'', ''-f'', ''a'']) \<and>
     cc_history_slots ctx = [slot (trace_new mv_spec) None 1] \<and> cc_active_arg ctx = None"
proof -
  let ?tokens = "map lit [''mv'', ''-f'', ''a'']"
  note eval = mv_spec_def sample_defs sample_arg_def placeholder_arg_def positional_arg_def can_consume_options_def
    can_consume_subcommands_def resolve_option_token_with_persistent_def resolve_exact_def find_option_in_def
    is_separator_def named_option_def or_else_def unwrap_or_def starts_with_def starts_with_char_def Let_def
  obtain walked where walk: "walk_spec quiet_env mv_spec ?tokens 3 (Some (trace_new mv_spec)) =
      Some (walked, ?tokens, Some ((trace_new mv_spec)
        \<lparr>tr_values := [(slot (trace_new mv_spec) None 0, lit ''a'')], tr_current := [slot (trace_new mv_spec) None 1]\<rparr>))"
    "wk_spec walked = mv_spec" "wk_persistent_options walked = []" "wk_path_end walked = 1" "wk_limit walked = 3"
    "wk_parser_directives walked = directives_default"
    by (simp add: walk_spec_def walk_init_def walk_loop_simps walk_step_def eval apply_generate_spec_def
        merge_persistent_options_def walk_options_allowed_def walk_subcommand_arg_def walk_option_def
        options_in_token_def find_short_option_in_def is_short_name_def strip_prefix_def walk_word_def
        walk_subcommands_allowed_def find_subcommand_def walk_positional_def substitute_alias_def
        resolve_arg_alias_def next_spec_after_arg_def dynamic_spec_name_def record_positional_def
        set_current_def slot_def walk_result_def mandatory_arg_def trace_new_def)
  have "active_arg_of ((mv_input [''-f'', ''a''])\<lparr>ai_trace := tr\<rparr>) = None" for tr
    by (simp add: active_arg_of_def mv_input_def active_init_def active_loop.simps active_step_def eval
        active_options_allowed_def active_subcommand_arg_def active_resolve_def active_option_def
        active_positional_def active_finish_def active_current_token_def)
  with walk show ?thesis
    by (auto simp: resolve_context_def mv_input_def Let_def numeral_3_eq_3)
qed

end
