(* ===== verification/Public_AI.thy ===== *)
theory Public_AI
  imports Active_Arg Command_Slice
begin

text \<open>
  The rows that may be shown to a public model (\<open>public_ai.rs\<close>): which request positions are
  eligible, how a static row is marked, and the two passes that drop every mark that is not safe.
\<close>

section \<open>Eligible positions\<close>

definition MAX_CANDIDATES :: nat where "MAX_CANDIDATES = 20"
definition MAX_INPUT_BYTES :: nat where "MAX_INPUT_BYTES = 256"
definition MAX_NAME_BYTES :: nat where "MAX_NAME_BYTES = 128"
definition MAX_DESCRIPTION_BYTES :: nat where "MAX_DESCRIPTION_BYTES = 256"
definition MAX_PATH_TOKENS :: nat where "MAX_PATH_TOKENS = 8"

record query_state =
  qs_subcommands_allowed :: bool
  qs_options_allowed :: bool
  qs_end_of_options :: bool
  qs_active_arg_source :: "active_arg_source option"
  qs_active_arg_only_suggest_args :: bool
  qs_crossed_loaded_spec :: bool

text \<open>A byte of a non-ASCII character is no word byte, so a test of all bytes is one of all characters.\<close>

definition word_byte :: "rchar \<Rightarrow> bool" where
  "word_byte c \<longleftrightarrow> is_ascii_alphanumeric c \<or> c = c_dash \<or> c = c_under"

definition static_path_node :: "spec \<Rightarrow> bool" where
  "static_path_node spec \<longleftrightarrow>
     \<not> sm_ai_resolved_reference (sf_meta (sp_fields spec)) \<and> \<not> sm_ai_generated (sf_meta (sp_fields spec)) \<and>
     sp_load_spec spec = None \<and> sf_js_load_spec (sp_fields spec) = None"

definition is_ascii_whitespace :: "rchar \<Rightarrow> bool" where
  "is_ascii_whitespace c \<longleftrightarrow> c = c_space \<or> c = c_tab \<or> c = c_nl \<or> c = 12 \<or> c = c_cr"

fun split_ascii_whitespace :: "str \<Rightarrow> str \<Rightarrow> str list" where
  "split_ascii_whitespace word [] = (if word = [] then [] else [word])"
| "split_ascii_whitespace word (c # cs) =
     (if is_ascii_whitespace c
      then (if word = [] then split_ascii_whitespace [] cs else word # split_ascii_whitespace [] cs)
      else split_ascii_whitespace (word @ [c]) cs)"

fun static_path :: "spec \<Rightarrow> str list \<Rightarrow> spec option" where
  "static_path node [] = Some node"
| "static_path node (token # tokens) =
     (case find_subcommand node token of
        None \<Rightarrow> None
      | Some sub \<Rightarrow> (if static_path_node sub then static_path sub tokens else None))"

definition position_eligible :: "query_state \<Rightarrow> nat \<Rightarrow> str \<Rightarrow> bool" where
  "position_eligible state finished token_prefix =
     (let may_suggest_subcommands =
            qs_subcommands_allowed state \<and> \<not> qs_end_of_options state \<and> \<not> qs_active_arg_only_suggest_args state;
          may_suggest_options =
            qs_options_allowed state \<and> \<not> qs_end_of_options state \<and> \<not> qs_active_arg_only_suggest_args state
      in (may_suggest_subcommands \<or> may_suggest_options) \<and>
         (case qs_active_arg_source state of
            Some OptionValue \<Rightarrow> False
          | Some OptionName \<Rightarrow> starts_with_char token_prefix c_dash \<and> may_suggest_options
          | Some PositionalValue \<Rightarrow>
              finished = 1 \<or> (starts_with_char token_prefix c_dash \<and> may_suggest_options)
          | None \<Rightarrow> True))"

text \<open>\<open>is_public_ai_root\<close> is the registry's answer for the command and the root.\<close>

definition public_context ::
  "(str \<Rightarrow> spec \<Rightarrow> bool) \<Rightarrow> complete_request \<Rightarrow> spec \<Rightarrow> spec \<Rightarrow> str list \<Rightarrow> query_state \<Rightarrow> public_ai_context option"
where
  "public_context is_public_ai_root request root current resolved_tokens state =
     (let buffer = rq_buffer request; words = split_ascii_whitespace [] buffer
      in if \<not> rq_include_public_ai request \<or> rq_history_only request \<or> buffer = [] \<or>
            str_len buffer > MAX_INPUT_BYTES \<or>
            (case rq_cursor request of Some cursor \<Rightarrow> cursor \<noteq> str_len buffer | None \<Rightarrow> False) \<or>
            \<not> list_all (\<lambda>c. word_byte c \<or> c = c_space) buffer
         then None
         else if length words > MAX_PATH_TOKENS + 1 \<or> words \<noteq> resolved_tokens then None
         else case words of
           [] \<Rightarrow> None
         | command # _ \<Rightarrow>
             (if \<not> is_public_ai_root command root \<or> \<not> has_name root command then None
              else
                (let finished = (if ends_with buffer [c_space] then length words else length words - 1)
                 in if finished = 0 \<or> finished > MAX_PATH_TOKENS then None
                    else
                      (let token_prefix = (if finished < length words then words ! finished else [])
                       in if qs_crossed_loaded_spec state \<or> \<not> position_eligible state finished token_prefix \<or>
                             \<not> static_path_node root
                          then None
                          else case static_path root (take (finished - 1) (tl words)) of
                            None \<Rightarrow> None
                          | Some node \<Rightarrow>
                              (if \<not> static_path_node current \<or> sp_names node \<noteq> sp_names current then None
                               else Some \<lparr>px_command_path = take finished words, px_token_prefix = token_prefix\<rparr>)))))"

section \<open>Marking and checking rows\<close>

definition truncate_description :: "str \<Rightarrow> str" where
  "truncate_description d = get_upto d (floor_boundary d (min (str_len d) MAX_DESCRIPTION_BYTES))"

definition mark_candidate :: "suggestion_meta \<Rightarrow> suggestion \<Rightarrow> suggestion" where
  "mark_candidate meta s =
     (if sm_ai_resolved_reference meta \<or> sm_ai_generated meta \<or> sm_js_get_query_term meta \<noteq> None \<or>
         sm_get_query_term meta \<noteq> None \<or> sm_suggestion_type meta \<noteq> None \<or> sg_hidden s \<or> sg_is_dangerous s \<or>
         sg_name s = [] \<or> str_len (sg_name s) > MAX_NAME_BYTES \<or> \<not> list_all word_byte (sg_name s) \<or>
         (case sg_insert_value s of Some v \<Rightarrow> v \<noteq> sg_name s | None \<Rightarrow> False) \<or>
         (case sg_separator_to_add s of
            Some sep \<Rightarrow> sep \<noteq> [] \<and> sep \<noteq> lit '' '' \<and> sep \<noteq> lit ''='' \<and> sep \<noteq> lit '':''
          | None \<Rightarrow> False) \<or>
         list_ex is_control (sg_description s)
      then s
      else s\<lparr>sg_public_ai_candidate :=
               Some \<lparr>pc_name = sg_name s, pc_description = truncate_description (sg_description s)\<rparr>\<rparr>)"

definition unmark :: "suggestion \<Rightarrow> suggestion" where
  "unmark s = s\<lparr>sg_public_ai_candidate := None\<rparr>"

definition clear_public :: "complete_result \<Rightarrow> complete_result" where
  "clear_public result = result\<lparr>cr_public_ai_context := None, cr_suggestions := map unmark (cr_suggestions result)\<rparr>"

definition safe_public_row :: "public_ai_context \<Rightarrow> suggestion \<Rightarrow> bool" where
  "safe_public_row ctx s \<longleftrightarrow>
     (case sg_public_ai_candidate s of
        None \<Rightarrow> False
      | Some candidate \<Rightarrow>
          pc_name candidate = sg_name s \<and> starts_with (sg_name s) (px_token_prefix ctx) \<and>
          \<not> sg_hidden s \<and> \<not> sg_is_dangerous s \<and>
          (sg_kind s = lit ''cmd'' \<or> sg_kind s = lit ''subcommand'' \<or> sg_kind s = lit ''option'') \<and>
          sg_original_type s \<noteq> Some (lit ''auto-execute'') \<and> sg_original_type s \<noteq> Some (lit ''special'') \<and>
          sg_query_term s = None \<and> sg_name s \<noteq> [] \<and> str_len (sg_name s) \<le> MAX_NAME_BYTES \<and>
          list_all word_byte (sg_name s) \<and>
          (case sg_insert_value s of Some v \<Rightarrow> v = sg_name s | None \<Rightarrow> True) \<and>
          (case sg_separator_to_add s of
             Some sep \<Rightarrow> sep = [] \<or> sep = lit '' '' \<or> sep = lit ''=''
           | None \<Rightarrow> True) \<and>
          str_len (pc_description candidate) \<le> MAX_DESCRIPTION_BYTES \<and>
          \<not> list_ex is_control (pc_description candidate))"

definition marked :: "suggestion \<Rightarrow> bool" where
  "marked s \<longleftrightarrow> sg_public_ai_candidate s \<noteq> None"

text \<open>How often a name occurs among the rows, counted up to two.\<close>

definition name_count :: "suggestion list \<Rightarrow> str \<Rightarrow> nat" where
  "name_count rows name = min 2 (length (filter (\<lambda>s. sg_name s = name) rows))"

definition validate_provenance :: "complete_result \<Rightarrow> complete_result" where
  "validate_provenance result =
     (case cr_public_ai_context result of
        None \<Rightarrow> result
      | Some ctx \<Rightarrow>
          (if cr_pending_generators result then clear_public result
           else
             (let rows = cr_suggestions result;
                  keeps = (\<lambda>s. name_count rows (sg_name s) = 1 \<and> safe_public_row ctx s);
                  accepted = length (filter (\<lambda>s. marked s \<and> keeps s) rows);
                  checked = result\<lparr>cr_suggestions := map (\<lambda>s. if marked s \<and> \<not> keeps s then unmark s else s) rows\<rparr>
              in if accepted < 2 then clear_public checked else checked)))"

text \<open>The budget pass: the first safe marks up to the limit stay. The accumulator is their number.\<close>

fun budget_loop :: "public_ai_context \<Rightarrow> nat \<Rightarrow> suggestion list \<Rightarrow> nat \<times> suggestion list" where
  "budget_loop ctx accepted [] = (accepted, [])"
| "budget_loop ctx accepted (s # rows) =
     (if marked s
      then if accepted < MAX_CANDIDATES \<and> safe_public_row ctx s
           then (let (n, out) = budget_loop ctx (accepted + 1) rows in (n, s # out))
           else (let (n, out) = budget_loop ctx accepted rows in (n, unmark s # out))
      else (let (n, out) = budget_loop ctx accepted rows in (n, s # out)))"

definition finalize_ranked_candidates :: "complete_result \<Rightarrow> complete_result" where
  "finalize_ranked_candidates result =
     (case cr_public_ai_context result of
        None \<Rightarrow> result
      | Some ctx \<Rightarrow>
          (if cr_pending_generators result then clear_public result
           else
             (let (accepted, rows) = budget_loop ctx 0 (cr_suggestions result)
              in if accepted < 2 then clear_public (result\<lparr>cr_suggestions := rows\<rparr>)
                 else result\<lparr>cr_suggestions := rows\<rparr>)))"

section \<open>What is published\<close>

lemma unmark_simps [simp]:
  "\<not> marked (unmark s)" "sg_name (unmark s) = sg_name s" "sg_name \<circ> unmark = sg_name"
  by (simp_all add: unmark_def marked_def fun_eq_iff)

text \<open>Without a context no row is marked.\<close>

definition marks_closed :: "complete_result \<Rightarrow> bool" where
  "marks_closed result \<longleftrightarrow>
     (cr_public_ai_context result = None \<longrightarrow> (\<forall>s \<in> set (cr_suggestions result). \<not> marked s))"

definition unique_marks :: "suggestion list \<Rightarrow> bool" where
  "unique_marks rows \<longleftrightarrow>
     (\<forall>s \<in> set rows. marked s \<longrightarrow> length (filter (\<lambda>r. sg_name r = sg_name s) rows) = 1)"

lemma clear_public_facts [simp]:
  "cr_public_ai_context (clear_public result) = None" "marks_closed (clear_public result)"
  by (auto simp: clear_public_def marks_closed_def)

lemma validate_names:
  "map sg_name (cr_suggestions (validate_provenance result)) = map sg_name (cr_suggestions result)"
  by (auto simp: validate_provenance_def clear_public_def Let_def split: option.split)

lemma validate_facts:
  assumes "marks_closed result"
  shows "marks_closed (validate_provenance result)"
    and "cr_public_ai_context (validate_provenance result) = Some ctx \<Longrightarrow>
      unique_marks (cr_suggestions (validate_provenance result)) \<and>
      cr_public_ai_context result = Some ctx"
proof -
  show "marks_closed (validate_provenance result)"
    using assms by (auto simp: validate_provenance_def marks_closed_def [of "result\<lparr>cr_suggestions := _\<rparr>"] Let_def split: option.split)
  assume c: "cr_public_ai_context (validate_provenance result) = Some ctx"
  let ?rows = "cr_suggestions result"
  let ?keeps = "\<lambda>s. name_count ?rows (sg_name s) = 1 \<and> safe_public_row ctx s"
  have "cr_public_ai_context result = Some ctx \<and>
      cr_suggestions (validate_provenance result) = map (\<lambda>s. if marked s \<and> \<not> ?keeps s then unmark s else s) ?rows"
    using c by (auto simp: validate_provenance_def Let_def split: option.splits if_splits)
  moreover have "length (filter (\<lambda>r. sg_name r = name) (map (\<lambda>s. if marked s \<and> \<not> ?keeps s then unmark s else s) ?rows)) =
      length (filter (\<lambda>r. sg_name r = name) ?rows)" for name
    by (induction ?rows) (auto simp: filter_map comp_def if_distrib cong: if_cong filter_cong)
  ultimately show "unique_marks (cr_suggestions (validate_provenance result)) \<and> cr_public_ai_context result = Some ctx"
    by (auto simp: unique_marks_def name_count_def split: if_splits)
qed

lemma budget_loop_facts:
  "budget_loop ctx accepted rows = (n, out) \<Longrightarrow>
     map sg_name out = map sg_name rows \<and> n = accepted + length (filter marked out) \<and>
     (accepted \<le> MAX_CANDIDATES \<longrightarrow> n \<le> MAX_CANDIDATES) \<and>
     (\<forall>s \<in> set out. marked s \<longrightarrow> safe_public_row ctx s \<and> s \<in> set rows)"
proof (induction rows arbitrary: accepted n out)
  case (Cons s rows)
  let ?taken = "marked s \<and> accepted < MAX_CANDIDATES \<and> safe_public_row ctx s"
  define accepted' where "accepted' = (if ?taken then accepted + 1 else accepted)"
  obtain n' out' where rest: "budget_loop ctx accepted' rows = (n', out')" by fastforce
  have "n = n'" "out = (if marked s \<and> \<not> ?taken then unmark s else s) # out'"
    using Cons.prems rest by (auto simp: accepted'_def split: if_splits)
  moreover have "accepted \<le> MAX_CANDIDATES \<longrightarrow> accepted' \<le> MAX_CANDIDATES" by (simp add: accepted'_def)
  ultimately show ?case using Cons.IH [OF rest] by (auto simp: accepted'_def)
qed simp

lemma finalize_marked:
  "s \<in> set (cr_suggestions (finalize_ranked_candidates result)) \<Longrightarrow> marked s \<Longrightarrow> s \<in> set (cr_suggestions result)"
  using budget_loop_facts
  by (fastforce simp: finalize_ranked_candidates_def clear_public_def Let_def split: option.splits if_splits prod.splits)

text \<open>What the final pass publishes: no context and no marked row at all, or between 2 and 20 marked rows,
  every one of them safe. The names and the order of the rows do not change, and when every marked name
  was the name of one row only, it still is.\<close>

lemma finalize_facts:
  assumes "marks_closed result"
  shows "let final = finalize_ranked_candidates result in
     marks_closed final \<and> map sg_name (cr_suggestions final) = map sg_name (cr_suggestions result) \<and>
     (\<forall>ctx. cr_public_ai_context final = Some ctx \<longrightarrow>
        cr_public_ai_context result = Some ctx \<and>
        2 \<le> length (filter marked (cr_suggestions final)) \<and>
        length (filter marked (cr_suggestions final)) \<le> MAX_CANDIDATES \<and>
        (\<forall>s \<in> set (cr_suggestions final). marked s \<longrightarrow> safe_public_row ctx s) \<and>
        (unique_marks (cr_suggestions result) \<longrightarrow> unique_marks (cr_suggestions final)))"
proof (cases "cr_public_ai_context result")
  case None
  with assms show ?thesis by (simp add: finalize_ranked_candidates_def)
next
  case (Some ctx)
  show ?thesis
  proof (cases "cr_pending_generators result")
    case True
    with Some show ?thesis by (simp add: finalize_ranked_candidates_def Let_def) (simp add: clear_public_def)
  next
    case False
    obtain n out where loop: "budget_loop ctx 0 (cr_suggestions result) = (n, out)" by fastforce
    note facts = budget_loop_facts [OF loop]
    have count: "length (filter (\<lambda>r. sg_name r = name) out) = length (filter (\<lambda>r. sg_name r = name) (cr_suggestions result))" for name
      using arg_cong [OF conjunct1 [OF facts], of "\<lambda>names. length (filter (\<lambda>x. x = name) names)"]
      by (simp add: filter_map comp_def)
    have unique: "unique_marks (cr_suggestions result) \<Longrightarrow> unique_marks out"
      using facts by (auto simp: unique_marks_def count)
    show ?thesis
    proof (cases "n < 2")
      case True
      with Some False loop facts show ?thesis
        by (simp add: finalize_ranked_candidates_def Let_def) (simp add: clear_public_def)
    next
      case n: False
      with Some False loop facts unique show ?thesis
        by (auto simp: finalize_ranked_candidates_def Let_def marks_closed_def)
    qed
  qed
qed

definition public_row :: "string \<Rightarrow> suggestion" where
  "public_row name = mark_candidate meta_default (suggestion_new (lit name) (lit ''text'') (lit ''subcommand''))"

definition public_result :: complete_result where
  "public_result = result_default\<lparr>cr_public_ai_context := Some \<lparr>px_command_path = [lit ''git''], px_token_prefix = []\<rparr>,
     cr_suggestions := [public_row ''add'', public_row ''commit'']\<rparr>"

section \<open>Where a context is granted\<close>

text \<open>A node written in the spec file itself, and the nodes that words name one after the other.\<close>

definition written_here :: "spec \<Rightarrow> bool" where
  "written_here spec \<longleftrightarrow>
     (let f = sp_fields spec
      in \<not> (sm_ai_resolved_reference (sf_meta f) \<or> sm_ai_generated (sf_meta f)) \<and> sp_load_spec spec = None \<and> sf_js_load_spec f = None)"

lemma static_path_node_written: "static_path_node spec \<longleftrightarrow> written_here spec"
  by (simp add: static_path_node_def written_here_def Let_def)

inductive literal_path :: "spec \<Rightarrow> str list \<Rightarrow> spec \<Rightarrow> bool" where
  "literal_path node [] node"
| "sub \<in> set (sp_subcommands node) \<Longrightarrow> word \<in> set (sp_names sub) \<Longrightarrow> written_here sub \<Longrightarrow> literal_path sub words target \<Longrightarrow>
   literal_path node (word # words) target"

lemma static_path_literal: "static_path node words = Some target \<Longrightarrow> literal_path node words target"
proof (induction words arbitrary: node)
  case (Cons word words)
  then obtain sub where "find_subcommand node word = Some sub" "static_path_node sub" "static_path sub words = Some target"
    by (auto split: option.splits if_splits)
  with Cons.IH show ?case by (auto dest!: find_subcommand_SomeD simp: has_name_def static_path_node_written intro: literal_path.intros)
qed (simp add: literal_path.intros)

lemma word_byte_no_whitespace: "word_byte c \<Longrightarrow> \<not> is_ascii_whitespace c"
  by (auto simp: word_byte_def is_ascii_whitespace_def char_class_defs)

lemma split_char_ne: "split_char c s \<noteq> []"
  by (induction s) (auto split: list.split)

lemma split_words:
  "list_all (\<lambda>c. word_byte c \<or> c = c_space) s \<Longrightarrow>
   split_ascii_whitespace word s = filter (\<lambda>w. w \<noteq> []) ((word @ hd (split_char c_space s)) # tl (split_char c_space s))"
proof (induction s arbitrary: word)
  case (Cons c s)
  obtain part parts where ne: "split_char c_space s = part # parts" using split_char_ne [of c_space s] by (cases "split_char c_space s") auto
  show ?case
  proof (cases "c = c_space")
    case True
    then show ?thesis using Cons ne by (simp add: is_ascii_whitespace_def)
  next
    case False
    then have "\<not> is_ascii_whitespace c" using Cons.prems word_byte_no_whitespace by auto
    then show ?thesis using Cons False ne by simp
  qed
qed simp

text \<open>The words typed, and how a granted context splits them: the finished ones and the one under the caret.\<close>

definition typed_words :: "str \<Rightarrow> str list" where
  "typed_words buffer = filter (\<lambda>w. w \<noteq> []) (split_char c_space buffer)"

definition plain_line :: "complete_request \<Rightarrow> public_ai_context \<Rightarrow> bool" where
  "plain_line request pub \<longleftrightarrow>
     (let buffer = rq_buffer request
      in rq_include_public_ai request \<and> rq_cursor request \<in> {None, Some (str_len buffer)} \<and> str_len buffer \<le> 256 \<and>
         (\<forall>c \<in> set buffer. is_ascii_alphanumeric c \<or> c \<in> {c_dash, c_under, c_space}) \<and>
         typed_words buffer = px_command_path pub @ (if last buffer = c_space then [] else [px_token_prefix pub]) \<and>
         (last buffer = c_space \<longrightarrow> px_token_prefix pub = []) \<and>
         px_command_path pub \<noteq> [] \<and> length (px_command_path pub) \<le> 8)"

text \<open>A context is granted only at a literal path of the pinned tree: the line is plain, its words are
  the tokens the walk resolved, the root is a public root under the first word, and the finished words
  name nodes written in the file down to one with the names of the node the walk is in.\<close>

lemma public_context_sound:
  assumes "public_context is_root request root current tokens state = Some pub"
  shows "plain_line request pub \<and> tokens = typed_words (rq_buffer request) \<and>
    is_root (hd (px_command_path pub)) root \<and> hd (px_command_path pub) \<in> set (sp_names root) \<and> written_here root \<and> written_here current \<and>
    \<not> qs_crossed_loaded_spec state \<and> position_eligible state (length (px_command_path pub)) (px_token_prefix pub) \<and>
    (\<exists>node. literal_path root (tl (px_command_path pub)) node \<and> sp_names node = sp_names current)"
proof -
  let ?buffer = "rq_buffer request"
  define words where "words = split_ascii_whitespace [] ?buffer"
  obtain command rest where w: "words = command # rest"
    using assms by (cases words) (auto simp: public_context_def words_def Let_def split: if_splits)
  define finished where "finished = (if ends_with ?buffer [c_space] then length words else length words - 1)"
  define typed where "typed = (if finished < length words then words ! finished else [])"
  have *: "words = tokens" "rq_include_public_ai request" "?buffer \<noteq> []" "str_len ?buffer \<le> 256" "rq_cursor request \<in> {None, Some (str_len ?buffer)}"
    "list_all (\<lambda>c. word_byte c \<or> c = c_space) ?buffer" "is_root command root"
    "has_name root command" "finished \<noteq> 0" "finished \<le> 8" "\<not> qs_crossed_loaded_spec state" "position_eligible state finished typed"
    "static_path_node root" "static_path_node current" "px_command_path pub = take finished words" "px_token_prefix pub = typed"
    "\<exists>node. static_path root (take (finished - 1) (tl words)) = Some node \<and> sp_names node = sp_names current"
    using assms unfolding public_context_def words_def [symmetric] w list.case finished_def [unfolded w, symmetric] typed_def [unfolded w, symmetric] Let_def
    by (auto simp: MAX_INPUT_BYTES_def MAX_PATH_TOKENS_def split: if_splits option.splits)
  have le: "finished \<le> length words" by (simp add: finished_def)
  have path: "take (finished - 1) (tl words) = tl (take finished words)" "hd (take finished words) = command"
    using *(9) w by (cases finished; simp)+
  have words: "words = typed_words ?buffer"
    using split_words [OF *(6), of "[]"] split_char_ne [of c_space ?buffer] by (simp add: words_def typed_words_def)
  have "last ?buffer = c_space \<longleftrightarrow> ends_with ?buffer [c_space]" using *(3) by (cases ?buffer rule: rev_cases) (auto simp: ends_with_iff)
  then have "words = px_command_path pub @ (if last ?buffer = c_space then [] else [px_token_prefix pub])" "last ?buffer = c_space \<longrightarrow> px_token_prefix pub = []"
    using w take_Suc_conv_app_nth [of "length rest" words] unfolding *(15,16) typed_def finished_def by simp_all
  moreover have "\<forall>c \<in> set ?buffer. is_ascii_alphanumeric c \<or> c \<in> {c_dash, c_under, c_space}" using *(6) by (auto simp: list_all_iff word_byte_def)
  ultimately have "plain_line request pub" using *(2,4,5,9,10,15) w words le by (auto simp: plain_line_def Let_def)
  moreover obtain node where "literal_path root (tl (px_command_path pub)) node" "sp_names node = sp_names current"
    using *(17) static_path_literal unfolding path *(15) [symmetric] by blast
  ultimately show ?thesis using * le words path(2) by (auto simp: static_path_node_written has_name_def min_def)
qed

end
