(* ===== verification/Rows.thy ===== *)
theory Rows
  imports Rank Public_AI
begin

text \<open>
  The rows of a completion (\<open>lookup.rs\<close>, lines 643--677 and 2436--3058): named items of a spec turned
  into rows, which options are still offered, chains of short options, and the rows that execute the
  command at once.
\<close>

section \<open>Named items\<close>

definition args_hint :: "arg_spec list \<Rightarrow> str" where
  "args_hint args =
     str_join [c_space] (map (\<lambda>arg.
       let base = af_name (ar_fields arg) @ (if ar_is_variadic arg then lit ''...'' else [])
       in if ar_is_optional arg then lit ''['' @ base @ lit '']'' else lit ''<'' @ base @ lit ''>'')
       (filter (\<lambda>arg. af_name (ar_fields arg) \<noteq> []) args))"

text \<open>\<open>max_by_key(|candidate| candidate.len())\<close>: the last of the longest.\<close>

definition longest :: "str list \<Rightarrow> str option" where
  "longest names =
     fold (\<lambda>name best. case best of
         None \<Rightarrow> Some name
       | Some b \<Rightarrow> (if str_len b \<le> str_len name then Some name else Some b)) names None"

definition first_of :: "'a list \<Rightarrow> 'a option" where
  "first_of xs = (case xs of [] \<Rightarrow> None | x # _ \<Rightarrow> Some x)"

definition select_named_candidate ::
  "(str \<Rightarrow> str) \<Rightarrow> str list \<Rightarrow> str option \<Rightarrow> str \<Rightarrow> bool \<Rightarrow> bool \<Rightarrow> str option" where
  "select_named_candidate lc item_names display_name query fuzzy prefer_long_name =
     (let matching_names = filter (\<lambda>candidate. matches_query lc candidate query fuzzy) item_names
      in if matching_names = []
         then (case display_name of
                 Some display \<Rightarrow>
                   (if matches_query lc display query fuzzy
                    then if prefer_long_name then longest item_names else first_of item_names
                    else None)
               | None \<Rightarrow> None)
         else if prefer_long_name then longest matching_names
         else first_of matching_names)"

definition hidden_item_is_visible :: "bool \<Rightarrow> str list \<Rightarrow> str \<Rightarrow> bool" where
  "hidden_item_is_visible hidden item_names query \<longleftrightarrow>
     \<not> hidden \<or> list_ex (\<lambda>candidate. eq_ignore_ascii_case candidate query) item_names"

definition suggest_current_token_for :: "active_arg option \<Rightarrow> bool \<Rightarrow> bool" where
  "suggest_current_token_for active all_args =
     unwrap_or all_args (Option.bind active (\<lambda>a. af_suggest_current_token (ar_fields (aa_arg a))))"

definition effective_fuzzy_for :: "bool \<Rightarrow> spec option \<Rightarrow> arg_spec option \<Rightarrow> bool" where
  "effective_fuzzy_for user_fuzzy spec active =
     (case Option.bind active (\<lambda>arg. af_filter_strategy (ar_fields arg)) of
        Some strategy \<Rightarrow> effective_fuzzy strategy user_fuzzy
      | None \<Rightarrow>
          (if active \<noteq> None then user_fuzzy
           else case Option.bind spec (\<lambda>s. sf_filter_strategy (sp_fields s)) of
             Some strategy \<Rightarrow> effective_fuzzy strategy user_fuzzy
           | None \<Rightarrow> user_fuzzy))"

text \<open>An item with what the closures of the caller answer for it.\<close>

record named_item =
  ni_names :: "str list"
  ni_description :: str
  ni_hint :: str
  ni_meta :: suggestion_meta
  ni_priority :: "int option"
  ni_should_add_space :: bool
  ni_separator :: "str option"
  ni_requires_arg :: bool
  ni_public_source :: bool

text \<open>What a collection is filtered by: lower casing, the query-term hooks, the query, the search term,
  fuzzy matching, and the preference for long names.\<close>

record row_query =
  rw_lowercase :: "str \<Rightarrow> str"
  rw_get_query_term :: "str \<Rightarrow> str \<Rightarrow> str option"
  rw_query :: str
  rw_search_term :: str
  rw_fuzzy :: bool
  rw_prefer_verbose :: bool

definition named_row :: "row_query \<Rightarrow> str \<Rightarrow> named_item \<Rightarrow> suggestion option" where
  "named_row rq kind item =
     (let meta = ni_meta item;
          suggestion_kind = unwrap_or kind (sm_suggestion_type meta);
          (item_query, item_query_term) =
            suggestion_query_term_with_hook (rw_get_query_term rq) suggestion_kind (sm_get_query_term meta)
              (sm_js_get_query_term meta) (rw_query rq) (rw_search_term rq);
          prefer_long_name =
            (rw_prefer_verbose rq \<and> (suggestion_kind = lit ''option'' \<or> suggestion_kind = lit ''subcommand''))
      in case select_named_candidate (rw_lowercase rq) (ni_names item) (sm_display_name meta) item_query
                (rw_fuzzy rq) prefer_long_name of
           None \<Rightarrow> None
         | Some name \<Rightarrow>
             (if \<not> hidden_item_is_visible (sm_hidden meta) (ni_names item) item_query then None
              else
                (let display_name =
                       or_else (sm_display_name meta)
                         (if length (ni_names item) > 1 then Some (str_join (lit '', '') (ni_names item)) else None);
                     row = (with_meta (sm_insert_value meta) display_name (ni_separator item) (ni_should_add_space item)
                              (sm_hidden meta) (ni_priority item) (sm_icon meta)
                              ((suggestion_new name (ni_description item) suggestion_kind)\<lparr>sg_args_hint := ni_hint item\<rparr>))
                             \<lparr>sg_primary_name := first_of (ni_names item), sg_is_dangerous := sm_is_dangerous meta,
                              sg_original_type := sm_original_type meta, sg_query_term := item_query_term,
                              sg_alias_names := ni_names item, sg_requires_arg := ni_requires_arg item\<rparr>
                 in Some (if ni_public_source item \<and> starts_with (sg_name row) (rw_query rq)
                          then mark_candidate meta row else row))))"

definition collect_named :: "row_query \<Rightarrow> str \<Rightarrow> named_item list \<Rightarrow> suggestion list" where
  "collect_named rq kind items = filter_map (named_row rq kind) items"

definition cmp_named_names :: "str list \<Rightarrow> str list \<Rightarrow> ordering" where
  "cmp_named_names left right =
     (let l = unwrap_or [] (first_of left); r = unwrap_or [] (first_of right)
      in cmp_then (cmp_ignore_ascii_case l r) (cmp_of l r))"

definition sorted_named :: "('a \<Rightarrow> str list) \<Rightarrow> 'a list \<Rightarrow> 'a list" where
  "sorted_named names items = sort_by (\<lambda>a b. cmp_named_names (names a) (names b)) items"

definition should_add_space :: "arg_spec list \<Rightarrow> bool option \<Rightarrow> bool \<Rightarrow> bool" where
  "should_add_space args requires_subcommand has_subcommands =
     (case args of
        arg # _ \<Rightarrow> (if \<not> ar_is_optional arg then True else unwrap_or has_subcommands requires_subcommand)
      | [] \<Rightarrow> unwrap_or has_subcommands requires_subcommand)"

definition first_mandatory :: "arg_spec list \<Rightarrow> bool" where
  "first_mandatory args \<longleftrightarrow> (case args of arg # _ \<Rightarrow> \<not> ar_is_optional arg | [] \<Rightarrow> False)"

definition subcommand_item :: "bool \<Rightarrow> spec \<Rightarrow> named_item" where
  "subcommand_item public spec =
     (let f = sp_fields spec; meta = sf_meta f
      in \<lparr>ni_names = sf_names f, ni_description = sf_description f, ni_hint = args_hint (sp_args spec), ni_meta = meta,
          ni_priority = sm_priority meta,
          ni_should_add_space =
            unwrap_or (should_add_space (sp_args spec) (sf_requires_subcommand f) (sp_subcommands spec \<noteq> []))
              (sm_should_add_space meta),
          ni_separator = sm_separator_to_add meta, ni_requires_arg = first_mandatory (sp_args spec),
          ni_public_source =
            (public \<and> \<not> sm_ai_resolved_reference meta \<and> \<not> sm_ai_generated meta \<and> sp_load_spec spec = None \<and>
             sf_js_load_spec f = None)\<rparr>)"

definition seed_item :: "suggestion_seed \<Rightarrow> named_item" where
  "seed_item seed =
     (let meta = ss_meta seed
      in \<lparr>ni_names = ss_names seed, ni_description = ss_description seed, ni_hint = ss_args_hint seed, ni_meta = meta,
          ni_priority = sm_priority meta, ni_should_add_space = unwrap_or False (sm_should_add_space meta),
          ni_separator = sm_separator_to_add meta, ni_requires_arg = False, ni_public_source = False\<rparr>)"

definition help_template_suggestions :: "(str \<Rightarrow> str) \<Rightarrow> spec \<Rightarrow> spec \<Rightarrow> str \<Rightarrow> bool \<Rightarrow> suggestion list" where
  "help_template_suggestions lc parent current query fuzzy =
     filter_map (\<lambda>sub.
       case find (\<lambda>candidate. query = [] \<or> matches_query lc candidate query fuzzy) (sp_names sub) of
         None \<Rightarrow> None
       | Some name \<Rightarrow>
           Some ((with_insert_value name (suggestion_new name (sf_description (sp_fields sub)) (lit ''special'')))
                   \<lparr>sg_primary_name := first_of (sp_names sub)\<rparr>))
       (filter (\<lambda>sub. \<not> list_ex (\<lambda>name. name \<in> set (sp_names current)) (sp_names sub)) (sp_subcommands parent))"

section \<open>Options still offered\<close>

text \<open>\<open>as_f64\<close> is \<open>serde_json::Number::as_f64\<close>; \<open>None\<close> is no limit.\<close>

definition option_repetition_limit :: "(json_number \<Rightarrow> rat option) \<Rightarrow> option_spec \<Rightarrow> rat option" where
  "option_repetition_limit as_f64 opt =
     (case of_is_repeatable (op_fields opt) of
        Some (JBool True) \<Rightarrow> None
      | Some (JNumber number) \<Rightarrow> map_option (\<lambda>v. if v = 0 then 1 else v) (as_f64 number)
      | _ \<Rightarrow> Some 1)"

definition option_repetition_count :: "option_spec \<Rightarrow> option_spec list \<Rightarrow> nat" where
  "option_repetition_count opt passed = length (filter (options_are_equal opt) passed)"

definition option_is_excluded :: "option_spec \<Rightarrow> option_spec list \<Rightarrow> bool" where
  "option_is_excluded opt passed \<longleftrightarrow>
     list_ex (\<lambda>candidate. list_ex (\<lambda>excluded. excluded \<in> set (op_names opt)) (of_exclusive_on (op_fields candidate))) passed"

definition option_priority :: "option_spec \<Rightarrow> option_spec list \<Rightarrow> int option" where
  "option_priority opt passed =
     (let unmet = (\<Union>c \<in> set passed. set (of_depends_on (op_fields c))) - (\<Union>c \<in> set passed. set (op_names c))
      in if list_ex (\<lambda>name. name \<in> unmet) (op_names opt) then Some 75 else sm_priority (of_meta (op_fields opt)))"

definition option_offered :: "(json_number \<Rightarrow> rat option) \<Rightarrow> option_spec list \<Rightarrow> option_spec \<Rightarrow> bool" where
  "option_offered as_f64 passed opt \<longleftrightarrow>
     \<not> option_is_excluded opt passed \<and>
     \<not> (case option_repetition_limit as_f64 opt of
          Some limit \<Rightarrow> limit \<le> of_nat (option_repetition_count opt passed)
        | None \<Rightarrow> False)"

definition option_separator :: "option_spec \<Rightarrow> parser_directives \<Rightarrow> str option" where
  "option_separator opt directives =
     (let f = op_fields opt;
          first_optional = (case op_args opt of arg # _ \<Rightarrow> ar_is_optional arg | [] \<Rightarrow> False);
          equals = (if of_requires_equals f \<and> \<not> first_optional then Some (lit ''='') else None)
      in case sm_separator_to_add (of_meta f) of
           Some separator \<Rightarrow> Some separator
         | None \<Rightarrow>
             (case of_requires_separator f of
                Some (JString separator) \<Rightarrow> Some separator
              | Some (JBool True) \<Rightarrow>
                  (if \<not> first_optional
                   then (case pd_option_arg_separators directives of
                           Some seps \<Rightarrow> first_of seps
                         | None \<Rightarrow> Some (lit ''=''))
                   else equals)
              | _ \<Rightarrow> equals))"

definition option_item :: "bool \<Rightarrow> parser_directives \<Rightarrow> option_spec list \<Rightarrow> option_spec \<Rightarrow> named_item" where
  "option_item public directives passed opt =
     (let f = op_fields opt; meta = of_meta f
      in \<lparr>ni_names = of_names f, ni_description = of_description f, ni_hint = args_hint (op_args opt), ni_meta = meta,
          ni_priority = option_priority opt passed,
          ni_should_add_space =
            unwrap_or (should_add_space (op_args opt) (of_requires_subcommand f) False) (sm_should_add_space meta),
          ni_separator = option_separator opt directives, ni_requires_arg = first_mandatory (op_args opt),
          ni_public_source =
            (public \<and> \<not> sm_ai_resolved_reference meta \<and> \<not> sm_ai_generated meta \<and> op_load_spec opt = None)\<rparr>)"

definition collect_option_suggestions ::
  "(json_number \<Rightarrow> rat option) \<Rightarrow> row_query \<Rightarrow> spec \<Rightarrow> option_spec list \<Rightarrow> option_spec list \<Rightarrow> parser_directives \<Rightarrow> bool \<Rightarrow>
   suggestion list" where
  "collect_option_suggestions as_f64 rq current persistent passed directives public =
     (let options = filter (option_offered as_f64 passed) (sorted_named op_names (sp_options current @ persistent))
      in collect_named rq (lit ''option'') (map (option_item public directives passed) options))"

text \<open>The option a chain ends in, by its position: the first one in scope under the last letter
  (the code compares addresses).\<close>

definition chain_position :: "option_spec list \<Rightarrow> short_option_chain \<Rightarrow> nat" where
  "chain_position options chain =
     length (takeWhile (\<lambda>opt. \<not> list_ex (is_short_name (last (sc_prefix chain))) (op_names opt)) options)"

definition chain_row ::
  "short_option_chain \<Rightarrow> option_spec list \<Rightarrow> parser_directives \<Rightarrow> bool \<Rightarrow> option_spec \<Rightarrow> str \<Rightarrow> suggestion" where
  "chain_row chain passed directives is_current opt short_name =
     (let f = op_fields opt; meta = of_meta f;
          name = (if is_current then sc_prefix chain
                  else sc_prefix chain @ trim_start_matches (\<lambda>c. c = c_dash) short_name);
          display_name =
            (if is_current
             then or_else (sm_display_name meta)
                    (if length (of_names f) > 1
                     then Some (str_join (lit '', '') (map (\<lambda>c. if c = short_name then sc_prefix chain else c) (of_names f)))
                     else None)
             else None)
      in (with_meta (if is_current then sm_insert_value meta else Some name) display_name
            (option_separator opt directives)
            (unwrap_or (should_add_space (op_args opt) (of_requires_subcommand f) False) (sm_should_add_space meta))
            (sm_hidden meta) (option_priority opt passed) (sm_icon meta)
            ((suggestion_new name (of_description f) (unwrap_or (lit ''option'') (sm_suggestion_type meta)))
               \<lparr>sg_args_hint := args_hint (op_args opt)\<rparr>))
           \<lparr>sg_primary_name := Some name, sg_is_dangerous := sm_is_dangerous meta,
            sg_original_type := sm_original_type meta, sg_query_term := Some (sc_prefix chain),
            sg_requires_arg := first_mandatory (op_args opt)\<rparr>)"

definition option_chain_suggestions ::
  "(json_number \<Rightarrow> rat option) \<Rightarrow> spec \<Rightarrow> option_spec list \<Rightarrow> short_option_chain \<Rightarrow> option_spec list \<Rightarrow>
   parser_directives \<Rightarrow> suggestion list" where
  "option_chain_suggestions as_f64 spec persistent chain passed directives =
     (let options = sp_options spec @ persistent;
          position = chain_position options chain;
          mandatory = first_mandatory (op_args (sc_option chain))
      in filter_map (\<lambda>(i, opt).
           if \<not> option_offered as_f64 passed opt \<or> (mandatory \<and> i \<noteq> position) then None
           else case short_option_name opt of
             None \<Rightarrow> None
           | Some short_name \<Rightarrow>
               (if sm_hidden (of_meta (op_fields opt)) then None
                else Some (chain_row chain passed directives (i = position) opt short_name)))
           (enumerate 0 options))"

section \<open>Rows that execute at once\<close>

definition auto_execute_row :: suggestion where
  "auto_execute_row =
     \<lparr>sg_public_ai_candidate = None, sg_argument_value = False, sg_acceptance_scope = None,
      sg_name = [c_hook_arrow], sg_description = [], sg_kind = lit ''auto-execute'', sg_args_hint = [],
      sg_insert_value = Some [c_nl], sg_display_name = None, sg_primary_name = None,
      sg_separator_to_add = None, sg_should_add_space = False, sg_hidden = False, sg_priority = 2 ^ 63 - 1,
      sg_icon = Some (lit ''fig://icon?type=carrot''), sg_original_type = None, sg_query_term = None,
      sg_is_dangerous = False, sg_requires_arg = False, sg_alias_names = []\<rparr>"

definition is_folder :: "suggestion \<Rightarrow> bool" where
  "is_folder s \<longleftrightarrow> sg_kind s = lit ''folder''"

definition exact_name :: "str \<Rightarrow> suggestion \<Rightarrow> bool" where
  "exact_name query s \<longleftrightarrow>
     (let row_query = unwrap_or query (sg_query_term s)
      in eq_ignore_ascii_case (sg_name s) row_query \<or>
         (is_folder s \<and>
          (case strip_suffix [c_slash] (sg_name s) of
             Some name \<Rightarrow> eq_ignore_ascii_case name row_query
           | None \<Rightarrow> False)))"

definition executable_row :: "str \<Rightarrow> bool \<Rightarrow> suggestion \<Rightarrow> bool" where
  "executable_row query allow_dangerous s \<longleftrightarrow>
     sg_kind s \<noteq> lit ''auto-execute'' \<and> exact_name query s \<and> \<not> sg_requires_arg s \<and>
     (allow_dangerous \<or> \<not> sg_is_dangerous s) \<and>
     (case sg_insert_value s of
        Some v \<Rightarrow> unwrap_or (sg_name s) (sg_primary_name s) = v
      | None \<Rightarrow> True)"

definition add_exact_auto_execute :: "str \<Rightarrow> bool \<Rightarrow> bool \<Rightarrow> bool \<Rightarrow> suggestion list \<Rightarrow> suggestion list" where
  "add_exact_auto_execute query hide only_show_on_tab allow_dangerous rows =
     (if query = [] \<or> hide \<or> only_show_on_tab then rows
      else case find (executable_row query allow_dangerous) rows of
        None \<Rightarrow> rows
      | Some original \<Rightarrow>
          auto_execute_row
            \<lparr>sg_argument_value := sg_argument_value original,
             sg_name := (if is_folder original then unwrap_or (sg_name original) (strip_suffix [c_slash] (sg_name original))
                         else sg_name original),
             sg_description := (if is_folder original then lit ''folder'' else sg_description original),
             sg_args_hint := sg_args_hint original, sg_display_name := sg_display_name original,
             sg_primary_name := sg_primary_name original,
             sg_original_type := or_else (sg_original_type original) (Some (sg_kind original)),
             sg_query_term := sg_query_term original, sg_alias_names := sg_alias_names original\<rparr> # rows)"

definition add_space_auto_execute :: "str \<Rightarrow> bool \<Rightarrow> bool \<Rightarrow> bool \<Rightarrow> suggestion list \<Rightarrow> suggestion list" where
  "add_space_auto_execute query execute_after_space hide only_show_on_tab rows =
     (if query \<noteq> [] \<or> \<not> execute_after_space \<or> hide \<or> only_show_on_tab \<or> rows = [] then rows
      else auto_execute_row\<lparr>sg_description := lit ''Immediately execute'', sg_is_dangerous := True\<rparr> # rows)"

definition add_current_token_auto_execute ::
  "str \<Rightarrow> bool \<Rightarrow> bool \<Rightarrow> bool \<Rightarrow> bool \<Rightarrow> bool \<Rightarrow> suggestion list \<Rightarrow> suggestion list" where
  "add_current_token_auto_execute query always_suggest_current_token hide only_show_on_tab allow_dangerous
     argument_value rows =
     (if query = [] \<or> hide \<or> only_show_on_tab \<or> rows = [] \<or>
         list_ex (\<lambda>s. sg_kind s = lit ''auto-execute'') rows
      then rows
      else if \<not> allow_dangerous \<and> list_ex (\<lambda>s. exact_name query s \<and> sg_is_dangerous s) rows then rows
      else if query = [c_dot] \<or> (ends_with query [c_slash] \<and> list_ex is_folder rows)
      then auto_execute_row
             \<lparr>sg_name := (if query = [c_dot] then query else [c_hook_arrow]), sg_argument_value := argument_value,
              sg_description := lit ''Enter the current directory'', sg_original_type := Some (lit ''folder'')\<rparr> # rows
      else if \<not> always_suggest_current_token then rows
      else auto_execute_row
             \<lparr>sg_name := query, sg_argument_value := argument_value,
              sg_description := lit ''Enter the current argument''\<rparr> # rows)"

definition command_is_disabled_from :: "str list \<Rightarrow> str \<Rightarrow> bool" where
  "command_is_disabled_from commands command \<longleftrightarrow> list_ex (\<lambda>disabled. disabled = command) commands"

section \<open>Option rows\<close>

lemma total_compare_named: "total_compare (\<lambda>a b. cmp_named_names (names a) (names b))"
proof -
  have "total_compare (\<lambda>a b. cmp_then
      (cmp_of (map to_ascii_lowercase (unwrap_or [] (first_of (names a)))) (map to_ascii_lowercase (unwrap_or [] (first_of (names b)))))
      (cmp_of (unwrap_or [] (first_of (names a))) (unwrap_or [] (first_of (names b)))))"
    by (intro total_compare_then total_compare_key)
  then show ?thesis by (simp add: cmp_named_names_def Let_def cmp_ignore_ascii_case_eq)
qed

interpretation by_name: total_compare "\<lambda>a b. cmp_named_names (names a) (names b)" for names
  by (rule total_compare_named)

lemma longest_in: "longest names = Some name \<Longrightarrow> name \<in> set names"
proof -
  have "fold (\<lambda>name best. case best of None \<Rightarrow> Some name
         | Some b \<Rightarrow> if str_len b \<le> str_len name then Some name else Some b) names acc = Some name \<Longrightarrow>
       name \<in> set names \<or> acc = Some name" for acc
    by (induction names arbitrary: acc) (fastforce split: option.splits if_splits)+
  from this [of None] show "longest names = Some name \<Longrightarrow> name \<in> set names" by (simp add: longest_def)
qed

lemma longest_some: "names \<noteq> [] \<Longrightarrow> longest names \<noteq> None"
proof -
  have "acc \<noteq> None \<or> names \<noteq> [] \<Longrightarrow> fold (\<lambda>name best. case best of None \<Rightarrow> Some name
         | Some b \<Rightarrow> if str_len b \<le> str_len name then Some name else Some b) names acc \<noteq> None" for acc
    by (induction names arbitrary: acc) (auto split: option.splits)
  then show "names \<noteq> [] \<Longrightarrow> longest names \<noteq> None" by (simp add: longest_def)
qed

lemma first_of_facts:
  "first_of xs = Some x \<Longrightarrow> x \<in> set xs" "xs \<noteq> [] \<Longrightarrow> first_of xs \<noteq> None"
  by (auto simp: first_of_def split: list.splits)

lemma select_named_in:
  assumes "select_named_candidate lc names display query fuzzy long = Some name"
  shows "name \<in> set names" "(\<exists>n \<in> set names. matches_query lc n query fuzzy) \<Longrightarrow> matches_query lc name query fuzzy"
  using assms by (auto simp: select_named_candidate_def Let_def filter_empty_conv dest!: longest_in first_of_facts(1) split: if_splits option.splits)

lemma select_named_some:
  "select_named_candidate lc names display query fuzzy long \<noteq> None \<longleftrightarrow>
   (\<exists>name \<in> set names. matches_query lc name query fuzzy) \<or> names \<noteq> [] \<and> (\<exists>d. display = Some d \<and> matches_query lc d query fuzzy)"
proof -
  have some: "longest xs = None \<longleftrightarrow> xs = []" "first_of xs = None \<longleftrightarrow> xs = []" for xs :: "str list"
    using longest_some [of xs] first_of_facts(2) [of xs] by (cases "xs = []"; simp add: longest_def first_of_def; fail)+
  show ?thesis
    by (cases display) (auto simp: select_named_candidate_def Let_def filter_empty_conv some simp del: not_None_eq)
qed

lemma mark_candidate_keeps [simp]:
  "sg_name (mark_candidate meta s) = sg_name s" "sg_alias_names (mark_candidate meta s) = sg_alias_names s"
  "sg_requires_arg (mark_candidate meta s) = sg_requires_arg s" "sg_is_dangerous (mark_candidate meta s) = sg_is_dangerous s"
  "sg_kind (mark_candidate meta s) = sg_kind s" "sg_query_term (mark_candidate meta s) = sg_query_term s"
  by (simp_all add: mark_candidate_def)

text \<open>What an item is found by: a matching name, or a display name that matches, and a hidden one only by one of its names in full.\<close>

definition item_found :: "(str \<Rightarrow> str \<Rightarrow> bool) \<Rightarrow> str \<Rightarrow> str list \<Rightarrow> suggestion_meta \<Rightarrow> bool" where
  "item_found matches q names meta \<longleftrightarrow>
     ((\<exists>name \<in> set names. matches name q) \<or> names \<noteq> [] \<and> (\<exists>d. sm_display_name meta = Some d \<and> matches d q)) \<and>
     (sm_hidden meta \<longrightarrow> (\<exists>name \<in> set names. map to_ascii_lowercase name = map to_ascii_lowercase q))"

lemma query_term_pair:
  "\<exists>t. suggestion_query_term_with_hook hook kind sep js query search = (unwrap_or query t, t) \<and> (sep = None \<and> js = None \<and> kind \<noteq> lit ''shortcut'' \<longrightarrow> t = None)"
  by (auto simp: suggestion_query_term_with_hook_def unwrap_or_def Let_def)

lemma named_row_facts:
  fixes rq
  defines "matches \<equiv> \<lambda>text q. matches_query (rw_lowercase rq) text q (rw_fuzzy rq)"
  assumes "named_row rq kind item = Some row"
  shows "sg_name row \<in> set (ni_names item)" "sg_alias_names row = ni_names item"
    "sg_requires_arg row = ni_requires_arg item" "sg_is_dangerous row = sm_is_dangerous (ni_meta item)"
    "sg_kind row = unwrap_or kind (sm_suggestion_type (ni_meta item))"
    "item_found matches (unwrap_or (rw_query rq) (sg_query_term row)) (ni_names item) (ni_meta item)"
    "(\<exists>name \<in> set (ni_names item). matches name (unwrap_or (rw_query rq) (sg_query_term row))) \<Longrightarrow>
       matches (sg_name row) (unwrap_or (rw_query rq) (sg_query_term row))"
proof -
  let ?kind = "unwrap_or kind (sm_suggestion_type (ni_meta item))"
  obtain t where t: "suggestion_query_term_with_hook (rw_get_query_term rq) ?kind (sm_get_query_term (ni_meta item))
      (sm_js_get_query_term (ni_meta item)) (rw_query rq) (rw_search_term rq) = (unwrap_or (rw_query rq) t, t)" using query_term_pair by blast
  from assms(2) obtain name where
    row: "select_named_candidate (rw_lowercase rq) (ni_names item) (sm_display_name (ni_meta item)) (unwrap_or (rw_query rq) t) (rw_fuzzy rq)
      (rw_prefer_verbose rq \<and> (?kind = lit ''option'' \<or> ?kind = lit ''subcommand'')) = Some name"
    "hidden_item_is_visible (sm_hidden (ni_meta item)) (ni_names item) (unwrap_or (rw_query rq) t)" "sg_query_term row = t"
    "sg_name row = name" "sg_alias_names row = ni_names item"
    "sg_requires_arg row = ni_requires_arg item" "sg_is_dangerous row = sm_is_dangerous (ni_meta item)" "sg_kind row = ?kind"
    by (auto simp: named_row_def Let_def t with_meta_def suggestion_new_def split: option.splits if_splits)
  show "sg_name row \<in> set (ni_names item)" "sg_alias_names row = ni_names item"
    "sg_requires_arg row = ni_requires_arg item" "sg_is_dangerous row = sm_is_dangerous (ni_meta item)" "sg_kind row = ?kind"
    using row select_named_in(1) [OF row(1)] by simp_all
  show "item_found matches (unwrap_or (rw_query rq) (sg_query_term row)) (ni_names item) (ni_meta item)"
    using select_named_some [THEN iffD1, OF option.discI [OF row(1)]] row(2,3)
    by (auto simp: item_found_def matches_def hidden_item_is_visible_def list_ex_iff eq_ignore_ascii_case_def)
  show "(\<exists>name \<in> set (ni_names item). matches name (unwrap_or (rw_query rq) (sg_query_term row))) \<Longrightarrow>
       matches (sg_name row) (unwrap_or (rw_query rq) (sg_query_term row))"
    using select_named_in(2) [OF row(1)] row(3,4) by (simp add: matches_def)
qed

text \<open>An item without metadata that changes its query has its row when it is found.\<close>

lemma named_row_some:
  assumes "sm_get_query_term (ni_meta item) = None" "sm_js_get_query_term (ni_meta item) = None"
    and "sm_suggestion_type (ni_meta item) = None" "kind \<noteq> lit ''shortcut''"
    and "item_found (\<lambda>text q. matches_query (rw_lowercase rq) text q (rw_fuzzy rq)) (rw_query rq) (ni_names item) (ni_meta item)"
  shows "\<exists>row. named_row rq kind item = Some row"
proof -
  have "select_named_candidate (rw_lowercase rq) (ni_names item) (sm_display_name (ni_meta item)) (rw_query rq)
      (rw_fuzzy rq) (rw_prefer_verbose rq \<and> (kind = lit ''option'' \<or> kind = lit ''subcommand'')) \<noteq> None"
    using assms(5) unfolding select_named_some item_found_def by blast
  then obtain name where "select_named_candidate (rw_lowercase rq) (ni_names item) (sm_display_name (ni_meta item)) (rw_query rq)
      (rw_fuzzy rq) (rw_prefer_verbose rq \<and> (kind = lit ''option'' \<or> kind = lit ''subcommand'')) = Some name" by blast
  moreover have "hidden_item_is_visible (sm_hidden (ni_meta item)) (ni_names item) (rw_query rq)"
    using assms(5) by (auto simp: item_found_def hidden_item_is_visible_def list_ex_iff eq_ignore_ascii_case_def)
  ultimately show ?thesis using assms(1-4)
    by (simp add: named_row_def Let_def suggestion_query_term_with_hook_def unwrap_or_def)
qed

lemma filter_map_map: "filter_map f (map g xs) = filter_map (f \<circ> g) xs"
  by (induction xs) (auto split: option.split)

lemma sorted_filter_map:
  assumes "sorted_wrt P xs" "\<And>x y x' y'. f x = Some x' \<Longrightarrow> f y = Some y' \<Longrightarrow> P x y \<Longrightarrow> Q x' y'"
  shows "sorted_wrt Q (filter_map f xs)"
  using assms(1) by (induction xs) (auto simp: set_filter_map intro: assms(2) split: option.split)

text \<open>Which options may still be given after those typed before: none of them excludes it, and it has not
  been given as often as it may; a limit of 0 counts as 1.\<close>

definition may_be_given :: "(json_number \<Rightarrow> rat option) \<Rightarrow> option_spec list \<Rightarrow> option_spec \<Rightarrow> bool" where
  "may_be_given as_f64 passed opt \<longleftrightarrow>
     (\<forall>p \<in> set passed. set (of_exclusive_on (op_fields p)) \<inter> set (op_names opt) = {}) \<and>
     (let given = length (filter (\<lambda>p. set (op_names p) \<inter> set (op_names opt) \<noteq> {}) passed)
      in case of_is_repeatable (op_fields opt) of
           Some (JBool True) \<Rightarrow> True
         | Some (JNumber n) \<Rightarrow> (\<forall>v. as_f64 n = Some v \<longrightarrow> of_nat given < (if v = 0 then 1 else v))
         | _ \<Rightarrow> given = 0)"

lemma offered_may_be_given: "option_offered as_f64 passed opt \<longleftrightarrow> may_be_given as_f64 passed opt"
proof -
  have "options_are_equal opt = (\<lambda>p. set (op_names p) \<inter> set (op_names opt) \<noteq> {})"
    by (auto simp: fun_eq_iff options_are_equal_def list_ex_iff)
  then have given: "option_repetition_count opt passed = length (filter (\<lambda>p. set (op_names p) \<inter> set (op_names opt) \<noteq> {}) passed)"
    by (simp add: option_repetition_count_def)
  have excluded: "option_is_excluded opt passed \<longleftrightarrow> \<not> (\<forall>p \<in> set passed. set (of_exclusive_on (op_fields p)) \<inter> set (op_names opt) = {})"
    by (auto simp: option_is_excluded_def list_ex_iff)
  have used: "(case option_repetition_limit as_f64 opt of Some limit \<Rightarrow> limit \<le> of_nat given | None \<Rightarrow> False) \<longleftrightarrow>
      \<not> (case of_is_repeatable (op_fields opt) of Some (JBool True) \<Rightarrow> True
           | Some (JNumber n) \<Rightarrow> (\<forall>v. as_f64 n = Some v \<longrightarrow> of_nat given < (if v = 0 then 1 else v)) | _ \<Rightarrow> given = 0)" for given
  proof (cases "of_is_repeatable (op_fields opt)")
    case (Some v)
    show ?thesis
    proof (cases v)
      case (JNumber n)
      then show ?thesis by (cases "as_f64 n") (simp_all add: option_repetition_limit_def Some not_less)
    qed (simp_all add: option_repetition_limit_def Some Suc_le_eq split: bool.split)
  qed (cases given; simp add: option_repetition_limit_def)
  show ?thesis unfolding option_offered_def may_be_given_def given excluded used Let_def by blast
qed

definition primary_name_of :: "str list \<Rightarrow> str" where
  "primary_name_of names = (case names of [] \<Rightarrow> [] | name # _ \<Rightarrow> name)"

lemma cmp_named_names_order:
  "cmp_named_names a b \<noteq> Greater \<longleftrightarrow>
     (let l = map to_ascii_lowercase (primary_name_of a); r = map to_ascii_lowercase (primary_name_of b)
      in l < r \<or> l = r \<and> primary_name_of a \<le> primary_name_of b)"
  by (auto simp: cmp_named_names_def Let_def cmp_ignore_ascii_case_eq cmp_then_eq_iff primary_name_of_def first_of_def unwrap_or_def not_less
      neq_Nil_conv split: list.splits)

text \<open>
  Property C22. The option rows are exactly the options in scope that may still be given and are found by
  the query. Every row shows under one of its names an option of the current spec or a persistent one
  that no option typed before excludes and that has not been given as often as it may; the row's query
  matches the name it shows, or no name of the option but its display name, and a hidden option is shown
  only when the query is one of its names up to ASCII case. Every such option without a query rewriting
  of its own has a row. The rows come in the order of the primary names, ignoring ASCII case, and of
  names equal up to case in the order of the names themselves.
\<close>

theorem option_rows:
  fixes as_f64 rq current persistent passed directives public
  defines "rows \<equiv> collect_option_suggestions as_f64 rq current persistent passed directives public"
    and "matches \<equiv> \<lambda>text q. matches_query (rw_lowercase rq) text q (rw_fuzzy rq)"
    and "scope \<equiv> set (sp_options current @ persistent)"
  shows "(\<forall>row \<in> set rows. \<exists>opt \<in> scope. let q = unwrap_or (rw_query rq) (sg_query_term row); meta = of_meta (op_fields opt) in
       may_be_given as_f64 passed opt \<and> item_found matches q (op_names opt) meta \<and>
       sg_name row \<in> set (op_names opt) \<and> ((\<exists>name \<in> set (op_names opt). matches name q) \<longrightarrow> matches (sg_name row) q) \<and>
       sg_alias_names row = op_names opt \<and> sg_requires_arg row = first_mandatory (op_args opt) \<and>
       sg_is_dangerous row = sm_is_dangerous meta) \<and>
    (\<forall>opt \<in> scope. let meta = of_meta (op_fields opt) in
       may_be_given as_f64 passed opt \<and> sm_get_query_term meta = None \<and> sm_js_get_query_term meta = None \<and>
       sm_suggestion_type meta = None \<and> item_found matches (rw_query rq) (op_names opt) meta \<longrightarrow>
       (\<exists>row \<in> set rows. sg_alias_names row = op_names opt)) \<and>
    sorted_wrt (\<lambda>a b. let l = map to_ascii_lowercase (primary_name_of (sg_alias_names a)); r = map to_ascii_lowercase (primary_name_of (sg_alias_names b))
       in l < r \<or> l = r \<and> primary_name_of (sg_alias_names a) \<le> primary_name_of (sg_alias_names b)) rows"
proof -
  let ?row = "\<lambda>opt. named_row rq (lit ''option'') (option_item public directives passed opt)"
  let ?opts = "filter (option_offered as_f64 passed) (sorted_named op_names (sp_options current @ persistent))"
  have rows: "rows = filter_map ?row ?opts"
    by (simp add: rows_def collect_option_suggestions_def collect_named_def filter_map_map Let_def comp_def)
  have set_opts: "opt \<in> set ?opts \<longleftrightarrow> opt \<in> scope \<and> may_be_given as_f64 passed opt" for opt
    by (auto simp: sorted_named_def scope_def offered_may_be_given)
  have item: "ni_names (option_item public directives passed opt) = op_names opt"
    "ni_requires_arg (option_item public directives passed opt) = first_mandatory (op_args opt)"
    "ni_meta (option_item public directives passed opt) = of_meta (op_fields opt)" for opt
    by (simp_all add: option_item_def Let_def)
  note facts = named_row_facts [of rq "lit ''option''" "option_item public directives passed opt" row for opt row, unfolded item]
  have sound: "\<exists>opt \<in> scope. let q = unwrap_or (rw_query rq) (sg_query_term row); meta = of_meta (op_fields opt) in
       may_be_given as_f64 passed opt \<and> item_found matches q (op_names opt) meta \<and>
       sg_name row \<in> set (op_names opt) \<and> ((\<exists>name \<in> set (op_names opt). matches name q) \<longrightarrow> matches (sg_name row) q) \<and>
       sg_alias_names row = op_names opt \<and> sg_requires_arg row = first_mandatory (op_args opt) \<and> sg_is_dangerous row = sm_is_dangerous meta"
    if "row \<in> set rows" for row
  proof -
    from that obtain opt where opt: "opt \<in> set ?opts" "?row opt = Some row" unfolding rows set_filter_map by blast
    show ?thesis unfolding Let_def matches_def
      using opt(1) set_opts facts(1-4) [OF opt(2)] facts(6,7) [OF opt(2)] by (intro bexI [of _ opt] conjI impI) (simp_all only:)
  qed
  have complete: "\<exists>row \<in> set rows. sg_alias_names row = op_names opt"
    if "opt \<in> scope" "may_be_given as_f64 passed opt" "sm_get_query_term (of_meta (op_fields opt)) = None"
       "sm_js_get_query_term (of_meta (op_fields opt)) = None" "sm_suggestion_type (of_meta (op_fields opt)) = None"
       "item_found matches (rw_query rq) (op_names opt) (of_meta (op_fields opt))" for opt
  proof -
    have "\<exists>row. ?row opt = Some row"
      using that unfolding matches_def by (intro named_row_some) (simp_all add: item)
    then obtain row where row: "?row opt = Some row" ..
    with facts(2) [OF this] set_opts that(1,2) show ?thesis unfolding rows set_filter_map by blast
  qed
  have "sorted_wrt (\<lambda>a b. cmp_named_names (op_names a) (op_names b) \<noteq> Greater) ?opts"
    unfolding sorted_named_def
    by (intro sorted_wrt_filter by_name.sorted_sort_by [unfolded by_name.le_def])
  then have "sorted_wrt (\<lambda>a b. cmp_named_names (sg_alias_names a) (sg_alias_names b) \<noteq> Greater) rows"
    unfolding rows by (rule sorted_filter_map) (simp add: facts(2))
  with sound complete show ?thesis unfolding cmp_named_names_order by (simp add: Let_def)
qed

definition empty_query :: row_query where
  "empty_query = \<lparr>rw_lowercase = (\<lambda>s. s), rw_get_query_term = (\<lambda>_ _. None), rw_query = [], rw_search_term = [],
     rw_fuzzy = False, rw_prefer_verbose = False\<rparr>"

text \<open>After \<open>--all\<close> the other option of the spec is offered, and \<open>--all\<close> is not offered again.\<close>

theorem option_rows_witness:
  "let a = sample_option [''--all''] []; q = sample_option [''--quiet''] [];
       rows = collect_option_suggestions (\<lambda>_. None) empty_query (sample_spec [q, a] []) [] [a] directives_default False
   in (\<exists>row \<in> set rows. sg_alias_names row = [lit ''--quiet'']) \<and>
      (\<forall>row \<in> set rows. sg_alias_names row \<noteq> [lit ''--all''])"
proof -
  let ?a = "sample_option [''--all''] []" and ?q = "sample_option [''--quiet''] []"
  let ?rows = "collect_option_suggestions (\<lambda>_. None) empty_query (sample_spec [?q, ?a] []) [] [?a] directives_default False"
  note use = option_rows [of "\<lambda>_. None" empty_query "sample_spec [?q, ?a] []" "[]" "[?a]" directives_default False, unfolded Let_def]
  have scope: "set (sp_options (sample_spec [?q, ?a] []) @ []) = {?q, ?a}" by (auto simp: sample_defs)
  have given: "may_be_given (\<lambda>_. None) [?a] ?q" "\<not> may_be_given (\<lambda>_. None) [?a] ?a"
    by (simp_all add: sample_defs may_be_given_def)
  have "\<exists>row \<in> set ?rows. sg_alias_names row = op_names ?q"
    using given by (intro use [THEN conjunct2, THEN conjunct1, rule_format] conjI)
      (simp_all add: scope, simp_all add: sample_defs empty_query_def matches_query_def item_found_def)
  moreover have "\<forall>row \<in> set ?rows. sg_alias_names row = op_names ?q"
    using use [THEN conjunct1] given(2) unfolding scope by blast
  ultimately show ?thesis unfolding Let_def by (simp add: sample_defs)
qed

section \<open>What Enter runs\<close>

lemma find_split: "find P xs = Some x \<Longrightarrow> \<exists>before after. xs = before @ x # after \<and> P x \<and> (\<forall>b \<in> set before. \<not> P b)"
proof (induction xs)
  case (Cons y xs)
  then show ?case
    by (cases "P y") (auto intro: exI [of _ "[]"], metis append_Cons set_ConsD)
qed simp

lemma auto_row_facts [simp]:
  "sg_kind auto_execute_row = lit ''auto-execute''" "sg_insert_value auto_execute_row = Some [c_nl]"
  by (simp_all add: auto_execute_row_def)

text \<open>A row is spelled by a query: its name is the query, or the query term of its own, up to ASCII case; the
  slash of a folder may be missing.\<close>

definition spelled :: "str \<Rightarrow> suggestion \<Rightarrow> bool" where
  "spelled query s \<longleftrightarrow>
     (let name = map to_ascii_lowercase (sg_name s); q = map to_ascii_lowercase (case sg_query_term s of Some t \<Rightarrow> t | None \<Rightarrow> query)
      in name = q \<or> sg_kind s = lit ''folder'' \<and> name = q @ [c_slash])"

lemma exact_name_spelled: "exact_name query s \<longleftrightarrow> spelled query s"
proof -
  have slash: "to_ascii_lowercase c = c_slash \<longleftrightarrow> c = c_slash" for c by (auto simp: to_ascii_lowercase_def)
  have "(case strip_suffix [c_slash] n of Some m \<Rightarrow> eq_ignore_ascii_case m q | None \<Rightarrow> False) \<longleftrightarrow>
      map to_ascii_lowercase n = map to_ascii_lowercase q @ [c_slash]" for n q
    by (cases n rule: rev_cases) (auto simp: strip_suffix_def ends_with_iff eq_ignore_ascii_case_def slash)
  then show ?thesis
    by (auto simp: exact_name_def spelled_def is_folder_def Let_def eq_ignore_ascii_case_def unwrap_or_def split: option.splits)
qed

text \<open>The row for a row that is spelled out may run it: no argument is missing, it is not dangerous or
  dangerous ones are allowed, and what it inserts is its name.\<close>

definition may_run :: "str \<Rightarrow> bool \<Rightarrow> suggestion \<Rightarrow> bool" where
  "may_run query allow_dangerous s \<longleftrightarrow>
     spelled query s \<and> \<not> sg_requires_arg s \<and> (allow_dangerous \<or> \<not> sg_is_dangerous s) \<and>
     (\<forall>v. sg_insert_value s = Some v \<longrightarrow> v = (case sg_primary_name s of Some n \<Rightarrow> n | None \<Rightarrow> sg_name s))"

lemma executable_may_run: "sg_kind s \<noteq> lit ''auto-execute'' \<Longrightarrow> executable_row query allow_dangerous s \<longleftrightarrow> may_run query allow_dangerous s"
  by (auto simp: executable_row_def may_run_def exact_name_spelled unwrap_or_def split: option.splits)

text \<open>
  Property C23. Exactly when a row that runs the command at once is added, and which: from rows without
  one, the two passes add one at the front, or leave the rows as they are. It is added only when the
  settings show such rows. The first pass adds it for the first row that is spelled out by the query and
  may run: it needs no argument, inserts its name, and is not dangerous unless dangerous commands are
  allowed. Without such a row the second pass adds it for the token as it stands, when the argument
  suggests its current token, or the token is a dot or ends with a slash among folders, unless a
  dangerous row is spelled out by the whole token and dangerous commands are not allowed. The second
  pass does not look at the query: a dangerous row spelled out by the query only, as the value in
  \<open>--run=rm\<close>, does not stop it.
\<close>

theorem auto_execute_guarded:
  fixes token query always hide only_show_on_tab allow_dangerous argument_value rows
  assumes "\<forall>s \<in> set rows. sg_kind s \<noteq> lit ''auto-execute''"
  defines "rows' \<equiv> add_current_token_auto_execute token always hide only_show_on_tab allow_dangerous argument_value
                       (add_exact_auto_execute query hide only_show_on_tab allow_dangerous rows)"
  defines "folders \<equiv> \<exists>s \<in> set rows. sg_kind s = lit ''folder''"
  defines "exact \<equiv> query \<noteq> [] \<and> (\<exists>s \<in> set rows. may_run query allow_dangerous s)"
  defines "current \<equiv> token \<noteq> [] \<and> rows \<noteq> [] \<and> (token = [c_dot] \<or> always \<or> ends_with token [c_slash] \<and> folders) \<and>
      (allow_dangerous \<or> (\<forall>s \<in> set rows. spelled token s \<longrightarrow> \<not> sg_is_dangerous s))"
  shows "if hide \<or> only_show_on_tab \<or> \<not> exact \<and> \<not> current then rows' = rows
    else \<exists>auto. rows' = auto # rows \<and> sg_kind auto = lit ''auto-execute'' \<and> sg_insert_value auto = Some [c_nl] \<and>
      (if exact
       then \<exists>before s after. rows = before @ s # after \<and> may_run query allow_dangerous s \<and> (\<forall>b \<in> set before. \<not> may_run query allow_dangerous b) \<and>
         sg_query_term auto = sg_query_term s \<and> sg_argument_value auto = sg_argument_value s \<and>
         sg_name auto = (if sg_kind s = lit ''folder'' \<and> ends_with (sg_name s) [c_slash] then butlast (sg_name s) else sg_name s)
       else sg_argument_value auto = argument_value \<and>
         sg_name auto = (if token \<noteq> [c_dot] \<and> ends_with token [c_slash] \<and> folders then [c_hook_arrow] else token))"
proof -
  let ?exact = "add_exact_auto_execute query hide only_show_on_tab allow_dangerous rows"
  let ?after = "add_current_token_auto_execute token always hide only_show_on_tab allow_dangerous argument_value"
  have runs: "executable_row query allow_dangerous s \<longleftrightarrow> may_run query allow_dangerous s" if "s \<in> set rows" for s
    using assms(1) that by (intro executable_may_run) blast
  have none: "find (executable_row query allow_dangerous) rows = None \<longleftrightarrow> \<not> (\<exists>s \<in> set rows. may_run query allow_dangerous s)"
    using runs by (auto simp: find_None_iff)
  consider "hide \<or> only_show_on_tab" | "\<not> hide" "\<not> only_show_on_tab" "\<not> exact" | "\<not> hide" "\<not> only_show_on_tab" "exact" by blast
  then show ?thesis
  proof cases
    case 1
    then have "rows' = rows" unfolding rows'_def by (elim disjE) (simp_all add: add_exact_auto_execute_def add_current_token_auto_execute_def)
    with 1 show ?thesis by (elim disjE) simp_all
  next
    case 2
    have "?exact = rows" using 2 none by (auto simp: add_exact_auto_execute_def exact_def split: option.split)
    moreover have "\<not> list_ex (\<lambda>s. sg_kind s = lit ''auto-execute'') rows" using assms(1) by (auto simp: list_ex_iff)
    moreover define dangerous where "dangerous \<longleftrightarrow> (\<exists>s \<in> set rows. spelled token s \<and> sg_is_dangerous s)"
    define slash where "slash \<longleftrightarrow> ends_with token [c_slash] \<and> folders"
    let ?directory = "auto_execute_row\<lparr>sg_name := (if token = [c_dot] then token else [c_hook_arrow]), sg_argument_value := argument_value,
              sg_description := lit ''Enter the current directory'', sg_original_type := Some (lit ''folder'')\<rparr>"
    let ?token = "auto_execute_row\<lparr>sg_name := token, sg_argument_value := argument_value, sg_description := lit ''Enter the current argument''\<rparr>"
    have "list_ex is_folder rows \<longleftrightarrow> folders" "list_ex (\<lambda>s. exact_name token s \<and> sg_is_dangerous s) rows \<longleftrightarrow> dangerous"
      by (simp_all add: list_ex_iff is_folder_def folders_def exact_name_spelled dangerous_def)
    ultimately have rows': "rows' = (if token = [] \<or> rows = [] \<or> \<not> allow_dangerous \<and> dangerous then rows
        else if token = [c_dot] \<or> slash then ?directory # rows else if always then ?token # rows else rows)"
      using 2(1,2) unfolding rows'_def by (simp only: add_current_token_auto_execute_def slash_def if_False simp_thms) (simp only: split: if_split, blast?)
    have "current \<longleftrightarrow> token \<noteq> [] \<and> rows \<noteq> [] \<and> (token = [c_dot] \<or> always \<or> slash) \<and> (allow_dangerous \<or> \<not> dangerous)"
      unfolding current_def slash_def dangerous_def by blast
    with 2 rows' show ?thesis unfolding slash_def [symmetric] by (cases "token = [c_dot]"; cases slash; cases always) simp_all
  next
    case 3
    then obtain s where s: "find (executable_row query allow_dangerous) rows = Some s" using none by (auto simp: exact_def)
    then obtain before after where split: "rows = before @ s # after" "may_run query allow_dangerous s" "\<forall>b \<in> set before. \<not> may_run query allow_dangerous b"
      using find_split [OF s] runs by auto
    have name: "unwrap_or n (strip_suffix [c_slash] n) = (if ends_with n [c_slash] then butlast n else n)" for n
      by (simp add: strip_suffix_def unwrap_or_def butlast_conv_take)
    obtain auto where auto: "?exact = auto # rows" "sg_kind auto = lit ''auto-execute''" "sg_insert_value auto = Some [c_nl]"
        "sg_query_term auto = sg_query_term s" "sg_argument_value auto = sg_argument_value s"
        "sg_name auto = (if sg_kind s = lit ''folder'' \<and> ends_with (sg_name s) [c_slash] then butlast (sg_name s) else sg_name s)"
      using 3 s by (auto simp: add_exact_auto_execute_def exact_def is_folder_def name)
    from auto(2) have "rows' = auto # rows" by (simp add: rows'_def auto(1) add_current_token_auto_execute_def)
    then show ?thesis using 3 auto(2-6) split by auto
  qed
qed

definition exact_rows :: "suggestion list" where
  "exact_rows = [(suggestion_new (lit ''clean'') [] (lit ''subcommand''))\<lparr>sg_is_dangerous := True\<rparr>]"

text \<open>The dangerous command that is spelled out is not run, by either pass.\<close>

theorem auto_execute_guarded_witness:
  "add_current_token_auto_execute (lit ''clean'') True False False False True
     (add_exact_auto_execute (lit ''clean'') False False False exact_rows) = exact_rows"
proof -
  have "\<forall>s \<in> set exact_rows. sg_kind s \<noteq> lit ''auto-execute''" by (simp add: exact_rows_def suggestion_new_def)
  moreover have "spelled (lit ''clean'') s \<and> \<not> may_run (lit ''clean'') False s \<and> sg_is_dangerous s" if "s \<in> set exact_rows" for s
    using that by (simp add: exact_rows_def suggestion_new_def spelled_def may_run_def)
  moreover have "exact_rows \<noteq> []" by (simp add: exact_rows_def)
  ultimately show ?thesis
    using auto_execute_guarded [where rows = exact_rows and token = "lit ''clean''" and query = "lit ''clean''" and always = True and hide = False and
      only_show_on_tab = False and allow_dangerous = False and argument_value = True] by (auto split: if_splits)
qed

end
