(* ===== verification/Argument_Scope.thy ===== *)
theory Argument_Scope
  imports Acceptance Walk "HOL-Library.Word"
begin

unbundle bit_operations_syntax

text \<open>
  The identity of an argument row (\<open>rank.rs\<close>, \<open>argument_scope\<close>, lines 39--77): the bytes of the
  working directory and of the argument slot are hashed and printed in hexadecimal. The hash function
  of the \<open>sha2\<close> crate is the parameter \<open>sha256\<close>.
\<close>

section \<open>Bytes\<close>

type_synonym byte = "8 word"

text \<open>\<open>str::as_bytes\<close>: UTF-8.\<close>

definition utf8_octets :: "rchar \<Rightarrow> nat list" where
  "utf8_octets c =
     (if c < 128 then [c]
      else if c < 2048 then [192 + c div 64, 128 + c mod 64]
      else if c < 65536 then [224 + c div 4096, 128 + c div 64 mod 64, 128 + c mod 64]
      else [240 + c div 262144, 128 + c div 4096 mod 64, 128 + c div 64 mod 64, 128 + c mod 64])"

definition utf8_char :: "rchar \<Rightarrow> byte list" where
  "utf8_char c = map of_nat (utf8_octets c)"

definition as_bytes :: "str \<Rightarrow> byte list" where
  "as_bytes s = concat (map utf8_char s)"

definition to_le_bytes :: "64 word \<Rightarrow> byte list" where
  "to_le_bytes w = map (\<lambda>i. ucast (drop_bit (8 * i) w)) [0..<8]"

definition hash_part :: "byte list \<Rightarrow> byte list" where
  "hash_part bytes = to_le_bytes (of_nat (length bytes)) @ bytes"

section \<open>The scope\<close>

definition SCOPE_DOMAIN :: "byte list" where
  "SCOPE_DOMAIN = as_bytes (lit ''fastab.argumentAcceptance.v1'')"

definition HEX :: str where
  "HEX = lit ''0123456789abcdef''"

text \<open>What is fed to the hash.\<close>

definition scope_message :: "str \<Rightarrow> arg_slot \<Rightarrow> byte list" where
  "scope_message cwd sl =
     SCOPE_DOMAIN @ hash_part (as_bytes cwd) @ hash_part (as_bytes (sl_root sl)) @
     to_le_bytes (of_nat (length (sl_path sl))) @ concat (map (\<lambda>name. hash_part (as_bytes name)) (sl_path sl)) @
     [if sl_option sl = None then 0 else 1] @
     (case sl_option sl of None \<Rightarrow> [] | Some opt \<Rightarrow> hash_part (as_bytes opt)) @
     to_le_bytes (of_nat (sl_index sl))"

definition hex_byte :: "byte \<Rightarrow> str" where
  "hex_byte b = [HEX ! unat (drop_bit 4 b), HEX ! unat (b AND 15)]"

text \<open>\<open>Path::is_absolute\<close> on Unix: the path starts with a slash.\<close>

definition argument_scope :: "(byte list \<Rightarrow> byte list) \<Rightarrow> str \<Rightarrow> arg_slot \<Rightarrow> str option" where
  "argument_scope sha256 cwd sl =
     (if cwd = [] \<or> \<not> starts_with_char cwd c_slash \<or> sl_root sl = [] \<or> list_ex (\<lambda>name. name = []) (sl_path sl) \<or>
         sl_option sl = Some []
      then None
      else Some (lit ''v1:'' @ concat (map hex_byte (sha256 (scope_message cwd sl)))))"

section \<open>The hexadecimal digits\<close>

lemma nibble_bounds: "unat (drop_bit 4 b) < 16" "unat (b AND 15) < 16" for b :: byte
proof -
  have "unat (drop_bit 4 b) = unat b div 16" by (simp add: drop_bit_eq_div unat_div_distrib)
  moreover have "unat b < 256" using unsigned_less [of b] by simp
  ultimately show "unat (drop_bit 4 b) < 16" by simp
  have "b AND 15 = take_bit 4 b" by (simp add: take_bit_eq_mask mask_eq_exp_minus_1)
  then show "unat (b AND 15) < 16" by (simp add: take_bit_eq_mod unat_mod_distrib)
qed

lemma byte_of_nibbles:
  fixes a b :: byte
  assumes "unat (drop_bit 4 a) = unat (drop_bit 4 b)" "unat (a AND 15) = unat (b AND 15)"
  shows "a = b"
proof -
  have "a AND 15 = take_bit 4 a" "b AND 15 = take_bit 4 b" by (simp_all add: take_bit_eq_mask mask_eq_exp_minus_1)
  then have "unat a mod 16 = unat b mod 16" "unat a div 16 = unat b div 16"
    using assms by (simp_all add: drop_bit_eq_div take_bit_eq_mod unat_div_distrib unat_mod_distrib)
  then show ?thesis by (metis div_mult_mod_eq word_unat_eq_iff)
qed

lemma HEX_facts: "length HEX = 16" "distinct HEX" "c \<in> set HEX \<Longrightarrow> is_hex c \<and> c < 128"
  by (auto simp: HEX_def is_hex_def is_ascii_digit_def)

lemma HEX_inj: "i < 16 \<Longrightarrow> j < 16 \<Longrightarrow> HEX ! i = HEX ! j \<longleftrightarrow> i = j"
  using nth_eq_iff_index_eq [OF HEX_facts(2)] by (simp add: HEX_facts(1))

lemma hex_byte_inj: "hex_byte a = hex_byte b \<longleftrightarrow> a = b"
  by (auto simp: hex_byte_def HEX_inj nibble_bounds dest: byte_of_nibbles)

lemma hex_append_inj: "hex_byte a @ xs = hex_byte b @ ys \<longleftrightarrow> a = b \<and> xs = ys"
  by (auto simp: hex_byte_inj [symmetric]) (simp_all add: hex_byte_def)

lemma hex_bytes_inj: "concat (map hex_byte as) = concat (map hex_byte bs) \<longleftrightarrow> as = bs"
proof (induction as arbitrary: bs)
  case Nil
  then show ?case by (cases bs) (simp_all add: hex_byte_def)
next
  case (Cons a as)
  then show ?case by (cases bs) (simp_all add: hex_append_inj, simp add: hex_byte_def)
qed

lemma hex_bytes_valid: "length bytes = 32 \<Longrightarrow> valid_scope (lit ''v1:'' @ concat (map hex_byte bytes))"
proof -
  assume len: "length bytes = 32"
  have hex: "list_all (\<lambda>c. is_hex c \<and> c < 128) (concat (map hex_byte bytes))"
    using HEX_facts(1,3) nibble_bounds by (auto simp: list_all_iff hex_byte_def intro!: HEX_facts(3) nth_mem)
  have "length (concat (map hex_byte bytes)) = 2 * length bytes"
    by (induction bytes) (simp_all add: hex_byte_def)
  moreover have "list_all (\<lambda>c. is_hex c \<and> c < 128) s \<Longrightarrow> str_len s = length s" for s
    by (induction s) simp_all
  ultimately show ?thesis using hex len
    by (simp add: valid_scope_def strip_prefix_def starts_with_def list_all_iff)
qed

section \<open>The message determines the slot\<close>

definition is_scalar :: "rchar \<Rightarrow> bool" where
  "is_scalar c \<longleftrightarrow> c < 1114112"

lemma octets_are_bytes: "is_scalar c \<Longrightarrow> x \<in> set (utf8_octets c) \<Longrightarrow> x < 256"
proof -
  have "128 + a mod 64 < 256" for a :: nat using mod_less_divisor [of 64 a] by simp
  then show "is_scalar c \<Longrightarrow> x \<in> set (utf8_octets c) \<Longrightarrow> x < 256"
    by (auto simp: utf8_octets_def is_scalar_def div_less_iff_less_mult split: if_splits)
qed

lemma div_64_chain: "(c::nat) div 4096 = c div 64 div 64" "c div 262144 = c div 64 div 64 div 64"
  by (simp_all add: div_mult2_eq [symmetric])

lemma join_64: "a div 64 = b div 64 \<Longrightarrow> a mod 64 = b mod 64 \<Longrightarrow> a = b" for a b :: nat
  by (metis div_mult_mod_eq)

lemma octets_inj:
  assumes "is_scalar c" "is_scalar d" "utf8_octets c @ xs = utf8_octets d @ ys"
  shows "c = d \<and> xs = ys"
proof -
  have "c div 262144 < 5" "d div 262144 < 5" using assms(1,2) by (simp_all add: is_scalar_def div_less_iff_less_mult)
  moreover have "n < 2048 \<Longrightarrow> n div 64 < 32" "n < 65536 \<Longrightarrow> n div 4096 < 16" for n :: nat
    by (simp_all add: div_less_iff_less_mult)
  note this [of c] this [of d]
  ultimately show ?thesis using assms(3)
    by (auto simp: utf8_octets_def div_64_chain intro: join_64 split: if_splits)
qed

lemma unat_octets: "is_scalar c \<Longrightarrow> map unat (utf8_char c) = utf8_octets c"
  using octets_are_bytes by (fastforce simp: utf8_char_def unsigned_of_nat take_bit_eq_mod intro: map_idI)

lemma utf8_char_inj:
  assumes "is_scalar c" "is_scalar d" "utf8_char c @ xs = utf8_char d @ ys"
  shows "c = d \<and> xs = ys"
proof -
  have "utf8_octets c @ map unat xs = utf8_octets d @ map unat ys"
    using arg_cong [OF assms(3), of "map unat"] assms(1,2) by (simp add: unat_octets)
  from octets_inj [OF assms(1,2) this] show ?thesis by (auto simp: inj_map_eq_map [OF inj_unsigned])
qed

lemma as_bytes_inj:
  assumes "list_all is_scalar s" "list_all is_scalar t" "as_bytes s = as_bytes t"
  shows "s = t"
  using assms
proof (induction s arbitrary: t)
  case Nil
  then show ?case by (cases t) (auto simp: as_bytes_def utf8_char_def utf8_octets_def split: if_splits)
next
  case (Cons c s)
  then obtain d u where t: "t = d # u"
    by (cases t) (auto simp: as_bytes_def utf8_char_def utf8_octets_def split: if_splits)
  with Cons.prems have "c = d \<and> as_bytes s = as_bytes u"
    by (intro utf8_char_inj) (auto simp: as_bytes_def)
  with Cons t show ?case by simp
qed

lemma length_le_bytes [simp]: "length (to_le_bytes w) = 8"
  by (simp add: to_le_bytes_def)

lemma to_le_bytes_inj:
  assumes "to_le_bytes v = to_le_bytes w"
  shows "v = w"
proof (rule bit_word_eqI)
  fix n assume "n < LENGTH(64)"
  then have "n div 8 \<in> set [0..<8]" by auto
  with assms have "ucast (drop_bit (8 * (n div 8)) v) = (ucast (drop_bit (8 * (n div 8)) w) :: byte)"
    by (auto simp: to_le_bytes_def)
  from arg_cong [OF this, of "\<lambda>b. bit b (n mod 8)"]
  have "bit (drop_bit (8 * (n div 8)) v) (n mod 8) = bit (drop_bit (8 * (n div 8)) w) (n mod 8)"
    by (simp add: bit_ucast_iff)
  then show "bit v n = bit w n" by (simp add: bit_simps)
qed

lemma le_bytes_append_inj:
  assumes "to_le_bytes (of_nat m) @ xs = to_le_bytes (of_nat n) @ ys" "m < 2 ^ 64" "n < 2 ^ 64"
  shows "m = n \<and> xs = ys"
proof -
  have "to_le_bytes (of_nat m) = to_le_bytes (of_nat n)" "xs = ys" using assms(1) by (simp_all add: append_eq_append_conv)
  from to_le_bytes_inj [OF this(1)] this(2) assms(2,3) show ?thesis by (simp add: word_of_nat_eq_iff take_bit_eq_mod)
qed

definition hashed :: "str \<Rightarrow> bool" where
  "hashed s \<longleftrightarrow> list_all is_scalar s \<and> length (as_bytes s) < 2 ^ 64"

lemma hash_part_inj:
  assumes "hash_part (as_bytes s) @ xs = hash_part (as_bytes t) @ ys" "hashed s" "hashed t"
  shows "s = t \<and> xs = ys"
proof -
  have "length (as_bytes s) = length (as_bytes t) \<and> as_bytes s @ xs = as_bytes t @ ys"
    using assms by (intro le_bytes_append_inj) (simp_all add: hash_part_def hashed_def)
  then have "as_bytes s = as_bytes t" "xs = ys" using append_eq_append_conv by blast+
  with assms(2,3) show ?thesis by (auto simp: hashed_def intro: as_bytes_inj)
qed

lemma hash_parts_inj:
  assumes "concat (map (\<lambda>name. hash_part (as_bytes name)) ps) @ xs = concat (map (\<lambda>name. hash_part (as_bytes name)) qs) @ ys"
    and "length ps = length qs" "list_all hashed ps" "list_all hashed qs"
  shows "ps = qs \<and> xs = ys"
  using assms(2,1,3,4)
proof (induction ps qs rule: list_induct2)
  case (Cons p ps q qs)
  then have "p = q \<and> concat (map (\<lambda>name. hash_part (as_bytes name)) ps) @ xs = concat (map (\<lambda>name. hash_part (as_bytes name)) qs) @ ys"
    by (intro hash_part_inj) simp_all
  with Cons show ?case by simp
qed simp

text \<open>What a slot must satisfy for its parts to be hashed whole: valid strings and sizes within
  \<open>usize\<close>.\<close>

definition slot_hashed :: "str \<Rightarrow> arg_slot \<Rightarrow> bool" where
  "slot_hashed cwd sl \<longleftrightarrow>
     hashed cwd \<and> hashed (sl_root sl) \<and> list_all hashed (sl_path sl) \<and>
     (case sl_option sl of Some opt \<Rightarrow> hashed opt | None \<Rightarrow> True) \<and>
     length (sl_path sl) < 2 ^ 64 \<and> sl_index sl < 2 ^ 64"

lemma scope_message_inj:
  assumes "scope_message cwd a = scope_message cwd' b" "slot_hashed cwd a" "slot_hashed cwd' b"
  shows "cwd = cwd' \<and> a = b"
proof -
  note h = assms(2,3) [unfolded slot_hashed_def]
  let ?path = "\<lambda>sl. concat (map (\<lambda>name. hash_part (as_bytes name)) (sl_path sl))"
  let ?rest = "\<lambda>sl. [if sl_option sl = None then 0 else 1] @
     (case sl_option sl of None \<Rightarrow> [] | Some opt \<Rightarrow> hash_part (as_bytes opt)) @ to_le_bytes (of_nat (sl_index sl))"
  let ?count = "\<lambda>sl. to_le_bytes (of_nat (length (sl_path sl))) :: byte list"
  from assms(1) have "hash_part (as_bytes cwd) @ hash_part (as_bytes (sl_root a)) @ ?count a @ ?path a @ ?rest a =
      hash_part (as_bytes cwd') @ hash_part (as_bytes (sl_root b)) @ ?count b @ ?path b @ ?rest b"
    by (simp add: scope_message_def)
  from hash_part_inj [OF this] h have cwd: "cwd = cwd'"
    and "hash_part (as_bytes (sl_root a)) @ ?count a @ ?path a @ ?rest a = hash_part (as_bytes (sl_root b)) @ ?count b @ ?path b @ ?rest b"
    by simp_all
  from hash_part_inj [OF this(2)] h have base: "sl_root a = sl_root b"
    and "?count a @ ?path a @ ?rest a = ?count b @ ?path b @ ?rest b" by simp_all
  from le_bytes_append_inj [OF this(2)] h have "length (sl_path a) = length (sl_path b)"
    and "?path a @ ?rest a = ?path b @ ?rest b" by simp_all
  from hash_parts_inj [OF this(2,1)] h have path: "sl_path a = sl_path b" and tail: "?rest a = ?rest b" by simp_all
  have "sl_option a = sl_option b \<and> to_le_bytes (of_nat (sl_index a)) = to_le_bytes (of_nat (sl_index b))"
  proof (cases "sl_option a")
    case None
    with tail show ?thesis by (cases "sl_option b") auto
  next
    case (Some opt)
    with tail obtain opt' where opt': "sl_option b = Some opt'" by (cases "sl_option b") auto
    with Some tail h show ?thesis using hash_part_inj [of opt _ opt'] by auto
  qed
  with le_bytes_append_inj [of "sl_index a" "[]" "sl_index b" "[]"] h cwd base path show ?thesis by simp
qed

text \<open>
  The identity of an argument row: for an absolute working directory and a slot with named
  parts there is one, it is a valid scope (the form under which acceptances are stored), and two slots
  get the same one only if they are the same slot in the same directory, as long as the hash does not
  collide on their two messages. Without an absolute directory there is none.
\<close>

theorem scope_identifies_slot:
  assumes "\<forall>m. length (sha256 m) = 32"
    and "slot_hashed cwd a" "slot_hashed cwd' b"
    and "sha256 (scope_message cwd a) = sha256 (scope_message cwd' b) \<longrightarrow>
         scope_message cwd a = scope_message cwd' b"
  shows "(argument_scope sha256 cwd a \<noteq> None \<longleftrightarrow>
      starts_with_char cwd c_slash \<and> sl_root a \<noteq> [] \<and> [] \<notin> set (sl_path a) \<and> sl_option a \<noteq> Some []) \<and>
    (\<forall>scope. argument_scope sha256 cwd a = Some scope \<longrightarrow>
       valid_scope scope \<and> (argument_scope sha256 cwd' b = Some scope \<longrightarrow> cwd' = cwd \<and> b = a))"
proof -
  have "starts_with_char cwd c_slash \<Longrightarrow> cwd \<noteq> []" by (auto simp: starts_with_char_def)
  then have some: "argument_scope sha256 cwd a \<noteq> None \<longleftrightarrow>
      starts_with_char cwd c_slash \<and> sl_root a \<noteq> [] \<and> [] \<notin> set (sl_path a) \<and> sl_option a \<noteq> Some []"
    by (auto simp: argument_scope_def list_ex_iff)
  have "valid_scope scope \<and> (argument_scope sha256 cwd' b = Some scope \<longrightarrow> cwd' = cwd \<and> b = a)"
    if "argument_scope sha256 cwd a = Some scope" for scope
  proof
    from that have scope: "scope = lit ''v1:'' @ concat (map hex_byte (sha256 (scope_message cwd a)))"
      by (simp add: argument_scope_def split: if_splits)
    with assms(1) show "valid_scope scope" by (simp only: hex_bytes_valid)
    show "argument_scope sha256 cwd' b = Some scope \<longrightarrow> cwd' = cwd \<and> b = a"
    proof
      assume "argument_scope sha256 cwd' b = Some scope"
      with scope have "sha256 (scope_message cwd' b) = sha256 (scope_message cwd a)"
        by (simp add: argument_scope_def hex_bytes_inj split: if_splits)
      with assms(4) have "scope_message cwd a = scope_message cwd' b" by simp
      from scope_message_inj [OF this assms(2,3)] show "cwd' = cwd \<and> b = a" by simp
    qed
  qed
  with some show ?thesis by blast
qed

definition plain_slot :: arg_slot where
  "plain_slot = \<lparr>sl_root = lit ''git'', sl_path = [lit ''add''], sl_option = None, sl_index = 0\<rparr>"

theorem scope_identifies_slot_witness:
  "\<exists>scope. argument_scope (\<lambda>m. replicate 32 (m ! 37)) (lit ''/a'') plain_slot = Some scope \<and> valid_scope scope \<and>
     argument_scope (\<lambda>m. replicate 32 (m ! 37)) (lit ''/b'') plain_slot \<noteq> Some scope"
proof -
  let ?hash = "\<lambda>m. replicate 32 (m ! 37)"
  have length: "\<forall>m. length (?hash m) = 32" by simp
  have "hashed (lit ''/a'')" "hashed (lit ''/b'')" "hashed (lit ''git'')" "hashed (lit ''add'')"
    by (simp_all add: hashed_def is_scalar_def as_bytes_def utf8_char_def utf8_octets_def)
  then have slots: "slot_hashed (lit ''/a'') plain_slot" "slot_hashed (lit ''/b'') plain_slot"
    by (simp_all add: slot_hashed_def plain_slot_def)
  have "scope_message (lit ''/a'') plain_slot ! 37 \<noteq> scope_message (lit ''/b'') plain_slot ! 37"
    by (simp add: scope_message_def SCOPE_DOMAIN_def hash_part_def to_le_bytes_def as_bytes_def utf8_char_def
        utf8_octets_def nth_append upt_rec)
  then have "?hash (scope_message (lit ''/a'') plain_slot) = ?hash (scope_message (lit ''/b'') plain_slot) \<longrightarrow>
      scope_message (lit ''/a'') plain_slot = scope_message (lit ''/b'') plain_slot" by simp
  note use = scope_identifies_slot [OF length slots this]
  have "argument_scope ?hash (lit ''/a'') plain_slot \<noteq> None"
    using use by (simp add: plain_slot_def starts_with_char_def)
  then obtain scope where "argument_scope ?hash (lit ''/a'') plain_slot = Some scope" by blast
  moreover from use this have "valid_scope scope" "argument_scope ?hash (lit ''/b'') plain_slot = Some scope \<Longrightarrow>
      lit ''/b'' = lit ''/a''" by blast+
  ultimately show ?thesis by fastforce
qed

end
