(* ===== verification/Walk_Ends.thy ===== *)
theory Walk_Ends
  imports Walk_Facts Shell_Facts
begin

text \<open>
  Termination of the walk. A spec in which no argument has an alias is walked to the end, whatever
  else it loads, because every step moves to a later token; with an alias on a variadic argument that
  expands to two tokens the walk never ends.
\<close>

section \<open>Specs without argument aliases\<close>

definition fields_no_alias :: "arg_fields \<Rightarrow> bool" where
  "fields_no_alias f \<longleftrightarrow>
     (case af_parser_directives f of
        None \<Rightarrow> True
      | Some directives \<Rightarrow> (pd_alias directives = None \<or> pd_alias directives = Some []) \<and> pd_js_alias directives = None)"

fun no_alias :: "spec \<Rightarrow> bool"
  and arg_no_alias :: "arg_spec \<Rightarrow> bool"
  and option_no_alias :: "option_spec \<Rightarrow> bool" where
  "no_alias (Spec f subs opts pers args ls) \<longleftrightarrow>
     list_all no_alias subs \<and> list_all option_no_alias opts \<and> list_all option_no_alias pers \<and> list_all arg_no_alias args"
| "arg_no_alias (ArgSpec f ls rs) \<longleftrightarrow>
     fields_no_alias f \<and> (case rs of None \<Rightarrow> True | Some spec \<Rightarrow> no_alias spec)"
| "option_no_alias (OptionSpec f args ls) \<longleftrightarrow> list_all arg_no_alias args"

lemma no_alias_iff:
  "no_alias spec \<longleftrightarrow>
     (\<forall>s \<in> set (sp_subcommands spec). no_alias s) \<and> (\<forall>opt \<in> set (sp_options spec). option_no_alias opt) \<and>
     (\<forall>opt \<in> set (sp_persistent_options spec). option_no_alias opt) \<and> (\<forall>arg \<in> set (sp_args spec). arg_no_alias arg)"
  by (cases spec) (simp add: list_all_iff)

lemma no_alias_parts:
  assumes "no_alias spec"
  shows "s \<in> set (sp_subcommands spec) \<Longrightarrow> no_alias s"
    and "opt \<in> set (sp_options spec) \<Longrightarrow> option_no_alias opt"
    and "opt \<in> set (sp_persistent_options spec) \<Longrightarrow> option_no_alias opt"
    and "arg \<in> set (sp_args spec) \<Longrightarrow> arg_no_alias arg"
  using assms unfolding no_alias_iff [of spec] by blast+

lemma option_no_alias_iff: "option_no_alias opt \<longleftrightarrow> (\<forall>arg \<in> set (op_args opt). arg_no_alias arg)"
  by (cases opt) (simp add: list_all_iff)

lemma arg_no_alias_iff:
  "arg_no_alias arg \<longleftrightarrow>
     fields_no_alias (ar_fields arg) \<and> (\<forall>spec. ar_resolved_spec arg = Some spec \<longrightarrow> no_alias spec)"
  by (cases arg) (auto split: option.splits)

lemma mark_keeps_no_alias:
  "no_alias (mark_generated_spec spec) = no_alias spec"
  "arg_no_alias (mark_generated_arg arg) = arg_no_alias arg"
  "option_no_alias (mark_generated_option opt) = option_no_alias opt"
  True
  by (induction spec and arg and opt and
      rule: mark_generated_spec_mark_generated_arg_mark_generated_option_mark_generated_load.induct)
     (auto simp: list_all_iff fields_no_alias_def split: option.splits)

lemma merge_keeps_no_alias:
  assumes "no_alias wrapper" and "no_alias generated"
  shows "no_alias (merge_generated_spec wrapper generated)"
proof -
  have g: "no_alias (mark_generated_spec generated)" using assms(2) by (simp add: mark_keeps_no_alias)
  let ?m = "mark_generated_spec generated"
  have "set (merge_specs (sp_subcommands wrapper) (sp_subcommands ?m)) \<subseteq>
      set (sp_subcommands wrapper) \<union> set (sp_subcommands ?m)"
    by (rule spec_overlay.merge_provenance)
  moreover have "set (merge_options xs ys) \<subseteq> set xs \<union> set ys" for xs ys
    by (rule option_overlay.merge_provenance)
  ultimately show ?thesis
    using assms(1) g unfolding no_alias_iff [of wrapper] no_alias_iff [of ?m]
    by (simp add: merge_generated_spec_def Let_def list_all_iff subset_iff) blast
qed

lemma no_alias_resolve: "fields_no_alias (ar_fields arg) \<Longrightarrow> resolve_arg_alias env arg token = None"
  by (auto simp: resolve_arg_alias_def fields_no_alias_def split: option.splits)

definition env_no_alias :: "walk_env \<Rightarrow> bool" where
  "env_no_alias env \<longleftrightarrow>
     (\<forall>hook token cwd ms spec. we_dispatch_load_spec env hook token cwd ms = Some spec \<longrightarrow> no_alias spec) \<and>
     (\<forall>hook tokens cwd ms spec. we_dispatch_generate_spec env hook tokens cwd ms = Some spec \<longrightarrow> no_alias spec) \<and>
     (\<forall>key run spec. we_cached_spec env key run = Some spec \<longrightarrow> no_alias spec) \<and>
     (\<forall>registry. we_registry env = Some registry \<longrightarrow>
        (\<forall>name spec. rv_load_referenced_spec registry name = Some spec \<longrightarrow> no_alias spec) \<and>
        (\<forall>name spec. rv_get_arc registry name = Some spec \<longrightarrow> no_alias spec))"

lemma loaded_no_alias:
  assumes "env_no_alias env"
  shows "no_alias spec \<Longrightarrow> no_alias (apply_js_load_spec env token spec)"
    and "no_alias spec \<Longrightarrow> no_alias (apply_generate_spec env tokens spec)"
    and "no_alias spec \<Longrightarrow> no_alias (entered_subcommand env spec)"
    and "arg_no_alias arg \<Longrightarrow> next_spec_after_arg env arg token = Some spec' \<Longrightarrow> no_alias spec'"
proof -
  show "no_alias spec \<Longrightarrow> no_alias (apply_js_load_spec env token spec)"
    using assms by (auto simp: apply_js_load_spec_def env_no_alias_def intro: merge_keeps_no_alias split: option.splits)
  show "no_alias spec \<Longrightarrow> no_alias (apply_generate_spec env tokens spec)"
    using assms
    by (auto simp: apply_generate_spec_def env_no_alias_def Let_def intro!: merge_keeps_no_alias split: option.splits)
  have "no_alias (resolved_reference (replace_spec_with_loaded spec loaded))" if "no_alias loaded" for loaded
    using that by (cases loaded) (simp add: resolved_reference_def replace_spec_with_loaded_def)
  then show "no_alias spec \<Longrightarrow> no_alias (entered_subcommand env spec)"
    using assms by (auto simp: entered_subcommand_def env_no_alias_def split: option.splits load_spec.splits)
  show "arg_no_alias arg \<Longrightarrow> next_spec_after_arg env arg token = Some spec' \<Longrightarrow> no_alias spec'"
    using assms
    by (auto simp: next_spec_after_arg_def arg_no_alias_iff env_no_alias_def
        split: option.splits load_spec.splits if_splits)
qed

section \<open>The walk of such a spec ends\<close>

definition state_no_alias :: "walk_state \<Rightarrow> bool" where
  "state_no_alias st \<longleftrightarrow>
     no_alias (ws_current st) \<and> (\<forall>opt \<in> set (ws_persistent_options st). option_no_alias opt) \<and>
     (\<forall>oa. ws_option_arg st = Some oa \<longrightarrow> arg_no_alias (oa_arg oa))"

lemma persistent_no_alias:
  "\<forall>opt \<in> set parent. option_no_alias opt \<Longrightarrow> no_alias spec \<Longrightarrow>
     \<forall>opt \<in> set (merge_persistent_options parent spec). option_no_alias opt"
proof -
  assume *: "\<forall>opt \<in> set parent. option_no_alias opt" "no_alias spec"
  obtain f subs opts pers args ls where s: "spec = Spec f subs opts pers args ls" by (cases spec)
  have "set (merge_persistent_options parent spec) \<subseteq> set parent \<union> set pers"
    unfolding s by (rule persistent_overlay.merge_provenance)
  with * s show ?thesis by (auto simp: list_all_iff)
qed

lemma positional_arg_member: "positional_arg args i = Some arg \<Longrightarrow> arg \<in> set args"
  by (auto simp: positional_arg_def split: option.splits if_splits)

lemma resolved_option_member:
  "resolve_option_token_with_persistent spec persistent token directives = Some r \<Longrightarrow>
     ro_option r \<in> set (sp_options spec) \<union> set persistent"
proof -
  have find: "find P xs = Some x \<Longrightarrow> x \<in> set xs" for P x and xs :: "option_spec list"
    by (auto simp: find_Some_iff)
  have chain: "chain_loop spec persistent rd seen s = Some c \<Longrightarrow>
      (\<And>opt. seen = Some opt \<Longrightarrow> opt \<in> set (sp_options spec) \<union> set persistent) \<Longrightarrow>
      sc_option c \<in> set (sp_options spec) \<union> set persistent" for rd seen s c
  proof (induction s arbitrary: rd seen)
    case (Cons letter s)
    then obtain opt where opt: "find_short_option_in spec persistent letter = Some opt"
      by (auto split: option.splits)
    then have "opt \<in> set (sp_options spec) \<union> set persistent"
      using find [of _ "sp_options spec @ persistent"] by (auto simp: find_short_option_in_def)
    with Cons opt show ?case by (auto split: if_splits)
  qed auto
  have exact: "resolve_exact spec persistent token directives = Some r \<Longrightarrow>
      ro_option r \<in> set (sp_options spec) \<union> set persistent"
    using find by (auto simp: resolve_exact_def find_option_in_def named_option_def or_else_def Let_def
        split: option.splits)
  assume "resolve_option_token_with_persistent spec persistent token directives = Some r"
  then show ?thesis
    using chain exact
    by (fastforce simp: resolve_option_token_with_persistent_def parse_short_option_chain_def Let_def
        split: if_splits option.splits)
qed

lemma state_no_alias_cong:
  "ws_current st' = ws_current st \<Longrightarrow> ws_persistent_options st' = ws_persistent_options st \<Longrightarrow>
     ws_option_arg st' = ws_option_arg st \<Longrightarrow> state_no_alias st' = state_no_alias st"
  by (simp add: state_no_alias_def)

lemma enter_loaded_no_alias:
  assumes "env_no_alias env" and "no_alias spec" and "\<forall>opt \<in> set (ws_persistent_options st). option_no_alias opt"
  shows "state_no_alias (enter_loaded_spec env spec restart st)"
proof -
  define current where "current = ws_current (enter_loaded_spec env spec restart st)"
  have "no_alias current"
    using loaded_no_alias [OF assms(1)] assms(2) by (simp add: current_def enter_loaded_spec_def Let_def)
  moreover have "ws_persistent_options (enter_loaded_spec env spec restart st) =
      merge_persistent_options (ws_persistent_options st) current"
      "ws_option_arg (enter_loaded_spec env spec restart st) = None"
    by (simp_all add: current_def enter_loaded_spec_def Let_def)
  ultimately show ?thesis
    using persistent_no_alias [OF assms(3)] by (simp add: state_no_alias_def current_def)
qed

lemma take_option_value_no_alias:
  assumes "env_no_alias env" and "state_no_alias st" and "arg_no_alias arg"
  shows "state_no_alias (take_option_value env opt arg val n st)"
proof (cases "next_spec_after_arg env arg val")
  case None
  with assms show ?thesis by (simp add: take_option_value_def state_no_alias_def Let_def)
next
  case (Some spec)
  have "no_alias spec" using loaded_no_alias(4) [OF assms(1,3) Some] .
  moreover have "state_no_alias (st'\<lparr>ws_substituted_aliases := {}\<rparr>) = state_no_alias st'" for st'
    by (rule state_no_alias_cong) simp_all
  ultimately show ?thesis
    using Some assms(1,2) enter_loaded_no_alias
    by (simp add: take_option_value_def Let_def) (simp add: state_no_alias_def [of st])
qed

lemma walk_option_no_alias:
  assumes "env_no_alias env" and "state_no_alias st" and "option_no_alias (ro_option resolved)"
  shows "state_no_alias (walk_option env resolved token st)"
proof (cases "op_args (ro_option resolved)")
  case Nil
  with assms show ?thesis by (simp add: walk_option_def state_no_alias_def Let_def)
next
  case (Cons arg args)
  then have arg: "arg_no_alias arg" using assms(3) by (simp add: option_no_alias_iff)
  have st: "state_no_alias (st\<lparr>ws_passed_options := xs\<rparr>)" for xs
    using assms(2) by (simp add: state_no_alias_def)
  show ?thesis
    using take_option_value_no_alias [OF assms(1) st arg] arg assms(2) Cons
    by (auto simp: walk_option_def Let_def state_no_alias_def [of "_\<lparr>ws_substituted_aliases := _\<rparr>"]
        state_no_alias_def [of st] split: option.splits)
qed

lemma no_alias_not_substituted:
  "arg_no_alias arg \<Longrightarrow> substitute_alias env arg token st = None"
  by (simp add: substitute_alias_def no_alias_resolve arg_no_alias_iff)

lemma walk_positional_no_alias:
  assumes "env_no_alias env" and "state_no_alias st" and "arg_no_alias arg"
  shows "state_no_alias (walk_positional env arg token st)"
proof (cases "next_spec_after_arg env arg token")
  case None
  with assms show ?thesis
    by (simp add: walk_positional_def no_alias_not_substituted state_no_alias_def Let_def)
next
  case (Some spec)
  have "no_alias spec" using loaded_no_alias(4) [OF assms(1,3) Some] .
  moreover have "state_no_alias (st'\<lparr>ws_substituted_aliases := {}\<rparr>) = state_no_alias st'" for st'
    by (rule state_no_alias_cong) simp_all
  ultimately show ?thesis
    using Some assms enter_loaded_no_alias
    by (simp add: walk_positional_def no_alias_not_substituted Let_def) (simp add: state_no_alias_def [of st])
qed

lemma walk_word_no_alias:
  assumes "env_no_alias env" and "state_no_alias st"
  shows "state_no_alias (walk_word env token st)"
proof -
  have arg: "arg_no_alias arg" if "walk_subcommand_arg st = Some arg" for arg
    using that assms(2) positional_arg_member no_alias_parts(4)
    unfolding walk_subcommand_arg_def state_no_alias_def by blast
  have sub: "state_no_alias (walk_subcommand env sub token st)" if "find_subcommand (ws_current st) token = Some sub" for sub
  proof -
    have "no_alias sub"
      using that assms(2) find_subcommand_SomeD no_alias_parts(1) unfolding state_no_alias_def by blast
    then have "no_alias (ws_current (walk_subcommand env sub token st))"
      using loaded_no_alias [OF assms(1)] by (simp add: walk_subcommand_def Let_def)
    then show ?thesis
      using persistent_no_alias [of "ws_persistent_options st"] assms(2)
      by (simp add: walk_subcommand_def Let_def state_no_alias_def)
  qed
  have "state_no_alias (st\<lparr>ws_positional := p, ws_index := i, ws_substituted_aliases := {}\<rparr>)" for p i
    using assms(2) by (simp add: state_no_alias_def)
  then show ?thesis
    using sub walk_positional_no_alias [OF assms arg] by (auto simp: walk_word_def split: option.splits)
qed

lemma walk_step_no_alias:
  assumes "env_no_alias env" and "state_no_alias st"
  shows "state_no_alias (walk_step env st)"
proof -
  let ?token = "ws_tokens st ! ws_index st"
  have "option_no_alias (ro_option resolved)"
    if "resolve_option_token_with_persistent (ws_current st) (ws_persistent_options st) ?token
          (ws_parser_directives st) = Some resolved" for resolved
    using resolved_option_member [OF that] assms(2) no_alias_parts(2) unfolding state_no_alias_def by blast
  then have opt: "state_no_alias (walk_option env resolved ?token st)"
    if "resolve_option_token_with_persistent (ws_current st) (ws_persistent_options st) ?token
          (ws_parser_directives st) = Some resolved" for resolved
    using walk_option_no_alias [OF assms] that by blast
  have oa: "state_no_alias (walk_option_arg env oa ?token st)" if "ws_option_arg st = Some oa" for oa
    using that assms(2) no_alias_not_substituted [of "oa_arg oa"]
    by (simp add: walk_option_arg_def state_no_alias_def)
  have "state_no_alias (st\<lparr>ws_after_double_dash := True, ws_index := i, ws_substituted_aliases := {}\<rparr>)" for i
    using assms(2) by (simp add: state_no_alias_def)
  then show ?thesis
    using opt oa walk_word_no_alias [OF assms] by (auto simp: walk_step_def Let_def split: option.splits)
qed

lemma no_alias_advances:
  assumes "state_no_alias st"
  shows "advances st (walk_step env st)"
proof -
  have "\<not> substitutes env st (walk_step env st)"
  proof
    assume "substitutes env st (walk_step env st)"
    then obtain arg where "substitute_alias env arg (ws_tokens st ! ws_index st) st = Some (walk_step env st)"
      and "walk_subcommand_arg st = Some arg \<or> (\<exists>oa. ws_option_arg st = Some oa \<and> oa_arg oa = arg)"
      by (auto simp: substitutes_def)
    moreover from this(2) have "arg_no_alias arg"
      using assms positional_arg_member no_alias_parts(4)
      unfolding state_no_alias_def walk_subcommand_arg_def by blast
    ultimately show False by (simp add: no_alias_not_substituted)
  qed
  then show ?thesis using walk_step_moves by blast
qed

lemma walk_init_no_alias:
  assumes "env_no_alias env" and "no_alias root"
  shows "state_no_alias (walk_init env root tokens limit trace)"
  using loaded_no_alias(2) [OF assms, of tokens] persistent_no_alias [of "[]" "apply_generate_spec env tokens root"]
  by (simp add: walk_init_def state_no_alias_def Let_def)

lemma walk_returns:
  assumes "env_no_alias env" and "no_alias root" and "limit \<le> length tokens"
  shows "\<exists>walked trace'. walk_spec env root tokens limit trace = Some (walked, tokens, trace') \<and>
     wk_limit walked = limit \<and> wk_path_end walked \<le> max 1 limit"
proof -
  let ?init = "walk_init env root tokens limit trace"
  let ?P = "\<lambda>st. state_no_alias st \<and> walk_bounds (drop limit tokens) st \<and>
      ws_tokens st = tokens \<and> ws_limit st = limit"
  have init: "?P ?init"
    using walk_init_no_alias [OF assms(1,2)] walk_init_bounds [OF assms(3)] by (simp add: walk_init_def Let_def)
  have step: "?P (walk_step env st) \<and> ws_limit (walk_step env st) - ws_index (walk_step env st) < ws_limit st - ws_index st"
    if "?P st" "ws_index st < ws_limit st" for st
    using that no_alias_advances [of st env] walk_step_no_alias [OF assms(1), of st] walk_step_bounds [of _ st env]
    by (auto simp: advances_def)
  obtain st where loop: "walk_loop env ?init = Some st"
    using measure_while_option_Some [of ?P "\<lambda>st. ws_index st < ws_limit st" "walk_step env"
        "\<lambda>st. ws_limit st - ws_index st" ?init, OF step init] unfolding walk_loop_def by blast
  have "?P st"
    by (rule while_option_rule [OF _ loop [unfolded walk_loop_def]]) (use step init in blast)+
  with loop show ?thesis by (auto simp: walk_spec_def walk_result_def walk_bounds_def)
qed

text \<open>
  Property C13. The walk of a spec without argument aliases ends, whatever the registry and the hooks
  load on the way as long as that has none either: \<open>walk_spec\<close> returns, its tokens and its limit are
  those it was given, and the path it followed ends within them.
\<close>

theorem walk_ends:
  assumes "env_no_alias env" and "no_alias root" and "limit \<le> length tokens"
  shows "\<exists>walked trace'. walk_spec env root tokens limit trace = Some (walked, tokens, trace') \<and>
     wk_limit walked = limit \<and> wk_path_end walked \<le> max 1 limit"
  using assms by (rule walk_returns)

theorem walk_ends_witness:
  "\<exists>walked trace'.
     walk_spec quiet_env (sample_spec [sample_option [''-v''] []] [arg_default]) [lit ''tool'', lit ''-v'', lit ''x''] 3 None =
       Some (walked, [lit ''tool'', lit ''-v'', lit ''x''], trace') \<and>
     wk_limit walked = 3 \<and> wk_path_end walked \<le> max 1 3"
  by (rule walk_ends) (simp_all add: sample_defs env_no_alias_def quiet_env_def fields_no_alias_def)

section \<open>An alias on a variadic argument\<close>

definition greedy_arg :: arg_spec where
  "greedy_arg = ArgSpec (arg_fields_default\<lparr>af_is_variadic := True,
     af_parser_directives := Some (directives_default\<lparr>pd_alias := Some (lit ''a b'')\<rparr>)\<rparr>) None None"

definition greedy_state :: "walk_state \<Rightarrow> bool" where
  "greedy_state st \<longleftrightarrow>
     ws_current st = sample_spec [] [greedy_arg] \<and> ws_positional st = 0 \<and> ws_option_arg st = None \<and>
     ws_limit st \<le> length (ws_tokens st) \<and>
     (if ws_substituted_aliases st = {} then ws_index st < ws_limit st else ws_index st + 1 < ws_limit st) \<and>
     (\<forall>i. ws_index st \<le> i \<and> i < ws_limit st \<longrightarrow> \<not> starts_with_char (ws_tokens st ! i) c_dash)"

lemma greedy_alias: "resolve_arg_alias env greedy_arg token = Some (lit ''a b'')"
  by (simp add: resolve_arg_alias_def greedy_arg_def)

lemma greedy_tokens: "fst (tokenize (trim (lit ''a b''))) = [lit ''a'', lit ''b'']"
  by (simp add: tokenize_def tok_init_def tok_finish_def tok_defs trim_def trim_end_def trim_end_matches_def
      trim_start_matches_def is_whitespace_def)

lemma greedy_word:
  assumes "greedy_state st"
  shows "walk_step env st = walk_positional env greedy_arg (ws_tokens st ! ws_index st) st"
proof -
  have token: "\<not> starts_with_char (ws_tokens st ! ws_index st) c_dash" "ws_tokens st ! ws_index st \<noteq> [c_dash, c_dash]"
    using assms by (auto simp: greedy_state_def starts_with_char_def split: if_splits)
  have "walk_subcommand_arg st = Some greedy_arg" "find_subcommand (ws_current st) name = None" for name
    using assms
    by (simp_all add: greedy_state_def walk_subcommand_arg_def positional_arg_def sample_spec_def greedy_arg_def
        find_subcommand_def)
  with token assms show ?thesis
    by (auto simp: walk_step_def walk_word_def greedy_state_def Let_def)
qed

lemma greedy_step:
  assumes "greedy_state st"
  shows "greedy_state (walk_step env st)"
proof -
  let ?token = "ws_tokens st ! ws_index st"
  show ?thesis
  proof (cases "?token \<in> ws_substituted_aliases st")
    case True
    then have "substitute_alias env greedy_arg ?token st = None" by (simp add: substitute_alias_def greedy_alias)
    moreover have "next_spec_after_arg env greedy_arg ?token = None"
      by (simp add: next_spec_after_arg_def greedy_arg_def dynamic_spec_name_def arg_fields_default_def)
    moreover have "ar_is_variadic greedy_arg" by (simp add: greedy_arg_def)
    ultimately show ?thesis
      using True assms unfolding greedy_word [OF assms]
      by (auto simp: walk_positional_def greedy_state_def Let_def split: if_splits)
  next
    case False
    let ?tokens = "take (ws_index st) (ws_tokens st) @ [lit ''a'', lit ''b''] @ drop (ws_index st + 1) (ws_tokens st)"
    have splice: "substitute_token_alias (ws_tokens st) (ws_index st) (lit ''a b'') = Some (?tokens, 1)"
      unfolding substitute_token_alias_def greedy_tokens Let_def by simp
    have step: "walk_step env st = st\<lparr>ws_tokens := ?tokens, ws_limit := ws_limit st + 1,
        ws_substituted_aliases := insert ?token (ws_substituted_aliases st)\<rparr>"
      using False unfolding greedy_word [OF assms] walk_positional_def substitute_alias_def greedy_alias
        option.case splice by simp
    have len: "ws_index st < ws_limit st" "ws_limit st \<le> length (ws_tokens st)"
      using assms by (auto simp: greedy_state_def split: if_splits)
    have "\<not> starts_with_char (?tokens ! i) c_dash" if "ws_index st \<le> i" "i < ws_limit st + 1" for i
    proof -
      show ?thesis
      proof (cases "i = ws_index st \<or> i = ws_index st + 1")
        case True
        then show ?thesis using len by (auto simp: nth_append starts_with_char_def)
      next
        case False
        define j where "j = i - (ws_index st + 2)"
        have i: "i = ws_index st + 2 + j" using False that unfolding j_def by linarith
        have "?tokens ! i = ws_tokens st ! (ws_index st + 1 + j)"
          using len i that by (simp add: nth_append min_def)
        moreover have "ws_index st + 1 + j < ws_limit st" using i that by simp
        ultimately show ?thesis using assms by (simp add: greedy_state_def)
      qed
    qed
    then show ?thesis using assms len by (simp add: step greedy_state_def)
  qed
qed

lemma while_option_never:
  assumes "P s" and "\<And>s. P s \<Longrightarrow> b s" and "\<And>s. P s \<Longrightarrow> P (c s)"
  shows "while_option b c s = None"
proof (rule ccontr)
  assume "while_option b c s \<noteq> None"
  then obtain t where t: "while_option b c s = Some t" by blast
  have "P t" by (rule while_option_rule [where P = P, OF _ t assms(1)]) (rule assms(3))
  with assms(2) while_option_stop [OF t] show False by blast
qed

text \<open>
  An alias on a variadic argument can keep the walker busy forever: with one variadic
  argument whose literal alias is the two words \<open>a b\<close>, the walk of \<open>tool x\<close> never returns, whatever the
  registry and the hooks answer. Each word of the expansion is expanded again once the walk reaches it,
  because the set of substituted words is emptied whenever the walk moves on.
\<close>

theorem variadic_alias_never_returns:
  "walk_spec env (sample_spec [] [greedy_arg]) [lit ''tool'', lit ''x''] 2 trace = None"
proof -
  have "greedy_state (walk_init env (sample_spec [] [greedy_arg]) [lit ''tool'', lit ''x''] 2 trace)"
    by (auto simp: greedy_state_def walk_init_def Let_def apply_generate_spec_def sample_spec_def
        spec_fields_default_def starts_with_char_def less_Suc_eq numeral_2_eq_2)
  then have "walk_loop env (walk_init env (sample_spec [] [greedy_arg]) [lit ''tool'', lit ''x''] 2 trace) = None"
    unfolding walk_loop_def
    by (rule while_option_never [where P = greedy_state])
      (simp_all add: greedy_step, simp add: greedy_state_def split: if_splits)
  then show ?thesis by (simp add: walk_spec_def)
qed

end
