(* ===== verification/Complete.thy ===== *)
theory Complete
  imports Rows Argument_Scope Walk_Ends
begin

text \<open>
  A completion of a command line (\<open>lookup.rs\<close>, lines 1844--2410): the names offered for a first token,
  the spec a command belongs to, and \<open>complete_with_settings\<close>, which puts the walk, the rows and the
  published candidates together. The settings are the values read from the settings store.
\<close>

section \<open>Settings and surroundings\<close>

record settings =
  st_hide_auto_execute :: bool
  st_only_show_on_tab :: bool
  st_run_dangerous :: bool
  st_prefer_verbose :: bool
  st_always_suggest_current :: bool
  st_execute_after_space :: bool
  st_disabled_commands :: "str list option"
  st_shortcuts_token :: str

text \<open>What a completion asks of its surroundings: lower casing, hooks, JSON numbers, the walk's
  registry and hooks, the registry's specs by name and by version, local spec files, the pinned public
  roots, the generators of an argument (with the history slots they may read) and what they leave
  pending, the hash, and the listing of commands by a shell and of the search path.\<close>

record complete_env =
  ce_lowercase :: "str \<Rightarrow> str"
  ce_get_query_term :: "str \<Rightarrow> str \<Rightarrow> str option"
  ce_as_f64 :: "json_number \<Rightarrow> rat option"
  ce_walk :: walk_env
  ce_get_arc :: "str \<Rightarrow> spec option"
  ce_versioned_command :: "str \<Rightarrow> bool"
  ce_get_versioned_arc :: "str \<Rightarrow> str \<Rightarrow> nat \<Rightarrow> spec option"
  ce_load_project_fig_spec :: "str \<Rightarrow> str \<Rightarrow> spec option"
  ce_load_home_fig_spec :: "str \<Rightarrow> spec option"
  ce_load_script_local_spec :: "str \<Rightarrow> str \<Rightarrow> spec option"
  ce_is_public_ai_root :: "str \<Rightarrow> spec \<Rightarrow> bool"
  ce_generate_for_arg :: "arg_spec \<Rightarrow> str list \<Rightarrow> str \<Rightarrow> str \<Rightarrow> str \<Rightarrow> bool \<Rightarrow> arg_slot list \<Rightarrow> suggestion list"
  ce_pending_generators :: "bool \<times> int option"
  ce_sha256 :: "byte list \<Rightarrow> byte list"
  ce_execute :: "str \<Rightarrow> str list \<Rightarrow> str option"
  ce_path_entries :: "str list"

section \<open>The first token\<close>

definition slash_command_spec_name :: "str \<Rightarrow> str" where
  "slash_command_spec_name command =
     (if command = lit ''bin/console'' \<or> ends_with command (lit ''/bin/console'') then lit ''php/bin-console''
      else lit ''dotslash'')"

definition single_slash_token_spec :: "complete_env \<Rightarrow> str \<Rightarrow> spec option" where
  "single_slash_token_spec env command =
     ce_get_arc env (if command = lit ''bin/console'' then lit ''php/bin-console'' else lit ''dotslash'')"

definition dedupe_command_lines :: "str \<Rightarrow> str list" where
  "dedupe_command_lines output =
     fold (\<lambda>line names. let name = trim (hd (split_char c_tab line))
                         in if name = [] \<or> name \<in> set names then names else names @ [name])
       (str_lines output) []"

definition listing_shell :: "complete_request \<Rightarrow> str \<times> str" where
  "listing_shell request =
     (let process = unwrap_or [] (or_else (rq_current_process request) (rq_current_shell request))
      in if str_contains process (lit ''fish'') then (lit ''fish'', lit ''complete -C '' @ [c_squote, c_squote])
         else if str_contains process (lit ''bash'') then (lit ''bash'', lit ''compgen -ac'')
         else (lit ''zsh'', lit ''print -rl -- ${(k)commands} ${(k)aliases}''))"

definition first_token_listing :: "complete_env \<Rightarrow> string \<Rightarrow> complete_request \<Rightarrow> str list" where
  "first_token_listing env flag request =
     (let (shell, command) = listing_shell request
      in case ce_execute env shell [lit flag, command] of
           None \<Rightarrow> []
         | Some output \<Rightarrow> dedupe_command_lines output)"

definition first_token_login_listing :: "complete_env \<Rightarrow> complete_request \<Rightarrow> str list" where
  "first_token_login_listing env = first_token_listing env ''-lc''"

definition first_token_nologin_listing :: "complete_env \<Rightarrow> complete_request \<Rightarrow> str list" where
  "first_token_nologin_listing env = first_token_listing env ''-c''"

text \<open>A \<open>BTreeSet\<close> of strings: sorted, without duplicates. The entries are the names of the regular
  files in the directories of the search path.\<close>

definition first_token_path_and_alias_listing :: "complete_env \<Rightarrow> complete_request \<Rightarrow> str list" where
  "first_token_path_and_alias_listing env request =
     sort (remdups
       ((case rq_alias request of Some raw \<Rightarrow> map fst (parse_alias_map raw (rq_current_shell request)) | None \<Rightarrow> []) @
        filter (\<lambda>name. \<not> starts_with_char name c_dot) (ce_path_entries env)))"

record listing_cache =
  lc_key :: str
  lc_fetched_at :: nat
  lc_names :: "str list"

text \<open>In milliseconds, like the clock.\<close>

definition FIRST_TOKEN_CACHE_TTL :: nat where "FIRST_TOKEN_CACHE_TTL = 10000"

text \<open>\<open>now\<close> is the time of the lookup, \<open>later\<close> the time at which a new listing is stored.\<close>

definition first_token_cached_listing ::
  "complete_env \<Rightarrow> nat \<Rightarrow> nat \<Rightarrow> complete_request \<Rightarrow> listing_cache option \<Rightarrow> str list \<times> listing_cache option" where
  "first_token_cached_listing env now later request cache =
     (let key = unwrap_or [] (rq_current_shell request) @ lit ''|'' @ unwrap_or [] (rq_current_process request);
          fetched =
            (let names = first_token_login_listing env request;
                 names = (if names = [] then first_token_nologin_listing env request else names);
                 names = (if names = [] then first_token_path_and_alias_listing env request else names)
             in (names, Some \<lparr>lc_key = key, lc_fetched_at = later, lc_names = names\<rparr>))
      in case cache of
           Some entry \<Rightarrow>
             (if lc_key entry = key \<and> now - lc_fetched_at entry < FIRST_TOKEN_CACHE_TTL
              then (lc_names entry, cache) else fetched)
         | None \<Rightarrow> fetched)"

text \<open>The keys of the alias map come in the map's order; the code takes them in the order of its hash
  table.\<close>

definition first_token_command_names ::
  "complete_env \<Rightarrow> nat \<Rightarrow> nat \<Rightarrow> str \<Rightarrow> complete_request \<Rightarrow> listing_cache option \<Rightarrow> str list \<times> listing_cache option" where
  "first_token_command_names env now later query request cache =
     (let (listed, cache') = first_token_cached_listing env now later request cache;
          aliases = (case rq_alias request of
                       Some raw \<Rightarrow> map fst (parse_alias_map raw (rq_current_shell request)) | None \<Rightarrow> []);
          names = fold (\<lambda>key names. if key \<in> set names then names else names @ [key]) aliases listed
      in (sort_by cmp_ignore_ascii_case
            (filter (\<lambda>name. query = [] \<or> matches_query (ce_lowercase env) name query (rq_fuzzy request)) names),
          cache'))"

definition first_token_result ::
  "complete_env \<Rightarrow> settings \<Rightarrow> nat \<Rightarrow> nat \<Rightarrow> complete_request \<Rightarrow> str \<Rightarrow> str \<Rightarrow> listing_cache option \<Rightarrow>
   complete_result \<times> listing_cache option" where
  "first_token_result env st now later request raw_search_term normalized_search_term cache =
     (let base = result_default\<lparr>cr_fuzzy := rq_fuzzy request, cr_search_term := raw_search_term,
                   cr_match_term := normalized_search_term\<rparr>
      in if \<not> rq_suggest_first_token request then (base, cache)
         else
           (let (names, cache') = first_token_command_names env now later normalized_search_term request cache;
                rows = map (\<lambda>name. with_insert_value name (suggestion_new name [] (lit ''arg''))) names
            in (base\<lparr>cr_suggestions := add_exact_auto_execute normalized_search_term (st_hide_auto_execute st)
                       (st_only_show_on_tab st) (st_run_dangerous st) rows\<rparr>, cache')))"

section \<open>The spec of a command\<close>

definition local_spec_name :: "str \<Rightarrow> str" where
  "local_spec_name command =
     (if command = lit ''?'' then lit ''_shortcuts''
      else let name = rsplit_first (\<lambda>c. c = c_slash \<or> c = c_bslash) command
           in if name = [] then command else name)"

definition versioned_or_bundled :: "complete_env \<Rightarrow> complete_request \<Rightarrow> str \<Rightarrow> spec option" where
  "versioned_or_bundled env request command =
     or_else (if ce_versioned_command env command
              then ce_get_versioned_arc env command (rq_cwd request) (dynamic_hook_timeout (ce_walk env)) else None)
       (ce_get_arc env command)"

definition root_spec_for_command :: "complete_env \<Rightarrow> settings \<Rightarrow> complete_request \<Rightarrow> str \<Rightarrow> spec option" where
  "root_spec_for_command env st request command =
     (if command = lit ''?''
      then or_else (ce_load_project_fig_spec env (rq_cwd request) (lit ''_shortcuts''))
             (or_else (ce_load_home_fig_spec env (lit ''_shortcuts'')) (ce_get_arc env (lit ''_shortcuts'')))
      else if command = st_shortcuts_token st
      then or_else (ce_load_home_fig_spec env command) (ce_get_arc env command)
      else if c_slash \<in> set command
      then or_else (ce_load_script_local_spec env (rq_cwd request) command)
             (or_else (versioned_or_bundled env request (local_spec_name command))
                (versioned_or_bundled env request (slash_command_spec_name command)))
      else versioned_or_bundled env request command)"

section \<open>The rows of a context\<close>

definition row_query_of :: "complete_env \<Rightarrow> settings \<Rightarrow> str \<Rightarrow> str \<Rightarrow> bool \<Rightarrow> row_query" where
  "row_query_of env st query search_term fuzzy =
     \<lparr>rw_lowercase = ce_lowercase env, rw_get_query_term = ce_get_query_term env, rw_query = query,
      rw_search_term = search_term, rw_fuzzy = fuzzy, rw_prefer_verbose = st_prefer_verbose st\<rparr>"

definition subcommand_rows :: "row_query \<Rightarrow> spec \<Rightarrow> bool \<Rightarrow> suggestion list" where
  "subcommand_rows rq current public =
     collect_named rq (lit ''subcommand'')
       (map (subcommand_item public) (sorted_named sp_names (sp_subcommands current)))"

text \<open>The rows of an open chain are matched against the empty term.\<close>

definition open_chain_rows :: "bool \<Rightarrow> suggestion list \<Rightarrow> suggestion list" where
  "open_chain_rows open_chain rows = (if open_chain then map (\<lambda>s. s\<lparr>sg_query_term := Some []\<rparr>) rows else rows)"

definition active_rows ::
  "complete_env \<Rightarrow> complete_request \<Rightarrow> completion_context \<Rightarrow> str list \<Rightarrow> str \<Rightarrow> str \<Rightarrow> bool \<Rightarrow> bool \<Rightarrow> suggestion list" where
  "active_rows env request ctx tokens query search_term fuzzy open_chain =
     (case cc_active_arg ctx of
        None \<Rightarrow> []
      | Some active \<Rightarrow>
          (let generated = ce_generate_for_arg env (aa_arg active) tokens query search_term (rq_cwd request) fuzzy
                             (cc_history_slots ctx);
               help = (if Help \<in> set (af_templates (ar_fields (aa_arg active)))
                       then help_template_suggestions (ce_lowercase env) (cc_help_parent ctx) (cc_spec ctx) query fuzzy
                       else []);
               scope = Option.bind (aa_slot active) (argument_scope (ce_sha256 env) (rq_cwd request))
           in open_chain_rows open_chain
                (map (\<lambda>s. s\<lparr>sg_argument_value := True, sg_acceptance_scope := scope\<rparr>) (generated @ help))))"

definition untyped_seed :: "spec \<Rightarrow> suggestion \<Rightarrow> bool" where
  "untyped_seed current s \<longleftrightarrow>
     list_ex (\<lambda>seed. sm_suggestion_type (ss_meta seed) = None \<and> sm_icon (ss_meta seed) = None \<and>
                sg_name s \<in> set (ss_names seed)) (sf_additional_suggestions (sp_fields current))"

definition additional_rows :: "row_query \<Rightarrow> spec \<Rightarrow> bool \<Rightarrow> suggestion list" where
  "additional_rows rq current open_chain =
     map (\<lambda>s. if untyped_seed current s \<and> sg_icon s = None
               then s\<lparr>sg_icon := Some (lit ''fig://template?color=628dad&badge='' @ [10145, 65039])\<rparr> else s)
       (open_chain_rows open_chain
         (collect_named (if open_chain then rq\<lparr>rw_query := [], rw_search_term := []\<rparr> else rq) (lit ''arg'')
           (map seed_item (sorted_named ss_names (sf_additional_suggestions (sp_fields current))))))"

definition option_rows_of ::
  "complete_env \<Rightarrow> row_query \<Rightarrow> completion_context \<Rightarrow> short_option_chain option \<Rightarrow> bool \<Rightarrow> bool \<Rightarrow> suggestion list" where
  "option_rows_of env rq ctx open_option_chain only_suggest_args public =
     (case open_option_chain of
        Some chain \<Rightarrow>
          (if \<not> only_suggest_args
           then option_chain_suggestions (ce_as_f64 env) (cc_spec ctx) (cc_persistent_options ctx) chain
                  (cc_passed_options ctx) (cc_parser_directives ctx)
           else [])
      | None \<Rightarrow>
          (if cc_options_allowed ctx \<and> \<not> only_suggest_args
           then collect_option_suggestions (ce_as_f64 env) rq (cc_spec ctx) (cc_persistent_options ctx)
                  (cc_passed_options ctx) (cc_parser_directives ctx) public
           else []))"

section \<open>A completion\<close>

definition completion_query_state :: "completion_context \<Rightarrow> bool \<Rightarrow> query_state" where
  "completion_query_state ctx only_suggest_args =
     \<lparr>qs_subcommands_allowed = cc_subcommands_allowed ctx, qs_options_allowed = cc_options_allowed ctx,
      qs_end_of_options = cc_end_of_options ctx, qs_active_arg_source = map_option aa_source (cc_active_arg ctx),
      qs_active_arg_only_suggest_args = only_suggest_args, qs_crossed_loaded_spec = cc_crossed_loaded_spec ctx\<rparr>"

definition only_suggest_args :: "completion_context \<Rightarrow> bool" where
  "only_suggest_args ctx \<longleftrightarrow>
     cc_end_of_options ctx \<or> (case cc_active_arg ctx of Some active \<Rightarrow> aa_only_suggest_args active | None \<Rightarrow> False)"

definition open_option_chain_of :: "completion_context \<Rightarrow> bool \<Rightarrow> str \<Rightarrow> short_option_chain option" where
  "open_option_chain_of ctx ends_with_space normalized_search_term =
     (if ends_with_space then None
      else case parse_short_option_chain (cc_spec ctx) (cc_persistent_options ctx) normalized_search_term
                  (cc_parser_directives ctx) of
        Some chain \<Rightarrow> (if sc_attached_value chain = None then Some chain else None)
      | None \<Rightarrow> None)"

text \<open>The rows of a resolved context, in the order in which they are collected.\<close>

definition context_rows ::
  "complete_env \<Rightarrow> settings \<Rightarrow> complete_request \<Rightarrow> completion_context \<Rightarrow> str list \<Rightarrow> bool \<Rightarrow> str \<Rightarrow> str \<Rightarrow> str \<Rightarrow> bool \<Rightarrow> bool \<Rightarrow>
   suggestion list" where
  "context_rows env st request ctx tokens ends_with_space normalized_search_term query search_term fuzzy public =
     (let chain = open_option_chain_of ctx ends_with_space normalized_search_term;
          only_args = only_suggest_args ctx;
          rq = row_query_of env st query search_term fuzzy
      in (if cc_subcommands_allowed ctx \<and> \<not> only_args \<and> chain = None then subcommand_rows rq (cc_spec ctx) public else []) @
         active_rows env request ctx tokens query search_term fuzzy (chain \<noteq> None) @
         additional_rows rq (cc_spec ctx) (chain \<noteq> None) @
         option_rows_of env rq ctx chain only_args public)"

definition with_auto_execute ::
  "settings \<Rightarrow> completion_context \<Rightarrow> str \<Rightarrow> str \<Rightarrow> suggestion list \<Rightarrow> suggestion list" where
  "with_auto_execute st ctx query normalized_search_term rows =
     add_space_auto_execute normalized_search_term (st_execute_after_space st) (st_hide_auto_execute st) (st_only_show_on_tab st)
       (add_current_token_auto_execute normalized_search_term
          (suggest_current_token_for (cc_active_arg ctx) (st_always_suggest_current st))
          (st_hide_auto_execute st) (st_only_show_on_tab st) (st_run_dangerous st) (cc_active_arg ctx \<noteq> None)
          (add_exact_auto_execute query (st_hide_auto_execute st) (st_only_show_on_tab st) (st_run_dangerous st) rows))"

text \<open>The result in a resolved context; \<open>tokens\<close> are the tokens after the walk.\<close>

definition collected_result ::
  "complete_env \<Rightarrow> settings \<Rightarrow> complete_request \<Rightarrow> spec \<Rightarrow> completion_context \<Rightarrow> str list \<Rightarrow> bool \<Rightarrow> str \<Rightarrow> str \<Rightarrow>
   complete_result" where
  "collected_result env st request root_spec ctx tokens ends_with_space raw_search_term normalized_search_term =
     (let public_ctx = public_context (ce_is_public_ai_root env) request root_spec (cc_spec ctx) tokens
                         (completion_query_state ctx (only_suggest_args ctx));
          fuzzy = effective_fuzzy_for (rq_fuzzy request) (Some (cc_spec ctx)) (map_option aa_arg (cc_active_arg ctx));
          (query, search_term) = (case cc_active_arg ctx of
              None \<Rightarrow> (normalized_search_term, raw_search_term)
            | Some active \<Rightarrow> (aa_query active, aa_search_term active));
          current = map_option (\<lambda>active. \<lparr>cu_name = af_name (ar_fields (aa_arg active)),
                                           cu_description = af_description (ar_fields (aa_arg active))\<rparr>)
                      (cc_active_arg ctx);
          rows = with_auto_execute st ctx query normalized_search_term
                   (context_rows env st request ctx tokens ends_with_space normalized_search_term query search_term fuzzy
                      (public_ctx \<noteq> None))
      in \<lparr>cr_public_ai_context = public_ctx, cr_suggestions = rows, cr_fuzzy = fuzzy, cr_search_term = search_term,
          cr_match_term = query, cr_current_arg = current, cr_pending_generators = fst (ce_pending_generators env),
          cr_debounce_ms = snd (ce_pending_generators env)\<rparr>)"

definition context_result ::
  "complete_env \<Rightarrow> settings \<Rightarrow> complete_request \<Rightarrow> spec \<Rightarrow> completion_context \<Rightarrow> str list \<Rightarrow> bool \<Rightarrow> str \<Rightarrow> str \<Rightarrow>
   complete_result" where
  "context_result env st request root_spec ctx tokens ends_with_space raw_search_term normalized_search_term =
     validate_provenance
       (collected_result env st request root_spec ctx tokens ends_with_space raw_search_term normalized_search_term)"

text \<open>The branch with a command: \<open>None\<close> is a walk that does not end.\<close>

definition command_disabled :: "settings \<Rightarrow> str \<Rightarrow> bool" where
  "command_disabled st command \<longleftrightarrow>
     (case st_disabled_commands st of Some commands \<Rightarrow> command_is_disabled_from commands command | None \<Rightarrow> False)"

definition complete_command ::
  "complete_env \<Rightarrow> settings \<Rightarrow> nat \<Rightarrow> nat \<Rightarrow> complete_request \<Rightarrow> listing_cache option \<Rightarrow> str list \<Rightarrow> bool \<Rightarrow> str \<Rightarrow>
   (complete_result \<times> listing_cache option) option" where
  "complete_command env st now later request cache tokens ends_with_space buffer =
     (let command = hd tokens;
          raw_search_term = (if ends_with_space then [] else current_token_raw buffer);
          normalized_search_term = (if ends_with_space then [] else last tokens);
          empty = result_default\<lparr>cr_fuzzy := rq_fuzzy request, cr_search_term := raw_search_term,
                    cr_match_term := normalized_search_term\<rparr>;
          lone = (length tokens = 1 \<and> \<not> ends_with_space)
      in if command_disabled st command then Some (empty, cache)
         else if lone \<and> c_slash \<notin> set command
         then Some (first_token_result env st now later request raw_search_term normalized_search_term cache)
         else case (if lone then single_slash_token_spec env command
                    else root_spec_for_command env st request command) of
           None \<Rightarrow> Some (empty, cache)
         | Some root_spec \<Rightarrow>
             map_option (\<lambda>(ctx, tokens').
                 (context_result env st request root_spec ctx tokens' ends_with_space raw_search_term
                    normalized_search_term, cache))
               (resolve_context (ce_walk env) root_spec tokens ends_with_space normalized_search_term raw_search_term))"

definition expanded_tokens :: "complete_request \<Rightarrow> str list \<Rightarrow> bool \<Rightarrow> str list" where
  "expanded_tokens request typed ends_with_space =
     (case rq_alias request of
        Some raw_aliases \<Rightarrow> expand_alias_tokens typed ends_with_space raw_aliases (rq_current_shell request)
      | None \<Rightarrow> typed)"

definition complete_with_settings ::
  "complete_env \<Rightarrow> settings \<Rightarrow> nat \<Rightarrow> nat \<Rightarrow> complete_request \<Rightarrow> listing_cache option \<Rightarrow>
   (complete_result \<times> listing_cache option) option" where
  "complete_with_settings env st now later request cache =
     (let buffer = completion_buffer (rq_buffer request) (rq_cursor request);
          (typed, ends_with_space) = tokenize buffer;
          tokens = expanded_tokens request typed ends_with_space
      in if tokens = []
         then Some (if is_fresh_command_position (buffer_before_cursor (rq_buffer request) (rq_cursor request))
                    then first_token_result env st now later request [] [] cache
                    else (result_default\<lparr>cr_fuzzy := rq_fuzzy request\<rparr>, cache))
         else complete_command env st now later request cache tokens ends_with_space buffer)"

section \<open>Where marked rows come from\<close>

text \<open>The entries of the current node that may be published: written in the spec file, not generated,
  not taken from another file.\<close>

definition static_option :: "option_spec \<Rightarrow> bool" where
  "static_option opt \<longleftrightarrow>
     \<not> sm_ai_resolved_reference (of_meta (op_fields opt)) \<and> \<not> sm_ai_generated (of_meta (op_fields opt)) \<and>
     op_load_spec opt = None"

definition static_name :: "completion_context \<Rightarrow> str \<Rightarrow> bool" where
  "static_name ctx name \<longleftrightarrow>
     (\<exists>sub \<in> set (sp_subcommands (cc_spec ctx)). static_path_node sub \<and> name \<in> set (sp_names sub)) \<or>
     (\<exists>opt \<in> set (sp_options (cc_spec ctx) @ cc_persistent_options ctx). static_option opt \<and> name \<in> set (op_names opt))"

definition generators_unmarked :: "complete_env \<Rightarrow> bool" where
  "generators_unmarked env \<longleftrightarrow>
     (\<forall>arg tokens query search_term cwd fuzzy slots.
        \<forall>s \<in> set (ce_generate_for_arg env arg tokens query search_term cwd fuzzy slots). \<not> marked s)"

lemma marked_updates [simp]:
  "marked (s\<lparr>sg_argument_value := a\<rparr>) = marked s" "marked (s\<lparr>sg_acceptance_scope := b\<rparr>) = marked s"
  "marked (s\<lparr>sg_query_term := q\<rparr>) = marked s" "marked (s\<lparr>sg_icon := i\<rparr>) = marked s"
  "marked (s\<lparr>sg_insert_value := v\<rparr>) = marked s" "marked (s\<lparr>sg_primary_name := p\<rparr>) = marked s"
  "marked (s\<lparr>sg_priority := w\<rparr>) = marked s" "\<not> marked (suggestion_new name description kind)"
  by (simp_all add: marked_def suggestion_new_def)

lemma named_row_marked:
  assumes "named_row rq kind item = Some row" "marked row"
  shows "ni_public_source item"
  using assms by (auto simp: named_row_def Let_def with_meta_def suggestion_new_def marked_def
      split: prod.splits option.splits if_splits)

lemma collect_named_marked:
  assumes "s \<in> set (collect_named rq kind items)" "marked s"
  shows "\<exists>item \<in> set items. ni_public_source item \<and> sg_name s \<in> set (ni_names item)"
  using assms by (auto simp: collect_named_def set_filter_map dest: named_row_marked named_row_facts(1))

lemma subcommand_rows_marked:
  assumes "s \<in> set (subcommand_rows rq current public)" "marked s"
  shows "public \<and> (\<exists>sub \<in> set (sp_subcommands current). static_path_node sub \<and> sg_name s \<in> set (sp_names sub))"
  using collect_named_marked [OF assms [unfolded subcommand_rows_def]]
  by (auto simp: subcommand_item_def Let_def sorted_named_def static_path_node_def)

lemma option_suggestions_marked:
  assumes "s \<in> set (collect_option_suggestions as_f64 rq current persistent passed directives public)" "marked s"
  shows "public \<and> (\<exists>opt \<in> set (sp_options current @ persistent). static_option opt \<and> sg_name s \<in> set (op_names opt))"
proof -
  obtain item where "item \<in> set (map (option_item public directives passed)
      (filter (option_offered as_f64 passed) (sorted_named op_names (sp_options current @ persistent))))"
    "ni_public_source item" "sg_name s \<in> set (ni_names item)"
    using collect_named_marked assms unfolding collect_option_suggestions_def Let_def by blast
  then show ?thesis by (auto simp: option_item_def Let_def sorted_named_def static_option_def)
qed

lemma chain_suggestions_unmarked:
  "s \<in> set (option_chain_suggestions as_f64 spec persistent chain passed directives) \<Longrightarrow> \<not> marked s"
  by (auto simp: option_chain_suggestions_def set_filter_map Let_def chain_row_def with_meta_def suggestion_new_def marked_def
      split: if_splits option.splits)

lemma active_rows_unmarked:
  assumes "generators_unmarked env" "s \<in> set (active_rows env request ctx tokens query search_term fuzzy chain)"
  shows "\<not> marked s"
proof -
  have template: "\<not> marked r" if "r \<in> set (help_template_suggestions lc parent current query fuzzy)" for r lc parent current
    using that by (auto simp: help_template_suggestions_def set_filter_map with_insert_value_def split: option.splits)
  from assms template show ?thesis
    by (auto simp: active_rows_def open_chain_rows_def generators_unmarked_def Let_def split: option.splits if_splits)
qed

lemma additional_rows_unmarked: "s \<in> set (additional_rows rq current chain) \<Longrightarrow> \<not> marked s"
  by (auto simp: additional_rows_def open_chain_rows_def seed_item_def Let_def dest!: collect_named_marked split: if_splits)

lemma context_rows_marked:
  assumes "generators_unmarked env" "marked s"
    and "s \<in> set (context_rows env st request ctx tokens space normalized query search_term fuzzy public)"
  shows "public \<and> static_name ctx (sg_name s)"
proof -
  let ?rq = "row_query_of env st query search_term fuzzy"
  let ?chain = "open_option_chain_of ctx space normalized"
  from assms(3) consider "s \<in> set (subcommand_rows ?rq (cc_spec ctx) public)"
    | "s \<in> set (active_rows env request ctx tokens query search_term fuzzy (?chain \<noteq> None))"
    | "s \<in> set (additional_rows ?rq (cc_spec ctx) (?chain \<noteq> None))"
    | "s \<in> set (option_rows_of env ?rq ctx ?chain (only_suggest_args ctx) public)"
    by (auto simp: context_rows_def Let_def split: if_splits)
  then show ?thesis
  proof cases
    case 1
    from subcommand_rows_marked [OF this assms(2)] show ?thesis by (auto simp: static_name_def)
  next
    case 2
    with active_rows_unmarked [OF assms(1)] assms(2) show ?thesis by blast
  next
    case 3
    with additional_rows_unmarked assms(2) show ?thesis by blast
  next
    case 4
    with chain_suggestions_unmarked assms(2)
    have "s \<in> set (collect_option_suggestions (ce_as_f64 env) ?rq (cc_spec ctx) (cc_persistent_options ctx)
        (cc_passed_options ctx) (cc_parser_directives ctx) public)"
      by (auto simp: option_rows_of_def split: option.splits if_splits)
    from option_suggestions_marked [OF this assms(2)] show ?thesis by (auto simp: static_name_def)
  qed
qed

lemma auto_row_unmarked [simp]: "sg_public_ai_candidate auto_execute_row = None"
  by (simp add: auto_execute_row_def)

lemma add_rows_marked:
  "s \<in> set (add_space_auto_execute query space hide tab rows) \<Longrightarrow> marked s \<Longrightarrow> s \<in> set rows"
  "s \<in> set (add_current_token_auto_execute query always hide tab allow value rows) \<Longrightarrow> marked s \<Longrightarrow> s \<in> set rows"
  "s \<in> set (add_exact_auto_execute query hide tab allow rows) \<Longrightarrow> marked s \<Longrightarrow> s \<in> set rows"
proof -
  show "s \<in> set (add_space_auto_execute query space hide tab rows) \<Longrightarrow> marked s \<Longrightarrow> s \<in> set rows"
    by (auto simp: add_space_auto_execute_def marked_def split: if_splits)
  show "s \<in> set (add_current_token_auto_execute query always hide tab allow value rows) \<Longrightarrow> marked s \<Longrightarrow> s \<in> set rows"
    unfolding add_current_token_auto_execute_def marked_def by (auto split: if_split_asm)
  show "s \<in> set (add_exact_auto_execute query hide tab allow rows) \<Longrightarrow> marked s \<Longrightarrow> s \<in> set rows"
    unfolding add_exact_auto_execute_def marked_def
    by (cases "find (executable_row query allow) rows") (auto split: if_split_asm)
qed

lemma with_auto_execute_marked:
  "s \<in> set (with_auto_execute st ctx query token rows) \<Longrightarrow> marked s \<Longrightarrow> s \<in> set rows"
  unfolding with_auto_execute_def by (blast dest: add_rows_marked)

text \<open>What a completion publishes, before history rows are merged: the rows it marks are written in the
  spec, and without a context there are none.\<close>

lemma validate_marked:
  "s \<in> set (cr_suggestions (validate_provenance result)) \<Longrightarrow> marked s \<Longrightarrow> s \<in> set (cr_suggestions result)"
  by (auto simp: validate_provenance_def clear_public_def Let_def split: option.splits if_splits)

lemma collected_rows:
  "\<exists>query search_term fuzzy.
     cr_suggestions (collected_result env st request root_spec ctx tokens space raw_term normalized_term) =
     with_auto_execute st ctx query normalized_term
       (context_rows env st request ctx tokens space normalized_term query search_term fuzzy
          (cr_public_ai_context (collected_result env st request root_spec ctx tokens space raw_term normalized_term) \<noteq> None))"
  by (cases "cc_active_arg ctx") (simp_all add: collected_result_def Let_def, blast+)

lemma collected_marked:
  assumes "generators_unmarked env" "marked s"
    and "s \<in> set (cr_suggestions (collected_result env st request root_spec ctx tokens space raw_term normalized_term))"
  shows "cr_public_ai_context (collected_result env st request root_spec ctx tokens space raw_term normalized_term) \<noteq> None \<and>
    static_name ctx (sg_name s)"
proof -
  let ?r = "collected_result env st request root_spec ctx tokens space raw_term normalized_term"
  obtain query search_term fuzzy where "cr_suggestions ?r = with_auto_execute st ctx query normalized_term
       (context_rows env st request ctx tokens space normalized_term query search_term fuzzy (cr_public_ai_context ?r \<noteq> None))"
    using collected_rows by blast
  with assms(3) have "s \<in> set (with_auto_execute st ctx query normalized_term
       (context_rows env st request ctx tokens space normalized_term query search_term fuzzy (cr_public_ai_context ?r \<noteq> None)))"
    by simp
  from context_rows_marked [OF assms(1,2) with_auto_execute_marked [OF this assms(2)]] show ?thesis .
qed

lemma context_result_marked:
  assumes "generators_unmarked env"
  shows "marks_closed (context_result env st request root_spec ctx tokens space raw_term normalized_term)"
    and "s \<in> set (cr_suggestions (context_result env st request root_spec ctx tokens space raw_term normalized_term)) \<Longrightarrow>
      marked s \<Longrightarrow> static_name ctx (sg_name s)"
proof -
  have "marks_closed (collected_result env st request root_spec ctx tokens space raw_term normalized_term)"
    unfolding marks_closed_def using collected_marked [OF assms] by blast
  then show "marks_closed (context_result env st request root_spec ctx tokens space raw_term normalized_term)"
    unfolding context_result_def by (rule validate_facts(1))
  show "s \<in> set (cr_suggestions (context_result env st request root_spec ctx tokens space raw_term normalized_term)) \<Longrightarrow>
      marked s \<Longrightarrow> static_name ctx (sg_name s)"
    unfolding context_result_def using collected_marked [OF assms] validate_marked by blast
qed

section \<open>Completions return\<close>

lemma resolve_context_returns:
  assumes "env_no_alias env" "no_alias root_spec"
  shows "\<exists>ctx. resolve_context env root_spec tokens space query raw_query = Some (ctx, tokens)"
proof -
  have limit: "(if space then length tokens else length tokens - 1) \<le> length tokens" by simp
  from walk_returns [OF assms limit, of "Some (trace_new root_spec)"] show ?thesis
    by (auto simp: resolve_context_def Let_def)
qed

lemma complete_command_returns:
  assumes "env_no_alias (ce_walk env)"
    and "\<forall>name spec. ce_get_arc env name = Some spec \<longrightarrow> no_alias spec"
    and "\<forall>command spec. root_spec_for_command env st request command = Some spec \<longrightarrow> no_alias spec"
  shows "complete_command env st now later request cache tokens space buffer \<noteq> None"
proof -
  have "resolve_context (ce_walk env) spec tokens space q r \<noteq> None"
    if "(if lone then single_slash_token_spec env command else root_spec_for_command env st request command) = Some spec"
    for spec q r lone command
  proof -
    from that assms(2,3) have "no_alias spec" by (auto simp: single_slash_token_spec_def split: if_splits)
    from resolve_context_returns [OF assms(1) this] show ?thesis by fastforce
  qed
  note returns = this [of "length tokens = 1 \<and> \<not> space" "hd tokens"]
  show ?thesis unfolding complete_command_def Let_def
    by (cases "if length tokens = 1 \<and> \<not> space then single_slash_token_spec env (hd tokens)
               else root_spec_for_command env st request (hd tokens)") (simp_all add: returns [simplified])
qed

text \<open>
  Property C21. Every completion returns as long as the specs that may be consulted put no alias on an
  argument: whatever the buffer, the caret, the aliases of the shell, the settings and the hooks are,
  there is a result, and a command that is switched off in the settings gets no row.
\<close>

theorem completion_returns:
  assumes "env_no_alias (ce_walk env)"
    and "\<forall>name spec. ce_get_arc env name = Some spec \<longrightarrow> no_alias spec"
    and "\<forall>command spec. root_spec_for_command env st request command = Some spec \<longrightarrow> no_alias spec"
  shows "\<exists>result cache'. complete_with_settings env st now later request cache = Some (result, cache') \<and>
    (\<forall>typed space tokens. tokenize (completion_buffer (rq_buffer request) (rq_cursor request)) = (typed, space) \<and>
       expanded_tokens request typed space = tokens \<and> tokens \<noteq> [] \<and> command_disabled st (hd tokens) \<longrightarrow>
       cr_suggestions result = [] \<and> cache' = cache)"
proof -
  obtain typed space where tok: "tokenize (completion_buffer (rq_buffer request) (rq_cursor request)) = (typed, space)"
    by fastforce
  have "complete_with_settings env st now later request cache \<noteq> None"
    using complete_command_returns [OF assms] by (simp add: complete_with_settings_def Let_def tok)
  then obtain result cache' where some: "complete_with_settings env st now later request cache = Some (result, cache')"
    by fastforce
  then have "cr_suggestions result = [] \<and> cache' = cache"
    if "expanded_tokens request typed space \<noteq> []" "command_disabled st (hd (expanded_tokens request typed space))"
    using that by (auto simp: complete_with_settings_def complete_command_def Let_def tok result_default_def)
  with some tok show ?thesis by auto
qed

definition plain_env :: complete_env where
  "plain_env =
     \<lparr>ce_lowercase = map to_ascii_lowercase, ce_get_query_term = (\<lambda>_ _. None), ce_as_f64 = (\<lambda>_. None), ce_walk = quiet_env,
      ce_get_arc = (\<lambda>name. if name = lit ''tool'' then Some (sample_spec [sample_option [''--all''] []] []) else None),
      ce_versioned_command = (\<lambda>_. False), ce_get_versioned_arc = (\<lambda>_ _ _. None),
      ce_load_project_fig_spec = (\<lambda>_ _. None), ce_load_home_fig_spec = (\<lambda>_. None),
      ce_load_script_local_spec = (\<lambda>_ _. None), ce_is_public_ai_root = (\<lambda>_ _. True),
      ce_generate_for_arg = (\<lambda>_ _ _ _ _ _ _. []), ce_pending_generators = (False, None),
      ce_sha256 = (\<lambda>_. replicate 32 0), ce_execute = (\<lambda>_ _. None), ce_path_entries = []\<rparr>"

definition plain_settings :: settings where
  "plain_settings =
     \<lparr>st_hide_auto_execute = False, st_only_show_on_tab = False, st_run_dangerous = False, st_prefer_verbose = False,
      st_always_suggest_current = True, st_execute_after_space = False, st_disabled_commands = None,
      st_shortcuts_token = lit ''+''\<rparr>"

lemma plain_env_facts:
  "env_no_alias (ce_walk plain_env)"
  "ce_get_arc plain_env name = Some spec \<Longrightarrow> no_alias spec"
  "root_spec_for_command plain_env plain_settings request command = Some spec \<Longrightarrow> no_alias spec"
  by (auto simp: plain_env_def plain_settings_def env_no_alias_def quiet_env_def sample_defs fields_no_alias_def
      root_spec_for_command_def versioned_or_bundled_def or_else_def split: if_splits)

theorem completion_returns_witness:
  "\<exists>result cache'. complete_with_settings plain_env plain_settings 0 0 (request_default\<lparr>rq_buffer := lit ''tool -''\<rparr>) None =
       Some (result, cache') \<and>
    (\<forall>typed space tokens. tokenize (completion_buffer (rq_buffer (request_default\<lparr>rq_buffer := lit ''tool -''\<rparr>))
         (rq_cursor (request_default\<lparr>rq_buffer := lit ''tool -''\<rparr>))) = (typed, space) \<and>
       expanded_tokens (request_default\<lparr>rq_buffer := lit ''tool -''\<rparr>) typed space = tokens \<and> tokens \<noteq> [] \<and>
       command_disabled plain_settings (hd tokens) \<longrightarrow>
       cr_suggestions result = [] \<and> cache' = None)"
  by (rule completion_returns) (use plain_env_facts in blast)+

section \<open>The first token\<close>

text \<open>The lists the first token is completed from have no duplicates, and a listing that is still fresh
  is used again.\<close>

lemma dedupe_facts:
  "distinct (dedupe_command_lines output) \<and> [] \<notin> set (dedupe_command_lines output) \<and>
   set (dedupe_command_lines output) = {name. name \<noteq> [] \<and> (\<exists>line \<in> set (str_lines output). name = trim (hd (split_char c_tab line)))}"
proof -
  have "distinct names \<and> [] \<notin> set names \<Longrightarrow>
    (let out = fold (\<lambda>line names. let name = trim (hd (split_char c_tab line))
                         in if name = [] \<or> name \<in> set names then names else names @ [name]) ls names
     in distinct out \<and> [] \<notin> set out \<and>
        set out = set names \<union> {name. name \<noteq> [] \<and> (\<exists>line \<in> set ls. name = trim (hd (split_char c_tab line)))})"
    for names :: "str list" and ls
    by (induction ls arbitrary: names) (auto simp: Let_def)
  from this [of "[]" "str_lines output"] show ?thesis by (simp add: dedupe_command_lines_def Let_def)
qed

lemma first_token_names:
  assumes "\<And>entry. cache = Some entry \<Longrightarrow> distinct (lc_names entry)"
    and "first_token_command_names env now later query request cache = (names, cache')"
  shows "distinct names \<and> sorted_wrt (\<lambda>a b. cmp_ignore_ascii_case a b \<noteq> Greater) names \<and>
    (\<forall>entry. cache' = Some entry \<longrightarrow> distinct (lc_names entry)) \<and>
    (\<forall>name \<in> set names. matches_query (ce_lowercase env) name query (rq_fuzzy request))"
proof -
  obtain listed where listed: "first_token_cached_listing env now later request cache = (listed, cache')"
    using assms(2) by (auto simp: first_token_command_names_def Let_def split: prod.splits)
  have fetch: "distinct (first_token_listing env flag request)" for flag
    using dedupe_facts by (simp add: first_token_listing_def split: prod.split option.split)
  have "distinct (first_token_path_and_alias_listing env request)"
    by (simp add: first_token_path_and_alias_listing_def)
  with listed assms(1) fetch have "distinct listed" "\<forall>entry. cache' = Some entry \<longrightarrow> distinct (lc_names entry)"
    by (auto simp: first_token_cached_listing_def first_token_login_listing_def first_token_nologin_listing_def Let_def
        split: option.splits if_splits)
  moreover have "distinct acc \<Longrightarrow> distinct (fold (\<lambda>key names. if key \<in> set names then names else names @ [key]) ks acc)"
    for acc ks :: "str list"
    by (induction ks arbitrary: acc) auto
  ultimately show ?thesis
    using assms(2) listed ignore_case.sorted_sort_by
    by (auto simp: first_token_command_names_def Let_def matches_query_def ignore_case.le_def [abs_def])
qed

section \<open>A dangerous value attached to an option\<close>

text \<open>
  \<open>add_exact_auto_execute\<close> compares the rows with the query, which after \<open>--run=\<close> is the attached value;
  \<open>add_current_token_auto_execute\<close> compares them with the whole token. For a dangerous row \<open>rm\<close> and the
  token \<open>--run=rm\<close> the first pass refuses to run it and the second one, asked whether a dangerous row is
  exactly what was typed, does not see it: Enter runs the command.
\<close>

lemma attached_value_bypasses_guard:
  assumes "suggest_current_token_for (cc_active_arg ctx) True" "cc_active_arg ctx \<noteq> None"
  shows "let rm = (suggestion_new (lit ''rm'') [] (lit ''arg''))\<lparr>sg_is_dangerous := True\<rparr>;
      rows = with_auto_execute plain_settings ctx (lit ''rm'') (lit ''--run=rm'') [rm]
    in exact_name (lit ''rm'') rm \<and> length rows = 2 \<and> sg_kind (hd rows) = lit ''auto-execute'' \<and> \<not> sg_is_dangerous (hd rows)"
proof -
  have lower: "eq_ignore_ascii_case (lit ''rm'') (lit ''rm'')" "\<not> eq_ignore_ascii_case (lit ''rm'') (lit ''--run=rm'')"
    by (simp_all add: eq_ignore_ascii_case_def to_ascii_lowercase_def)
  show ?thesis
    using assms(1) lower unfolding Let_def with_auto_execute_def
    by (simp add: plain_settings_def add_exact_auto_execute_def add_current_token_auto_execute_def add_space_auto_execute_def
        executable_row_def exact_name_def is_folder_def suggestion_new_def unwrap_or_def ends_with_def auto_execute_row_def)
qed

end
