(* ===== verification/Pipeline.thy ===== *)
theory Pipeline
  imports Complete Cancel_Token
begin

text \<open>
  What the engine does for one request (\<open>runtime.rs\<close>, \<open>complete_with_thread_session\<close>, lines 777--880, and
  \<open>ensure_frecency\<close>, \<open>ranking_root_command\<close>, \<open>effective_fuzzy_for_tokens\<close> of \<open>lookup.rs\<close>): load the
  history if its source has changed, complete the line, merge history rows, drop ambiguous marks, rank,
  and publish what is left. Cancellation is checked three times on the way.
\<close>

section \<open>State\<close>

record engine_settings =
  es_lookup :: settings
  es_history_disable_loading :: bool
  es_history_custom_command :: str
  es_history_all_shells :: bool
  es_sort_method :: str

record engine_env =
  ee_complete :: complete_env
  ee_history :: history_system
  ee_round :: "rat \<Rightarrow> rat"

record engine_data =
  ed_frecency :: frecency
  ed_frecency_loaded :: bool
  ed_history_source :: "history_source_config option"
  ed_acceptance :: acceptance_index
  ed_listing :: "listing_cache option"

definition frecency_default :: frecency where
  "frecency_default = \<lparr>fr_lines = [], fr_next_words = next_words_default\<rparr>"

section \<open>The steps\<close>

definition ranking_root_command :: "str \<Rightarrow> nat option \<Rightarrow> str" where
  "ranking_root_command buffer cursor =
     (case fst (tokenize (completion_buffer buffer cursor)) of [] \<Rightarrow> [] | token # _ \<Rightarrow> token)"

text \<open>\<open>cancelled\<close> says whether the request was cancelled while the history was loaded or indexed, or
  before the result was stored.\<close>

definition ensure_frecency :: "engine_env \<Rightarrow> engine_settings \<Rightarrow> bool \<Rightarrow> complete_request \<Rightarrow> engine_data \<Rightarrow> engine_data" where
  "ensure_frecency env st cancelled request data =
     (let custom_command = (if es_history_custom_command st \<noteq> [] then Some (es_history_custom_command st) else None);
          source = history_source_config_of custom_command (es_history_all_shells st) (rq_current_shell request)
                     (rq_current_process request)
      in if ed_frecency_loaded data \<and> ed_history_source data = Some source then data
         else
           (let commands = load_commands_for (ee_history env) source
            in if cancelled then data
               else data\<lparr>ed_frecency := from_commands commands, ed_frecency_loaded := True,
                         ed_history_source := Some source\<rparr>))"

text \<open>\<open>None\<close> is a walk that does not end.\<close>

definition effective_fuzzy_for_tokens ::
  "complete_env \<Rightarrow> bool \<Rightarrow> str list \<Rightarrow> bool \<Rightarrow> str \<Rightarrow> str \<Rightarrow> bool option" where
  "effective_fuzzy_for_tokens env user_fuzzy tokens ends_with_space query raw_query =
     (case tokens of
        [] \<Rightarrow> Some user_fuzzy
      | command # _ \<Rightarrow>
          (case ce_get_arc env command of
             None \<Rightarrow> Some user_fuzzy
           | Some root_spec \<Rightarrow>
               map_option (\<lambda>(ctx, _). effective_fuzzy_for user_fuzzy (Some (cc_spec ctx)) (map_option aa_arg (cc_active_arg ctx)))
                 (resolve_context (ce_walk env) root_spec tokens ends_with_space query raw_query)))"

definition history_only_result ::
  "engine_env \<Rightarrow> bool \<Rightarrow> frecency \<Rightarrow> complete_request \<Rightarrow> str \<Rightarrow> str list \<Rightarrow> bool \<Rightarrow> complete_result option" where
  "history_only_result env history_disabled fr request buffer tokens ends_with_space =
     (let search_term = (if ends_with_space then [] else current_token_raw buffer);
          match_term = (if ends_with_space \<or> tokens = [] then [] else last tokens);
          lc = ce_lowercase (ee_complete env)
      in map_option (\<lambda>fuzzy.
           let base = result_default\<lparr>cr_fuzzy := fuzzy, cr_search_term := search_term\<rparr>
           in if history_disabled then base
              else
                base\<lparr>cr_match_term := match_term,
                     cr_suggestions :=
                       (case history_prefix_from_buffer buffer ends_with_space tokens of
                          None \<Rightarrow> history_suggestions lc fr match_term fuzzy True
                        | Some prefix_text \<Rightarrow> history_suffix_suggestions lc fr prefix_text match_term fuzzy)\<rparr>)
           (effective_fuzzy_for_tokens (ee_complete env) (rq_fuzzy request) tokens ends_with_space match_term search_term))"

text \<open>From the collected rows to the published ones.\<close>

definition publish ::
  "engine_env \<Rightarrow> engine_settings \<Rightarrow> engine_data \<Rightarrow> complete_request \<Rightarrow> str \<Rightarrow> str list \<Rightarrow> bool \<Rightarrow> complete_result \<Rightarrow> complete_result" where
  "publish env st data request buffer tokens ends_with_space result =
     (let lc = ce_lowercase (ee_complete env);
          disabled = es_history_disable_loading st;
          merged = (if should_merge_history (rq_include_history request) disabled
                    then merge_history_with_prefix lc tokens (history_prefix_from_buffer buffer ends_with_space tokens)
                           (ed_frecency data) (cr_fuzzy result) result
                    else result);
          checked = validate_provenance merged;
          ranked = apply_with_acceptance (ee_round env) lc tokens
                     (if disabled then frecency_default else ed_frecency data) (ed_acceptance data)
                     (ranking_root_command (rq_buffer request) (rq_cursor request))
                     (es_sort_method st = lit ''alphabetical'') checked
      in finalize_ranked_candidates ranked)"

text \<open>The answers of the three cancellation checks, in their order.\<close>

record cancel_checks =
  ck_loading :: bool
  ck_loaded :: bool
  ck_completed :: bool

definition complete_with_thread_session ::
  "engine_env \<Rightarrow> engine_settings \<Rightarrow> cancel_checks \<Rightarrow> nat \<Rightarrow> nat \<Rightarrow> complete_request \<Rightarrow> engine_data \<Rightarrow>
   ((cancelled_error + complete_result) \<times> engine_data) option" where
  "complete_with_thread_session env st ck now later request data0 =
     (let buffer = completion_buffer (rq_buffer request) (rq_cursor request);
          (tokens, ends_with_space) = tokenize buffer;
          disabled = es_history_disable_loading st;
          data = (if history_loading_enabled disabled then ensure_frecency env st (ck_loading ck) request data0 else data0)
      in if ck_loaded ck then Some (Inl CompletionCancelled, data)
         else if rq_history_only request
         then map_option (\<lambda>result. (Inr result, data))
                (history_only_result env disabled (ed_frecency data) request buffer tokens ends_with_space)
         else
           map_option (\<lambda>(result, listing).
               (let data' = data\<lparr>ed_listing := listing\<rparr>
                in if ck_completed ck then (Inl CompletionCancelled, data')
                   else (Inr (publish env st data' request buffer tokens ends_with_space result), data')))
             (complete_with_settings (ee_complete env) (es_lookup st) now later request (ed_listing data)))"

section \<open>What is published\<close>

lemma ranked_context [simp]:
  "cr_public_ai_context (apply_with_acceptance fl lc tokens fr acc cmd alpha result) = cr_public_ai_context result"
  "cr_public_ai_context (merge_history_with_prefix lc tokens buffer_prefix fr fuzzy result) = cr_public_ai_context result"
  by (simp_all add: apply_with_acceptance_def merge_history_with_prefix_def Let_def)

lemma ranked_subset:
  fixes fl lc tokens fr acc cmd alpha result
  defines "out \<equiv> cr_suggestions (apply_with_acceptance fl lc tokens fr acc cmd alpha result)"
  shows "set out \<subseteq> set (cr_suggestions result)"
    and "length (filter P out) \<le> length (filter P (cr_suggestions result))"
proof -
  let ?sorted = "sort_by (ranking fl lc tokens fr acc cmd alpha result) (cr_suggestions result)"
  have sub: "subseq out ?sorted"
    by (auto simp: out_def apply_with_acceptance_def Let_def deduplicate_subseq)
  have count: "length (filter P ?sorted) = length (filter P (cr_suggestions result))"
    by (metis mset_filter mset_sort_by size_mset)
  from subseq_set [OF sub] show "set out \<subseteq> set (cr_suggestions result)" by simp
  from sub have "subseq (filter P out) (filter P ?sorted)" by (rule subseq_filter)
  then have "length (filter P out) \<le> length (filter P ?sorted)" by (rule list_emb_length)
  then show "length (filter P out) \<le> length (filter P (cr_suggestions result))" by (simp add: count)
qed

lemma ranked_unique_marks:
  assumes "unique_marks (cr_suggestions result)"
  shows "unique_marks (cr_suggestions (apply_with_acceptance fl lc tokens fr acc cmd alpha result))"
  unfolding unique_marks_def
proof (intro ballI impI)
  let ?out = "cr_suggestions (apply_with_acceptance fl lc tokens fr acc cmd alpha result)"
  fix s assume s: "s \<in> set ?out" "marked s"
  with assms ranked_subset(1) have "length (filter (\<lambda>r. sg_name r = sg_name s) (cr_suggestions result)) = 1"
    unfolding unique_marks_def by blast
  with ranked_subset(2) [of "\<lambda>r. sg_name r = sg_name s"]
  have "length (filter (\<lambda>r. sg_name r = sg_name s) ?out) \<le> 1" by metis
  moreover from s(1) have "filter (\<lambda>r. sg_name r = sg_name s) ?out \<noteq> []" by (auto simp: filter_empty_conv)
  ultimately show "length (filter (\<lambda>r. sg_name r = sg_name s) ?out) = 1"
    by (cases "filter (\<lambda>r. sg_name r = sg_name s) ?out") auto
qed

lemma merged_marked:
  assumes "s \<in> set (cr_suggestions (merge_history_with_prefix lc tokens buffer_prefix fr fuzzy result))" "marked s"
  shows "s \<in> set (cr_suggestions result)"
proof -
  have row: "\<not> marked (history_row counts line)" for counts line
    by (simp add: history_row_def with_insert_value_def with_priority_def)
  from assms row show ?thesis
    by (auto simp: merge_history_with_prefix_def history_suffix_suggestions_def history_suggestions_def Let_def
        split: if_splits option.splits)
qed

text \<open>The walk of a request: the root spec is that of the first word, and the context and the tokens are
  those the walk along the words ends with.\<close>

definition request_walk :: "complete_env \<Rightarrow> settings \<Rightarrow> complete_request \<Rightarrow> spec \<Rightarrow> completion_context \<Rightarrow> str list \<Rightarrow> bool" where
  "request_walk env st request root_spec ctx words \<longleftrightarrow>
     (let buffer = completion_buffer (rq_buffer request) (rq_cursor request); (typed, space) = tokenize buffer;
          tokens = expanded_tokens request typed space
      in tokens \<noteq> [] \<and>
         (if length tokens = 1 \<and> \<not> space then single_slash_token_spec env (hd tokens) else root_spec_for_command env st request (hd tokens)) = Some root_spec \<and>
         resolve_context (ce_walk env) root_spec tokens space (if space then [] else last tokens) (if space then [] else current_token_raw buffer) = Some (ctx, words))"

text \<open>A place of the pinned tree that a context may name: the root is public under the first word, the
  finished words name nodes written in its file down to one with the names of the current node, no loaded
  spec has been entered, and at the caret a subcommand or an option may stand. Before a positional value
  that is only right after the command, and after a dash; for the name of an option only after a dash.\<close>

definition public_place :: "(str \<Rightarrow> spec \<Rightarrow> bool) \<Rightarrow> public_ai_context \<Rightarrow> spec \<Rightarrow> completion_context \<Rightarrow> bool" where
  "public_place is_root pub root_spec ctx \<longleftrightarrow>
     (let words = px_command_path pub; dash = (cc_options_allowed ctx \<and> starts_with_char (px_token_prefix pub) c_dash)
      in is_root (hd words) root_spec \<and> hd words \<in> set (sp_names root_spec) \<and> written_here root_spec \<and>
         (\<exists>node. literal_path root_spec (tl words) node \<and> sp_names node = sp_names (cc_spec ctx)) \<and> written_here (cc_spec ctx) \<and>
         \<not> cc_crossed_loaded_spec ctx \<and> \<not> cc_end_of_options ctx \<and> (cc_subcommands_allowed ctx \<or> cc_options_allowed ctx) \<and>
         (case cc_active_arg ctx of
            None \<Rightarrow> True
          | Some active \<Rightarrow> \<not> aa_only_suggest_args active \<and>
              (case aa_source active of OptionValue \<Rightarrow> False | OptionName \<Rightarrow> dash | PositionalValue \<Rightarrow> length words = 1 \<or> dash)))"

text \<open>A name of a subcommand or an option written in the current node, or of a persistent option in scope.\<close>

definition written_name :: "completion_context \<Rightarrow> str \<Rightarrow> bool" where
  "written_name ctx name \<longleftrightarrow>
     (\<exists>sub \<in> set (sp_subcommands (cc_spec ctx)). name \<in> set (sp_names sub) \<and> written_here sub) \<or>
     (\<exists>opt \<in> set (sp_options (cc_spec ctx)) \<union> set (cc_persistent_options ctx).
        let meta = of_meta (op_fields opt)
        in name \<in> set (op_names opt) \<and> \<not> (sm_ai_resolved_reference meta \<or> sm_ai_generated meta) \<and> op_load_spec opt = None)"

lemma static_name_written: "static_name ctx name \<Longrightarrow> written_name ctx name"
  by (auto simp: static_name_def written_name_def static_path_node_written static_option_def Let_def)

lemma public_context_place:
  assumes "public_context is_root request root_spec (cc_spec ctx) words (completion_query_state ctx (only_suggest_args ctx)) = Some pub"
  shows "plain_line request pub \<and> words = typed_words (rq_buffer request) \<and> public_place is_root pub root_spec ctx"
proof -
  note facts = public_context_sound [OF assms]
  then have "position_eligible (completion_query_state ctx (only_suggest_args ctx)) (length (px_command_path pub)) (px_token_prefix pub)" by blast
  then have "\<not> cc_end_of_options ctx \<and> (cc_subcommands_allowed ctx \<or> cc_options_allowed ctx) \<and>
      (case cc_active_arg ctx of
            None \<Rightarrow> True
          | Some active \<Rightarrow> \<not> aa_only_suggest_args active \<and>
              (case aa_source active of OptionValue \<Rightarrow> False
               | OptionName \<Rightarrow> cc_options_allowed ctx \<and> starts_with_char (px_token_prefix pub) c_dash
               | PositionalValue \<Rightarrow> length (px_command_path pub) = 1 \<or> cc_options_allowed ctx \<and> starts_with_char (px_token_prefix pub) c_dash))"
    by (cases "cc_active_arg ctx") (auto simp: position_eligible_def completion_query_state_def only_suggest_args_def Let_def split: active_arg_source.splits)
  with facts show ?thesis by (simp add: public_place_def Let_def completion_query_state_def)
qed

text \<open>What is published before the passes that follow: the context, if there is one, is a place the walk of
  the request has led to, and the marked names are written there.\<close>

definition publishes_place :: "complete_env \<Rightarrow> settings \<Rightarrow> complete_request \<Rightarrow> public_ai_context \<Rightarrow> suggestion set \<Rightarrow> bool" where
  "publishes_place env st request pub public_rows \<longleftrightarrow>
     plain_line request pub \<and>
     (\<exists>root_spec ctx. request_walk env st request root_spec ctx (typed_words (rq_buffer request)) \<and>
        public_place (ce_is_public_ai_root env) pub root_spec ctx \<and> (\<forall>s \<in> public_rows. written_name ctx (sg_name s)))"

lemma context_result_place:
  fixes env st request root_spec ctx words space raw_term normalized_term
  defines "result \<equiv> context_result env st request root_spec ctx words space raw_term normalized_term"
  assumes "generators_unmarked env" "cr_public_ai_context result = Some pub" "request_walk env st request root_spec ctx words"
  shows "publishes_place env st request pub {s \<in> set (cr_suggestions result). marked s}"
proof -
  let ?collected = "collected_result env st request root_spec ctx words space raw_term normalized_term"
  have "marks_closed ?collected" unfolding marks_closed_def using collected_marked [OF assms(2)] by blast
  from validate_facts(2) [OF this] assms(3) have "cr_public_ai_context ?collected = Some pub"
    unfolding result_def context_result_def by blast
  then have "public_context (ce_is_public_ai_root env) request root_spec (cc_spec ctx) words
      (completion_query_state ctx (only_suggest_args ctx)) = Some pub"
    by (auto simp: collected_result_def Let_def split: option.splits)
  moreover have "written_name ctx (sg_name s)" if "s \<in> {s \<in> set (cr_suggestions result). marked s}" for s
    using that context_result_marked(2) [OF assms(2)] static_name_written unfolding result_def by blast
  ultimately show ?thesis using public_context_place assms(4) unfolding publishes_place_def by blast
qed

lemma first_token_unmarked:
  assumes "first_token_result env st now later request raw_term needle cache = (result, cache')"
  shows "s \<in> set (cr_suggestions result) \<Longrightarrow> \<not> marked s"
proof
  assume s: "s \<in> set (cr_suggestions result)" "marked s"
  define names where "names = fst (first_token_command_names env now later needle request cache)"
  have "cr_suggestions result = [] \<or> cr_suggestions result =
      add_exact_auto_execute needle (st_hide_auto_execute st) (st_only_show_on_tab st) (st_run_dangerous st)
        (map (\<lambda>name. with_insert_value name (suggestion_new name [] (lit ''arg''))) names)"
    using assms by (auto simp: names_def first_token_result_def result_default_def Let_def split: if_splits prod.splits)
  with s have "s \<in> set (map (\<lambda>name. with_insert_value name (suggestion_new name [] (lit ''arg''))) names)"
    by (metis add_rows_marked(3) empty_iff empty_set)
  with s(2) show False by (auto simp: with_insert_value_def)
qed

lemma complete_place:
  assumes "generators_unmarked env" "complete_with_settings env st now later request cache = Some (result, cache')"
  shows "marks_closed result \<and>
    (\<forall>pub. cr_public_ai_context result = Some pub \<longrightarrow> publishes_place env st request pub {s \<in> set (cr_suggestions result). marked s})"
proof -
  obtain typed space where tok: "tokenize (completion_buffer (rq_buffer request) (rq_cursor request)) = (typed, space)"
    by fastforce
  let ?tokens = "expanded_tokens request typed space"
  let ?raw = "if space then [] else current_token_raw (completion_buffer (rq_buffer request) (rq_cursor request))"
  let ?needle = "if space then [] else last ?tokens"
  have first: "cr_public_ai_context r = None" if "first_token_result env st now later request raw_term needle cache = (r, c)" for raw_term needle r c
    using that by (auto simp: first_token_result_def result_default_def Let_def split: if_splits prod.splits)
  consider (rows) raw_term needle where "first_token_result env st now later request raw_term needle cache = (result, cache')"
    | (empty) "cr_suggestions result = []" "cr_public_ai_context result = None"
    | (walk) root_spec ctx words where "request_walk env st request root_spec ctx words"
        "result = context_result env st request root_spec ctx words space ?raw ?needle"
  proof (cases "?tokens = []")
    case True
    then show thesis using assms(2) that(1,2) by (auto simp: complete_with_settings_def tok result_default_def Let_def split: if_splits)
  next
    case False
    then have run: "complete_command env st now later request cache ?tokens space (completion_buffer (rq_buffer request) (rq_cursor request)) = Some (result, cache')"
      using assms(2) by (simp add: complete_with_settings_def tok Let_def)
    let ?root = "if length ?tokens = 1 \<and> \<not> space then single_slash_token_spec env (hd ?tokens) else root_spec_for_command env st request (hd ?tokens)"
    consider "result = result_default\<lparr>cr_fuzzy := rq_fuzzy request, cr_search_term := ?raw, cr_match_term := ?needle\<rparr>"
      | "first_token_result env st now later request ?raw ?needle cache = (result, cache')"
      | root_spec ctx words where "?root = Some root_spec" "resolve_context (ce_walk env) root_spec ?tokens space ?needle ?raw = Some (ctx, words)"
          "result = context_result env st request root_spec ctx words space ?raw ?needle"
      using run unfolding complete_command_def Let_def by (auto split: if_split_asm option.split_asm)
    then show thesis
    proof cases
      case 3
      then have "request_walk env st request root_spec ctx words" using False by (simp add: request_walk_def tok Let_def)
      then show thesis using 3(3) that(3) by blast
    qed (use that(1,2) in \<open>auto simp: result_default_def\<close>)
  qed
  then show ?thesis
  proof cases
    case rows
    with first_token_unmarked [OF rows] first [OF rows] show ?thesis by (auto simp: marks_closed_def)
  next
    case empty
    then show ?thesis by (auto simp: marks_closed_def)
  next
    case walk
    then show ?thesis using context_result_marked(1) [OF assms(1)] context_result_place [OF assms(1)] by blast
  qed
qed

lemma merged_closed:
  "marks_closed result \<Longrightarrow> marks_closed (merge_history_with_prefix lc tokens buffer_prefix fr fuzzy result)"
  unfolding marks_closed_def using merged_marked by fastforce

lemma publish_facts:
  assumes "marks_closed result"
  shows "let final = publish env st data request buffer tokens space result in
    marks_closed final \<and>
    (\<forall>ctx. cr_public_ai_context final = Some ctx \<longrightarrow>
       cr_public_ai_context result = Some ctx \<and>
       2 \<le> length (filter marked (cr_suggestions final)) \<and> length (filter marked (cr_suggestions final)) \<le> MAX_CANDIDATES \<and>
       unique_marks (cr_suggestions final) \<and>
       (\<forall>s \<in> set (cr_suggestions final). marked s \<longrightarrow> safe_public_row ctx s \<and> s \<in> set (cr_suggestions result)))"
proof -
  let ?lc = "ce_lowercase (ee_complete env)"
  define merged where "merged = (if should_merge_history (rq_include_history request) (es_history_disable_loading st)
      then merge_history_with_prefix ?lc tokens (history_prefix_from_buffer buffer space tokens)
             (ed_frecency data) (cr_fuzzy result) result else result)"
  define checked where "checked = validate_provenance merged"
  define ranked where "ranked = apply_with_acceptance (ee_round env) ?lc tokens
      (if es_history_disable_loading st then frecency_default else ed_frecency data) (ed_acceptance data)
      (ranking_root_command (rq_buffer request) (rq_cursor request)) (es_sort_method st = lit ''alphabetical'') checked"
  have final: "publish env st data request buffer tokens space result = finalize_ranked_candidates ranked"
    by (simp add: publish_def ranked_def checked_def merged_def Let_def)
  have merged: "marks_closed merged" "s \<in> set (cr_suggestions merged) \<Longrightarrow> marked s \<Longrightarrow> s \<in> set (cr_suggestions result)" for s
    using assms unfolding merged_def by (simp_all add: merged_closed split: if_splits) (blast dest: merged_marked)
  have same: "cr_public_ai_context merged = cr_public_ai_context result" by (simp add: merged_def)
  have checked: "marks_closed checked"
    "cr_public_ai_context checked = Some ctx \<Longrightarrow> unique_marks (cr_suggestions checked) \<and> cr_public_ai_context result = Some ctx" for ctx
    using validate_facts [OF merged(1)] unfolding checked_def same by blast+
  have ranked: "marks_closed ranked" "set (cr_suggestions ranked) \<subseteq> set (cr_suggestions checked)"
    "cr_public_ai_context ranked = cr_public_ai_context checked" 
    "unique_marks (cr_suggestions checked) \<Longrightarrow> unique_marks (cr_suggestions ranked)"
    using checked(1) ranked_subset(1) ranked_unique_marks by (fastforce simp: ranked_def marks_closed_def)+
  have origin: "s \<in> set (cr_suggestions result)" if "s \<in> set (cr_suggestions (finalize_ranked_candidates ranked))" "marked s" for s
  proof -
    from finalize_marked [OF that] ranked(2) have "s \<in> set (cr_suggestions checked)" by blast
    then have "s \<in> set (cr_suggestions merged)" unfolding checked_def using that(2) by (rule validate_marked)
    with merged(2) that(2) show ?thesis by blast
  qed
  from finalize_facts [OF ranked(1)] checked(2) ranked(3,4) origin show ?thesis
    unfolding final Let_def by (metis (no_types, lifting))
qed

lemma distinct_marked: "unique_marks rows \<Longrightarrow> distinct (filter marked rows)"
proof -
  have "distinct (filter marked xs)" if "\<forall>s \<in> set xs. marked s \<longrightarrow> length (filter (\<lambda>r. sg_name r = sg_name s) xs) \<le> 1" for xs
    using that
  proof (induction xs)
    case (Cons x xs)
    have "s \<in> set xs \<Longrightarrow> marked s \<Longrightarrow> length (filter (\<lambda>r. sg_name r = sg_name s) xs) \<le> 1" for s
      using Cons.prems by (auto split: if_splits)
    moreover have "x \<notin> set xs" if "marked x" using Cons.prems that by (auto simp: filter_empty_conv)
    ultimately show ?case using Cons.IH by auto
  qed simp
  then show "unique_marks rows \<Longrightarrow> distinct (filter marked rows)" by (simp add: unique_marks_def)
qed

text \<open>What a published row shows: its own name, which it inserts, of letters, digits, dashes and underscores.\<close>

definition public_row_ok :: "public_ai_context \<Rightarrow> suggestion \<Rightarrow> bool" where
  "public_row_ok pub s \<longleftrightarrow>
     \<not> sg_hidden s \<and> \<not> sg_is_dangerous s \<and> sg_kind s \<in> {lit ''cmd'', lit ''subcommand'', lit ''option''} \<and> sg_query_term s = None \<and>
     sg_insert_value s \<in> {None, Some (sg_name s)} \<and> starts_with (sg_name s) (px_token_prefix pub) \<and> sg_name s \<noteq> [] \<and> str_len (sg_name s) \<le> 128 \<and>
     (\<forall>c \<in> set (sg_name s). is_ascii_alphanumeric c \<or> c \<in> {c_dash, c_under}) \<and>
     (\<exists>candidate. sg_public_ai_candidate s = Some candidate \<and> pc_name candidate = sg_name s \<and> str_len (pc_description candidate) \<le> 256 \<and>
        (\<forall>c \<in> set (pc_description candidate). \<not> is_control c))"

lemma safe_public_row_ok: "safe_public_row pub s \<Longrightarrow> public_row_ok pub s"
  by (auto simp: safe_public_row_def public_row_ok_def word_byte_def list_all_iff list_ex_iff MAX_NAME_BYTES_def MAX_DESCRIPTION_BYTES_def split: option.splits)

text \<open>
  Property C20. What the engine publishes about a command line, over the whole path from the request to
  the ranked rows, for any hooks, registry and history, and generators that mark no row: without a
  context no row is marked; with one the line is the plain words of the context, typed up to its end, and
  the walk of this request along these words has led from a public root, under the first of them, down
  to a node that the finished words name in the file of the root, with no loaded or generated spec on the
  way, where a subcommand or an option may stand. There are then between 2 and 20 marked rows, and each
  has a name written in that node or in the scope of its persistent options, carried by no other row,
  neither from a generator nor from the history; it starts with the word under the caret, is made of
  letters, digits, dashes and underscores, is what the row inserts, and the row is neither hidden nor
  dangerous.
\<close>

theorem engine_publishes_pinned_names:
  assumes "generators_unmarked (ee_complete env)"
    and "complete_with_thread_session env st ck now later request data = Some (Inr result, data')"
  defines "public_rows \<equiv> {s \<in> set (cr_suggestions result). marked s}"
  shows "case cr_public_ai_context result of
      None \<Rightarrow> public_rows = {}
    | Some pub \<Rightarrow>
        plain_line request pub \<and>
        (\<exists>root_spec ctx. request_walk (ee_complete env) (es_lookup st) request root_spec ctx (typed_words (rq_buffer request)) \<and>
           public_place (ce_is_public_ai_root (ee_complete env)) pub root_spec ctx \<and> (\<forall>s \<in> public_rows. written_name ctx (sg_name s))) \<and>
        2 \<le> card public_rows \<and> card public_rows \<le> 20 \<and>
        (\<forall>s \<in> public_rows. public_row_ok pub s \<and> length (filter (\<lambda>r. sg_name r = sg_name s) (cr_suggestions result)) = 1)"
proof (cases "rq_history_only request")
  case True
  have row: "\<not> marked (history_row counts line)" for counts line
    by (simp add: history_row_def with_insert_value_def with_priority_def)
  from True assms(2) have "cr_public_ai_context result = None" "\<forall>s \<in> set (cr_suggestions result). \<not> marked s"
    by (auto simp: complete_with_thread_session_def history_only_result_def history_suffix_suggestions_def
        history_suggestions_def result_default_def row Let_def split: prod.splits if_splits option.splits)
  then show ?thesis by (auto simp: public_rows_def)
next
  case False
  obtain tokens space where tok: "tokenize (completion_buffer (rq_buffer request) (rq_cursor request)) = (tokens, space)"
    by fastforce
  obtain data0 collected listing where ended: "complete_with_settings (ee_complete env) (es_lookup st) now later request
      (ed_listing data0) = Some (collected, listing)"
    and result: "result = publish env st (data0\<lparr>ed_listing := listing\<rparr>) request
      (completion_buffer (rq_buffer request) (rq_cursor request)) tokens space collected"
    using assms(2) False by (auto simp: complete_with_thread_session_def tok Let_def split: if_splits)
  note place = complete_place [OF assms(1) ended]
  note facts = publish_facts [OF conjunct1 [OF place], of env st "data0\<lparr>ed_listing := listing\<rparr>" request
      "completion_buffer (rq_buffer request) (rq_cursor request)" tokens space, folded result, unfolded Let_def]
  show ?thesis
  proof (cases "cr_public_ai_context result")
    case None
    then show ?thesis using facts by (auto simp: public_rows_def marks_closed_def)
  next
    case (Some pub)
    with facts have count: "2 \<le> length (filter marked (cr_suggestions result))" "length (filter marked (cr_suggestions result)) \<le> 20"
        "unique_marks (cr_suggestions result)" and origin: "cr_public_ai_context collected = Some pub"
      and rows: "\<And>s. s \<in> public_rows \<Longrightarrow> safe_public_row pub s \<and> s \<in> set (cr_suggestions collected)"
      by (auto simp: public_rows_def MAX_CANDIDATES_def)
    have "card public_rows = length (filter marked (cr_suggestions result))"
      using distinct_marked [OF count(3)] by (simp add: public_rows_def distinct_card [symmetric])
    moreover have "publishes_place (ee_complete env) (es_lookup st) request pub public_rows"
    proof -
      from place origin have "publishes_place (ee_complete env) (es_lookup st) request pub {s \<in> set (cr_suggestions collected). marked s}" by blast
      moreover have "public_rows \<subseteq> {s \<in> set (cr_suggestions collected). marked s}" using rows by (auto simp: public_rows_def)
      ultimately show ?thesis unfolding publishes_place_def by blast
    qed
    moreover have "public_row_ok pub s \<and> length (filter (\<lambda>r. sg_name r = sg_name s) (cr_suggestions result)) = 1" if "s \<in> public_rows" for s
      using that rows [OF that] count(3) safe_public_row_ok by (auto simp: public_rows_def unique_marks_def)
    ultimately show ?thesis using Some count(1,2) unfolding publishes_place_def by simp
  qed
qed

text \<open>A request that is not cancelled is answered, as long as no spec puts an alias on an argument.\<close>

lemma complete_returns:
  assumes "env_no_alias (ce_walk env)"
    and "\<forall>name spec. ce_get_arc env name = Some spec \<longrightarrow> no_alias spec"
    and "\<forall>command spec. root_spec_for_command env st request command = Some spec \<longrightarrow> no_alias spec"
  shows "complete_with_settings env st now later request cache \<noteq> None"
  using complete_command_returns [OF assms] by (simp add: complete_with_settings_def Let_def split: prod.split)

lemma fuzzy_for_tokens_returns:
  assumes "env_no_alias (ce_walk env)" "\<forall>name spec. ce_get_arc env name = Some spec \<longrightarrow> no_alias spec"
  shows "effective_fuzzy_for_tokens env fuzzy tokens space query raw_query \<noteq> None"
proof (cases tokens)
  case (Cons command rest)
  show ?thesis
  proof (cases "ce_get_arc env command")
    case (Some spec)
    with assms(2) have "no_alias spec" by blast
    from resolve_context_returns [OF assms(1) this, of tokens space query raw_query] Cons Some show ?thesis
      by (auto simp: effective_fuzzy_for_tokens_def)
  qed (simp add: Cons effective_fuzzy_for_tokens_def)
qed (simp add: effective_fuzzy_for_tokens_def)

lemma thread_session_returns:
  assumes "env_no_alias (ce_walk (ee_complete env))"
    and "\<forall>name spec. ce_get_arc (ee_complete env) name = Some spec \<longrightarrow> no_alias spec"
    and "\<forall>command spec. root_spec_for_command (ee_complete env) (es_lookup st) request command = Some spec \<longrightarrow> no_alias spec"
    and "\<not> ck_loaded ck" "\<not> ck_completed ck"
  shows "\<exists>result data'. complete_with_thread_session env st ck now later request data = Some (Inr result, data')"
proof -
  obtain tokens space where tok: "tokenize (completion_buffer (rq_buffer request) (rq_cursor request)) = (tokens, space)"
    by fastforce
  have "history_only_result env disabled fr request buffer tokens space \<noteq> None" for disabled fr buffer
    using fuzzy_for_tokens_returns [OF assms(1,2)] by (simp add: history_only_result_def Let_def)
  moreover have "complete_with_settings (ee_complete env) (es_lookup st) now later request cache \<noteq> None" for cache
    by (rule complete_returns [OF assms(1-3)])
  ultimately show ?thesis using assms(4,5) by (fastforce simp: complete_with_thread_session_def tok Let_def)
qed

definition plain_engine_env :: engine_env where
  "plain_engine_env =
     \<lparr>ee_complete = plain_env, ee_history = \<lparr>hs_execute = (\<lambda>_ _ _. None), hs_rows = (\<lambda>_. [])\<rparr>, ee_round = id\<rparr>"

definition plain_engine_settings :: engine_settings where
  "plain_engine_settings =
     \<lparr>es_lookup = plain_settings, es_history_disable_loading = False, es_history_custom_command = [],
      es_history_all_shells = False, es_sort_method = lit ''default''\<rparr>"

definition plain_data :: engine_data where
  "plain_data = \<lparr>ed_frecency = frecency_default, ed_frecency_loaded = False, ed_history_source = None,
     ed_acceptance = no_acceptance, ed_listing = None\<rparr>"

definition public_request :: complete_request where
  "public_request = request_default\<lparr>rq_buffer := lit ''tool '', rq_include_public_ai := True\<rparr>"

text \<open>A context is granted: after the command of a pinned spec and a space.\<close>

lemma context_is_granted:
  "public_context (\<lambda>_ _. True) public_request (sample_spec [sample_option [''--all''] []] []) (sample_spec [sample_option [''--all''] []] []) [lit ''tool'']
     \<lparr>qs_subcommands_allowed = True, qs_options_allowed = True, qs_end_of_options = False, qs_active_arg_source = None,
      qs_active_arg_only_suggest_args = False, qs_crossed_loaded_spec = False\<rparr> =
   Some \<lparr>px_command_path = [lit ''tool''], px_token_prefix = []\<rparr>"
  by code_simp

theorem engine_publishes_pinned_names_witness:
  "\<exists>result data'.
     complete_with_thread_session plain_engine_env plain_engine_settings
       \<lparr>ck_loading = False, ck_loaded = False, ck_completed = False\<rparr> 0 0 public_request plain_data = Some (Inr result, data') \<and>
     (case cr_public_ai_context result of
        None \<Rightarrow> {s \<in> set (cr_suggestions result). marked s} = {}
      | Some pub \<Rightarrow> plain_line public_request pub \<and>
          (\<exists>root_spec ctx. request_walk (ee_complete plain_engine_env) (es_lookup plain_engine_settings) public_request root_spec ctx (typed_words (rq_buffer public_request)) \<and>
             public_place (ce_is_public_ai_root (ee_complete plain_engine_env)) pub root_spec ctx \<and>
             (\<forall>s \<in> {s \<in> set (cr_suggestions result). marked s}. written_name ctx (sg_name s))))"
proof -
  let ?ck = "\<lparr>ck_loading = False, ck_loaded = False, ck_completed = False\<rparr>"
  have unmarked: "generators_unmarked (ee_complete plain_engine_env)"
    by (simp add: generators_unmarked_def plain_engine_env_def plain_env_def)
  have "\<exists>result data'. complete_with_thread_session plain_engine_env plain_engine_settings ?ck 0 0 public_request plain_data =
      Some (Inr result, data')"
    by (intro thread_session_returns allI impI)
      (auto simp: plain_engine_env_def plain_engine_settings_def plain_env_facts(1) intro: plain_env_facts(2,3))
  then obtain result data' where run: "complete_with_thread_session plain_engine_env plain_engine_settings ?ck 0 0
      public_request plain_data = Some (Inr result, data')" by blast
  from engine_publishes_pinned_names [OF unmarked run] run show ?thesis
    by (cases "cr_public_ai_context result") auto
qed

end
