(* ===== verification/Registry.thy ===== *)
theory Registry
  imports Query Spec_IR "HOL-Library.AList"
begin

text \<open>
  The spec registry (\<open>ir.rs\<close>, \<open>Registry\<close>, lines 983--1912): parsed specs by command name with a bounded
  least-recently-used list, files entered through \<open>loadSpec\<close> and version files, overlays that are
  never evicted, the clocks of idle files, and the sorted list of command names.

  An \<open>Arc<Spec>\<close> is its address with the spec; \<open>Arc::ptr_eq\<close> compares addresses, and a new one has a
  fresh address. Reading and parsing a file is a parameter. Interning of options and shrinking of
  buffers do not change what a spec says and are left out. Times are in milliseconds.
\<close>

section \<open>State\<close>

text \<open>A relative path by its components, which is what \<open>PathBuf\<close> compares.\<close>

type_synonym path = "str list"

record arc =
  arc_ptr :: nat
  arc_spec :: spec

abbreviation ptr_eq :: "arc \<Rightarrow> arc \<Rightarrow> bool" where "ptr_eq a b \<equiv> arc_ptr a = arc_ptr b"

record registry =
  rg_specs :: "(str \<times> arc) list"
  rg_files :: "(str \<times> path) list"
  rg_has_command_file_map :: bool
  rg_names :: "str list"
  rg_loaded :: "arc list"
  rg_pinned :: "arc list"
  rg_path_specs :: "(path \<times> arc) list"
  rg_load_spec_cache :: "(path \<times> arc) list"
  rg_idle_since :: "(path \<times> nat option) list"
  rg_suppress_idle_touch :: bool
  rg_idle_touched :: "path list"
  rg_next_ptr :: nat

datatype overlay_mode = Replace | FillMissing

definition MAX_CACHED_SPECS :: nat where "MAX_CACHED_SPECS = 48"
definition MAX_NAME_MATCHES :: nat where "MAX_NAME_MATCHES = 50"

definition registry_new :: registry where
  "registry_new =
     \<lparr>rg_specs = [], rg_files = [], rg_has_command_file_map = False, rg_names = [], rg_loaded = [], rg_pinned = [],
      rg_path_specs = [], rg_load_spec_cache = [], rg_idle_since = [], rg_suppress_idle_touch = False,
      rg_idle_touched = [], rg_next_ptr = 0\<rparr>"

definition arc_new :: "spec \<Rightarrow> registry \<Rightarrow> arc \<times> registry" where
  "arc_new spec reg = (\<lparr>arc_ptr = rg_next_ptr reg, arc_spec = spec\<rparr>, reg\<lparr>rg_next_ptr := Suc (rg_next_ptr reg)\<rparr>)"

section \<open>Names\<close>

text \<open>\<open>partition_point\<close> of the names that sort before the given one: on a sorted list, the length of the
  longest such prefix.\<close>

definition name_position :: "str list \<Rightarrow> str \<Rightarrow> nat" where
  "name_position names name = length (takeWhile (\<lambda>existing. cmp_ignore_ascii_case existing name = Less) names)"

definition remember_name :: "str \<Rightarrow> registry \<Rightarrow> registry" where
  "remember_name name reg =
     (let names = rg_names reg; idx = name_position names name
      in if name = [] then reg
         else if idx < length names \<and> eq_ignore_ascii_case (names ! idx) name then reg
         else reg\<lparr>rg_names := take idx names @ name # drop idx names\<rparr>)"

definition remember_file :: "str \<Rightarrow> path \<Rightarrow> registry \<Rightarrow> registry" where
  "remember_file name path reg =
     (case map_of (rg_files reg) name of
        Some _ \<Rightarrow> reg
      | None \<Rightarrow> remember_name name (reg\<lparr>rg_files := rg_files reg @ [(name, path)]\<rparr>))"

definition rebuild_names :: "registry \<Rightarrow> registry" where
  "rebuild_names reg =
     reg\<lparr>rg_names := dedup_by eq_ignore_ascii_case (sort_by cmp_ignore_ascii_case
       (map fst (rg_files reg) @
        filter (\<lambda>name. name \<noteq> []) (concat (map (\<lambda>arc. sp_names (arc_spec arc)) (rg_pinned reg)))))\<rparr>"

text \<open>The heap of the fuzzy branch: at most \<open>MAX_NAME_MATCHES\<close> names, the greatest dropped first.\<close>

definition pop_greatest :: "str list \<Rightarrow> str list" where
  "pop_greatest heap =
     remove1 (fold (\<lambda>x best. if cmp_ignore_ascii_case best x = Less then x else best) (tl heap) (hd heap)) heap"

definition heap_push :: "str list \<Rightarrow> str \<Rightarrow> str list" where
  "heap_push heap name =
     (let heap' = name # heap in if length heap' > MAX_NAME_MATCHES then pop_greatest heap' else heap')"

fun prefix_scan :: "(str \<Rightarrow> str) \<Rightarrow> str \<Rightarrow> nat \<Rightarrow> str list \<Rightarrow> str list" where
  "prefix_scan lc query n [] = []"
| "prefix_scan lc query n (name # names) =
     (if \<not> starts_with_ignore_case lc name query then []
      else if eq_ignore_ascii_case name query then prefix_scan lc query n names
      else if n + 1 \<ge> MAX_NAME_MATCHES then [name]
      else name # prefix_scan lc query (n + 1) names)"

definition command_names_matching_with :: "(str \<Rightarrow> str) \<Rightarrow> registry \<Rightarrow> str \<Rightarrow> bool \<Rightarrow> str list" where
  "command_names_matching_with lc reg query fuzzy =
     (let names = rg_names reg
      in if query = [] then take MAX_NAME_MATCHES names
         else if fuzzy
         then sort_by cmp_ignore_ascii_case
                (fold (\<lambda>name heap. if eq_ignore_ascii_case name query \<or> \<not> matches_query lc name query True then heap
                                    else heap_push heap name) names [])
         else prefix_scan lc query 0 (drop (name_position names query) names))"

definition command_names_matching_including_exact_with :: "(str \<Rightarrow> str) \<Rightarrow> registry \<Rightarrow> str \<Rightarrow> bool \<Rightarrow> str list" where
  "command_names_matching_including_exact_with lc reg query fuzzy =
     (let matches = command_names_matching_with lc reg query fuzzy
      in if query = [] then matches
         else case find (\<lambda>name. eq_ignore_ascii_case name query) (rg_names reg) of
           Some name \<Rightarrow> name # matches
         | None \<Rightarrow> matches)"

section \<open>The cache of parsed specs\<close>

definition is_pinned :: "registry \<Rightarrow> arc \<Rightarrow> bool" where
  "is_pinned reg arc \<longleftrightarrow> list_ex (\<lambda>pinned. ptr_eq pinned arc) (rg_pinned reg)"

definition is_pinned_name :: "registry \<Rightarrow> str \<Rightarrow> bool" where
  "is_pinned_name reg name \<longleftrightarrow>
     (case map_of (rg_specs reg) name of Some current \<Rightarrow> is_pinned reg current | None \<Rightarrow> False)"

definition claims_name :: "registry \<Rightarrow> path option \<Rightarrow> str \<Rightarrow> bool" where
  "claims_name reg path name \<longleftrightarrow>
     name \<noteq> [] \<and> \<not> is_pinned_name reg name \<and>
     (case path of
        None \<Rightarrow> True
      | Some p \<Rightarrow>
          (case map_of (rg_files reg) name of
             None \<Rightarrow> \<not> rg_has_command_file_map reg
           | Some existing \<Rightarrow> existing = p))"

definition insert_loaded :: "spec \<Rightarrow> path option \<Rightarrow> registry \<Rightarrow> registry" where
  "insert_loaded spec path reg0 =
     (let (arc, reg1) = arc_new spec reg0;
          reg2 = fold (\<lambda>name reg. if claims_name reg path name
                                   then remember_name name (reg\<lparr>rg_specs := AList.update name arc (rg_specs reg)\<rparr>)
                                   else reg) (sp_names spec) reg1
      in reg2\<lparr>rg_loaded := rg_loaded reg2 @ [arc]\<rparr>)"

definition touch_loaded :: "arc \<Rightarrow> registry \<Rightarrow> registry" where
  "touch_loaded arc reg =
     (case find (\<lambda>cached. ptr_eq cached arc) (rg_loaded reg) of
        None \<Rightarrow> reg
      | Some cached \<Rightarrow> reg\<lparr>rg_loaded := remove1 cached (rg_loaded reg) @ [cached]\<rparr>)"

record unlinked_spec =
  us_lru_slot :: bool
  us_path_specs :: bool

definition drop_arc :: "arc \<Rightarrow> ('k \<times> arc) list \<Rightarrow> ('k \<times> arc) list" where
  "drop_arc old entries = filter (\<lambda>(_, cached). \<not> ptr_eq cached old) entries"

definition unlink_cached_arc :: "arc \<Rightarrow> registry \<Rightarrow> unlinked_spec \<times> registry" where
  "unlink_cached_arc old reg =
     (let specs = drop_arc old (rg_specs reg); load = drop_arc old (rg_load_spec_cache reg);
          paths = drop_arc old (rg_path_specs reg)
      in (\<lparr>us_lru_slot = (length specs < length (rg_specs reg) \<or> length load < length (rg_load_spec_cache reg)),
           us_path_specs = (length paths < length (rg_path_specs reg))\<rparr>,
          reg\<lparr>rg_specs := specs, rg_load_spec_cache := load, rg_path_specs := paths,
              rg_loaded := filter (\<lambda>cached. \<not> ptr_eq cached old) (rg_loaded reg)\<rparr>))"

definition releasable_arcs_for_path :: "registry \<Rightarrow> path \<Rightarrow> arc list" where
  "releasable_arcs_for_path reg path =
     filter (\<lambda>arc. \<not> is_pinned reg arc)
       ((case map_of (rg_load_spec_cache reg) path of Some arc \<Rightarrow> [arc] | None \<Rightarrow> []) @
        (case map_of (rg_path_specs reg) path of Some arc \<Rightarrow> [arc] | None \<Rightarrow> []) @
        filter_map (\<lambda>(name, arc). if map_of (rg_files reg) name = Some path then Some arc else None) (rg_specs reg))"

definition forget_unowned_idle_paths :: "registry \<Rightarrow> registry" where
  "forget_unowned_idle_paths reg =
     reg\<lparr>rg_idle_since := filter (\<lambda>(path, _). releasable_arcs_for_path reg path \<noteq> []) (rg_idle_since reg)\<rparr>"

text \<open>Each round of the loop takes one spec off the list.\<close>

lemma unlink_shorter: "length (rg_loaded (snd (unlink_cached_arc old reg))) \<le> length (rg_loaded reg)"
  by (simp add: unlink_cached_arc_def Let_def)

function evict_oldest_spec :: "registry \<Rightarrow> registry" where
  "evict_oldest_spec reg =
     (case rg_loaded reg of
        [] \<Rightarrow> reg
      | old # rest \<Rightarrow>
          (let (unlinked, reg1) = unlink_cached_arc old (reg\<lparr>rg_loaded := rest\<rparr>);
               reg2 = forget_unowned_idle_paths reg1
           in if us_lru_slot unlinked then reg2 else evict_oldest_spec reg2))"
  by pat_completeness auto
termination
proof (relation "measure (\<lambda>reg. length (rg_loaded reg))", goal_cases)
  case (2 reg old rest p unlinked reg1 reg2)
  have "rg_loaded reg2 = rg_loaded reg1" using 2(4) by (simp add: forget_unowned_idle_paths_def)
  moreover have "reg1 = snd (unlink_cached_arc old (reg\<lparr>rg_loaded := rest\<rparr>))" using 2(2,3) by (metis snd_conv)
  ultimately show ?case using 2(1) unlink_shorter [of old "reg\<lparr>rg_loaded := rest\<rparr>"] by simp
qed simp

section \<open>Idle files\<close>

definition expired_paths :: "nat \<Rightarrow> nat \<Rightarrow> registry \<Rightarrow> path list" where
  "expired_paths now grace reg =
     filter_map (\<lambda>(path, since). case since of
         Some t \<Rightarrow> (if now - t \<ge> grace then Some path else None) | None \<Rightarrow> None) (rg_idle_since reg)"

definition release_path :: "path \<Rightarrow> registry \<Rightarrow> registry" where
  "release_path path reg =
     (let reg' = fold (\<lambda>arc reg. snd (unlink_cached_arc arc reg)) (releasable_arcs_for_path reg path) reg
      in reg'\<lparr>rg_idle_since := AList.delete path (rg_idle_since reg')\<rparr>)"

definition release_idle :: "nat \<Rightarrow> nat \<Rightarrow> registry \<Rightarrow> registry" where
  "release_idle now grace reg = fold release_path (expired_paths now grace reg) reg"

text \<open>The paths of all cached files, and those of them a release could free.\<close>

definition owned_paths :: "registry \<Rightarrow> path list" where
  "owned_paths reg =
     remdups (map fst (rg_load_spec_cache reg) @ map fst (rg_path_specs reg) @
              filter_map (\<lambda>(name, _). map_of (rg_files reg) name) (rg_specs reg))"

definition cached_file_paths :: "registry \<Rightarrow> path list" where
  "cached_file_paths reg = filter (\<lambda>path. releasable_arcs_for_path reg path \<noteq> []) (owned_paths reg)"

type_synonym idle_checkpoint = "(path \<times> nat option option) list"

definition checkpoint_idle :: "registry \<Rightarrow> idle_checkpoint" where
  "checkpoint_idle reg = map (\<lambda>path. (path, map_of (rg_idle_since reg) path)) (cached_file_paths reg)"

definition restore_mark :: "idle_checkpoint \<Rightarrow> nat \<Rightarrow> path \<Rightarrow> (path \<times> nat option) list \<Rightarrow> (path \<times> nat option) list" where
  "restore_mark checkpoint now path marks =
     (case map_of checkpoint path of
        Some (Some mark) \<Rightarrow> AList.update path mark marks
      | Some None \<Rightarrow> AList.delete path marks
      | None \<Rightarrow> AList.update path (Some now) marks)"

definition restore_idle_checkpoint :: "idle_checkpoint \<Rightarrow> nat \<Rightarrow> registry \<Rightarrow> registry" where
  "restore_idle_checkpoint checkpoint now reg0 =
     (let reg = forget_unowned_idle_paths reg0
      in reg\<lparr>rg_idle_since := fold (restore_mark checkpoint now) (cached_file_paths reg) (rg_idle_since reg),
             rg_idle_touched := []\<rparr>)"

definition begin_idle_completion :: "registry \<Rightarrow> registry" where
  "begin_idle_completion reg = reg\<lparr>rg_idle_touched := []\<rparr>"

definition note_idle_touch_path :: "path \<Rightarrow> registry \<Rightarrow> registry" where
  "note_idle_touch_path path reg =
     (if rg_suppress_idle_touch reg then reg else reg\<lparr>rg_idle_touched := List.insert path (rg_idle_touched reg)\<rparr>)"

definition idle_mark_after :: "registry \<Rightarrow> nat \<Rightarrow> path \<Rightarrow> (path \<times> nat option) list \<Rightarrow> (path \<times> nat option) list" where
  "idle_mark_after reg now path marks =
     (if releasable_arcs_for_path reg path = [] then AList.delete path marks
      else if path \<in> set (rg_idle_touched reg) then AList.update path None marks
      else case map_of marks path of
        Some (Some _) \<Rightarrow> marks
      | _ \<Rightarrow> AList.update path (Some now) marks)"

definition note_idle_after_complete :: "nat \<Rightarrow> registry \<Rightarrow> registry" where
  "note_idle_after_complete now reg0 =
     (let reg = forget_unowned_idle_paths reg0
      in reg\<lparr>rg_idle_since := fold (idle_mark_after reg now) (owned_paths reg0) (rg_idle_since reg),
             rg_idle_touched := []\<rparr>)"

definition idle_deadlines :: "nat \<Rightarrow> registry \<Rightarrow> nat list" where
  "idle_deadlines grace reg =
     filter_map (\<lambda>(path, since). case since of
         Some t \<Rightarrow> (if releasable_arcs_for_path reg path \<noteq> [] then Some (t + grace) else None) | None \<Rightarrow> None)
       (rg_idle_since reg)"

definition next_idle_deadline :: "nat \<Rightarrow> registry \<Rightarrow> nat option" where
  "next_idle_deadline grace reg =
     (case idle_deadlines grace reg of [] \<Rightarrow> None | t # ts \<Rightarrow> Some (fold min ts t))"

section \<open>Loading\<close>

text \<open>\<open>load\<close> is what reading and parsing a file of the tree gives, \<open>None\<close> an error.\<close>

definition make_room :: "registry \<Rightarrow> registry" where
  "make_room reg = (if length (rg_loaded reg) \<ge> MAX_CACHED_SPECS then evict_oldest_spec reg else reg)"

definition with_name :: "str \<Rightarrow> spec \<Rightarrow> spec" where
  "with_name name spec =
     (if name \<in> set (sp_names spec) then spec
      else Spec ((sp_fields spec)\<lparr>sf_names := sp_names spec @ [name]\<rparr>) (sp_subcommands spec) (sp_options spec)
             (sp_persistent_options spec) (sp_args spec) (sp_load_spec spec))"

definition ensure_loaded :: "(path \<Rightarrow> spec option) \<Rightarrow> str \<Rightarrow> registry \<Rightarrow> registry" where
  "ensure_loaded load name reg =
     (case map_of (rg_specs reg) name of
        Some arc \<Rightarrow>
          (let reg' = touch_loaded arc reg
           in if is_pinned_name reg name then reg'
              else case map_of (rg_files reg) name of
                Some path \<Rightarrow> note_idle_touch_path path reg'
              | None \<Rightarrow> reg')
      | None \<Rightarrow>
          (case map_of (rg_files reg) name of
             None \<Rightarrow> reg
           | Some path \<Rightarrow>
               (case load path of
                  None \<Rightarrow> reg
                | Some loaded \<Rightarrow>
                    (let reg1 = make_room reg;
                         spec = with_name name loaded;
                         reg2 = (if rg_has_command_file_map reg1 then reg1
                                 else fold (\<lambda>alias reg. if alias \<noteq> [] then remember_file alias path reg else reg)
                                        (sp_names spec) reg1)
                     in note_idle_touch_path path (insert_loaded spec (Some path) reg2)))))"

definition get_arc :: "(path \<Rightarrow> spec option) \<Rightarrow> str \<Rightarrow> registry \<Rightarrow> arc option \<times> registry" where
  "get_arc load name reg = (let reg' = ensure_loaded load name reg in (map_of (rg_specs reg') name, reg'))"

text \<open>\<open>Path::components\<close> skips empty components and every \<open>.\<close> but a leading one.\<close>

definition safe_relative_path :: "str \<Rightarrow> path option" where
  "safe_relative_path relative =
     (let parts = split_char c_slash relative
      in if starts_with_char relative c_slash \<or> hd parts = [c_dot] \<or> [c_dot, c_dot] \<in> set parts then None
         else Some (filter (\<lambda>part. part \<noteq> [] \<and> part \<noteq> [c_dot]) parts))"

fun trim_start_dot_slash :: "str \<Rightarrow> str" where
  "trim_start_dot_slash (a # b # s) = (if a = c_dot \<and> b = c_slash then trim_start_dot_slash s else a # b # s)"
| "trim_start_dot_slash s = s"

definition trim_reference :: "str \<Rightarrow> str" where
  "trim_reference reference = trim_start_dot_slash (trim reference)"

text \<open>The command a reference belongs to, if any, and its file; a command name wins over a path.\<close>

definition reference_target :: "registry \<Rightarrow> str \<Rightarrow> (str option \<times> path) option" where
  "reference_target reg reference =
     (case map_of (rg_files reg) reference of
        Some path \<Rightarrow> Some (Some reference, path)
      | None \<Rightarrow>
          (case safe_relative_path (if ends_with reference (lit ''.json'') then reference else reference @ lit ''.json'') of
             None \<Rightarrow> None
           | Some path \<Rightarrow> Some (map_option fst (find (\<lambda>(_, p). p = path) (rg_files reg)), path)))"

definition load_into_path_cache :: "(path \<Rightarrow> spec option) \<Rightarrow> path \<Rightarrow> registry \<Rightarrow> arc option \<times> registry" where
  "load_into_path_cache load path reg =
     (case load path of
        None \<Rightarrow> (None, reg)
      | Some spec \<Rightarrow>
          (let (arc, reg1) = arc_new spec (make_room reg);
               reg2 = note_idle_touch_path path (reg1\<lparr>rg_loaded := rg_loaded reg1 @ [arc]\<rparr>)
           in (Some arc, reg2\<lparr>rg_load_spec_cache := AList.update path arc (rg_load_spec_cache reg2)\<rparr>)))"

definition load_referenced_spec :: "(path \<Rightarrow> spec option) \<Rightarrow> str \<Rightarrow> registry \<Rightarrow> arc option \<times> registry" where
  "load_referenced_spec load reference0 reg =
     (let reference = trim_reference reference0
      in if reference = [] \<or> c_bslash \<in> set reference then (None, reg)
         else case reference_target reg reference of
           None \<Rightarrow> (None, reg)
         | Some (command, path) \<Rightarrow>
             (case map_of (rg_load_spec_cache reg) path of
                Some arc \<Rightarrow> (Some arc, note_idle_touch_path path (touch_loaded arc reg))
              | None \<Rightarrow>
                  (case command of
                     Some name \<Rightarrow>
                       (if is_pinned_name reg name then load_into_path_cache load path reg
                        else case get_arc load name reg of
                          (Some arc, reg') \<Rightarrow> (Some arc, note_idle_touch_path path reg')
                        | (None, reg') \<Rightarrow> load_into_path_cache load path reg')
                   | None \<Rightarrow> load_into_path_cache load path reg)))"

definition load_relative_spec :: "(path \<Rightarrow> spec option) \<Rightarrow> str \<Rightarrow> str \<Rightarrow> registry \<Rightarrow> arc option \<times> registry" where
  "load_relative_spec load relative name reg =
     (case safe_relative_path (trim_reference relative) of
        None \<Rightarrow> (None, reg)
      | Some path \<Rightarrow>
          (case map_of (rg_path_specs reg) path of
             Some arc \<Rightarrow> (Some arc, note_idle_touch_path path reg)
           | None \<Rightarrow>
               (case load path of
                  None \<Rightarrow> (None, reg)
                | Some spec \<Rightarrow>
                    (let (arc, reg1) = arc_new (with_name name spec) reg;
                         reg2 = note_idle_touch_path path reg1
                     in (Some arc, reg2\<lparr>rg_path_specs := AList.update path arc (rg_path_specs reg2)\<rparr>)))))"

section \<open>Overlays\<close>

text \<open>One name of an overlaid spec: the state, whether a name was claimed, and the specs it displaced.\<close>

definition overlay_name ::
  "overlay_mode \<Rightarrow> arc \<Rightarrow> str \<Rightarrow> registry \<times> bool \<times> arc list \<Rightarrow> registry \<times> bool \<times> arc list" where
  "overlay_name mode arc name = (\<lambda>(reg, claimed, displaced).
     if name = [] \<or> (mode = FillMissing \<and> (map_of (rg_files reg) name \<noteq> None \<or> is_pinned_name reg name))
     then (reg, claimed, displaced)
     else
       (remember_name name (reg\<lparr>rg_specs := AList.update name arc (rg_specs reg)\<rparr>), True,
        displaced @ (case map_of (rg_specs reg) name of
                       Some old \<Rightarrow> (if mode = Replace then [old] else []) | None \<Rightarrow> [])))"

definition still_owned :: "registry \<Rightarrow> arc \<Rightarrow> bool" where
  "still_owned reg old \<longleftrightarrow>
     list_ex (\<lambda>cached. ptr_eq cached old)
       (map snd (rg_specs reg) @ map snd (rg_load_spec_cache reg) @ map snd (rg_path_specs reg) @ rg_pinned reg)"

definition overlay_spec :: "spec \<Rightarrow> overlay_mode \<Rightarrow> registry \<Rightarrow> registry" where
  "overlay_spec spec mode reg0 =
     (let (arc, reg1) = arc_new spec reg0;
          (reg2, claimed, displaced) = fold (overlay_name mode arc) (sp_names spec) (reg1, False, []);
          reg3 = (if claimed then reg2\<lparr>rg_pinned := rg_pinned reg2 @ [arc]\<rparr> else reg2)
      in fold (\<lambda>old reg. if still_owned reg old then reg
                          else reg\<lparr>rg_loaded := filter (\<lambda>cached. \<not> ptr_eq cached old) (rg_loaded reg)\<rparr>)
           displaced reg3)"

section \<open>The cache is bounded and overlays stay\<close>

abbreviation ptrs :: "arc list \<Rightarrow> nat set" where "ptrs arcs \<equiv> arc_ptr ` set arcs"
abbreviation entry_ptrs :: "('k \<times> arc) list \<Rightarrow> nat set" where "entry_ptrs entries \<equiv> arc_ptr ` snd ` set entries"

text \<open>What holds of a registry: one entry per key; every spec cached by name or entered through
  \<open>loadSpec\<close> has its place in the list or is an overlay; overlays are in no other place; the list has no
  duplicates and at most 48 entries; addresses are not reused.\<close>

definition links_ok :: "nat set \<Rightarrow> nat set \<Rightarrow> nat set \<Rightarrow> nat set \<Rightarrow> nat set \<Rightarrow> nat \<Rightarrow> bool" where
  "links_ok named referenced versioned loaded pinned next_ptr \<longleftrightarrow>
     named \<subseteq> loaded \<union> pinned \<and> referenced \<subseteq> loaded \<and> pinned \<inter> (loaded \<union> versioned) = {} \<and>
     (\<forall>p \<in> loaded \<union> pinned \<union> versioned. p < next_ptr)"

definition reg_ok :: "registry \<Rightarrow> bool" where
  "reg_ok reg \<longleftrightarrow>
     links_ok (entry_ptrs (rg_specs reg)) (entry_ptrs (rg_load_spec_cache reg)) (entry_ptrs (rg_path_specs reg))
       (ptrs (rg_loaded reg)) (ptrs (rg_pinned reg)) (rg_next_ptr reg) \<and>
     distinct (map fst (rg_specs reg)) \<and> distinct (map fst (rg_load_spec_cache reg)) \<and>
     distinct (map fst (rg_path_specs reg)) \<and> distinct (map arc_ptr (rg_loaded reg)) \<and>
     length (rg_loaded reg) \<le> MAX_CACHED_SPECS"

lemma links_ok_remove:
  "links_ok N R V L P n \<Longrightarrow> x \<notin> P \<Longrightarrow> V' \<subseteq> V \<Longrightarrow> links_ok (N - {x}) (R - {x}) V' (L - {x}) P n"
  by (auto simp: links_ok_def)

lemma links_ok_fresh: "links_ok N R V L P n \<Longrightarrow> n \<notin> L \<and> n \<notin> P \<and> n \<notin> V"
  unfolding links_ok_def by (metis UnCI less_irrefl)

lemma links_ok_load:
  "links_ok N R V L P n \<Longrightarrow> N' \<subseteq> insert n N \<Longrightarrow> R' \<subseteq> insert n R \<Longrightarrow> links_ok N' R' V (insert n L) P (Suc n)"
  using links_ok_fresh [of N R V L P n] by (auto simp: links_ok_def less_Suc_eq)

lemma links_ok_version: "links_ok N R V L P n \<Longrightarrow> V' \<subseteq> insert n V \<Longrightarrow> links_ok N R V' L P (Suc n)"
  using links_ok_fresh [of N R V L P n] by (auto simp: links_ok_def less_Suc_eq)

lemma links_ok_pin: "links_ok N R V L P n \<Longrightarrow> N' \<subseteq> insert n N \<Longrightarrow> links_ok N' R V L (insert n P) (Suc n)"
  using links_ok_fresh [of N R V L P n] by (auto simp: links_ok_def less_Suc_eq)

lemma links_ok_fewer: "links_ok N R V L P n \<Longrightarrow> N' \<subseteq> N \<Longrightarrow> links_ok N' R V L P (Suc n)"
  by (auto simp: links_ok_def less_Suc_eq)

lemma links_ok_unpinned: "links_ok N R V L P n \<Longrightarrow> {p. p \<in> N \<union> R \<and> p \<notin> P} \<subseteq> L"
  by (auto simp: links_ok_def)

lemma links_ok_displace: "links_ok N R V L P n \<Longrightarrow> x \<notin> N \<Longrightarrow> x \<notin> R \<Longrightarrow> links_ok N R V (L - {x}) P n"
  by (auto simp: links_ok_def)

text \<open>What the caches and clocks look like after an operation that only touches names or clocks.\<close>

definition same_cache :: "registry \<Rightarrow> registry \<Rightarrow> bool" where
  "same_cache a b \<longleftrightarrow>
     rg_specs a = rg_specs b \<and> rg_loaded a = rg_loaded b \<and> rg_pinned a = rg_pinned b \<and>
     rg_path_specs a = rg_path_specs b \<and> rg_load_spec_cache a = rg_load_spec_cache b \<and> rg_next_ptr a = rg_next_ptr b"

lemma same_cache_ok: "same_cache a b \<Longrightarrow> reg_ok a \<longleftrightarrow> reg_ok b"
  by (simp add: same_cache_def reg_ok_def)

lemma same_cache_trans: "same_cache a b \<Longrightarrow> same_cache b c \<Longrightarrow> same_cache a c"
  by (simp add: same_cache_def)

lemma same_cache_steps [simp]:
  "same_cache (remember_name name reg) reg" "same_cache (note_idle_touch_path path reg) reg"
  "same_cache (forget_unowned_idle_paths reg) reg" "same_cache (begin_idle_completion reg) reg"
  "same_cache (restore_idle_checkpoint checkpoint now reg) reg" "same_cache (note_idle_after_complete now reg) reg"
  "same_cache (rebuild_names reg) reg"
  by (simp_all add: same_cache_def remember_name_def note_idle_touch_path_def forget_unowned_idle_paths_def
      begin_idle_completion_def restore_idle_checkpoint_def note_idle_after_complete_def rebuild_names_def Let_def)

lemma same_cache_remember_file [simp]: "same_cache (remember_file name path reg) reg"
  using same_cache_steps(1) by (auto simp: remember_file_def same_cache_def split: option.split)

lemma same_cache_remember_files:
  "same_cache (fold (\<lambda>alias reg. if alias \<noteq> [] then remember_file alias path reg else reg) names reg) reg"
proof (induction names arbitrary: reg)
  case (Cons name names)
  show ?case
    using Cons [of "remember_file name path reg"] Cons [of reg] same_cache_trans [OF _ same_cache_remember_file]
    by (auto simp del: same_cache_remember_file)
qed (simp add: same_cache_def)

lemma is_pinned_iff: "is_pinned reg arc \<longleftrightarrow> arc_ptr arc \<in> ptrs (rg_pinned reg)"
  unfolding is_pinned_def list_ex_iff by (metis imageE imageI)

text \<open>Names that belong to an overlay stay with it.\<close>

definition overlays_kept :: "registry \<Rightarrow> registry \<Rightarrow> bool" where
  "overlays_kept reg reg' \<longleftrightarrow>
     set (rg_pinned reg) \<subseteq> set (rg_pinned reg') \<and>
     (\<forall>(name, arc) \<in> set (rg_specs reg). is_pinned reg arc \<longrightarrow> (name, arc) \<in> set (rg_specs reg'))"

lemma overlays_kept_refl [simp]: "overlays_kept reg reg"
  by (auto simp: overlays_kept_def)

lemma overlays_kept_trans: "overlays_kept a b \<Longrightarrow> overlays_kept b c \<Longrightarrow> overlays_kept a c"
  unfolding overlays_kept_def is_pinned_iff by fast

lemma same_cache_overlays: "same_cache a b \<Longrightarrow> overlays_kept b a"
  by (auto simp: same_cache_def overlays_kept_def)

definition step_ok :: "registry \<Rightarrow> registry \<Rightarrow> bool" where
  "step_ok reg reg' \<longleftrightarrow> (reg_ok reg \<longrightarrow> reg_ok reg' \<and> overlays_kept reg reg')"

lemma step_ok_trans: "step_ok a b \<Longrightarrow> step_ok b c \<Longrightarrow> step_ok a c"
  by (auto simp: step_ok_def intro: overlays_kept_trans)

lemma same_cache_step: "same_cache reg' reg \<Longrightarrow> step_ok reg reg'"
  by (auto simp: step_ok_def same_cache_ok same_cache_overlays)

text \<open>Unlinking a spec that is no overlay.\<close>

lemma unlink_pinned [simp]: "rg_pinned (snd (unlink_cached_arc old reg)) = rg_pinned reg"
  by (simp add: unlink_cached_arc_def Let_def)

lemma unlink_ok:
  assumes "arc_ptr old \<notin> ptrs (rg_pinned reg)"
  shows "step_ok reg (snd (unlink_cached_arc old reg))"
  unfolding step_ok_def
proof (intro impI conjI)
  let ?r = "snd (unlink_cached_arc old reg)"
  assume ok: "reg_ok reg"
  have caches: "entry_ptrs (rg_specs ?r) = entry_ptrs (rg_specs reg) - {arc_ptr old}"
    "entry_ptrs (rg_load_spec_cache ?r) = entry_ptrs (rg_load_spec_cache reg) - {arc_ptr old}"
    "entry_ptrs (rg_path_specs ?r) \<subseteq> entry_ptrs (rg_path_specs reg)"
    "ptrs (rg_loaded ?r) = ptrs (rg_loaded reg) - {arc_ptr old}"
    by (force simp: unlink_cached_arc_def Let_def drop_arc_def)+
  have "distinct (map fst (rg_specs ?r))" "distinct (map fst (rg_load_spec_cache ?r))" "distinct (map fst (rg_path_specs ?r))"
    "distinct (map arc_ptr (rg_loaded ?r))" "rg_next_ptr ?r = rg_next_ptr reg"
    "length (rg_loaded ?r) \<le> length (rg_loaded reg)"
    using ok by (auto simp: reg_ok_def unlink_cached_arc_def Let_def drop_arc_def intro: distinct_map_filter)
  moreover have "links_ok (entry_ptrs (rg_specs ?r)) (entry_ptrs (rg_load_spec_cache ?r)) (entry_ptrs (rg_path_specs ?r))
      (ptrs (rg_loaded ?r)) (ptrs (rg_pinned ?r)) (rg_next_ptr reg)"
    unfolding caches(1,2,4) unlink_pinned using ok assms caches(3) by (intro links_ok_remove) (simp_all add: reg_ok_def)
  ultimately show "reg_ok ?r" using ok unfolding reg_ok_def by simp
  show "overlays_kept reg ?r"
    using assms by (auto simp: overlays_kept_def is_pinned_iff unlink_cached_arc_def Let_def drop_arc_def)
qed

text \<open>An entry of the list is never an overlay, so evicting one is safe.\<close>

lemma evict_ok:
  "reg_ok reg \<Longrightarrow> reg_ok (evict_oldest_spec reg) \<and> overlays_kept reg (evict_oldest_spec reg) \<and>
     (rg_loaded reg \<noteq> [] \<longrightarrow> length (rg_loaded (evict_oldest_spec reg)) < length (rg_loaded reg))"
proof (induction reg rule: evict_oldest_spec.induct)
  case (1 reg)
  show ?case
  proof (cases "rg_loaded reg")
    case Nil
    then show ?thesis using 1(2) by simp
  next
    case (Cons old rest)
    let ?reg0 = "reg\<lparr>rg_loaded := rest\<rparr>"
    define reg1 where "reg1 = snd (unlink_cached_arc old ?reg0)"
    define reg2 where "reg2 = forget_unowned_idle_paths reg1"
    have old: "arc_ptr old \<notin> ptrs (rg_pinned reg)"
      using 1(2) Cons by (auto simp: reg_ok_def links_ok_def)
    have same: "reg1 = snd (unlink_cached_arc old reg)" using Cons by (simp add: reg1_def unlink_cached_arc_def Let_def)
    have ok1: "reg_ok reg1" "overlays_kept reg reg1"
      using unlink_ok [OF old] 1(2) unfolding same step_ok_def by blast+
    have ok2: "reg_ok reg2" "overlays_kept reg reg2" "rg_loaded reg2 = rg_loaded reg1"
      using ok1 same_cache_steps(3) [of reg1] same_cache_ok same_cache_overlays overlays_kept_trans
      unfolding reg2_def by (blast, blast, simp add: forget_unowned_idle_paths_def)
    have short: "length (rg_loaded reg2) < length (rg_loaded reg)"
      using Cons unlink_shorter [of old ?reg0] by (simp add: ok2(3) reg1_def)
    obtain unlinked where un: "unlink_cached_arc old ?reg0 = (unlinked, reg1)" by (metis prod.collapse reg1_def)
    show ?thesis
    proof (cases "us_lru_slot unlinked")
      case True
      then have "evict_oldest_spec reg = reg2" using Cons un by (simp add: reg2_def Let_def)
      then show ?thesis using ok2 short by simp
    next
      case False
      then have step: "evict_oldest_spec reg = evict_oldest_spec reg2" using Cons un by (simp add: reg2_def Let_def)
      have "reg_ok (evict_oldest_spec reg2) \<and> overlays_kept reg2 (evict_oldest_spec reg2) \<and>
          (rg_loaded reg2 \<noteq> [] \<longrightarrow> length (rg_loaded (evict_oldest_spec reg2)) < length (rg_loaded reg2))"
        using 1(1) [OF Cons un [symmetric] refl reg2_def False ok2(1)] .
      moreover have "rg_loaded reg2 = [] \<Longrightarrow> evict_oldest_spec reg2 = reg2" by simp
      ultimately show ?thesis using ok2(2) short overlays_kept_trans unfolding step by fastforce
    qed
  qed
qed

declare evict_oldest_spec.simps [simp del]

lemma make_room_ok:
  assumes "reg_ok reg"
  shows "reg_ok (make_room reg) \<and> overlays_kept reg (make_room reg) \<and> length (rg_loaded (make_room reg)) < MAX_CACHED_SPECS"
proof (cases "length (rg_loaded reg) \<ge> MAX_CACHED_SPECS")
  case True
  then have "rg_loaded reg \<noteq> []" by (auto simp: MAX_CACHED_SPECS_def)
  with True evict_ok [OF assms] assms show ?thesis by (auto simp: make_room_def reg_ok_def)
next
  case False
  with assms show ?thesis by (simp add: make_room_def)
qed

lemma alist_update_mem:
  "distinct (map fst entries) \<Longrightarrow>
   e \<in> set (AList.update k v entries) \<longleftrightarrow> e = (k, v) \<or> e \<in> set entries \<and> fst e \<noteq> k"
  by (induction entries) (auto simp: image_iff)

lemma update_ptrs: "entry_ptrs (AList.update k a entries) \<subseteq> insert (arc_ptr a) (entry_ptrs entries)"
  by (induction entries) auto

text \<open>A new spec takes names that no overlay owns.\<close>

lemma claim_names:
  fixes arc path
  defines "claim \<equiv> \<lambda>name reg. if claims_name reg path name
      then remember_name name (reg\<lparr>rg_specs := AList.update name arc (rg_specs reg)\<rparr>) else reg"
  assumes "distinct (map fst (rg_specs reg))" "arc_ptr arc \<notin> ptrs (rg_pinned reg)"
  shows "let reg' = fold claim names reg in
    same_cache (reg'\<lparr>rg_specs := rg_specs reg\<rparr>) reg \<and> distinct (map fst (rg_specs reg')) \<and>
    set (rg_specs reg') \<subseteq> set (rg_specs reg) \<union> {(name, arc) | name. True} \<and> overlays_kept reg reg'"
  using assms(2,3)
proof (induction names arbitrary: reg)
  case Nil
  then show ?case by (simp add: same_cache_def)
next
  case (Cons name names)
  show ?case
  proof (cases "claims_name reg path name")
    case False
    with Cons show ?thesis by (simp add: claim_def)
  next
    case True
    let ?mid = "remember_name name (reg\<lparr>rg_specs := AList.update name arc (rg_specs reg)\<rparr>)"
    have mid: "rg_specs ?mid = AList.update name arc (rg_specs reg)" "same_cache (?mid\<lparr>rg_specs := rg_specs reg\<rparr>) reg"
      "rg_pinned ?mid = rg_pinned reg"
      using same_cache_steps(1) [of name "reg\<lparr>rg_specs := AList.update name arc (rg_specs reg)\<rparr>"]
      by (simp_all add: same_cache_def)
    note entries = alist_update_mem [OF Cons.prems(1), of _ name arc]
    have "\<not> is_pinned reg a" if "(name, a) \<in> set (rg_specs reg)" for a
      using True that Cons.prems(1) by (auto simp: claims_name_def is_pinned_name_def)
    then have kept: "overlays_kept reg ?mid" by (auto simp: overlays_kept_def mid(1,3) entries)
    have "distinct (map fst (rg_specs ?mid))" "arc_ptr arc \<notin> ptrs (rg_pinned ?mid)"
      using Cons.prems by (simp_all add: mid distinct_update)
    note IH = Cons.IH [OF this, unfolded Let_def]
    have fold: "fold claim (name # names) reg = fold claim names ?mid" using True by (simp add: claim_def)
    have "same_cache ((fold claim names ?mid)\<lparr>rg_specs := rg_specs reg\<rparr>) reg" using IH mid(2) by (simp add: same_cache_def)
    moreover have "set (rg_specs (fold claim names ?mid)) \<subseteq> set (rg_specs reg) \<union> {(name, arc) | name. True}"
      using IH entries unfolding mid(1) by blast
    ultimately show ?thesis unfolding Let_def fold using IH kept overlays_kept_trans by blast
  qed
qed

lemma insert_loaded_ok:
  assumes "reg_ok reg" "length (rg_loaded reg) < MAX_CACHED_SPECS"
  shows "reg_ok (insert_loaded spec path reg) \<and> overlays_kept reg (insert_loaded spec path reg)"
proof -
  obtain arc reg1 where new: "arc_new spec reg = (arc, reg1)" by fastforce
  then have arc: "arc_ptr arc = rg_next_ptr reg" "reg1 = reg\<lparr>rg_next_ptr := Suc (rg_next_ptr reg)\<rparr>"
    by (auto simp: arc_new_def)
  let ?n = "rg_next_ptr reg"
  have links: "links_ok (entry_ptrs (rg_specs reg)) (entry_ptrs (rg_load_spec_cache reg)) (entry_ptrs (rg_path_specs reg))
       (ptrs (rg_loaded reg)) (ptrs (rg_pinned reg)) ?n" and d: "distinct (map fst (rg_specs reg))"
    "distinct (map arc_ptr (rg_loaded reg))"
    using assms(1) by (simp_all add: reg_ok_def)
  note fresh = links_ok_fresh [OF links]
  define reg2 where "reg2 = fold (\<lambda>name reg. if claims_name reg path name
      then remember_name name (reg\<lparr>rg_specs := AList.update name arc (rg_specs reg)\<rparr>) else reg) (sp_names spec) reg1"
  have "distinct (map fst (rg_specs reg1))" "arc_ptr arc \<notin> ptrs (rg_pinned reg1)" using d fresh by (simp_all add: arc)
  note c = claim_names [OF this, of path "sp_names spec", folded reg2_def, unfolded Let_def]
  have out: "insert_loaded spec path reg = reg2\<lparr>rg_loaded := rg_loaded reg2 @ [arc]\<rparr>"
    by (simp add: insert_loaded_def new reg2_def Let_def)
  have frame: "rg_loaded reg2 = rg_loaded reg" "rg_pinned reg2 = rg_pinned reg" "rg_path_specs reg2 = rg_path_specs reg"
    "rg_load_spec_cache reg2 = rg_load_spec_cache reg" "rg_next_ptr reg2 = Suc ?n"
    using c by (simp_all add: same_cache_def arc)
  have named: "entry_ptrs (rg_specs reg2) \<subseteq> insert ?n (entry_ptrs (rg_specs reg))"
    using c arc by (fastforce simp: image_iff)
  have loaded: "ptrs (rg_loaded reg @ [arc]) = insert ?n (ptrs (rg_loaded reg))" using arc by simp
  have "links_ok (entry_ptrs (rg_specs reg2)) (entry_ptrs (rg_load_spec_cache reg)) (entry_ptrs (rg_path_specs reg))
       (ptrs (rg_loaded reg @ [arc])) (ptrs (rg_pinned reg)) (Suc ?n)"
    unfolding loaded using links named by (rule links_ok_load) blast
  moreover have "distinct (map arc_ptr (rg_loaded reg @ [arc]))" using d(2) fresh arc by auto
  ultimately have "reg_ok (insert_loaded spec path reg)" using c assms unfolding out reg_ok_def by (simp add: frame)
  moreover have "overlays_kept reg (insert_loaded spec path reg)"
    using c unfolding out by (simp add: overlays_kept_def is_pinned_def arc)
  ultimately show ?thesis ..
qed

lemma touch_loaded_ok: "step_ok reg (touch_loaded arc reg)"
proof (cases "find (\<lambda>cached. ptr_eq cached arc) (rg_loaded reg)")
  case None
  then show ?thesis by (simp add: touch_loaded_def step_ok_def)
next
  case (Some cached)
  then have "cached \<in> set (rg_loaded reg)" by (auto simp: find_Some_iff)
  then have m: "mset (remove1 cached (rg_loaded reg) @ [cached]) = mset (rg_loaded reg)" by simp
  then have "set (remove1 cached (rg_loaded reg) @ [cached]) = set (rg_loaded reg)"
    "length (remove1 cached (rg_loaded reg) @ [cached]) = length (rg_loaded reg)"
    using mset_eq_setD mset_eq_length by blast+
  moreover have "distinct (map arc_ptr (remove1 cached (rg_loaded reg) @ [cached])) \<longleftrightarrow> distinct (map arc_ptr (rg_loaded reg))"
    using m by (metis mset_eq_imp_distinct_iff mset_map)
  ultimately show ?thesis
    using Some by (auto simp: touch_loaded_def step_ok_def reg_ok_def overlays_kept_def is_pinned_def)
qed

lemma note_touch_ok [simp]: "step_ok reg (note_idle_touch_path path reg)"
  by (simp add: same_cache_step)

lemma ensure_loaded_ok: "step_ok reg (ensure_loaded load name reg)"
proof -
  have hit: "step_ok reg (note_idle_touch_path path (touch_loaded arc reg))" for path arc
    by (rule step_ok_trans [OF touch_loaded_ok note_touch_ok])
  have miss: "step_ok reg (note_idle_touch_path path (insert_loaded spec (Some path) reg2))"
    if "same_cache reg2 (make_room reg)" for path spec reg2
    unfolding step_ok_def
  proof
    assume ok: "reg_ok reg"
    from make_room_ok [OF ok] that have room: "reg_ok reg2" "length (rg_loaded reg2) < MAX_CACHED_SPECS" "overlays_kept reg reg2"
      using same_cache_ok [OF that] same_cache_overlays [OF that] overlays_kept_trans by (blast, simp add: same_cache_def, blast)
    from insert_loaded_ok [OF room(1,2)] note_touch_ok [of "insert_loaded spec (Some path) reg2" path] room(3)
    show "reg_ok (note_idle_touch_path path (insert_loaded spec (Some path) reg2)) \<and>
        overlays_kept reg (note_idle_touch_path path (insert_loaded spec (Some path) reg2))"
      unfolding step_ok_def using overlays_kept_trans by blast
  qed
  have "same_cache (make_room reg) (make_room reg)" by (simp add: same_cache_def)
  with miss same_cache_remember_files hit touch_loaded_ok show ?thesis
    by (auto simp: ensure_loaded_def Let_def step_ok_def [of reg reg] split: option.split)
qed

lemma get_arc_ok: "step_ok reg (snd (get_arc load name reg))"
  by (simp add: get_arc_def Let_def ensure_loaded_ok)

lemma load_into_path_cache_ok: "step_ok reg (snd (load_into_path_cache load path reg))"
proof (cases "load path")
  case None
  then show ?thesis by (simp add: load_into_path_cache_def step_ok_def)
next
  case (Some spec)
  show ?thesis unfolding step_ok_def
  proof
    assume ok: "reg_ok reg"
    let ?room = "make_room reg"
    note room = make_room_ok [OF ok]
    obtain arc reg1 where new: "arc_new spec ?room = (arc, reg1)" by fastforce
    then have arc: "arc_ptr arc = rg_next_ptr ?room" "reg1 = ?room\<lparr>rg_next_ptr := Suc (rg_next_ptr ?room)\<rparr>"
      by (auto simp: arc_new_def)
    define reg2 where "reg2 = note_idle_touch_path path (reg1\<lparr>rg_loaded := rg_loaded reg1 @ [arc]\<rparr>)"
    have "same_cache reg2 (reg1\<lparr>rg_loaded := rg_loaded reg1 @ [arc]\<rparr>)" by (simp add: reg2_def)
    then have frame: "rg_specs reg2 = rg_specs ?room" "rg_loaded reg2 = rg_loaded ?room @ [arc]" "rg_pinned reg2 = rg_pinned ?room"
      "rg_path_specs reg2 = rg_path_specs ?room" "rg_load_spec_cache reg2 = rg_load_spec_cache ?room"
      "rg_next_ptr reg2 = Suc (rg_next_ptr ?room)"
      by (simp_all add: same_cache_def arc)
    define reg3 where "reg3 = reg2\<lparr>rg_load_spec_cache := AList.update path arc (rg_load_spec_cache reg2)\<rparr>"
    have out: "snd (load_into_path_cache load path reg) = reg3"
      by (simp add: load_into_path_cache_def Some new reg3_def reg2_def Let_def)
    have links: "links_ok (entry_ptrs (rg_specs ?room)) (entry_ptrs (rg_load_spec_cache ?room)) (entry_ptrs (rg_path_specs ?room))
       (ptrs (rg_loaded ?room)) (ptrs (rg_pinned ?room)) (rg_next_ptr ?room)" using room by (simp add: reg_ok_def)
    have refs: "entry_ptrs (AList.update path arc (rg_load_spec_cache ?room)) \<subseteq>
        insert (rg_next_ptr ?room) (entry_ptrs (rg_load_spec_cache ?room))"
      using update_ptrs [of path arc] arc(1) by simp
    have loaded: "ptrs (rg_loaded ?room @ [arc]) = insert (rg_next_ptr ?room) (ptrs (rg_loaded ?room))" using arc by simp
    have "links_ok (entry_ptrs (rg_specs ?room)) (entry_ptrs (AList.update path arc (rg_load_spec_cache ?room)))
        (entry_ptrs (rg_path_specs ?room)) (ptrs (rg_loaded ?room @ [arc])) (ptrs (rg_pinned ?room)) (Suc (rg_next_ptr ?room))"
      unfolding loaded using links _ refs by (rule links_ok_load) blast
    moreover have "distinct (map arc_ptr (rg_loaded ?room @ [arc]))"
      using room links_ok_fresh [OF links] arc by (auto simp: reg_ok_def)
    ultimately have "reg_ok reg3" using room by (simp add: reg_ok_def reg3_def frame distinct_update)
    moreover have "overlays_kept ?room reg3" by (auto simp: overlays_kept_def reg3_def frame)
    ultimately show "reg_ok (snd (load_into_path_cache load path reg)) \<and> overlays_kept reg (snd (load_into_path_cache load path reg))"
      unfolding out using room overlays_kept_trans by blast
  qed
qed

lemma load_referenced_ok: "step_ok reg (snd (load_referenced_spec load reference reg))"
proof -
  have hit: "step_ok reg (note_idle_touch_path path (touch_loaded arc reg))" for path arc
    by (rule step_ok_trans [OF touch_loaded_ok note_touch_ok])
  have found: "step_ok reg (note_idle_touch_path path reg')" "step_ok reg (snd (load_into_path_cache load path reg'))"
    if "get_arc load name reg = (arc, reg')" for name arc reg' path
  proof -
    from that get_arc_ok [of reg load name] have "step_ok reg reg'" by simp
    from step_ok_trans [OF this note_touch_ok] step_ok_trans [OF this load_into_path_cache_ok]
    show "step_ok reg (note_idle_touch_path path reg')" "step_ok reg (snd (load_into_path_cache load path reg'))" .
  qed
  have refl: "step_ok reg reg" by (simp add: step_ok_def)
  show ?thesis unfolding load_referenced_spec_def Let_def
    using hit found refl load_into_path_cache_ok by (auto split: option.split prod.split)
qed

lemma load_relative_ok: "step_ok reg (snd (load_relative_spec load relative name reg))"
proof -
  have "step_ok reg ((note_idle_touch_path path reg1)\<lparr>rg_path_specs := AList.update path arc (rg_path_specs (note_idle_touch_path path reg1))\<rparr>)"
    if "arc_new spec reg = (arc, reg1)" for path spec arc reg1
    unfolding step_ok_def
  proof
    assume ok: "reg_ok reg"
    let ?out = "(note_idle_touch_path path reg1)\<lparr>rg_path_specs := AList.update path arc (rg_path_specs (note_idle_touch_path path reg1))\<rparr>"
    from that have arc: "arc_ptr arc = rg_next_ptr reg" "reg1 = reg\<lparr>rg_next_ptr := Suc (rg_next_ptr reg)\<rparr>"
      by (auto simp: arc_new_def)
    have "same_cache (note_idle_touch_path path reg1) reg1" by simp
    then have frame: "rg_specs ?out = rg_specs reg" "rg_loaded ?out = rg_loaded reg" "rg_pinned ?out = rg_pinned reg"
      "rg_path_specs ?out = AList.update path arc (rg_path_specs reg)" "rg_load_spec_cache ?out = rg_load_spec_cache reg"
      "rg_next_ptr ?out = Suc (rg_next_ptr reg)"
      by (simp_all add: same_cache_def arc)
    have "entry_ptrs (AList.update path arc (rg_path_specs reg)) \<subseteq> insert (rg_next_ptr reg) (entry_ptrs (rg_path_specs reg))"
      using update_ptrs [of path arc] arc(1) by simp
    with ok show "reg_ok ?out \<and> overlays_kept reg ?out"
      unfolding reg_ok_def frame overlays_kept_def using links_ok_version by (auto simp: is_pinned_def distinct_update)
  qed
  then show ?thesis
    by (auto simp: load_relative_spec_def Let_def step_ok_def [of reg reg] split: option.split prod.split)
qed

text \<open>Releasing: what is unlinked is exactly what the path could release.\<close>

lemma map_of_filter_distinct:
  "distinct (map fst es) \<Longrightarrow> map_of (filter (\<lambda>(k, v). P v) es) k =
     (case map_of es k of Some v \<Rightarrow> (if P v then Some v else None) | None \<Rightarrow> None)"
  by (induction es) (auto simp: map_of_eq_None_iff image_iff split: option.split)

lemma filter_map_filter:
  "filter_map f (filter P xs) = filter_map (\<lambda>x. if P x then f x else None) xs"
  "filter Q (filter_map f xs) = filter_map (\<lambda>x. case f x of Some y \<Rightarrow> (if Q y then Some y else None) | None \<Rightarrow> None) xs"
  by (induction xs) (auto split: option.splits)

lemma releasable_unlink:
  assumes "reg_ok reg"
  shows "releasable_arcs_for_path (snd (unlink_cached_arc old reg)) path =
    filter (\<lambda>arc. \<not> ptr_eq arc old) (releasable_arcs_for_path reg path)"
proof -
  have d: "distinct (map fst (rg_load_spec_cache reg))" "distinct (map fst (rg_path_specs reg))"
    using assms by (simp_all add: reg_ok_def)
  have drop: "map_of (drop_arc old es) path = (case map_of es path of Some arc \<Rightarrow> (if \<not> ptr_eq arc old then Some arc else None) | None \<Rightarrow> None)"
    if "distinct (map fst es)" for es :: "(path \<times> arc) list"
    unfolding drop_arc_def using that by (rule map_of_filter_distinct)
  have files: "filter_map (\<lambda>(name, arc). if map_of (rg_files reg) name = Some path then Some arc else None) (drop_arc old (rg_specs reg)) =
      filter (\<lambda>arc. \<not> ptr_eq arc old)
        (filter_map (\<lambda>(name, arc). if map_of (rg_files reg) name = Some path then Some arc else None) (rg_specs reg))"
    unfolding drop_arc_def filter_map_filter by (intro filter_map_cong) (auto split: if_splits)
  have comm: "filter (\<lambda>arc. \<not> is_pinned reg arc) (filter (\<lambda>arc. \<not> ptr_eq arc old) xs) =
      filter (\<lambda>arc. \<not> ptr_eq arc old) (filter (\<lambda>arc. \<not> is_pinned reg arc) xs)" for xs
    by (simp add: conj_commute)
  show ?thesis
    by (simp add: releasable_arcs_for_path_def unlink_cached_arc_def Let_def drop d files is_pinned_def conj_commute
        split: option.split)
qed

lemma release_arcs:
  assumes "reg_ok reg" "\<forall>a \<in> set arcs. arc_ptr a \<notin> ptrs (rg_pinned reg)"
  defines "unlink \<equiv> \<lambda>arc reg. snd (unlink_cached_arc arc reg)"
  shows "reg_ok (fold unlink arcs reg) \<and> overlays_kept reg (fold unlink arcs reg) \<and>
    rg_idle_since (fold unlink arcs reg) = rg_idle_since reg \<and>
    releasable_arcs_for_path (fold unlink arcs reg) path =
      filter (\<lambda>arc. arc_ptr arc \<notin> ptrs arcs) (releasable_arcs_for_path reg path) \<and>
    (\<forall>e \<in> set (rg_specs reg). arc_ptr (snd e) \<notin> ptrs arcs \<longrightarrow> e \<in> set (rg_specs (fold unlink arcs reg)))"
  using assms(1,2)
proof (induction arcs arbitrary: reg)
  case (Cons arc arcs)
  let ?mid = "unlink arc reg"
  have "step_ok reg ?mid" using Cons.prems(2) unlink_ok by (simp add: unlink_def)
  with Cons.prems(1) have mid: "reg_ok ?mid" "overlays_kept reg ?mid" by (simp_all add: step_ok_def)
  have frame: "rg_pinned ?mid = rg_pinned reg" "rg_idle_since ?mid = rg_idle_since reg"
    "rg_specs ?mid = drop_arc arc (rg_specs reg)"
    by (simp_all add: unlink_def unlink_cached_arc_def Let_def)
  have rel: "releasable_arcs_for_path ?mid path = filter (\<lambda>a. \<not> ptr_eq a arc) (releasable_arcs_for_path reg path)"
    unfolding unlink_def using Cons.prems(1) by (rule releasable_unlink)
  have "\<forall>a \<in> set arcs. arc_ptr a \<notin> ptrs (rg_pinned ?mid)" using Cons.prems(2) by (simp add: frame)
  note IH = Cons.IH [OF mid(1) this, unfolded rel frame filter_filter]
  have "overlays_kept reg (fold unlink arcs ?mid)" using IH mid(2) overlays_kept_trans by blast
  with IH show ?case by (auto simp: drop_arc_def conj_commute)
qed simp

definition releases :: "registry \<Rightarrow> path set \<Rightarrow> registry \<Rightarrow> bool" where
  "releases reg paths reg' \<longleftrightarrow>
     reg_ok reg' \<and> overlays_kept reg reg' \<and>
     (\<forall>p. set (releasable_arcs_for_path reg' p) \<subseteq> set (releasable_arcs_for_path reg p)) \<and>
     (\<forall>p \<in> paths. releasable_arcs_for_path reg' p = []) \<and>
     rg_idle_since reg' = filter (\<lambda>(p, _). p \<notin> paths) (rg_idle_since reg) \<and>
     (\<forall>e \<in> set (rg_specs reg). (\<forall>p \<in> paths. arc_ptr (snd e) \<notin> ptrs (releasable_arcs_for_path reg p)) \<longrightarrow> e \<in> set (rg_specs reg'))"

lemma release_path_releases:
  assumes "reg_ok reg"
  shows "releases reg {path} (release_path path reg)"
proof -
  let ?arcs = "releasable_arcs_for_path reg path"
  let ?reg' = "fold (\<lambda>arc reg. snd (unlink_cached_arc arc reg)) ?arcs reg"
  have "\<forall>a \<in> set ?arcs. arc_ptr a \<notin> ptrs (rg_pinned reg)"
    unfolding releasable_arcs_for_path_def is_pinned_iff by (simp del: filter_append)
  note facts = release_arcs [OF assms this]
  have clock: "releasable_arcs_for_path (release_path path reg) p = releasable_arcs_for_path ?reg' p"
    "same_cache (release_path path reg) ?reg'" for p
    by (simp_all add: release_path_def Let_def releasable_arcs_for_path_def is_pinned_def same_cache_def)
  have gone: "filter (\<lambda>arc. arc_ptr arc \<notin> ptrs ?arcs) ?arcs = []" by (auto simp: filter_empty_conv)
  have ok: "reg_ok (release_path path reg)" "overlays_kept reg (release_path path reg)"
    using facts clock(2) same_cache_ok same_cache_overlays overlays_kept_trans by blast+
  have marks: "rg_idle_since (release_path path reg) = filter (\<lambda>(p, _). p \<notin> {path}) (rg_idle_since reg)"
    using facts by (auto simp: release_path_def Let_def AList.delete_eq case_prod_unfold intro: filter_cong)
  have specs: "rg_specs (release_path path reg) = rg_specs ?reg'" using clock(2) by (simp add: same_cache_def)
  show ?thesis unfolding releases_def using ok marks facts gone by (simp add: clock(1) specs)
qed

lemma releases_trans:
  assumes "releases reg A mid" "releases mid B reg'"
  shows "releases reg (A \<union> B) reg'"
proof -
  have "releasable_arcs_for_path reg' p = []" if "p \<in> A" for p
  proof -
    have "set (releasable_arcs_for_path reg' p) \<subseteq> set (releasable_arcs_for_path mid p)" using assms(2) unfolding releases_def by blast
    with assms(1) that show ?thesis unfolding releases_def by simp
  qed
  moreover have "e \<in> set (rg_specs reg')"
    if "e \<in> set (rg_specs reg)" "\<forall>p \<in> A \<union> B. arc_ptr (snd e) \<notin> ptrs (releasable_arcs_for_path reg p)" for e
  proof -
    from that assms(1) have "e \<in> set (rg_specs mid)" unfolding releases_def by blast
    moreover have "\<forall>p \<in> B. arc_ptr (snd e) \<notin> ptrs (releasable_arcs_for_path mid p)"
      using that(2) assms(1) unfolding releases_def by (meson UnI2 image_mono in_mono)
    ultimately show ?thesis using assms(2) unfolding releases_def by blast
  qed
  moreover have "overlays_kept reg reg'" using assms overlays_kept_trans unfolding releases_def by blast
  moreover have "set (releasable_arcs_for_path reg' p) \<subseteq> set (releasable_arcs_for_path reg p)" for p
    using assms unfolding releases_def by blast
  moreover have "rg_idle_since reg' = filter (\<lambda>(p, _). p \<notin> A \<union> B) (rg_idle_since reg)"
    using assms unfolding releases_def by (auto simp: case_prod_unfold intro: filter_cong)
  ultimately show ?thesis using assms unfolding releases_def by blast
qed

lemma release_paths: "reg_ok reg \<Longrightarrow> releases reg (set paths) (fold release_path paths reg)"
proof (induction paths arbitrary: reg)
  case Nil
  then show ?case by (simp add: releases_def)
next
  case (Cons path paths)
  note here = release_path_releases [OF Cons.prems, of path]
  then have "reg_ok (release_path path reg)" by (simp add: releases_def)
  from releases_trans [OF here Cons.IH [OF this]] show ?case by simp
qed

lemma fold_min_greater: "now < t \<Longrightarrow> \<forall>x \<in> set ts. now < x \<Longrightarrow> now < fold min ts (t :: nat)"
  by (induction ts arbitrary: t) auto

text \<open>
  Releasing idle files: every file whose clock has run for the grace period loses its
  clock and every parsed tree it could release; nothing else is lost, that is a spec cached under a
  name stays unless an expired file releases it, names that belong to an overlay stay, and the other
  clocks keep running. Afterwards the next deadline, if there is one, lies in the future.
\<close>

theorem idle_release:
  assumes "reg_ok reg"
  shows "let reg' = release_idle now grace reg;
      expired = {path. \<exists>t. (path, Some t) \<in> set (rg_idle_since reg) \<and> grace \<le> now - t}
    in releases reg expired reg' \<and> (\<forall>deadline. next_idle_deadline grace reg' = Some deadline \<longrightarrow> now < deadline)"
proof -
  let ?expired = "{path. \<exists>t. (path, Some t) \<in> set (rg_idle_since reg) \<and> grace \<le> now - t}"
  have "set (expired_paths now grace reg) = ?expired"
    by (force simp: expired_paths_def set_filter_map split: option.splits if_splits)
  with release_paths [OF assms, of "expired_paths now grace reg"]
  have rel: "releases reg ?expired (release_idle now grace reg)" by (simp add: release_idle_def)
  have "now < d" if "d \<in> set (idle_deadlines grace (release_idle now grace reg))" for d
  proof -
    from that obtain path t where "(path, Some t) \<in> set (rg_idle_since (release_idle now grace reg))" "d = t + grace"
      by (fastforce simp: idle_deadlines_def set_filter_map split: option.splits if_splits)
    moreover from this rel have "(path, Some t) \<in> set (rg_idle_since reg)" "path \<notin> ?expired" by (auto simp: releases_def)
    ultimately show ?thesis by auto
  qed
  then have "now < deadline" if "next_idle_deadline grace (release_idle now grace reg) = Some deadline" for deadline
    using that fold_min_greater by (auto simp: next_idle_deadline_def split: list.splits)
  with rel show ?thesis by (simp add: Let_def)
qed

definition idle_registry :: registry where
  "idle_registry = registry_new
     \<lparr>rg_specs := [(lit ''git'', \<lparr>arc_ptr = 0, arc_spec = Spec spec_fields_default [] [] [] [] None\<rparr>)],
      rg_files := [(lit ''git'', [lit ''git.json''])],
      rg_loaded := [\<lparr>arc_ptr = 0, arc_spec = Spec spec_fields_default [] [] [] [] None\<rparr>],
      rg_idle_since := [([lit ''git.json''], Some 5)], rg_next_ptr := 1\<rparr>"

theorem idle_release_witness:
  "releases idle_registry {[lit ''git.json'']} (release_idle 20000 10000 idle_registry)"
proof -
  have ok: "reg_ok idle_registry"
    by (simp add: idle_registry_def registry_new_def reg_ok_def links_ok_def MAX_CACHED_SPECS_def)
  have "{path. \<exists>t. (path, Some t) \<in> set (rg_idle_since idle_registry) \<and> 10000 \<le> 20000 - t} = {[lit ''git.json'']}"
    by (auto simp: idle_registry_def registry_new_def)
  with idle_release [OF ok, of 20000 10000] show ?thesis by (simp add: Let_def)
qed

section \<open>Runs\<close>

text \<open>The operations the engine performs on a registry.\<close>

datatype registry_op =
    Get str
  | LoadReferenced str
  | LoadRelative str str
  | Overlay spec overlay_mode
  | ReleaseIdle nat nat
  | BeginIdle
  | NoteIdle nat
  | RestoreIdle idle_checkpoint nat

fun registry_apply :: "(path \<Rightarrow> spec option) \<Rightarrow> registry_op \<Rightarrow> registry \<Rightarrow> registry" where
  "registry_apply load (Get name) reg = snd (get_arc load name reg)"
| "registry_apply load (LoadReferenced reference) reg = snd (load_referenced_spec load reference reg)"
| "registry_apply load (LoadRelative relative name) reg = snd (load_relative_spec load relative name reg)"
| "registry_apply load (Overlay spec mode) reg = overlay_spec spec mode reg"
| "registry_apply load (ReleaseIdle now grace) reg = release_idle now grace reg"
| "registry_apply load BeginIdle reg = begin_idle_completion reg"
| "registry_apply load (NoteIdle now) reg = note_idle_after_complete now reg"
| "registry_apply load (RestoreIdle checkpoint now) reg = restore_idle_checkpoint checkpoint now reg"

lemma overlay_names:
  assumes "distinct (map fst (rg_specs reg))"
  shows "let (reg', claimed', displaced') = fold (overlay_name mode arc) names (reg, claimed, displaced) in
    same_cache (reg'\<lparr>rg_specs := rg_specs reg\<rparr>) reg \<and> distinct (map fst (rg_specs reg')) \<and>
    set (rg_specs reg') \<subseteq> set (rg_specs reg) \<union> {(name, arc) | name. claimed'} \<and> (claimed \<longrightarrow> claimed')"
  using assms
proof (induction names arbitrary: reg claimed displaced)
  case Nil
  then show ?case by (simp add: same_cache_def)
next
  case (Cons name names)
  obtain mid c d where step: "overlay_name mode arc name (reg, claimed, displaced) = (mid, c, d)" by (metis prod_cases3)
  have mid: "same_cache (mid\<lparr>rg_specs := rg_specs reg\<rparr>) reg" "distinct (map fst (rg_specs mid))"
    "set (rg_specs mid) \<subseteq> set (rg_specs reg) \<union> {(name, arc) | name. c}" "claimed \<longrightarrow> c"
    using step Cons.prems same_cache_steps(1) [of name "reg\<lparr>rg_specs := AList.update name arc (rg_specs reg)\<rparr>"]
    by (auto simp: overlay_name_def same_cache_def distinct_update alist_update_mem split: if_splits)
  obtain reg' c' d' where rest: "fold (overlay_name mode arc) names (mid, c, d) = (reg', c', d')" by (metis prod_cases3)
  from Cons.IH [OF mid(2), of c d] rest mid have
    "same_cache (reg'\<lparr>rg_specs := rg_specs reg\<rparr>) reg" "distinct (map fst (rg_specs reg'))" "c \<longrightarrow> c'"
    "set (rg_specs reg') \<subseteq> set (rg_specs mid) \<union> {(name, arc) | name. c'}"
    by (auto simp: same_cache_def)
  with mid rest show ?case by (auto simp: step)
qed

lemma still_owned_iff:
  "still_owned reg old \<longleftrightarrow> arc_ptr old \<in> entry_ptrs (rg_specs reg) \<union> entry_ptrs (rg_load_spec_cache reg) \<union>
     entry_ptrs (rg_path_specs reg) \<union> ptrs (rg_pinned reg)"
proof -
  have "(\<exists>cached \<in> X. ptr_eq cached old) \<longleftrightarrow> arc_ptr old \<in> arc_ptr ` X" for X by (metis imageE imageI)
  then show ?thesis by (simp only: still_owned_def list_ex_iff set_append set_map image_Un Un_assoc)
qed

lemma displace_ok:
  assumes "reg_ok reg"
  shows "reg_ok (fold (\<lambda>old reg. if still_owned reg old then reg
      else reg\<lparr>rg_loaded := filter (\<lambda>cached. \<not> ptr_eq cached old) (rg_loaded reg)\<rparr>) displaced reg)"
  using assms
proof (induction displaced arbitrary: reg)
  case (Cons old displaced)
  have "reg_ok (reg\<lparr>rg_loaded := filter (\<lambda>cached. \<not> ptr_eq cached old) (rg_loaded reg)\<rparr>)" if "\<not> still_owned reg old"
  proof -
    have "arc_ptr old \<notin> entry_ptrs (rg_specs reg)" "arc_ptr old \<notin> entry_ptrs (rg_load_spec_cache reg)"
      using that by (simp_all add: still_owned_iff)
    moreover have "ptrs (filter (\<lambda>cached. \<not> ptr_eq cached old) (rg_loaded reg)) = ptrs (rg_loaded reg) - {arc_ptr old}" by auto
    ultimately show ?thesis using Cons.prems links_ok_displace
      by (auto simp: reg_ok_def intro: distinct_map_filter le_trans [OF length_filter_le])
  qed
  with Cons show ?case by simp
qed simp

lemma overlay_spec_ok:
  assumes "reg_ok reg"
  shows "reg_ok (overlay_spec spec mode reg)"
proof -
  let ?n = "rg_next_ptr reg"
  let ?arc = "\<lparr>arc_ptr = ?n, arc_spec = spec\<rparr>"
  let ?reg1 = "reg\<lparr>rg_next_ptr := Suc ?n\<rparr>"
  obtain reg2 claimed displaced where fold: "fold (overlay_name mode ?arc) (sp_names spec) (?reg1, False, []) = (reg2, claimed, displaced)"
    by (metis prod_cases3)
  have "distinct (map fst (rg_specs ?reg1))" using assms by (simp add: reg_ok_def)
  from overlay_names [OF this, of mode ?arc "sp_names spec" False "[]", unfolded fold]
  have frame: "rg_loaded reg2 = rg_loaded reg" "rg_pinned reg2 = rg_pinned reg" "rg_path_specs reg2 = rg_path_specs reg"
    "rg_load_spec_cache reg2 = rg_load_spec_cache reg" "rg_next_ptr reg2 = Suc ?n" "distinct (map fst (rg_specs reg2))"
    "set (rg_specs reg2) \<subseteq> set (rg_specs reg) \<union> {(name, ?arc) | name. claimed}"
    by (simp_all add: same_cache_def)
  let ?reg3 = "if claimed then reg2\<lparr>rg_pinned := rg_pinned reg2 @ [?arc]\<rparr> else reg2"
  have links: "links_ok (entry_ptrs (rg_specs reg)) (entry_ptrs (rg_load_spec_cache reg)) (entry_ptrs (rg_path_specs reg))
       (ptrs (rg_loaded reg)) (ptrs (rg_pinned reg)) ?n" using assms by (simp add: reg_ok_def)
  have "links_ok (entry_ptrs (rg_specs reg2)) (entry_ptrs (rg_load_spec_cache reg)) (entry_ptrs (rg_path_specs reg))
       (ptrs (rg_loaded reg)) (ptrs (rg_pinned ?reg3)) (Suc ?n)"
  proof (cases claimed)
    case True
    have pins: "ptrs (rg_pinned ?reg3) = insert ?n (ptrs (rg_pinned reg))" using True frame(2) by simp
    have "entry_ptrs (rg_specs reg2) \<subseteq> insert ?n (entry_ptrs (rg_specs reg))" using frame(7) by (fastforce simp: image_iff)
    with links show ?thesis unfolding pins by (rule links_ok_pin)
  next
    case False
    then have "entry_ptrs (rg_specs reg2) \<subseteq> entry_ptrs (rg_specs reg)" using frame(7) by auto
    with links have "links_ok (entry_ptrs (rg_specs reg2)) (entry_ptrs (rg_load_spec_cache reg)) (entry_ptrs (rg_path_specs reg))
       (ptrs (rg_loaded reg)) (ptrs (rg_pinned reg)) (Suc ?n)" by (rule links_ok_fewer)
    with False frame(2) show ?thesis by simp
  qed
  then have "reg_ok ?reg3" using assms frame by (cases claimed) (simp_all add: reg_ok_def)
  from displace_ok [OF this, of displaced] show ?thesis
    by (simp add: overlay_spec_def arc_new_def fold Let_def)
qed

lemma registry_apply_ok:
  "step_ok reg (registry_apply load op reg) \<or> (\<exists>spec mode. op = Overlay spec mode \<and> (reg_ok reg \<longrightarrow> reg_ok (registry_apply load op reg)))"
proof (cases op)
  case (ReleaseIdle now grace)
  then show ?thesis using release_paths by (simp add: step_ok_def release_idle_def releases_def)
qed (simp_all add: get_arc_ok load_referenced_ok load_relative_ok overlay_spec_ok same_cache_step)

text \<open>
  Property C39. The registry of parsed specs stays bounded: after any sequence of lookups, references,
  version files, overlays, releases and clock updates, for any contents of the spec files, the specs
  kept under a command name or entered through \<open>loadSpec\<close> that are no overlays are at most 48; every key
  has one entry; and no operation but another overlay takes a name away from an overlay.
\<close>

theorem registry_bounded:
  assumes "reg_ok start"
  shows "let reg = fold (registry_apply load) ops start in
    reg_ok reg \<and>
    card {p. p \<in> entry_ptrs (rg_specs reg) \<union> entry_ptrs (rg_load_spec_cache reg) \<and> p \<notin> ptrs (rg_pinned reg)} \<le> MAX_CACHED_SPECS \<and>
    (\<forall>op. (\<forall>spec mode. op \<noteq> Overlay spec mode) \<longrightarrow> overlays_kept reg (registry_apply load op reg))"
proof -
  have ok: "reg_ok (fold (registry_apply load) ops start)"
    using assms
  proof (induction ops arbitrary: start)
    case (Cons op ops)
    from registry_apply_ok [of start load op] Cons.prems have "reg_ok (registry_apply load op start)"
      unfolding step_ok_def by blast
    with Cons.IH show ?case by simp
  qed simp
  let ?reg = "fold (registry_apply load) ops start"
  have "{p. p \<in> entry_ptrs (rg_specs ?reg) \<union> entry_ptrs (rg_load_spec_cache ?reg) \<and> p \<notin> ptrs (rg_pinned ?reg)} \<subseteq> ptrs (rg_loaded ?reg)"
    using ok unfolding reg_ok_def by (intro links_ok_unpinned) blast
  then have "card {p. p \<in> entry_ptrs (rg_specs ?reg) \<union> entry_ptrs (rg_load_spec_cache ?reg) \<and> p \<notin> ptrs (rg_pinned ?reg)} \<le>
      card (ptrs (rg_loaded ?reg))"
    by (intro card_mono) simp_all
  also have "\<dots> \<le> length (rg_loaded ?reg)" by (metis card_image_le card_length finite_set le_trans)
  also have "\<dots> \<le> MAX_CACHED_SPECS" using ok by (simp add: reg_ok_def)
  finally show ?thesis using ok registry_apply_ok unfolding Let_def step_ok_def by blast
qed

theorem registry_bounded_witness:
  "reg_ok (fold (registry_apply (\<lambda>_. Some (Spec spec_fields_default [] [] [] [] None)))
     [Get (lit ''git''), ReleaseIdle 20000 10000] idle_registry)"
proof -
  have ok: "reg_ok idle_registry"
    by (simp add: idle_registry_def registry_new_def reg_ok_def links_ok_def MAX_CACHED_SPECS_def)
  show ?thesis by (rule registry_bounded [OF ok, unfolded Let_def, THEN conjunct1])
qed

end
