(* ===== verification/Registry_Names.thy ===== *)
theory Registry_Names
  imports Registry
begin

text \<open>
  The sorted list of command names of the registry and the search in it (\<open>ir.rs\<close>, \<open>remember_name\<close>,
  \<open>rebuild_names\<close>, \<open>command_names_matching_with\<close>): the list stays strictly sorted ignoring case, and the
  two optimised searches, a scan from a binary search and a bounded heap, give what a plain filter of
  all names gives.
\<close>

section \<open>The list of names is sorted\<close>

abbreviation key :: "str \<Rightarrow> str" where "key s \<equiv> map to_ascii_lowercase s"

definition names_ok :: "str list \<Rightarrow> bool" where
  "names_ok names \<longleftrightarrow> sorted_wrt (\<lambda>a b. key a < key b) names"

lemma cmp_less_iff: "cmp_ignore_ascii_case a b = Less \<longleftrightarrow> key a < key b"
  by (simp add: cmp_ignore_ascii_case_eq)

lemma sorted_drop_ge:
  assumes "sorted_wrt (\<lambda>a b. f a < (f b :: 'b :: linorder)) xs" "x \<in> set (dropWhile (\<lambda>e. f e < v) xs)"
  shows "v \<le> f x"
  using assms by (induction xs) (auto simp: not_less split: if_splits dest: order.strict_trans1 less_imp_le)

lemma remember_name_names:
  assumes "names_ok (rg_names reg)"
  shows "names_ok (rg_names (remember_name name reg)) \<and>
    key ` set (rg_names (remember_name name reg)) = key ` set (rg_names reg) \<union> (if name = [] then {} else {key name})"
proof -
  let ?names = "rg_names reg" and ?P = "\<lambda>e. key e < key name"
  let ?before = "takeWhile ?P ?names" and ?after = "dropWhile ?P ?names"
  have pos: "name_position ?names name = length ?before" by (simp add: name_position_def cmp_less_iff)
  have split: "take (length ?before) ?names = ?before" "drop (length ?before) ?names = ?after"
    by (simp_all add: takeWhile_eq_take [symmetric] dropWhile_eq_drop [symmetric])
  have names: "?before @ ?after = ?names" by simp
  have ge: "key name \<le> key e" if "e \<in> set ?after" for e
    using sorted_drop_ge [OF assms [unfolded names_ok_def] that] .
  have sorted: "sorted_wrt (\<lambda>a b. key a < key b) (?before @ ?after)" using assms by (simp add: names_ok_def)
  show ?thesis
  proof (cases "name = []")
    case True
    then show ?thesis using assms by (simp add: remember_name_def Let_def)
  next
    case ne: False
    show ?thesis
    proof (cases "length ?before < length ?names \<and> key (?names ! length ?before) = key name")
      case True
      then have "?names ! length ?before \<in> set ?names" by simp
      with True have "key name \<in> key ` set ?names" by (metis imageI)
      with True ne assms show ?thesis
        by (simp add: remember_name_def Let_def pos eq_ignore_ascii_case_def insert_absorb)
    next
      case False
      have gt: "key name < key e" if "e \<in> set ?after" for e
      proof -
        have "?after \<noteq> []" using that by (metis empty_iff list.set(1))
        then obtain a rest where after: "?after = a # rest" by (meson neq_Nil_conv)
        then have "?names ! length ?before = a" "length ?before < length ?names"
          using names by (metis nth_append_length, metis length_append length_Cons less_add_same_cancel1 zero_less_Suc)
        with False have "key a \<noteq> key name" by simp
        moreover have "key name \<le> key a" using ge after by simp
        moreover have "e = a \<or> key a < key e" using sorted that after by (auto simp: sorted_wrt_append)
        ultimately show ?thesis by auto
      qed
      have "rg_names (remember_name name reg) = ?before @ name # ?after"
        using ne False by (auto simp: remember_name_def Let_def pos split eq_ignore_ascii_case_def)
      moreover have "sorted_wrt (\<lambda>a b. key a < key b) (?before @ name # ?after)"
      proof -
        have parts: "sorted_wrt (\<lambda>a b. key a < key b) ?before" "sorted_wrt (\<lambda>a b. key a < key b) ?after"
          using sorted unfolding sorted_wrt_append by blast+
        have below: "key e < key name" if "e \<in> set ?before" for e using that by (blast dest: set_takeWhileD)
        show ?thesis unfolding sorted_wrt_append sorted_wrt.simps using parts below gt less_trans by fastforce
      qed
      moreover have "set (?before @ name # ?after) = insert name (set ?names)" using names by (metis set_append list.simps(15) Un_insert_right)
      ultimately show ?thesis using ne by (simp add: names_ok_def)
    qed
  qed
qed

lemma dedup_sorted:
  "sorted_wrt (\<lambda>a b. key a \<le> key b) xs \<Longrightarrow>
     names_ok (dedup_by eq_ignore_ascii_case xs) \<and> key ` set (dedup_by eq_ignore_ascii_case xs) = key ` set xs \<and>
     (xs \<noteq> [] \<longrightarrow> hd (dedup_by eq_ignore_ascii_case xs) = hd xs \<and> dedup_by eq_ignore_ascii_case xs \<noteq> [])"
proof (induction "eq_ignore_ascii_case :: str \<Rightarrow> str \<Rightarrow> bool" xs rule: dedup_by.induct)
  case (3 x y xs)
  show ?case
  proof (cases "eq_ignore_ascii_case y x")
    case True
    with 3 show ?thesis by (auto simp: eq_ignore_ascii_case_def)
  next
    case False
    note IH = 3(2) [OF False]
    have "key z > key x" if "z \<in> set (dedup_by eq_ignore_ascii_case (y # xs))" for z
    proof -
      from that have "key z \<in> key ` set (y # xs)" using IH 3(3) by auto
      then obtain w where "w \<in> set (y # xs)" "key z = key w" by blast
      with 3(3) False show ?thesis by (fastforce simp: eq_ignore_ascii_case_def)
    qed
    with IH 3(3) False show ?thesis by (auto simp: names_ok_def)
  qed
qed (simp_all add: names_ok_def)

lemma rebuild_names_ok: "names_ok (rg_names (rebuild_names reg))"
proof -
  let ?all = "map fst (rg_files reg) @ filter (\<lambda>name. name \<noteq> []) (concat (map (\<lambda>arc. sp_names (arc_spec arc)) (rg_pinned reg)))"
  have "sorted_wrt (\<lambda>a b. key a \<le> key b) (sort_by cmp_ignore_ascii_case ?all)"
    using ignore_case.sorted_sort_by [of ?all] by (simp add: ignore_case.le_def [abs_def] cmp_ignore_ascii_case_eq not_less)
  from dedup_sorted [OF this] show ?thesis by (simp add: rebuild_names_def)
qed

section \<open>The searches equal a filter\<close>

text \<open>Strings that start with a given one are neighbours in the order.\<close>

lemma prefix_block:
  fixes q a b :: str
  assumes "q \<le> a" "\<not> prefix q a" "a < b"
  shows "\<not> prefix q b"
  using assms
proof (induction q arbitrary: a b)
  case (Cons c q)
  then obtain d a' where a: "a = d # a'" by (cases a) auto
  show ?case
  proof
    assume "prefix (c # q) b"
    then obtain b' where b: "b = c # b'" "prefix q b'" by (cases b) auto
    from Cons.prems a b have "d = c" by auto
    with Cons a b show False by auto
  qed
qed simp

lemma prefix_ge: "prefix q (a :: str) \<Longrightarrow> q \<le> a"
proof (induction q arbitrary: a)
  case (Cons c q)
  then show ?case by (cases a) auto
qed simp

definition ascii_lowercase :: "(str \<Rightarrow> str) \<Rightarrow> str set \<Rightarrow> bool" where
  "ascii_lowercase lc strings \<longleftrightarrow> (\<forall>s \<in> strings. lc s = key s)"

text \<open>The reference: all names that match and are not the query itself, the first 50 of them.\<close>

definition name_hit :: "(str \<Rightarrow> str) \<Rightarrow> str \<Rightarrow> bool \<Rightarrow> str \<Rightarrow> bool" where
  "name_hit lc query fuzzy name \<longleftrightarrow> query = [] \<or> (\<not> eq_ignore_ascii_case name query \<and> matches_query lc name query fuzzy)"

lemma starts_with_prefix: "starts_with s p \<longleftrightarrow> prefix p s"
  by (auto simp: starts_with_iff prefix_def)

lemma name_hit_prefix:
  assumes "lc name = key name" "lc query = key query" "query \<noteq> []"
  shows "name_hit lc query False name \<longleftrightarrow> key name \<noteq> key query \<and> prefix (key query) (key name)"
  using assms by (auto simp: name_hit_def matches_query_def match_score_def eq_ignore_ascii_case_def starts_with_prefix
      map_mono_prefix)

lemma prefix_scan_take:
  assumes "names_ok names" "\<forall>name \<in> set names. lc name = key name \<and> key query \<le> key name" "lc query = key query"
    and "query \<noteq> []" "n < MAX_NAME_MATCHES"
  shows "prefix_scan lc query n names = take (MAX_NAME_MATCHES - n) (filter (name_hit lc query False) names)"
  using assms
proof (induction names arbitrary: n)
  case (Cons name names)
  have hit: "name_hit lc query False e \<longleftrightarrow> key e \<noteq> key query \<and> prefix (key query) (key e)" if "e \<in> set (name # names)" for e
    using that Cons.prems by (intro name_hit_prefix) auto
  show ?case
  proof (cases "prefix (key query) (key name)")
    case False
    have "\<not> prefix (key query) (key e)" if "e \<in> set names" for e
      using prefix_block [of "key query" "key name" "key e"] False that Cons.prems by (simp add: names_ok_def)
    then have "filter (name_hit lc query False) (name # names) = []" using False hit by (auto simp: filter_empty_conv)
    with False Cons.prems show ?thesis by (simp add: starts_with_ignore_case_def starts_with_prefix)
  next
    case True
    have ok: "names_ok names" "\<forall>name \<in> set names. lc name = key name \<and> key query \<le> key name" using Cons.prems by (auto simp: names_ok_def)
    show ?thesis
    proof (cases "key name = key query \<or> Suc n < MAX_NAME_MATCHES")
      case more: True
      have "MAX_NAME_MATCHES - n = Suc (MAX_NAME_MATCHES - Suc n)" using Cons.prems(5) by (rule Suc_diff_Suc [symmetric])
      with Cons.IH [OF ok Cons.prems(3,4)] Cons.prems True more hit [of name] show ?thesis
        by (auto simp: starts_with_ignore_case_def starts_with_prefix eq_ignore_ascii_case_def)
    next
      case False
      then have "MAX_NAME_MATCHES - n = 1" using Cons.prems(5) by linarith
      with False True Cons.prems hit [of name] show ?thesis
        by (simp add: starts_with_ignore_case_def starts_with_prefix eq_ignore_ascii_case_def)
    qed
  qed
qed simp

lemma push_ascending:
  assumes "\<forall>e \<in> set heap. key e < key name" "length heap \<le> MAX_NAME_MATCHES"
  shows "heap_push heap name = (if length heap < MAX_NAME_MATCHES then name # heap else heap)"
proof -
  have "fold (\<lambda>x best. if cmp_ignore_ascii_case best x = Less then x else best) heap name = name"
    using assms(1) by (induction heap) (auto simp: cmp_less_iff)
  with assms show ?thesis by (simp add: heap_push_def pop_greatest_def Let_def)
qed

lemma heap_of_ascending:
  assumes "sorted_wrt (\<lambda>a b. key a < key b) (rev heap @ names)" "length heap \<le> MAX_NAME_MATCHES"
  shows "fold (\<lambda>name heap. if P name then heap_push heap name else heap) names heap =
    rev (take (MAX_NAME_MATCHES - length heap) (filter P names)) @ heap"
  using assms
proof (induction names arbitrary: heap)
  case (Cons name names)
  have less: "\<forall>e \<in> set heap. key e < key name" using Cons.prems(1) by (auto simp: sorted_wrt_append)
  note push = push_ascending [OF less Cons.prems(2)]
  have rest: "sorted_wrt (\<lambda>a b. key a < key b) (rev heap @ names)" using Cons.prems(1) by (auto simp: sorted_wrt_append)
  show ?case
  proof (cases "P name \<and> length heap < MAX_NAME_MATCHES")
    case True
    then have "MAX_NAME_MATCHES - length heap = Suc (MAX_NAME_MATCHES - length (name # heap))" by (simp add: Suc_diff_Suc)
    with True push Cons.IH [of "name # heap"] Cons.prems show ?thesis by simp
  next
    case False
    with push Cons.IH [OF rest Cons.prems(2)] show ?thesis by auto
  qed
qed simp

lemma sort_rev_ascending:
  "sorted_wrt (\<lambda>a b. key a < key b) xs \<Longrightarrow> sort_by cmp_ignore_ascii_case (rev xs) = xs"
proof (induction xs rule: rev_induct)
  case (snoc x xs)
  have "\<forall>e \<in> set xs. key e < key x \<Longrightarrow> insort_by cmp_ignore_ascii_case x xs = xs @ [x]" for xs
    by (induction xs) (auto simp: cmp_ignore_ascii_case_eq)
  with snoc show ?case by (simp add: sorted_wrt_append)
qed simp

text \<open>
  Property C40. Looking up command names: on the sorted list of names, with names and query lower cased
  as ASCII, both searches, the scan that starts at a binary search and stops at the first name without
  the prefix, and the heap of at most 50 fuzzy matches, return the first 50 names of the plain filter,
  in order.
\<close>

theorem command_names_reference:
  assumes "names_ok (rg_names reg)" "ascii_lowercase lc (insert query (set (rg_names reg)))"
  shows "command_names_matching_with lc reg query fuzzy =
    take MAX_NAME_MATCHES (filter (name_hit lc query fuzzy) (rg_names reg))"
proof -
  let ?names = "rg_names reg"
  consider "query = []" | "query \<noteq> []" fuzzy | "query \<noteq> []" "\<not> fuzzy" by blast
  then show ?thesis
  proof cases
    case 1
    then show ?thesis by (simp add: command_names_matching_with_def name_hit_def)
  next
    case 2
    have "fold (\<lambda>name heap. if eq_ignore_ascii_case name query \<or> \<not> matches_query lc name query True then heap
        else heap_push heap name) ?names [] = fold (\<lambda>name heap. if name_hit lc query True name then heap_push heap name else heap) ?names []"
      using 2(1) by (intro fold_cong) (auto simp: name_hit_def)
    also have "\<dots> = rev (take MAX_NAME_MATCHES (filter (name_hit lc query True) ?names))"
      using heap_of_ascending [of "[]" ?names] assms(1) by (simp add: names_ok_def)
    finally show ?thesis using 2 sort_rev_ascending assms(1)
      by (simp add: command_names_matching_with_def names_ok_def sorted_wrt_take sorted_wrt_filter)
  next
    case 3
    let ?P = "\<lambda>e. key e < key query"
    have drop: "drop (name_position ?names query) ?names = dropWhile ?P ?names"
      by (simp add: name_position_def cmp_less_iff dropWhile_eq_drop)
    have "\<not> name_hit lc query False e" if "e \<in> set (takeWhile ?P ?names)" for e
      using that assms(2) 3(1) prefix_ge [of "key query" "key e"]
      by (auto simp: name_hit_prefix ascii_lowercase_def dest!: set_takeWhileD)
    then have "filter (name_hit lc query False) ?names = filter (name_hit lc query False) (dropWhile ?P ?names)"
      by (subst takeWhile_dropWhile_id [of ?P ?names, symmetric]) (simp add: filter_empty_conv del: takeWhile_dropWhile_id)
    moreover have "prefix_scan lc query 0 (dropWhile ?P ?names) = take (MAX_NAME_MATCHES - 0) (filter (name_hit lc query False) (dropWhile ?P ?names))"
    proof (rule prefix_scan_take)
      show "names_ok (dropWhile ?P ?names)" using assms(1) unfolding names_ok_def dropWhile_eq_drop by (rule sorted_wrt_drop)
      show "\<forall>name \<in> set (dropWhile ?P ?names). lc name = key name \<and> key query \<le> key name"
        using assms sorted_drop_ge [of key ?names] by (auto simp: ascii_lowercase_def names_ok_def dest: set_dropWhileD)
    qed (use assms(2) 3 in \<open>auto simp: ascii_lowercase_def MAX_NAME_MATCHES_def\<close>)
    ultimately show ?thesis using 3 drop by (simp add: command_names_matching_with_def)
  qed
qed

definition small_registry :: registry where
  "small_registry = registry_new\<lparr>rg_names := map lit [''cargo'', ''git'', ''gitk'', ''zsh'']\<rparr>"

theorem command_names_reference_witness:
  "command_names_matching_with (map to_ascii_lowercase) small_registry (lit ''GI'') False =
     take MAX_NAME_MATCHES (filter (name_hit (map to_ascii_lowercase) (lit ''GI'') False) (rg_names small_registry))"
  by (rule command_names_reference)
    (simp_all add: names_ok_def small_registry_def registry_new_def ascii_lowercase_def to_ascii_lowercase_def)

section \<open>Every operation keeps the names sorted\<close>

lemma frame_names:
  "rg_names (snd (unlink_cached_arc old reg)) = rg_names reg" "rg_names (forget_unowned_idle_paths reg) = rg_names reg"
  "rg_names (touch_loaded arc reg) = rg_names reg" "rg_names (note_idle_touch_path path reg) = rg_names reg"
  "rg_names (begin_idle_completion reg) = rg_names reg" "rg_names (note_idle_after_complete now reg) = rg_names reg"
  "rg_names (restore_idle_checkpoint checkpoint now reg) = rg_names reg"
  by (simp_all add: unlink_cached_arc_def forget_unowned_idle_paths_def touch_loaded_def note_idle_touch_path_def
      begin_idle_completion_def note_idle_after_complete_def restore_idle_checkpoint_def Let_def split: option.split)

lemma evict_names [simp]: "rg_names (evict_oldest_spec reg) = rg_names reg"
proof (induction reg rule: evict_oldest_spec.induct)
  case (1 reg)
  show ?case
  proof (cases "rg_loaded reg")
    case Nil
    then show ?thesis by (simp add: evict_oldest_spec.simps)
  next
    case (Cons old rest)
    obtain unlinked reg1 where un: "unlink_cached_arc old (reg\<lparr>rg_loaded := rest\<rparr>) = (unlinked, reg1)" by fastforce
    with frame_names(1) [of old "reg\<lparr>rg_loaded := rest\<rparr>"] have "rg_names (forget_unowned_idle_paths reg1) = rg_names reg"
      by (simp add: frame_names(2))
    with 1 [OF Cons un [symmetric] refl refl] Cons un show ?thesis
      by (subst evict_oldest_spec.simps) (simp add: Let_def)
  qed
qed

lemma make_room_names [simp]: "rg_names (make_room reg) = rg_names reg"
  by (simp add: make_room_def)

lemma fold_keeps: "(\<And>x s. P s \<Longrightarrow> P (f x s)) \<Longrightarrow> P s \<Longrightarrow> P (fold f xs s)"
  by (induction xs arbitrary: s) auto

lemma remember_names_ok: "names_ok (rg_names reg) \<Longrightarrow> names_ok (rg_names (remember_name name reg))"
  using remember_name_names by blast

lemma insert_loaded_names: "names_ok (rg_names reg) \<Longrightarrow> names_ok (rg_names (insert_loaded spec path reg))"
  unfolding insert_loaded_def arc_new_def
  by (simp add: Let_def) (rule fold_keeps [where P = "\<lambda>reg. names_ok (rg_names reg)"], auto intro: remember_names_ok)

lemma remember_files_names:
  "names_ok (rg_names reg) \<Longrightarrow>
   names_ok (rg_names (fold (\<lambda>alias reg. if alias \<noteq> [] then remember_file alias path reg else reg) names reg))"
  by (rule fold_keeps [where P = "\<lambda>reg. names_ok (rg_names reg)"])
    (auto simp: remember_file_def intro: remember_names_ok split: option.split)

lemma ensure_loaded_names: "names_ok (rg_names reg) \<Longrightarrow> names_ok (rg_names (ensure_loaded load name reg))"
  by (auto simp: ensure_loaded_def Let_def frame_names intro!: insert_loaded_names remember_files_names split: option.split)

lemma path_cache_names: "rg_names (snd (load_into_path_cache load path reg)) = rg_names reg"
  by (simp add: load_into_path_cache_def arc_new_def frame_names Let_def split: option.split)

lemma load_referenced_names:
  assumes "names_ok (rg_names reg)"
  shows "names_ok (rg_names (snd (load_referenced_spec load reference reg)))"
proof -
  have "names_ok (rg_names reg')" if "get_arc load name reg = (arc, reg')" for name arc reg'
    using that ensure_loaded_names [OF assms, of load name] by (auto simp: get_arc_def Let_def)
  then show ?thesis using assms
    by (auto simp: load_referenced_spec_def Let_def frame_names path_cache_names split: option.split prod.split)
qed

lemma release_names: "rg_names (release_idle now grace reg) = rg_names reg"
proof -
  have path: "rg_names (release_path path reg) = rg_names reg" for path reg
  proof -
    have "rg_names (fold (\<lambda>arc reg. snd (unlink_cached_arc arc reg)) arcs reg) = rg_names reg" for arcs
      by (induction arcs arbitrary: reg) (simp_all add: frame_names)
    then show ?thesis by (simp add: release_path_def Let_def)
  qed
  have "rg_names (fold release_path paths reg) = rg_names reg" for paths
    by (induction paths arbitrary: reg) (simp_all add: path)
  then show ?thesis by (simp add: release_idle_def)
qed

lemma overlay_spec_names:
  assumes "names_ok (rg_names reg)"
  shows "names_ok (rg_names (overlay_spec spec mode reg))"
proof -
  have step: "names_ok (rg_names (fst (overlay_name mode arc name s)))" if "names_ok (rg_names (fst s))" for arc name s
    using that by (auto simp: overlay_name_def intro: remember_names_ok split: prod.split)
  have "names_ok (rg_names (fst (fold (overlay_name mode arc) names (reg\<lparr>rg_next_ptr := n\<rparr>, False, []))))" for arc names n
    by (rule fold_keeps [where P = "\<lambda>s. names_ok (rg_names (fst s))"]) (use step assms in auto)
  moreover have "rg_names (fold (\<lambda>old reg. if still_owned reg old then reg
      else reg\<lparr>rg_loaded := filter (\<lambda>cached. \<not> ptr_eq cached old) (rg_loaded reg)\<rparr>) displaced reg) = rg_names reg" for displaced reg
    by (induction displaced arbitrary: reg) simp_all
  ultimately show ?thesis
    by (auto simp: overlay_spec_def arc_new_def Let_def split: prod.split) (metis fst_conv)+
qed

text \<open>So the searches are right after any run of the registry that starts from a built list of names.\<close>

lemma run_names_ok:
  "names_ok (rg_names reg) \<Longrightarrow> names_ok (rg_names (fold (registry_apply load) ops reg))"
proof (rule fold_keeps [where P = "\<lambda>reg. names_ok (rg_names reg)"])
  fix op and reg :: registry
  assume "names_ok (rg_names reg)"
  then show "names_ok (rg_names (registry_apply load op reg))"
    by (cases op) (simp_all add: frame_names release_names load_referenced_names overlay_spec_names get_arc_def Let_def
        ensure_loaded_names load_relative_spec_def arc_new_def split: option.split)
qed

end
