(* ===== verification/JS_String.thy ===== *)
theory JS_String
  imports Rust_Str
begin

text \<open>
  The strings of the hook language (\<open>typed_hook/mod.rs\<close> 990--1090 and 3125--3650): JavaScript strings
  as lists of UTF-16 code units, and the string operations of JavaScript on them. A result is a value
  \<open>Inr v\<close> or an error \<open>Inl e\<close>. Lengths and indexes of JavaScript are \<open>i64\<close>: integers, with the checks of
  the code where it converts or adds them.
\<close>

section \<open>Errors and results\<close>

record hook_error =
  er_message :: str
  er_js_class :: "str option"
  er_timed_out :: bool
  er_cancelled :: bool

definition error_new :: "str \<Rightarrow> hook_error" where
  "error_new message = \<lparr>er_message = message, er_js_class = None, er_timed_out = False, er_cancelled = False\<rparr>"

definition error_timed_out :: "str \<Rightarrow> hook_error" where
  "error_timed_out message = (error_new message)\<lparr>er_timed_out := True\<rparr>"

definition error_cancelled :: hook_error where
  "error_cancelled = (error_new (lit ''completion cancelled''))\<lparr>er_cancelled := True\<rparr>"

definition error_throw :: "str \<Rightarrow> str \<Rightarrow> hook_error" where
  "error_throw class_name message =
     \<lparr>er_message = message, er_js_class = Some class_name, er_timed_out = False, er_cancelled = False\<rparr>"

type_synonym 'a hook_result = "hook_error + 'a"

text \<open>\<open>Result::and_then\<close>, and \<open>collect\<close> into a \<open>Result\<close>: the first error wins.\<close>

definition and_then :: "'e + 'a \<Rightarrow> ('a \<Rightarrow> 'e + 'b) \<Rightarrow> 'e + 'b" where
  "and_then r f = (case r of Inl e \<Rightarrow> Inl e | Inr v \<Rightarrow> f v)"

fun collect_results :: "('e + 'a) list \<Rightarrow> 'e + 'a list" where
  "collect_results [] = Inr []"
| "collect_results (r # rs) = and_then r (\<lambda>v. and_then (collect_results rs) (\<lambda>vs. Inr (v # vs)))"

lemma and_then_simps [simp]: "and_then (Inl e) f = Inl e" "and_then (Inr v) f = f v"
  by (simp_all add: and_then_def)

lemma and_then_eq_Inr_iff: "and_then r f = Inr w \<longleftrightarrow> (\<exists>v. r = Inr v \<and> f v = Inr w)"
  by (cases r) simp_all

lemma collect_results_Inr_iff: "collect_results rs = Inr vs \<longleftrightarrow> rs = map Inr vs"
  by (induction rs arbitrary: vs) (auto simp: and_then_eq_Inr_iff)

section \<open>Integers\<close>

definition I64_MIN :: int where "I64_MIN = - (2 ^ 63)"
definition I64_MAX :: int where "I64_MAX = 2 ^ 63 - 1"
definition MAX_SAFE_INTEGER :: int where "MAX_SAFE_INTEGER = 9007199254740991"
definition MAX_STRING_LITERAL_UNITS :: nat where "MAX_STRING_LITERAL_UNITS = 32768"

abbreviation is_i64 :: "int \<Rightarrow> bool" where "is_i64 i \<equiv> I64_MIN \<le> i \<and> i \<le> I64_MAX"

text \<open>\<open>i64::checked_add\<close> and its like: the exact result, if it fits.\<close>

definition checked_i64 :: "int \<Rightarrow> int option" where
  "checked_i64 i = (if is_i64 i then Some i else None)"

text \<open>\<open>i64::try_from\<close> of a length, with the text of \<open>TryFromIntError\<close>.\<close>

definition length_i64 :: "string \<Rightarrow> nat \<Rightarrow> int hook_result" where
  "length_i64 what n =
     (if int n \<le> I64_MAX then Inr (int n)
      else Inl (error_new (lit what @ lit '': out of range integral type conversion attempted'')))"

definition ensure_safe_integer :: "int \<Rightarrow> str \<Rightarrow> unit hook_result" where
  "ensure_safe_integer value path =
     (if - MAX_SAFE_INTEGER \<le> value \<and> value \<le> MAX_SAFE_INTEGER then Inr ()
      else Inl (error_new (path @ lit '' must be a JavaScript safe integer'')))"

definition safe_arithmetic :: "int option \<Rightarrow> str \<Rightarrow> int hook_result" where
  "safe_arithmetic value path =
     (case value of
        None \<Rightarrow> Inl (error_new (path @ lit '' overflowed the JavaScript safe integer range''))
      | Some v \<Rightarrow> and_then (ensure_safe_integer v path) (\<lambda>_. Inr v))"

section \<open>Code units\<close>

type_synonym utf16 = "nat list"

definition is_high :: "nat \<Rightarrow> bool" where "is_high u \<longleftrightarrow> 55296 \<le> u \<and> u \<le> 56319"
definition is_low :: "nat \<Rightarrow> bool" where "is_low u \<longleftrightarrow> 56320 \<le> u \<and> u \<le> 57343"

abbreviation is_surrogate :: "nat \<Rightarrow> bool" where "is_surrogate u \<equiv> 55296 \<le> u \<and> u \<le> 57343"

text \<open>\<open>Utf16String::from_str\<close>.\<close>

abbreviation utf16_of :: "str \<Rightarrow> utf16" where "utf16_of s \<equiv> encode_utf16 s"

definition pair_scalar :: "nat \<Rightarrow> nat \<Rightarrow> rchar" where
  "pair_scalar u v = 65536 + (u - 55296) * 1024 + (v - 56320)"

text \<open>\<open>char::decode_utf16\<close>: \<open>Inl u\<close> is an unpaired surrogate.\<close>

fun decode_utf16 :: "utf16 \<Rightarrow> (nat + rchar) list" where
  "decode_utf16 [] = []"
| "decode_utf16 [u] = [if is_surrogate u then Inl u else Inr u]"
| "decode_utf16 (u # v # us) =
     (if \<not> is_surrogate u then Inr u # decode_utf16 (v # us)
      else if is_high u \<and> is_low v then Inr (pair_scalar u v) # decode_utf16 us
      else Inl u # decode_utf16 (v # us))"

definition to_string_lossy :: "utf16 \<Rightarrow> str" where
  "to_string_lossy us = map (\<lambda>d. case d of Inl _ \<Rightarrow> 65533 | Inr c \<Rightarrow> c) (decode_utf16 us)"

text \<open>\<open>String::from_utf16\<close>; its error has one text.\<close>

definition from_utf16 :: "utf16 \<Rightarrow> str + str" where
  "from_utf16 us =
     (case collect_results (decode_utf16 us) of
        Inl _ \<Rightarrow> Inl (lit ''invalid utf-16: lone surrogate found'') | Inr s \<Rightarrow> Inr s)"

definition ensure_string_limit :: "utf16 \<Rightarrow> utf16 hook_result" where
  "ensure_string_limit units =
     (if length units > MAX_STRING_LITERAL_UNITS
      then Inl (error_new (lit ''string exceeds 32768 UTF-16 code units'')) else Inr units)"

section \<open>Searching\<close>

text \<open>\<open>windows(needle.len()).position(|window| window == needle)\<close>, for a needle that is not empty.\<close>

fun window_position :: "'a list \<Rightarrow> 'a list \<Rightarrow> nat option" where
  "window_position needle [] = None"
| "window_position needle (x # xs) =
     (if take (length needle) (x # xs) = needle then Some 0
      else map_option Suc (window_position needle xs))"

fun window_rposition :: "'a list \<Rightarrow> 'a list \<Rightarrow> nat option" where
  "window_rposition needle [] = None"
| "window_rposition needle (x # xs) =
     (case window_rposition needle xs of
        Some i \<Rightarrow> Some (Suc i)
      | None \<Rightarrow> if take (length needle) (x # xs) = needle then Some 0 else None)"

definition utf16_index_of :: "utf16 \<Rightarrow> utf16 \<Rightarrow> nat option" where
  "utf16_index_of value needle =
     (if needle = [] then Some 0
      else if length needle > length value then None
      else window_position needle value)"

definition utf16_last_index_of :: "utf16 \<Rightarrow> utf16 \<Rightarrow> nat option" where
  "utf16_last_index_of value needle =
     (if needle = [] then Some (length value)
      else if length needle > length value then None
      else window_rposition needle value)"

definition index_i64 :: "nat option \<Rightarrow> int hook_result" where
  "index_i64 index = (case index of None \<Rightarrow> Inr (- 1) | Some i \<Rightarrow> length_i64 ''string index is too large'' i)"

definition utf16_index_of_i64 :: "utf16 \<Rightarrow> utf16 \<Rightarrow> int hook_result" where
  "utf16_index_of_i64 value needle = index_i64 (utf16_index_of value needle)"

definition utf16_last_index_of_i64 :: "utf16 \<Rightarrow> utf16 \<Rightarrow> int hook_result" where
  "utf16_last_index_of_i64 value needle = index_i64 (utf16_last_index_of value needle)"

definition utf16_starts_with :: "utf16 \<Rightarrow> utf16 \<Rightarrow> bool" where
  "utf16_starts_with value needle \<longleftrightarrow> take (length needle) value = needle"

definition utf16_ends_with :: "utf16 \<Rightarrow> utf16 \<Rightarrow> bool" where
  "utf16_ends_with value needle \<longleftrightarrow>
     length needle \<le> length value \<and> drop (length value - length needle) value = needle"

section \<open>Trimming and case\<close>

definition is_js_trim_unit :: "nat \<Rightarrow> bool" where
  "is_js_trim_unit unit \<longleftrightarrow>
     unit \<in> {9, 10, 11, 12, 13, 32, 160, 5760, 8232, 8233, 8239, 8287, 12288, 65279} \<or>
     (8192 \<le> unit \<and> unit \<le> 8202)"

definition js_trim :: "utf16 \<Rightarrow> bool \<Rightarrow> bool \<Rightarrow> utf16" where
  "js_trim value at_start at_end =
     (let units = (if at_start then dropWhile is_js_trim_unit value else value)
      in if at_end then rev (dropWhile is_js_trim_unit (rev units)) else units)"

text \<open>The Unicode case tables (\<open>char::to_uppercase\<close>, \<open>char::to_lowercase\<close>) are the parameter \<open>casing\<close>.\<close>

fun js_map_case :: "(bool \<Rightarrow> rchar \<Rightarrow> str) \<Rightarrow> utf16 \<Rightarrow> bool \<Rightarrow> utf16" where
  "js_map_case casing [] upper = []"
| "js_map_case casing [u] upper = (if is_surrogate u then [u] else encode_utf16 (casing upper u))"
| "js_map_case casing (u # v # us) upper =
     (if is_high u \<and> is_low v then encode_utf16 (casing upper (pair_scalar u v)) @ js_map_case casing us upper
      else if is_surrogate u then u # js_map_case casing (v # us) upper
      else encode_utf16 (casing upper u) @ js_map_case casing (v # us) upper)"

section \<open>Slices\<close>

text \<open>The index of JavaScript that counts from the end when negative, cut to the length.\<close>

definition relative_index :: "int \<Rightarrow> int \<Rightarrow> int" where
  "relative_index len index = (if index < 0 then max (len + index) 0 else min index len)"

text \<open>\<open>xs[from..to]\<close>, which panics unless \<open>from \<le> to \<le> len\<close>; the lemmas show that it never does.\<close>

definition range_of :: "int \<Rightarrow> int \<Rightarrow> 'a list \<Rightarrow> 'a list" where
  "range_of from to xs = take (nat (to - from)) (drop (nat from) xs)"

definition range_ok :: "int \<Rightarrow> int \<Rightarrow> 'a list \<Rightarrow> bool" where
  "range_ok from to xs \<longleftrightarrow> 0 \<le> from \<and> from \<le> to \<and> to \<le> int (length xs)"

definition js_slice :: "utf16 \<Rightarrow> int \<Rightarrow> utf16 hook_result" where
  "js_slice value start_index =
     and_then (length_i64 ''string is too long'' (length value)) (\<lambda>len.
       Inr (drop (nat (relative_index len start_index)) value))"

definition js_slice_range :: "utf16 \<Rightarrow> int \<Rightarrow> int \<Rightarrow> utf16 hook_result" where
  "js_slice_range value start_index end_index =
     and_then (length_i64 ''string is too long'' (length value)) (\<lambda>len.
       let from = relative_index len start_index; to = relative_index len end_index
       in if to \<le> from then Inr [] else Inr (range_of from to value))"

definition substring_range :: "int \<Rightarrow> int \<Rightarrow> int \<Rightarrow> int \<times> int" where
  "substring_range len start_index end_index =
     (let from = max 0 (min len start_index); to = max 0 (min len end_index)
      in if from > to then (to, from) else (from, to))"

definition js_substring :: "utf16 \<Rightarrow> int \<Rightarrow> int \<Rightarrow> utf16 hook_result" where
  "js_substring value start_index end_index =
     and_then (length_i64 ''string is too long'' (length value)) (\<lambda>len.
       case substring_range len start_index end_index of (from, to) \<Rightarrow> Inr (range_of from to value))"

definition js_char_at :: "utf16 \<Rightarrow> int \<Rightarrow> utf16" where
  "js_char_at value index =
     (if index < 0 then []
      else if nat index < length value then [value ! nat index] else [])"

definition js_at :: "utf16 \<Rightarrow> int \<Rightarrow> utf16 hook_result" where
  "js_at value index =
     and_then (length_i64 ''string is too long'' (length value)) (\<lambda>len.
       Inr (js_char_at value (if index < 0 then len + index else index)))"

definition js_index :: "int \<Rightarrow> nat \<Rightarrow> nat" where
  "js_index index len = nat (relative_index (int len) index)"

definition utf16_index_of_from :: "utf16 \<Rightarrow> utf16 \<Rightarrow> int \<Rightarrow> int hook_result" where
  "utf16_index_of_from value needle start_index =
     (let from = js_index start_index (length value)
      in if needle = [] then Inr (int from)
         else if from > length value \<or> length needle > length value - from then Inr (- 1)
         else Inr (case window_position needle (drop from value) of None \<Rightarrow> - 1 | Some i \<Rightarrow> int (i + from)))"

section \<open>Splitting, replacing, padding\<close>

text \<open>The loop of \<open>js_split\<close> and of \<open>js_replace\<close>: the pieces between the occurrences of the separator.\<close>

function pieces :: "utf16 \<Rightarrow> utf16 \<Rightarrow> utf16 list" where
  "pieces separator value =
     (if separator = [] then [value]
      else case window_position separator value of
        None \<Rightarrow> [value]
      | Some i \<Rightarrow> take i value # pieces separator (drop (i + length separator) value))"
  by pat_completeness auto
termination
proof (relation "measure (\<lambda>(_, value). length value)", simp)
  fix separator units :: utf16 and i
  assume "separator \<noteq> []" and some: "window_position separator units = Some i"
  then have "units \<noteq> []" by auto
  with \<open>separator \<noteq> []\<close> show "((separator, drop (i + length separator) units), separator, units) \<in> measure (\<lambda>(_, value). length value)"
    by simp
qed

declare pieces.simps [simp del]

definition js_split :: "utf16 \<Rightarrow> utf16 \<Rightarrow> utf16 list" where
  "js_split value separator = (if separator = [] then map (\<lambda>unit. [unit]) value else pieces separator value)"

definition js_split_limit :: "utf16 \<Rightarrow> utf16 \<Rightarrow> int \<Rightarrow> utf16 list" where
  "js_split_limit value separator limit = (if limit \<le> 0 then [] else take (nat limit) (js_split value separator))"

text \<open>The loop of \<open>replaceAll\<close>, written into one buffer.\<close>

function replace_loop :: "utf16 \<Rightarrow> utf16 \<Rightarrow> utf16 \<Rightarrow> utf16" where
  "replace_loop needle replacement value =
     (if needle = [] then value
      else case window_position needle value of
        None \<Rightarrow> value
      | Some i \<Rightarrow> take i value @ replacement @ replace_loop needle replacement (drop (i + length needle) value))"
  by pat_completeness auto
termination
proof (relation "measure (\<lambda>(_, _, value). length value)", simp)
  fix needle replacement units :: utf16 and i
  assume "needle \<noteq> []" and some: "window_position needle units = Some i"
  then have "units \<noteq> []" by auto
  with \<open>needle \<noteq> []\<close> show "((needle, replacement, drop (i + length needle) units), needle, replacement, units) \<in> measure (\<lambda>(_, _, value). length value)"
    by simp
qed

declare replace_loop.simps [simp del]

definition js_replace :: "utf16 \<Rightarrow> utf16 \<Rightarrow> utf16 \<Rightarrow> bool \<Rightarrow> utf16 hook_result" where
  "js_replace value needle replacement replace_all =
     (if needle = [] then
        if \<not> replace_all then ensure_string_limit (replacement @ value)
        else ensure_string_limit (replacement @ concat (map (\<lambda>unit. unit # replacement) value))
      else if \<not> replace_all then
        (case utf16_index_of value needle of
           None \<Rightarrow> Inr value
         | Some i \<Rightarrow> ensure_string_limit (take i value @ replacement @ drop (i + length needle) value))
      else ensure_string_limit (replace_loop needle replacement value))"

text \<open>The fill of \<open>js_pad\<close>: whole copies of the pad until it is long enough, then cut.\<close>

definition pad_fill :: "utf16 \<Rightarrow> nat \<Rightarrow> utf16" where
  "pad_fill pad needed = take needed (concat (replicate needed pad))"

definition js_pad :: "utf16 \<Rightarrow> int \<Rightarrow> utf16 \<Rightarrow> bool \<Rightarrow> utf16 hook_result" where
  "js_pad value target pad at_end =
     (let target = max 0 target in
      and_then (length_i64 ''string is too long'' (length value)) (\<lambda>len.
        if target \<le> len \<or> pad = [] then Inr value
        else if target > int MAX_STRING_LITERAL_UNITS then Inl (error_new (lit ''string-pad exceeds the UTF-16 code-unit limit''))
        else let fill = pad_fill pad (nat (target - len))
             in ensure_string_limit (if at_end then value @ fill else fill @ value)))"

definition js_repeat :: "utf16 \<Rightarrow> int \<Rightarrow> utf16 hook_result" where
  "js_repeat value n =
     (if n < 0 then Inl (error_new (lit ''string-repeat count must be non-negative''))
      else if length value * nat n > 2 ^ 64 - 1 then Inl (error_new (lit ''string-repeat overflowed the JavaScript safe integer range''))
      else if length value * nat n > MAX_STRING_LITERAL_UNITS then Inl (error_new (lit ''string-repeat exceeds the UTF-16 code-unit limit''))
      else Inr (concat (replicate (nat n) value)))"

section \<open>Encoding and decoding\<close>

text \<open>A Rust \<open>char\<close>: a scalar value that is no surrogate.\<close>

definition scalar_value :: "rchar \<Rightarrow> bool" where
  "scalar_value c \<longleftrightarrow> c < 1114112 \<and> \<not> is_surrogate c"

lemma pair_scalar_encode:
  assumes "65536 \<le> c" "c < 1114112"
  defines "u \<equiv> 55296 + (c - 65536) div 1024" and "v \<equiv> 56320 + (c - 65536) mod 1024"
  shows "is_high u" "is_low v" "pair_scalar u v = c"
proof -
  have "(c - 65536) div 1024 < 1024" using assms by (simp add: less_mult_imp_div_less)
  then show "is_high u" by (simp add: is_high_def u_def)
  have "(c - 65536) mod 1024 < 1024" by simp
  then show "is_low v" unfolding is_low_def v_def by linarith
  have "(c - 65536) div 1024 * 1024 + (c - 65536) mod 1024 = c - 65536" by (rule div_mult_mod_eq)
  then show "pair_scalar u v = c" using assms(1) by (simp add: pair_scalar_def u_def v_def)
qed

lemma decode_scalar: "\<not> is_surrogate u \<Longrightarrow> decode_utf16 (u # us) = Inr u # decode_utf16 us"
  by (cases us) auto

lemma decode_encode: "list_all scalar_value s \<Longrightarrow> decode_utf16 (encode_utf16 s) = map Inr s"
proof (induction s)
  case (Cons c s)
  show ?case
  proof (cases "c < 65536")
    case True
    with Cons show ?thesis
      by (simp add: encode_utf16_def encode_utf16_char_def decode_scalar scalar_value_def)
  next
    case False
    with Cons.prems have "65536 \<le> c" "c < 1114112" by (simp_all add: scalar_value_def)
    note pair = pair_scalar_encode [OF this]
    with Cons False show ?thesis
      by (auto simp: encode_utf16_def encode_utf16_char_def is_high_def is_low_def)
  qed
qed (simp add: encode_utf16_def)

text \<open>
  Strings cross into the hook language and back unchanged: for every list of scalar values,
  encoding to UTF-16 and decoding, strictly or with replacement characters, gives the string back, and
  encoding is injective on them.
\<close>

theorem utf16_roundtrip:
  assumes "list_all scalar_value s" "list_all scalar_value t"
  shows "from_utf16 (utf16_of s) = Inr s \<and> to_string_lossy (utf16_of s) = s \<and> (utf16_of s = utf16_of t \<longleftrightarrow> s = t)"
proof (intro conjI)
  have "collect_results (map Inr s) = (Inr s :: nat + nat list)" by (simp add: collect_results_Inr_iff)
  then show "from_utf16 (utf16_of s) = Inr s" using assms by (simp add: from_utf16_def decode_encode)
  show "to_string_lossy (utf16_of s) = s" using assms by (simp add: to_string_lossy_def decode_encode o_def)
  show "utf16_of s = utf16_of t \<longleftrightarrow> s = t" using assms decode_encode [of s] decode_encode [of t] by (metis inj_Inr inj_map_eq_map)
qed

theorem utf16_roundtrip_witness: "from_utf16 (utf16_of [128512, 97]) = Inr [128512, 97] \<and> length (utf16_of [128512, 97]) = 3"
  using utf16_roundtrip [of "[128512, 97]" "[]"] by (simp add: scalar_value_def encode_utf16_def encode_utf16_char_def)

section \<open>Searching\<close>

text \<open>\<open>needle\<close> occurs in \<open>value\<close> at \<open>i\<close>.\<close>

definition occurs_at :: "'a list \<Rightarrow> 'a list \<Rightarrow> nat \<Rightarrow> bool" where
  "occurs_at needle value i \<longleftrightarrow> take (length needle) (drop i value) = needle"

lemma occurs_at_append: "occurs_at needle value i \<Longrightarrow> needle \<noteq> [] \<Longrightarrow> i + length needle \<le> length value"
proof -
  assume occ: "occurs_at needle value i" and ne: "needle \<noteq> []"
  then have "length needle = min (length needle) (length value - i)" unfolding occurs_at_def by (metis length_drop length_take min.commute)
  with ne show ?thesis by (cases needle) auto
qed

lemma window_position_None: "needle \<noteq> [] \<Longrightarrow> window_position needle units = None \<longleftrightarrow> (\<forall>i. \<not> occurs_at needle units i)"
proof (induction units)
  case (Cons x xs)
  have "(\<forall>i. \<not> occurs_at needle (x # xs) i) \<longleftrightarrow> \<not> occurs_at needle (x # xs) 0 \<and> (\<forall>i. \<not> occurs_at needle xs i)"
    by (metis (no_types, lifting) drop_Suc_Cons not0_implies_Suc occurs_at_def)
  with Cons show ?case by (simp add: occurs_at_def)
qed (simp add: occurs_at_def)

lemma window_position_Some:
  "needle \<noteq> [] \<Longrightarrow> window_position needle units = Some i \<longleftrightarrow> occurs_at needle units i \<and> (\<forall>j < i. \<not> occurs_at needle units j)"
proof (induction units arbitrary: i)
  case (Cons x xs)
  show ?case
  proof (cases i)
    case 0
    then show ?thesis by (auto simp: occurs_at_def)
  next
    case (Suc k)
    have "(\<forall>j < Suc k. \<not> occurs_at needle (x # xs) j) \<longleftrightarrow> \<not> occurs_at needle (x # xs) 0 \<and> (\<forall>j < k. \<not> occurs_at needle xs j)"
      by (simp add: All_less_Suc2 occurs_at_def)
    with Suc Cons show ?thesis by (auto simp: occurs_at_def)
  qed
qed (simp add: occurs_at_def)

lemma occurs_at_prefix: "occurs_at needle (take k value) i \<Longrightarrow> needle \<noteq> [] \<Longrightarrow> occurs_at needle value i \<and> i + length needle \<le> k"
proof -
  assume occ: "occurs_at needle (take k value) i" and ne: "needle \<noteq> []"
  from occurs_at_append [OF this] have "i + length needle \<le> k" by simp
  then have "min (length needle) (k - i) = length needle" by simp
  with occ \<open>i + length needle \<le> k\<close> show ?thesis by (simp add: occurs_at_def drop_take)
qed

section \<open>Splitting and replacing\<close>

fun join_units :: "utf16 \<Rightarrow> utf16 list \<Rightarrow> utf16" where
  "join_units sep [] = []"
| "join_units sep [p] = p"
| "join_units sep (p # q # ps) = p @ sep @ join_units sep (q # ps)"

lemma pieces_not_Nil [simp]: "pieces sep value \<noteq> []"
  by (subst pieces.simps) (simp split: option.split)

lemma join_units_Cons: "ps \<noteq> [] \<Longrightarrow> join_units sep (p # ps) = p @ sep @ join_units sep ps"
  by (cases ps) simp_all

lemma pieces_free: "sep \<noteq> [] \<Longrightarrow> p \<in> set (pieces sep units) \<Longrightarrow> window_position sep p = None"
proof (induction sep units rule: pieces.induct)
  case (1 sep units)
  show ?case
  proof (cases "window_position sep units")
    case None
    with 1 show ?thesis by (subst (asm) pieces.simps) simp
  next
    case (Some i)
    with 1 have "p = take i units \<or> p \<in> set (pieces sep (drop (i + length sep) units))"
      by (subst (asm) pieces.simps) simp
    then show ?thesis
    proof
      assume p: "p = take i units"
      have "\<not> occurs_at sep p k" for k
      proof
        assume "occurs_at sep p k"
        with p 1(2) occurs_at_prefix have "occurs_at sep units k" "k + length sep \<le> i" by blast+
        moreover from this 1(2) have "k < i" by (cases sep) auto
        ultimately show False using Some 1(2) by (simp add: window_position_Some)
      qed
      with 1(2) show ?thesis by (simp add: window_position_None)
    qed (use 1 Some in blast)
  qed
qed

lemma join_pieces:
  "sep \<noteq> [] \<Longrightarrow> join_units sep (pieces sep units) = units \<and> join_units new (pieces sep units) = replace_loop sep new units"
proof (induction sep units rule: pieces.induct)
  case (1 sep units)
  show ?case
  proof (cases "window_position sep units")
    case None
    with 1 show ?thesis by (simp add: pieces.simps [of sep units] replace_loop.simps [of sep new units])
  next
    case (Some i)
    with 1(2) have "take (length sep) (drop i units) = sep" by (simp add: window_position_Some occurs_at_def)
    then have "take i units @ sep @ drop (i + length sep) units = units"
      by (metis add.commute append_take_drop_id drop_drop)
    with Some 1 show ?thesis
      by (simp add: pieces.simps [of sep units] replace_loop.simps [of sep new units] join_units_Cons)
  qed
qed

text \<open>
  Property C34. Splitting and replacing in the hook language: the parts of a split by a separator that is
  not empty contain no separator, and joined by it give the string back, so a split loses nothing; and
  replacing all occurrences, which the code does in one pass over its own buffer, is splitting and
  joining with the replacement.
\<close>

theorem split_and_replace:
  assumes "separator \<noteq> []"
  shows "join_units separator (js_split value separator) = value \<and>
    (\<forall>part \<in> set (js_split value separator). utf16_index_of part separator = None) \<and>
    js_replace value separator new True = ensure_string_limit (join_units new (js_split value separator))"
  using assms join_pieces [of separator "value" new] pieces_free [of separator _ "value"]
  by (simp add: js_split_def js_replace_def utf16_index_of_def)

theorem split_and_replace_witness:
  "js_split [97, 44, 98] [44] = [[97], [98]] \<and> js_replace [97, 44, 98] [44] [45, 45] True = Inr [97, 45, 45, 98]"
  using split_and_replace [of "[44]" "[97, 44, 98]" "[45, 45]"]
  by (simp add: js_split_def pieces.simps ensure_string_limit_def MAX_STRING_LITERAL_UNITS_def)

section \<open>Slices stay in range\<close>

lemma relative_index_bounds: "0 \<le> len \<Longrightarrow> 0 \<le> relative_index len i \<and> relative_index len i \<le> len"
  by (auto simp: relative_index_def)

text \<open>
  No index of a hook can leave its string: for every \<open>i64\<close> index, also negative ones and
  the extreme values, the sums the code forms stay in the range of \<open>i64\<close>, and the ranges it slices lie
  within the string.
\<close>

theorem slices_in_range:
  fixes units :: utf16
  assumes "int (length units) \<le> I64_MAX" "is_i64 i" "is_i64 j"
  defines "len \<equiv> int (length units)"
  shows "(i < 0 \<longrightarrow> is_i64 (len + i)) \<and> relative_index len i \<in> {0..len} \<and>
    (\<not> relative_index len j \<le> relative_index len i \<longrightarrow> range_ok (relative_index len i) (relative_index len j) units) \<and>
    (case substring_range len i j of (from, to) \<Rightarrow> range_ok from to units) \<and>
    js_index i (length units) \<le> length units"
  using assms relative_index_bounds [of len i] relative_index_bounds [of len j]
  by (auto simp: range_ok_def substring_range_def Let_def js_index_def I64_MIN_def I64_MAX_def)

theorem slices_in_range_witness:
  "relative_index 3 (- (2 ^ 63)) \<in> {0..3} \<and> js_slice_range [97, 98, 99] (- 2) I64_MAX = Inr [98, 99]"
  using slices_in_range [of "[97, 98, 99]" "- (2 ^ 63)" I64_MAX]
  by (simp add: js_slice_range_def length_i64_def I64_MIN_def I64_MAX_def relative_index_def range_of_def Let_def)

end
