(* ===== verification/Typed_Hook.thy ===== *)
theory Typed_Hook
  imports JS_String Fig_Spec
begin

text \<open>
  The expression language of native hooks (\<open>typed_hook/mod.rs\<close>): its types, its expressions and the
  validation of a descriptor. The source has one constructor per operation, 124 in all; here operations
  of the same shape share a constructor that carries the operation's name, as the JSON tag \<open>op\<close> does. The
  type checker is one recursion; what it asks of operands and what it answers is a table per shape.
\<close>

section \<open>Types and expressions\<close>

datatype (plugins only: code size) value_type =
    TString | TBool | TInteger | TStringArray | TJson | TJsonArray | TSuggestion | TSuggestionArray
  | TStringRecord | TStringSet | TValueArray | TRegex | TNull | TExec | TContext | TExecResult | TSpec

datatype (plugins only: code size) unary_op =
    OLength | OStringTrim | OStringTrimStart | OStringTrimEnd | OStringToLower | OStringToUpper | ONot
  | OTruthy | OTypeof | OObjectKeys | OObjectEntries | OObjectValues | OArrayReverse | OArrayPop
  | OArrayEntries | OArrayFrom | OJsonParse | OJsonArrayItems | OJsonAsString | OJsonAsNumber
  | OJsonAsBool | OJsonStringify | OMathMax | OStringSet | OToString

datatype (plugins only: code size) binary_op =
    OStringIncludes | OStringIndexOf | OStringLastIndexOf | OStringSlice | OStringSliceAfterFirst
  | OStringSplit | OStringStartsWith | OStringEndsWith | OStringRepeat | OStringCharAt | OStringAt
  | OArrayIncludes | OStrictEq | OStrictNe | OAdd | OSub | OMul | OLessThan | OLessThanOrEqual
  | OGreaterThan | OGreaterThanOrEqual | OLooseEq | OLooseNe | OGet | OJsonGet | OArrayJoin
  | OArrayIndexOf | OArrayIndex | OLocaleCompare

datatype (plugins only: code size) ternary_op =
    OStringSubstring | OStringReplace | OStringReplaceAll | OStringPadStart | OStringPadEnd
  | OArraySlice | OStringSplitLimit | OStringIndexOfFrom | OArrayIndexOfFrom

datatype (plugins only: code size) callback_op =
    OArrayMap | OArrayFilter | OArrayFlatMap | OArraySome | OArrayEvery | OArrayFind | OArrayFindIndex
  | OArraySort

datatype list_op = OArray | OStringConcat | OBlock | OSeq | OObjectAssign | OArrayConcat | OPar
datatype fields_op = OObject | OJsonObject | OSpecObject
datatype regex_op = ORegexTest | ORegexMatch | ORegexMatchAll | ORegexSearch | OStringSplitRegex
datatype logic_op = ONullish | OAnd | OOr
datatype context_op = OCtxCwd | OCtxProcess | OCtxSshPrefix | OCtxSearchTerm | OCtxIsDangerous | OCtxEnvironment
datatype named_op = OAssignVar | OArrayPush | OStringSetAdd

datatype (plugins only: code size) texpr =
    EArg nat
  | EString str
  | EBool bool
  | EInteger int
  | ENull
  | EUnary unary_op texpr
  | EBinary binary_op texpr texpr
  | ETernary ternary_op texpr texpr texpr
  | ECallback callback_op texpr texpr
  | EList list_op "texpr list"
  | EFields fields_op "(str \<times> texpr) list"
  | ESpread texpr "(str \<times> texpr) list"
  | ERegexOp regex_op texpr str str
  | ERegexReplace texpr str str texpr
  | ERegex str str
  | ELogic logic_op texpr texpr
  | EIf texpr texpr texpr
  | ELambda "str list" texpr
  | EVar str
  | EArrayShift str
  | ELet str texpr texpr
  | EReturn texpr
  | ECatchReturn texpr
  | EBreak
  | EContinue
  | ETry texpr texpr
  | EForOf "str list" texpr texpr
  | EWhile texpr texpr
  | ENamed named_op str texpr
  | EAssignProp texpr texpr texpr
  | EArrayFlat texpr texpr
  | EStringSliceRange texpr texpr texpr
  | EExec texpr texpr texpr texpr texpr
  | EContext context_op
  | ECtxEnv texpr
  | EThrow str texpr

record hook_param =
  hp_index :: nat
  hp_value_type :: value_type

record typed_hook_ir =
  ir_version :: nat
  ir_kind :: str
  ir_source_field :: str
  ir_result_type :: value_type
  ir_params :: "hook_param list"
  ir_expr :: texpr

text \<open>
  What the language takes from outside: the \<open>Debug\<close> form of strings, the Unicode case tables, the
  conversion of text to doubles (the integer a text denotes, if the double it is rounded to is finite
  and integral; whether a number text is not zero), the JSON library and the regular expressions. A
  regular expression is given by its text.
\<close>

record hook_lib =
  hl_debug :: "str \<Rightarrow> str"
  hl_casing :: "bool \<Rightarrow> rchar \<Rightarrow> str"
  hl_integral_f64 :: "str \<Rightarrow> int option"
  hl_nonzero_f64 :: "str \<Rightarrow> bool"
  hl_parse_json :: "str \<Rightarrow> json option"
  hl_print_json :: "json \<Rightarrow> str"
  rx_new :: "str \<Rightarrow> str + unit"
  rx_is_match :: "str \<Rightarrow> str \<Rightarrow> str + bool"
  rx_find :: "str \<Rightarrow> str \<Rightarrow> str + nat option"
  rx_captures :: "str \<Rightarrow> str \<Rightarrow> str + str option list option"
  rx_captures_iter :: "str \<Rightarrow> str \<Rightarrow> (str + str option list) list"
  rx_replace :: "str \<Rightarrow> bool \<Rightarrow> str \<Rightarrow> str \<Rightarrow> str"
  rx_split :: "str \<Rightarrow> str \<Rightarrow> (str + str) list"

section \<open>The type checker\<close>

definition IR_VERSION :: nat where "IR_VERSION = 1"
definition MAX_NODES :: nat where "MAX_NODES = 512"
definition MAX_DEPTH :: nat where "MAX_DEPTH = 24"

definition type_name :: "value_type \<Rightarrow> str" where
  "type_name ty =
     (case ty of TString \<Rightarrow> lit ''String'' | TBool \<Rightarrow> lit ''Bool'' | TInteger \<Rightarrow> lit ''Integer''
      | TStringArray \<Rightarrow> lit ''StringArray'' | TJson \<Rightarrow> lit ''Json'' | TJsonArray \<Rightarrow> lit ''JsonArray''
      | TSuggestion \<Rightarrow> lit ''Suggestion'' | TSuggestionArray \<Rightarrow> lit ''SuggestionArray''
      | TStringRecord \<Rightarrow> lit ''StringRecord'' | TStringSet \<Rightarrow> lit ''StringSet'' | TValueArray \<Rightarrow> lit ''ValueArray''
      | TRegex \<Rightarrow> lit ''Regex'' | TNull \<Rightarrow> lit ''Null'' | TExec \<Rightarrow> lit ''Exec'' | TContext \<Rightarrow> lit ''Context''
      | TExecResult \<Rightarrow> lit ''ExecResult'' | TSpec \<Rightarrow> lit ''Spec'')"

definition types_compatible :: "value_type \<Rightarrow> value_type \<Rightarrow> bool" where
  "types_compatible actual expected \<longleftrightarrow>
     (case expected of
        TSuggestionArray \<Rightarrow> actual \<in> {TValueArray, TJson, TJsonArray, TSuggestion, TStringArray, TNull}
      | TStringArray \<Rightarrow> actual \<in> {TValueArray, TJson, TJsonArray, TNull, TStringSet}
      | TSuggestion \<Rightarrow> actual \<in> {TJson, TNull, TStringRecord}
      | TJson \<Rightarrow> actual \<in> {TSuggestion, TString, TInteger, TBool, TSpec, TExecResult}
      | TValueArray \<Rightarrow> actual \<in> {TStringArray, TJson, TNull}
      | TString \<Rightarrow> actual \<in> {TJson, TNull}
      | TInteger \<Rightarrow> actual \<in> {TJson, TNull}
      | TBool \<Rightarrow> actual \<in> {TJson, TNull}
      | TJsonArray \<Rightarrow> actual \<in> {TJson, TNull}
      | TSpec \<Rightarrow> actual \<in> {TJson, TNull, TSuggestion}
      | _ \<Rightarrow> False)"

text \<open>
  A checker takes the depth, the path for messages, the expected type and the number of nodes so far,
  and gives a type and the new number of nodes, or an error.
\<close>

type_synonym typing = "(value_type \<times> nat) hook_result"
type_synonym checker = "nat \<Rightarrow> str \<Rightarrow> value_type option \<Rightarrow> nat \<Rightarrow> typing"

definition node :: "nat \<Rightarrow> str \<Rightarrow> nat \<Rightarrow> (nat \<Rightarrow> typing) \<Rightarrow> typing" where
  "node depth path nodes k =
     (if nodes + 1 > MAX_NODES \<or> depth > MAX_DEPTH then Inl (error_new (path @ lit '' exceeds typed hook complexity limits''))
      else k (nodes + 1))"

definition show_expected :: "value_type option \<Rightarrow> str" where
  "show_expected expected = (case expected of None \<Rightarrow> lit ''None'' | Some ty \<Rightarrow> lit ''Some('' @ type_name ty @ lit '')'')"

definition check_child :: "checker \<Rightarrow> nat \<Rightarrow> str \<Rightarrow> str \<Rightarrow> value_type option \<Rightarrow> nat \<Rightarrow> typing" where
  "check_child check depth path name expected nodes =
     (let field = path @ lit ''.'' @ name in
      and_then (check (depth + 1) field expected nodes) (\<lambda>(ty, n).
        case expected of
          Some want \<Rightarrow> if want \<noteq> ty \<and> \<not> types_compatible ty want
            then Inl (error_new (field @ lit '' has type '' @ type_name ty @ lit '', expected '' @ show_expected expected))
            else Inr (ty, n)
        | None \<Rightarrow> Inr (ty, n)))"

text \<open>The children of a list, each with the name \<open>kind[index]\<close> and no expectation; the last type.\<close>

fun children :: "checker list \<Rightarrow> nat \<Rightarrow> str \<Rightarrow> (nat \<Rightarrow> str) \<Rightarrow> nat \<Rightarrow> value_type \<Rightarrow> nat \<Rightarrow> typing" where
  "children [] depth path name index ty nodes = Inr (ty, nodes)"
| "children (check # checks) depth path name index ty nodes =
     and_then (check_child check depth path (name index) None nodes) (\<lambda>(ty', n).
       children checks depth path name (index + 1) ty' n)"

definition indexed :: "string \<Rightarrow> string \<Rightarrow> nat \<Rightarrow> str" where
  "indexed kind rest index = lit kind @ lit ''['' @ show_nat index @ lit '']'' @ lit rest"

definition unary_field :: "unary_op \<Rightarrow> str" where
  "unary_field op = (if op = OMathMax then lit ''values'' else lit ''value'')"

definition unary_operand :: "unary_op \<Rightarrow> value_type option" where
  "unary_operand op =
     (if op \<in> {OStringTrim, OStringTrimStart, OStringTrimEnd, OStringToLower, OStringToUpper} then Some TString else None)"

definition unary_type :: "unary_op \<Rightarrow> value_type option \<Rightarrow> value_type" where
  "unary_type op expected =
     (case op of
        OLength \<Rightarrow> TInteger | OStringTrim \<Rightarrow> TString | OStringTrimStart \<Rightarrow> TString | OStringTrimEnd \<Rightarrow> TString
      | OStringToLower \<Rightarrow> TString | OStringToUpper \<Rightarrow> TString | ONot \<Rightarrow> TBool | OTruthy \<Rightarrow> TBool
      | OTypeof \<Rightarrow> TString | OToString \<Rightarrow> TString | OJsonStringify \<Rightarrow> TString | OObjectKeys \<Rightarrow> TStringArray
      | OObjectEntries \<Rightarrow> TValueArray | OObjectValues \<Rightarrow> TValueArray | OArrayEntries \<Rightarrow> TValueArray
      | OArrayFrom \<Rightarrow> TValueArray | OJsonArrayItems \<Rightarrow> TValueArray
      | OArrayReverse \<Rightarrow> unwrap_or TValueArray expected | OArrayPop \<Rightarrow> unwrap_or TJson expected
      | OJsonParse \<Rightarrow> TJson | OJsonAsString \<Rightarrow> TString | OJsonAsNumber \<Rightarrow> TInteger | OJsonAsBool \<Rightarrow> TBool
      | OMathMax \<Rightarrow> TInteger | OStringSet \<Rightarrow> TStringSet)"

definition binary_fields :: "binary_op \<Rightarrow> str \<times> str" where
  "binary_fields op =
     (if op \<in> {OStringIncludes, OStringIndexOf, OStringLastIndexOf, OStringSliceAfterFirst, OStringStartsWith,
               OStringEndsWith, OArrayIncludes, OArrayIndexOf} then (lit ''value'', lit ''needle'')
      else if op = OStringSlice then (lit ''value'', lit ''start'')
      else if op \<in> {OStringSplit, OArrayJoin} then (lit ''value'', lit ''separator'')
      else if op = OStringRepeat then (lit ''value'', lit ''count'')
      else if op \<in> {OStringCharAt, OStringAt, OArrayIndex} then (lit ''value'', lit ''index'')
      else if op \<in> {OGet, OJsonGet} then (lit ''value'', lit ''key'')
      else (lit ''left'', lit ''right''))"

definition binary_operands :: "binary_op \<Rightarrow> value_type option \<times> value_type option" where
  "binary_operands op =
     (if op \<in> {OStringIncludes, OStringIndexOf, OStringLastIndexOf, OStringSliceAfterFirst, OStringSplit,
               OStringStartsWith, OStringEndsWith} then (Some TString, Some TString)
      else if op \<in> {OStringSlice, OStringRepeat, OStringCharAt, OStringAt} then (Some TString, Some TInteger)
      else if op \<in> {OAdd, OSub, OMul, OLessThan, OLessThanOrEqual, OGreaterThan, OGreaterThanOrEqual}
        then (Some TInteger, Some TInteger)
      else (None, None))"

definition binary_type :: "binary_op \<Rightarrow> value_type option \<Rightarrow> value_type" where
  "binary_type op expected =
     (case op of
        OStringIncludes \<Rightarrow> TBool | OStringIndexOf \<Rightarrow> TInteger | OStringLastIndexOf \<Rightarrow> TInteger
      | OStringSlice \<Rightarrow> TString | OStringSliceAfterFirst \<Rightarrow> TString | OStringSplit \<Rightarrow> TStringArray
      | OStringStartsWith \<Rightarrow> TBool | OStringEndsWith \<Rightarrow> TBool | OStringRepeat \<Rightarrow> TString
      | OStringCharAt \<Rightarrow> TString | OStringAt \<Rightarrow> TString | OArrayIncludes \<Rightarrow> TBool
      | OStrictEq \<Rightarrow> TBool | OStrictNe \<Rightarrow> TBool | OAdd \<Rightarrow> TInteger | OSub \<Rightarrow> TInteger | OMul \<Rightarrow> TInteger
      | OLessThan \<Rightarrow> TBool | OLessThanOrEqual \<Rightarrow> TBool | OGreaterThan \<Rightarrow> TBool | OGreaterThanOrEqual \<Rightarrow> TBool
      | OLooseEq \<Rightarrow> TBool | OLooseNe \<Rightarrow> TBool | OGet \<Rightarrow> unwrap_or TJson expected
      | OJsonGet \<Rightarrow> unwrap_or TJson expected | OArrayJoin \<Rightarrow> TString | OArrayIndexOf \<Rightarrow> TInteger
      | OArrayIndex \<Rightarrow> unwrap_or TJson expected | OLocaleCompare \<Rightarrow> TInteger)"

definition is_string_literal :: "texpr \<Rightarrow> str \<Rightarrow> bool" where
  "is_string_literal e expected = (case e of EString s \<Rightarrow> s = expected | _ \<Rightarrow> False)"

text \<open>What is checked after both operands.\<close>

definition binary_check :: "binary_op \<Rightarrow> str \<Rightarrow> value_type \<Rightarrow> texpr \<Rightarrow> unit hook_result" where
  "binary_check op path left_type right =
     (if op = OStringSliceAfterFirst \<and> \<not> is_string_literal right (lit '':'')
      then Inl (error_new (path @ lit ''.needle must be the closed getQueryTerm colon literal''))
      else if op \<in> {OStrictEq, OStrictNe} \<and> left_type \<in> {TStringArray, TValueArray, TSuggestionArray, TJsonArray}
      then Inl (error_new (path @ lit '' cannot compare arrays by identity''))
      else Inr ())"

definition ternary_fields :: "ternary_op \<Rightarrow> str \<times> str" where
  "ternary_fields op =
     (case op of OStringSubstring \<Rightarrow> (lit ''start'', lit ''end'') | OStringReplace \<Rightarrow> (lit ''needle'', lit ''replacement'')
      | OStringReplaceAll \<Rightarrow> (lit ''needle'', lit ''replacement'') | OStringPadStart \<Rightarrow> (lit ''target'', lit ''pad'')
      | OStringPadEnd \<Rightarrow> (lit ''target'', lit ''pad'') | OArraySlice \<Rightarrow> (lit ''start'', lit ''end'')
      | OStringSplitLimit \<Rightarrow> (lit ''separator'', lit ''limit'') | OStringIndexOfFrom \<Rightarrow> (lit ''needle'', lit ''start'')
      | OArrayIndexOfFrom \<Rightarrow> (lit ''needle'', lit ''start''))"

definition ternary_operands :: "ternary_op \<Rightarrow> value_type option \<times> value_type option \<times> value_type option" where
  "ternary_operands op =
     (case op of OStringSubstring \<Rightarrow> (Some TString, Some TInteger, Some TInteger)
      | OStringReplace \<Rightarrow> (Some TString, Some TString, Some TString)
      | OStringReplaceAll \<Rightarrow> (Some TString, Some TString, Some TString)
      | OStringPadStart \<Rightarrow> (Some TString, Some TInteger, Some TString)
      | OStringPadEnd \<Rightarrow> (Some TString, Some TInteger, Some TString)
      | _ \<Rightarrow> (None, None, None))"

definition ternary_type :: "ternary_op \<Rightarrow> value_type option \<Rightarrow> value_type" where
  "ternary_type op expected =
     (case op of OArraySlice \<Rightarrow> unwrap_or TValueArray expected | OStringSplitLimit \<Rightarrow> TStringArray
      | OStringIndexOfFrom \<Rightarrow> TInteger | OArrayIndexOfFrom \<Rightarrow> TInteger | _ \<Rightarrow> TString)"

definition ternary_check :: "ternary_op \<Rightarrow> str \<Rightarrow> texpr \<Rightarrow> unit hook_result" where
  "ternary_check op path needle =
     (if op \<in> {OStringReplace, OStringReplaceAll} \<and> \<not> (case needle of EString _ \<Rightarrow> True | _ \<Rightarrow> False)
      then Inl (error_new (path @ lit ''.needle must be a string literal'')) else Inr ())"

definition callback_type :: "callback_op \<Rightarrow> value_type option \<Rightarrow> value_type" where
  "callback_type op expected =
     (case op of OArraySome \<Rightarrow> TBool | OArrayEvery \<Rightarrow> TBool | OArrayFind \<Rightarrow> TJson | OArrayFindIndex \<Rightarrow> TInteger
      | _ \<Rightarrow> unwrap_or TValueArray expected)"

definition list_field :: "list_op \<Rightarrow> string" where
  "list_field op = (if op \<in> {OStringConcat, OObjectAssign, OArrayConcat} then ''parts'' else ''items'')"

definition list_type :: "list_op \<Rightarrow> value_type option \<Rightarrow> value_type \<Rightarrow> value_type" where
  "list_type op expected last_type =
     (case op of OArray \<Rightarrow> TValueArray | OStringConcat \<Rightarrow> TString | OBlock \<Rightarrow> unwrap_or last_type expected
      | OSeq \<Rightarrow> unwrap_or last_type expected | OObjectAssign \<Rightarrow> unwrap_or TSuggestion expected
      | OArrayConcat \<Rightarrow> unwrap_or TValueArray expected | OPar \<Rightarrow> TValueArray)"

definition fields_type :: "fields_op \<Rightarrow> value_type" where
  "fields_type op = (case op of OObject \<Rightarrow> TSuggestion | OJsonObject \<Rightarrow> TJson | OSpecObject \<Rightarrow> TSpec)"

definition regex_type :: "regex_op \<Rightarrow> value_type" where
  "regex_type op = (case op of ORegexTest \<Rightarrow> TBool | ORegexSearch \<Rightarrow> TInteger | OStringSplitRegex \<Rightarrow> TStringArray | _ \<Rightarrow> TValueArray)"

definition context_type :: "context_op \<Rightarrow> value_type" where
  "context_type op = (case op of OCtxIsDangerous \<Rightarrow> TBool | OCtxEnvironment \<Rightarrow> TStringRecord | _ \<Rightarrow> TString)"

definition join_types :: "value_type \<Rightarrow> value_type \<Rightarrow> value_type" where
  "join_types a b = (if a = b then a else TJson)"

definition logic_type :: "logic_op \<Rightarrow> value_type option \<Rightarrow> value_type \<Rightarrow> value_type \<Rightarrow> value_type" where
  "logic_type op expected left_type right_type =
     (if op = ONullish then
        if left_type = TNull then right_type
        else if right_type = TNull \<or> left_type = right_type then left_type else TJson
      else unwrap_or (join_types left_type right_type) expected)"

definition validate_regex_literal :: "hook_lib \<Rightarrow> str \<Rightarrow> str \<Rightarrow> str \<Rightarrow> unit hook_result" where
  "validate_regex_literal lib pattern flags path =
     (if length (encode_utf16 pattern) > 4 * 1024 then Inl (error_new (path @ lit ''.pattern exceeds the regex unit limit''))
      else if c_v \<in> set flags then Inl (error_new (path @ lit ''.flags must not include v''))
      else case rx_new lib pattern of
        Inr _ \<Rightarrow> Inr ()
      | Inl message \<Rightarrow> Inl (error_new (path @ lit ''.pattern is not a valid regex: '' @ message)))"

definition named :: "str \<Rightarrow> str \<Rightarrow> unit hook_result" where
  "named path name = (if name = [] then Inl (error_new (path @ lit ''.name must be a non-empty string'')) else Inr ())"

text \<open>The arms of \<open>validate_expr\<close> with children of their own, over the checkers of the children.\<close>

definition check_unary :: "unary_op \<Rightarrow> checker \<Rightarrow> checker" where
  "check_unary op value depth path expected nodes =
     and_then (check_child value depth path (unary_field op) (unary_operand op) nodes) (\<lambda>(_, n). Inr (unary_type op expected, n))"

definition check_binary :: "binary_op \<Rightarrow> checker \<Rightarrow> checker \<Rightarrow> texpr \<Rightarrow> checker" where
  "check_binary op left right right_expr depth path expected nodes =
     and_then (check_child left depth path (fst (binary_fields op)) (fst (binary_operands op)) nodes) (\<lambda>(left_type, n).
     and_then (check_child right depth path (snd (binary_fields op)) (snd (binary_operands op)) n) (\<lambda>(_, n).
     and_then (binary_check op path left_type right_expr) (\<lambda>_. Inr (binary_type op expected, n))))"

definition check_ternary :: "ternary_op \<Rightarrow> checker \<Rightarrow> checker \<Rightarrow> texpr \<Rightarrow> checker \<Rightarrow> checker" where
  "check_ternary op first second second_expr third depth path expected nodes =
     (case ternary_operands op of (a, b, c) \<Rightarrow>
        and_then (check_child first depth path (lit ''value'') a nodes) (\<lambda>(_, n).
        and_then (check_child second depth path (fst (ternary_fields op)) b n) (\<lambda>(_, n).
        and_then (ternary_check op path second_expr) (\<lambda>_.
        and_then (check_child third depth path (snd (ternary_fields op)) c n) (\<lambda>(_, n). Inr (ternary_type op expected, n))))))"

definition check_callback :: "callback_op \<Rightarrow> checker \<Rightarrow> checker \<Rightarrow> checker" where
  "check_callback op value callback depth path expected nodes =
     and_then (check_child value depth path (lit ''value'') None nodes) (\<lambda>(_, n).
     and_then (check_child callback depth path (lit ''fn'') None n) (\<lambda>(_, n). Inr (callback_type op expected, n)))"

definition check_list :: "list_op \<Rightarrow> checker list \<Rightarrow> checker" where
  "check_list op items depth path expected nodes =
     (if op = OStringConcat \<and> items = [] then Inl (error_new (path @ lit ''.parts must be a non-empty array''))
      else and_then (children items depth path (indexed (list_field op) []) 0 TNull nodes) (\<lambda>(last_type, n).
        Inr (list_type op expected last_type, n)))"

definition check_fields :: "fields_op \<Rightarrow> checker list \<Rightarrow> checker" where
  "check_fields op members depth path expected nodes =
     and_then (children members depth path (indexed ''fields'' ''.value'') 0 TNull nodes) (\<lambda>(_, n). Inr (fields_type op, n))"

definition check_spread :: "checker \<Rightarrow> checker list \<Rightarrow> checker" where
  "check_spread value members depth path expected nodes =
     and_then (check_child value depth path (lit ''value'') None nodes) (\<lambda>(_, n).
     and_then (children members depth path (indexed ''fields'' ''.value'') 0 TNull n) (\<lambda>(_, n). Inr (TSuggestion, n)))"

definition check_logic :: "logic_op \<Rightarrow> checker \<Rightarrow> checker \<Rightarrow> checker" where
  "check_logic op left right depth path expected nodes =
     and_then (check_child left depth path (lit ''left'') None nodes) (\<lambda>(left_type, n).
     and_then (check_child right depth path (lit ''right'') None n) (\<lambda>(right_type, n).
       Inr (logic_type op expected left_type right_type, n)))"

definition check_if :: "checker \<Rightarrow> checker \<Rightarrow> checker \<Rightarrow> checker" where
  "check_if condition then_branch else_branch depth path expected nodes =
     and_then (check_child condition depth path (lit ''condition'') None nodes) (\<lambda>(_, n).
     and_then (check_child then_branch depth path (lit ''then'') expected n) (\<lambda>(then_type, n).
     and_then (check_child else_branch depth path (lit ''else'') expected n) (\<lambda>(else_type, n).
       Inr (unwrap_or (join_types then_type else_type) expected, n))))"

text \<open>Children without expectation, one after the other.\<close>

fun check_all :: "(checker \<times> str) list \<Rightarrow> nat \<Rightarrow> str \<Rightarrow> nat \<Rightarrow> nat hook_result" where
  "check_all [] depth path nodes = Inr nodes"
| "check_all ((check, name) # rest) depth path nodes =
     and_then (check_child check depth path name None nodes) (\<lambda>(_, n). check_all rest depth path n)"

definition check_exec :: "checker \<Rightarrow> checker \<Rightarrow> checker \<Rightarrow> checker \<Rightarrow> checker \<Rightarrow> checker" where
  "check_exec command args cwd env timeout depth path expected nodes =
     and_then (check_child command depth path (lit ''command'') (Some TString) nodes) (\<lambda>(_, n).
     and_then (check_child args depth path (lit ''args'') (Some TStringArray) n) (\<lambda>(_, n).
     and_then (check_all [(cwd, lit ''cwd''), (env, lit ''env''), (timeout, lit ''timeout'')] depth path n) (\<lambda>n.
       Inr (TExecResult, n))))"

primrec validate_expr :: "hook_lib \<Rightarrow> hook_param list \<Rightarrow> texpr \<Rightarrow> checker" where
  "validate_expr lib params (EArg index) = (\<lambda>depth path expected nodes. node depth path nodes (\<lambda>n.
     if index < length params then Inr (hp_value_type (params ! index), n)
     else Inl (error_new (path @ lit ''.index '' @ show_nat index @ lit '' is outside the parameter contract''))))"
| "validate_expr lib params (EString s) = (\<lambda>depth path expected nodes. node depth path nodes (\<lambda>n.
     if length (encode_utf16 s) > MAX_STRING_LITERAL_UNITS then Inl (error_new (path @ lit '' exceeds 32768 UTF-16 code units''))
     else Inr (TString, n)))"
| "validate_expr lib params (EBool b) = (\<lambda>depth path expected nodes. node depth path nodes (\<lambda>n. Inr (TBool, n)))"
| "validate_expr lib params ENull = (\<lambda>depth path expected nodes. node depth path nodes (\<lambda>n. Inr (TNull, n)))"
| "validate_expr lib params (EInteger i) = (\<lambda>depth path expected nodes. node depth path nodes (\<lambda>n.
     and_then (ensure_safe_integer i path) (\<lambda>_. Inr (TInteger, n))))"
| "validate_expr lib params (EUnary op v) = (\<lambda>depth path expected nodes. node depth path nodes (\<lambda>n.
     check_unary op (validate_expr lib params v) depth path expected n))"
| "validate_expr lib params (EBinary op l r) = (\<lambda>depth path expected nodes. node depth path nodes (\<lambda>n.
     check_binary op (validate_expr lib params l) (validate_expr lib params r) r depth path expected n))"
| "validate_expr lib params (ETernary op a b c) = (\<lambda>depth path expected nodes. node depth path nodes (\<lambda>n.
     check_ternary op (validate_expr lib params a) (validate_expr lib params b) b (validate_expr lib params c) depth path expected n))"
| "validate_expr lib params (ECallback op v f) = (\<lambda>depth path expected nodes. node depth path nodes (\<lambda>n.
     check_callback op (validate_expr lib params v) (validate_expr lib params f) depth path expected n))"
| "validate_expr lib params (EList op items) = (\<lambda>depth path expected nodes. node depth path nodes (\<lambda>n.
     check_list op (map (validate_expr lib params) items) depth path expected n))"
| "validate_expr lib params (EFields op members) = (\<lambda>depth path expected nodes. node depth path nodes (\<lambda>n.
     check_fields op (map snd (map (map_prod id (validate_expr lib params)) members)) depth path expected n))"
| "validate_expr lib params (ESpread v members) = (\<lambda>depth path expected nodes. node depth path nodes (\<lambda>n.
     check_spread (validate_expr lib params v) (map snd (map (map_prod id (validate_expr lib params)) members)) depth path expected n))"
| "validate_expr lib params (ERegexOp op v pattern flags) = (\<lambda>depth path expected nodes. node depth path nodes (\<lambda>n.
     and_then (check_all [(validate_expr lib params v, lit ''value'')] depth path n) (\<lambda>n.
     and_then (validate_regex_literal lib pattern flags path) (\<lambda>_. Inr (regex_type op, n)))))"
| "validate_expr lib params (ERegexReplace v pattern flags new) = (\<lambda>depth path expected nodes. node depth path nodes (\<lambda>n.
     and_then (check_all [(validate_expr lib params v, lit ''value'')] depth path n) (\<lambda>n.
     and_then (validate_regex_literal lib pattern flags path) (\<lambda>_.
     and_then (check_all [(validate_expr lib params new, lit ''replacement'')] depth path n) (\<lambda>n. Inr (TString, n))))))"
| "validate_expr lib params (ERegex pattern flags) = (\<lambda>depth path expected nodes. node depth path nodes (\<lambda>n.
     and_then (validate_regex_literal lib pattern flags path) (\<lambda>_. Inr (TRegex, n))))"
| "validate_expr lib params (ELogic op l r) = (\<lambda>depth path expected nodes. node depth path nodes (\<lambda>n.
     check_logic op (validate_expr lib params l) (validate_expr lib params r) depth path expected n))"
| "validate_expr lib params (EIf c t e) = (\<lambda>depth path expected nodes. node depth path nodes (\<lambda>n.
     check_if (validate_expr lib params c) (validate_expr lib params t) (validate_expr lib params e) depth path expected n))"
| "validate_expr lib params (ELambda names body) = (\<lambda>depth path expected nodes. node depth path nodes (\<lambda>n.
     if [] \<in> set names then Inl (error_new (path @ lit ''.params must be non-empty names''))
     else and_then (check_all [(validate_expr lib params body, lit ''body'')] depth path n) (\<lambda>n. Inr (TJson, n))))"
| "validate_expr lib params (EVar name) = (\<lambda>depth path expected nodes. node depth path nodes (\<lambda>n.
     and_then (named path name) (\<lambda>_. Inr (unwrap_or TJson expected, n))))"
| "validate_expr lib params (EArrayShift name) = (\<lambda>depth path expected nodes. node depth path nodes (\<lambda>n.
     and_then (named path name) (\<lambda>_. Inr (unwrap_or TJson expected, n))))"
| "validate_expr lib params (ELet name v body) = (\<lambda>depth path expected nodes. node depth path nodes (\<lambda>n.
     and_then (named path name) (\<lambda>_.
     and_then (check_all [(validate_expr lib params v, lit ''value'')] depth path n) (\<lambda>n.
       check_child (validate_expr lib params body) depth path (lit ''body'') expected n))))"
| "validate_expr lib params (EReturn v) = (\<lambda>depth path expected nodes. node depth path nodes (\<lambda>n.
     check_child (validate_expr lib params v) depth path (lit ''value'') expected n))"
| "validate_expr lib params (ECatchReturn body) = (\<lambda>depth path expected nodes. node depth path nodes (\<lambda>n.
     check_child (validate_expr lib params body) depth path (lit ''body'') expected n))"
| "validate_expr lib params EBreak = (\<lambda>depth path expected nodes. node depth path nodes (\<lambda>n. Inr (TNull, n)))"
| "validate_expr lib params EContinue = (\<lambda>depth path expected nodes. node depth path nodes (\<lambda>n. Inr (TNull, n)))"
| "validate_expr lib params (ETry body handler) = (\<lambda>depth path expected nodes. node depth path nodes (\<lambda>n.
     and_then (check_child (validate_expr lib params body) depth path (lit ''body'') expected n) (\<lambda>(_, n).
       check_child (validate_expr lib params handler) depth path (lit ''catch'') expected n)))"
| "validate_expr lib params (EForOf names v body) = (\<lambda>depth path expected nodes. node depth path nodes (\<lambda>n.
     if names = [] \<or> [] \<in> set names then Inl (error_new (path @ lit ''.names must be a non-empty string array''))
     else and_then (check_all [(validate_expr lib params v, lit ''value''), (validate_expr lib params body, lit ''body'')] depth path n)
       (\<lambda>n. Inr (TNull, n))))"
| "validate_expr lib params (EWhile c body) = (\<lambda>depth path expected nodes. node depth path nodes (\<lambda>n.
     and_then (check_all [(validate_expr lib params c, lit ''condition''), (validate_expr lib params body, lit ''body'')] depth path n)
       (\<lambda>n. Inr (TNull, n))))"
| "validate_expr lib params (ENamed op name v) = (\<lambda>depth path expected nodes. node depth path nodes (\<lambda>n.
     and_then (named path name) (\<lambda>_.
       if op = OAssignVar then check_child (validate_expr lib params v) depth path (lit ''value'') None n
       else and_then (check_all [(validate_expr lib params v, lit ''item'')] depth path n) (\<lambda>n.
         Inr (if op = OArrayPush then TInteger else TStringSet, n)))))"
| "validate_expr lib params (EAssignProp obj key v) = (\<lambda>depth path expected nodes. node depth path nodes (\<lambda>n.
     and_then (check_all [(validate_expr lib params obj, lit ''object''), (validate_expr lib params key, lit ''key'')] depth path n) (\<lambda>n.
       check_child (validate_expr lib params v) depth path (lit ''value'') None n)))"
| "validate_expr lib params (EArrayFlat v d) = (\<lambda>depth path expected nodes. node depth path nodes (\<lambda>n.
     and_then (check_all [(validate_expr lib params v, lit ''value''), (validate_expr lib params d, lit ''depth'')] depth path n)
       (\<lambda>n. Inr (TValueArray, n))))"
| "validate_expr lib params (EStringSliceRange v a b) = (\<lambda>depth path expected nodes. node depth path nodes (\<lambda>n.
     and_then (check_all [(validate_expr lib params v, lit ''value''), (validate_expr lib params a, lit ''start''),
       (validate_expr lib params b, lit ''end'')] depth path n) (\<lambda>n. Inr (TString, n))))"
| "validate_expr lib params (EExec command args cwd env timeout) = (\<lambda>depth path expected nodes. node depth path nodes (\<lambda>n.
     check_exec (validate_expr lib params command) (validate_expr lib params args) (validate_expr lib params cwd)
       (validate_expr lib params env) (validate_expr lib params timeout) depth path expected n))"
| "validate_expr lib params (EContext op) = (\<lambda>depth path expected nodes. node depth path nodes (\<lambda>n. Inr (context_type op, n)))"
| "validate_expr lib params (ECtxEnv name) = (\<lambda>depth path expected nodes. node depth path nodes (\<lambda>n.
     and_then (check_child (validate_expr lib params name) depth path (lit ''name'') (Some TString) n) (\<lambda>(_, n). Inr (TString, n))))"
| "validate_expr lib params (EThrow class_name message) = (\<lambda>depth path expected nodes. node depth path nodes (\<lambda>n.
     and_then (check_child (validate_expr lib params message) depth path (lit ''message'') (Some TString) n) (\<lambda>(_, n).
       Inr (unwrap_or TNull expected, n))))"

section \<open>Descriptors\<close>

text \<open>The contracts of the hook fields: the label, the result type and the types of the parameters.\<close>

definition typed_hook_contract :: "str \<Rightarrow> (str \<times> value_type \<times> value_type list) option" where
  "typed_hook_contract source_field =
     map_option (\<lambda>(result, params). (source_field, result, params)) (map_of
       [(lit ''trigger'', TBool, [TString, TString]),
        (lit ''getQueryTerm'', TString, [TString]),
        (lit ''postProcess'', TSuggestionArray, [TString, TStringArray]),
        (lit ''script'', TStringArray, [TStringArray]),
        (lit ''filterTemplateSuggestions'', TSuggestionArray, [TSuggestionArray]),
        (lit ''custom'', TSuggestionArray, [TStringArray, TExec, TContext]),
        (lit ''alias'', TString, [TString, TExec]),
        (lit ''loadSpec'', TSpec, [TString, TExec]),
        (lit ''generateSpec'', TSpec, [TStringArray, TExec])] source_field)"

text \<open>The first parameter that does not fit its contract.\<close>

fun validate_params :: "str \<Rightarrow> nat \<Rightarrow> hook_param list \<Rightarrow> value_type list \<Rightarrow> unit hook_result" where
  "validate_params label index (param # params) (want # wants) =
     (if hp_index param \<noteq> index \<or> hp_value_type param \<noteq> want
      then Inl (error_new (label @ lit '' parameter '' @ show_nat index @ lit '' must be '' @ type_name want @ lit '' with matching index''))
      else validate_params label (index + 1) params wants)"
| "validate_params label index _ _ = Inr ()"

definition validate_typed_hook_ir :: "hook_lib \<Rightarrow> typed_hook_ir \<Rightarrow> unit hook_result" where
  "validate_typed_hook_ir lib descriptor =
     (if ir_version descriptor \<noteq> IR_VERSION
      then Inl (error_new (lit ''typed hook version '' @ show_nat (ir_version descriptor) @ lit '' is unsupported''))
      else if ir_kind descriptor \<noteq> lit ''typed-hook-expression''
      then Inl (error_new (lit ''typed hook kind '' @ hl_debug lib (ir_kind descriptor) @ lit '' is unsupported''))
      else case typed_hook_contract (ir_source_field descriptor) of
        None \<Rightarrow> Inl (error_new (lit ''typed hook source field '' @ hl_debug lib (ir_source_field descriptor) @ lit '' is unsupported''))
      | Some (label, want, wants) \<Rightarrow>
          if ir_result_type descriptor \<noteq> want
          then Inl (error_new (label @ lit '' typed hook resultType does not match its contract''))
          else if length (ir_params descriptor) \<noteq> length wants
          then Inl (error_new (label @ lit '' typed hook requires exactly '' @ show_nat (length wants) @ lit '' params''))
          else and_then (validate_params label 0 (ir_params descriptor) wants) (\<lambda>_.
            and_then (validate_expr lib (ir_params descriptor) (ir_expr descriptor) 0 (lit ''expr'') (Some (ir_result_type descriptor)) 0)
              (\<lambda>(ty, _). if ty \<noteq> ir_result_type descriptor \<and> \<not> types_compatible ty (ir_result_type descriptor)
                then Inl (error_new (lit ''expression result type '' @ type_name ty @ lit '' does not match descriptor resultType '' @
                  type_name (ir_result_type descriptor))) else Inr ())))"

end
