(* ===== verification/Hook_Value.thy ===== *)
theory Hook_Value
  imports Typed_Hook
begin

text \<open>
  The values of the hook language and the operations of JavaScript on them (\<open>typed_hook/eval.rs\<close>
  985--1560, and the conversions to and from JSON of \<open>typed_hook/mod.rs\<close>): coercions, truth and
  equality, properties, arrays, regular expressions. Everything here is a function of values; the
  evaluator is in the next theory.
\<close>

section \<open>Values and JSON\<close>

datatype (plugins only: code size) tvalue =
    VString utf16 | VBool bool | VInteger int | VStringArray "utf16 list" | VArray "tvalue list"
  | VObject "(str \<times> tvalue) list" | VStringSet "utf16 list" | VRegex str str | VJson json | VNull

abbreviation vstr :: "str \<Rightarrow> tvalue" where "vstr s \<equiv> VString (encode_utf16 s)"

text \<open>A \<open>serde_json::Map\<close> is a \<open>BTreeMap\<close>: its members in the order of their keys, each once.\<close>

fun map_insert :: "'k::linorder \<Rightarrow> 'v \<Rightarrow> ('k \<times> 'v) list \<Rightarrow> ('k \<times> 'v) list" where
  "map_insert key v [] = [(key, v)]"
| "map_insert key v ((k, w) # members) =
     (if key < k then (key, v) # (k, w) # members
      else if key = k then (key, v) # members
      else (k, w) # map_insert key v members)"

definition json_map :: "(str \<times> json) list \<Rightarrow> json_object" where
  "json_map members = fold (\<lambda>(k, v). map_insert k v) members []"

definition json_of_i64 :: "int \<Rightarrow> json" where
  "json_of_i64 i = JNumber (if i \<ge> 0 then PosInt (nat i) else NegInt i)"

definition json_of_units :: "utf16 \<Rightarrow> json hook_result" where
  "json_of_units us =
     (case from_utf16 us of
        Inl message \<Rightarrow> Inl (error_new (lit ''evaluated string is not valid UTF-16: '' @ message))
      | Inr s \<Rightarrow> Inr (JString s))"

definition json_of_array :: "json hook_result list \<Rightarrow> json hook_result" where
  "json_of_array items = and_then (collect_results items) (\<lambda>vs. Inr (JArray vs))"

definition json_of_object :: "(str \<times> json hook_result) list \<Rightarrow> json hook_result" where
  "json_of_object members =
     and_then (collect_results (map (\<lambda>(k, r). and_then r (\<lambda>j. Inr (k, j))) members)) (\<lambda>kvs. Inr (JObject (json_map kvs)))"

primrec typed_value_to_json :: "tvalue \<Rightarrow> json hook_result" where
  "typed_value_to_json (VString us) = json_of_units us"
| "typed_value_to_json (VBool b) = Inr (JBool b)"
| "typed_value_to_json (VInteger i) = Inr (json_of_i64 i)"
| "typed_value_to_json (VStringArray items) = json_of_array (map json_of_units items)"
| "typed_value_to_json (VArray items) = json_of_array (map typed_value_to_json items)"
| "typed_value_to_json (VObject members) = json_of_object (map (map_prod id typed_value_to_json) members)"
| "typed_value_to_json (VStringSet items) = json_of_array (map json_of_units items)"
| "typed_value_to_json (VRegex pattern flags) =
     Inr (JObject (json_map [(lit ''pattern'', JString pattern), (lit ''flags'', JString flags)]))"
| "typed_value_to_json (VJson j) = Inr j"
| "typed_value_to_json VNull = Inr JNull"

primrec json_to_value :: "json \<Rightarrow> tvalue" where
  "json_to_value JNull = VNull"
| "json_to_value (JBool b) = VBool b"
| "json_to_value (JNumber n) = (case as_i64 (JNumber n) of Some i \<Rightarrow> VInteger i | None \<Rightarrow> VJson (JNumber n))"
| "json_to_value (JString s) = vstr s"
| "json_to_value (JArray items) = VArray (map json_to_value items)"
| "json_to_value (JObject members) = VObject (map (map_prod id json_to_value) members)"

text \<open>The same conversion is written a second time for arguments.\<close>

definition json_value_to_typed :: "json \<Rightarrow> tvalue" where
  "json_value_to_typed j = json_to_value j"

section \<open>Objects\<close>

text \<open>Own properties in the order of insertion.\<close>

definition object_get :: "(str \<times> tvalue) list \<Rightarrow> str \<Rightarrow> tvalue option" where
  "object_get members key = map_of (rev members) key"

fun object_insert :: "str \<Rightarrow> tvalue \<Rightarrow> (str \<times> tvalue) list \<Rightarrow> (str \<times> tvalue) list" where
  "object_insert key v [] = [(key, v)]"
| "object_insert key v ((k, w) # members) = (if k = key then (k, v) # members else (k, w) # object_insert key v members)"

definition object_assign :: "(str \<times> tvalue) list \<Rightarrow> (str \<times> tvalue) list \<Rightarrow> (str \<times> tvalue) list" where
  "object_assign source target = fold (\<lambda>(k, v). object_insert k v) source target"

definition object_map :: "tvalue \<Rightarrow> (str \<times> tvalue) list" where
  "object_map v =
     (case v of VObject members \<Rightarrow> members
      | VJson (JObject members) \<Rightarrow> map (\<lambda>(k, j). (k, json_to_value j)) members
      | _ \<Rightarrow> [])"

definition object_entries :: "tvalue \<Rightarrow> (str \<times> tvalue) list" where
  "object_entries v =
     (case v of VObject members \<Rightarrow> members
      | VJson (JObject members) \<Rightarrow> map (\<lambda>(k, j). (k, json_to_value j)) members
      | _ \<Rightarrow> [])"

definition object_keys :: "tvalue \<Rightarrow> str list" where
  "object_keys v =
     (case v of VObject members \<Rightarrow> map fst members | VJson (JObject members) \<Rightarrow> map fst members | _ \<Rightarrow> [])"

definition object_length :: "tvalue \<Rightarrow> tvalue option" where
  "object_length v =
     (case v of VObject members \<Rightarrow> object_get members (lit ''length'')
      | VJson (JObject members) \<Rightarrow> map_option json_to_value (map_of members (lit ''length''))
      | _ \<Rightarrow> None)"

text \<open>\<open>str::parse::<usize>\<close>.\<close>

definition parse_usize :: "str \<Rightarrow> nat option" where
  "parse_usize s =
     (let digits = (case s of c # cs \<Rightarrow> if c = c_plus then cs else s | [] \<Rightarrow> []);
          n = fold (\<lambda>c n. n * 10 + (c - 48)) digits 0
      in if digits \<noteq> [] \<and> list_all is_ascii_digit digits \<and> n < 2 ^ 64 then Some n else None)"

definition list_get :: "'a list \<Rightarrow> nat \<Rightarrow> 'a option" where
  "list_get xs i = (if i < length xs then Some (xs ! i) else None)"

definition get_prop :: "tvalue \<Rightarrow> str \<Rightarrow> tvalue" where
  "get_prop v key =
     (case v of
        VObject members \<Rightarrow> unwrap_or VNull (object_get members key)
      | VJson (JObject members) \<Rightarrow> (case map_of members key of Some j \<Rightarrow> json_to_value j | None \<Rightarrow> VNull)
      | VArray items \<Rightarrow>
          (case parse_usize key of
             Some i \<Rightarrow> unwrap_or VNull (list_get items i)
           | None \<Rightarrow> if key = lit ''length'' then VInteger (int (length items)) else VNull)
      | VString us \<Rightarrow> if key = lit ''length'' then VInteger (int (length us)) else VNull
      | _ \<Rightarrow> VNull)"

definition set_prop :: "tvalue \<Rightarrow> str \<Rightarrow> tvalue \<Rightarrow> tvalue" where
  "set_prop v key new =
     (case v of
        VObject members \<Rightarrow> VObject (object_insert key new members)
      | VJson (JObject members) \<Rightarrow>
          (case typed_value_to_json new of
             Inr j \<Rightarrow> VJson (JObject (map_insert key j members)) | Inl _ \<Rightarrow> v)
      | _ \<Rightarrow> VObject (object_insert key new (object_map v)))"

section \<open>Coercions\<close>

definition show_int :: "int \<Rightarrow> str" where
  "show_int i = (if i < 0 then c_dash # show_nat (nat (- i)) else show_nat (nat i))"

definition value_utf16 :: "hook_lib \<Rightarrow> tvalue \<Rightarrow> string \<Rightarrow> utf16 hook_result" where
  "value_utf16 lib v label =
     (case v of
        VString us \<Rightarrow> Inr us
      | VNull \<Rightarrow> Inr (encode_utf16 (lit ''undefined''))
      | VBool b \<Rightarrow> Inr (encode_utf16 (if b then lit ''true'' else lit ''false''))
      | VInteger i \<Rightarrow> Inr (encode_utf16 (show_int i))
      | VJson (JString s) \<Rightarrow> Inr (encode_utf16 s)
      | VJson JNull \<Rightarrow> Inr (encode_utf16 (lit ''null''))
      | other \<Rightarrow>
          (case typed_value_to_json other of
             Inl _ \<Rightarrow> Inl (error_new (lit label @ lit '' is not string-like''))
           | Inr (JString s) \<Rightarrow> Inr (encode_utf16 s)
           | Inr JNull \<Rightarrow> Inr []
           | Inr j \<Rightarrow> Inr (encode_utf16 (hl_print_json lib j))))"

text \<open>The text of a value, as \<open>as_utf16(..)?.to_string_lossy()\<close>.\<close>

definition value_text :: "hook_lib \<Rightarrow> tvalue \<Rightarrow> string \<Rightarrow> str hook_result" where
  "value_text lib v label = and_then (value_utf16 lib v label) (\<lambda>us. Inr (to_string_lossy us))"

text \<open>The cast \<open>number as i64\<close> saturates.\<close>

definition saturate_i64 :: "int \<Rightarrow> int" where "saturate_i64 i = max I64_MIN (min I64_MAX i)"

definition value_i64 :: "hook_lib \<Rightarrow> tvalue \<Rightarrow> string \<Rightarrow> int hook_result" where
  "value_i64 lib v label =
     (let fail = Inl (error_new (lit label @ lit '' is not an integer'')) in
      case v of
        VInteger i \<Rightarrow> Inr i
      | VBool b \<Rightarrow> Inr (if b then 1 else 0)
      | VNull \<Rightarrow> Inr 0
      | VString us \<Rightarrow> (case hl_integral_f64 lib (to_string_lossy us) of Some i \<Rightarrow> Inr (saturate_i64 i) | None \<Rightarrow> fail)
      | VJson (JNumber n) \<Rightarrow> (case as_i64 (JNumber n) of Some i \<Rightarrow> Inr i | None \<Rightarrow> fail)
      | _ \<Rightarrow> fail)"

definition value_array :: "tvalue \<Rightarrow> tvalue list" where
  "value_array v =
     (case v of VArray items \<Rightarrow> items | VStringArray items \<Rightarrow> map VString items | VStringSet items \<Rightarrow> map VString items
      | VJson (JArray items) \<Rightarrow> map json_to_value items | VNull \<Rightarrow> [] | other \<Rightarrow> [other])"

definition is_array_value :: "tvalue \<Rightarrow> bool" where
  "is_array_value v =
     (case v of VArray _ \<Rightarrow> True | VStringArray _ \<Rightarrow> True | VStringSet _ \<Rightarrow> True | VJson (JArray _) \<Rightarrow> True | _ \<Rightarrow> False)"

definition to_js_number :: "hook_lib \<Rightarrow> tvalue \<Rightarrow> tvalue" where
  "to_js_number lib v =
     (if v = VString [] then VInteger 0
      else case value_i64 lib v ''number'' of Inr i \<Rightarrow> VInteger i | Inl _ \<Rightarrow> VNull)"

section \<open>Truth and equality\<close>

definition json_truthy :: "hook_lib \<Rightarrow> json \<Rightarrow> bool" where
  "json_truthy lib j =
     (case j of JNull \<Rightarrow> False | JBool b \<Rightarrow> b
      | JNumber n \<Rightarrow> (case n of PosInt k \<Rightarrow> k \<noteq> 0 | NegInt i \<Rightarrow> i \<noteq> 0 | Float s \<Rightarrow> hl_nonzero_f64 lib s)
      | JString s \<Rightarrow> s \<noteq> [] | JArray items \<Rightarrow> items \<noteq> [] | JObject members \<Rightarrow> members \<noteq> [])"

definition is_truthy :: "hook_lib \<Rightarrow> tvalue \<Rightarrow> bool" where
  "is_truthy lib v =
     (case v of VNull \<Rightarrow> False | VBool b \<Rightarrow> b | VInteger i \<Rightarrow> i \<noteq> 0 | VString us \<Rightarrow> us \<noteq> []
      | VStringArray items \<Rightarrow> items \<noteq> [] | VArray items \<Rightarrow> items \<noteq> [] | VObject members \<Rightarrow> members \<noteq> []
      | VStringSet items \<Rightarrow> items \<noteq> [] | VRegex _ _ \<Rightarrow> True | VJson j \<Rightarrow> json_truthy lib j)"

definition strict_equal :: "tvalue \<Rightarrow> tvalue \<Rightarrow> bool" where
  "strict_equal a b =
     (case (a, b) of
        (VNull, VNull) \<Rightarrow> True
      | (VBool x, VBool y) \<Rightarrow> x = y
      | (VInteger x, VInteger y) \<Rightarrow> x = y
      | (VString x, VString y) \<Rightarrow> x = y
      | (VString x, VJson (JString y)) \<Rightarrow> to_string_lossy x = y
      | (VJson (JString x), VString y) \<Rightarrow> x = to_string_lossy y
      | (VJson x, VJson y) \<Rightarrow> x = y
      | _ \<Rightarrow> False)"

definition loose_equal :: "hook_lib \<Rightarrow> tvalue \<Rightarrow> tvalue \<Rightarrow> bool" where
  "loose_equal lib a b \<longleftrightarrow>
     strict_equal a b \<or>
     (case (value_i64 lib a ''loose'', value_i64 lib b ''loose'') of
        (Inr x, Inr y) \<Rightarrow> x = y
      | _ \<Rightarrow> (case (value_utf16 lib a ''loose'', value_utf16 lib b ''loose'') of (Inr x, Inr y) \<Rightarrow> x = y | _ \<Rightarrow> False))"

definition js_typeof :: "tvalue \<Rightarrow> str" where
  "js_typeof v =
     (case v of VBool _ \<Rightarrow> lit ''boolean'' | VInteger _ \<Rightarrow> lit ''number'' | VString _ \<Rightarrow> lit ''string'' | _ \<Rightarrow> lit ''object'')"

definition locale_rank :: "rchar \<Rightarrow> nat" where
  "locale_rank ch = (if is_ascii_alphanumeric ch then 2 else 1)"

text \<open>Compares the pairs of class and code point.\<close>

fun js_locale_compare :: "str \<Rightarrow> str \<Rightarrow> int" where
  "js_locale_compare [] [] = 0"
| "js_locale_compare [] (_ # _) = - 1"
| "js_locale_compare (_ # _) [] = 1"
| "js_locale_compare (a # as) (b # bs) =
     (if a = b then js_locale_compare as bs
      else if locale_rank a > locale_rank b \<or> (locale_rank a = locale_rank b \<and> a > b) then 1 else - 1)"

section \<open>Arrays and sets\<close>

definition string_set_insert :: "utf16 list \<Rightarrow> utf16 \<Rightarrow> utf16 list" where
  "string_set_insert items item = (if item \<in> set items then items else items @ [item])"

definition array_includes :: "hook_lib \<Rightarrow> tvalue \<Rightarrow> tvalue \<Rightarrow> bool" where
  "array_includes lib v needle =
     (case (v, value_utf16 lib needle ''includes'') of
        (VStringSet items, Inr us) \<Rightarrow> us \<in> set items
      | _ \<Rightarrow> list_ex (\<lambda>item. strict_equal item needle) (value_array v))"

definition safe_len :: "tvalue \<Rightarrow> int hook_result" where
  "safe_len v =
     (let n = (case v of VString us \<Rightarrow> length us | VStringArray items \<Rightarrow> length items | VArray items \<Rightarrow> length items
        | VStringSet items \<Rightarrow> length items | VObject members \<Rightarrow> length members
        | VJson (JString s) \<Rightarrow> length (encode_utf16 s) | VJson (JArray items) \<Rightarrow> length items
        | VJson (JObject members) \<Rightarrow> length members | _ \<Rightarrow> 0)
      in and_then (length_i64 ''length is too large'' n) (\<lambda>i.
         and_then (ensure_safe_integer i (lit ''length'')) (\<lambda>_. Inr i)))"

definition slice_vec :: "'a list \<Rightarrow> int \<Rightarrow> int \<Rightarrow> 'a list" where
  "slice_vec items start_index end_index =
     (let from = int (js_index start_index (length items)); to = relative_index (int (length items)) end_index
      in if from \<ge> to then [] else range_of from to items)"

primrec flatten_depth :: "nat \<Rightarrow> tvalue list \<Rightarrow> tvalue list" where
  "flatten_depth 0 items = items"
| "flatten_depth (Suc d) items =
     concat (map (\<lambda>item. case item of VArray _ \<Rightarrow> flatten_depth d (value_array item)
       | VStringArray _ \<Rightarrow> flatten_depth d (value_array item) | _ \<Rightarrow> [item]) items)"

definition flatten :: "tvalue list \<Rightarrow> int \<Rightarrow> tvalue list" where
  "flatten items depth = flatten_depth (nat depth) items"

text \<open>\<open>iter().position(..)\<close> as an index of JavaScript.\<close>

fun position :: "('a \<Rightarrow> bool) \<Rightarrow> 'a list \<Rightarrow> nat option" where
  "position p [] = None"
| "position p (x # xs) = (if p x then Some 0 else map_option Suc (position p xs))"

definition js_position :: "('a \<Rightarrow> bool) \<Rightarrow> nat \<Rightarrow> 'a list \<Rightarrow> int" where
  "js_position p offset xs = (case position p xs of None \<Rightarrow> - 1 | Some i \<Rightarrow> int (i + offset))"

section \<open>JSON text\<close>

text \<open>
  The visitor behind \<open>JSON.parse\<close>, on the tree the JSON library reads: members in document order,
  repeated keys included. \<open>None\<close> is a number outside \<open>i64\<close>, which fails the whole text.
\<close>

fun collect_options :: "'a option list \<Rightarrow> 'a list option" where
  "collect_options [] = Some []"
| "collect_options (x # xs) = (case x of None \<Rightarrow> None | Some v \<Rightarrow> map_option (Cons v) (collect_options xs))"

primrec visit_js_json :: "json \<Rightarrow> tvalue option" where
  "visit_js_json JNull = Some VNull"
| "visit_js_json (JBool b) = Some (VBool b)"
| "visit_js_json (JNumber n) =
     (case n of PosInt k \<Rightarrow> (if int k \<le> I64_MAX then Some (VInteger (int k)) else None)
      | NegInt i \<Rightarrow> Some (VInteger i) | Float s \<Rightarrow> Some (VJson (JNumber (Float s))))"
| "visit_js_json (JString s) = Some (vstr s)"
| "visit_js_json (JArray items) = map_option VArray (collect_options (map visit_js_json items))"
| "visit_js_json (JObject members) =
     map_option (\<lambda>kvs. VObject (fold (\<lambda>(k, v). object_insert k v) kvs []))
       (collect_options (map (\<lambda>(k, r). map_option (Pair k) r) (map (map_prod id visit_js_json) members)))"

definition parse_js_json :: "hook_lib \<Rightarrow> str \<Rightarrow> tvalue option" where
  "parse_js_json lib txt = Option.bind (hl_parse_json lib txt) visit_js_json"

section \<open>Regular expressions\<close>

text \<open>The text the regular expression is compiled from.\<close>

definition regex_source :: "str \<Rightarrow> str \<Rightarrow> str" where
  "regex_source pattern flags =
     (if of_char (CHR ''i'') \<in> set flags then lit ''(?i)'' else []) @
     (if of_char (CHR ''m'') \<in> set flags then lit ''(?m)'' else []) @
     (if of_char (CHR ''s'') \<in> set flags then lit ''(?s)'' else []) @ pattern"

definition compile_regex :: "hook_lib \<Rightarrow> str \<Rightarrow> str \<Rightarrow> str hook_result" where
  "compile_regex lib pattern flags =
     (let source = regex_source pattern flags in
      case rx_new lib source of Inl message \<Rightarrow> Inl (error_new (lit ''regex compile: '' @ message)) | Inr _ \<Rightarrow> Inr source)"

definition regex_error :: "string \<Rightarrow> str + 'a \<Rightarrow> 'a hook_result" where
  "regex_error what r = (case r of Inl message \<Rightarrow> Inl (error_new (lit what @ message)) | Inr v \<Rightarrow> Inr v)"

definition regex_is_match :: "hook_lib \<Rightarrow> str \<Rightarrow> str \<Rightarrow> str \<Rightarrow> bool hook_result" where
  "regex_is_match lib pattern flags txt =
     and_then (compile_regex lib pattern flags) (\<lambda>rx. regex_error ''regex test: '' (rx_is_match lib rx txt))"

text \<open>A match starts at a character boundary; slicing elsewhere would panic.\<close>

definition regex_search :: "hook_lib \<Rightarrow> str \<Rightarrow> str \<Rightarrow> str \<Rightarrow> int hook_result" where
  "regex_search lib pattern flags txt =
     and_then (compile_regex lib pattern flags) (\<lambda>rx.
     and_then (regex_error ''regex search: '' (rx_find lib rx txt)) (\<lambda>found.
       case found of None \<Rightarrow> Inr (- 1)
       | Some offset \<Rightarrow> (case str_upto txt offset of Some before \<Rightarrow> Inr (int (length (encode_utf16 before)))
          | None \<Rightarrow> Inl (error_new (lit ''panic: not a char boundary'')))))"

definition capture_value :: "str option list \<Rightarrow> tvalue" where
  "capture_value groups = VArray (map (\<lambda>part. vstr (unwrap_or [] part)) groups)"

text \<open>With flag \<open>g\<close> and no parenthesis in the pattern the result is the list of whole matches.\<close>

definition regex_match_all :: "hook_lib \<Rightarrow> str \<Rightarrow> str \<Rightarrow> str \<Rightarrow> tvalue hook_result" where
  "regex_match_all lib pattern flags txt =
     and_then (compile_regex lib pattern flags) (\<lambda>rx.
     and_then (collect_results (map (regex_error ''regex matchAll: '') (rx_captures_iter lib rx txt))) (\<lambda>captures.
       if of_char (CHR ''g'') \<in> set flags \<and> c_lparen \<notin> set pattern
       then Inr (VArray (filter_map (\<lambda>groups. map_option (\<lambda>part. vstr (unwrap_or [] part)) (list_get groups 0)) captures))
       else Inr (VArray (map capture_value captures))))"

definition regex_match :: "hook_lib \<Rightarrow> str \<Rightarrow> str \<Rightarrow> str \<Rightarrow> tvalue hook_result" where
  "regex_match lib pattern flags txt =
     (if of_char (CHR ''g'') \<in> set flags then
        and_then (regex_match_all lib pattern flags txt) (\<lambda>v. Inr (if v = VArray [] then VNull else v))
      else and_then (compile_regex lib pattern flags) (\<lambda>rx.
        and_then (regex_error ''regex match: '' (rx_captures lib rx txt)) (\<lambda>found.
          Inr (case found of None \<Rightarrow> VNull | Some groups \<Rightarrow> capture_value groups))))"

definition regex_replace :: "hook_lib \<Rightarrow> str \<Rightarrow> str \<Rightarrow> str \<Rightarrow> str \<Rightarrow> str hook_result" where
  "regex_replace lib pattern flags txt new =
     and_then (compile_regex lib pattern flags) (\<lambda>rx. Inr (rx_replace lib rx (of_char (CHR ''g'') \<in> set flags) txt new))"

definition regex_split :: "hook_lib \<Rightarrow> str \<Rightarrow> str \<Rightarrow> str \<Rightarrow> str list hook_result" where
  "regex_split lib pattern flags txt =
     and_then (compile_regex lib pattern flags) (\<lambda>rx.
       Inr (filter_map (\<lambda>r. case r of Inl _ \<Rightarrow> None | Inr part \<Rightarrow> Some part) (rx_split lib rx txt)))"

end
