(* ===== verification/Hook_Eval.thy ===== *)
theory Hook_Eval
  imports Hook_Value
begin

text \<open>
  The evaluator of hook expressions (\<open>typed_hook/eval.rs\<close>). A computation takes the state, which is the
  local variables with the counters of what was asked of the outside, and gives a value or an abort,
  with the new state. The outside answers by number: whether the \<open>n\<close>-th check saw the request cancelled,
  the time of the \<open>n\<close>-th look at the clock, the outcome of the \<open>n\<close>-th process. The evaluator is one
  recursion on the expression; the only loop that is not over a list, \<open>while\<close>, has a cap.
\<close>

section \<open>State and computations\<close>

record exec_request =
  xr_command :: str
  xr_args :: "str list"
  xr_cwd :: "str option"
  xr_env :: "(str \<times> str) list"
  xr_timeout_ms :: "nat option"

record exec_result =
  xs_stdout :: str
  xs_stderr :: str
  xs_status :: int

record hook_context =
  hc_current_working_directory :: str
  hc_current_process :: str
  hc_ssh_prefix :: str
  hc_environment_variables :: "(str \<times> str) list"
  hc_search_term :: str
  hc_is_dangerous :: bool

record hook_effects =
  fx_context :: hook_context
  fx_deadline :: "nat option"

record hook_world =
  hw_lib :: hook_lib
  hw_cancelled :: "nat \<Rightarrow> bool"
  hw_now :: "nat \<Rightarrow> nat"
  hw_exec :: "nat \<Rightarrow> exec_request \<Rightarrow> exec_result hook_result"

text \<open>
  The log of processes holds, for each one started, how often cancellation was checked before, and the
  request.
\<close>

record hook_state =
  hs_locals :: "str \<rightharpoonup> tvalue"
  hs_checks :: nat
  hs_clock :: nat
  hs_execs :: "(nat \<times> exec_request) list"

datatype abort = AbError hook_error | AbReturn tvalue | AbBreak | AbContinue

type_synonym 'a ev = "hook_state \<Rightarrow> (abort + 'a) \<times> hook_state"

definition ev_return :: "'a \<Rightarrow> 'a ev" where "ev_return v s = (Inr v, s)"

definition ev_bind :: "'a ev \<Rightarrow> ('a \<Rightarrow> 'b ev) \<Rightarrow> 'b ev" where
  "ev_bind m f s = (case m s of (Inl a, s') \<Rightarrow> (Inl a, s') | (Inr v, s') \<Rightarrow> f v s')"

definition ev_lift :: "'a hook_result \<Rightarrow> 'a ev" where
  "ev_lift r s = (case r of Inl e \<Rightarrow> (Inl (AbError e), s) | Inr v \<Rightarrow> (Inr v, s))"

definition ev_abort :: "abort \<Rightarrow> 'a ev" where "ev_abort a s = (Inl a, s)"

definition fail :: "str \<Rightarrow> 'a ev" where "fail message = ev_abort (AbError (error_new message))"

definition get_local :: "str \<Rightarrow> tvalue option ev" where "get_local name s = (Inr (hs_locals s name), s)"

definition set_locals :: "((str \<rightharpoonup> tvalue) \<Rightarrow> (str \<rightharpoonup> tvalue)) \<Rightarrow> unit ev" where
  "set_locals f s = (Inr (), s\<lparr>hs_locals := f (hs_locals s)\<rparr>)"

text \<open>\<open>cancellation::check\<close>.\<close>

definition check_cancel :: "hook_world \<Rightarrow> unit ev" where
  "check_cancel w s =
     (if hw_cancelled w (hs_checks s) then Inl (AbError error_cancelled) else Inr (), s\<lparr>hs_checks := hs_checks s + 1\<rparr>)"

definition read_clock :: "hook_world \<Rightarrow> nat ev" where
  "read_clock w s = (Inr (hw_now w (hs_clock s)), s\<lparr>hs_clock := hs_clock s + 1\<rparr>)"

definition run_exec :: "hook_world \<Rightarrow> exec_request \<Rightarrow> exec_result hook_result ev" where
  "run_exec w request s =
     (Inr (hw_exec w (length (hs_execs s)) request), s\<lparr>hs_execs := hs_execs s @ [(hs_checks s, request)]\<rparr>)"

section \<open>Deadlines and environment\<close>

definition DEADLINE_STRIDE :: nat where "DEADLINE_STRIDE = 1024"
definition WHILE_CAP :: nat where "WHILE_CAP = 100000"

text \<open>\<open>deadline.checked_duration_since(now)\<close>: the time left, \<open>None\<close> once the deadline has passed.\<close>

definition time_left :: "nat \<Rightarrow> nat \<Rightarrow> nat option" where
  "time_left deadline now = (if now \<le> deadline then Some (deadline - now) else None)"

definition loop_deadline_expired :: "hook_world \<Rightarrow> hook_effects option \<Rightarrow> nat \<Rightarrow> bool ev" where
  "loop_deadline_expired w fx iterations =
     (if \<not> DEADLINE_STRIDE dvd iterations then ev_return False
      else case Option.bind fx fx_deadline of
        None \<Rightarrow> ev_return False
      | Some deadline \<Rightarrow> ev_bind (read_clock w) (\<lambda>now. ev_return (time_left deadline now = None)))"

definition loop_timed_out :: "string \<Rightarrow> 'a ev" where
  "loop_timed_out op = ev_abort (AbError (error_timed_out (lit ''typed hook '' @ lit op @ lit '' exceeded its deadline'')))"

definition require_effects :: "hook_effects option \<Rightarrow> hook_effects ev" where
  "require_effects fx =
     (case fx of None \<Rightarrow> fail (lit ''effect operation requires typed hook effects'') | Some f \<Rightarrow> ev_return f)"

text \<open>\<open>HookEnvironment\<close>: a list of variables in which the last value of a name counts.\<close>

definition environment_get :: "(str \<times> str) list \<Rightarrow> str \<Rightarrow> str option" where
  "environment_get source name = map_of (rev source) name"

definition environment_iter :: "(str \<times> str) list \<Rightarrow> (str \<times> str) list" where
  "environment_iter source =
     (let indexes = sort_by (\<lambda>a b. cmp_then (cmp_of (fst (source ! a)) (fst (source ! b))) (cmp_of b a)) [0..<length source]
      in map ((!) source) (dedup_by (\<lambda>a b. fst (source ! a) = fst (source ! b)) indexes))"

section \<open>Running processes\<close>

text \<open>The remaining budget caps the timeout of the request, if the deadline has not passed.\<close>

definition exec_timeout :: "nat option \<Rightarrow> nat \<Rightarrow> nat option \<Rightarrow> nat option" where
  "exec_timeout timeout now deadline =
     (case Option.bind deadline (\<lambda>d. time_left d now) of
        None \<Rightarrow> timeout
      | Some remaining \<Rightarrow> let remaining_ms = min remaining (2 ^ 64 - 1) in
          Some (case timeout of None \<Rightarrow> remaining_ms | Some t \<Rightarrow> min t remaining_ms))"

text \<open>The request of an \<open>exec\<close>, from its five operands; \<open>as u64\<close> wraps a negative timeout.\<close>

definition exec_request_of :: "hook_lib \<Rightarrow> tvalue \<Rightarrow> tvalue \<Rightarrow> tvalue \<Rightarrow> tvalue \<Rightarrow> tvalue \<Rightarrow> exec_request hook_result" where
  "exec_request_of lib command args cwd env timeout =
     and_then (value_text lib command ''exec.command'') (\<lambda>command.
     and_then (collect_results (map (\<lambda>item. value_text lib item ''exec.args'') (value_array args))) (\<lambda>args.
     and_then (if cwd = VNull then Inr None else and_then (value_text lib cwd ''exec.cwd'') (\<lambda>s. Inr (Some s))) (\<lambda>cwd.
     and_then (if env = VNull then Inr [] else collect_results (map (\<lambda>(k, v).
         and_then (value_text lib v ''exec.env'') (\<lambda>s. Inr (k, s))) (object_entries env))) (\<lambda>env.
     and_then (if timeout = VNull then Inr None else and_then (value_i64 lib timeout ''exec.timeout'')
         (\<lambda>i. Inr (Some (nat (i mod 2 ^ 64))))) (\<lambda>timeout.
       Inr \<lparr>xr_command = command, xr_args = args, xr_cwd = cwd, xr_env = env, xr_timeout_ms = timeout\<rparr>)))))"

definition exec_value :: "exec_result \<Rightarrow> tvalue" where
  "exec_value result =
     VObject [(lit ''stdout'', vstr (xs_stdout result)), (lit ''stderr'', vstr (xs_stderr result)),
       (lit ''status'', VInteger (xs_status result))]"

definition evaluate_exec :: "hook_world \<Rightarrow> tvalue \<Rightarrow> tvalue \<Rightarrow> tvalue \<Rightarrow> tvalue \<Rightarrow> tvalue \<Rightarrow> hook_effects option \<Rightarrow> tvalue ev" where
  "evaluate_exec w command args cwd env timeout fx =
     ev_bind (require_effects fx) (\<lambda>effects.
     ev_bind (case fx_deadline effects of
         None \<Rightarrow> ev_return ()
       | Some deadline \<Rightarrow> ev_bind (read_clock w) (\<lambda>now. if time_left deadline now = None
           then ev_abort (AbError (error_timed_out (lit ''typed hook exec exceeded its deadline''))) else ev_return ())) (\<lambda>_.
     ev_bind (ev_lift (exec_request_of (hw_lib w) command args cwd env timeout)) (\<lambda>request.
     ev_bind (case fx_deadline effects of
         None \<Rightarrow> ev_return request
       | Some deadline \<Rightarrow> ev_bind (read_clock w) (\<lambda>now.
           ev_return (request\<lparr>xr_timeout_ms := exec_timeout (xr_timeout_ms request) now (Some deadline)\<rparr>))) (\<lambda>request.
     ev_bind (check_cancel w) (\<lambda>_.
     ev_bind (run_exec w request) (\<lambda>result.
     ev_bind (check_cancel w) (\<lambda>_.
     ev_bind (ev_lift result) (\<lambda>result. ev_return (exec_value result)))))))))"

section \<open>Operators on values\<close>

definition receiver_utf16 :: "hook_lib \<Rightarrow> tvalue \<Rightarrow> string \<Rightarrow> utf16 option hook_result" where
  "receiver_utf16 lib v label =
     (if v = VNull then Inr None else and_then (value_utf16 lib v label) (\<lambda>us. Inr (Some us)))"

definition trim_value :: "hook_lib \<Rightarrow> string \<Rightarrow> bool \<Rightarrow> bool \<Rightarrow> tvalue \<Rightarrow> tvalue hook_result" where
  "trim_value lib label at_start at_end v =
     and_then (receiver_utf16 lib v label) (\<lambda>r. Inr (case r of None \<Rightarrow> VNull | Some us \<Rightarrow> VString (js_trim us at_start at_end)))"

definition array_from :: "hook_lib \<Rightarrow> tvalue \<Rightarrow> tvalue hook_result" where
  "array_from lib v =
     (case object_length v of
        Some n \<Rightarrow> and_then (value_i64 lib n ''array-from.length'') (\<lambda>i. Inr (VArray (replicate (min (nat (max i 0)) 10000) VNull)))
      | None \<Rightarrow> Inr (VArray (value_array v)))"

definition math_max :: "hook_lib \<Rightarrow> tvalue \<Rightarrow> tvalue hook_result" where
  "math_max lib v =
     and_then (collect_results (map (\<lambda>item. value_i64 lib item ''math-max'') (value_array v))) (\<lambda>is.
       Inr (VInteger (fold max is I64_MIN)))"

definition string_set_of :: "hook_lib \<Rightarrow> tvalue \<Rightarrow> tvalue hook_result" where
  "string_set_of lib v =
     and_then (collect_results (map (\<lambda>item. value_utf16 lib item ''string-set'') (value_array v))) (\<lambda>items.
       Inr (VStringSet (fold (\<lambda>item acc. string_set_insert acc item) items [])))"

definition array_entries :: "tvalue \<Rightarrow> tvalue" where
  "array_entries v =
     (let items = value_array v in VArray (map (\<lambda>(i, item). VArray [VInteger (int i), item]) (zip [0..<length items] items)))"

definition unary_result :: "hook_lib \<Rightarrow> unary_op \<Rightarrow> tvalue \<Rightarrow> tvalue hook_result" where
  "unary_result lib op v =
     (case op of
        OLength \<Rightarrow> and_then (safe_len v) (\<lambda>n. Inr (VInteger n))
      | OStringTrim \<Rightarrow> trim_value lib ''trim'' True True v
      | OStringTrimStart \<Rightarrow> trim_value lib ''trim-start'' True False v
      | OStringTrimEnd \<Rightarrow> trim_value lib ''trim-end'' False True v
      | OStringToLower \<Rightarrow> and_then (value_utf16 lib v ''to-lower'') (\<lambda>us. Inr (VString (js_map_case (hl_casing lib) us False)))
      | OStringToUpper \<Rightarrow> and_then (value_utf16 lib v ''to-upper'') (\<lambda>us. Inr (VString (js_map_case (hl_casing lib) us True)))
      | ONot \<Rightarrow> Inr (VBool (\<not> is_truthy lib v))
      | OTruthy \<Rightarrow> Inr (VBool (is_truthy lib v))
      | OTypeof \<Rightarrow> Inr (vstr (js_typeof v))
      | OObjectKeys \<Rightarrow> Inr (VArray (map vstr (object_keys v)))
      | OObjectEntries \<Rightarrow> Inr (VArray (map (\<lambda>(k, child). VArray [vstr k, child]) (object_entries v)))
      | OObjectValues \<Rightarrow> Inr (VArray (map snd (object_entries v)))
      | OArrayReverse \<Rightarrow> Inr (VArray (rev (value_array v)))
      | OArrayPop \<Rightarrow> Inr (let items = value_array v in if items = [] then VNull else last items)
      | OArrayEntries \<Rightarrow> Inr (array_entries v)
      | OArrayFrom \<Rightarrow> array_from lib v
      | OJsonParse \<Rightarrow> and_then (value_text lib v ''json-parse'') (\<lambda>txt. Inr (unwrap_or VNull (parse_js_json lib txt)))
      | OJsonArrayItems \<Rightarrow> Inr (VArray (value_array v))
      | OJsonAsString \<Rightarrow> Inr (case v of VString us \<Rightarrow> VString us | _ \<Rightarrow> VNull)
      | OJsonAsNumber \<Rightarrow> Inr (to_js_number lib v)
      | OJsonAsBool \<Rightarrow> Inr (case v of VBool b \<Rightarrow> VBool b | _ \<Rightarrow> VNull)
      | OJsonStringify \<Rightarrow> and_then (typed_value_to_json v) (\<lambda>j. Inr (vstr (hl_print_json lib j)))
      | OMathMax \<Rightarrow> math_max lib v
      | OStringSet \<Rightarrow> string_set_of lib v
      | OToString \<Rightarrow> and_then (value_utf16 lib v ''to-string'') (\<lambda>us. Inr (VString us)))"

text \<open>
  A binary operator converts its left operand before the right one is evaluated: it is a function of
  the left value that gives an error, or a function of the right value.
\<close>

type_synonym right_operand = "(tvalue \<Rightarrow> tvalue hook_result) hook_result"

definition on_strings :: "hook_lib \<Rightarrow> string \<Rightarrow> string \<Rightarrow> (utf16 \<Rightarrow> utf16 \<Rightarrow> tvalue hook_result) \<Rightarrow> tvalue \<Rightarrow> right_operand" where
  "on_strings lib left_label right_label f v =
     and_then (value_utf16 lib v left_label) (\<lambda>us. Inr (\<lambda>w. and_then (value_utf16 lib w right_label) (f us)))"

definition on_string_int :: "hook_lib \<Rightarrow> string \<Rightarrow> string \<Rightarrow> (utf16 \<Rightarrow> int \<Rightarrow> tvalue hook_result) \<Rightarrow> tvalue \<Rightarrow> right_operand" where
  "on_string_int lib left_label right_label f v =
     and_then (value_utf16 lib v left_label) (\<lambda>us. Inr (\<lambda>w. and_then (value_i64 lib w right_label) (f us)))"

definition on_ints :: "hook_lib \<Rightarrow> string \<Rightarrow> string \<Rightarrow> (int \<Rightarrow> int \<Rightarrow> tvalue hook_result) \<Rightarrow> tvalue \<Rightarrow> right_operand" where
  "on_ints lib left_label right_label f v =
     and_then (value_i64 lib v left_label) (\<lambda>i. Inr (\<lambda>w. and_then (value_i64 lib w right_label) (f i)))"

definition on_values :: "(tvalue \<Rightarrow> tvalue \<Rightarrow> tvalue hook_result) \<Rightarrow> tvalue \<Rightarrow> right_operand" where
  "on_values f v = Inr (f v)"

abbreviation string_result :: "utf16 hook_result \<Rightarrow> tvalue hook_result" where
  "string_result r \<equiv> and_then r (\<lambda>us. Inr (VString us))"

abbreviation int_result :: "int hook_result \<Rightarrow> tvalue hook_result" where
  "int_result r \<equiv> and_then r (\<lambda>i. Inr (VInteger i))"

definition slice_after_first :: "utf16 \<Rightarrow> utf16 \<Rightarrow> tvalue hook_result" where
  "slice_after_first us needle =
     (case utf16_index_of us needle of
        None \<Rightarrow> Inr (VString us)
      | Some i \<Rightarrow> and_then (length_i64 ''slice start'' (i + 1)) (\<lambda>from. string_result (js_slice us from)))"

definition array_index :: "hook_lib \<Rightarrow> tvalue \<Rightarrow> tvalue \<Rightarrow> tvalue hook_result" where
  "array_index lib v index =
     (case (is_array_value v, value_i64 lib index ''array-index'') of
        (True, Inr i) \<Rightarrow> Inr (if i < 0 then VNull else unwrap_or VNull (list_get (value_array v) (nat i)))
      | _ \<Rightarrow> and_then (value_text lib index ''array-index'') (\<lambda>key. Inr (get_prop v key)))"

definition array_join :: "hook_lib \<Rightarrow> tvalue \<Rightarrow> tvalue \<Rightarrow> tvalue hook_result" where
  "array_join lib v separator =
     and_then (value_text lib separator ''array-join.separator'') (\<lambda>sep.
     and_then (collect_results (map (\<lambda>item. value_text lib item ''array-join.item'') (value_array v))) (\<lambda>parts.
       Inr (vstr (str_join sep parts))))"

definition locale_compare :: "hook_lib \<Rightarrow> tvalue \<Rightarrow> right_operand" where
  "locale_compare lib v =
     and_then (value_text lib v ''locale-compare.left'') (\<lambda>l.
       Inr (\<lambda>w. and_then (value_text lib w ''locale-compare.right'') (\<lambda>r. Inr (VInteger (js_locale_compare l r)))))"

definition get_value :: "hook_lib \<Rightarrow> tvalue \<Rightarrow> tvalue \<Rightarrow> tvalue hook_result" where
  "get_value lib v key = and_then (value_text lib key ''get.key'') (\<lambda>k. Inr (get_prop v k))"

definition binary_result :: "hook_lib \<Rightarrow> binary_op \<Rightarrow> tvalue \<Rightarrow> right_operand" where
  "binary_result lib op =
     (case op of
        OStringIncludes \<Rightarrow> on_strings lib ''string-includes.value'' ''string-includes.needle''
          (\<lambda>us needle. Inr (VBool (utf16_index_of us needle \<noteq> None)))
      | OStringIndexOf \<Rightarrow> on_strings lib ''string-index-of.value'' ''string-index-of.needle''
          (\<lambda>us needle. int_result (utf16_index_of_i64 us needle))
      | OStringLastIndexOf \<Rightarrow> on_strings lib ''string-last-index-of.value'' ''string-last-index-of.needle''
          (\<lambda>us needle. int_result (utf16_last_index_of_i64 us needle))
      | OStringSlice \<Rightarrow> on_string_int lib ''string-slice.value'' ''string-slice.start'' (\<lambda>us i. string_result (js_slice us i))
      | OStringSliceAfterFirst \<Rightarrow> on_strings lib ''string-slice-after-first.value'' ''string-slice-after-first.needle'' slice_after_first
      | OStringSplit \<Rightarrow> on_strings lib ''string-split.value'' ''string-split.separator'' (\<lambda>us sep. Inr (VStringArray (js_split us sep)))
      | OStringStartsWith \<Rightarrow> on_strings lib ''starts-with.value'' ''starts-with.needle''
          (\<lambda>us needle. Inr (VBool (utf16_starts_with us needle)))
      | OStringEndsWith \<Rightarrow> on_strings lib ''ends-with.value'' ''ends-with.needle''
          (\<lambda>us needle. Inr (VBool (utf16_ends_with us needle)))
      | OStringRepeat \<Rightarrow> on_string_int lib ''repeat.value'' ''repeat.count'' (\<lambda>us i. string_result (js_repeat us i))
      | OStringCharAt \<Rightarrow> on_string_int lib ''char-at.value'' ''char-at.index'' (\<lambda>us i. Inr (VString (js_char_at us i)))
      | OStringAt \<Rightarrow> on_string_int lib ''at.value'' ''at.index'' (\<lambda>us i. string_result (js_at us i))
      | OArrayIncludes \<Rightarrow> on_values (\<lambda>v needle. Inr (VBool (array_includes lib v needle)))
      | OStrictEq \<Rightarrow> on_values (\<lambda>v w. Inr (VBool (strict_equal v w)))
      | OStrictNe \<Rightarrow> on_values (\<lambda>v w. Inr (VBool (\<not> strict_equal v w)))
      | OAdd \<Rightarrow> on_ints lib ''add.left'' ''add.right'' (\<lambda>i j. int_result (safe_arithmetic (checked_i64 (i + j)) (lit ''add'')))
      | OSub \<Rightarrow> on_ints lib ''sub.left'' ''sub.right'' (\<lambda>i j. int_result (safe_arithmetic (checked_i64 (i - j)) (lit ''sub'')))
      | OMul \<Rightarrow> on_ints lib ''mul.left'' ''mul.right'' (\<lambda>i j. int_result (safe_arithmetic (checked_i64 (i * j)) (lit ''mul'')))
      | OLessThan \<Rightarrow> on_ints lib ''lt.left'' ''lt.right'' (\<lambda>i j. Inr (VBool (i < j)))
      | OLessThanOrEqual \<Rightarrow> on_ints lib ''le.left'' ''le.right'' (\<lambda>i j. Inr (VBool (i \<le> j)))
      | OGreaterThan \<Rightarrow> on_ints lib ''gt.left'' ''gt.right'' (\<lambda>i j. Inr (VBool (i > j)))
      | OGreaterThanOrEqual \<Rightarrow> on_ints lib ''ge.left'' ''ge.right'' (\<lambda>i j. Inr (VBool (i \<ge> j)))
      | OLooseEq \<Rightarrow> on_values (\<lambda>v w. Inr (VBool (loose_equal lib v w)))
      | OLooseNe \<Rightarrow> on_values (\<lambda>v w. Inr (VBool (\<not> loose_equal lib v w)))
      | OGet \<Rightarrow> on_values (get_value lib)
      | OJsonGet \<Rightarrow> on_values (get_value lib)
      | OArrayJoin \<Rightarrow> on_values (array_join lib)
      | OArrayIndexOf \<Rightarrow> on_values (\<lambda>v needle. Inr (VInteger (js_position (\<lambda>item. strict_equal item needle) 0 (value_array v))))
      | OArrayIndex \<Rightarrow> on_values (array_index lib)
      | OLocaleCompare \<Rightarrow> locale_compare lib)"

type_synonym third_operand = "(tvalue \<Rightarrow> right_operand) hook_result"

definition with_string :: "hook_lib \<Rightarrow> string \<Rightarrow> (utf16 \<Rightarrow> tvalue \<Rightarrow> right_operand) \<Rightarrow> tvalue \<Rightarrow> third_operand" where
  "with_string lib label f v = and_then (value_utf16 lib v label) (\<lambda>us. Inr (f us))"

definition array_index_of_from :: "hook_lib \<Rightarrow> tvalue \<Rightarrow> tvalue \<Rightarrow> tvalue \<Rightarrow> tvalue hook_result" where
  "array_index_of_from lib v needle start_index =
     and_then (value_i64 lib start_index ''array-index-of-from.start'') (\<lambda>i.
       let items = value_array v; from = js_index i (length items)
       in Inr (VInteger (js_position (\<lambda>item. strict_equal item needle) from (drop from items))))"

definition ternary_result :: "hook_lib \<Rightarrow> ternary_op \<Rightarrow> tvalue \<Rightarrow> third_operand" where
  "ternary_result lib op =
     (case op of
        OStringSubstring \<Rightarrow> with_string lib ''string-substring.value'' (\<lambda>us.
          on_ints lib ''string-substring.start'' ''string-substring.end'' (\<lambda>i j. string_result (js_substring us i j)))
      | OStringReplace \<Rightarrow> with_string lib ''replace.value'' (\<lambda>us.
          on_strings lib ''replace.needle'' ''replace.replacement'' (\<lambda>needle new. string_result (js_replace us needle new False)))
      | OStringReplaceAll \<Rightarrow> with_string lib ''replace-all.value'' (\<lambda>us.
          on_strings lib ''replace-all.needle'' ''replace-all.replacement'' (\<lambda>needle new. string_result (js_replace us needle new True)))
      | OStringPadStart \<Rightarrow> with_string lib ''pad-start.value'' (\<lambda>us v.
          and_then (value_i64 lib v ''pad-start.target'') (\<lambda>target. Inr (\<lambda>w.
          and_then (value_utf16 lib w ''pad-start.pad'') (\<lambda>pad. string_result (js_pad us target pad False)))))
      | OStringPadEnd \<Rightarrow> with_string lib ''pad-end.value'' (\<lambda>us v.
          and_then (value_i64 lib v ''pad-end.target'') (\<lambda>target. Inr (\<lambda>w.
          and_then (value_utf16 lib w ''pad-end.pad'') (\<lambda>pad. string_result (js_pad us target pad True)))))
      | OArraySlice \<Rightarrow> (\<lambda>v. Inr (on_ints lib ''array-slice.start'' ''array-slice.end''
          (\<lambda>i j. Inr (VArray (slice_vec (value_array v) i j)))))
      | OStringSplitLimit \<Rightarrow> with_string lib ''string-split-limit.value'' (\<lambda>us.
          on_string_int lib ''string-split-limit.separator'' ''string-split-limit.limit''
            (\<lambda>sep limit. Inr (VStringArray (js_split_limit us sep limit))))
      | OStringIndexOfFrom \<Rightarrow> with_string lib ''string-index-of-from.value'' (\<lambda>us.
          on_string_int lib ''string-index-of-from.needle'' ''string-index-of-from.start''
            (\<lambda>needle i. int_result (utf16_index_of_from us needle i)))
      | OArrayIndexOfFrom \<Rightarrow> (\<lambda>v. Inr (\<lambda>needle. Inr (array_index_of_from lib v needle))))"

definition regex_result :: "hook_lib \<Rightarrow> regex_op \<Rightarrow> str \<Rightarrow> str \<Rightarrow> tvalue \<Rightarrow> tvalue hook_result" where
  "regex_result lib op pattern flags v =
     (case op of
        ORegexTest \<Rightarrow> and_then (value_text lib v ''regex-test'') (\<lambda>txt. and_then (regex_is_match lib pattern flags txt) (\<lambda>b. Inr (VBool b)))
      | ORegexMatch \<Rightarrow> and_then (value_text lib v ''regex-match'') (regex_match lib pattern flags)
      | ORegexMatchAll \<Rightarrow> and_then (value_text lib v ''regex-match-all'') (regex_match_all lib pattern flags)
      | ORegexSearch \<Rightarrow> and_then (value_text lib v ''regex-search'') (\<lambda>txt. int_result (regex_search lib pattern flags txt))
      | OStringSplitRegex \<Rightarrow> and_then (value_text lib v ''string-split-regex'') (\<lambda>txt.
          and_then (regex_split lib pattern flags txt) (\<lambda>parts. Inr (VArray (map vstr parts)))))"

section \<open>Callbacks and loops\<close>

text \<open>
  The meaning of an expression: its computation, and for a lambda the parameters with the computation
  of the body, which is what an array operation calls.
\<close>

type_synonym den = "tvalue ev \<times> (str list \<times> tvalue ev) option"

definition bind_values :: "str list \<Rightarrow> tvalue list \<Rightarrow> (str \<rightharpoonup> tvalue) \<Rightarrow> (str \<rightharpoonup> tvalue)" where
  "bind_values names values locals =
     fold (\<lambda>(i, name) l. l(name \<mapsto> unwrap_or VNull (list_get values i))) (zip [0..<length names] names) locals"

definition restore :: "(str \<times> tvalue option) list \<Rightarrow> (str \<rightharpoonup> tvalue) \<Rightarrow> (str \<rightharpoonup> tvalue)" where
  "restore saved locals = fold (\<lambda>(name, previous) l. l(name := previous)) saved locals"

definition apply_lambda :: "den \<Rightarrow> tvalue list \<Rightarrow> tvalue ev" where
  "apply_lambda callback values s =
     (case snd callback of
        None \<Rightarrow> fail (lit ''array callback is not a lambda'') s
      | Some (names, body) \<Rightarrow>
          (let saved = map (\<lambda>name. (name, hs_locals s name)) names in
           case body (s\<lparr>hs_locals := bind_values names values (hs_locals s)\<rparr>) of (r, s') \<Rightarrow>
             (case r of Inl (AbReturn v) \<Rightarrow> Inr v | _ \<Rightarrow> r, s'\<lparr>hs_locals := restore saved (hs_locals s')\<rparr>)))"

fun map_loop :: "(tvalue list \<Rightarrow> tvalue ev) \<Rightarrow> nat \<Rightarrow> tvalue list \<Rightarrow> tvalue list ev" where
  "map_loop call index [] = ev_return []"
| "map_loop call index (item # items) =
     ev_bind (call [item, VInteger (int index)]) (\<lambda>v.
     ev_bind (map_loop call (index + 1) items) (\<lambda>vs. ev_return (v # vs)))"

fun filter_loop :: "hook_lib \<Rightarrow> (tvalue list \<Rightarrow> tvalue ev) \<Rightarrow> nat \<Rightarrow> tvalue list \<Rightarrow> tvalue list ev" where
  "filter_loop lib call index [] = ev_return []"
| "filter_loop lib call index (item # items) =
     ev_bind (call [item, VInteger (int index)]) (\<lambda>v.
     ev_bind (filter_loop lib call (index + 1) items) (\<lambda>vs. ev_return (if is_truthy lib v then item # vs else vs)))"

text \<open>The loops of \<open>some\<close>, \<open>every\<close>, \<open>find\<close> and \<open>findIndex\<close> stop at the first item with the wanted truth.\<close>

fun search_loop :: "hook_lib \<Rightarrow> bool \<Rightarrow> (tvalue list \<Rightarrow> tvalue ev) \<Rightarrow> nat \<Rightarrow> tvalue list \<Rightarrow> (nat \<times> tvalue) option ev" where
  "search_loop lib wanted call index [] = ev_return None"
| "search_loop lib wanted call index (item # items) =
     ev_bind (call [item, VInteger (int index)]) (\<lambda>v.
       if is_truthy lib v = wanted then ev_return (Some (index, item)) else search_loop lib wanted call (index + 1) items)"

text \<open>
  \<open>slice::sort_by\<close> as an insertion sort: an item moves left while the comparison says less. An abort
  of the callback counts as equal and is dropped, as in the source.
\<close>

definition callback_less :: "(tvalue list \<Rightarrow> tvalue ev) \<Rightarrow> tvalue \<Rightarrow> tvalue \<Rightarrow> hook_state \<Rightarrow> bool \<times> hook_state" where
  "callback_less call x y s = (case call [x, y] s of (r, s') \<Rightarrow> (case r of Inr (VInteger i) \<Rightarrow> i < 0 | _ \<Rightarrow> False, s'))"

text \<open>The sorted part is kept greatest item first.\<close>

fun sort_insert :: "(tvalue list \<Rightarrow> tvalue ev) \<Rightarrow> tvalue \<Rightarrow> tvalue list \<Rightarrow> hook_state \<Rightarrow> tvalue list \<times> hook_state" where
  "sort_insert call x [] s = ([x], s)"
| "sort_insert call x (y # ys) s =
     (case callback_less call x y s of (moves, s') \<Rightarrow>
        if moves then (case sort_insert call x ys s' of (zs, s'') \<Rightarrow> (y # zs, s'')) else (x # y # ys, s'))"

text \<open>The stable sort with the callback; which pairs the library's sort compares, and in which order, is not
  specified and not modelled: here each item is inserted from the right.\<close>

fun sort_loop :: "(tvalue list \<Rightarrow> tvalue ev) \<Rightarrow> tvalue list \<Rightarrow> tvalue list \<Rightarrow> tvalue list ev" where
  "sort_loop call acc [] s = (Inr (rev acc), s)"
| "sort_loop call acc (x # xs) s = (case sort_insert call x acc s of (acc', s') \<Rightarrow> sort_loop call acc' xs s')"

definition callback_result :: "hook_lib \<Rightarrow> callback_op \<Rightarrow> (tvalue list \<Rightarrow> tvalue ev) \<Rightarrow> tvalue list \<Rightarrow> tvalue ev" where
  "callback_result lib op call items =
     (case op of
        OArrayMap \<Rightarrow> ev_bind (map_loop call 0 items) (\<lambda>vs. ev_return (VArray vs))
      | OArrayFilter \<Rightarrow> ev_bind (filter_loop lib call 0 items) (\<lambda>vs. ev_return (VArray vs))
      | OArrayFlatMap \<Rightarrow> ev_bind (map_loop call 0 items) (\<lambda>vs. ev_return (VArray (concat (map value_array vs))))
      | OArraySome \<Rightarrow> ev_bind (search_loop lib True call 0 items) (\<lambda>r. ev_return (VBool (r \<noteq> None)))
      | OArrayEvery \<Rightarrow> ev_bind (search_loop lib False call 0 items) (\<lambda>r. ev_return (VBool (r = None)))
      | OArrayFind \<Rightarrow> ev_bind (search_loop lib True call 0 items) (\<lambda>r. ev_return (case r of None \<Rightarrow> VNull | Some (_, item) \<Rightarrow> item))
      | OArrayFindIndex \<Rightarrow> ev_bind (search_loop lib True call 0 items)
          (\<lambda>r. ev_return (VInteger (case r of None \<Rightarrow> - 1 | Some (i, _) \<Rightarrow> int i)))
      | OArraySort \<Rightarrow> ev_bind (sort_loop call [] items) (\<lambda>vs. ev_return (VArray vs)))"

text \<open>Evaluate expressions one after the other, each result added to the accumulator.\<close>

fun list_loop :: "('a \<Rightarrow> tvalue \<Rightarrow> 'a hook_result) \<Rightarrow> 'a \<Rightarrow> tvalue ev list \<Rightarrow> 'a ev" where
  "list_loop step acc [] = ev_return acc"
| "list_loop step acc (m # ms) = ev_bind m (\<lambda>v. ev_bind (ev_lift (step acc v)) (\<lambda>acc'. list_loop step acc' ms))"

definition concat_step :: "tvalue list \<Rightarrow> tvalue \<Rightarrow> tvalue list" where
  "concat_step out v = (if is_array_value v then out @ value_array v else out @ [v])"

definition list_result :: "hook_lib \<Rightarrow> list_op \<Rightarrow> tvalue ev list \<Rightarrow> tvalue ev" where
  "list_result lib op items =
     (case op of
        OArray \<Rightarrow> ev_bind (list_loop (\<lambda>vs v. Inr (vs @ [v])) [] items) (\<lambda>vs. ev_return (VArray vs))
      | OPar \<Rightarrow> ev_bind (list_loop (\<lambda>vs v. Inr (vs @ [v])) [] items) (\<lambda>vs. ev_return (VArray vs))
      | OBlock \<Rightarrow> list_loop (\<lambda>_ v. Inr v) VNull items
      | OSeq \<Rightarrow> list_loop (\<lambda>_ v. Inr v) VNull items
      | OStringConcat \<Rightarrow> ev_bind (list_loop (\<lambda>units v. and_then (value_utf16 lib v ''concat'') (\<lambda>us. Inr (units @ us))) [] items)
          (\<lambda>units. ev_lift (string_result (ensure_string_limit units)))
      | OObjectAssign \<Rightarrow> ev_bind (list_loop (\<lambda>members v. Inr (object_assign (object_map v) members)) [] items)
          (\<lambda>members. ev_return (VObject members))
      | OArrayConcat \<Rightarrow> ev_bind (list_loop (\<lambda>out v. Inr (concat_step out v)) [] items) (\<lambda>out. ev_return (VArray out)))"

fun eval_fields :: "(str \<times> tvalue ev) list \<Rightarrow> (str \<times> tvalue) list \<Rightarrow> (str \<times> tvalue) list ev" where
  "eval_fields [] obj = ev_return obj"
| "eval_fields ((key, m) # members) obj = ev_bind m (\<lambda>v. eval_fields members (object_insert key v obj))"

definition bind_for_of :: "str list \<Rightarrow> tvalue \<Rightarrow> (str \<rightharpoonup> tvalue) \<Rightarrow> (str \<rightharpoonup> tvalue)" where
  "bind_for_of names item locals =
     (case names of [name] \<Rightarrow> locals(name \<mapsto> item) | _ \<Rightarrow> bind_values names (value_array item) locals)"

text \<open>One run of a loop body: whether the loop goes on, or its abort.\<close>

definition loop_body :: "tvalue ev \<Rightarrow> bool ev" where
  "loop_body body s =
     (case body s of (r, s') \<Rightarrow>
        (case r of Inr _ \<Rightarrow> Inr True | Inl AbContinue \<Rightarrow> Inr True | Inl AbBreak \<Rightarrow> Inr False | Inl a \<Rightarrow> Inl a, s'))"

fun for_of_loop :: "hook_world \<Rightarrow> hook_effects option \<Rightarrow> str list \<Rightarrow> tvalue ev \<Rightarrow> nat \<Rightarrow> tvalue list \<Rightarrow> tvalue ev" where
  "for_of_loop w fx names body iterations [] = ev_return VNull"
| "for_of_loop w fx names body iterations (item # items) =
     (let iterations = min (iterations + 1) (2 ^ 32 - 1) in
      ev_bind (loop_deadline_expired w fx iterations) (\<lambda>expired.
        if expired then loop_timed_out ''for-of''
        else ev_bind (set_locals (bind_for_of names item)) (\<lambda>_.
          ev_bind (loop_body body) (\<lambda>go. if go then for_of_loop w fx names body iterations items else ev_return VNull))))"

text \<open>The \<open>while\<close> loop, by the number of rounds that are left before the cap.\<close>

fun while_loop :: "hook_world \<Rightarrow> hook_effects option \<Rightarrow> tvalue ev \<Rightarrow> tvalue ev \<Rightarrow> nat \<Rightarrow> tvalue ev" where
  "while_loop w fx condition body rounds_left =
     ev_bind condition (\<lambda>c.
       if \<not> is_truthy (hw_lib w) c then ev_return VNull
       else let guard = WHILE_CAP - rounds_left + 1 in
         ev_bind (loop_deadline_expired w fx guard) (\<lambda>expired.
           if expired then loop_timed_out ''while loop''
           else case rounds_left of
             0 \<Rightarrow> ev_abort (AbError (error_timed_out (lit ''while loop exceeded iteration cap'')))
           | Suc left \<Rightarrow> ev_bind (loop_body body) (\<lambda>go. if go then while_loop w fx condition body left else ev_return VNull)))"

declare while_loop.simps [simp del]

section \<open>The evaluator\<close>

definition string_set_add :: "hook_lib \<Rightarrow> tvalue option \<Rightarrow> utf16 \<Rightarrow> utf16 list" where
  "string_set_add lib current item =
     (let items = (case current of
        None \<Rightarrow> [] | Some (VStringSet items) \<Rightarrow> items
      | Some other \<Rightarrow> fold (\<lambda>v acc. case value_utf16 lib v ''string-set'' of Inr us \<Rightarrow> string_set_insert acc us | Inl _ \<Rightarrow> acc)
          (value_array other) [])
      in string_set_insert items item)"

definition local_array :: "tvalue option \<Rightarrow> tvalue list" where
  "local_array v = (case v of None \<Rightarrow> [] | Some w \<Rightarrow> value_array w)"

definition named_result :: "hook_lib \<Rightarrow> named_op \<Rightarrow> str \<Rightarrow> tvalue \<Rightarrow> tvalue ev" where
  "named_result lib op name v =
     (case op of
        OAssignVar \<Rightarrow> ev_bind (set_locals (\<lambda>l. l(name \<mapsto> v))) (\<lambda>_. ev_return v)
      | OArrayPush \<Rightarrow> ev_bind (get_local name) (\<lambda>current.
          let items = local_array current @ [v] in
          ev_bind (set_locals (\<lambda>l. l(name \<mapsto> VArray items))) (\<lambda>_. ev_return (VInteger (int (length items)))))
      | OStringSetAdd \<Rightarrow> ev_bind (ev_lift (value_utf16 lib v ''string-set-add'')) (\<lambda>us.
          ev_bind (get_local name) (\<lambda>current.
          let items = string_set_add lib current us in
          ev_bind (set_locals (\<lambda>l. l(name \<mapsto> VStringSet items))) (\<lambda>_. ev_return (VStringSet items)))))"

definition array_shift :: "str \<Rightarrow> tvalue ev" where
  "array_shift name =
     ev_bind (get_local name) (\<lambda>current. let items = local_array current in
       ev_bind (set_locals (\<lambda>l. l(name \<mapsto> VArray (tl items)))) (\<lambda>_. ev_return (case items of [] \<Rightarrow> VNull | v # _ \<Rightarrow> v)))"

definition assign_prop :: "texpr \<Rightarrow> str \<Rightarrow> tvalue \<Rightarrow> tvalue ev" where
  "assign_prop obj key v =
     (case obj of
        EVar name \<Rightarrow> ev_bind (get_local name) (\<lambda>current.
          ev_bind (set_locals (\<lambda>l. l(name \<mapsto> set_prop (unwrap_or VNull current) key v))) (\<lambda>_. ev_return v))
      | _ \<Rightarrow> ev_return v)"

definition let_scope :: "str \<Rightarrow> tvalue \<Rightarrow> tvalue ev \<Rightarrow> tvalue ev" where
  "let_scope name v body s =
     (let previous = hs_locals s name in
      case body (s\<lparr>hs_locals := (hs_locals s)(name \<mapsto> v)\<rparr>) of (r, s') \<Rightarrow>
        (r, s'\<lparr>hs_locals := (hs_locals s')(name := previous)\<rparr>))"

definition catch_return :: "tvalue ev \<Rightarrow> tvalue ev" where
  "catch_return body s = (case body s of (r, s') \<Rightarrow> (case r of Inl (AbReturn v) \<Rightarrow> Inr v | _ \<Rightarrow> r, s'))"

definition try_catch :: "tvalue ev \<Rightarrow> tvalue ev \<Rightarrow> tvalue ev" where
  "try_catch body handler s =
     (case body s of (r, s') \<Rightarrow>
        (case r of Inl (AbError e) \<Rightarrow> (if er_cancelled e then (r, s') else handler s') | _ \<Rightarrow> (r, s')))"

definition context_value :: "context_op \<Rightarrow> hook_context \<Rightarrow> tvalue" where
  "context_value op ctx =
     (case op of OCtxCwd \<Rightarrow> vstr (hc_current_working_directory ctx) | OCtxProcess \<Rightarrow> vstr (hc_current_process ctx)
      | OCtxSshPrefix \<Rightarrow> vstr (hc_ssh_prefix ctx) | OCtxSearchTerm \<Rightarrow> vstr (hc_search_term ctx)
      | OCtxIsDangerous \<Rightarrow> VBool (hc_is_dangerous ctx)
      | OCtxEnvironment \<Rightarrow> VObject (map (\<lambda>(k, v). (k, vstr v)) (environment_iter (hc_environment_variables ctx))))"

text \<open>Each node first checks for cancellation.\<close>

definition guarded :: "hook_world \<Rightarrow> tvalue ev \<Rightarrow> den" where
  "guarded w m = (ev_bind (check_cancel w) (\<lambda>_. m), None)"

primrec denote :: "hook_world \<Rightarrow> hook_effects option \<Rightarrow> tvalue list \<Rightarrow> texpr \<Rightarrow> den" where
  "denote w fx args (EArg index) = guarded w (
     case list_get args index of Some v \<Rightarrow> ev_return v
     | None \<Rightarrow> fail (lit ''argument index '' @ show_nat index @ lit '' is unavailable''))"
| "denote w fx args (EString s) = guarded w (ev_return (vstr s))"
| "denote w fx args (EBool b) = guarded w (ev_return (VBool b))"
| "denote w fx args (EInteger i) = guarded w (
     ev_bind (ev_lift (ensure_safe_integer i (lit ''integer''))) (\<lambda>_. ev_return (VInteger i)))"
| "denote w fx args ENull = guarded w (ev_return VNull)"
| "denote w fx args (EUnary op e) = guarded w (
     ev_bind (fst (denote w fx args e)) (\<lambda>v. ev_lift (unary_result (hw_lib w) op v)))"
| "denote w fx args (EBinary op l r) = guarded w (
     ev_bind (fst (denote w fx args l)) (\<lambda>v.
     ev_bind (ev_lift (binary_result (hw_lib w) op v)) (\<lambda>f.
     ev_bind (fst (denote w fx args r)) (\<lambda>u. ev_lift (f u)))))"
| "denote w fx args (ETernary op a b c) = guarded w (
     ev_bind (fst (denote w fx args a)) (\<lambda>v.
     ev_bind (ev_lift (ternary_result (hw_lib w) op v)) (\<lambda>f.
     ev_bind (fst (denote w fx args b)) (\<lambda>u.
     ev_bind (ev_lift (f u)) (\<lambda>g.
     ev_bind (fst (denote w fx args c)) (\<lambda>x. ev_lift (g x)))))))"
| "denote w fx args (ECallback op e callback) = guarded w (
     ev_bind (fst (denote w fx args e)) (\<lambda>v.
       callback_result (hw_lib w) op (apply_lambda (denote w fx args callback)) (value_array v)))"
| "denote w fx args (EList op items) = guarded w (list_result (hw_lib w) op (map fst (map (denote w fx args) items)))"
| "denote w fx args (EFields op members) = guarded w (
     ev_bind (eval_fields (map (map_prod id fst) (map (map_prod id (denote w fx args)) members)) []) (\<lambda>obj. ev_return (VObject obj)))"
| "denote w fx args (ESpread e members) = guarded w (
     ev_bind (fst (denote w fx args e)) (\<lambda>v.
     ev_bind (eval_fields (map (map_prod id fst) (map (map_prod id (denote w fx args)) members)) (object_map v))
       (\<lambda>obj. ev_return (VObject obj))))"
| "denote w fx args (ERegexOp op e pattern flags) = guarded w (
     ev_bind (fst (denote w fx args e)) (\<lambda>v. ev_lift (regex_result (hw_lib w) op pattern flags v)))"
| "denote w fx args (ERegexReplace e pattern flags new) = guarded w (
     ev_bind (fst (denote w fx args e)) (\<lambda>v.
     ev_bind (ev_lift (value_text (hw_lib w) v ''regex-replace.value'')) (\<lambda>txt.
     ev_bind (fst (denote w fx args new)) (\<lambda>u.
     ev_bind (ev_lift (value_text (hw_lib w) u ''regex-replace.replacement'')) (\<lambda>replacement.
       ev_lift (and_then (regex_replace (hw_lib w) pattern flags txt replacement) (\<lambda>s. Inr (vstr s))))))))"
| "denote w fx args (ERegex pattern flags) = guarded w (ev_return (VRegex pattern flags))"
| "denote w fx args (ELogic op l r) = guarded w (
     ev_bind (fst (denote w fx args l)) (\<lambda>v.
       if (case op of ONullish \<Rightarrow> v = VNull | OAnd \<Rightarrow> is_truthy (hw_lib w) v | OOr \<Rightarrow> \<not> is_truthy (hw_lib w) v)
       then fst (denote w fx args r) else ev_return v))"
| "denote w fx args (EIf c t e) = guarded w (
     ev_bind (fst (denote w fx args c)) (\<lambda>v.
       if is_truthy (hw_lib w) v then fst (denote w fx args t) else fst (denote w fx args e)))"
| "denote w fx args (ELambda names body) =
     (fst (guarded w (ev_return VNull)), Some (names, fst (denote w fx args body)))"
| "denote w fx args (EVar name) = guarded w (
     ev_bind (get_local name) (\<lambda>v. case v of Some u \<Rightarrow> ev_return u | None \<Rightarrow> fail (lit ''unbound variable '' @ name)))"
| "denote w fx args (EArrayShift name) = guarded w (array_shift name)"
| "denote w fx args (ELet name e body) = guarded w (
     ev_bind (fst (denote w fx args e)) (\<lambda>v. let_scope name v (fst (denote w fx args body))))"
| "denote w fx args (EReturn e) = guarded w (ev_bind (fst (denote w fx args e)) (\<lambda>v. ev_abort (AbReturn v)))"
| "denote w fx args (ECatchReturn body) = guarded w (catch_return (fst (denote w fx args body)))"
| "denote w fx args EBreak = guarded w (ev_abort AbBreak)"
| "denote w fx args EContinue = guarded w (ev_abort AbContinue)"
| "denote w fx args (ETry body handler) = guarded w (try_catch (fst (denote w fx args body)) (fst (denote w fx args handler)))"
| "denote w fx args (EForOf names e body) = guarded w (
     ev_bind (fst (denote w fx args e)) (\<lambda>v. for_of_loop w fx names (fst (denote w fx args body)) 0 (value_array v)))"
| "denote w fx args (EWhile c body) = guarded w (
     while_loop w fx (fst (denote w fx args c)) (fst (denote w fx args body)) WHILE_CAP)"
| "denote w fx args (ENamed op name e) = guarded w (
     ev_bind (fst (denote w fx args e)) (\<lambda>v. named_result (hw_lib w) op name v))"
| "denote w fx args (EAssignProp obj key e) = guarded w (
     ev_bind (fst (denote w fx args key)) (\<lambda>k.
     ev_bind (ev_lift (value_text (hw_lib w) k ''assign-prop.key'')) (\<lambda>name.
     ev_bind (fst (denote w fx args e)) (\<lambda>v. assign_prop obj name v))))"
| "denote w fx args (EArrayFlat e d) = guarded w (
     ev_bind (fst (denote w fx args d)) (\<lambda>u.
     ev_bind (ev_lift (value_i64 (hw_lib w) u ''array-flat.depth'')) (\<lambda>depth.
     ev_bind (fst (denote w fx args e)) (\<lambda>v. ev_return (VArray (flatten (value_array v) depth))))))"
| "denote w fx args (EStringSliceRange e a b) = guarded w (
     ev_bind (fst (denote w fx args e)) (\<lambda>v.
     ev_bind (ev_lift (receiver_utf16 (hw_lib w) v ''string-slice-range.value'')) (\<lambda>receiver.
       case receiver of None \<Rightarrow> ev_return VNull
       | Some us \<Rightarrow>
           ev_bind (fst (denote w fx args a)) (\<lambda>x.
           ev_bind (ev_lift (value_i64 (hw_lib w) x ''string-slice-range.start'')) (\<lambda>i.
           ev_bind (fst (denote w fx args b)) (\<lambda>y.
           ev_bind (ev_lift (value_i64 (hw_lib w) y ''string-slice-range.end'')) (\<lambda>j.
             ev_lift (string_result (js_slice_range us i j)))))))))"
| "denote w fx args (EExec command argv cwd env timeout) = guarded w (
     ev_bind (fst (denote w fx args command)) (\<lambda>c.
     ev_bind (fst (denote w fx args argv)) (\<lambda>a.
     ev_bind (fst (denote w fx args cwd)) (\<lambda>d.
     ev_bind (fst (denote w fx args env)) (\<lambda>e.
     ev_bind (fst (denote w fx args timeout)) (\<lambda>t. evaluate_exec w c a d e t fx))))))"
| "denote w fx args (EContext op) = guarded w (
     ev_bind (require_effects fx) (\<lambda>effects. ev_return (context_value op (fx_context effects))))"
| "denote w fx args (ECtxEnv name) = guarded w (
     ev_bind (fst (denote w fx args name)) (\<lambda>v.
     ev_bind (ev_lift (value_text (hw_lib w) v ''ctx-env.name'')) (\<lambda>key.
     ev_bind (require_effects fx) (\<lambda>effects.
       ev_return (case environment_get (hc_environment_variables (fx_context effects)) key of Some s \<Rightarrow> vstr s | None \<Rightarrow> VNull)))))"
| "denote w fx args (EThrow class_name message) = guarded w (
     ev_bind (fst (denote w fx args message)) (\<lambda>v.
     ev_bind (ev_lift (value_text (hw_lib w) v ''throw.message'')) (\<lambda>txt. ev_abort (AbError (error_throw class_name txt)))))"

abbreviation evaluate_inner :: "hook_world \<Rightarrow> hook_effects option \<Rightarrow> tvalue list \<Rightarrow> texpr \<Rightarrow> tvalue ev" where
  "evaluate_inner w fx args e \<equiv> fst (denote w fx args e)"

definition initial_state :: hook_state where
  "initial_state = \<lparr>hs_locals = Map.empty, hs_checks = 0, hs_clock = 0, hs_execs = []\<rparr>"

definition evaluate_with_effects ::
  "hook_world \<Rightarrow> texpr \<Rightarrow> tvalue list \<Rightarrow> hook_effects option \<Rightarrow> tvalue hook_result \<times> hook_state" where
  "evaluate_with_effects w e args fx =
     (case evaluate_inner w fx args e initial_state of (r, s) \<Rightarrow>
        (case check_cancel w s of (Inl _, s') \<Rightarrow> (Inl error_cancelled, s')
         | (Inr _, s') \<Rightarrow>
             (case r of
                Inr v \<Rightarrow> Inr v
              | Inl (AbReturn v) \<Rightarrow> Inr v
              | Inl AbBreak \<Rightarrow> Inl (error_new (lit ''break outside loop''))
              | Inl AbContinue \<Rightarrow> Inl (error_new (lit ''continue outside loop''))
              | Inl (AbError e) \<Rightarrow> Inl e, s')))"

end
