(* ===== verification/Hook_Cancel.thy ===== *)
theory Hook_Cancel
  imports Hook_Eval
begin

text \<open>
  What the evaluation of a hook may do to the outside, as an interface: the locale \<open>hook_steps\<close> asks of a
  relation on states that it holds over every elementary step (a check, a look at the clock, a process
  started right after a check that passed, any change of the local variables), and gives that it holds
  over the evaluation of every expression. The instance says when processes start; from it follows how
  a cancelled request ends.
\<close>

section \<open>The interface of a run\<close>

definition started :: "hook_state \<Rightarrow> exec_request \<Rightarrow> hook_state" where
  "started s request = s\<lparr>hs_checks := Suc (hs_checks s), hs_execs := hs_execs s @ [(Suc (hs_checks s), request)]\<rparr>"

locale hook_steps =
  fixes w :: hook_world and R :: "hook_state \<Rightarrow> hook_state \<Rightarrow> bool"
  assumes R_refl: "R s s"
    and R_trans: "R s t \<Longrightarrow> R t u \<Longrightarrow> R s u"
    and R_locals: "R s (s\<lparr>hs_locals := l\<rparr>)"
    and R_check: "R s (s\<lparr>hs_checks := Suc (hs_checks s)\<rparr>)"
    and R_clock: "R s (s\<lparr>hs_clock := Suc (hs_clock s)\<rparr>)"
    and R_exec: "\<not> hw_cancelled w (hs_checks s) \<Longrightarrow> R s (started s request)"
begin

definition keeps :: "'a ev \<Rightarrow> bool" where
  "keeps m \<longleftrightarrow> (\<forall>s. R s (snd (m s)))"

lemma keepsD: "keeps m \<Longrightarrow> m s = (r, s') \<Longrightarrow> R s s'"
  by (metis keeps_def snd_conv)

lemma keepsI: "(\<And>s r s'. m s = (r, s') \<Longrightarrow> R s s') \<Longrightarrow> keeps m"
  by (simp add: keeps_def prod_eq_iff)

lemma keeps_simple: "keeps (ev_return v)" "keeps (ev_lift r)" "keeps (ev_abort a)" "keeps (fail message)"
  "keeps (get_local name)" "keeps (loop_timed_out op)"
  by (auto simp: keeps_def ev_return_def ev_lift_def ev_abort_def fail_def get_local_def loop_timed_out_def
      R_refl split: sum.split)

lemma keeps_world: "keeps (set_locals f)" "keeps (check_cancel w)" "keeps (read_clock w)"
  by (auto simp: keeps_def set_locals_def check_cancel_def read_clock_def R_locals R_check R_clock)

lemma keeps_bind: "keeps m \<Longrightarrow> (\<And>v. keeps (f v)) \<Longrightarrow> keeps (ev_bind m f)"
  by (rule keepsI) (auto simp: ev_bind_def split: prod.splits sum.splits dest: keepsD intro: R_trans)

lemma keeps_if: "(b \<Longrightarrow> keeps m) \<Longrightarrow> (\<not> b \<Longrightarrow> keeps m') \<Longrightarrow> keeps (if b then m else m')"
  by simp

lemma keeps_option: "(o' = None \<Longrightarrow> keeps m) \<Longrightarrow> (\<And>v. keeps (f v)) \<Longrightarrow> keeps (case o' of None \<Rightarrow> m | Some v \<Rightarrow> f v)"
  by (cases o') simp_all

lemma keeps_deadline: "keeps (loop_deadline_expired w fx n)"
  unfolding loop_deadline_expired_def by (intro keeps_if keeps_option keeps_bind keeps_simple keeps_world)

lemma keeps_effects: "keeps (require_effects fx)"
  unfolding require_effects_def by (intro keeps_option keeps_simple)

text \<open>A process starts only behind a check that passed.\<close>

lemma keeps_checked_exec: "(\<And>r. keeps (k r)) \<Longrightarrow> keeps (ev_bind (check_cancel w) (\<lambda>_. ev_bind (run_exec w request) k))"
proof (rule keepsI)
  fix s r s' assume k: "\<And>r. keeps (k r)" and run: "ev_bind (check_cancel w) (\<lambda>_. ev_bind (run_exec w request) k) s = (r, s')"
  show "R s s'"
  proof (cases "hw_cancelled w (hs_checks s)")
    case True
    with run show ?thesis by (auto simp: ev_bind_def check_cancel_def R_check)
  next
    case False
    have "snd (run_exec w request (s\<lparr>hs_checks := hs_checks s + 1\<rparr>)) = started s request"
      by (simp add: run_exec_def started_def)
    with run False have "k (hw_exec w (length (hs_execs s)) request) (started s request) = (r, s')"
      by (simp add: ev_bind_def check_cancel_def run_exec_def started_def)
    then show ?thesis using R_exec [OF False, of request] k R_trans keepsD by blast
  qed
qed

lemma keeps_exec: "keeps (evaluate_exec w c a d e t fx)"
  unfolding evaluate_exec_def
  by (intro keeps_bind keeps_effects keeps_option keeps_if keeps_simple keeps_world keeps_checked_exec)

lemma keeps_lambda: "(\<And>names body. snd callback = Some (names, body) \<Longrightarrow> keeps body) \<Longrightarrow> keeps (apply_lambda callback values)"
proof (rule keepsI)
  fix s r s'
  assume body: "\<And>names body. snd callback = Some (names, body) \<Longrightarrow> keeps body" and run: "apply_lambda callback values s = (r, s')"
  show "R s s'"
  proof (cases "snd callback")
    case None
    with run show ?thesis by (simp add: apply_lambda_def fail_def ev_abort_def R_refl)
  next
    case (Some p)
    then obtain names b where cb: "snd callback = Some (names, b)" by (cases p) simp
    let ?s = "s\<lparr>hs_locals := bind_values names values (hs_locals s)\<rparr>"
    obtain r1 s1 where b: "b ?s = (r1, s1)" by fastforce
    with body [OF cb] have step: "R ?s s1" by (rule keepsD)
    from run cb b have "s' = s1\<lparr>hs_locals := restore (map (\<lambda>name. (name, hs_locals s name)) names) (hs_locals s1)\<rparr>"
      by (simp add: apply_lambda_def Let_def)
    then show ?thesis using R_trans [OF R_locals R_trans [OF step R_locals]] by simp
  qed
qed

lemma keeps_map: "(\<And>vs. keeps (call vs)) \<Longrightarrow> keeps (map_loop call i items)"
  by (induction items arbitrary: i) (auto intro!: keeps_bind keeps_simple)

lemma keeps_filter: "(\<And>vs. keeps (call vs)) \<Longrightarrow> keeps (filter_loop lib call i items)"
  by (induction items arbitrary: i) (auto intro!: keeps_bind keeps_simple)

lemma keeps_search: "(\<And>vs. keeps (call vs)) \<Longrightarrow> keeps (search_loop lib wanted call i items)"
  by (induction items arbitrary: i) (auto intro!: keeps_bind keeps_simple)

lemma sort_insert_steps: "(\<And>vs. keeps (call vs)) \<Longrightarrow> R s (snd (sort_insert call x ys s))"
proof (induction ys arbitrary: s)
  case (Cons y ys)
  have "R s (snd (call [x, y] s))" using Cons.prems by (simp add: keeps_def)
  with Cons show ?case
    by (auto simp: callback_less_def split: prod.splits) (metis R_trans snd_conv)+
qed (simp add: R_refl)

lemma keeps_sort: "(\<And>vs. keeps (call vs)) \<Longrightarrow> keeps (sort_loop call acc items)"
proof (induction items arbitrary: acc)
  case (Cons x xs)
  have "R s (snd (sort_insert call x acc s))" for s using Cons.prems by (rule sort_insert_steps)
  moreover have "keeps (sort_loop call acc' xs)" for acc' using Cons by blast
  ultimately show ?case unfolding keeps_def by (auto split: prod.splits) (metis R_trans snd_conv)
qed (simp add: keeps_def R_refl)

lemma keeps_callback: "(\<And>vs. keeps (call vs)) \<Longrightarrow> keeps (callback_result lib op call items)"
  by (cases op) (auto simp: callback_result_def intro!: keeps_bind keeps_simple keeps_map keeps_filter keeps_search keeps_sort)

lemma keeps_list_loop: "(\<And>m. m \<in> set ms \<Longrightarrow> keeps m) \<Longrightarrow> keeps (list_loop step acc ms)"
  by (induction ms arbitrary: acc) (auto intro!: keeps_bind keeps_simple)

lemma keeps_list: "(\<And>m. m \<in> set ms \<Longrightarrow> keeps m) \<Longrightarrow> keeps (list_result lib op ms)"
  by (cases op) (auto simp: list_result_def intro!: keeps_bind keeps_simple keeps_list_loop)

lemma keeps_fields: "(\<And>k m. (k, m) \<in> set ms \<Longrightarrow> keeps m) \<Longrightarrow> keeps (eval_fields ms obj)"
proof (induction ms arbitrary: obj)
  case (Cons km ms)
  obtain k m where km: "km = (k, m)" by fastforce
  have "keeps (eval_fields ms obj)" for obj using Cons by (meson list.set_intros(2))
  moreover have "keeps m" using Cons.prems km by (meson list.set_intros(1))
  ultimately show ?case by (simp add: km keeps_bind)
qed (simp add: keeps_simple)

lemma keeps_loop_body: "keeps body \<Longrightarrow> keeps (loop_body body)"
  by (rule keepsI) (auto simp: loop_body_def split: prod.splits dest: keepsD)

lemma keeps_for_of: "keeps body \<Longrightarrow> keeps (for_of_loop w fx names body n items)"
  by (induction items arbitrary: n)
    (auto simp: Let_def intro!: keeps_bind keeps_simple keeps_world keeps_deadline keeps_loop_body)

lemma keeps_while: "keeps c \<Longrightarrow> keeps body \<Longrightarrow> keeps (while_loop w fx c body n)"
proof (induction n)
  case 0
  then show ?case by (subst while_loop.simps) (auto simp: Let_def intro!: keeps_bind keeps_simple keeps_deadline)
next
  case (Suc n)
  then show ?case
    by (subst while_loop.simps) (auto simp: Let_def intro!: keeps_bind keeps_simple keeps_deadline keeps_loop_body)
qed

lemma keeps_named: "keeps (named_result lib op name v)" "keeps (array_shift name)" "keeps (assign_prop obj key v)"
  by (auto simp: named_result_def array_shift_def assign_prop_def Let_def intro!: keeps_bind keeps_simple keeps_world
      split: named_op.split texpr.split)

lemma keeps_let: "keeps body \<Longrightarrow> keeps (let_scope name v body)"
proof (rule keepsI)
  fix s r s' assume body: "keeps body" and run: "let_scope name v body s = (r, s')"
  let ?s = "s\<lparr>hs_locals := (hs_locals s)(name \<mapsto> v)\<rparr>"
  obtain r1 s1 where b: "body ?s = (r1, s1)" by fastforce
  with body have step: "R ?s s1" by (rule keepsD)
  from run b have "s' = s1\<lparr>hs_locals := (hs_locals s1)(name := hs_locals s name)\<rparr>" by (simp add: let_scope_def Let_def)
  then show "R s s'" using R_trans [OF R_locals R_trans [OF step R_locals]] by simp
qed

lemma keeps_catch: "keeps body \<Longrightarrow> keeps (catch_return body)"
  by (rule keepsI) (auto simp: catch_return_def split: prod.splits dest: keepsD)

lemma keeps_try: "keeps body \<Longrightarrow> keeps handler \<Longrightarrow> keeps (try_catch body handler)"
proof (rule keepsI)
  fix s r s' assume body: "keeps body" and handler: "keeps handler" and run: "try_catch body handler s = (r, s')"
  obtain r1 s1 where b: "body s = (r1, s1)" by fastforce
  with body have "R s s1" by (rule keepsD)
  moreover from run b have "s' = s1 \<or> handler s1 = (r, s')"
    by (auto simp: try_catch_def split: sum.splits abort.splits if_splits)
  ultimately show "R s s'" using handler keepsD R_trans by blast
qed

definition keeps_den :: "den \<Rightarrow> bool" where
  "keeps_den d \<longleftrightarrow> keeps (fst d) \<and> (\<forall>names body. snd d = Some (names, body) \<longrightarrow> keeps body)"

lemma keeps_guarded: "keeps m \<Longrightarrow> keeps_den (guarded w m)"
  by (simp add: keeps_den_def guarded_def keeps_bind keeps_world)

lemma keeps_fst: "keeps_den d \<Longrightarrow> keeps (fst d)"
  by (simp add: keeps_den_def)

lemma keeps_call: "keeps_den d \<Longrightarrow> keeps (apply_lambda d values)"
  by (rule keeps_lambda) (simp add: keeps_den_def)

lemma keeps_members:
  "(\<And>p e. p \<in> set members \<Longrightarrow> e \<in> Basic_BNFs.snds p \<Longrightarrow> keeps_den (f e)) \<Longrightarrow>
   keeps (eval_fields (map (map_prod id fst) (map (map_prod id f) members)) obj)"
  by (rule keeps_fields) (auto intro!: keeps_fst)

lemma keeps_items: "(\<And>e. e \<in> set items \<Longrightarrow> keeps_den (f e)) \<Longrightarrow> keeps (list_result lib op (map fst (map f items)))"
  by (rule keeps_list) (auto intro!: keeps_fst)

lemmas keeps_rules = keeps_guarded keeps_bind keeps_simple keeps_world keeps_if keeps_option keeps_effects keeps_exec
  keeps_callback keeps_items keeps_members keeps_for_of keeps_while keeps_named keeps_let keeps_catch keeps_try keeps_call keeps_fst

lemma keeps_denote: "keeps_den (denote w fx args e)"
proof (induction e)
  case (ELambda names body)
  then have "keeps (fst (denote w fx args body))" by (rule keeps_fst)
  moreover have "keeps (fst (guarded w (ev_return VNull)))" by (intro keeps_rules)
  ultimately show ?case by (simp add: keeps_den_def)
qed (simp only: denote.simps, intro keeps_rules; blast)+

lemma evaluate_keeps: "R s (snd (evaluate_inner w fx args e s))"
  using keeps_denote [of fx args e] by (simp add: keeps_den_def keeps_def)

end

section \<open>When processes start\<close>

text \<open>
  Over a run the checks are counted up, the log of processes grows, and every process of the run
  started right after a check, its number in the log, that did not see the request cancelled.
\<close>

definition checked_run :: "hook_world \<Rightarrow> hook_state \<Rightarrow> hook_state \<Rightarrow> bool" where
  "checked_run w s t \<longleftrightarrow>
     hs_checks s \<le> hs_checks t \<and>
     (\<exists>new. hs_execs t = hs_execs s @ new \<and>
        (\<forall>(n, request) \<in> set new. 0 < n \<and> n \<le> hs_checks t \<and> \<not> hw_cancelled w (n - 1)))"

interpretation run: hook_steps w "checked_run w" for w
proof
  fix s t u l request
  show "checked_run w s s" "checked_run w s (s\<lparr>hs_locals := l\<rparr>)" "checked_run w s (s\<lparr>hs_checks := Suc (hs_checks s)\<rparr>)"
    "checked_run w s (s\<lparr>hs_clock := Suc (hs_clock s)\<rparr>)"
    by (simp_all add: checked_run_def)
  show "checked_run w s (started s request)" if "\<not> hw_cancelled w (hs_checks s)"
    using that by (simp add: checked_run_def started_def)
  show "checked_run w s u" if "checked_run w s t" "checked_run w t u"
  proof -
    from that obtain new1 new2 where new:
      "hs_execs t = hs_execs s @ new1" "\<forall>(n, request) \<in> set new1. 0 < n \<and> n \<le> hs_checks t \<and> \<not> hw_cancelled w (n - 1)"
      "hs_execs u = hs_execs t @ new2" "\<forall>(n, request) \<in> set new2. 0 < n \<and> n \<le> hs_checks u \<and> \<not> hw_cancelled w (n - 1)"
      unfolding checked_run_def by blast
    moreover have "hs_checks s \<le> hs_checks t" "hs_checks t \<le> hs_checks u" using that by (simp_all add: checked_run_def)
    ultimately show ?thesis unfolding checked_run_def by (intro conjI exI [of _ "new1 @ new2"]) force+
  qed
qed

text \<open>
  Property C28. Cancelling a request stops its hooks: once cancellation is permanent, a hook gives a
  value only if none of its checks saw the request cancelled, also those inside a \<open>try\<close> or inside the
  comparison of a sort, whose errors are dropped; if one did, the result is the cancellation error; and
  every process it started came before the cancellation was seen.
\<close>

theorem cancelled_hook_stops:
  assumes permanent: "\<And>i j. i \<le> j \<Longrightarrow> hw_cancelled w i \<Longrightarrow> hw_cancelled w j"
    and run: "evaluate_with_effects w e args fx = (r, s)"
  shows "((\<exists>k < hs_checks s. hw_cancelled w k) \<longrightarrow> r = Inl error_cancelled) \<and>
    (\<forall>(n, request) \<in> set (hs_execs s). \<forall>k < n. \<not> hw_cancelled w k)"
proof -
  obtain r1 s1 where inner: "evaluate_inner w fx args e initial_state = (r1, s1)" by fastforce
  have "checked_run w initial_state s1" using run.evaluate_keeps [of w initial_state fx args e] inner by simp
  then have log: "\<forall>(n, request) \<in> set (hs_execs s1). 0 < n \<and> \<not> hw_cancelled w (n - 1)"
    by (auto simp: checked_run_def initial_state_def)
  have s: "hs_checks s = Suc (hs_checks s1)" "hs_execs s = hs_execs s1"
    and r: "hw_cancelled w (hs_checks s1) \<Longrightarrow> r = Inl error_cancelled"
    using run inner by (auto simp: evaluate_with_effects_def check_cancel_def split: if_splits)
  have "\<not> hw_cancelled w k" if "(n, request) \<in> set (hs_execs s1)" "k < n" for n request k
    using log permanent [of k "n - 1"] that by (cases n) fastforce+
  moreover have "r = Inl error_cancelled" if "k < hs_checks s" "hw_cancelled w k" for k
    using r permanent [of k "hs_checks s1"] that s by simp
  ultimately show ?thesis using s by auto
qed

text \<open>A library that answers nothing, a world in which the request is cancelled at check \<open>at\<close>.\<close>

definition plain_lib :: hook_lib where
  "plain_lib =
     \<lparr>hl_debug = (\<lambda>s. s), hl_casing = (\<lambda>_ c. [c]), hl_integral_f64 = (\<lambda>_. None), hl_nonzero_f64 = (\<lambda>_. False),
      hl_parse_json = (\<lambda>_. None), hl_print_json = (\<lambda>_. []), rx_new = (\<lambda>_. Inr ()), rx_is_match = (\<lambda>_ _. Inr False),
      rx_find = (\<lambda>_ _. Inr None), rx_captures = (\<lambda>_ _. Inr None), rx_captures_iter = (\<lambda>_ _. []),
      rx_replace = (\<lambda>_ _ t _. t), rx_split = (\<lambda>_ t. [Inr t])\<rparr>"

definition plain_world :: "(nat \<Rightarrow> bool) \<Rightarrow> (nat \<Rightarrow> nat) \<Rightarrow> hook_world" where
  "plain_world cancelled clock =
     \<lparr>hw_lib = plain_lib, hw_cancelled = cancelled, hw_now = clock,
      hw_exec = (\<lambda>_ _. Inr \<lparr>xs_stdout = [], xs_stderr = [], xs_status = 0\<rparr>)\<rparr>"

definition plain_effects :: "nat option \<Rightarrow> hook_effects" where
  "plain_effects deadline =
     \<lparr>fx_context = \<lparr>hc_current_working_directory = [], hc_current_process = [], hc_ssh_prefix = [],
        hc_environment_variables = [], hc_search_term = [], hc_is_dangerous = False\<rparr>, fx_deadline = deadline\<rparr>"

definition exec_expr :: texpr where
  "exec_expr = EExec (EString (lit ''ls'')) (EList OArray []) ENull ENull ENull"

lemmas eval_defs = guarded_def ev_bind_def ev_return_def ev_lift_def ev_abort_def check_cancel_def read_clock_def run_exec_def
  evaluate_exec_def require_effects_def exec_request_of_def value_text_def value_utf16_def value_array_def list_result_def
  try_catch_def plain_world_def plain_effects_def initial_state_def evaluate_with_effects_def

theorem cancelled_hook_stops_witness:
  "\<exists>s. evaluate_with_effects (plain_world (\<lambda>k. 8 \<le> k) (\<lambda>_. 0)) (ETry exec_expr exec_expr) [] (Some (plain_effects None)) =
     (Inl error_cancelled, s) \<and> length (hs_execs s) = 1"
proof -
  let ?w = "plain_world (\<lambda>k. 8 \<le> k) (\<lambda>_. 0)"
  obtain r s where run: "evaluate_with_effects ?w (ETry exec_expr exec_expr) [] (Some (plain_effects None)) = (r, s)" by fastforce
  then have "hs_checks s = 10" "length (hs_execs s) = 1"
    by (auto simp: eval_defs exec_expr_def error_cancelled_def)
  moreover have "((\<exists>k < hs_checks s. hw_cancelled ?w k) \<longrightarrow> r = Inl error_cancelled) \<and>
    (\<forall>(n, request) \<in> set (hs_execs s). \<forall>k < n. \<not> hw_cancelled ?w k)"
    by (rule cancelled_hook_stops [OF _ run]) (simp add: plain_world_def)
  moreover have "hw_cancelled ?w 8" by (simp add: plain_world_def)
  ultimately have "r = Inl error_cancelled" by force
  with run \<open>length (hs_execs s) = 1\<close> show ?thesis by auto
qed

text \<open>
  The budget of a process is taken from a second look at the clock. If the deadline passes between the
  two looks, the cap is left out, and a process without a timeout of its own runs without any.
\<close>

lemma exec_without_budget:
  "\<exists>s. evaluate_with_effects (plain_world (\<lambda>_. False) (\<lambda>n. if n = 0 then 5 else 6)) exec_expr [] (Some (plain_effects (Some 5))) =
     (Inr (exec_value \<lparr>xs_stdout = [], xs_stderr = [], xs_status = 0\<rparr>), s) \<and> map (xr_timeout_ms \<circ> snd) (hs_execs s) = [None]"
  by (simp add: eval_defs exec_expr_def time_left_def exec_timeout_def)

text \<open>Otherwise no process gets more time than the hook has left.\<close>

lemma exec_within_budget: "now \<le> deadline \<Longrightarrow> \<exists>t. exec_timeout timeout now (Some deadline) = Some t \<and> t \<le> deadline - now"
  by (auto simp: exec_timeout_def time_left_def Let_def min.coboundedI1 min.coboundedI2 split: option.split)

end
