(* ===== verification/Hook_Typing.thy ===== *)
theory Hook_Typing
  imports Hook_Cancel
begin

text \<open>
  What validation promises of a hook: the expression is within the limits of size and depth and refers
  to parameters that exist, and the types it infers are those of the values, for expressions that
  return no value through \<open>try\<close> or \<open>catch-return\<close> and have a type of their own or are not expected to have one.
\<close>

section \<open>Types of values\<close>

definition is_string_value :: "tvalue \<Rightarrow> bool" where
  "is_string_value v = (case v of VString _ \<Rightarrow> True | _ \<Rightarrow> False)"

text \<open>
  Every type has \<open>null\<close>. \<open>json\<close>, the type of what is not known before, has all values, as do the types
  of arguments that come from JSON.
\<close>

definition has_type :: "value_type \<Rightarrow> tvalue \<Rightarrow> bool" where
  "has_type ty v \<longleftrightarrow> v = VNull \<or>
     (case ty of
        TString \<Rightarrow> is_string_value v
      | TBool \<Rightarrow> (case v of VBool _ \<Rightarrow> True | _ \<Rightarrow> False)
      | TInteger \<Rightarrow> (case v of VInteger _ \<Rightarrow> True | _ \<Rightarrow> False)
      | TStringArray \<Rightarrow> (case v of VStringArray _ \<Rightarrow> True | VArray items \<Rightarrow> list_all is_string_value items | _ \<Rightarrow> False)
      | TSuggestion \<Rightarrow> (case v of VObject _ \<Rightarrow> True | _ \<Rightarrow> False)
      | TSpec \<Rightarrow> (case v of VObject _ \<Rightarrow> True | _ \<Rightarrow> False)
      | TStringRecord \<Rightarrow> (case v of VObject members \<Rightarrow> list_all (is_string_value \<circ> snd) members | _ \<Rightarrow> False)
      | TStringSet \<Rightarrow> (case v of VStringSet _ \<Rightarrow> True | _ \<Rightarrow> False)
      | TValueArray \<Rightarrow> (case v of VArray _ \<Rightarrow> True | _ \<Rightarrow> False)
      | TRegex \<Rightarrow> (case v of VRegex _ _ \<Rightarrow> True | _ \<Rightarrow> False)
      | TNull \<Rightarrow> False
      | TExecResult \<Rightarrow> (case v of VObject members \<Rightarrow> map fst members = [lit ''stdout'', lit ''stderr'', lit ''status''] | _ \<Rightarrow> False)
      | _ \<Rightarrow> True)"

lemma has_type_simps [simp]:
  "has_type TString (VString us)" "has_type TBool (VBool b)" "has_type TInteger (VInteger i)" "has_type TStringArray (VStringArray xs)"
  "has_type TStringArray (VArray items) \<longleftrightarrow> list_all is_string_value items" "has_type TSuggestion (VObject members)" "has_type TSpec (VObject members)"
  "has_type TStringSet (VStringSet xs)" "has_type TValueArray (VArray items)" "has_type TRegex (VRegex p f)" "has_type ty VNull" "has_type TJson v"
  "is_string_value (VString us)" "has_type TNull v \<longleftrightarrow> v = VNull"
  by (auto simp: has_type_def is_string_value_def)

lemma typed_strings [simp]: "list_all is_string_value (map vstr ss)"
  by (induction ss) auto

lemmas result_defs = and_then_eq_Inr_iff trim_value_def receiver_utf16_def array_from_def array_entries_def Let_def math_max_def
  string_set_of_def to_js_number_def on_strings_def on_string_int_def on_ints_def on_values_def slice_after_first_def
  array_join_def locale_compare_def with_string_def array_index_of_from_def

lemma unary_typed: "unary_result lib op v = Inr u \<Longrightarrow> has_type (unary_type op None) u"
  by (cases op) (auto simp: unary_result_def unary_type_def result_defs unwrap_or_def split: option.splits sum.splits tvalue.splits if_splits)

lemma binary_typed: "binary_result lib op v = Inr f \<Longrightarrow> f u = Inr x \<Longrightarrow> has_type (binary_type op None) x"
  by (cases op) (auto simp: binary_result_def binary_type_def result_defs unwrap_or_def split: option.splits)

lemma ternary_typed: "ternary_result lib op v = Inr f \<Longrightarrow> f u = Inr g \<Longrightarrow> g x = Inr y \<Longrightarrow> has_type (ternary_type op None) y"
  by (cases op) (auto simp: ternary_result_def ternary_type_def result_defs unwrap_or_def)

lemma regex_typed: "regex_result lib op pattern flags v = Inr u \<Longrightarrow> has_type (regex_type op) u"
  by (cases op) (auto simp: regex_result_def regex_type_def regex_match_def regex_match_all_def capture_value_def result_defs
      split: if_splits option.splits)

section \<open>Types of computations\<close>

definition yields :: "value_type \<Rightarrow> tvalue ev \<Rightarrow> bool" where
  "yields ty m \<longleftrightarrow> (\<forall>s v s'. m s = (Inr v, s') \<longrightarrow> has_type ty v)"

lemma ev_bind_Inr: "ev_bind m f s = (Inr v, s') \<Longrightarrow> \<exists>u s1. m s = (Inr u, s1) \<and> f u s1 = (Inr v, s')"
  by (auto simp: ev_bind_def split: prod.splits sum.splits)

lemma yields_bind: "(\<And>v. yields ty (f v)) \<Longrightarrow> yields ty (ev_bind m f)"
  by (auto simp: yields_def dest!: ev_bind_Inr)

lemma yields_bind_value: "(\<And>v s s'. m s = (Inr v, s') \<Longrightarrow> yields ty (f v)) \<Longrightarrow> yields ty (ev_bind m f)"
  by (fastforce simp: yields_def dest!: ev_bind_Inr)

lemma yields_return: "has_type ty v \<Longrightarrow> yields ty (ev_return v)"
  by (simp add: yields_def ev_return_def)

lemma yields_abort: "yields ty (ev_abort a)" "yields ty (fail message)" "yields ty (loop_timed_out op)"
  by (simp_all add: yields_def ev_abort_def fail_def loop_timed_out_def)

lemma yields_lift: "(\<And>v. r = Inr v \<Longrightarrow> has_type ty v) \<Longrightarrow> yields ty (ev_lift r)"
  by (auto simp: yields_def ev_lift_def split: sum.splits)

lemma lift_Inr: "ev_lift r s = (Inr v, s') \<Longrightarrow> r = Inr v"
  by (auto simp: ev_lift_def split: sum.splits)

lemma yields_json: "yields TJson m"
  by (simp add: yields_def)

lemma yields_guarded: "yields ty m \<Longrightarrow> yields ty (fst (guarded w m))"
  by (simp add: guarded_def yields_bind)

lemma yields_callback: "yields (callback_type op None) (callback_result lib op call items)"
  by (cases op) (auto simp: callback_result_def callback_type_def unwrap_or_def intro!: yields_bind yields_return yields_json)

lemma yields_for_of: "yields TNull (for_of_loop w fx names body n items)"
  by (induction items arbitrary: n) (auto simp: Let_def intro!: yields_bind yields_return yields_abort)

lemma yields_while: "yields TNull (while_loop w fx c body n)"
  by (induction n) (subst while_loop.simps, auto simp: Let_def intro!: yields_bind yields_return yields_abort)+

lemma yields_let: "yields ty body \<Longrightarrow> yields ty (let_scope name v body)"
  by (fastforce simp: yields_def let_scope_def Let_def split: prod.splits)

lemma yields_exec: "yields TExecResult (evaluate_exec w c a d e t fx)"
  unfolding evaluate_exec_def by (intro yields_bind yields_return) (simp add: has_type_def exec_value_def)

lemma yields_context: "yields (context_type op) (ev_bind (require_effects fx) (\<lambda>effects. ev_return (context_value op (fx_context effects))))"
  by (cases op) (auto simp: context_type_def context_value_def has_type_def is_string_value_def list_all_iff intro!: yields_bind yields_return)

lemma bind_lift_Inr [simp]: "ev_bind (ev_lift (Inr v)) f = f v"
  by (simp add: ev_bind_def ev_lift_def fun_eq_iff)

lemma yields_last: "(ms \<noteq> [] \<Longrightarrow> yields ty (last ms)) \<Longrightarrow> (ms = [] \<Longrightarrow> has_type ty v) \<Longrightarrow>
    yields ty (list_loop (\<lambda>_ v. Inr v) v ms)"
proof (induction ms arbitrary: v)
  case (Cons m ms)
  have loop: "list_loop (\<lambda>_ v. Inr v) v (m # ms) = ev_bind m (\<lambda>u. list_loop (\<lambda>_ v. Inr v) u ms)"
    by simp
  show ?case
  proof (cases "ms = []")
    case True
    with Cons.prems(1) have m: "yields ty m" by simp
    have "yields ty (list_loop (\<lambda>_ v. Inr v) u ms)" if "m s = (Inr u, s')" for s u s'
    proof -
      have "has_type ty u" using m that by (auto simp: yields_def)
      with True show ?thesis by (simp add: yields_return)
    qed
    then show ?thesis unfolding loop by (rule yields_bind_value)
  next
    case False
    with Cons have "yields ty (list_loop (\<lambda>_ v. Inr v) u ms)" for u by simp
    then show ?thesis unfolding loop by (rule yields_bind)
  qed
qed (simp add: yields_return)

section \<open>Soundness of the inferred types\<close>

text \<open>Expressions whose value does not come through \<open>try\<close> or \<open>catch-return\<close>.\<close>

primrec plain_flow :: "texpr \<Rightarrow> bool" where
  "plain_flow (EArg i) = True" | "plain_flow (EString s) = True" | "plain_flow (EBool b) = True"
| "plain_flow (EInteger i) = True" | "plain_flow ENull = True" | "plain_flow (EUnary op e) = True"
| "plain_flow (EBinary op l r) = True" | "plain_flow (ETernary op a b c) = True"
| "plain_flow (ECallback op e f) = True"
| "plain_flow (EList op items) = (op \<in> {OBlock, OSeq} \<longrightarrow> list_all plain_flow items)"
| "plain_flow (EFields op members) = True" | "plain_flow (ESpread e members) = True"
| "plain_flow (ERegexOp op e p f) = True" | "plain_flow (ERegexReplace e p f n) = True" | "plain_flow (ERegex p f) = True"
| "plain_flow (ELogic op l r) = (plain_flow l \<and> plain_flow r)"
| "plain_flow (EIf c t e) = (plain_flow t \<and> plain_flow e)"
| "plain_flow (ELambda names body) = True" | "plain_flow (EVar name) = True" | "plain_flow (EArrayShift name) = True"
| "plain_flow (ELet name e body) = plain_flow body"
| "plain_flow (EReturn e) = True" | "plain_flow (ECatchReturn body) = False"
| "plain_flow EBreak = True" | "plain_flow EContinue = True" | "plain_flow (ETry body handler) = False"
| "plain_flow (EForOf names e body) = True" | "plain_flow (EWhile c body) = True"
| "plain_flow (ENamed op name e) = plain_flow e" | "plain_flow (EAssignProp obj key e) = plain_flow e"
| "plain_flow (EArrayFlat e d) = True" | "plain_flow (EStringSliceRange e a b) = True"
| "plain_flow (EExec c a d e t) = True" | "plain_flow (EContext op) = True" | "plain_flow (ECtxEnv e) = True"
| "plain_flow (EThrow cls e) = True"

lemma node_Inr: "node depth path nodes k = Inr r \<longleftrightarrow> nodes + 1 \<le> MAX_NODES \<and> depth \<le> MAX_DEPTH \<and> k (nodes + 1) = Inr r"
  by (auto simp: node_def)

lemma child_Inr: "check_child c depth path name expected nodes = Inr (ty, n) \<Longrightarrow>
    c (depth + 1) (path @ lit ''.'' @ name) expected nodes = Inr (ty, n)"
  by (auto simp: check_child_def Let_def and_then_eq_Inr_iff split: option.splits if_splits)

lemmas check_defs = node_Inr and_then_eq_Inr_iff check_unary_def check_binary_def check_ternary_def check_callback_def
  check_list_def check_fields_def check_spread_def check_logic_def check_if_def check_exec_def

text \<open>The last type of a list of children is that of its last element.\<close>

lemma children_last: "children cs depth path name i ty nodes = Inr (ty', n) \<Longrightarrow>
    (cs = [] \<and> ty' = ty) \<or> (cs \<noteq> [] \<and> (\<exists>p m n'. last cs (depth + 1) p None m = Inr (ty', n')))"
proof (induction cs arbitrary: i ty nodes)
  case (Cons c cs)
  then obtain ty1 n1 where first: "check_child c depth path (name i) None nodes = Inr (ty1, n1)"
    and rest: "children cs depth path name (i + 1) ty1 n1 = Inr (ty', n)" by (auto simp: and_then_eq_Inr_iff)
  from Cons.IH [OF rest] show ?case using child_Inr [OF first] rest by auto
qed simp

definition args_typed :: "hook_param list \<Rightarrow> tvalue list \<Rightarrow> bool" where
  "args_typed params args \<longleftrightarrow> list_all2 (\<lambda>param v. has_type (hp_value_type param) v) params args"

lemma infer_EArg:
  assumes "args_typed params args" "index < length params"
  shows "yields (hp_value_type (params ! index)) (case list_get args index of Some v \<Rightarrow> ev_return v | None \<Rightarrow> fail m)"
  using assms by (auto simp: args_typed_def list_get_def list_all2_conv_all_nth intro!: yields_return)

lemma infer_logic:
  assumes "yields ta ml" "yields tb mr"
  shows "yields (logic_type op None ta tb) (ev_bind ml (\<lambda>v.
    if (case op of ONullish \<Rightarrow> v = VNull | OAnd \<Rightarrow> is_truthy lib v | OOr \<Rightarrow> \<not> is_truthy lib v) then mr else ev_return v))"
proof (rule yields_bind_value)
  fix v s s' assume "ml s = (Inr v, s')"
  with assms(1) have v: "has_type ta v" by (auto simp: yields_def)
  have "has_type (logic_type op None ta tb) u" if "has_type tb u" "op = ONullish \<Longrightarrow> v = VNull" for u
    using that by (auto simp: logic_type_def join_types_def unwrap_or_def)
  moreover have "has_type (logic_type op None ta tb) v" if "op = ONullish \<Longrightarrow> v \<noteq> VNull"
    using that v by (auto simp: logic_type_def join_types_def unwrap_or_def)
  ultimately show "yields (logic_type op None ta tb)
    (if (case op of ONullish \<Rightarrow> v = VNull | OAnd \<Rightarrow> is_truthy lib v | OOr \<Rightarrow> \<not> is_truthy lib v) then mr else ev_return v)"
    using assms(2) by (auto simp: yields_def ev_return_def split: if_splits logic_op.splits)
qed

lemma infer_list:
  assumes "op \<in> {OBlock, OSeq} \<Longrightarrow> ms \<noteq> [] \<Longrightarrow> yields ty (last ms)" "ms = [] \<Longrightarrow> ty = TNull"
  shows "yields (list_type op None ty) (list_result lib op ms)"
proof (cases "op \<in> {OBlock, OSeq}")
  case True
  with assms have "yields ty (list_loop (\<lambda>_ v. Inr v) VNull ms)" by (intro yields_last) auto
  with True show ?thesis by (auto simp: list_type_def list_result_def unwrap_or_def)
next
  case False
  then show ?thesis
    by (cases op) (auto simp: list_type_def list_result_def unwrap_or_def and_then_eq_Inr_iff
        intro!: yields_bind yields_return yields_lift)
qed

lemma infer_named:
  assumes "yields ty m"
  shows "yields (if op = OAssignVar then ty else if op = OArrayPush then TInteger else TStringSet) (ev_bind m (named_result lib op name))"
proof (rule yields_bind_value)
  fix v s s' assume "m s = (Inr v, s')"
  with assms have "has_type ty v" by (auto simp: yields_def)
  then show "yields (if op = OAssignVar then ty else if op = OArrayPush then TInteger else TStringSet) (named_result lib op name v)"
    by (cases op) (auto simp: named_result_def Let_def intro!: yields_bind yields_return)
qed

lemma infer_assign:
  assumes "yields ty m"
  shows "yields ty (ev_bind m (assign_prop obj key))"
proof (rule yields_bind_value)
  fix v s s' assume "m s = (Inr v, s')"
  with assms have "has_type ty v" by (auto simp: yields_def)
  then show "yields ty (assign_prop obj key v)"
    by (cases obj) (auto simp: assign_prop_def intro!: yields_bind yields_return)
qed

lemma inferred_type:
  assumes "args_typed params args"
  shows "validate_expr lib params e depth path None nodes = Inr (ty, n) \<Longrightarrow> plain_flow e \<Longrightarrow> yields ty (evaluate_inner w fx args e)"
proof (induction e arbitrary: depth path nodes ty n)
  case (EArg index)
  then show ?case using infer_EArg [OF assms] by (auto simp: check_defs split: if_splits intro!: yields_guarded)
next
  case (EUnary op e)
  then show ?case by (auto simp: check_defs intro!: yields_guarded yields_bind yields_lift unary_typed)
next
  case (EBinary op l r)
  then show ?case by (auto simp: check_defs intro!: yields_guarded yields_bind_value yields_lift dest!: lift_Inr binary_typed)
next
  case (ETernary op a b c)
  then show ?case by (auto simp: check_defs intro!: yields_guarded yields_bind_value yields_lift dest!: lift_Inr ternary_typed split: prod.splits)
next
  case (ECallback op e callback)
  then show ?case by (auto simp: check_defs intro!: yields_guarded yields_bind yields_callback)
next
  case (ERegexOp op e p f)
  then show ?case by (auto simp: check_defs intro!: yields_guarded yields_bind yields_lift regex_typed)
next
  case (EList op items)
  obtain ty' n' where ty: "ty = list_type op None ty'"
    and walk: "children (map (validate_expr lib params) items) depth path (indexed (list_field op) []) 0 TNull (nodes + 1) = Inr (ty', n')"
    using EList.prems(1) by (auto simp: check_defs split: if_splits)
  have last: "items = [] \<and> ty' = TNull \<or> items \<noteq> [] \<and> (\<exists>p m n'. validate_expr lib params (last items) (depth + 1) p None m = Inr (ty', n'))"
    using children_last [OF walk] by (cases "items = []") (simp_all add: last_map)
  have "yields ty' (last (map fst (map (denote w fx args) items)))" if "op \<in> {OBlock, OSeq}" "items \<noteq> []"
    using EList.IH [of "last items"] EList.prems(2) last that by (auto simp: last_map list_all_iff)
  then have "yields ty (list_result (hw_lib w) op (map fst (map (denote w fx args) items)))"
    unfolding ty using last by (intro infer_list) auto
  then show ?case by (auto intro!: yields_guarded)
next
  case (ELogic op l r)
  then show ?case by (auto simp: check_defs intro!: yields_guarded infer_logic dest!: child_Inr)
next
  case (EIf c t e)
  then obtain t1 t2 where "ty = join_types t1 t2" "yields t1 (evaluate_inner w fx args t)" "yields t2 (evaluate_inner w fx args e)"
    by (auto simp: check_defs unwrap_or_def dest!: child_Inr)
  then have "yields ty (evaluate_inner w fx args t)" "yields ty (evaluate_inner w fx args e)"
    by (auto simp: join_types_def yields_json)
  then show ?case by (auto intro!: yields_guarded yields_bind)
next
  case (ELet name e body)
  then show ?case by (auto simp: check_defs intro!: yields_guarded yields_bind yields_let dest!: child_Inr)
next
  case (ENamed op name e)
  then obtain t where "ty = (if op = OAssignVar then t else if op = OArrayPush then TInteger else TStringSet)"
    "op = OAssignVar \<Longrightarrow> yields t (evaluate_inner w fx args e)"
    by (auto simp: check_defs split: if_splits dest!: child_Inr)
  then show ?case using infer_named [of t "evaluate_inner w fx args e" op "hw_lib w" name] infer_named [of TJson "evaluate_inner w fx args e" op "hw_lib w" name]
    by (auto intro!: yields_guarded simp: yields_json split: if_splits)
next
  case (EAssignProp obj key e)
  then have "yields ty (evaluate_inner w fx args e)" by (auto simp: check_defs dest!: child_Inr)
  then show ?case by (auto intro!: yields_guarded yields_bind infer_assign)
next
  case (EContext op)
  then show ?case by (auto simp: check_defs intro!: yields_guarded yields_context)
next
  case (EExec c a d e t)
  then show ?case by (auto simp: check_defs intro!: yields_guarded yields_bind yields_exec)
next
  case (EFields op members)
  then show ?case by (cases op) (auto simp: check_defs fields_type_def intro!: yields_guarded yields_bind yields_return)
next
  case (EStringSliceRange e a b)
  then show ?case by (auto simp: check_defs and_then_eq_Inr_iff intro!: yields_guarded yields_bind yields_return yields_lift split: option.split)
next
  case (ECtxEnv e)
  then show ?case by (auto simp: check_defs intro!: yields_guarded yields_bind yields_return split: option.split)
qed (auto simp: check_defs unwrap_or_def intro!: yields_guarded yields_bind yields_return yields_json yields_abort yields_lift
    yields_for_of yields_while split: if_splits)

text \<open>
  Where a type is expected of an expression, some constructs take that type as theirs without a check: a
  variable, a member, an element, a slice, the branches of a conditional. The others have a type of
  their own, whatever is expected.
\<close>

fun own_type :: "texpr \<Rightarrow> bool" where
  "own_type (EUnary op e) = (op \<notin> {OArrayReverse, OArrayPop})"
| "own_type (EBinary op l r) = (op \<notin> {OGet, OJsonGet, OArrayIndex})"
| "own_type (ETernary op a b c) = (op \<noteq> OArraySlice)"
| "own_type (ECallback op e f) = (op \<in> {OArraySome, OArrayEvery, OArrayFind, OArrayFindIndex})"
| "own_type (EList op items) = (op \<in> {OArray, OStringConcat, OPar})"
| "own_type (ELogic op l r) = (op = ONullish)"
| "own_type (EIf c t e) = False"
| "own_type (EVar name) = False" | "own_type (EArrayShift name) = False"
| "own_type (ELet name e body) = own_type body"
| "own_type (EReturn e) = False" | "own_type (ECatchReturn e) = False"
| "own_type (ETry body handler) = False" | "own_type (EThrow class_name e) = False"
| "own_type e = True"

lemma child_unexpected:
  assumes "check_child c depth path name expected nodes = Inr r"
    and "\<And>d p n r. c d p expected n = Inr r \<Longrightarrow> c d p None n = Inr r"
  shows "check_child c depth path name None nodes = Inr r"
proof -
  obtain ty n where r: "r = (ty, n)" by fastforce
  have "c (depth + 1) (path @ lit ''.'' @ name) None nodes = Inr (ty, n)" using child_Inr [OF assms(1) [unfolded r]] by (rule assms(2))
  then show ?thesis by (simp add: r check_child_def)
qed

lemma own_types:
  shows own_unary: "op \<notin> {OArrayReverse, OArrayPop} \<Longrightarrow> unary_type op x = unary_type op None"
    and own_binary: "op2 \<notin> {OGet, OJsonGet, OArrayIndex} \<Longrightarrow> binary_type op2 x = binary_type op2 None"
    and own_ternary: "op3 \<noteq> OArraySlice \<Longrightarrow> ternary_type op3 x = ternary_type op3 None"
    and own_callback: "cb \<in> {OArraySome, OArrayEvery, OArrayFind, OArrayFindIndex} \<Longrightarrow> callback_type cb x = callback_type cb None"
    and own_list: "lop \<in> {OArray, OStringConcat, OPar} \<Longrightarrow> list_type lop x ty = list_type lop None ty"
    and own_logic: "logic_type ONullish x ta tb = logic_type ONullish None ta tb"
  subgoal by (cases op) (simp_all add: unary_type_def)
  subgoal by (cases op2) (simp_all add: binary_type_def)
  subgoal by (cases op3) (simp_all add: ternary_type_def)
  subgoal by (cases cb) (simp_all add: callback_type_def)
  subgoal by (cases lop) (simp_all add: list_type_def)
  subgoal by (simp add: logic_type_def)
  done

lemma own_type_expected:
  "own_type e \<Longrightarrow> validate_expr lib params e depth path expected nodes = Inr r \<Longrightarrow> validate_expr lib params e depth path None nodes = Inr r"
proof (induction e arbitrary: depth path nodes r)
  case (ELet name e body)
  note body = child_unexpected [where c = "validate_expr lib params body" and expected = expected, OF _ ELet.IH(2)]
  from ELet.prems show ?case by (auto simp: node_Inr and_then_eq_Inr_iff intro!: body)
next
  case (EList op items)
  have "list_type op expected ty = list_type op None ty" for ty using EList.prems(1) by (intro own_list) simp
  with EList.prems(2) show ?case by (simp add: check_list_def cong: if_cong)
qed (simp_all add: check_unary_def check_binary_def check_ternary_def check_callback_def check_fields_def check_spread_def
    check_logic_def check_exec_def own_types [where x = expected] cong: prod.case_cong)

text \<open>
  Property C27. The types the validator infers are those of the values: if an expression is given the
  type \<open>ty\<close>, its value does not come through \<open>try\<close> or \<open>catch-return\<close>, either nothing is expected of it or
  its type is its own, and the arguments have the types of their parameters, then every value it
  evaluates to has the type \<open>ty\<close>, whatever the libraries, the clock, the processes and the local
  variables are.
\<close>

theorem inferred_types_sound:
  assumes "validate_expr lib params e depth path expected nodes = Inr (ty, n)" "expected = None \<or> own_type e" "plain_flow e"
    and "args_typed params args" "evaluate_inner w fx args e s = (Inr v, s')"
  shows "has_type ty v"
proof -
  have "validate_expr lib params e depth path None nodes = Inr (ty, n)" using assms(1,2) own_type_expected by blast
  from inferred_type [OF assms(4) this assms(3), of w fx] show ?thesis using assms(5) by (auto simp: yields_def)
qed

definition string_param :: hook_param where "string_param = \<lparr>hp_index = 0, hp_value_type = TString\<rparr>"

text \<open>The parts of \<open>a,b\<close>, or an empty list: a list of strings either way.\<close>

definition split_expr :: texpr where
  "split_expr = EIf (EArg 0) (EBinary OStringSplit (EArg 0) (EString (lit '',''))) (EUnary OObjectKeys ENull)"

lemmas validate_defs = check_unary_def check_binary_def check_if_def check_child_def node_def MAX_NODES_def MAX_DEPTH_def
  unary_operand_def unary_type_def binary_operands_def binary_check_def binary_type_def types_compatible_def join_types_def
  unwrap_or_def encode_utf16_def encode_utf16_char_def MAX_STRING_LITERAL_UNITS_def

theorem inferred_types_sound_witness:
  "\<exists>v s'. evaluate_inner (plain_world (\<lambda>_. False) (\<lambda>_. 0)) None [vstr (lit ''a,b'')] split_expr initial_state = (Inr v, s') \<and>
     has_type TStringArray v \<and> v = VStringArray [[97], [98]]"
proof -
  let ?w = "plain_world (\<lambda>_. False) (\<lambda>_. 0)"
  have check: "validate_expr plain_lib [string_param] split_expr 0 [] None 0 = Inr (TStringArray, 7)"
    by (simp add: split_expr_def string_param_def validate_defs)
  have flow: "plain_flow split_expr" by (simp add: split_expr_def)
  have args: "args_typed [string_param] [vstr (lit ''a,b'')]" by (simp add: args_typed_def string_param_def)
  obtain s' where run: "evaluate_inner ?w None [vstr (lit ''a,b'')] split_expr initial_state = (Inr (VStringArray [[97], [98]]), s')"
    by (simp add: split_expr_def eval_defs list_get_def is_truthy_def binary_result_def on_strings_def js_split_def pieces.simps
        encode_utf16_def encode_utf16_char_def)
  show ?thesis using inferred_types_sound [OF check _ flow args run] run by blast
qed

text \<open>
  Through \<open>try\<close> the type inferred can be wrong: it is that of the handler, and the type of the body is
  dropped. So the check that arrays are not compared by identity is passed by an array.
\<close>

lemma try_type_is_the_handlers:
  "validate_expr plain_lib [] (ETry (EList OArray []) (EString [])) 0 [] None 0 = Inr (TString, 3) \<and>
   (\<exists>s'. evaluate_inner (plain_world (\<lambda>_. False) (\<lambda>_. 0)) None [] (ETry (EList OArray []) (EString [])) initial_state = (Inr (VArray []), s')) \<and>
   validate_expr plain_lib [] (EBinary OStrictEq (EList OArray []) ENull) 0 [] None 0 = Inl (error_new (lit '' cannot compare arrays by identity'')) \<and>
   (\<exists>n. validate_expr plain_lib [] (EBinary OStrictEq (ETry (EList OArray []) (EString [])) ENull) 0 [] None 0 = Inr (TBool, n))"
  by (simp add: validate_defs check_list_def list_type_def eval_defs)

text \<open>
  Of an expression without a type of its own the declared type of the hook is no promise: a variable that
  holds a string is accepted as the result of a hook that must give a boolean.
\<close>

lemma declared_type_is_adopted:
  "\<exists>n s'. validate_expr plain_lib [] (ELet (lit ''x'') (EString []) (EVar (lit ''x''))) 0 [] (Some TBool) 0 = Inr (TBool, n) \<and>
   evaluate_inner (plain_world (\<lambda>_. False) (\<lambda>_. 0)) None [] (ELet (lit ''x'') (EString []) (EVar (lit ''x''))) initial_state = (Inr (VString []), s') \<and>
   \<not> has_type TBool (VString [])"
  by (simp add: validate_defs named_def eval_defs let_scope_def get_local_def has_type_def is_string_value_def)

section \<open>Limits\<close>

text \<open>The parts of an expression, in the order the validator visits them.\<close>

fun subexprs :: "texpr \<Rightarrow> texpr list" where
  "subexprs (EUnary _ e) = [e]"
| "subexprs (EBinary _ l r) = [l, r]"
| "subexprs (ETernary _ a b c) = [a, b, c]"
| "subexprs (ECallback _ e f) = [e, f]"
| "subexprs (EList _ items) = items"
| "subexprs (EFields _ members) = map snd members"
| "subexprs (ESpread e members) = e # map snd members"
| "subexprs (ERegexOp _ e _ _) = [e]"
| "subexprs (ERegexReplace e _ _ new) = [e, new]"
| "subexprs (ELogic _ l r) = [l, r]"
| "subexprs (EIf c t e) = [c, t, e]"
| "subexprs (ELambda _ body) = [body]"
| "subexprs (ELet _ e body) = [e, body]"
| "subexprs (EReturn e) = [e]"
| "subexprs (ECatchReturn e) = [e]"
| "subexprs (ETry body handler) = [body, handler]"
| "subexprs (EForOf _ e body) = [e, body]"
| "subexprs (EWhile c body) = [c, body]"
| "subexprs (ENamed _ _ e) = [e]"
| "subexprs (EAssignProp obj key e) = [obj, key, e]"
| "subexprs (EArrayFlat e d) = [e, d]"
| "subexprs (EStringSliceRange e a b) = [e, a, b]"
| "subexprs (EExec c a d e t) = [c, a, d, e, t]"
| "subexprs (ECtxEnv e) = [e]"
| "subexprs (EThrow _ e) = [e]"
| "subexprs _ = []"

lemma size_member: "(k, e) \<in> set members \<Longrightarrow> size e \<le> size_list (size_prod (\<lambda>_. 0) size) members"
  by (induction members) auto

lemma size_subexpr: "x \<in> set (subexprs e) \<Longrightarrow> size x < size e"
  by (cases e) (auto simp: less_Suc_eq_le trans_le_add1 dest!: size_member elim!: size_list_estimation')

function subterms :: "texpr \<Rightarrow> texpr list" where
  "subterms e = e # concat (map subterms (subexprs e))"
  by pat_completeness auto
termination by (relation "measure size") (simp_all add: size_subexpr)

function height :: "texpr \<Rightarrow> nat" where
  "height e = fold max (map (\<lambda>x. Suc (height x)) (subexprs e)) 0"
  by pat_completeness auto
termination by (relation "measure size") (simp_all add: size_subexpr)

declare subterms.simps [simp del] height.simps [simp del]

text \<open>The parts are visited one by one, a level deeper, with the count of nodes passed on.\<close>

definition counted :: "hook_lib \<Rightarrow> hook_param list \<Rightarrow> nat \<Rightarrow> texpr \<Rightarrow> nat \<Rightarrow> nat \<Rightarrow> bool" where
  "counted lib params depth e nodes n \<longleftrightarrow> (\<exists>path expected ty. validate_expr lib params e depth path expected nodes = Inr (ty, n))"

fun visited :: "hook_lib \<Rightarrow> hook_param list \<Rightarrow> nat \<Rightarrow> texpr list \<Rightarrow> nat \<Rightarrow> nat \<Rightarrow> bool" where
  "visited lib params depth [] nodes n \<longleftrightarrow> n = nodes"
| "visited lib params depth (e # es) nodes n \<longleftrightarrow> (\<exists>n'. counted lib params depth e nodes n' \<and> visited lib params depth es n' n)"

lemma child_counted: "check_child (validate_expr lib params e) depth path name expected nodes = Inr (ty, n) \<Longrightarrow> counted lib params (Suc depth) e nodes n"
  using child_Inr unfolding counted_def by fastforce

lemma children_visited:
  "children (map (validate_expr lib params) es) depth path name i ty nodes = Inr (ty', n) \<Longrightarrow> visited lib params (Suc depth) es nodes n"
  by (induction es arbitrary: i ty nodes) (auto simp: and_then_eq_Inr_iff dest!: child_counted)

lemma members_visited:
  "children (map (validate_expr lib params \<circ> snd) members) depth path name i ty nodes = Inr (ty', n) \<Longrightarrow>
   visited lib params (Suc depth) (map snd members) nodes n"
  using children_visited [of lib params "map snd members"] by simp

lemma validate_visits:
  assumes "validate_expr lib params e depth path expected nodes = Inr (ty, n)"
  shows "nodes < MAX_NODES \<and> depth \<le> MAX_DEPTH \<and> visited lib params (Suc depth) (subexprs e) (Suc nodes) n \<and>
    (\<forall>i. e = EArg i \<longrightarrow> i < length params)"
proof (cases e)
  case (EList op items)
  with assms show ?thesis by (auto simp: check_defs split: if_splits dest!: children_visited)
next
  case (EFields op members)
  with assms show ?thesis by (auto simp: check_defs dest!: members_visited)
next
  case (ESpread v members)
  with assms show ?thesis by (auto simp: check_defs dest!: child_counted members_visited)
qed (use assms in \<open>auto simp: check_defs split: if_splits prod.splits dest!: child_counted\<close>)

lemma fold_max_ge: "\<forall>x \<in> set xs. x \<le> m \<Longrightarrow> k \<le> m \<Longrightarrow> fold max xs (k :: nat) \<le> m"
  by (induction xs arbitrary: k) auto

lemma visited_counts:
  assumes "\<And>e nodes n. e \<in> set es \<Longrightarrow> counted lib params depth e nodes n \<Longrightarrow> P e \<and> n = nodes + length (subterms e)"
    and "visited lib params depth es nodes n"
  shows "(\<forall>e \<in> set es. P e) \<and> n = nodes + length (concat (map subterms es))"
  using assms
proof (induction es arbitrary: nodes)
  case (Cons e es)
  then obtain n' where "counted lib params depth e nodes n'" "visited lib params depth es n' n" by auto
  with Cons.prems(1) [of e nodes n'] Cons.IH [of n'] Cons.prems(1) show ?case by auto
qed simp

lemma validate_limits:
  "counted lib params depth e nodes n \<Longrightarrow>
   (depth + height e \<le> MAX_DEPTH \<and> (\<forall>i. EArg i \<in> set (subterms e) \<longrightarrow> i < length params)) \<and> n = nodes + length (subterms e) \<and> n \<le> MAX_NODES"
proof (induction "size e" arbitrary: e depth nodes n rule: less_induct)
  case less
  then obtain path expected ty where "validate_expr lib params e depth path expected nodes = Inr (ty, n)"
    unfolding counted_def by blast
  note visit = validate_visits [OF this]
  let ?P = "\<lambda>x. Suc depth + height x \<le> MAX_DEPTH \<and> (\<forall>i. EArg i \<in> set (subterms x) \<longrightarrow> i < length params)"
  have "(\<forall>x \<in> set (subexprs e). ?P x) \<and> n = Suc nodes + length (concat (map subterms (subexprs e)))"
    using less.hyps size_subexpr visit by (intro visited_counts [of "subexprs e" lib params "Suc depth"]) blast+
  moreover have "n \<le> MAX_NODES" if "visited lib params (Suc depth) es m n" "m \<le> MAX_NODES" "set es \<subseteq> set (subexprs e)" for es m
    using that
  proof (induction es arbitrary: m)
    case (Cons x es)
    then obtain n' where "counted lib params (Suc depth) x m n'" "visited lib params (Suc depth) es n' n" by auto
    moreover from this Cons.prems less.hyps [of x] size_subexpr have "n' \<le> MAX_NODES" by fastforce
    ultimately show ?case using Cons by auto
  qed simp
  moreover have "height e \<le> MAX_DEPTH - depth" if "\<forall>x \<in> set (subexprs e). Suc depth + height x \<le> MAX_DEPTH"
    unfolding height.simps [of e] using that by (intro fold_max_ge) auto
  ultimately show ?case using visit by (auto simp: subterms.simps [of e])
qed

text \<open>
  Property C29. A descriptor that is accepted stays within the limits: its expression has at most 512
  nodes and 24 levels below the root, so evaluating it nests no deeper, and every argument it refers to
  is one of its parameters.
\<close>

theorem validated_within_limits:
  assumes "validate_typed_hook_ir lib descriptor = Inr ()"
  shows "length (subterms (ir_expr descriptor)) \<le> MAX_NODES \<and> height (ir_expr descriptor) \<le> MAX_DEPTH \<and>
    (\<forall>i. EArg i \<in> set (subterms (ir_expr descriptor)) \<longrightarrow> i < length (ir_params descriptor))"
proof -
  from assms obtain ty n where
    "validate_expr lib (ir_params descriptor) (ir_expr descriptor) 0 (lit ''expr'') (Some (ir_result_type descriptor)) 0 = Inr (ty, n)"
    by (auto simp: validate_typed_hook_ir_def and_then_eq_Inr_iff split: if_splits option.splits prod.splits)
  then have "counted lib (ir_params descriptor) 0 (ir_expr descriptor) 0 n" unfolding counted_def by blast
  from validate_limits [OF this] show ?thesis by auto
qed

definition trigger_descriptor :: typed_hook_ir where
  "trigger_descriptor =
     \<lparr>ir_version = 1, ir_kind = lit ''typed-hook-expression'', ir_source_field = lit ''trigger'', ir_result_type = TBool,
      ir_params = [\<lparr>hp_index = 0, hp_value_type = TString\<rparr>, \<lparr>hp_index = 1, hp_value_type = TString\<rparr>],
      ir_expr = EBinary OStrictNe (EUnary OLength (EArg 0)) (EUnary OLength (EArg 1))\<rparr>"

theorem validated_within_limits_witness:
  "length (subterms (ir_expr trigger_descriptor)) \<le> MAX_NODES \<and> height (ir_expr trigger_descriptor) \<le> MAX_DEPTH"
  using validated_within_limits [of plain_lib trigger_descriptor]
  by (simp add: validate_typed_hook_ir_def trigger_descriptor_def typed_hook_contract_def IR_VERSION_def validate_defs)

end
