(* ===== verification/Hook_Entry.thy ===== *)
theory Hook_Entry
  imports Hook_Typing Suggestion
begin

text \<open>
  Calling a hook (\<open>typed_hook/mod.rs\<close> 2630--3060 and 3374--3580): arguments from JSON, one entry point per
  hook field with its contract, results as booleans, strings, commands, specs or completion rows.
\<close>

section \<open>Arguments\<close>

definition string_item :: "string \<Rightarrow> json \<Rightarrow> utf16 hook_result" where
  "string_item message j = (case as_str j of Some s \<Rightarrow> Inr (encode_utf16 s) | None \<Rightarrow> Inl (error_new (lit message)))"

definition json_to_typed_value :: "json \<Rightarrow> value_type \<Rightarrow> tvalue hook_result" where
  "json_to_typed_value j expected =
     (case expected of
        TString \<Rightarrow> (case as_str j of Some s \<Rightarrow> Inr (vstr s) | None \<Rightarrow> Inl (error_new (lit ''argument is not a string'')))
      | TBool \<Rightarrow> (case as_bool j of Some b \<Rightarrow> Inr (VBool b) | None \<Rightarrow> Inl (error_new (lit ''argument is not a bool'')))
      | TInteger \<Rightarrow> (case as_i64 j of
            Some i \<Rightarrow> and_then (ensure_safe_integer i (lit ''argument'')) (\<lambda>_. Inr (VInteger i))
          | None \<Rightarrow> Inl (error_new (lit ''argument is not an integer'')))
      | TStringArray \<Rightarrow> (case as_array j of
            Some items \<Rightarrow> and_then (collect_results (map (string_item ''string-array item is not a string'') items))
              (\<lambda>vs. Inr (VStringArray vs))
          | None \<Rightarrow> Inl (error_new (lit ''argument is not a string array'')))
      | TNull \<Rightarrow> (if j = JNull then Inr VNull else Inl (error_new (lit ''argument is not null'')))
      | TStringSet \<Rightarrow> (case as_array j of
            Some items \<Rightarrow> and_then (collect_results (map (string_item ''string-set item is not a string'') items))
              (\<lambda>vs. Inr (VStringSet (fold (\<lambda>v acc. string_set_insert acc v) vs [])))
          | None \<Rightarrow> Inl (error_new (lit ''argument is not a string set'')))
      | TRegex \<Rightarrow> Inl (error_new (lit ''effect arguments are compile-only''))
      | TExec \<Rightarrow> Inl (error_new (lit ''effect arguments are compile-only''))
      | TContext \<Rightarrow> Inl (error_new (lit ''effect arguments are compile-only''))
      | TExecResult \<Rightarrow> Inl (error_new (lit ''effect arguments are compile-only''))
      | _ \<Rightarrow> Inr (json_value_to_typed j))"

section \<open>Results\<close>

text \<open>Members of a row that mean nothing are dropped.\<close>

definition keep_member :: "str \<times> json \<Rightarrow> bool" where
  "keep_member = (\<lambda>(key, child).
     child \<noteq> JNull \<and> \<not> (key = lit ''priority'' \<and> (case child of JNumber _ \<Rightarrow> False | _ \<Rightarrow> True)) \<and>
     as_array child \<noteq> Some [] \<and> \<not> (key \<noteq> lit ''name'' \<and> as_str child = Some []))"

definition normalize_suggestion_value :: "json \<Rightarrow> json" where
  "normalize_suggestion_value j = (case j of JObject members \<Rightarrow> JObject (json_map (filter keep_member members)) | _ \<Rightarrow> j)"

definition normal_row :: "json \<Rightarrow> bool" where
  "normal_row item =
     (case Option.bind (as_object item) (get ''name'') of
        Some (JString name) \<Rightarrow> name \<noteq> lit ''undefined''
      | Some (JArray names) \<Rightarrow> names \<noteq> []
      | Some _ \<Rightarrow> True
      | None \<Rightarrow> False)"

definition normalize_suggestion_array :: "json \<Rightarrow> json" where
  "normalize_suggestion_array j =
     (case j of JArray items \<Rightarrow> JArray (filter normal_row (map normalize_suggestion_value items)) | _ \<Rightarrow> j)"

definition normalize_result :: "value_type \<Rightarrow> json \<Rightarrow> json" where
  "normalize_result ty j =
     (case ty of TSuggestionArray \<Rightarrow> normalize_suggestion_array j | TSuggestion \<Rightarrow> normalize_suggestion_value j | _ \<Rightarrow> j)"

definition typed_json_name :: "json \<Rightarrow> str option" where
  "typed_json_name j =
     (case j of JString name \<Rightarrow> (if name \<noteq> [] then Some name else None) | JArray names \<Rightarrow> find_map as_str names | _ \<Rightarrow> None)"

definition suggestion_from_object :: "json_object \<Rightarrow> str \<Rightarrow> suggestion" where
  "suggestion_from_object obj name =
     (let s = with_meta (get_str ''insertValue'' obj) (get_str ''displayName'' obj) None (unwrap_or False (get_bool ''shouldAddSpace'' obj))
            (unwrap_or False (get_bool ''hidden'' obj)) (get_i64 ''priority'' obj) (get_str ''icon'' obj)
            ((suggestion_new name (unwrap_or [] (get_str ''description'' obj)) (unwrap_or (lit ''arg'') (get_str ''type'' obj)))
              \<lparr>sg_is_dangerous := unwrap_or False (get_bool ''isDangerous'' obj)\<rparr>)
      in if sg_insert_value s = None then s\<lparr>sg_insert_value := Some name\<rparr> else s)"

definition suggestion_from_typed_json :: "json \<Rightarrow> suggestion option" where
  "suggestion_from_typed_json item =
     (case as_str item of
        Some name \<Rightarrow> if name = [] then None else Some (with_insert_value name (suggestion_new name [] (lit ''arg'')))
      | None \<Rightarrow>
          Option.bind (as_object item) (\<lambda>obj. Option.bind (get ''name'' obj) (\<lambda>j. Option.bind (typed_json_name j) (\<lambda>name.
            if name = [] then None else Some (suggestion_from_object obj name)))))"

definition suggestions_from_typed_json :: "json \<Rightarrow> suggestion list hook_result" where
  "suggestions_from_typed_json j =
     (if j = JNull then Inr []
      else case as_array j of
        None \<Rightarrow> Inl (error_new (lit ''typed suggestion result must be an array''))
      | Some items \<Rightarrow> Inr (filter_map suggestion_from_typed_json items))"

text \<open>The members of a row, in the order they are inserted; the map sorts them.\<close>

definition suggestion_members :: "suggestion \<Rightarrow> (str \<times> json) list" where
  "suggestion_members s =
     [(lit ''name'', JString (sg_name s)), (lit ''type'', JString (sg_kind s))] @
     (if sg_description s \<noteq> [] then [(lit ''description'', JString (sg_description s))] else []) @
     (case sg_insert_value s of Some v \<Rightarrow> [(lit ''insertValue'', JString v)] | None \<Rightarrow> []) @
     (case sg_display_name s of Some v \<Rightarrow> [(lit ''displayName'', JString v)] | None \<Rightarrow> []) @
     (case sg_icon s of Some v \<Rightarrow> [(lit ''icon'', JString v)] | None \<Rightarrow> []) @
     (if sg_hidden s then [(lit ''hidden'', JBool True)] else []) @
     (if sg_is_dangerous s then [(lit ''isDangerous'', JBool True)] else []) @
     (if sg_priority s \<noteq> 50 then [(lit ''priority'', json_of_i64 (sg_priority s))] else [])"

definition suggestions_to_typed_json :: "suggestion list \<Rightarrow> json" where
  "suggestions_to_typed_json rows = JArray (map (\<lambda>s. JObject (json_map (suggestion_members s))) rows)"

record script_command =
  sc_command :: str
  sc_args :: "str list"
  sc_timeout_ms :: "int option"

definition script_command_from_typed_json :: "json \<Rightarrow> script_command hook_result" where
  "script_command_from_typed_json j =
     (case as_str j of
        Some command \<Rightarrow>
          if trim command = [] then Inl (error_new (lit ''typed script result is an empty command''))
          else Inr \<lparr>sc_command = lit ''sh'', sc_args = [lit ''-c'', command], sc_timeout_ms = None\<rparr>
      | None \<Rightarrow>
          (case as_array j of
             Some parts \<Rightarrow>
               (case filter_map as_str parts of
                  [] \<Rightarrow> Inl (error_new (lit ''typed script result is an empty argv''))
                | command # args \<Rightarrow>
                    if command = [] then Inl (error_new (lit ''typed script result has an empty command''))
                    else Inr \<lparr>sc_command = command, sc_args = args, sc_timeout_ms = None\<rparr>)
           | None \<Rightarrow>
               (case as_object j of
                  None \<Rightarrow> Inl (error_new (lit ''typed script result is not a command''))
                | Some obj \<Rightarrow>
                    (case get_str ''command'' obj of
                       None \<Rightarrow> Inl (error_new (lit ''typed script result is missing command''))
                     | Some command \<Rightarrow>
                         if command = [] then Inl (error_new (lit ''typed script result has an empty command''))
                         else Inr \<lparr>sc_command = command,
                           sc_args = (case Option.bind (get ''args'' obj) as_array of Some items \<Rightarrow> filter_map as_str items | None \<Rightarrow> []),
                           sc_timeout_ms = get_i64 ''timeout'' obj\<rparr>))))"

section \<open>Entry points\<close>

text \<open>Each gives the result, with the state for what was started.\<close>

definition evaluate_typed_hook_json :: "hook_world \<Rightarrow> typed_hook_ir \<Rightarrow> json list \<Rightarrow> json hook_result" where
  "evaluate_typed_hook_json w descriptor args =
     (if length args \<noteq> length (ir_params descriptor) then Inl (error_new (lit ''evaluate args must match the field contract''))
      else and_then (collect_results (map (\<lambda>(param, j). json_to_typed_value j (hp_value_type param)) (zip (ir_params descriptor) args)))
        (\<lambda>vs. and_then (fst (evaluate_with_effects w (ir_expr descriptor) vs None)) (\<lambda>v.
          and_then (typed_value_to_json v) (\<lambda>j. Inr (normalize_result (ir_result_type descriptor) j)))))"

definition is_effect_type :: "value_type \<Rightarrow> bool" where
  "is_effect_type ty \<longleftrightarrow> ty \<in> {TExec, TContext}"

text \<open>
  The arguments of a hook with effects: the parameters for processes and context stay \<open>null\<close>, the others
  take the given values in turn, each at the index of its parameter; an index outside panics.
\<close>

fun effect_arguments :: "hook_param list \<Rightarrow> json list \<Rightarrow> tvalue list \<Rightarrow> tvalue list hook_result" where
  "effect_arguments [] js args = Inr args"
| "effect_arguments (param # params) js args =
     (if is_effect_type (hp_value_type param) then effect_arguments params js args
      else case js of
        [] \<Rightarrow> Inl (error_new (lit ''panic: argument out of bounds''))
      | j # js' \<Rightarrow> and_then (json_to_typed_value j (hp_value_type param)) (\<lambda>v.
          if hp_index param < length args then effect_arguments params js' (args[hp_index param := v])
          else Inl (error_new (lit ''panic: index out of bounds''))))"

definition evaluate_typed_effect_json ::
  "hook_world \<Rightarrow> typed_hook_ir \<Rightarrow> json list \<Rightarrow> hook_context \<Rightarrow> nat option \<Rightarrow> json hook_result" where
  "evaluate_typed_effect_json w descriptor args ctx deadline =
     (if length args \<noteq> length (filter (\<lambda>param. \<not> is_effect_type (hp_value_type param)) (ir_params descriptor))
      then Inl (error_new (lit ''evaluate args must match the field contract''))
      else and_then (effect_arguments (ir_params descriptor) args (replicate (length (ir_params descriptor)) VNull)) (\<lambda>vs.
        and_then (fst (evaluate_with_effects w (ir_expr descriptor) vs (Some \<lparr>fx_context = ctx, fx_deadline = deadline\<rparr>))) (\<lambda>v.
          and_then (typed_value_to_json v) (\<lambda>j. Inr (normalize_result (ir_result_type descriptor) j)))))"

definition for_field :: "hook_world \<Rightarrow> typed_hook_ir \<Rightarrow> string \<Rightarrow> string \<Rightarrow> 'a hook_result \<Rightarrow> 'a hook_result" where
  "for_field w descriptor field message k =
     and_then (validate_typed_hook_ir (hw_lib w) descriptor) (\<lambda>_.
       if ir_source_field descriptor \<noteq> lit field then Inl (error_new (lit message)) else k)"

definition evaluate_typed_trigger :: "hook_world \<Rightarrow> typed_hook_ir \<Rightarrow> str \<Rightarrow> str \<Rightarrow> bool hook_result" where
  "evaluate_typed_trigger w descriptor search_term previous_search_term =
     and_then (fst (evaluate_with_effects w (ir_expr descriptor) [vstr search_term, vstr previous_search_term] None)) (\<lambda>v.
       case v of VBool b \<Rightarrow> Inr b | _ \<Rightarrow> Inl (error_new (lit ''validated trigger expression did not evaluate to bool'')))"

definition evaluate_typed_get_query_term :: "hook_world \<Rightarrow> typed_hook_ir \<Rightarrow> str \<Rightarrow> str hook_result" where
  "evaluate_typed_get_query_term w descriptor search_term =
     for_field w descriptor ''getQueryTerm'' ''descriptor is not a getQueryTerm hook''
       (and_then (fst (evaluate_with_effects w (ir_expr descriptor) [vstr search_term] None)) (\<lambda>v.
          case v of
            VString us \<Rightarrow> (case from_utf16 us of Inr s \<Rightarrow> Inr s
              | Inl message \<Rightarrow> Inl (error_new (lit ''getQueryTerm returned invalid UTF-16: '' @ message)))
          | _ \<Rightarrow> Inl (error_new (lit ''validated getQueryTerm expression did not evaluate to string''))))"

definition json_strings :: "str list \<Rightarrow> json" where "json_strings ss = JArray (map JString ss)"

definition evaluate_typed_post_process :: "hook_world \<Rightarrow> typed_hook_ir \<Rightarrow> str \<Rightarrow> str list \<Rightarrow> suggestion list hook_result" where
  "evaluate_typed_post_process w descriptor stdout tokens =
     for_field w descriptor ''postProcess'' ''descriptor is not a postProcess hook''
       (and_then (evaluate_typed_hook_json w descriptor [JString stdout, json_strings tokens]) suggestions_from_typed_json)"

definition evaluate_typed_script :: "hook_world \<Rightarrow> typed_hook_ir \<Rightarrow> str list \<Rightarrow> script_command hook_result" where
  "evaluate_typed_script w descriptor tokens =
     for_field w descriptor ''script'' ''descriptor is not a script hook''
       (and_then (evaluate_typed_hook_json w descriptor [json_strings tokens]) script_command_from_typed_json)"

definition evaluate_typed_filter_template_suggestions ::
  "hook_world \<Rightarrow> typed_hook_ir \<Rightarrow> suggestion list \<Rightarrow> suggestion list hook_result" where
  "evaluate_typed_filter_template_suggestions w descriptor rows =
     for_field w descriptor ''filterTemplateSuggestions'' ''descriptor is not a filterTemplateSuggestions hook''
       (and_then (evaluate_typed_hook_json w descriptor [suggestions_to_typed_json rows]) suggestions_from_typed_json)"

definition evaluate_typed_custom ::
  "hook_world \<Rightarrow> typed_hook_ir \<Rightarrow> str list \<Rightarrow> hook_context \<Rightarrow> nat option \<Rightarrow> suggestion list hook_result" where
  "evaluate_typed_custom w descriptor tokens ctx deadline =
     for_field w descriptor ''custom'' ''descriptor is not a custom hook''
       (and_then (evaluate_typed_effect_json w descriptor [json_strings tokens] ctx deadline) suggestions_from_typed_json)"

definition evaluate_typed_alias :: "hook_world \<Rightarrow> typed_hook_ir \<Rightarrow> str \<Rightarrow> hook_context \<Rightarrow> nat option \<Rightarrow> str hook_result" where
  "evaluate_typed_alias w descriptor token ctx deadline =
     for_field w descriptor ''alias'' ''descriptor is not an alias hook''
       (and_then (evaluate_typed_effect_json w descriptor [JString token] ctx deadline) (\<lambda>j.
          case as_str j of Some s \<Rightarrow> Inr s | None \<Rightarrow> Inl (error_new (lit ''typed alias result must be a string''))))"

definition evaluate_typed_load_spec :: "hook_world \<Rightarrow> typed_hook_ir \<Rightarrow> str \<Rightarrow> hook_context \<Rightarrow> nat option \<Rightarrow> json hook_result" where
  "evaluate_typed_load_spec w descriptor token ctx deadline =
     for_field w descriptor ''loadSpec'' ''descriptor is not a loadSpec hook''
       (evaluate_typed_effect_json w descriptor [JString token] ctx deadline)"

definition evaluate_typed_generate_spec ::
  "hook_world \<Rightarrow> typed_hook_ir \<Rightarrow> str list \<Rightarrow> hook_context \<Rightarrow> nat option \<Rightarrow> json hook_result" where
  "evaluate_typed_generate_spec w descriptor tokens ctx deadline =
     for_field w descriptor ''generateSpec'' ''descriptor is not a generateSpec hook''
       (evaluate_typed_effect_json w descriptor [json_strings tokens] ctx deadline)"

section \<open>Arguments have their types\<close>

definition argument_type :: "value_type \<Rightarrow> bool" where
  "argument_type ty \<longleftrightarrow> ty \<in> {TString, TStringArray, TSuggestionArray}"

lemma argument_typed: "argument_type ty \<Longrightarrow> json_to_typed_value j ty = Inr v \<Longrightarrow> has_type ty v"
  by (auto simp: argument_type_def json_to_typed_value_def has_type_def is_string_value_def and_then_eq_Inr_iff split: option.splits)

lemma contract_types:
  "typed_hook_contract field = Some (label, result, wants) \<Longrightarrow> \<forall>ty \<in> set wants. argument_type ty \<or> is_effect_type ty"
  by (auto simp: typed_hook_contract_def argument_type_def is_effect_type_def split: if_splits)

lemma upt_head: "[i..<Suc (i + n)] = i # [Suc i..<Suc (i + n)]"
  by (simp add: upt_conv_Cons del: upt_Suc)

lemma validate_params_Inr:
  "validate_params label i params wants = Inr () \<Longrightarrow> length params = length wants \<Longrightarrow>
   map hp_value_type params = wants \<and> map hp_index params = [i..<i + length params]"
proof (induction label i params wants rule: validate_params.induct)
  case (1 label i param params want wants)
  then have "map hp_value_type params = wants \<and> map hp_index params = [Suc i..<Suc i + length params]" by (auto split: if_splits)
  with 1 show ?case by (auto split: if_splits simp: upt_head simp del: upt_Suc)
qed auto

lemma validated_params:
  assumes "validate_typed_hook_ir lib descriptor = Inr ()"
  shows "(\<forall>param \<in> set (ir_params descriptor). argument_type (hp_value_type param) \<or> is_effect_type (hp_value_type param)) \<and>
    map hp_index (ir_params descriptor) = [0..<length (ir_params descriptor)]"
proof -
  from assms obtain label wants where contract: "typed_hook_contract (ir_source_field descriptor) = Some (label, ir_result_type descriptor, wants)"
    and len: "length (ir_params descriptor) = length wants" and ok: "validate_params label 0 (ir_params descriptor) wants = Inr ()"
    by (auto simp: validate_typed_hook_ir_def and_then_eq_Inr_iff split: if_splits option.splits prod.splits)
  from validate_params_Inr [OF ok len] have types: "map hp_value_type (ir_params descriptor) = wants"
    and "map hp_index (ir_params descriptor) = [0..<length (ir_params descriptor)]" by simp_all
  moreover have "\<forall>param \<in> set (ir_params descriptor). argument_type (hp_value_type param) \<or> is_effect_type (hp_value_type param)"
    using contract_types [OF contract] by (simp flip: types)
  ultimately show ?thesis by blast
qed

text \<open>The arguments so far have their types, and the rest of the parameters have the indexes that follow.\<close>

lemma effect_arguments_typed:
  assumes "\<forall>param \<in> set params. argument_type (hp_value_type param) \<or> is_effect_type (hp_value_type param)"
    and "map hp_index params = [length before..<length before + length params]"
    and "length js = length (filter (\<lambda>param. \<not> is_effect_type (hp_value_type param)) params)"
    and "args_typed before args" "length rest = length params" "\<forall>v \<in> set rest. v = VNull"
  shows "case effect_arguments params js (args @ rest) of
      Inr vs \<Rightarrow> args_typed (before @ params) vs
    | Inl e \<Rightarrow> \<exists>param j. param \<in> set params \<and> j \<in> set js \<and> json_to_typed_value j (hp_value_type param) = Inl e"
  using assms
proof (induction params arbitrary: before args rest js)
  case (Cons param params)
  obtain v rest' where rest: "rest = v # rest'" "v = VNull" using Cons.prems(5,6) by (cases rest) auto
  have index: "hp_index param = length before" "map hp_index params = [length (before @ [param])..<length (before @ [param]) + length params]"
    using Cons.prems(2) by (auto simp: upt_head simp del: upt_Suc)
  have len: "length args = length before" using Cons.prems(4) by (simp add: args_typed_def list_all2_lengthD)
  show ?case
  proof (cases "is_effect_type (hp_value_type param)")
    case True
    then have "args_typed (before @ [param]) (args @ [VNull])" using Cons.prems(4) by (simp add: args_typed_def list_all2_appendI)
    with Cons.IH [of "before @ [param]" js "args @ [VNull]" rest'] Cons.prems index True rest show ?thesis
      by (auto split: sum.splits)
  next
    case False
    then obtain j js' where js: "js = j # js'" using Cons.prems(3) by (cases js) auto
    show ?thesis
    proof (cases "json_to_typed_value j (hp_value_type param)")
      case (Inl e)
      with False js show ?thesis by auto
    next
      case (Inr u)
      have "has_type (hp_value_type param) u" using Cons.prems(1) False Inr argument_typed by auto
      then have "args_typed (before @ [param]) (args @ [u])" using Cons.prems(4) by (simp add: args_typed_def list_all2_appendI)
      moreover have "(args @ rest)[hp_index param := u] = (args @ [u]) @ rest'" using index rest len by (simp add: list_update_append)
      ultimately show ?thesis using Cons.IH [of "before @ [param]" js' "args @ [u]" rest'] Cons.prems index False js rest Inr len
        by (auto split: sum.splits)
    qed
  qed
qed simp

text \<open>
  Calling a hook with effects: for an accepted descriptor and as many JSON values as it has
  parameters other than process and context, no index goes out of range, the arguments have the types
  of their parameters, and the only errors are those of a value that is not of its type.
\<close>

theorem effect_call_arguments:
  assumes "validate_typed_hook_ir lib descriptor = Inr ()"
    and "length js = length (filter (\<lambda>param. \<not> is_effect_type (hp_value_type param)) (ir_params descriptor))"
  shows "case effect_arguments (ir_params descriptor) js (replicate (length (ir_params descriptor)) VNull) of
      Inr vs \<Rightarrow> args_typed (ir_params descriptor) vs
    | Inl e \<Rightarrow> \<exists>param \<in> set (ir_params descriptor). \<exists>j \<in> set js. json_to_typed_value j (hp_value_type param) = Inl e"
  using effect_arguments_typed [of "ir_params descriptor" "[]" js "[]" "replicate (length (ir_params descriptor)) VNull"]
    validated_params [OF assms(1)] assms(2)
  by (auto simp: args_typed_def split: sum.splits)

definition alias_descriptor :: typed_hook_ir where
  "alias_descriptor =
     \<lparr>ir_version = 1, ir_kind = lit ''typed-hook-expression'', ir_source_field = lit ''alias'', ir_result_type = TString,
      ir_params = [\<lparr>hp_index = 0, hp_value_type = TString\<rparr>, \<lparr>hp_index = 1, hp_value_type = TExec\<rparr>], ir_expr = EArg 0\<rparr>"

theorem effect_call_arguments_witness:
  "\<exists>vs. effect_arguments (ir_params alias_descriptor) [JString (lit ''gs'')] [VNull, VNull] = Inr vs \<and> args_typed (ir_params alias_descriptor) vs"
  using effect_call_arguments [of plain_lib alias_descriptor "[JString (lit ''gs'')]"]
  by (simp add: validate_typed_hook_ir_def alias_descriptor_def typed_hook_contract_def IR_VERSION_def validate_defs
      is_effect_type_def json_to_typed_value_def as_str_def)

end
