(* ===== verification/Hook_Rows.thy ===== *)
theory Hook_Rows
  imports Hook_Entry
begin

text \<open>
  Completion rows through a hook and back: JSON values survive the way through the values of the hook
  language, and a hook that returns the rows it is given returns what it can see of them.
\<close>

section \<open>Maps of JSON\<close>

abbreviation keys_sorted :: "('k::linorder \<times> 'v) list \<Rightarrow> bool" where
  "keys_sorted members \<equiv> sorted_wrt (<) (map fst members)"

lemma map_of_map_insert: "map_of (map_insert k v members) = (map_of members)(k \<mapsto> v)"
  by (induction k v members rule: map_insert.induct) auto

lemma set_map_insert: "set (map_insert k v members) \<subseteq> insert (k, v) (set members)"
  by (induction k v members rule: map_insert.induct) auto

lemma keys_map_insert: "fst ` set (map_insert k v members) = insert k (fst ` set members)"
  by (induction k v members rule: map_insert.induct) auto

lemma sorted_map_insert: "keys_sorted members \<Longrightarrow> keys_sorted (map_insert k v members)"
proof (induction k v members rule: map_insert.induct)
  case (2 key v k w members)
  have "\<forall>x \<in> set (map fst (map_insert key v members)). k < x" if "\<not> key < k" "key \<noteq> k"
    using that 2 keys_map_insert [of key v members] by auto
  with 2 show ?case by (auto dest: less_trans)
qed simp

lemma fold_map_insert:
  "keys_sorted acc \<Longrightarrow> keys_sorted (fold (\<lambda>(k, v). map_insert k v) members acc) \<and>
   map_of (fold (\<lambda>(k, v). map_insert k v) members acc) = map_of acc ++ map_of (rev members) \<and>
   set (fold (\<lambda>(k, v). map_insert k v) members acc) \<subseteq> set acc \<union> set members"
proof (induction members arbitrary: acc)
  case (Cons m members)
  obtain k v where m: "m = (k, v)" by fastforce
  note IH = Cons.IH [OF sorted_map_insert [OF Cons.prems, of k v]]
  have "map_of (map_insert k v acc) ++ map_of (rev members) = map_of acc ++ map_of (rev (m # members))"
    by (simp add: m map_of_map_insert)
  with IH m set_map_insert [of k v acc] show ?case by auto
qed simp

lemma json_map_sorted: "keys_sorted (json_map members)"
  and json_map_get: "map_of (json_map members) = map_of (rev members)"
  and json_map_set: "set (json_map members) \<subseteq> set members"
  using fold_map_insert [of "[]" members] by (simp_all add: json_map_def)

lemma map_insert_last: "\<forall>x \<in> set members. fst x < k \<Longrightarrow> map_insert k v members = members @ [(k, v)]"
  by (induction members) auto

lemma json_map_id: "keys_sorted members \<Longrightarrow> json_map members = members"
proof (induction members rule: rev_induct)
  case (snoc m members)
  then have "json_map members = members" by (simp add: sorted_wrt_append)
  moreover have "\<forall>x \<in> set members. fst x < fst m" using snoc.prems by (auto simp: sorted_wrt_append)
  ultimately show ?case by (cases m) (simp add: json_map_def map_insert_last)
qed (simp add: json_map_def)

section \<open>JSON through values\<close>

text \<open>The JSON the library builds: scalar values in strings, members sorted, signs where they belong.\<close>

primrec json_ok :: "json \<Rightarrow> bool" where
  "json_ok JNull = True"
| "json_ok (JBool b) = True"
| "json_ok (JNumber n) = (case n of NegInt i \<Rightarrow> i < 0 | _ \<Rightarrow> True)"
| "json_ok (JString s) = list_all scalar_value s"
| "json_ok (JArray items) = list_all json_ok items"
| "json_ok (JObject members) = (keys_sorted members \<and> list_all (pred_prod (\<lambda>_. True) json_ok) members)"

lemma units_roundtrip: "list_all scalar_value s \<Longrightarrow> json_of_units (encode_utf16 s) = Inr (JString s)"
proof -
  assume "list_all scalar_value s"
  then have "collect_results (decode_utf16 (encode_utf16 s)) = Inr s" by (simp add: decode_encode collect_results_Inr_iff)
  then show ?thesis by (simp add: json_of_units_def from_utf16_def)
qed

lemma json_roundtrip: "json_ok j \<Longrightarrow> typed_value_to_json (json_to_value j) = Inr j"
proof (induction j)
  case (JNumber n)
  then show ?case by (cases n) (auto simp: as_i64_def json_of_i64_def)
next
  case (JString s)
  then show ?case by (simp add: units_roundtrip)
next
  case (JArray items)
  then have "map (typed_value_to_json \<circ> json_to_value) items = map Inr items" by (auto simp: list_all_iff)
  then show ?case by (simp add: json_of_array_def and_then_eq_Inr_iff collect_results_Inr_iff)
next
  case (JObject members)
  have "map (\<lambda>(k, r). and_then r (\<lambda>j. Inr (k, j))) (map (map_prod id typed_value_to_json) (map (map_prod id json_to_value) members)) = map Inr members"
    using JObject by (auto simp: list_all_iff pred_prod_beta)
  then have "collect_results (map (\<lambda>(k, r). and_then r (\<lambda>j. Inr (k, j)))
      (map (map_prod id typed_value_to_json) (map (map_prod id json_to_value) members))) = Inr members"
    by (simp only: collect_results_Inr_iff)
  moreover have "json_map members = members" using JObject.prems by (simp add: json_map_id)
  ultimately show ?case by (simp only: json_to_value.simps typed_value_to_json.simps json_of_object_def and_then_simps)
qed simp_all

section \<open>Rows\<close>

text \<open>What a hook can see of a row, as the row that comes back.\<close>

definition row_view :: "suggestion \<Rightarrow> suggestion" where
  "row_view s =
     (suggestion_new (sg_name s) (sg_description s) (sg_kind s))
       \<lparr>sg_insert_value := Some (unwrap_or (sg_name s) (sg_insert_value s)), sg_display_name := sg_display_name s,
        sg_icon := sg_icon s, sg_hidden := sg_hidden s, sg_is_dangerous := sg_is_dangerous s, sg_priority := sg_priority s\<rparr>"

definition row_ok :: "suggestion \<Rightarrow> bool" where
  "row_ok s \<longleftrightarrow> sg_name s \<noteq> [] \<and> sg_name s \<noteq> lit ''undefined'' \<and> sg_kind s \<noteq> [] \<and> sg_insert_value s \<noteq> Some [] \<and>
     sg_display_name s \<noteq> Some [] \<and> sg_icon s \<noteq> Some [] \<and> 1 \<le> sg_priority s \<and> sg_priority s \<le> 100 \<and>
     list_all scalar_value (sg_name s) \<and> list_all scalar_value (sg_kind s) \<and> list_all scalar_value (sg_description s) \<and>
     pred_option (list_all scalar_value) (sg_insert_value s) \<and> pred_option (list_all scalar_value) (sg_display_name s) \<and>
     pred_option (list_all scalar_value) (sg_icon s)"

lemma members_kept: "row_ok s \<Longrightarrow> \<forall>m \<in> set (suggestion_members s). keep_member m"
  by (auto simp: row_ok_def suggestion_members_def keep_member_def as_array_def as_str_def json_of_i64_def
      split: option.splits if_splits)

lemma members_ok: "row_ok s \<Longrightarrow> \<forall>m \<in> set (suggestion_members s). json_ok (snd m)"
  by (auto simp: row_ok_def suggestion_members_def json_of_i64_def option.pred_set split: option.splits if_splits)

lemma row_json_ok: "row_ok s \<Longrightarrow> json_ok (JObject (json_map (suggestion_members s)))"
  using members_ok [of s] json_map_set [of "suggestion_members s"] json_map_sorted
  by (auto simp: list_all_iff pred_prod_beta)

lemma row_normal: "row_ok s \<Longrightarrow> normalize_suggestion_value (JObject (json_map (suggestion_members s))) = JObject (json_map (suggestion_members s))"
proof -
  assume "row_ok s"
  then have "filter keep_member (json_map (suggestion_members s)) = json_map (suggestion_members s)"
    using members_kept json_map_set by (intro filter_True) blast
  then show ?thesis by (simp add: normalize_suggestion_value_def json_map_id json_map_sorted)
qed

lemma row_get:
  "get ''name'' (json_map (suggestion_members s)) = Some (JString (sg_name s))"
  "get ''type'' (json_map (suggestion_members s)) = Some (JString (sg_kind s))"
  "get ''description'' (json_map (suggestion_members s)) = (if sg_description s \<noteq> [] then Some (JString (sg_description s)) else None)"
  "get ''insertValue'' (json_map (suggestion_members s)) = map_option JString (sg_insert_value s)"
  "get ''displayName'' (json_map (suggestion_members s)) = map_option JString (sg_display_name s)"
  "get ''icon'' (json_map (suggestion_members s)) = map_option JString (sg_icon s)"
  "get ''hidden'' (json_map (suggestion_members s)) = (if sg_hidden s then Some (JBool True) else None)"
  "get ''isDangerous'' (json_map (suggestion_members s)) = (if sg_is_dangerous s then Some (JBool True) else None)"
  "get ''priority'' (json_map (suggestion_members s)) = (if sg_priority s \<noteq> 50 then Some (json_of_i64 (sg_priority s)) else None)"
  "get ''shouldAddSpace'' (json_map (suggestion_members s)) = None"
  by (simp_all add: get_def json_map_get suggestion_members_def split: option.split)

lemma bind_as_str: "Option.bind (map_option JString o') as_str = o'"
  by (cases o') (simp_all add: as_str_def)

lemma row_fields:
  assumes "row_ok s"
  defines "obj \<equiv> json_map (suggestion_members s)"
  shows "get_str ''insertValue'' obj = sg_insert_value s" "get_str ''displayName'' obj = sg_display_name s"
    "get_str ''icon'' obj = sg_icon s" "unwrap_or [] (get_str ''description'' obj) = sg_description s"
    "unwrap_or d (get_str ''type'' obj) = sg_kind s" "unwrap_or False (get_bool ''hidden'' obj) = sg_hidden s"
    "unwrap_or False (get_bool ''isDangerous'' obj) = sg_is_dangerous s" "unwrap_or False (get_bool ''shouldAddSpace'' obj) = False"
    "(case get_i64 ''priority'' obj of None \<Rightarrow> 50 | Some p \<Rightarrow> normalize_priority p) = sg_priority s"
  using assms(1) unfolding obj_def row_get
  by (auto simp: bind_as_str as_str_def as_bool_def as_i64_def json_of_i64_def unwrap_or_def row_ok_def normalize_priority_def clamp_def
      Option.bind_eq_Some_conv split: option.split)

lemma row_from_json:
  assumes "row_ok s"
  shows "suggestion_from_typed_json (JObject (json_map (suggestion_members s))) = Some (row_view s)"
proof -
  have "suggestion_from_object (json_map (suggestion_members s)) (sg_name s) = row_view s"
    unfolding suggestion_from_object_def with_meta_def row_fields [OF assms]
    by (simp add: row_view_def suggestion_new_def unwrap_or_def split: option.split)
  with assms show ?thesis
    by (simp add: suggestion_from_typed_json_def as_str_def as_object_def row_get typed_json_name_def row_ok_def)
qed

lemma rows_from_json: "list_all row_ok rows \<Longrightarrow>
    suggestions_from_typed_json (normalize_suggestion_array (suggestions_to_typed_json rows)) = Inr (map row_view rows)"
proof -
  assume ok: "list_all row_ok rows"
  let ?row = "\<lambda>s. JObject (json_map (suggestion_members s))"
  have normal: "map normalize_suggestion_value (map ?row rows) = map ?row rows" using ok by (auto simp: list_all_iff row_normal)
  have "normal_row (?row s)" if "s \<in> set rows" for s
    using ok that by (auto simp: normal_row_def as_object_def row_get list_all_iff row_ok_def)
  then have "filter normal_row (map ?row rows) = map ?row rows" by (intro filter_True) auto
  then have "normalize_suggestion_array (suggestions_to_typed_json rows) = JArray (map ?row rows)"
    unfolding normalize_suggestion_array_def suggestions_to_typed_json_def json.case normal by (rule arg_cong)
  moreover have "filter_map suggestion_from_typed_json (map ?row rows) = map row_view rows"
    using ok by (induction rows) (simp_all add: row_from_json)
  ultimately show ?thesis by (simp add: suggestions_from_typed_json_def as_array_def)
qed

definition identity_filter :: typed_hook_ir where
  "identity_filter =
     \<lparr>ir_version = 1, ir_kind = lit ''typed-hook-expression'', ir_source_field = lit ''filterTemplateSuggestions'',
      ir_result_type = TSuggestionArray, ir_params = [\<lparr>hp_index = 0, hp_value_type = TSuggestionArray\<rparr>], ir_expr = EArg 0\<rparr>"

lemma rows_json_ok: "list_all row_ok rows \<Longrightarrow> json_ok (suggestions_to_typed_json rows)"
proof -
  assume "list_all row_ok rows"
  then have "list_all json_ok (map (\<lambda>s. JObject (json_map (suggestion_members s))) rows)"
    unfolding list_all_iff using row_json_ok by (auto simp del: json_ok.simps)
  then show ?thesis by (simp add: suggestions_to_typed_json_def)
qed

lemma identity_validates: "validate_typed_hook_ir lib identity_filter = Inr ()"
  by (simp add: validate_typed_hook_ir_def identity_filter_def typed_hook_contract_def IR_VERSION_def validate_defs)

lemma identity_evaluates:
  "\<forall>k. \<not> hw_cancelled w k \<Longrightarrow> fst (evaluate_with_effects w (EArg 0) [v] None) = Inr v"
  by (simp add: eval_defs list_get_def)

text \<open>
  Property C30. Rows survive a filter hook that keeps them: for rows with nothing empty, a priority from 1
  to 100 and strings of scalar values, the hook that returns its argument gives back, in order, every
  row with its name, kind, description, display name, icon, flags and priority, and its insert value,
  which is the name if there was none.
\<close>

theorem filter_rows_roundtrip:
  assumes "\<forall>k. \<not> hw_cancelled w k" and "list_all row_ok rows"
  shows "evaluate_typed_filter_template_suggestions w identity_filter rows = Inr (map row_view rows)"
proof -
  have "evaluate_typed_hook_json w identity_filter [suggestions_to_typed_json rows] =
      Inr (normalize_suggestion_array (suggestions_to_typed_json rows))"
    using json_roundtrip [OF rows_json_ok [OF assms(2)]] identity_evaluates [OF assms(1)]
    by (simp add: evaluate_typed_hook_json_def identity_filter_def json_to_typed_value_def json_value_to_typed_def normalize_result_def)
  with rows_from_json [OF assms(2)] show ?thesis
    by (simp add: evaluate_typed_filter_template_suggestions_def for_field_def identity_validates, simp add: identity_filter_def)
qed

definition filter_row :: suggestion where
  "filter_row = (suggestion_new (lit ''add'') (lit ''Add files'') (lit ''subcommand''))\<lparr>sg_priority := 76, sg_is_dangerous := True\<rparr>"

theorem filter_rows_roundtrip_witness:
  "evaluate_typed_filter_template_suggestions (plain_world (\<lambda>_. False) (\<lambda>_. 0)) identity_filter [filter_row] =
     Inr [filter_row\<lparr>sg_insert_value := Some (lit ''add'')\<rparr>]"
  using filter_rows_roundtrip [of "plain_world (\<lambda>_. False) (\<lambda>_. 0)" "[filter_row]"]
  by (simp add: plain_world_def filter_row_def row_ok_def row_view_def suggestion_new_def unwrap_or_def scalar_value_def)

text \<open>
  The two readers of a row disagree. A string is a row for the second, but the first has dropped it; a
  priority of zero is a number for the first, and the second takes it for none.
\<close>

lemma string_rows_are_dropped:
  "normalize_suggestion_array (JArray [JString name]) = JArray []"
  "name \<noteq> [] \<Longrightarrow> suggestion_from_typed_json (JString name) \<noteq> None"
  by (simp_all add: normalize_suggestion_array_def normalize_suggestion_value_def normal_row_def suggestion_from_typed_json_def
      as_object_def as_str_def)

lemma zero_priority_is_lost: "sg_priority (with_meta i d r a h (Some 0) icon s) = 50"
  by (simp add: with_meta_def normalize_priority_def)

end
