(* ===== verification/Job_Queue.thy ===== *)
theory Job_Queue
  imports Suggestion
begin

text \<open>
  The mailbox of the engine thread (\<open>worker.rs\<close> 95--379): jobs in the order they were sent, bounded in
  number and in bytes, with room kept back for the notifications that a session has ended. A token is
  addressed by the position of its creation, as in the store of tokens; the channel for the reply to a
  request is created together with its token and has the same address.
\<close>

section \<open>Jobs\<close>

type_synonym session_id = nat

datatype job =
    JobComplete (job_request: complete_request) (job_token: nat) (job_session: session_id) (job_sequence: nat)
  | JobRecordAcceptance str str nat
  | JobRecordScopedAcceptance str str nat
  | JobClearCaches
  | JobDiagnostics nat
  | JobEndInput session_id

definition MAX_QUEUED_JOBS :: nat where "MAX_QUEUED_JOBS = 256"
definition MAX_QUEUED_BYTES :: nat where "MAX_QUEUED_BYTES = 8 * 1024 * 1024"
definition RESERVED_END_INPUT_JOBS :: nat where "RESERVED_END_INPUT_JOBS = 2"
definition USIZE_MAX :: nat where "USIZE_MAX = 2 ^ 64 - 1"

text \<open>
  What the allocator and the compiler decide: the capacity of a string and of the vector of environment
  variables, the size of a job and of a pair of strings.
\<close>

record job_memory =
  jm_capacity :: "str \<Rightarrow> nat"
  jm_environment :: nat
  jm_size_of_pair :: nat
  jm_size_of_job :: nat

definition saturating_add :: "nat \<Rightarrow> nat \<Rightarrow> nat" where
  "saturating_add a b = min USIZE_MAX (a + b)"

definition request_bytes :: "job_memory \<Rightarrow> complete_request \<Rightarrow> nat" where
  "request_bytes mem r =
     (let texts = [rq_buffer r, rq_cwd r] @ filter_map (\<lambda>x. x) [rq_current_shell r, rq_current_process r, rq_alias r]
      in foldl saturating_add (min USIZE_MAX (jm_environment mem * jm_size_of_pair mem))
           (map (jm_capacity mem) texts @
            concat (map (\<lambda>(key, v). [jm_capacity mem key, jm_capacity mem v]) (rq_environment_variables r))))"

definition payload_bytes :: "job_memory \<Rightarrow> job \<Rightarrow> nat" where
  "payload_bytes mem job =
     saturating_add (jm_size_of_job mem)
       (case job of
          JobComplete request _ _ _ \<Rightarrow> request_bytes mem request
        | JobRecordAcceptance root_command accepted_name _ \<Rightarrow>
            saturating_add (jm_capacity mem root_command) (jm_capacity mem accepted_name)
        | JobRecordScopedAcceptance scope accepted_name _ \<Rightarrow>
            saturating_add (jm_capacity mem scope) (jm_capacity mem accepted_name)
        | _ \<Rightarrow> 0)"

section \<open>The queue\<close>

record job_queue =
  jq_jobs :: "(job \<times> nat) list"
  jq_bytes :: nat
  jq_senders :: nat
  jq_receiver_alive :: bool
  jq_resource_session :: "session_id option"
  jq_attempt_session :: "session_id option"

definition job_channel :: job_queue where
  "job_channel =
     \<lparr>jq_jobs = [], jq_bytes = 0, jq_senders = 1, jq_receiver_alive = True, jq_resource_session = None, jq_attempt_session = None\<rparr>"

definition clone_sender :: "job_queue \<Rightarrow> job_queue" where
  "clone_sender q = q\<lparr>jq_senders := jq_senders q + 1\<rparr>"

definition drop_sender :: "job_queue \<Rightarrow> job_queue" where
  "drop_sender q = q\<lparr>jq_senders := jq_senders q - 1\<rparr>"

text \<open>A request nobody waits for: \<open>gone\<close> says that its token is cancelled or its receiver dropped.\<close>

fun retired :: "(nat \<Rightarrow> bool) \<Rightarrow> job \<times> nat \<Rightarrow> bool" where
  "retired gone (JobComplete _ token _ _, _) = gone token"
| "retired gone (_, _) = False"

definition retire :: "(nat \<Rightarrow> bool) \<Rightarrow> job_queue \<Rightarrow> job_queue" where
  "retire gone q =
     q\<lparr>jq_jobs := filter (\<lambda>entry. \<not> retired gone entry) (jq_jobs q),
       jq_bytes := jq_bytes q - sum_list (map snd (filter (retired gone) (jq_jobs q)))\<rparr>"

text \<open>
  The scan from the back: whether the last thing queued for the session, among its requests and its
  notifications, is a notification.
\<close>

fun end_queued :: "session_id \<Rightarrow> (job \<times> nat) list \<Rightarrow> bool" where
  "end_queued session [] = False"
| "end_queued session ((queued, _) # jobs) =
     (case queued of
        JobComplete _ _ s _ \<Rightarrow> if s = session then False else end_queued session jobs
      | JobEndInput s \<Rightarrow> if s = session then True else end_queued session jobs
      | _ \<Rightarrow> end_queued session jobs)"

text \<open>
  What sending gives: done, with the tokens of the requests removed, each of them answered with the
  cancellation error; or the job back, a message, and the same.
\<close>

datatype send_result = Sent "nat list" | SendError job str "nat list"

definition removed_tokens :: "(nat \<Rightarrow> bool) \<Rightarrow> job_queue \<Rightarrow> nat list" where
  "removed_tokens gone q = map (job_token \<circ> fst) (filter (retired gone) (jq_jobs q))"

definition enqueue :: "job_memory \<Rightarrow> nat \<Rightarrow> job \<Rightarrow> nat list \<Rightarrow> job_queue \<Rightarrow> send_result \<times> job_queue" where
  "enqueue mem reserved_jobs job removed q =
     (let bytes = payload_bytes mem job;
          job_limit = MAX_QUEUED_JOBS - reserved_jobs;
          byte_limit = MAX_QUEUED_BYTES - reserved_jobs * jm_size_of_job mem
      in if length (jq_jobs q) \<ge> job_limit \<or> bytes > byte_limit - jq_bytes q
         then (SendError job (lit ''engine request queue capacity exceeded'') removed, q)
         else (Sent removed, q\<lparr>jq_bytes := jq_bytes q + bytes, jq_jobs := jq_jobs q @ [(job, bytes)]\<rparr>))"

definition send :: "job_memory \<Rightarrow> (nat \<Rightarrow> bool) \<Rightarrow> job \<Rightarrow> job_queue \<Rightarrow> send_result \<times> job_queue" where
  "send mem gone job q =
     (if \<not> jq_receiver_alive q then (SendError job (lit ''engine thread is gone'') [], q)
      else
        let removed = removed_tokens gone q; q = retire gone q
        in case job of
             JobEndInput session \<Rightarrow>
               if jq_resource_session q \<noteq> Some session \<and> jq_attempt_session q \<noteq> Some session then (Sent removed, q)
               else if end_queued session (rev (jq_jobs q)) then (Sent removed, q)
               else enqueue mem 0 job removed q
           | _ \<Rightarrow> enqueue mem RESERVED_END_INPUT_JOBS job removed q)"

definition drop_receiver :: "job_queue \<Rightarrow> job_queue" where
  "drop_receiver q = q\<lparr>jq_receiver_alive := False, jq_jobs := [], jq_bytes := 0\<rparr>"

definition set_resource_session :: "session_id option \<Rightarrow> job_queue \<Rightarrow> job_queue" where
  "set_resource_session session q = q\<lparr>jq_resource_session := session, jq_attempt_session := None\<rparr>"

text \<open>
  One turn of the loop of \<open>receive\<close> under the lock. A turn that finds nothing waits for a wake-up and
  takes another turn.
\<close>

datatype received = Received job | Disconnected | Timeout | Wait

definition receive :: "nat \<Rightarrow> nat option \<Rightarrow> job_queue \<Rightarrow> received \<times> job_queue" where
  "receive now deadline q =
     (case jq_jobs q of
        (job, bytes) # jobs \<Rightarrow>
          (Received job,
           q\<lparr>jq_jobs := jobs, jq_bytes := jq_bytes q - bytes,
             jq_attempt_session := (case job of JobComplete _ _ session _ \<Rightarrow> Some session | _ \<Rightarrow> jq_attempt_session q)\<rparr>)
      | [] \<Rightarrow>
          (if jq_senders q = 0 then Disconnected
           else case deadline of Some d \<Rightarrow> if d \<le> now then Timeout else Wait | None \<Rightarrow> Wait, q))"

section \<open>Room kept for notifications\<close>

text \<open>
  The argument of the reservation, once for the number of jobs and once for their bytes: what is queued
  and a unit for every owner of resources whose notification is not queued fit the limit.
\<close>

definition owners :: "job_queue \<Rightarrow> session_id set" where
  "owners q = set_option (jq_resource_session q) \<union> set_option (jq_attempt_session q)"

definition open_ends :: "(job \<times> nat) list \<Rightarrow> session_id set \<Rightarrow> nat" where
  "open_ends jobs ss = card {s \<in> ss. \<not> end_queued s (rev jobs)}"

lemma owners_finite [simp]: "finite (owners q)"
  by (simp add: owners_def)

lemma owners_two: "card (owners q) \<le> 2"
proof -
  have "card (set_option x) \<le> 1" for x :: "session_id option" by (cases x) simp_all
  then show ?thesis unfolding owners_def by (intro order_trans [OF card_Un_le]) (metis add_mono one_add_one)
qed

lemma open_ends_le: "finite ss \<Longrightarrow> open_ends jobs ss \<le> card ss"
  unfolding open_ends_def by (intro card_mono) auto

lemma open_ends_mono:
  assumes "finite ss" and "\<And>s. s \<in> ts \<Longrightarrow> \<not> end_queued s (rev kobs) \<Longrightarrow> s \<in> ss \<and> \<not> end_queued s (rev jobs)"
  shows "open_ends kobs ts \<le> open_ends jobs ss"
  unfolding open_ends_def using assms by (intro card_mono) auto

lemma open_ends_insert:
  assumes "finite ss" and "\<And>s. s \<in> ts \<Longrightarrow> \<not> end_queued s (rev kobs) \<Longrightarrow> s = x \<or> s \<in> ss \<and> \<not> end_queued s (rev jobs)"
  shows "open_ends kobs ts \<le> Suc (open_ends jobs ss)"
proof -
  have "card {s \<in> ts. \<not> end_queued s (rev kobs)} \<le> card (insert x {s \<in> ss. \<not> end_queued s (rev jobs)})"
    using assms by (intro card_mono) auto
  also have "\<dots> \<le> Suc (card {s \<in> ss. \<not> end_queued s (rev jobs)})" by (intro card_insert_le_m1) simp_all
  finally show ?thesis by (simp add: open_ends_def)
qed

text \<open>The session a request is for, and the one a notification is for.\<close>

fun asks_for :: "session_id \<Rightarrow> job \<Rightarrow> bool" where
  "asks_for session (JobComplete _ _ s _) = (s = session)"
| "asks_for session _ = False"

lemma end_queued_Cons: "end_queued s (j # jobs) \<longleftrightarrow> fst j = JobEndInput s \<or> \<not> asks_for s (fst j) \<and> end_queued s jobs"
  by (cases j; cases "fst j") auto

declare end_queued.simps(2) [simp del]
declare end_queued_Cons [simp]

lemma end_queued_append:
  "end_queued s (xs @ ys) \<longleftrightarrow> end_queued s xs \<or> (\<forall>j \<in> set xs. \<not> asks_for s (fst j)) \<and> end_queued s ys"
  by (induction xs) auto

lemma end_queued_pop: "end_queued s (rev ((job, n) # jobs)) \<Longrightarrow> job \<noteq> JobEndInput s \<Longrightarrow> end_queued s (rev jobs)"
  by (auto simp: end_queued_append)

lemma retired_asks: "retired gone j \<Longrightarrow> fst j \<noteq> JobEndInput s"
  by (cases "(gone, j)" rule: retired.cases) auto

lemma end_queued_retire: "end_queued s jobs \<Longrightarrow> end_queued s (filter (\<lambda>entry. \<not> retired gone entry) jobs)"
  by (induction jobs) (auto dest: retired_asks)

definition room :: "(job \<times> nat \<Rightarrow> nat) \<Rightarrow> nat \<Rightarrow> nat \<Rightarrow> (job \<times> nat) list \<Rightarrow> session_id set \<Rightarrow> bool" where
  "room cost quantum limit jobs ss \<longleftrightarrow> sum_list (map cost jobs) + quantum * open_ends jobs ss \<le> limit"

locale reserved_budget =
  fixes cost :: "job \<times> nat \<Rightarrow> nat" and quantum limit :: nat and sized :: "job \<times> nat \<Rightarrow> bool"
  assumes end_cost: "sized e \<Longrightarrow> fst e = JobEndInput s \<Longrightarrow> cost e = quantum"
    and cost_ge: "sized e \<Longrightarrow> quantum \<le> cost e"
begin

abbreviation fits :: "(job \<times> nat) list \<Rightarrow> session_id set \<Rightarrow> bool" where
  "fits \<equiv> room cost quantum limit"

lemma fits_le:
  assumes "fits jobs ss" "sum_list (map cost kobs) + quantum * m \<le> sum_list (map cost jobs) + quantum * open_ends jobs ss"
    and "open_ends kobs ts \<le> m"
  shows "fits kobs ts"
  using assms(1,2) mult_le_mono2 [OF assms(3), of quantum] unfolding room_def by linarith

lemma fits_owners: "fits jobs ss \<Longrightarrow> finite ss \<Longrightarrow> ts \<subseteq> ss \<Longrightarrow> fits jobs ts"
  by (rule fits_le [OF _ order_refl]) (auto intro: open_ends_mono)

lemma fits_retire:
  assumes "fits jobs ss" "finite ss"
  shows "fits (filter (\<lambda>e. \<not> retired gone e) jobs) ss"
proof (rule fits_le [OF assms(1)])
  have "sum_list (map cost (filter P jobs)) \<le> sum_list (map cost jobs)" for P by (induction jobs) simp_all
  then show "sum_list (map cost (filter (\<lambda>e. \<not> retired gone e) jobs)) + quantum * open_ends jobs ss
      \<le> sum_list (map cost jobs) + quantum * open_ends jobs ss" by simp
  show "open_ends (filter (\<lambda>e. \<not> retired gone e) jobs) ss \<le> open_ends jobs ss"
    using assms(2) end_queued_retire [of _ "rev jobs" gone] by (intro open_ends_mono) (auto simp: rev_filter)
qed

lemma fits_push:
  assumes "sum_list (map cost jobs) + cost e + 2 * quantum \<le> limit" "finite ss" "card ss \<le> 2"
  shows "fits (jobs @ [e]) ss"
proof -
  have "open_ends (jobs @ [e]) ss \<le> 2" using open_ends_le assms(2,3) order_trans by blast
  then have "quantum * open_ends (jobs @ [e]) ss \<le> quantum * 2" by (rule mult_le_mono2)
  with assms(1) have "sum_list (map cost jobs) + cost e + quantum * open_ends (jobs @ [e]) ss \<le> limit" by linarith
  then show ?thesis by (simp add: room_def)
qed

lemma open_end:
  assumes "finite ss" "s \<in> ss" "\<not> end_queued s (rev jobs)"
  shows "open_ends jobs ss = Suc (open_ends (jobs @ [(JobEndInput s, n)]) ss)"
proof -
  have "{t \<in> ss. \<not> end_queued t (rev (jobs @ [(JobEndInput s, n)]))} = {t \<in> ss. \<not> end_queued t (rev jobs)} - {s}" by auto
  then show ?thesis unfolding open_ends_def using assms by (metis (mono_tags, lifting) card.remove finite_subset mem_Collect_eq subsetI)
qed

lemma fits_end:
  assumes "fits jobs ss" "finite ss" "s \<in> ss" "\<not> end_queued s (rev jobs)"
  shows "sum_list (map cost jobs) + quantum \<le> limit" and "sized (JobEndInput s, n) \<Longrightarrow> fits (jobs @ [(JobEndInput s, n)]) ss"
  using assms(1) open_end [OF assms(2-), of n] end_cost [of "(JobEndInput s, n)" s] by (simp_all add: room_def)

lemma fits_pop:
  assumes "fits (e # jobs) ss" "sized e" "finite ss" "\<forall>s \<in> ts. s \<in> ss \<or> asks_for s (fst e)"
  shows "fits jobs ts"
proof (rule fits_le [OF assms(1)])
  have "open_ends jobs ts \<le> Suc (open_ends (e # jobs) ss)"
  proof (cases "\<exists>x. fst e = JobEndInput x")
    case True
    then obtain x where "fst e = JobEndInput x" by blast
    with assms(3,4) show ?thesis by (intro open_ends_insert [where x = x]) (auto simp: end_queued_append)
  next
    case False
    obtain x where x: "\<And>s. asks_for s (fst e) \<Longrightarrow> s = x" by (cases "fst e") auto
    show ?thesis using False assms(3,4) x by (intro open_ends_insert [where x = x]) (auto simp: end_queued_append)
  qed
  then show "open_ends jobs ts \<le> Suc (open_ends (e # jobs) ss)" .
  show "sum_list (map cost jobs) + quantum * Suc (open_ends (e # jobs) ss)
      \<le> sum_list (map cost (e # jobs)) + quantum * open_ends (e # jobs) ss"
    using cost_ge [OF assms(2)] by simp
qed

end

definition sized :: "nat \<Rightarrow> job \<times> nat \<Rightarrow> bool" where
  "sized size_of_job e \<longleftrightarrow> (case fst e of JobEndInput _ \<Rightarrow> snd e = size_of_job | _ \<Rightarrow> size_of_job \<le> snd e)"

interpretation slots: reserved_budget "\<lambda>_. Suc 0" "Suc 0" MAX_QUEUED_JOBS "\<lambda>_. True"
  by unfold_locales simp_all

interpretation memory: reserved_budget snd size_of_job MAX_QUEUED_BYTES "sized size_of_job" for size_of_job
  by unfold_locales (auto simp: sized_def split: job.splits)

section \<open>The invariant of the queue\<close>

definition queue_inv :: "nat \<Rightarrow> job_queue \<Rightarrow> bool" where
  "queue_inv size_of_job q \<longleftrightarrow>
     list_all (sized size_of_job) (jq_jobs q) \<and> jq_bytes q = sum_list (map snd (jq_jobs q)) \<and>
     slots.fits (jq_jobs q) (owners q) \<and> memory.fits size_of_job (jq_jobs q) (owners q)"

text \<open>A layout of memory in which two notifications fit the budget.\<close>

definition memory_ok :: "job_memory \<Rightarrow> bool" where
  "memory_ok mem \<longleftrightarrow> 0 < jm_size_of_job mem \<and> RESERVED_END_INPUT_JOBS * jm_size_of_job mem \<le> MAX_QUEUED_BYTES"

lemma payload_sized: "memory_ok mem \<Longrightarrow> sized (jm_size_of_job mem) (job, payload_bytes mem job)"
  by (auto simp: sized_def payload_bytes_def saturating_add_def memory_ok_def USIZE_MAX_def MAX_QUEUED_BYTES_def
      RESERVED_END_INPUT_JOBS_def split: job.split)

lemma payload_pos: "memory_ok mem \<Longrightarrow> 0 < payload_bytes mem job"
  by (simp add: payload_bytes_def saturating_add_def memory_ok_def USIZE_MAX_def)

lemma queue_inv_channel: "queue_inv size_of_job job_channel"
  by (simp add: queue_inv_def job_channel_def room_def owners_def open_ends_def)

lemma queue_inv_senders: "queue_inv n q \<Longrightarrow> queue_inv n (clone_sender q)" "queue_inv n q \<Longrightarrow> queue_inv n (drop_sender q)"
  by (simp_all add: queue_inv_def clone_sender_def drop_sender_def owners_def)

lemma owners_retire [simp]: "owners (retire gone q) = owners q"
  by (simp add: retire_def owners_def)

lemma sum_list_partition: "sum_list (map f (filter P xs)) = sum_list (map f xs) - (sum_list (map f (filter (\<lambda>x. \<not> P x) xs)) :: nat)"
  and sum_list_filter_le: "sum_list (map f (filter (\<lambda>x. \<not> P x) xs)) \<le> (sum_list (map f xs) :: nat)"
  by (induction xs) auto

lemma queue_inv_retire: "queue_inv n q \<Longrightarrow> queue_inv n (retire gone q)"
  unfolding queue_inv_def owners_retire
  using sum_list_partition [where f = snd and P = "\<lambda>e. \<not> retired gone e" and xs = "jq_jobs q"]
  by (auto simp: retire_def list_all_iff intro: slots.fits_retire memory.fits_retire)

lemma queue_inv_push:
  assumes "queue_inv (jm_size_of_job mem) q" "memory_ok mem" "enqueue mem RESERVED_END_INPUT_JOBS job removed q = (r, q')"
  shows "queue_inv (jm_size_of_job mem) q'"
proof (cases "q' = q")
  case False
  let ?n = "payload_bytes mem job"
  from False assms(3) have q': "q' = q\<lparr>jq_bytes := jq_bytes q + ?n, jq_jobs := jq_jobs q @ [(job, ?n)]\<rparr>"
    and len: "length (jq_jobs q) + 3 \<le> MAX_QUEUED_JOBS" and bytes: "jq_bytes q + ?n + 2 * jm_size_of_job mem \<le> MAX_QUEUED_BYTES"
    using assms(2) payload_pos [OF assms(2), of job]
    by (auto simp: enqueue_def RESERVED_END_INPUT_JOBS_def MAX_QUEUED_JOBS_def memory_ok_def Let_def split: if_splits)
  have "slots.fits (jq_jobs q @ [(job, ?n)]) (owners q)"
    using len owners_two by (intro slots.fits_push) (simp_all add: sum_list_triv)
  moreover have "memory.fits (jm_size_of_job mem) (jq_jobs q @ [(job, ?n)]) (owners q)"
    using bytes assms(1) owners_two by (intro memory.fits_push) (simp_all add: queue_inv_def)
  ultimately show ?thesis
    using assms(1) payload_sized [OF assms(2), of job] by (simp add: queue_inv_def q' owners_def)
qed (use assms(1) in simp)

lemma queue_inv_end:
  assumes "queue_inv (jm_size_of_job mem) q" "memory_ok mem" "s \<in> owners q" "\<not> end_queued s (rev (jq_jobs q))"
  shows "\<exists>q'. enqueue mem 0 (JobEndInput s) removed q = (Sent removed, q') \<and> queue_inv (jm_size_of_job mem) q' \<and>
    jq_jobs q' = jq_jobs q @ [(JobEndInput s, payload_bytes mem (JobEndInput s))]"
proof -
  let ?n = "payload_bytes mem (JobEndInput s)"
  have n: "?n = jm_size_of_job mem" "sized (jm_size_of_job mem) (JobEndInput s, ?n)"
    using payload_sized [OF assms(2), of "JobEndInput s"] by (simp_all add: sized_def)
  have fits: "slots.fits (jq_jobs q) (owners q)" "memory.fits (jm_size_of_job mem) (jq_jobs q) (owners q)"
    and bytes: "jq_bytes q = sum_list (map snd (jq_jobs q))"
    using assms(1) by (simp_all add: queue_inv_def)
  have "length (jq_jobs q) + 1 \<le> MAX_QUEUED_JOBS" "jq_bytes q + ?n \<le> MAX_QUEUED_BYTES"
    using slots.fits_end(1) [OF fits(1) owners_finite assms(3,4)] memory.fits_end(1) [OF fits(2) owners_finite assms(3,4)]
    by (simp_all add: sum_list_triv bytes n)
  then have "enqueue mem 0 (JobEndInput s) removed q =
      (Sent removed, q\<lparr>jq_bytes := jq_bytes q + ?n, jq_jobs := jq_jobs q @ [(JobEndInput s, ?n)]\<rparr>)" (is "_ = (_, ?q')")
    by (simp add: enqueue_def Let_def)
  moreover have "queue_inv (jm_size_of_job mem) ?q'"
    using assms(1) n slots.fits_end(2) [OF fits(1) owners_finite assms(3,4), of ?n]
      memory.fits_end(2) [OF fits(2) owners_finite assms(3,4), of ?n]
    by (simp add: queue_inv_def owners_def)
  ultimately show ?thesis by simp
qed

lemma end_input_sent:
  assumes "queue_inv (jm_size_of_job mem) q" "memory_ok mem" "jq_receiver_alive q"
  shows "\<exists>q'. send mem gone (JobEndInput s) q = (Sent (removed_tokens gone q), q') \<and> queue_inv (jm_size_of_job mem) q' \<and>
    (s \<in> owners q \<longrightarrow> end_queued s (rev (jq_jobs q')))"
proof (cases "s \<in> owners q \<and> \<not> end_queued s (rev (jq_jobs (retire gone q)))")
  case True
  then obtain q' where q': "enqueue mem 0 (JobEndInput s) (removed_tokens gone q) (retire gone q) = (Sent (removed_tokens gone q), q')"
      "queue_inv (jm_size_of_job mem) q'"
      "jq_jobs q' = jq_jobs (retire gone q) @ [(JobEndInput s, payload_bytes mem (JobEndInput s))]"
    using queue_inv_end [OF queue_inv_retire [OF assms(1)] assms(2)] by fastforce
  moreover have "jq_resource_session q = Some s \<or> jq_attempt_session q = Some s" using True by (auto simp: owners_def)
  ultimately show ?thesis using True assms(3) by (auto simp: send_def retire_def)
next
  case False
  then show ?thesis using queue_inv_retire [OF assms(1)] assms(3) by (auto simp: send_def retire_def owners_def Let_def)
qed

lemma queue_inv_send:
  assumes "queue_inv (jm_size_of_job mem) q" "memory_ok mem" "send mem gone job q = (r, q')"
  shows "queue_inv (jm_size_of_job mem) q'"
proof (cases "jq_receiver_alive q")
  case alive: True
  show ?thesis
  proof (cases "\<exists>s. job = JobEndInput s")
    case True
    then obtain s where "job = JobEndInput s" by blast
    then show ?thesis using end_input_sent [OF assms(1,2) alive, of gone s] assms(3) by auto
  next
    case False
    then have "enqueue mem RESERVED_END_INPUT_JOBS job (removed_tokens gone q) (retire gone q) = (r, q')"
      using assms(3) alive by (cases job) (simp_all add: send_def)
    then show ?thesis using queue_inv_push [OF queue_inv_retire [OF assms(1)] assms(2)] by blast
  qed
qed (use assms in \<open>simp add: send_def\<close>)

lemma queue_inv_receive:
  assumes "queue_inv n q" "receive now deadline q = (r, q')"
  shows "queue_inv n q'"
proof (cases "jq_jobs q")
  case (Cons e jobs)
  from assms(2) Cons have jobs: "jq_jobs q' = jobs" "jq_bytes q' = jq_bytes q - snd e"
    and own: "\<forall>s \<in> owners q'. s \<in> owners q \<or> asks_for s (fst e)"
    by (auto simp: receive_def owners_def split: job.splits prod.splits)
  have fits: "slots.fits (e # jobs) (owners q)" "memory.fits n (e # jobs) (owners q)" "sized n e"
    using assms(1) Cons by (simp_all add: queue_inv_def)
  show ?thesis using assms(1) Cons jobs slots.fits_pop [OF fits(1) _ owners_finite own] memory.fits_pop [OF fits(2,3) owners_finite own]
    by (simp add: queue_inv_def)
qed (use assms in \<open>simp add: receive_def\<close>)

lemma queue_inv_resource:
  assumes "queue_inv n q" "set_option session \<subseteq> owners q"
  shows "queue_inv n (set_resource_session session q)"
proof -
  have "owners (set_resource_session session q) = set_option session" by (simp add: owners_def set_resource_session_def)
  then show ?thesis using assms slots.fits_owners [OF _ owners_finite assms(2)] memory.fits_owners [OF _ owners_finite assms(2)]
    by (simp add: queue_inv_def set_resource_session_def)
qed

lemma queue_inv_limits: "queue_inv n q \<Longrightarrow> length (jq_jobs q) \<le> MAX_QUEUED_JOBS" "queue_inv n q \<Longrightarrow> jq_bytes q \<le> MAX_QUEUED_BYTES"
  by (auto simp: queue_inv_def room_def sum_list_triv)

end
