(* ===== verification/Worker.thy ===== *)
theory Worker
  imports Job_Queue Cancel_Token Rank
begin

text \<open>
  The client of the engine and the thread that serves it (\<open>worker.rs\<close> 30--93 and 394--1235). Clients
  submit requests, end sessions and send controls through the mailbox; the supervisor takes one job
  after the other and runs completions and cache refreshes in threads of their own, which it gives up
  after a timeout. The engine and the registry are arbitrary types with the operations the supervisor
  uses; what a supervised thread did is an input of the step that ends it.
\<close>

section \<open>State\<close>

definition COUNTER_MAX :: nat where "COUNTER_MAX = 2 ^ 64 - 1"

definition count_up :: "nat \<Rightarrow> nat \<Rightarrow> nat" where
  "count_up n k = min COUNTER_MAX (n + k)"

record request_diagnostics =
  rd_submitted :: nat
  rd_started :: nat
  rd_completed :: nat
  rd_cancelled :: nat
  rd_failed :: nat
  rd_engine_initializations :: nat
  rd_watchdog_timeouts :: nat
  rd_panics :: nat

record submission =
  sb_sequence :: nat
  sb_owner :: "session_id option"
  sb_latest :: "nat option"
  sb_requests :: request_diagnostics

definition submission_default :: submission where
  "submission_default =
     \<lparr>sb_sequence = 0, sb_owner = None, sb_latest = None,
      sb_requests = \<lparr>rd_submitted = 0, rd_started = 0, rd_completed = 0, rd_cancelled = 0, rd_failed = 0,
        rd_engine_initializations = 0, rd_watchdog_timeouts = 0, rd_panics = 0\<rparr>\<rparr>"

text \<open>What a task gets: a result, the cancellation error, or another error.\<close>

datatype reply = Answer complete_result | AnswerCancelled | AnswerError str

datatype attempt_failure = TimedOut | Panicked

text \<open>
  Where the supervisor is: before \<open>set_resource_session\<close>, in \<open>recv\<close>, waiting for a completion, waiting
  for a cache refresh, or gone. A supervised thread has taken the engine with it.
\<close>

datatype ('e, 'g) phase =
    LoopTop
  | Receiving
  | Attempting complete_request nat session_id "'e option" "'g option"
  | Clearing "'e option" "'g option"
  | Stopped

record ('e, 'g) worker =
  wk_queue :: job_queue
  wk_submission :: submission
  wk_tokens :: "unit shared"
  wk_closed :: "nat set"
  wk_replies :: "(nat \<times> reply) list"
  wk_acceptance :: acceptance_index
  wk_engine :: "'e option"
  wk_active_session :: "session_id option"
  wk_registry_template :: "'g option"
  wk_jobs_without_attempt :: nat
  wk_phase :: "('e, 'g) phase"

text \<open>The operations of the engine and of the registry.\<close>

record ('e, 'g) engine_ops =
  eo_end_input :: "'e \<Rightarrow> 'e"
  eo_release_idle_specs :: "nat \<Rightarrow> 'e \<Rightarrow> 'e"
  eo_next_idle_deadline :: "'e \<Rightarrow> nat option"
  eo_clear_caches_and_report :: "str + 'g \<Rightarrow> 'e \<Rightarrow> bool \<times> 'e"
  eo_from_registry :: "'g \<Rightarrow> 'e"
  eo_needs_refresh :: "'g \<Rightarrow> bool"

definition spawned :: "acceptance_index \<Rightarrow> ('e, 'g) worker" where
  "spawned acceptance =
     \<lparr>wk_queue = job_channel, wk_submission = submission_default,
      wk_tokens = \<lparr>sh_tokens = [], sh_current = (\<lambda>_. None), sh_scopes = (\<lambda>_. []), sh_data = ()\<rparr>,
      wk_closed = {}, wk_replies = [], wk_acceptance = acceptance, wk_engine = None, wk_active_session = None,
      wk_registry_template = None, wk_jobs_without_attempt = 0, wk_phase = LoopTop\<rparr>"

definition gone :: "('e, 'g) worker \<Rightarrow> nat \<Rightarrow> bool" where
  "gone wk token \<longleftrightarrow> token_is_cancelled token (wk_tokens wk) \<or> token \<in> wk_closed wk"

definition cancel :: "nat \<Rightarrow> ('e, 'g) worker \<Rightarrow> ('e, 'g) worker" where
  "cancel token wk = wk\<lparr>wk_tokens := snd (token_cancel token (wk_tokens wk))\<rparr>"

definition update_submission :: "(submission \<Rightarrow> submission) \<Rightarrow> ('e, 'g) worker \<Rightarrow> ('e, 'g) worker" where
  "update_submission f wk = wk\<lparr>wk_submission := f (wk_submission wk)\<rparr>"

definition update_requests :: "(request_diagnostics \<Rightarrow> request_diagnostics) \<Rightarrow> ('e, 'g) worker \<Rightarrow> ('e, 'g) worker" where
  "update_requests f = update_submission (\<lambda>sb. sb\<lparr>sb_requests := f (sb_requests sb)\<rparr>)"

definition answer :: "reply \<Rightarrow> nat list \<Rightarrow> ('e, 'g) worker \<Rightarrow> ('e, 'g) worker" where
  "answer r tokens wk = wk\<lparr>wk_replies := wk_replies wk @ map (\<lambda>t. (t, r)) tokens\<rparr>"

section \<open>Clients\<close>

definition count_cancelled :: "nat list \<Rightarrow> ('e, 'g) worker \<Rightarrow> ('e, 'g) worker" where
  "count_cancelled removed = update_requests (\<lambda>c. c\<lparr>rd_cancelled := count_up (rd_cancelled c) (length removed)\<rparr>)"

definition count_failed :: "('e, 'g) worker \<Rightarrow> ('e, 'g) worker" where
  "count_failed = update_requests (\<lambda>c. c\<lparr>rd_failed := count_up (rd_failed c) 1\<rparr>)"

text \<open>Sending answers the requests it removes; both users of \<open>send\<close> count them.\<close>

definition send_job :: "job_memory \<Rightarrow> job \<Rightarrow> ('e, 'g) worker \<Rightarrow> send_result \<times> ('e, 'g) worker" where
  "send_job mem job wk =
     (case send mem (gone wk) job (wk_queue wk) of (r, q) \<Rightarrow>
        (r, (case r of Sent removed \<Rightarrow> count_cancelled removed (answer AnswerCancelled removed (wk\<lparr>wk_queue := q\<rparr>))
             | SendError _ _ removed \<Rightarrow> count_cancelled removed (answer AnswerCancelled removed (wk\<lparr>wk_queue := q\<rparr>)))))"

definition send_with_counters :: "job_memory \<Rightarrow> job \<Rightarrow> ('e, 'g) worker \<Rightarrow> (str + unit) \<times> ('e, 'g) worker" where
  "send_with_counters mem job wk =
     (case send_job mem job wk of (r, wk') \<Rightarrow> (case r of Sent _ \<Rightarrow> Inr () | SendError _ message _ \<Rightarrow> Inl message, wk'))"

text \<open>What a submission does before it sends: the new token supersedes the latest one.\<close>

definition supersede :: "session_id \<Rightarrow> nat \<Rightarrow> ('e, 'g) worker \<Rightarrow> ('e, 'g) worker" where
  "supersede session token wk =
     update_requests (\<lambda>c. c\<lparr>rd_submitted := count_up (rd_submitted c) 1\<rparr>)
       (update_submission (\<lambda>sb. sb\<lparr>sb_sequence := (sb_sequence sb + 1) mod 2 ^ 64, sb_owner := Some session, sb_latest := Some token\<rparr>)
         (case sb_latest (wk_submission wk) of Some previous \<Rightarrow> cancel previous wk | None \<Rightarrow> wk))"

definition complete_for_session :: "job_memory \<Rightarrow> session_id \<Rightarrow> complete_request \<Rightarrow> ('e, 'g) worker \<Rightarrow> nat \<times> ('e, 'g) worker" where
  "complete_for_session mem session request wk =
     (case token_new (wk_tokens wk) of (token, tokens) \<Rightarrow>
        let wk = supersede session token (wk\<lparr>wk_tokens := tokens\<rparr>)
        in (token,
            (case send_job mem (JobComplete request token session (sb_sequence (wk_submission wk))) wk of
               (Sent _, wk') \<Rightarrow> wk'
             | (SendError _ message _, wk') \<Rightarrow> answer (AnswerError message) [token] (count_failed wk'))))"

text \<open>What the end of a session does before it sends: its own latest request is cancelled.\<close>

definition before_end :: "session_id \<Rightarrow> ('e, 'g) worker \<Rightarrow> ('e, 'g) worker" where
  "before_end session wk =
     update_submission (\<lambda>sb. (if sb_owner (wk_submission wk) = Some session then sb\<lparr>sb_latest := None, sb_owner := None\<rparr> else sb)
       \<lparr>sb_sequence := (sb_sequence sb + 1) mod 2 ^ 64\<rparr>)
     (if sb_owner (wk_submission wk) = Some session then case sb_latest (wk_submission wk) of Some token \<Rightarrow> cancel token wk | None \<Rightarrow> wk else wk)"

definition end_input :: "job_memory \<Rightarrow> session_id \<Rightarrow> ('e, 'g) worker \<Rightarrow> (str + unit) \<times> ('e, 'g) worker" where
  "end_input mem session wk = send_with_counters mem (JobEndInput session) (before_end session wk)"

definition record_command :: "str \<Rightarrow> str \<Rightarrow> nat \<Rightarrow> ('e, 'g) worker \<Rightarrow> ('e, 'g) worker" where
  "record_command root_command accepted_name t wk =
     wk\<lparr>wk_acceptance := (wk_acceptance wk)\<lparr>ai_commands := record_entry root_command accepted_name t (ai_commands (wk_acceptance wk))\<rparr>\<rparr>"

definition record_scoped :: "str \<Rightarrow> str \<Rightarrow> nat \<Rightarrow> ('e, 'g) worker \<Rightarrow> bool \<times> ('e, 'g) worker" where
  "record_scoped scope accepted_name t wk =
     (case scoped_record_at scope accepted_name t (ai_scoped (wk_acceptance wk)) of (valid, es) \<Rightarrow>
        (valid, wk\<lparr>wk_acceptance := (wk_acceptance wk)\<lparr>ai_scoped := es\<rparr>\<rparr>))"

definition record_acceptance :: "job_memory \<Rightarrow> str \<Rightarrow> str \<Rightarrow> nat \<Rightarrow> ('e, 'g) worker \<Rightarrow> (str + unit) \<times> ('e, 'g) worker" where
  "record_acceptance mem root_command accepted_name t wk =
     send_with_counters mem (JobRecordAcceptance root_command accepted_name t)
       (record_command root_command accepted_name t wk)"

definition record_scoped_acceptance :: "job_memory \<Rightarrow> str \<Rightarrow> str \<Rightarrow> nat \<Rightarrow> ('e, 'g) worker \<Rightarrow> (str + unit) \<times> ('e, 'g) worker" where
  "record_scoped_acceptance mem scope accepted_name t wk =
     (case record_scoped scope accepted_name t wk of (valid, wk') \<Rightarrow>
        if valid then send_with_counters mem (JobRecordScopedAcceptance scope accepted_name t) wk' else (Inr (), wk'))"

text \<open>\<open>clear_caches\<close> and \<open>diagnostics\<close> only send.\<close>

definition send_control :: "job_memory \<Rightarrow> job \<Rightarrow> ('e, 'g) worker \<Rightarrow> (str + unit) \<times> ('e, 'g) worker" where
  "send_control = send_with_counters"

text \<open>Dropping a task cancels its token and closes its receiver.\<close>

definition drop_task :: "nat \<Rightarrow> ('e, 'g) worker \<Rightarrow> ('e, 'g) worker" where
  "drop_task token wk = (cancel token wk)\<lparr>wk_closed := insert token (wk_closed wk)\<rparr>"

section \<open>The supervisor\<close>

definition enter_loop :: "('e, 'g) worker \<Rightarrow> ('e, 'g) worker" where
  "enter_loop wk = wk\<lparr>wk_queue := set_resource_session (wk_active_session wk) (wk_queue wk), wk_phase := Receiving\<rparr>"

definition release_engine_idle :: "('e, 'g) engine_ops \<Rightarrow> nat \<Rightarrow> ('e, 'g) worker \<Rightarrow> ('e, 'g) worker" where
  "release_engine_idle ops now wk = wk\<lparr>wk_engine := map_option (eo_release_idle_specs ops now) (wk_engine wk)\<rparr>"

definition MAX_JOBS_WITHOUT_ATTEMPT :: nat where "MAX_JOBS_WITHOUT_ATTEMPT = 64"

definition maintain_idle_between_queued_jobs :: "('e, 'g) engine_ops \<Rightarrow> job \<Rightarrow> nat \<Rightarrow> ('e, 'g) worker \<Rightarrow> ('e, 'g) worker" where
  "maintain_idle_between_queued_jobs ops head now wk =
     (let jobs = saturating_add (wk_jobs_without_attempt wk) 1;
          live_completion = (case head of JobComplete _ token _ _ \<Rightarrow> \<not> gone wk token | _ \<Rightarrow> False)
      in if jobs < MAX_JOBS_WITHOUT_ATTEMPT \<or> live_completion then wk\<lparr>wk_jobs_without_attempt := jobs\<rparr>
         else (release_engine_idle ops now wk)\<lparr>wk_jobs_without_attempt := 0\<rparr>)"

definition handle :: "('e, 'g) engine_ops \<Rightarrow> job \<Rightarrow> ('e, 'g) worker \<Rightarrow> ('e, 'g) worker" where
  "handle ops job wk =
     (case job of
        JobRecordAcceptance root_command accepted_name t \<Rightarrow> (record_command root_command accepted_name t wk)\<lparr>wk_phase := LoopTop\<rparr>
      | JobRecordScopedAcceptance scope accepted_name t \<Rightarrow> (snd (record_scoped scope accepted_name t wk))\<lparr>wk_phase := LoopTop\<rparr>
      | JobClearCaches \<Rightarrow> wk\<lparr>wk_engine := None, wk_phase := Clearing (wk_engine wk) (wk_registry_template wk)\<rparr>
      | JobEndInput session \<Rightarrow>
          (if wk_active_session wk = Some session
           then wk\<lparr>wk_engine := map_option (eo_end_input ops) (wk_engine wk), wk_active_session := None\<rparr> else wk)\<lparr>wk_phase := LoopTop\<rparr>
      | JobDiagnostics _ \<Rightarrow> wk\<lparr>wk_phase := LoopTop\<rparr>
      | JobComplete request token session _ \<Rightarrow>
          (if gone wk token
           then (answer AnswerCancelled [token] (count_cancelled [token] (cancel token wk)))\<lparr>wk_phase := LoopTop\<rparr>
           else (update_requests (\<lambda>c. c\<lparr>rd_started := count_up (rd_started c) 1\<rparr>) wk)
             \<lparr>wk_engine := None, wk_jobs_without_attempt := 0,
              wk_phase := Attempting request token session (wk_engine wk)
                (if wk_engine wk = None then wk_registry_template wk else None)\<rparr>))"

text \<open>A turn of \<open>wait_for_engine_job\<close> and what follows; a turn that must wait changes nothing.\<close>

definition serve :: "('e, 'g) engine_ops \<Rightarrow> nat \<Rightarrow> ('e, 'g) worker \<Rightarrow> ('e, 'g) worker" where
  "serve ops now wk =
     (case receive now (Option.bind (wk_engine wk) (eo_next_idle_deadline ops)) (wk_queue wk) of
        (Received job, q) \<Rightarrow> handle ops job (maintain_idle_between_queued_jobs ops job now (wk\<lparr>wk_queue := q\<rparr>))
      | (Timeout, q) \<Rightarrow> (release_engine_idle ops now wk)\<lparr>wk_queue := q, wk_jobs_without_attempt := 0, wk_phase := LoopTop\<rparr>
      | (Disconnected, q) \<Rightarrow> wk\<lparr>wk_queue := drop_receiver q, wk_phase := Stopped\<rparr>
      | (Wait, q) \<Rightarrow> wk)"

definition record_attempt_failure :: "attempt_failure \<Rightarrow> bool \<Rightarrow> ('e, 'g) worker \<Rightarrow> ('e, 'g) worker" where
  "record_attempt_failure failure completion =
     update_requests (\<lambda>c.
       (case failure of TimedOut \<Rightarrow> c\<lparr>rd_watchdog_timeouts := count_up (rd_watchdog_timeouts c) 1\<rparr>
        | Panicked \<Rightarrow> c\<lparr>rd_panics := count_up (rd_panics c) 1\<rparr>)
       \<lparr>rd_failed := (if completion then count_up (rd_failed c) 1 else rd_failed c)\<rparr>)"

text \<open>Cache refresh in its thread: \<open>loaded\<close> is what reading the specs directory gave.\<close>

definition clear_caches :: "('e, 'g) engine_ops \<Rightarrow> str + 'g \<Rightarrow> 'e option \<Rightarrow> 'g option \<Rightarrow> 'e option \<times> 'g option \<times> bool" where
  "clear_caches ops loaded engine template =
     (case engine of
        Some e \<Rightarrow> (case eo_clear_caches_and_report ops loaded e of (ok, e') \<Rightarrow> (Some e', if ok then None else template, ok))
      | None \<Rightarrow> (None, case loaded of Inr g \<Rightarrow> Some g | Inl _ \<Rightarrow> template, False))"

definition finish_clear :: "('e, 'g) engine_ops \<Rightarrow> attempt_failure + (str + 'g) \<Rightarrow> ('e, 'g) worker \<Rightarrow> ('e, 'g) worker" where
  "finish_clear ops outcome wk =
     (case wk_phase wk of
        Clearing engine template \<Rightarrow>
          (case outcome of
             Inr loaded \<Rightarrow>
               (case clear_caches ops loaded engine template of (next_engine, next_template, cleared) \<Rightarrow>
                  wk\<lparr>wk_engine := next_engine, wk_registry_template := next_template,
                     wk_active_session := (if cleared then None else wk_active_session wk), wk_phase := LoopTop\<rparr>)
           | Inl failure \<Rightarrow> (record_attempt_failure failure False wk)\<lparr>wk_active_session := None, wk_phase := LoopTop\<rparr>)
      | _ \<Rightarrow> wk)"

text \<open>
  Building an engine from the template, read again if it is out of date: the new template and the
  registry, which is also the checkpoint handed out before the engine is built.
\<close>

definition rebuild_engine :: "('e, 'g) engine_ops \<Rightarrow> str + 'g \<Rightarrow> 'g option \<Rightarrow> 'g option \<times> (str + 'g)" where
  "rebuild_engine ops loaded template =
     (case template of
        Some g \<Rightarrow>
          if \<not> eo_needs_refresh ops g then (template, Inr g)
          else (case loaded of Inr g' \<Rightarrow> (Some g', Inr g') | Inl _ \<Rightarrow> (template, Inr g))
      | None \<Rightarrow> (case loaded of Inr g' \<Rightarrow> (Some g', Inr g') | Inl error \<Rightarrow> (None, Inl error)))"

text \<open>
  A completion in its thread. \<open>work\<close> is what the engine does with the request; the result is the new
  engine, the new template, the checkpoint, whether the engine was built, and the answer.
\<close>

definition attempt_thread ::
  "('e, 'g) engine_ops \<Rightarrow> str + 'g \<Rightarrow> ('e \<Rightarrow> 'e \<times> reply) \<Rightarrow> 'e option \<Rightarrow> 'g option \<Rightarrow>
   'e option \<times> 'g option \<times> 'g option \<times> bool \<times> reply" where
  "attempt_thread ops loaded work engine template =
     (case engine of
        Some e \<Rightarrow> (case work e of (e', r) \<Rightarrow> (Some e', template, None, False, r))
      | None \<Rightarrow>
          (case rebuild_engine ops loaded template of
             (template', Inr g) \<Rightarrow> (case work (eo_from_registry ops g) of (e', r) \<Rightarrow> (Some e', template', Some g, True, r))
           | (template', Inl error) \<Rightarrow> (None, template', None, False, AnswerError (lit ''completion engine initialization failed: '' @ error))))"

definition count_answer :: "reply \<Rightarrow> bool \<Rightarrow> request_diagnostics \<Rightarrow> request_diagnostics" where
  "count_answer r initialized c =
     (let c = (if initialized then c\<lparr>rd_engine_initializations := count_up (rd_engine_initializations c) 1\<rparr> else c)
      in case r of AnswerCancelled \<Rightarrow> c\<lparr>rd_cancelled := count_up (rd_cancelled c) 1\<rparr>
         | Answer _ \<Rightarrow> c\<lparr>rd_completed := count_up (rd_completed c) 1\<rparr>
         | AnswerError _ \<Rightarrow> c\<lparr>rd_failed := count_up (rd_failed c) 1\<rparr>)"

text \<open>
  The end of an attempt: what its thread did, or that it was given up or panicked, maybe after it handed
  out its checkpoint.
\<close>

definition failure_message :: "attempt_failure \<Rightarrow> nat \<Rightarrow> str" where
  "failure_message failure timeout =
     (case failure of
        TimedOut \<Rightarrow> lit ''completion attempt timed out after '' @ show_nat timeout @ lit ''ms; engine reset''
      | Panicked \<Rightarrow> lit ''completion attempt panicked; engine reset'')"

definition finish_attempt ::
  "('e, 'g) engine_ops \<Rightarrow> nat \<Rightarrow> nat \<Rightarrow> (attempt_failure \<times> 'g option) + ((str + 'g) \<times> ('e \<Rightarrow> 'e \<times> reply)) \<Rightarrow>
   ('e, 'g) worker \<Rightarrow> ('e, 'g) worker" where
  "finish_attempt ops now timeout outcome wk =
     (case wk_phase wk of
        Attempting request token session engine template \<Rightarrow>
          (case outcome of
             Inr (loaded, work) \<Rightarrow>
               (case attempt_thread ops loaded work engine template of (next_engine, next_template, checkpoint, initialized, r) \<Rightarrow>
                  answer r [token] ((update_requests (count_answer r initialized) wk)
                    \<lparr>wk_active_session := (if (case r of Answer _ \<Rightarrow> True | _ \<Rightarrow> False) \<and> \<not> rq_history_only request
                       then Some session else wk_active_session wk),
                     wk_engine := map_option (eo_release_idle_specs ops now) next_engine,
                     wk_registry_template := or_else next_template (or_else checkpoint (wk_registry_template wk)),
                     wk_phase := LoopTop\<rparr>))
           | Inl (failure, checkpoint) \<Rightarrow>
               answer (AnswerError (failure_message failure timeout)) [token] ((record_attempt_failure failure True (cancel token wk))
                 \<lparr>wk_registry_template := or_else checkpoint (wk_registry_template wk),
                  wk_engine := None, wk_active_session := None, wk_phase := LoopTop\<rparr>))
      | _ \<Rightarrow> wk)"

text \<open>Inside its thread an attempt finishes its own token, if it is still active, when it commits.\<close>

definition finish_token :: "('e, 'g) worker \<Rightarrow> ('e, 'g) worker" where
  "finish_token wk =
     (case wk_phase wk of
        Attempting _ token _ _ _ \<Rightarrow> wk\<lparr>wk_tokens := snd (token_finish_if_active token (\<lambda>d. ((), d)) (wk_tokens wk))\<rparr>
      | _ \<Rightarrow> wk)"

end
