(* ===== verification/Worker_Inv.thy ===== *)
theory Worker_Inv
  imports Worker "HOL-Library.Multiset"
begin

text \<open>
  The engine thread under every interleaving of its clients: events, runs, and the invariant that every
  event keeps.
\<close>

section \<open>Runs\<close>

datatype ('e, 'g) worker_event =
    Submit job_memory session_id complete_request
  | EndSession job_memory session_id
  | ClearRequest job_memory
  | DiagnosticsRequest job_memory nat
  | Accept job_memory str str nat
  | AcceptScoped job_memory str str nat
  | DropTask nat
  | CloneClient
  | DropClient
  | EnterLoop
  | Serve nat
  | FinishAttempt nat nat "(attempt_failure \<times> 'g option) + ((str + 'g) \<times> ('e \<Rightarrow> 'e \<times> reply))"
  | FinishClear "attempt_failure + (str + 'g)"
  | CommitAttempt

definition perform :: "('e, 'g) engine_ops \<Rightarrow> ('e, 'g) worker_event \<Rightarrow> ('e, 'g) worker \<Rightarrow> ('e, 'g) worker" where
  "perform ops ev wk =
     (case ev of
        Submit mem session request \<Rightarrow> snd (complete_for_session mem session request wk)
      | EndSession mem session \<Rightarrow> snd (end_input mem session wk)
      | ClearRequest mem \<Rightarrow> snd (send_control mem JobClearCaches wk)
      | DiagnosticsRequest mem i \<Rightarrow> snd (send_control mem (JobDiagnostics i) wk)
      | Accept mem root_command accepted_name t \<Rightarrow> snd (record_acceptance mem root_command accepted_name t wk)
      | AcceptScoped mem scope accepted_name t \<Rightarrow> snd (record_scoped_acceptance mem scope accepted_name t wk)
      | DropTask token \<Rightarrow> drop_task token wk
      | CloneClient \<Rightarrow> wk\<lparr>wk_queue := clone_sender (wk_queue wk)\<rparr>
      | DropClient \<Rightarrow> wk\<lparr>wk_queue := drop_sender (wk_queue wk)\<rparr>
      | EnterLoop \<Rightarrow> if wk_phase wk = LoopTop then enter_loop wk else wk
      | Serve now \<Rightarrow> if wk_phase wk = Receiving then serve ops now wk else wk
      | FinishAttempt now timeout outcome \<Rightarrow> finish_attempt ops now timeout outcome wk
      | FinishClear outcome \<Rightarrow> finish_clear ops outcome wk
      | CommitAttempt \<Rightarrow> finish_token wk)"

text \<open>The size of a job is the same for all clients; the capacities of its strings are not.\<close>

fun memory_of :: "('e, 'g) worker_event \<Rightarrow> job_memory option" where
  "memory_of (Submit mem _ _) = Some mem"
| "memory_of (EndSession mem _) = Some mem"
| "memory_of (ClearRequest mem) = Some mem"
| "memory_of (DiagnosticsRequest mem _) = Some mem"
| "memory_of (Accept mem _ _ _) = Some mem"
| "memory_of (AcceptScoped mem _ _ _) = Some mem"
| "memory_of _ = None"

definition event_ok :: "nat \<Rightarrow> ('e, 'g) worker_event \<Rightarrow> bool" where
  "event_ok size_of_job ev \<longleftrightarrow> pred_option (\<lambda>mem. memory_ok mem \<and> jm_size_of_job mem = size_of_job) (memory_of ev)"

inductive runs :: "nat \<Rightarrow> ('e, 'g) engine_ops \<Rightarrow> (('e, 'g) worker_event \<Rightarrow> bool) \<Rightarrow> ('e, 'g) worker \<Rightarrow> ('e, 'g) worker \<Rightarrow> bool"
  for size_of_job ops allowed wk0 where
  runs_refl: "runs size_of_job ops allowed wk0 wk0"
| runs_step: "runs size_of_job ops allowed wk0 wk \<Longrightarrow> allowed ev \<Longrightarrow> event_ok size_of_job ev \<Longrightarrow>
    runs size_of_job ops allowed wk0 (perform ops ev wk)"

section \<open>The invariant\<close>

definition new_tokens :: "job \<Rightarrow> nat list" where
  "new_tokens job = (case job of JobComplete _ token _ _ \<Rightarrow> [token] | _ \<Rightarrow> [])"

definition queued_tokens :: "job_queue \<Rightarrow> nat list" where
  "queued_tokens q = concat (map (new_tokens \<circ> fst) (jq_jobs q))"

definition running_tokens :: "('e, 'g) phase \<Rightarrow> nat list" where
  "running_tokens ph = (case ph of Attempting _ token _ _ _ \<Rightarrow> [token] | _ \<Rightarrow> [])"

text \<open>
  Every request is queued, running or answered, and only one of these, and only once; or it is still on
  its way into the queue.
\<close>

definition answered_once :: "nat list \<Rightarrow> ('e, 'g) worker \<Rightarrow> bool" where
  "answered_once fresh wk \<longleftrightarrow>
     mset (map fst (wk_replies wk)) + mset (queued_tokens (wk_queue wk)) + mset (running_tokens (wk_phase wk)) + mset fresh =
     mset [0..<length (sh_tokens (wk_tokens wk))]"

text \<open>Only the latest request is still wanted.\<close>

definition latest_wins :: "('e, 'g) worker \<Rightarrow> bool" where
  "latest_wins wk \<longleftrightarrow>
     (\<forall>r token session n b. (JobComplete r token session n, b) \<in> set (jq_jobs (wk_queue wk)) \<longrightarrow>
        token_state (wk_tokens wk) token = CANCELLED \<or>
        token_state (wk_tokens wk) token = ACTIVE \<and>
        sb_latest (wk_submission wk) = Some token \<and> sb_owner (wk_submission wk) = Some session) \<and>
     (\<forall>token. sb_latest (wk_submission wk) = Some token \<longrightarrow> token < length (sh_tokens (wk_tokens wk)))"

text \<open>The sessions that may hold resources are known to the queue.\<close>

definition owners_known :: "('e, 'g) worker \<Rightarrow> bool" where
  "owners_known wk \<longleftrightarrow>
     (wk_phase wk \<noteq> Stopped \<longrightarrow> set_option (wk_active_session wk) \<subseteq> owners (wk_queue wk) \<and> jq_receiver_alive (wk_queue wk)) \<and>
     (wk_phase wk = Receiving \<longrightarrow> jq_resource_session (wk_queue wk) = wk_active_session wk) \<and>
     (\<forall>r token session e g. wk_phase wk = Attempting r token session e g \<longrightarrow> session \<in> owners (wk_queue wk))"

definition reply_count :: "(reply \<Rightarrow> bool) \<Rightarrow> ('e, 'g) worker \<Rightarrow> nat" where
  "reply_count P wk = length (filter (P \<circ> snd) (wk_replies wk))"

definition is_answer :: "reply \<Rightarrow> bool" where "is_answer r = (case r of Answer _ \<Rightarrow> True | _ \<Rightarrow> False)"
definition is_error :: "reply \<Rightarrow> bool" where "is_error r = (case r of AnswerError _ \<Rightarrow> True | _ \<Rightarrow> False)"

text \<open>The counters say how the requests were answered.\<close>

definition counters_right :: "('e, 'g) worker \<Rightarrow> bool" where
  "counters_right wk \<longleftrightarrow> (let c = sb_requests (wk_submission wk) in
     rd_submitted c = count_up 0 (length (sh_tokens (wk_tokens wk))) \<and>
     rd_completed c = count_up 0 (reply_count is_answer wk) \<and>
     rd_cancelled c = count_up 0 (reply_count (\<lambda>r. r = AnswerCancelled) wk) \<and>
     rd_failed c = count_up 0 (reply_count is_error wk))"

definition worker_inv :: "nat \<Rightarrow> ('e, 'g) worker \<Rightarrow> bool" where
  "worker_inv size_of_job wk \<longleftrightarrow>
     answered_once [] wk \<and> latest_wins wk \<and> owners_known wk \<and> counters_right wk \<and> queue_inv size_of_job (wk_queue wk)"

lemma count_up_twice [simp]: "count_up (count_up a b) c = count_up a (b + c)"
  by (simp add: count_up_def)

lemma worker_inv_spawned: "worker_inv size_of_job (spawned acceptance)"
proof -
  have "jq_jobs job_channel = []" "jq_receiver_alive job_channel" by (simp_all add: job_channel_def)
  then show ?thesis
    by (simp add: worker_inv_def spawned_def answered_once_def latest_wins_def owners_known_def counters_right_def
        queue_inv_channel queued_tokens_def running_tokens_def reply_count_def submission_default_def count_up_def)
qed

lemma token_cancel_state:
  "token_state (snd (token_cancel t sh)) u =
     (if u = t \<and> t < length (sh_tokens sh) \<and> token_state sh t = ACTIVE then CANCELLED else token_state sh u)"
  by (auto simp: token_cancel_def token_state_def set_token_def)

lemma token_cancel_length [simp]: "length (sh_tokens (snd (token_cancel t sh))) = length (sh_tokens sh)"
  by (simp add: token_cancel_def set_token_def)

lemma token_finish_state:
  "token_state (snd (token_finish_if_active t (\<lambda>d. ((), d)) sh)) u =
     (if u = t \<and> t < length (sh_tokens sh) \<and> token_state sh t = ACTIVE then COMPLETED else token_state sh u)"
  by (auto simp: token_finish_if_active_def run_commit_def token_state_def set_token_def)

lemma token_finish_length [simp]: "length (sh_tokens (snd (token_finish_if_active t (\<lambda>d. ((), d)) sh))) = length (sh_tokens sh)"
  by (simp add: token_finish_if_active_def run_commit_def set_token_def)

lemma token_new_state: "token_new sh = (t, sh') \<Longrightarrow> t = length (sh_tokens sh) \<and> length (sh_tokens sh') = Suc t \<and>
    token_state sh' u = token_state sh u"
  by (auto simp: token_new_def token_state_def nth_append)

section \<open>Sending\<close>

fun removed_by :: "send_result \<Rightarrow> nat list" where
  "removed_by (Sent removed) = removed"
| "removed_by (SendError _ _ removed) = removed"

fun refused :: "send_result \<Rightarrow> bool" where
  "refused (Sent _) = False"
| "refused (SendError _ _ _) = True"

lemma queued_retire: "mset (queued_tokens (retire g q)) + mset (removed_tokens g q) = mset (queued_tokens q)"
proof -
  have "mset (concat (map (new_tokens \<circ> fst) (filter (\<lambda>e. \<not> retired g e) jobs))) + mset (map (job_token \<circ> fst) (filter (retired g) jobs)) =
      mset (concat (map (new_tokens \<circ> fst) jobs))" for jobs
  proof (induction jobs)
    case (Cons e jobs)
    have "retired g e \<Longrightarrow> new_tokens (fst e) = [job_token (fst e)]" by (cases "(g, e)" rule: retired.cases) (auto simp: new_tokens_def)
    with Cons show ?case by auto
  qed simp
  then show ?thesis by (simp add: queued_tokens_def retire_def removed_tokens_def)
qed

lemma enqueue_cases:
  assumes "enqueue mem k job removed q = (r, q')"
  shows "removed_by r = removed \<and> (refused r \<and> q' = q \<or>
    \<not> refused r \<and> q' = q\<lparr>jq_bytes := jq_bytes q + payload_bytes mem job, jq_jobs := jq_jobs q @ [(job, payload_bytes mem job)]\<rparr>)"
  using assms by (auto simp: enqueue_def Let_def split: if_splits)

lemma send_cases:
  assumes "send mem g job q = (r, q')"
  shows "refused r \<and> removed_by r = [] \<and> q' = q \<and> \<not> jq_receiver_alive q \<or>
    removed_by r = removed_tokens g q \<and> jq_receiver_alive q \<and>
    ((refused r \<or> new_tokens job = []) \<and> q' = retire g q \<or>
     \<not> refused r \<and> q' = (retire g q)\<lparr>jq_bytes := jq_bytes (retire g q) + payload_bytes mem job,
       jq_jobs := jq_jobs (retire g q) @ [(job, payload_bytes mem job)]\<rparr>)"
proof (cases "jq_receiver_alive q")
  case True
  have "q' = retire g q \<and> removed_by r = removed_tokens g q \<and> new_tokens job = [] \<or>
      (\<exists>k. enqueue mem k job (removed_tokens g q) (retire g q) = (r, q'))"
    using assms True by (auto simp: send_def new_tokens_def Let_def split: job.splits if_splits)
  then show ?thesis using True by (auto dest!: enqueue_cases)
qed (use assms in \<open>auto simp: send_def\<close>)

lemma send_tokens:
  assumes "send mem g job q = (r, q')"
  shows "mset (queued_tokens q') + mset (removed_by r) = mset (queued_tokens q) + (if refused r then {#} else mset (new_tokens job))"
  using send_cases [OF assms] queued_retire [of g q, symmetric] by (auto simp: queued_tokens_def)

lemma retire_frame [simp]: "jq_resource_session (retire g q) = jq_resource_session q" "jq_attempt_session (retire g q) = jq_attempt_session q"
  "jq_receiver_alive (retire g q) = jq_receiver_alive q" "set (jq_jobs (retire g q)) \<subseteq> set (jq_jobs q)"
  by (auto simp: retire_def)

lemma send_frame:
  assumes "send mem g job q = (r, q')"
  shows "owners q' = owners q" "jq_receiver_alive q' = jq_receiver_alive q" "jq_resource_session q' = jq_resource_session q"
    "set (jq_jobs q') \<subseteq> insert (job, payload_bytes mem job) (set (jq_jobs q))" "refused r \<Longrightarrow> set (jq_jobs q') \<subseteq> set (jq_jobs q)"
    "e \<in> set (jq_jobs q') \<Longrightarrow> e \<noteq> (job, payload_bytes mem job) \<Longrightarrow> jq_receiver_alive q \<Longrightarrow> \<not> retired g e"
  using send_cases [OF assms] by (auto simp: owners_def retire_def)

lemma send_job_eq: "send_job mem job wk = (r, wk') \<Longrightarrow> \<exists>q'. send mem (gone wk) job (wk_queue wk) = (r, q') \<and>
    wk' = count_cancelled (removed_by r) (answer AnswerCancelled (removed_by r) (wk\<lparr>wk_queue := q'\<rparr>))"
  by (auto simp: send_job_def split: prod.splits send_result.splits)

lemmas worker_updates = count_cancelled_def count_failed_def answer_def update_requests_def update_submission_def cancel_def

lemma send_job_inv:
  assumes "send_job mem job wk = (r, wk')" "jm_size_of_job mem = size_of_job" "memory_ok mem"
    and "answered_once (new_tokens job) wk" "latest_wins wk" "owners_known wk" "counters_right wk" "queue_inv size_of_job (wk_queue wk)"
    and "\<And>q t s n. job = JobComplete q t s n \<Longrightarrow> token_state (wk_tokens wk) t = ACTIVE \<and>
      sb_latest (wk_submission wk) = Some t \<and> sb_owner (wk_submission wk) = Some s"
  shows "answered_once (if refused r then new_tokens job else []) wk'" "latest_wins wk'" "owners_known wk'" "counters_right wk'"
    "queue_inv size_of_job (wk_queue wk')"
proof -
  obtain q' where send: "send mem (gone wk) job (wk_queue wk) = (r, q')"
    and wk': "wk' = count_cancelled (removed_by r) (answer AnswerCancelled (removed_by r) (wk\<lparr>wk_queue := q'\<rparr>))"
    using send_job_eq [OF assms(1)] by blast
  note frame = send_frame [OF send] and tokens = send_tokens [OF send]
  have "mset (map fst (wk_replies wk)) + mset (queued_tokens q') + mset (removed_by r) + mset (running_tokens (wk_phase wk)) +
      mset (if refused r then new_tokens job else []) =
      mset (map fst (wk_replies wk)) + mset (queued_tokens (wk_queue wk)) + mset (running_tokens (wk_phase wk)) + mset (new_tokens job)"
    using tokens by (simp add: algebra_simps split: if_splits)
  moreover have parts: "map fst (wk_replies wk') = map fst (wk_replies wk) @ removed_by r" "wk_queue wk' = q'"
    "wk_phase wk' = wk_phase wk" "wk_tokens wk' = wk_tokens wk"
    by (simp_all add: wk' worker_updates o_def)
  ultimately show "answered_once (if refused r then new_tokens job else []) wk'"
    using assms(4) unfolding answered_once_def parts mset_append by (simp only: ac_simps)
  show "latest_wins wk'" using assms(5,9) frame(4) by (fastforce simp: latest_wins_def wk' worker_updates)
  show "owners_known wk'" using assms(6) frame(1-3) by (simp add: owners_known_def wk' worker_updates)
  show "counters_right wk'" using assms(7)
    by (simp add: counters_right_def wk' worker_updates reply_count_def Let_def o_def is_answer_def is_error_def)
  show "queue_inv size_of_job (wk_queue wk')" using queue_inv_send assms(2,3,8) send by (auto simp: wk' worker_updates)
qed

lemma send_control_inv:
  assumes "worker_inv size_of_job wk" "memory_ok mem" "jm_size_of_job mem = size_of_job" "new_tokens job = []"
  shows "worker_inv size_of_job (snd (send_with_counters mem job wk))"
proof -
  obtain r wk' where send: "send_job mem job wk = (r, wk')" by fastforce
  have "job \<noteq> JobComplete q t s n" for q t s n using assms(4) by (auto simp: new_tokens_def)
  moreover have "answered_once (new_tokens job) wk" "latest_wins wk" "owners_known wk" "counters_right wk"
    "queue_inv size_of_job (wk_queue wk)"
    using assms(1,4) by (simp_all add: worker_inv_def)
  moreover have "(if refused r then new_tokens job else []) = []" using assms(4) by simp
  ultimately show ?thesis using send_job_inv [OF send assms(3,2)]
    by (simp add: worker_inv_def send_with_counters_def send split: send_result.split)
qed

lemma acceptance_inv: "worker_inv size_of_job (wk\<lparr>wk_acceptance := a\<rparr>) = worker_inv size_of_job wk"
  by (simp add: worker_inv_def answered_once_def latest_wins_def owners_known_def counters_right_def reply_count_def)

lemma cancel_inv: "answered_once fresh wk \<Longrightarrow> answered_once fresh (cancel t wk)" "latest_wins wk \<Longrightarrow> latest_wins (cancel t wk)"
  "owners_known wk \<Longrightarrow> owners_known (cancel t wk)" "counters_right wk \<Longrightarrow> counters_right (cancel t wk)"
  by (auto simp: answered_once_def latest_wins_def owners_known_def counters_right_def reply_count_def cancel_def token_cancel_state Let_def)

lemma cancel_worker_inv: "worker_inv size_of_job wk \<Longrightarrow> worker_inv size_of_job (cancel t wk)"
  by (simp add: worker_inv_def cancel_inv) (simp add: cancel_def)

lemma update_submission_inv:
  "worker_inv size_of_job wk \<Longrightarrow> latest_wins (update_submission f wk) \<Longrightarrow> (\<And>sb. sb_requests (f sb) = sb_requests sb) \<Longrightarrow>
   worker_inv size_of_job (update_submission f wk)"
  by (simp add: worker_inv_def answered_once_def owners_known_def counters_right_def reply_count_def update_submission_def)

text \<open>After the latest request is cancelled, no queued request is wanted.\<close>

lemma latest_cancelled:
  assumes "latest_wins wk" and "(JobComplete r u s n, b) \<in> set (jq_jobs (wk_queue wk))"
  shows "token_state (wk_tokens (case sb_latest (wk_submission wk) of Some t \<Rightarrow> cancel t wk | None \<Rightarrow> wk)) u = CANCELLED"
proof -
  have "token_state (wk_tokens wk) u = CANCELLED \<or>
      token_state (wk_tokens wk) u = ACTIVE \<and> sb_latest (wk_submission wk) = Some u"
    and "\<And>t. sb_latest (wk_submission wk) = Some t \<Longrightarrow> t < length (sh_tokens (wk_tokens wk))"
    using assms unfolding latest_wins_def by blast+
  then show ?thesis by (auto simp: cancel_def token_cancel_state split: option.split)
qed

lemma before_end_inv:
  assumes "worker_inv size_of_job wk"
  shows "worker_inv size_of_job (before_end session wk)"
proof -
  let ?owned = "sb_owner (wk_submission wk) = Some session"
  let ?wk1 = "if ?owned then case sb_latest (wk_submission wk) of Some token \<Rightarrow> cancel token wk | None \<Rightarrow> wk else wk"
  have latest: "latest_wins wk" using assms by (simp add: worker_inv_def)
  have "worker_inv size_of_job ?wk1" using assms by (auto simp: cancel_worker_inv split: option.split)
  moreover have "latest_wins (before_end session wk)"
  proof (cases ?owned)
    case True
    have "token_state (wk_tokens ?wk1) u = CANCELLED" if "(JobComplete r u s n, b) \<in> set (jq_jobs (wk_queue wk))" for r u s n b
      using latest_cancelled [OF latest that] True by simp
    moreover have "wk_queue ?wk1 = wk_queue wk" by (simp add: cancel_def split: option.split)
    ultimately show ?thesis using True by (simp add: latest_wins_def update_submission_def before_end_def)
  next
    case False
    with latest show ?thesis by (simp add: latest_wins_def update_submission_def before_end_def)
  qed
  ultimately show ?thesis unfolding before_end_def by (rule update_submission_inv) simp
qed

lemma answered_length: "answered_once [t] wk \<Longrightarrow> answered_once [] (answer r [t] wk)"
  by (simp add: answered_once_def answer_def)

lemma supersede_frame:
  fixes wk :: "('e, 'g) worker" and session :: session_id and t :: nat
  defines "wk' \<equiv> supersede session t wk"
  shows "wk_queue wk' = wk_queue wk" "wk_phase wk' = wk_phase wk" "wk_replies wk' = wk_replies wk"
    "wk_active_session wk' = wk_active_session wk" "length (sh_tokens (wk_tokens wk')) = length (sh_tokens (wk_tokens wk))"
    "sb_latest (wk_submission wk') = Some t" "sb_owner (wk_submission wk') = Some session"
    "sb_requests (wk_submission wk') = (sb_requests (wk_submission wk))\<lparr>rd_submitted := count_up (rd_submitted (sb_requests (wk_submission wk))) 1\<rparr>"
    "wk_tokens wk' = wk_tokens (case sb_latest (wk_submission wk) of Some previous \<Rightarrow> cancel previous wk | None \<Rightarrow> wk)"
  unfolding wk'_def supersede_def by (simp_all add: worker_updates split: option.split)

text \<open>A fresh token that is not in the queue yet.\<close>

lemma supersede_inv:
  fixes session :: session_id
  assumes "worker_inv size_of_job wk" "token_new (wk_tokens wk) = (t, sh)"
  defines "wk' \<equiv> supersede session t (wk\<lparr>wk_tokens := sh\<rparr>)"
  shows "answered_once [t] wk'" "latest_wins wk'" "owners_known wk'" "counters_right wk'" "queue_inv size_of_job (wk_queue wk')"
    "token_state (wk_tokens wk') t = ACTIVE"
proof -
  have sh: "t = length (sh_tokens (wk_tokens wk))" "length (sh_tokens sh) = Suc t" "token_state sh u = token_state (wk_tokens wk) u" for u
    using token_new_state [OF assms(2)] by simp_all
  note frame = supersede_frame [where session = session and t = t and wk = "wk\<lparr>wk_tokens := sh\<rparr>", folded wk'_def, simplified]
  have latest: "latest_wins (wk\<lparr>wk_tokens := sh\<rparr>)" using assms(1) by (auto simp: worker_inv_def latest_wins_def sh)
  show "answered_once [t] wk'" using assms(1) by (simp add: worker_inv_def answered_once_def frame(1-8) sh)
  show "owners_known wk'" "queue_inv size_of_job (wk_queue wk')" using assms(1) by (simp_all add: worker_inv_def owners_known_def frame)
  show "counters_right wk'" using assms(1) by (simp add: worker_inv_def counters_right_def reply_count_def frame(1-8) sh Let_def)
  have "token_state (wk_tokens wk') u = CANCELLED" if "(JobComplete r u s m, b) \<in> set (jq_jobs (wk_queue wk))" for r u s m b
    using latest_cancelled [OF latest, of r u s m b] that by (simp add: frame)
  then show "latest_wins wk'" by (simp add: latest_wins_def frame(1-8) sh(2))
  have "token_state (wk_tokens wk) t = ACTIVE" by (simp add: token_state_def sh(1))
  then show "token_state (wk_tokens wk') t = ACTIVE"
    using assms(1) by (auto simp: frame cancel_def token_cancel_state sh worker_inv_def latest_wins_def split: option.split)
qed

lemma submit_inv:
  assumes "worker_inv size_of_job wk" "memory_ok mem" "jm_size_of_job mem = size_of_job"
  shows "worker_inv size_of_job (snd (complete_for_session mem session request wk))"
proof -
  obtain t sh where new: "token_new (wk_tokens wk) = (t, sh)" by fastforce
  define wk1 where "wk1 = supersede session t (wk\<lparr>wk_tokens := sh\<rparr>)"
  note ready = supersede_inv [OF assms(1) new, of session, folded wk1_def]
  obtain r wk2 where send: "send_job mem (JobComplete request t session (sb_sequence (wk_submission wk1))) wk1 = (r, wk2)" by fastforce
  have inv: "answered_once (if refused r then [t] else []) wk2" "latest_wins wk2" "owners_known wk2" "counters_right wk2"
    "queue_inv size_of_job (wk_queue wk2)"
    using send_job_inv [OF send assms(3,2)] ready by (simp_all add: new_tokens_def supersede_frame wk1_def cong: if_cong)
  have "snd (complete_for_session mem session request wk) =
      (case r of Sent _ \<Rightarrow> wk2 | SendError _ message _ \<Rightarrow> answer (AnswerError message) [t] (count_failed wk2))"
    using send by (simp add: complete_for_session_def new Let_def wk1_def split: send_result.split)
  then show ?thesis using inv answered_length [of t "count_failed wk2"]
    by (auto simp: worker_inv_def answered_once_def latest_wins_def owners_known_def counters_right_def reply_count_def
        worker_updates is_answer_def is_error_def Let_def split: send_result.split)
qed

section \<open>The supervisor keeps the invariant\<close>

lemmas inv_defs = worker_inv_def answered_once_def latest_wins_def owners_known_def counters_right_def reply_count_def Let_def

text \<open>The engine, the template and the pace of maintenance do not matter.\<close>

lemma engine_inv: "worker_inv size_of_job (wk\<lparr>wk_engine := e, wk_jobs_without_attempt := n\<rparr>) = worker_inv size_of_job wk"
  "worker_inv size_of_job (wk\<lparr>wk_engine := e\<rparr>) = worker_inv size_of_job wk"
  by (simp_all add: inv_defs)

lemma enter_loop_inv:
  assumes "worker_inv size_of_job wk" "wk_phase wk = LoopTop"
  shows "worker_inv size_of_job (enter_loop wk)"
proof -
  have "set_option (wk_active_session wk) \<subseteq> owners (wk_queue wk)" using assms by (simp add: inv_defs)
  then have "queue_inv size_of_job (set_resource_session (wk_active_session wk) (wk_queue wk))"
    using assms(1) by (intro queue_inv_resource) (simp_all add: worker_inv_def)
  then show ?thesis using assms
    by (simp add: inv_defs enter_loop_def set_resource_session_def queued_tokens_def running_tokens_def owners_def)
qed

lemma maintain_eq: "\<exists>e n. maintain_idle_between_queued_jobs ops job now wk = wk\<lparr>wk_engine := e, wk_jobs_without_attempt := n\<rparr>"
proof (cases wk)
  case (fields q sb tk cl rp ac en as rt jw ph)
  then show ?thesis by (auto simp: maintain_idle_between_queued_jobs_def release_engine_idle_def Let_def)
qed

text \<open>A job that was received and is not handled yet.\<close>

definition holding :: "nat \<Rightarrow> job \<Rightarrow> ('e, 'g) worker \<Rightarrow> bool" where
  "holding size_of_job job wk \<longleftrightarrow>
     answered_once (new_tokens job) wk \<and> latest_wins wk \<and> counters_right wk \<and> queue_inv size_of_job (wk_queue wk) \<and>
     wk_phase wk = Receiving \<and> jq_receiver_alive (wk_queue wk) \<and> jq_resource_session (wk_queue wk) = wk_active_session wk \<and>
     (\<forall>r t s n. job = JobComplete r t s n \<longrightarrow> jq_attempt_session (wk_queue wk) = Some s)"

lemma holding_engine: "holding size_of_job job (wk\<lparr>wk_engine := e, wk_jobs_without_attempt := n\<rparr>) = holding size_of_job job wk"
  by (simp add: holding_def inv_defs)

lemma receive_holding:
  assumes "worker_inv size_of_job wk" "wk_phase wk = Receiving" "receive now deadline (wk_queue wk) = (Received job, q)"
  shows "holding size_of_job job (wk\<lparr>wk_queue := q\<rparr>)"
proof -
  obtain b jobs where jobs: "jq_jobs (wk_queue wk) = (job, b) # jobs"
    and q: "q = (wk_queue wk)\<lparr>jq_jobs := jobs, jq_bytes := jq_bytes (wk_queue wk) - b,
      jq_attempt_session := (case job of JobComplete _ _ session _ \<Rightarrow> Some session | _ \<Rightarrow> jq_attempt_session (wk_queue wk))\<rparr>"
    using assms(3) by (auto simp: receive_def split: list.splits if_splits option.splits)
  have "answered_once (new_tokens job) (wk\<lparr>wk_queue := q\<rparr>)"
    using assms(1) by (simp add: worker_inv_def answered_once_def queued_tokens_def q jobs algebra_simps)
  moreover have "latest_wins (wk\<lparr>wk_queue := q\<rparr>)" using assms(1) by (auto simp: worker_inv_def latest_wins_def q jobs)
  moreover have "queue_inv size_of_job q" using assms(1,3) queue_inv_receive by (auto simp: worker_inv_def)
  moreover have "counters_right (wk\<lparr>wk_queue := q\<rparr>)" using assms(1) by (simp add: worker_inv_def counters_right_def reply_count_def)
  ultimately show ?thesis using assms(1,2) by (simp add: holding_def worker_inv_def owners_known_def q)
qed

lemma handle_control_inv:
  assumes "holding size_of_job job wk" "new_tokens job = []"
  shows "worker_inv size_of_job (handle ops job wk)"
  using assms by (cases job) (auto simp: holding_def handle_def record_command_def record_scoped_def inv_defs running_tokens_def
      new_tokens_def owners_def split: prod.split)

lemma handle_request_inv:
  assumes "holding size_of_job (JobComplete r t s n) wk"
  shows "worker_inv size_of_job (handle ops (JobComplete r t s n) wk)"
proof (cases "gone wk t")
  case True
  have "latest_wins (cancel t wk)" using assms by (simp add: holding_def cancel_inv)
  with True assms show ?thesis
    by (auto simp: holding_def handle_def inv_defs worker_updates running_tokens_def new_tokens_def owners_def is_answer_def
        is_error_def algebra_simps)
next
  case False
  with assms show ?thesis
    by (auto simp: holding_def handle_def inv_defs worker_updates running_tokens_def new_tokens_def owners_def algebra_simps)
qed

lemma handle_inv:
  assumes "holding size_of_job job wk"
  shows "worker_inv size_of_job (handle ops job wk)"
proof (cases "new_tokens job = []")
  case False
  then obtain r t s n where "job = JobComplete r t s n" by (cases job) (auto simp: new_tokens_def)
  with assms show ?thesis by (simp add: handle_request_inv)
qed (use assms in \<open>simp add: handle_control_inv\<close>)

lemma serve_inv:
  assumes "worker_inv size_of_job wk" "wk_phase wk = Receiving"
  shows "worker_inv size_of_job (serve ops now wk)"
proof -
  let ?deadline = "Option.bind (wk_engine wk) (eo_next_idle_deadline ops)"
  obtain r q where recv: "receive now ?deadline (wk_queue wk) = (r, q)" by fastforce
  show ?thesis
  proof (cases r)
    case (Received job)
    obtain e n where eq: "maintain_idle_between_queued_jobs ops job now (wk\<lparr>wk_queue := q\<rparr>) =
        wk\<lparr>wk_queue := q, wk_engine := e, wk_jobs_without_attempt := n\<rparr>" using maintain_eq by blast
    have "holding size_of_job job (wk\<lparr>wk_queue := q, wk_engine := e, wk_jobs_without_attempt := n\<rparr>)"
      using receive_holding [OF assms] recv Received holding_engine by fastforce
    from handle_inv [OF this] show ?thesis using recv Received eq by (simp add: serve_def)
  next
    case Disconnected
    with recv have "jq_jobs (wk_queue wk) = []" "q = wk_queue wk" by (auto simp: receive_def split: list.splits prod.splits)
    moreover from this have "queue_inv size_of_job (drop_receiver q)" using assms(1)
      by (simp add: worker_inv_def queue_inv_def drop_receiver_def owners_def)
    ultimately show ?thesis using recv Disconnected assms
      by (simp add: serve_def inv_defs queued_tokens_def running_tokens_def) (simp add: drop_receiver_def)
  next
    case Timeout
    with recv have "q = wk_queue wk" by (auto simp: receive_def split: list.splits prod.splits)
    with assms show ?thesis using recv Timeout by (simp add: serve_def inv_defs release_engine_idle_def running_tokens_def)
  next
    case Wait
    with assms show ?thesis using recv by (simp add: serve_def)
  qed
qed

lemma finish_attempt_inv:
  assumes "worker_inv size_of_job wk"
  shows "worker_inv size_of_job (finish_attempt ops now timeout outcome wk)"
proof (cases "wk_phase wk")
  case (Attempting request t s engine template)
  have once: "answered_once [t] (wk\<lparr>wk_phase := LoopTop\<rparr>)" using assms Attempting
    by (simp add: worker_inv_def answered_once_def running_tokens_def)
  have known: "s \<in> owners (wk_queue wk)" "set_option (wk_active_session wk) \<subseteq> owners (wk_queue wk)" "jq_receiver_alive (wk_queue wk)"
    using assms Attempting by (auto simp: worker_inv_def owners_known_def)
  show ?thesis
  proof (cases outcome)
    case (Inl a)
    have "latest_wins (cancel t wk)" using assms by (simp add: worker_inv_def cancel_inv)
    with Inl Attempting assms once known show ?thesis
      by (cases a; cases "fst a") (auto simp: finish_attempt_def record_attempt_failure_def inv_defs worker_updates running_tokens_def
          is_answer_def is_error_def)
  next
    case (Inr a)
    obtain next_engine next_template checkpoint initialized r
      where thread: "attempt_thread ops (fst a) (snd a) engine template = (next_engine, next_template, checkpoint, initialized, r)"
      by (metis prod_cases5)
    with Inr Attempting assms once known show ?thesis
      by (cases a; cases r) (auto simp: finish_attempt_def count_answer_def inv_defs worker_updates running_tokens_def is_answer_def is_error_def)
  qed
qed (use assms in \<open>simp_all add: finish_attempt_def\<close>)

lemma finish_clear_inv: "worker_inv size_of_job wk \<Longrightarrow> worker_inv size_of_job (finish_clear ops outcome wk)"
  by (cases "wk_phase wk"; cases outcome)
    (auto simp: finish_clear_def record_attempt_failure_def inv_defs worker_updates running_tokens_def
      split: prod.splits attempt_failure.splits)

lemma running_not_queued:
  assumes "answered_once [] wk" "wk_phase wk = Attempting r t s e g" "(JobComplete q u v n, b) \<in> set (jq_jobs (wk_queue wk))"
  shows "u \<noteq> t"
proof
  assume "u = t"
  then have "t \<in># mset (queued_tokens (wk_queue wk))" using assms(3) by (force simp: queued_tokens_def new_tokens_def)
  then have "2 \<le> count (mset (queued_tokens (wk_queue wk)) + mset (running_tokens (wk_phase wk))) t"
    using assms(2) by (simp add: running_tokens_def count_greater_zero_iff Suc_le_eq)
  also have "\<dots> \<le> count (mset [0..<length (sh_tokens (wk_tokens wk))]) t"
    unfolding assms(1) [unfolded answered_once_def, symmetric] by simp
  also have "\<dots> \<le> 1" using distinct_count_atmost_1 [of "[0..<length (sh_tokens (wk_tokens wk))]"] by (auto simp: count_mset_0_iff)
  finally show False by simp
qed

lemma finish_token_inv: "worker_inv size_of_job wk \<Longrightarrow> worker_inv size_of_job (finish_token wk)"
proof (cases "wk_phase wk")
  case (Attempting r t s e g)
  assume inv: "worker_inv size_of_job wk"
  have "latest_wins (finish_token wk)"
    using inv running_not_queued [OF _ Attempting]
    by (auto simp: worker_inv_def latest_wins_def finish_token_def Attempting token_finish_state)
  with inv show ?thesis by (auto simp: worker_inv_def finish_token_def answered_once_def owners_known_def counters_right_def
        reply_count_def Attempting Let_def)
qed (simp_all add: finish_token_def)

lemma drop_task_inv: "worker_inv size_of_job wk \<Longrightarrow> worker_inv size_of_job (drop_task t wk)"
  using cancel_worker_inv [of size_of_job wk t] by (simp add: drop_task_def inv_defs cancel_def)

lemma perform_inv:
  assumes "worker_inv size_of_job wk" "event_ok size_of_job ev"
  shows "worker_inv size_of_job (perform ops ev wk)"
proof -
  have control: "worker_inv size_of_job (snd (send_with_counters mem job (wk\<lparr>wk_acceptance := a\<rparr>)))"
    if "memory_ok mem" "jm_size_of_job mem = size_of_job" "new_tokens job = []" for mem job a
    using send_control_inv [OF _ that] assms(1) acceptance_inv by blast
  have plain: "worker_inv size_of_job (snd (send_with_counters mem job wk))"
      "worker_inv size_of_job (snd (send_with_counters mem job (before_end session wk)))"
    if "memory_ok mem" "jm_size_of_job mem = size_of_job" "new_tokens job = []" for mem job session
    using send_control_inv [OF _ that] assms(1) before_end_inv by blast+
  have "worker_inv size_of_job (wk\<lparr>wk_queue := clone_sender (wk_queue wk)\<rparr>)" "worker_inv size_of_job (wk\<lparr>wk_queue := drop_sender (wk_queue wk)\<rparr>)"
    using assms(1) queue_inv_senders by (auto simp: inv_defs clone_sender_def drop_sender_def owners_def queued_tokens_def queue_inv_def)
  moreover have "worker_inv size_of_job (snd (record_scoped_acceptance mem scope name time wk))"
    if "memory_ok mem" "jm_size_of_job mem = size_of_job" for mem scope name time
    using control [OF that] assms(1)
    by (auto simp: record_scoped_acceptance_def record_scoped_def new_tokens_def acceptance_inv split: prod.split)
  ultimately show ?thesis using assms
    by (cases ev) (auto simp: perform_def event_ok_def submit_inv end_input_def before_end_inv drop_task_inv enter_loop_inv serve_inv finish_attempt_inv
        finish_clear_inv finish_token_inv send_control_def record_acceptance_def record_command_def new_tokens_def control plain)
qed

lemma runs_inv: "runs size_of_job ops allowed wk wk' \<Longrightarrow> worker_inv size_of_job wk \<Longrightarrow> worker_inv size_of_job wk'"
  by (induction rule: runs.induct) (auto intro: perform_inv)

end
