(* ===== verification/Worker_Facts.thy ===== *)
theory Worker_Facts
  imports Worker_Inv
begin

text \<open>
  What the invariant of the engine thread gives: every request is answered exactly once, the end of a
  session always reaches the thread, and a session that ended does not keep its resources.
\<close>

section \<open>What clients can rely on\<close>

text \<open>A state the thread can be in, whatever clients and attempts do.\<close>

definition reachable :: "nat \<Rightarrow> ('e, 'g) engine_ops \<Rightarrow> ('e, 'g) worker \<Rightarrow> bool" where
  "reachable size_of_job ops wk \<longleftrightarrow> (\<exists>acceptance. runs size_of_job ops (\<lambda>_. True) (spawned acceptance) wk)"

lemma reachable_inv: "reachable size_of_job ops wk \<Longrightarrow> worker_inv size_of_job wk"
  unfolding reachable_def using runs_inv worker_inv_spawned by blast

lemma distinct_answers:
  assumes "answered_once [] wk"
  shows "distinct (map fst (wk_replies wk) @ queued_tokens (wk_queue wk) @ running_tokens (wk_phase wk))"
    "set (map fst (wk_replies wk) @ queued_tokens (wk_queue wk) @ running_tokens (wk_phase wk)) = {..<length (sh_tokens (wk_tokens wk))}"
proof -
  let ?all = "map fst (wk_replies wk) @ queued_tokens (wk_queue wk) @ running_tokens (wk_phase wk)"
  have eq: "mset ?all = mset [0..<length (sh_tokens (wk_tokens wk))]" using assms by (simp add: answered_once_def algebra_simps)
  show "distinct ?all" using mset_eq_imp_distinct_iff [OF eq] by simp
  show "set ?all = {..<length (sh_tokens (wk_tokens wk))}" using mset_eq_setD [OF eq] by auto
qed

text \<open>
  Property C25. Every completion is answered exactly once: in every state the engine thread can reach, under
  every interleaving of submissions, session ends, dropped tasks, attempts, timeouts and panics, the
  requests submitted so far are split, without repetition, into those answered, those queued and the one
  running; and as long as fewer than \<open>2 ^ 64\<close> were submitted, the counters of the diagnostics are the
  numbers of requests, of results, of cancellations and of errors sent.
\<close>

theorem requests_answered_once:
  assumes "reachable size_of_job ops wk"
  defines "all \<equiv> map fst (wk_replies wk) @ queued_tokens (wk_queue wk) @ running_tokens (wk_phase wk)"
    and "c \<equiv> sb_requests (wk_submission wk)"
  shows "distinct all \<and> set all = {..<length (sh_tokens (wk_tokens wk))} \<and>
    (length (sh_tokens (wk_tokens wk)) \<le> COUNTER_MAX \<longrightarrow>
      rd_submitted c = length all \<and> rd_completed c = reply_count is_answer wk \<and>
      rd_cancelled c = reply_count (\<lambda>r. r = AnswerCancelled) wk \<and> rd_failed c = reply_count is_error wk)"
proof -
  have inv: "answered_once [] wk" "counters_right wk" using reachable_inv [OF assms(1)] by (simp_all add: worker_inv_def)
  note split = distinct_answers [OF inv(1), folded all_def]
  have len: "length all = length (sh_tokens (wk_tokens wk))" using distinct_card [OF split(1)] split(2) by simp
  have "reply_count P wk \<le> length all" for P by (simp add: reply_count_def all_def le_trans [OF length_filter_le])
  then have "min COUNTER_MAX (reply_count P wk) = reply_count P wk" if "length (sh_tokens (wk_tokens wk)) \<le> COUNTER_MAX" for P
    using that len order_trans by (metis min_absorb2)
  then show ?thesis using split inv(2) len by (auto simp: counters_right_def c_def count_up_def Let_def)
qed

lemma before_end_frame: "wk_queue (before_end session wk) = wk_queue wk" "wk_phase (before_end session wk) = wk_phase wk"
  "wk_active_session (before_end session wk) = wk_active_session wk"
  by (simp_all add: before_end_def worker_updates split: option.split)

lemma before_end_gone:
  assumes "latest_wins wk" "(JobComplete r u session n, b) \<in> set (jq_jobs (wk_queue wk))"
  shows "gone (before_end session wk) u"
proof -
  have "token_state (wk_tokens wk) u = CANCELLED \<or> sb_owner (wk_submission wk) = Some session"
    using assms unfolding latest_wins_def by blast
  then show ?thesis using latest_cancelled [OF assms]
    by (auto simp: gone_def before_end_def token_is_cancelled_def update_submission_def split: option.splits)
qed

lemma end_input_effect:
  assumes "worker_inv size_of_job wk" "wk_phase wk \<noteq> Stopped" "memory_ok mem" "jm_size_of_job mem = size_of_job"
    and "end_input mem session wk = (r, wk')"
  shows "r = Inr ()" "queue_inv size_of_job (wk_queue wk')"
    "session \<in> owners (wk_queue wk) \<Longrightarrow> end_queued session (rev (jq_jobs (wk_queue wk')))"
    "wk_phase wk' = wk_phase wk" "wk_active_session wk' = wk_active_session wk"
    "\<forall>e \<in> set (jq_jobs (wk_queue wk')). \<not> asks_for session (fst e)"
proof -
  let ?wk1 = "before_end session wk"
  have alive: "queue_inv (jm_size_of_job mem) (wk_queue ?wk1)" "jq_receiver_alive (wk_queue ?wk1)"
    using assms(1,2,4) by (auto simp: worker_inv_def owners_known_def before_end_frame)
  then obtain q' where q': "send mem (gone ?wk1) (JobEndInput session) (wk_queue ?wk1) = (Sent (removed_tokens (gone ?wk1) (wk_queue ?wk1)), q')"
    "queue_inv (jm_size_of_job mem) q'" "session \<in> owners (wk_queue ?wk1) \<longrightarrow> end_queued session (rev (jq_jobs q'))"
    using end_input_sent [OF _ assms(3)] by metis
  have "end_input mem session wk = send_with_counters mem (JobEndInput session) ?wk1" by (rule end_input_def)
  then have wk': "r = Inr ()" "wk_queue wk' = q'" "wk_phase wk' = wk_phase ?wk1" "wk_active_session wk' = wk_active_session ?wk1"
    using assms(5) q'(1) by (auto simp: send_with_counters_def send_job_def worker_updates)
  then show "r = Inr ()" "queue_inv size_of_job (wk_queue wk')"
    "session \<in> owners (wk_queue wk) \<Longrightarrow> end_queued session (rev (jq_jobs (wk_queue wk')))"
    "wk_phase wk' = wk_phase wk" "wk_active_session wk' = wk_active_session wk"
    using q'(2,3) assms(4) by (simp_all add: before_end_frame)
  have "\<not> asks_for session (fst e)" if "e \<in> set (jq_jobs q')" for e
  proof
    assume "asks_for session (fst e)"
    then obtain request u n b where e: "e = (JobComplete request u session n, b)" by (cases e; cases "fst e") auto
    then have "e \<in> set (jq_jobs (wk_queue wk))" using send_frame(4) [OF q'(1)] that by (auto simp: before_end_frame)
    with e assms(1) have "retired (gone ?wk1) e" by (simp add: before_end_gone worker_inv_def)
    moreover have "e \<noteq> (JobEndInput session, payload_bytes mem (JobEndInput session))" using e by simp
    ultimately show False using send_frame(6) [OF q'(1) that _ alive(2)] by simp
  qed
  then show "\<forall>e \<in> set (jq_jobs (wk_queue wk')). \<not> asks_for session (fst e)" by (simp add: wk')
qed

text \<open>
  Property C24. The end of a session is never refused: as long as the engine thread lives, however full the
  mailbox is, ending a session is accepted, because the two places kept back are enough for the sessions
  that may still hold resources; and if the session is one of them, its end is queued behind
  everything it had asked for.
\<close>

theorem end_input_accepted:
  assumes "reachable size_of_job ops wk" "wk_phase wk \<noteq> Stopped" "memory_ok mem" "jm_size_of_job mem = size_of_job"
    and "end_input mem session wk = (r, wk')"
  shows "r = Inr () \<and> length (jq_jobs (wk_queue wk')) \<le> MAX_QUEUED_JOBS \<and> jq_bytes (wk_queue wk') \<le> MAX_QUEUED_BYTES \<and>
    (session \<in> owners (wk_queue wk) \<longrightarrow> end_queued session (rev (jq_jobs (wk_queue wk'))))"
  using end_input_effect [OF reachable_inv [OF assms(1)] assms(2-)] queue_inv_limits by auto

text \<open>A session holds resources, or an attempt of it may still get them.\<close>

definition holds :: "session_id \<Rightarrow> ('e, 'g) worker \<Rightarrow> bool" where
  "holds session wk \<longleftrightarrow>
     wk_active_session wk = Some session \<or> (case wk_phase wk of Attempting _ _ s _ _ \<Rightarrow> s = session | _ \<Rightarrow> False)"

definition ended :: "session_id \<Rightarrow> ('e, 'g) worker \<Rightarrow> bool" where
  "ended session wk \<longleftrightarrow>
     (\<forall>e \<in> set (jq_jobs (wk_queue wk)). \<not> asks_for session (fst e)) \<and>
     (holds session wk \<longrightarrow> JobEndInput session \<in> fst ` set (jq_jobs (wk_queue wk)))"

lemma end_queued_member: "end_queued s (rev jobs) \<Longrightarrow> JobEndInput s \<in> fst ` set jobs"
proof -
  have "end_queued s jobs \<Longrightarrow> JobEndInput s \<in> fst ` set jobs" for jobs by (induction jobs) force+
  then show "end_queued s (rev jobs) \<Longrightarrow> ?thesis" by fastforce
qed

lemma send_keeps_ends: "send mem g job q = (r, q') \<Longrightarrow> JobEndInput s \<in> fst ` set (jq_jobs q) \<Longrightarrow> JobEndInput s \<in> fst ` set (jq_jobs q')"
  by (drule send_cases) (force simp: retire_def)

lemma send_job_ended:
  assumes "send_job mem job wk = (r, wk')" "ended session wk" "\<not> asks_for session job"
  shows "ended session wk'"
proof -
  obtain q' where send: "send mem (gone wk) job (wk_queue wk) = (r, q')"
    and wk': "wk' = count_cancelled (removed_by r) (answer AnswerCancelled (removed_by r) (wk\<lparr>wk_queue := q'\<rparr>))"
    using send_job_eq [OF assms(1)] by blast
  have "wk_queue wk' = q'" "holds session wk' = holds session wk" by (simp_all add: wk' worker_updates holds_def)
  moreover have "\<not> asks_for session (fst e)" if "e \<in> set (jq_jobs q')" for e
    using that send_frame(4) [OF send] assms(2,3) by (auto simp: ended_def)
  ultimately show ?thesis using assms(2) send_keeps_ends [OF send, of session] by (simp add: ended_def)
qed

lemma ended_frame:
  assumes "ended session wk" "jq_jobs (wk_queue wk') = jq_jobs (wk_queue wk)" "holds session wk' \<Longrightarrow> holds session wk"
  shows "ended session wk'"
  using assms by (simp add: ended_def)

lemma send_with_counters_ended:
  assumes "ended session wk" "\<not> asks_for session job" "jq_jobs (wk_queue wk1) = jq_jobs (wk_queue wk)" "holds session wk1 = holds session wk"
  shows "ended session (snd (send_with_counters mem job wk1))"
proof -
  have "ended session wk1" using assms by (simp add: ended_def)
  moreover obtain r wk' where "send_job mem job wk1 = (r, wk')" by fastforce
  ultimately show ?thesis using send_job_ended assms(2) by (auto simp: send_with_counters_def)
qed

lemma submit_ended:
  assumes "ended session wk" "s \<noteq> session"
  shows "ended session (snd (complete_for_session mem s request wk))"
proof -
  obtain t sh where new: "token_new (wk_tokens wk) = (t, sh)" by fastforce
  define wk1 where "wk1 = supersede s t (wk\<lparr>wk_tokens := sh\<rparr>)"
  obtain r wk2 where send: "send_job mem (JobComplete request t s (sb_sequence (wk_submission wk1))) wk1 = (r, wk2)" by fastforce
  have "ended session wk1" using assms(1) by (simp add: ended_def holds_def wk1_def supersede_frame)
  then have "ended session wk2" using send_job_ended [OF send] assms(2) by simp
  then have "ended session (answer a [t] (count_failed wk2))" for a by (simp add: ended_def holds_def worker_updates)
  with \<open>ended session wk2\<close> show ?thesis using send
    by (simp add: complete_for_session_def new Let_def wk1_def split: send_result.split)
qed

lemma serve_ended:
  assumes "ended session wk" "wk_phase wk = Receiving"
  shows "ended session (serve ops now wk)"
proof -
  let ?deadline = "Option.bind (wk_engine wk) (eo_next_idle_deadline ops)"
  obtain r q where recv: "receive now ?deadline (wk_queue wk) = (r, q)" by fastforce
  show ?thesis
  proof (cases r)
    case (Received job)
    obtain b where jobs: "jq_jobs (wk_queue wk) = (job, b) # jq_jobs q"
      using recv Received by (auto simp: receive_def split: list.splits if_splits option.splits)
    obtain e n where eq: "maintain_idle_between_queued_jobs ops job now (wk\<lparr>wk_queue := q\<rparr>) =
        wk\<lparr>wk_queue := q, wk_engine := e, wk_jobs_without_attempt := n\<rparr>" using maintain_eq by blast
    have q: "\<forall>e \<in> set (jq_jobs q). \<not> asks_for session (fst e)" "\<not> asks_for session job"
      and active: "wk_active_session wk = Some session \<Longrightarrow> job = JobEndInput session \<or> JobEndInput session \<in> fst ` set (jq_jobs q)"
      using assms(1) jobs by (auto simp: ended_def holds_def)
    have "serve ops now wk = handle ops job (wk\<lparr>wk_queue := q, wk_engine := e, wk_jobs_without_attempt := n\<rparr>)"
      using recv Received eq by (simp add: serve_def)
    then show ?thesis using q active assms(2)
      by (cases job) (auto simp: handle_def ended_def holds_def worker_updates record_command_def record_scoped_def split: prod.split)
  next
    case Disconnected
    with recv have "jq_jobs (wk_queue wk) = []" "q = wk_queue wk" by (auto simp: receive_def split: list.splits prod.splits)
    with assms recv Disconnected show ?thesis by (simp add: serve_def ended_def holds_def drop_receiver_def)
  next
    case Timeout
    with recv have "q = wk_queue wk" by (auto simp: receive_def split: list.splits prod.splits)
    with assms recv Timeout show ?thesis by (simp add: serve_def ended_def holds_def release_engine_idle_def)
  qed (use assms recv in \<open>simp add: serve_def\<close>)
qed

lemma finish_holds:
  "holds session (finish_attempt ops now timeout outcome wk) \<Longrightarrow> holds session wk"
  "holds session (finish_clear ops failure wk) \<Longrightarrow> holds session wk"
  by (auto simp: holds_def finish_attempt_def finish_clear_def record_attempt_failure_def worker_updates
      split: phase.splits sum.splits prod.splits if_splits)

lemma finish_queue:
  "wk_queue (finish_attempt ops now timeout outcome wk) = wk_queue wk" "wk_queue (finish_clear ops failure wk) = wk_queue wk"
  by (auto simp: finish_attempt_def finish_clear_def record_attempt_failure_def worker_updates
      split: phase.splits sum.splits prod.splits)

fun resubmits :: "session_id \<Rightarrow> ('e, 'g) worker_event \<Rightarrow> bool" where
  "resubmits session (Submit _ s _) = (s = session)"
| "resubmits session _ = False"

lemma perform_ended:
  assumes "ended session wk" "\<not> resubmits session ev"
  shows "ended session (perform ops ev wk)"
proof -
  have frame: "wk_queue (before_end s wk) = wk_queue wk" "holds session (before_end s wk) = holds session wk"
      "holds session (wk\<lparr>wk_acceptance := a\<rparr>) = holds session wk" for s a
    by (simp_all add: before_end_frame holds_def)
  have send: "ended session (snd (send_with_counters mem job wk))" "ended session (snd (send_with_counters mem job (before_end s wk)))"
    "ended session (snd (send_with_counters mem job (wk\<lparr>wk_acceptance := a\<rparr>)))" if "\<not> asks_for session job" for mem job s a
    by (rule send_with_counters_ended [OF assms(1) that]; simp add: frame)+
  have "ended session (finish_attempt ops now timeout outcome wk)" "ended session (finish_clear ops failure wk)" for now timeout outcome failure
    using ended_frame [OF assms(1)] finish_holds finish_queue by metis+
  moreover have "ended session (wk\<lparr>wk_acceptance := a\<rparr>)" "ended session (drop_task token wk)" "ended session (enter_loop wk)"
      "ended session (wk\<lparr>wk_queue := clone_sender (wk_queue wk)\<rparr>)" "ended session (wk\<lparr>wk_queue := drop_sender (wk_queue wk)\<rparr>)"
      "ended session (finish_token wk)" for a token
    using assms(1) by (auto simp: ended_def holds_def drop_task_def cancel_def enter_loop_def set_resource_session_def clone_sender_def
        drop_sender_def finish_token_def split: phase.splits)
  ultimately show ?thesis using assms
    by (cases ev) (auto simp: perform_def submit_ended end_input_def send_control_def record_acceptance_def record_scoped_acceptance_def
        record_command_def record_scoped_def serve_ended send split: prod.split)
qed

lemma runs_ended:
  "runs size_of_job ops (\<lambda>ev. \<not> resubmits session ev) wk wk' \<Longrightarrow> ended session wk \<Longrightarrow> ended session wk'"
  by (induction rule: runs.induct) (auto intro: perform_ended)

text \<open>
  Property C26. A session that ended does not keep the engine's resources: after its end was sent, in every
  run in which it submits nothing new, either its end is still queued, or it neither owns the resources
  nor has an attempt running that could still get them. So once the queue is empty, they are free.
\<close>

theorem ended_session_releases:
  assumes "reachable size_of_job ops wk" "wk_phase wk \<noteq> Stopped" "memory_ok mem" "jm_size_of_job mem = size_of_job"
    and "runs size_of_job ops (\<lambda>ev. \<not> resubmits session ev) (snd (end_input mem session wk)) wk'"
  shows "JobEndInput session \<in> fst ` set (jq_jobs (wk_queue wk')) \<or> \<not> holds session wk'"
proof -
  have inv: "worker_inv size_of_job wk" by (rule reachable_inv [OF assms(1)])
  obtain r wk1 where wk1: "end_input mem session wk = (r, wk1)" by fastforce
  note effect = end_input_effect [OF inv assms(2-4) wk1]
  have "holds session wk1 \<Longrightarrow> session \<in> owners (wk_queue wk)"
    using inv assms(2) effect(4,5) by (auto simp: worker_inv_def owners_known_def holds_def split: phase.splits)
  then have "ended session wk1" using effect(3,6) end_queued_member by (auto simp: ended_def)
  then show ?thesis using runs_ended [OF assms(5)] wk1 by (auto simp: ended_def)
qed

section \<open>A run\<close>

lemma runs_fold:
  "list_all allowed evs \<Longrightarrow> list_all (event_ok size_of_job) evs \<Longrightarrow> runs size_of_job ops allowed wk (fold (perform ops) evs wk)"
proof (induction evs rule: rev_induct)
  case (snoc ev evs)
  then show ?case using runs_step [of size_of_job ops allowed wk "fold (perform ops) evs wk" ev] by simp
qed (simp add: runs_refl)

text \<open>An engine that does nothing; two sessions, and an attempt that was finished.\<close>

definition idle_ops :: "(unit, unit) engine_ops" where
  "idle_ops =
     \<lparr>eo_end_input = id, eo_release_idle_specs = (\<lambda>_. id), eo_next_idle_deadline = (\<lambda>_. None),
      eo_clear_caches_and_report = (\<lambda>_ e. (True, e)), eo_from_registry = id, eo_needs_refresh = (\<lambda>_. False)\<rparr>"

definition flat_memory :: job_memory where
  "flat_memory = \<lparr>jm_capacity = length, jm_environment = 0, jm_size_of_pair = 48, jm_size_of_job = 128\<rparr>"

definition session_run :: "(unit, unit) worker_event list" where
  "session_run =
     [Submit flat_memory 7 request_default, EnterLoop, Serve 0, CommitAttempt,
      FinishAttempt 0 0 (Inr (Inr (), \<lambda>e. (e, Answer result_default))), EnterLoop, Submit flat_memory 8 request_default]"

definition session_state :: "(unit, unit) worker" where
  "session_state = fold (perform idle_ops) session_run (spawned \<lparr>ai_commands = [], ai_scoped = []\<rparr>)"

lemmas session_eval = session_state_def session_run_def perform_def spawned_def complete_for_session_def supersede_def token_new_def send_job_def send_def
  enqueue_def retire_def removed_tokens_def job_channel_def payload_bytes_def request_bytes_def flat_memory_def saturating_add_def
  worker_updates submission_default_def enter_loop_def set_resource_session_def serve_def receive_def handle_def finish_token_def
  maintain_idle_between_queued_jobs_def gone_def token_is_cancelled_def token_state_def token_finish_if_active_def run_commit_def set_token_def
  token_cancel_def finish_attempt_def attempt_thread_def rebuild_engine_def idle_ops_def count_answer_def request_default_def result_default_def
  USIZE_MAX_def MAX_QUEUED_JOBS_def MAX_QUEUED_BYTES_def RESERVED_END_INPUT_JOBS_def MAX_JOBS_WITHOUT_ATTEMPT_def

lemma flat_memory_ok: "memory_ok flat_memory" "jm_size_of_job flat_memory = 128"
  by (simp_all add: memory_ok_def flat_memory_def RESERVED_END_INPUT_JOBS_def MAX_QUEUED_BYTES_def)

lemma session_reachable: "reachable 128 idle_ops session_state"
proof -
  have "list_all (event_ok 128) session_run" by (simp add: session_run_def event_ok_def flat_memory_ok)
  then show ?thesis unfolding reachable_def session_state_def
    using runs_fold [of "\<lambda>_. True" session_run 128 idle_ops] by (auto simp: list_all_iff)
qed

lemma session_facts: "wk_phase session_state = Receiving" "wk_active_session session_state = Some 7"
  "map fst (wk_replies session_state) = [0]" "queued_tokens (wk_queue session_state) = [1]" "owners (wk_queue session_state) = {7}"
  by (simp_all add: session_eval queued_tokens_def new_tokens_def owners_def Let_def)

lemma session_tokens: "length (sh_tokens (wk_tokens session_state)) = 2" "reply_count is_answer session_state = 1"
  by (simp_all add: session_eval reply_count_def is_answer_def Let_def)

theorem requests_answered_once_witness:
  "rd_submitted (sb_requests (wk_submission session_state)) = 2 \<and> rd_completed (sb_requests (wk_submission session_state)) = 1"
  using requests_answered_once [OF session_reachable] session_tokens session_facts(1,3,4)
  by (simp add: COUNTER_MAX_def running_tokens_def flip: length_map [of fst "wk_replies session_state"])

theorem end_input_accepted_witness:
  "\<exists>wk'. end_input flat_memory 7 session_state = (Inr (), wk') \<and> end_queued 7 (rev (jq_jobs (wk_queue wk')))"
proof -
  obtain r wk' where wk': "end_input flat_memory 7 session_state = (r, wk')" by fastforce
  with end_input_accepted [OF session_reachable _ flat_memory_ok wk'] session_facts show ?thesis by simp
qed

definition end_run :: "(unit, unit) worker_event list" where
  "end_run = [Serve 1, FinishAttempt 1 0 (Inr (Inr (), \<lambda>e. (e, AnswerCancelled))), EnterLoop, Serve 2]"

theorem ended_session_releases_witness:
  "wk_active_session session_state = Some 7 \<and>
   \<not> holds 7 (fold (perform idle_ops) end_run (snd (end_input flat_memory 7 session_state)))"
proof -
  let ?wk = "snd (end_input flat_memory 7 session_state)"
  have "runs 128 idle_ops (\<lambda>ev. \<not> resubmits 7 ev) ?wk (fold (perform idle_ops) end_run ?wk)"
    by (rule runs_fold) (simp_all add: end_run_def event_ok_def)
  moreover have "jq_jobs (wk_queue (fold (perform idle_ops) end_run ?wk)) = []"
    by (simp add: session_eval end_run_def end_input_def before_end_def send_with_counters_def Let_def)
  moreover have "wk_phase session_state \<noteq> Stopped" by (simp add: session_facts)
  ultimately show ?thesis using ended_session_releases [OF session_reachable _ flat_memory_ok] session_facts(2) by fastforce
qed

end
