(* ===== verification/Supervised.thy ===== *)
theory Supervised
  imports Rust_Prelude
begin

text \<open>
  The watchdog of the engine thread (\<open>worker.rs\<close> 394--500 and 1042--1080): how long an operation may take,
  and the counters of operations that run and of those that were given up. An operation runs in a thread
  of its own; \<open>run_supervised\<close> starts it, waits, and gives it up on a timeout; its guard is dropped when
  the thread ends, whenever that is.
\<close>

section \<open>Time limits\<close>

text \<open>In milliseconds; a negative setting counts as zero, sums saturate at \<open>Duration::MAX\<close>.\<close>

definition DURATION_MAX :: nat where "DURATION_MAX = (2 ^ 64 - 1) * 1000 + 999"
definition MIN_ATTEMPT_TIMEOUT :: nat where "MIN_ATTEMPT_TIMEOUT = 30000"
definition UI_DEADLINE_MARGIN :: nat where "UI_DEADLINE_MARGIN = 1000"
definition MIN_UI_DEADLINE :: nat where "MIN_UI_DEADLINE = 2000"

definition engine_attempt_timeout_for :: "int \<Rightarrow> nat" where
  "engine_attempt_timeout_for configured_ms = max MIN_ATTEMPT_TIMEOUT (min DURATION_MAX (nat configured_ms + 5000))"

definition ui_completion_deadline_for :: "int \<Rightarrow> nat" where
  "ui_completion_deadline_for configured_ms = max MIN_UI_DEADLINE (min DURATION_MAX (nat configured_ms + UI_DEADLINE_MARGIN))"

text \<open>The watchdog is later than both the script's own budget and the moment the interface gives up.\<close>

lemma watchdog_after_script:
  "configured_ms < 2 ^ 63 \<Longrightarrow> nat configured_ms + 5000 \<le> engine_attempt_timeout_for configured_ms \<and>
   ui_completion_deadline_for configured_ms < engine_attempt_timeout_for configured_ms"
  by (auto simp: engine_attempt_timeout_for_def ui_completion_deadline_for_def MIN_ATTEMPT_TIMEOUT_def MIN_UI_DEADLINE_def
      UI_DEADLINE_MARGIN_def DURATION_MAX_def)

section \<open>Operations\<close>

record operation_progress =
  op_finished :: bool
  op_abandoned :: bool

record operations =
  oc_active :: nat
  oc_abandoned :: nat
  oc_progress :: "operation_progress list"

definition operations_default :: operations where
  "operations_default = \<lparr>oc_active = 0, oc_abandoned = 0, oc_progress = []\<rparr>"

definition start_operation :: "operations \<Rightarrow> operations" where
  "start_operation oc = oc\<lparr>oc_active := oc_active oc + 1, oc_progress := oc_progress oc @ [\<lparr>op_finished = False, op_abandoned = False\<rparr>]\<rparr>"

definition abandon :: "nat \<Rightarrow> operations \<Rightarrow> operations" where
  "abandon i oc =
     (let p = oc_progress oc ! i
      in if \<not> op_finished p \<and> \<not> op_abandoned p
         then oc\<lparr>oc_progress := (oc_progress oc)[i := p\<lparr>op_abandoned := True\<rparr>], oc_abandoned := oc_abandoned oc + 1\<rparr>
         else oc)"

text \<open>Dropping the guard; both subtractions are unchecked in the code, so a result below zero is an error here.\<close>

definition drop_guard :: "nat \<Rightarrow> operations \<Rightarrow> operations option" where
  "drop_guard i oc =
     (let p = oc_progress oc ! i; k = (if op_abandoned p then 1 else 0)
      in if oc_active oc < 1 \<or> oc_abandoned oc < k then None
         else Some (oc\<lparr>oc_progress := (oc_progress oc)[i := p\<lparr>op_finished := True\<rparr>], oc_active := oc_active oc - 1,
                       oc_abandoned := oc_abandoned oc - k\<rparr>))"

text \<open>
  The steps of all supervised operations, interleaved: a start, a timeout, and, once for each operation,
  the end of its thread; a thread that could not be spawned drops its guard at once.
\<close>

inductive operations_run :: "operations \<Rightarrow> bool" where
  run_default: "operations_run operations_default"
| run_start: "operations_run oc \<Longrightarrow> operations_run (start_operation oc)"
| run_abandon: "operations_run oc \<Longrightarrow> i < length (oc_progress oc) \<Longrightarrow> operations_run (abandon i oc)"
| run_drop: "operations_run oc \<Longrightarrow> i < length (oc_progress oc) \<Longrightarrow> \<not> op_finished (oc_progress oc ! i) \<Longrightarrow>
    drop_guard i oc = Some oc' \<Longrightarrow> operations_run oc'"

definition running :: "operation_progress \<Rightarrow> bool" where "running p \<longleftrightarrow> \<not> op_finished p"
definition given_up :: "operation_progress \<Rightarrow> bool" where "given_up p \<longleftrightarrow> \<not> op_finished p \<and> op_abandoned p"

definition tally :: "(operation_progress \<Rightarrow> bool) \<Rightarrow> operation_progress list \<Rightarrow> nat" where
  "tally P ps = length (filter P ps)"

lemma tally_update: "i < length ps \<Longrightarrow> tally P (ps[i := p]) + (if P (ps ! i) then 1 else 0) = tally P ps + (if P p then 1 else 0)"
proof -
  assume i: "i < length ps"
  have "tally P ps = tally P (take i ps) + (if P (ps ! i) then 1 else 0) + tally P (drop (Suc i) ps)"
    by (subst id_take_nth_drop [OF i]) (simp add: tally_def)
  moreover have "tally P (ps[i := p]) = tally P (take i ps) + (if P p then 1 else 0) + tally P (drop (Suc i) ps)"
    by (simp add: upd_conv_take_nth_drop [OF i] tally_def)
  ultimately show ?thesis by simp
qed

lemma tally_pos: "i < length ps \<Longrightarrow> P (ps ! i) \<Longrightarrow> 0 < tally P ps"
  unfolding tally_def by (metis length_greater_0_conv filter_empty_conv nth_mem)

text \<open>
  The counters are exact: the one of active operations counts those whose thread still runs, the other
  those of them that were given up; so no subtraction goes below zero, and both return to zero.
\<close>

lemma counters_exact:
  "operations_run oc \<Longrightarrow> oc_active oc = tally running (oc_progress oc) \<and> oc_abandoned oc = tally given_up (oc_progress oc)"
proof (induction rule: operations_run.induct)
  case (run_abandon oc i)
  let ?p = "oc_progress oc ! i"
  have "tally running ((oc_progress oc)[i := ?p\<lparr>op_abandoned := True\<rparr>]) = tally running (oc_progress oc)"
    using tally_update [OF run_abandon(2), of running "?p\<lparr>op_abandoned := True\<rparr>"] by (simp add: running_def split: if_splits)
  moreover have "tally given_up ((oc_progress oc)[i := ?p\<lparr>op_abandoned := True\<rparr>]) = tally given_up (oc_progress oc) + 1"
    if "\<not> op_finished ?p" "\<not> op_abandoned ?p"
    using tally_update [OF run_abandon(2), of given_up "?p\<lparr>op_abandoned := True\<rparr>"] that by (simp add: given_up_def)
  ultimately show ?case using run_abandon by (simp add: abandon_def Let_def)
next
  case (run_drop oc i oc')
  let ?p = "oc_progress oc ! i"
  have "tally running ((oc_progress oc)[i := ?p\<lparr>op_finished := True\<rparr>]) + 1 = tally running (oc_progress oc)"
    "tally given_up ((oc_progress oc)[i := ?p\<lparr>op_finished := True\<rparr>]) + (if op_abandoned ?p then 1 else 0) = tally given_up (oc_progress oc)"
    using tally_update [OF run_drop(2), of running "?p\<lparr>op_finished := True\<rparr>"]
      tally_update [OF run_drop(2), of given_up "?p\<lparr>op_finished := True\<rparr>"] run_drop(3)
    by (simp_all add: running_def given_up_def)
  then show ?case using run_drop by (auto simp: drop_guard_def Let_def split: if_splits)
qed (simp_all add: operations_default_def start_operation_def tally_def running_def given_up_def)

lemma drop_guard_total:
  assumes "operations_run oc" "i < length (oc_progress oc)" "\<not> op_finished (oc_progress oc ! i)"
  shows "\<exists>oc'. drop_guard i oc = Some oc'"
proof -
  have "0 < tally running (oc_progress oc)" "op_abandoned (oc_progress oc ! i) \<Longrightarrow> 0 < tally given_up (oc_progress oc)"
    using tally_pos [OF assms(2), of running] tally_pos [OF assms(2), of given_up] assms(3) by (simp_all add: running_def given_up_def)
  then show ?thesis using counters_exact [OF assms(1)] by (simp add: drop_guard_def Let_def)
qed

end
