(* ===== verification/History_Index.thy ===== *)
theory History_Index
  imports Complete Hook_Cache
begin

text \<open>
  Argument values remembered from the shell history (\<open>history.rs\<close> 126--470): each command of each history
  line is walked along its spec, every value is filed under the argument slot it filled, and the filed
  values of a command are kept in a bounded cache for as long as aliases and shell stay the same. The
  registry and the walker answer as in a walk; memory sizes are parameters.
\<close>

section \<open>Building an index\<close>

type_synonym slot_index = "arg_slot \<rightharpoonup> str list"

definition is_command_separator :: "str \<Rightarrow> bool" where
  "is_command_separator token \<longleftrightarrow> token \<in> {lit ''&&'', lit ''||'', lit ''|'', lit '';'', lit ''&''}"

definition names_spec :: "str \<Rightarrow> str \<Rightarrow> bool" where
  "names_spec token root_name \<longleftrightarrow> token = root_name \<or> local_spec_name token = root_name"

text \<open>\<open>slice::split\<close>: the parts between the elements that match, at least one.\<close>

fun split_tokens :: "('a \<Rightarrow> bool) \<Rightarrow> 'a list \<Rightarrow> 'a list list" where
  "split_tokens P [] = [[]]"
| "split_tokens P (x # xs) =
     (if P x then [] # split_tokens P xs
      else case split_tokens P xs of part # parts \<Rightarrow> (x # part) # parts | [] \<Rightarrow> [[x]])"

definition push_value :: "arg_slot \<Rightarrow> str \<Rightarrow> slot_index \<Rightarrow> slot_index" where
  "push_value sl v index = index(sl \<mapsto> unwrap_or [] (index sl) @ [v])"

definition file_values :: "str \<Rightarrow> (arg_slot \<times> str) list \<Rightarrow> slot_index \<Rightarrow> slot_index" where
  "file_values root_name values index =
     fold (\<lambda>(sl, v) index. if sl_root sl \<noteq> root_name \<or> v = [] then index else push_value sl v index) values index"

text \<open>The values one command of a line fills in, or \<open>None\<close> if its walk does not return.\<close>

definition command_values :: "walk_env \<Rightarrow> (str \<Rightarrow> spec option) \<Rightarrow> (str \<times> str) list option \<Rightarrow> str \<Rightarrow> str list \<Rightarrow> (arg_slot \<times> str) list option" where
  "command_values env get_arc aliases root_name command0 =
     (if command0 = [] then Some []
      else
        let command = (case aliases of Some al \<Rightarrow> expand_alias_tokens_with command0 True al | None \<Rightarrow> command0)
        in if \<not> list_ex (\<lambda>token. names_spec token root_name) command then Some []
           else case get_arc (local_spec_name (hd command)) of
             None \<Rightarrow> Some []
           | Some spec \<Rightarrow> map_option (\<lambda>(_, trace). tr_values trace) (annotate_history_command env spec command (trace_new spec)))"

fun index_commands :: "walk_env \<Rightarrow> (str \<Rightarrow> spec option) \<Rightarrow> (str \<times> str) list option \<Rightarrow> str \<Rightarrow> str list list \<Rightarrow> slot_index \<Rightarrow> slot_index option" where
  "index_commands env get_arc aliases root_name [] index = Some index"
| "index_commands env get_arc aliases root_name (command # commands) index =
     Option.bind (command_values env get_arc aliases root_name command) (\<lambda>values.
       index_commands env get_arc aliases root_name commands (file_values root_name values index))"

text \<open>\<open>cancelled i\<close> is what the check before line \<open>i\<close> sees; a cancelled build gives an empty index.\<close>

fun index_lines :: "walk_env \<Rightarrow> (str \<Rightarrow> spec option) \<Rightarrow> (str \<times> str) list option \<Rightarrow> str \<Rightarrow> (nat \<Rightarrow> bool) \<Rightarrow> nat \<Rightarrow> str list \<Rightarrow> slot_index \<Rightarrow> slot_index option" where
  "index_lines env get_arc aliases root_name cancelled i [] index = Some index"
| "index_lines env get_arc aliases root_name cancelled i (line # lines) index =
     (if cancelled i then Some Map.empty
      else Option.bind (index_commands env get_arc aliases root_name (split_tokens is_command_separator (fst (tokenize line))) index) (\<lambda>index.
        index_lines env get_arc aliases root_name cancelled (i + 1) lines index))"

text \<open>The flags of the backward scan, and the values they keep.\<close>

fun seen_flags :: "str set \<Rightarrow> str list \<Rightarrow> bool list" where
  "seen_flags seen [] = []"
| "seen_flags seen (v # values) = (v \<notin> seen) # seen_flags (insert v seen) values"

definition keep_last :: "str list \<Rightarrow> str list" where
  "keep_last values = map fst (filter snd (zip values (rev (seen_flags {} (rev values)))))"

definition build_index :: "walk_env \<Rightarrow> (str \<Rightarrow> spec option) \<Rightarrow> str list \<Rightarrow> (nat \<Rightarrow> bool) \<Rightarrow> str \<Rightarrow> str option \<Rightarrow> str option \<Rightarrow> slot_index option" where
  "build_index env get_arc lines cancelled root_name aliases shell =
     map_option (\<lambda>index. map_option keep_last \<circ> index)
       (index_lines env get_arc (map_option (\<lambda>raw. parse_alias_map raw shell) aliases) root_name cancelled 0 lines Map.empty)"

section \<open>The cache of indexes\<close>

definition MAX_CACHED_INDEXES :: nat where "MAX_CACHED_INDEXES = 32"
definition MAX_INDEX_BYTES :: nat where "MAX_INDEX_BYTES = 4 * 1024 * 1024"

text \<open>Capacities and sizes: of a string, of what an index holds, and of the types of an entry together.\<close>

record index_memory =
  im_capacity :: "str \<Rightarrow> nat"
  im_slot_index_bytes :: "slot_index \<Rightarrow> nat"
  im_size_of_string :: nat
  im_size_of_entry :: nat

record index_cache =
  ic_entries :: "(str \<times> (slot_index \<times> nat)) list"
  ic_recent :: "str list"
  ic_aliases :: "str option"
  ic_shell :: "str option"
  ic_allocated_bytes :: nat

definition cache_default :: index_cache where
  "cache_default = \<lparr>ic_entries = [], ic_recent = [], ic_aliases = None, ic_shell = None, ic_allocated_bytes = 0\<rparr>"

definition matches_context :: "str option \<Rightarrow> str option \<Rightarrow> index_cache \<Rightarrow> bool" where
  "matches_context aliases shell c \<longleftrightarrow> ic_aliases c = aliases \<and> ic_shell c = shell"

definition context_bytes :: "index_memory \<Rightarrow> index_cache \<Rightarrow> nat" where
  "context_bytes mem c = (case ic_aliases c of Some s \<Rightarrow> im_capacity mem s | None \<Rightarrow> 0) + (case ic_shell c of Some s \<Rightarrow> im_capacity mem s | None \<Rightarrow> 0)"

definition select_context :: "index_memory \<Rightarrow> str option \<Rightarrow> str option \<Rightarrow> index_cache \<Rightarrow> index_cache" where
  "select_context mem aliases shell c =
     (if matches_context aliases shell c then c
      else if (case aliases of Some s \<Rightarrow> str_len s | None \<Rightarrow> 0) + (case shell of Some s \<Rightarrow> str_len s | None \<Rightarrow> 0) > MAX_INDEX_BYTES
      then cache_default
      else let c' = cache_default\<lparr>ic_aliases := aliases, ic_shell := shell\<rparr>
           in if context_bytes mem c' > MAX_INDEX_BYTES then cache_default else c')"

definition has_derived_payload :: "index_cache \<Rightarrow> bool" where
  "has_derived_payload c \<longleftrightarrow> ic_entries c \<noteq> [] \<or> ic_aliases c \<noteq> None \<or> ic_shell c \<noteq> None"

definition cache_remove :: "str \<Rightarrow> index_cache \<Rightarrow> index_cache" where
  "cache_remove name c =
     (case map_of (ic_entries c) name of
        None \<Rightarrow> c
      | Some (_, bytes) \<Rightarrow> c\<lparr>ic_entries := AList.delete name (ic_entries c), ic_allocated_bytes := ic_allocated_bytes c - bytes\<rparr>)"

definition touch :: "str \<Rightarrow> index_cache \<Rightarrow> index_cache" where
  "touch name c =
     (if name \<in> set (ic_recent c) then c\<lparr>ic_recent := remove1 name (ic_recent c) @ [name]\<rparr>
      else c\<lparr>ic_recent := ic_recent c @ [name]\<rparr>)"

definition index_lookup :: "str \<Rightarrow> index_cache \<Rightarrow> slot_index option \<times> index_cache" where
  "index_lookup name c =
     (case map_of (ic_entries c) name of None \<Rightarrow> (None, c) | Some (index, _) \<Rightarrow> (Some index, touch name c))"

fun evict_indexes :: "index_memory \<Rightarrow> nat \<Rightarrow> str list \<Rightarrow> index_cache \<Rightarrow> index_cache" where
  "evict_indexes mem bytes recent c =
     (if length (ic_entries c) \<ge> MAX_CACHED_INDEXES \<or> ic_allocated_bytes c + bytes > MAX_INDEX_BYTES - context_bytes mem c
      then case recent of
        [] \<Rightarrow> c\<lparr>ic_recent := []\<rparr>
      | old # rest \<Rightarrow> evict_indexes mem bytes rest (cache_remove old c)
      else c\<lparr>ic_recent := recent\<rparr>)"

definition index_bytes :: "index_memory \<Rightarrow> str \<Rightarrow> slot_index \<Rightarrow> nat" where
  "index_bytes mem name index = 2 * (im_size_of_string mem + im_capacity mem name) + im_size_of_entry mem + im_slot_index_bytes mem index"

definition cache_insert :: "index_memory \<Rightarrow> str \<Rightarrow> slot_index \<Rightarrow> index_cache \<Rightarrow> index_cache" where
  "cache_insert mem name index c0 =
     (let c1 = cache_remove name c0;
          c = c1\<lparr>ic_recent := filter (\<lambda>x. x \<noteq> name) (ic_recent c1)\<rparr>;
          bytes = index_bytes mem name index
      in if bytes > MAX_INDEX_BYTES - context_bytes mem c then c
         else let c' = evict_indexes mem bytes (ic_recent c) c
              in c'\<lparr>ic_recent := ic_recent c' @ [name], ic_allocated_bytes := ic_allocated_bytes c' + bytes,
                    ic_entries := AList.update name (index, bytes) (ic_entries c')\<rparr>)"

section \<open>Answering\<close>

text \<open>
  The two locked sections of \<open>index_for\<close>. \<open>active\<close> is whether the request is still active when the section
  is entered; if not, nothing is changed and the answer is empty.
\<close>

definition select_index :: "index_memory \<Rightarrow> bool \<Rightarrow> str \<Rightarrow> str option \<Rightarrow> str option \<Rightarrow> index_cache \<Rightarrow> slot_index option option \<times> index_cache" where
  "select_index mem active root_name aliases shell c =
     (if \<not> active then (None, c)
      else case index_lookup root_name (select_context mem aliases shell c) of (index, c') \<Rightarrow> (Some index, c'))"

definition publish_index :: "index_memory \<Rightarrow> bool \<Rightarrow> str \<Rightarrow> str option \<Rightarrow> str option \<Rightarrow> slot_index \<Rightarrow> index_cache \<Rightarrow> slot_index \<times> index_cache" where
  "publish_index mem active root_name aliases shell built c =
     (if \<not> active then (Map.empty, c)
      else if \<not> matches_context aliases shell c then (built, c)
      else case index_lookup root_name c of
        (Some index, c') \<Rightarrow> (index, c')
      | (None, c') \<Rightarrow> (built, cache_insert mem root_name built c'))"

text \<open>
  What a request asks of the store: the lines, the builder's answers, and for each of its looks whether it
  is still active.
\<close>

record history_store =
  hs_build :: "str \<Rightarrow> str option \<Rightarrow> str option \<Rightarrow> slot_index option"
  hs_memory :: index_memory

definition index_for :: "history_store \<Rightarrow> bool \<Rightarrow> bool \<Rightarrow> str \<Rightarrow> str option \<Rightarrow> str option \<Rightarrow> index_cache \<Rightarrow> (slot_index \<times> index_cache) option" where
  "index_for hs active1 active2 root_name aliases shell c =
     (case select_index (hs_memory hs) active1 root_name aliases shell c of
        (None, c') \<Rightarrow> Some (Map.empty, c')
      | (Some (Some index), c') \<Rightarrow> Some (index, c')
      | (Some None, c') \<Rightarrow>
          map_option (\<lambda>built. publish_index (hs_memory hs) active2 root_name aliases shell built c') (hs_build hs root_name aliases shell))"

text \<open>The values of a slot that are not in the answer yet, newest first.\<close>

fun add_unseen :: "str list \<Rightarrow> str list \<Rightarrow> str list" where
  "add_unseen out [] = out"
| "add_unseen out (v # values) = add_unseen (if v \<in> set out then out else out @ [v]) values"

fun arg_values :: "history_store \<Rightarrow> (nat \<Rightarrow> bool) \<Rightarrow> nat \<Rightarrow> str option \<Rightarrow> str option \<Rightarrow> arg_slot list \<Rightarrow> str list \<Rightarrow> index_cache \<Rightarrow>
   (str list \<times> index_cache) option" where
  "arg_values hs active n aliases shell [] out c = Some (out, c)"
| "arg_values hs active n aliases shell (sl # slots) out c =
     (if sl_root sl = [] then arg_values hs active n aliases shell slots out c
      else Option.bind (index_for hs (active n) (active (n + 1)) (sl_root sl) aliases shell c) (\<lambda>(index, c').
        arg_values hs active (n + 2) aliases shell slots (case index sl of None \<Rightarrow> out | Some values \<Rightarrow> add_unseen out (rev values)) c'))"

text \<open>What an idle engine lets go of.\<close>

definition release_derived_indexes :: "index_cache \<Rightarrow> index_cache" where
  "release_derived_indexes c = cache_default"

section \<open>The cache stays within its budget\<close>

definition cache_ok :: "index_memory \<Rightarrow> index_cache \<Rightarrow> bool" where
  "cache_ok mem c \<longleftrightarrow>
     distinct (map fst (ic_entries c)) \<and> distinct (ic_recent c) \<and> set (ic_recent c) = fst ` set (ic_entries c) \<and>
     ic_allocated_bytes c = sum_list (map (snd \<circ> snd) (ic_entries c)) \<and> length (ic_entries c) \<le> MAX_CACHED_INDEXES \<and>
     ic_allocated_bytes c + context_bytes mem c \<le> MAX_INDEX_BYTES"

lemma cache_default_ok: "cache_ok mem cache_default"
  by (simp add: cache_ok_def cache_default_def context_bytes_def MAX_INDEX_BYTES_def)

lemma select_context_ok: "cache_ok mem c \<Longrightarrow> cache_ok mem (select_context mem aliases shell c)"
  by (auto simp: select_context_def cache_default_ok Let_def) (simp add: cache_ok_def cache_default_def)

lemma select_context_cases: "matches_context aliases shell (select_context mem aliases shell c) \<or> select_context mem aliases shell c = cache_default"
  by (auto simp: select_context_def matches_context_def cache_default_def Let_def)

lemma set_delete: "set (AList.delete k es) = {e \<in> set es. fst e \<noteq> k}"
  by (auto simp: AList.delete_eq)

lemma sum_delete: "distinct (map fst es) \<Longrightarrow> map_of es k = Some v \<Longrightarrow> sum_list (map (f \<circ> snd) es) = f v + (sum_list (map (f \<circ> snd) (AList.delete k es)) :: nat)"
proof (induction es)
  case (Cons e es)
  then show ?case using delete_id [of k es] by (cases e) (auto simp: image_iff)
qed simp

lemma length_delete: "distinct (map fst es) \<Longrightarrow> map_of es k = Some v \<Longrightarrow> length es = Suc (length (AList.delete k es))"
proof (induction es)
  case (Cons e es)
  then show ?case using delete_id [of k es] by (cases e) (auto simp: image_iff)
qed simp

lemma index_lookup_shape:
  assumes "cache_ok mem c" "index_lookup name c = (r, c')"
  shows "r = map_option fst (map_of (ic_entries c) name)"
    "c' = c \<or> name \<in> set (ic_recent c) \<and> c' = c\<lparr>ic_recent := remove1 name (ic_recent c) @ [name]\<rparr>"
proof -
  have "name \<in> set (ic_recent c)" if "map_of (ic_entries c) name = Some v" for v
    using assms(1) map_of_SomeD [OF that] by (force simp: cache_ok_def)
  then show "r = map_option fst (map_of (ic_entries c) name)"
      "c' = c \<or> name \<in> set (ic_recent c) \<and> c' = c\<lparr>ic_recent := remove1 name (ic_recent c) @ [name]\<rparr>"
    using assms(2) by (auto simp: index_lookup_def touch_def split: option.splits)
qed

lemma index_lookup_ok:
  assumes "cache_ok mem c" "index_lookup name c = (r, c')"
  shows "cache_ok mem c'" "ic_entries c' = ic_entries c" "ic_aliases c' = ic_aliases c" "ic_shell c' = ic_shell c"
proof -
  have moved: "set (remove1 name (ic_recent c) @ [name]) = set (ic_recent c)" "distinct (remove1 name (ic_recent c) @ [name])"
    if "name \<in> set (ic_recent c)"
    using assms(1) that by (auto simp: cache_ok_def set_remove1_eq)
  then show "cache_ok mem c'" using index_lookup_shape(2) [OF assms] assms(1)
    by (elim disjE) (simp_all add: cache_ok_def context_bytes_def del: set_append distinct_append)
  show "ic_entries c' = ic_entries c" "ic_aliases c' = ic_aliases c" "ic_shell c' = ic_shell c"
    using index_lookup_shape(2) [OF assms] by auto
qed

declare evict_indexes.simps [simp del]

text \<open>What is kept while entries are removed: everything but the order and the limit on their number.\<close>

definition cache_core :: "str list \<Rightarrow> index_cache \<Rightarrow> bool" where
  "cache_core recent c \<longleftrightarrow>
     distinct (map fst (ic_entries c)) \<and> distinct recent \<and> set recent = fst ` set (ic_entries c) \<and>
     ic_allocated_bytes c = sum_list (map (snd \<circ> snd) (ic_entries c))"

lemma cache_remove_shape:
  fixes mem :: index_memory
  assumes "cache_core recent c"
  shows "cache_core (filter (\<lambda>x. x \<noteq> name) recent) (cache_remove name c)"
    "ic_entries (cache_remove name c) = AList.delete name (ic_entries c)"
    "ic_allocated_bytes (cache_remove name c) \<le> ic_allocated_bytes c" "context_bytes mem (cache_remove name c) = context_bytes mem c"
    "ic_aliases (cache_remove name c) = ic_aliases c" "ic_shell (cache_remove name c) = ic_shell c"
proof -
  have "ic_entries (cache_remove name c) = AList.delete name (ic_entries c) \<and>
      ic_allocated_bytes (cache_remove name c) = sum_list (map (snd \<circ> snd) (AList.delete name (ic_entries c)))"
  proof (cases "map_of (ic_entries c) name")
    case None
    moreover from None have "AList.delete name (ic_entries c) = ic_entries c" by (simp add: map_of_eq_None_iff)
    ultimately have "cache_remove name c = c" "AList.delete name (ic_entries c) = ic_entries c" by (simp_all add: cache_remove_def)
    then show ?thesis using assms by (simp add: cache_core_def)
  next
    case (Some v)
    then show ?thesis using assms sum_delete [of "ic_entries c" name v snd] by (cases v) (simp add: cache_remove_def cache_core_def)
  qed
  then show "ic_entries (cache_remove name c) = AList.delete name (ic_entries c)"
    "cache_core (filter (\<lambda>x. x \<noteq> name) recent) (cache_remove name c)"
    using assms by (auto simp: cache_core_def distinct_delete set_delete)
  show "ic_allocated_bytes (cache_remove name c) \<le> ic_allocated_bytes c" "context_bytes mem (cache_remove name c) = context_bytes mem c"
    "ic_aliases (cache_remove name c) = ic_aliases c" "ic_shell (cache_remove name c) = ic_shell c"
    by (auto simp: cache_remove_def context_bytes_def split: option.splits)
qed

lemma evict_indexes_room:
  assumes "cache_core recent c" "bytes \<le> MAX_INDEX_BYTES - context_bytes mem c"
  defines "c' \<equiv> evict_indexes mem bytes recent c"
  shows "cache_core (ic_recent c') c' \<and> length (ic_entries c') < MAX_CACHED_INDEXES \<and>
    ic_allocated_bytes c' + bytes \<le> MAX_INDEX_BYTES - context_bytes mem c' \<and> context_bytes mem c' = context_bytes mem c \<and>
    set (ic_entries c') \<subseteq> set (ic_entries c) \<and> ic_aliases c' = ic_aliases c \<and> ic_shell c' = ic_shell c \<and> set (ic_recent c') \<subseteq> set recent"
  unfolding c'_def using assms(1,2)
proof (induction recent arbitrary: c)
  case Nil
  then have "ic_entries c = []" "ic_allocated_bytes c = 0" by (auto simp: cache_core_def)
  with Nil show ?case by (simp add: evict_indexes.simps [of mem bytes "[]"] MAX_CACHED_INDEXES_def cache_core_def context_bytes_def)
next
  case (Cons old rest)
  have "filter (\<lambda>x. x \<noteq> old) (old # rest) = rest" using Cons.prems(1) by (auto simp: cache_core_def filter_id_conv)
  note removed = cache_remove_shape [OF Cons.prems(1), where name = old, unfolded this]
  show ?case
  proof (cases "length (ic_entries c) \<ge> MAX_CACHED_INDEXES \<or> ic_allocated_bytes c + bytes > MAX_INDEX_BYTES - context_bytes mem c")
    case True
    show ?thesis using True Cons.IH [OF removed(1)] Cons.prems(2) removed
      by (auto simp: evict_indexes.simps [of mem bytes "old # rest"] set_delete)
  next
    case False
    then show ?thesis using Cons.prems by (auto simp: evict_indexes.simps [of mem bytes "old # rest"] cache_core_def context_bytes_def)
  qed
qed

lemma cache_insert_ok:
  fixes name :: str and index :: slot_index
  assumes "cache_ok mem c"
  defines "c' \<equiv> cache_insert mem name index c"
  shows "cache_ok mem c'" "\<forall>e \<in> set (ic_entries c'). e = (name, (index, index_bytes mem name index)) \<or> e \<in> set (ic_entries c) \<and> fst e \<noteq> name"
    "ic_aliases c' = ic_aliases c" "ic_shell c' = ic_shell c"
proof -
  define c1 where "c1 = (cache_remove name c)\<lparr>ic_recent := filter (\<lambda>x. x \<noteq> name) (ic_recent (cache_remove name c))\<rparr>"
  have "cache_core (ic_recent c) c" using assms(1) by (simp add: cache_ok_def cache_core_def)
  note removed = cache_remove_shape [OF this, where name = name]
  have recent: "ic_recent (cache_remove name c) = ic_recent c" by (simp add: cache_remove_def split: option.split)
  have c1: "cache_core (ic_recent c1) c1" "ic_entries c1 = AList.delete name (ic_entries c)" "context_bytes mem c1 = context_bytes mem c"
    "ic_allocated_bytes c1 \<le> ic_allocated_bytes c" "ic_aliases c1 = ic_aliases c" "ic_shell c1 = ic_shell c"
    using removed by (simp_all add: c1_def recent cache_core_def context_bytes_def)
  let ?bytes = "index_bytes mem name index"
  have "cache_ok mem c' \<and> (\<forall>e \<in> set (ic_entries c'). e = (name, (index, ?bytes)) \<or> e \<in> set (ic_entries c) \<and> fst e \<noteq> name) \<and>
      ic_aliases c' = ic_aliases c \<and> ic_shell c' = ic_shell c"
  proof (cases "?bytes > MAX_INDEX_BYTES - context_bytes mem c1")
    case True
    then have c': "c' = c1" by (simp add: c'_def cache_insert_def c1_def [symmetric] Let_def)
    have "length (ic_entries c1) \<le> MAX_CACHED_INDEXES" using assms(1) length_delete_le [of name "ic_entries c"] by (simp add: c1 cache_ok_def)
    then show ?thesis using assms(1) c1 unfolding c' by (auto simp: cache_ok_def cache_core_def set_delete)
  next
    case False
    define c2 where "c2 = evict_indexes mem ?bytes (ic_recent c1) c1"
    have c2: "cache_core (ic_recent c2) c2" "length (ic_entries c2) < MAX_CACHED_INDEXES"
        "ic_allocated_bytes c2 + ?bytes \<le> MAX_INDEX_BYTES - context_bytes mem c2" "context_bytes mem c2 = context_bytes mem c1"
        "set (ic_entries c2) \<subseteq> set (ic_entries c1)" "ic_aliases c2 = ic_aliases c1" "ic_shell c2 = ic_shell c1"
      using evict_indexes_room [OF c1(1), of ?bytes mem] False by (auto simp: c2_def)
    have fresh: "name \<notin> fst ` set (ic_entries c2)" using c2(5) by (auto simp: c1(2) set_delete)
    have "MAX_INDEX_BYTES - context_bytes mem c2 + context_bytes mem c2 = MAX_INDEX_BYTES"
      using assms(1) by (simp add: cache_ok_def c2(4) c1(3))
    moreover have c': "c' = c2\<lparr>ic_recent := ic_recent c2 @ [name], ic_allocated_bytes := ic_allocated_bytes c2 + ?bytes,
        ic_entries := ic_entries c2 @ [(name, (index, ?bytes))]\<rparr>"
      using False by (simp add: c'_def cache_insert_def c1_def [symmetric] c2_def [symmetric] Let_def update_fresh [OF fresh])
    ultimately show ?thesis using c2 c1 fresh
      by (auto simp: cache_ok_def cache_core_def context_bytes_def set_delete)
  qed
  then show "cache_ok mem c'" "\<forall>e \<in> set (ic_entries c'). e = (name, (index, ?bytes)) \<or> e \<in> set (ic_entries c) \<and> fst e \<noteq> name"
    "ic_aliases c' = ic_aliases c" "ic_shell c' = ic_shell c" by auto
qed

section \<open>Every run of the store\<close>

text \<open>What is cached is what building it in the context of the cache gives.\<close>

definition cache_sound :: "history_store \<Rightarrow> index_cache \<Rightarrow> bool" where
  "cache_sound hs c \<longleftrightarrow> (\<forall>(name, index, _) \<in> set (ic_entries c). hs_build hs name (ic_aliases c) (ic_shell c) = Some index)"

text \<open>
  The locked sections of all requests, in any order: one request may select another context between the
  two sections of another one. Releasing drops everything.
\<close>

inductive store_run :: "history_store \<Rightarrow> index_cache \<Rightarrow> bool" for hs where
  store_default: "store_run hs cache_default"
| store_select: "store_run hs c \<Longrightarrow> store_run hs (snd (select_index (hs_memory hs) active name aliases shell c))"
| store_publish: "store_run hs c \<Longrightarrow> hs_build hs name aliases shell = Some built \<Longrightarrow>
    store_run hs (snd (publish_index (hs_memory hs) active name aliases shell built c))"
| store_release: "store_run hs c \<Longrightarrow> store_run hs (release_derived_indexes c)"

lemma select_sound: "cache_sound hs c \<Longrightarrow> cache_sound hs (select_context mem aliases shell c)"
  by (simp add: cache_sound_def select_context_def cache_default_def Let_def)

lemma lookup_sound:
  assumes "cache_ok mem c" "cache_sound hs c" "index_lookup name c = (r, c')"
  shows "cache_sound hs c'" "r = Some index \<Longrightarrow> hs_build hs name (ic_aliases c) (ic_shell c) = Some index"
proof -
  show "cache_sound hs c'" using assms(2) index_lookup_ok [OF assms(1,3)] by (simp add: cache_sound_def)
  show "hs_build hs name (ic_aliases c) (ic_shell c) = Some index" if "r = Some index"
    using that assms(2) index_lookup_shape(1) [OF assms(1,3)] by (auto simp: cache_sound_def dest!: map_of_SomeD)
qed

lemma publish_ok:
  assumes "cache_ok mem c" "cache_sound hs c" "hs_build hs name aliases shell = Some built"
    and "publish_index mem active name aliases shell built c = (r, c')"
  shows "cache_ok mem c' \<and> cache_sound hs c' \<and> (active \<longrightarrow> r = built)"
proof -
  obtain found c1 where look: "index_lookup name c = (found, c1)" by fastforce
  note kept = index_lookup_ok [OF assms(1) look] and sound = lookup_sound [OF assms(1,2) look]
  show ?thesis
  proof (cases "active \<and> matches_context aliases shell c")
    case True
    then have ctx: "ic_aliases c = aliases" "ic_shell c = shell" by (simp_all add: matches_context_def)
    show ?thesis
    proof (cases found)
      case None
      then have c': "c' = cache_insert mem name built c1" "r = built" using True assms(4) look by (auto simp: publish_index_def)
      note ins = cache_insert_ok [OF kept(1), of name built]
      have "cache_sound hs c'" using sound(1) ins(2) assms(3) kept(3,4) ctx
        unfolding cache_sound_def c'(1) ins(3,4) by fastforce
      then show ?thesis using c' ins(1) by simp
    next
      case (Some index)
      then show ?thesis using True assms(3,4) look kept(1) sound ctx by (simp add: publish_index_def)
    qed
  qed (use assms in \<open>auto simp: publish_index_def split: if_splits\<close>)
qed

lemma select_index_ok:
  assumes "cache_ok mem c" "cache_sound hs c" "select_index mem active name aliases shell c = (r, c')"
  shows "cache_ok mem c' \<and> cache_sound hs c' \<and> (r = Some (Some index) \<longrightarrow> hs_build hs name aliases shell = Some index)"
proof -
  let ?c = "select_context mem aliases shell c"
  obtain found c1 where look: "index_lookup name ?c = (found, c1)" by fastforce
  note ok = select_context_ok [OF assms(1), of aliases shell] and sound = select_sound [OF assms(2), of mem aliases shell]
  have "matches_context aliases shell ?c" if "found \<noteq> None"
    using select_context_cases [of aliases shell mem c] that look by (auto simp: index_lookup_def cache_default_def)
  then show ?thesis using assms index_lookup_ok(1) [OF ok look] lookup_sound [OF ok sound look] look
    by (cases active) (auto simp: select_index_def matches_context_def)
qed

lemma store_run_ok: "store_run hs c \<Longrightarrow> cache_ok (hs_memory hs) c \<and> cache_sound hs c"
proof (induction rule: store_run.induct)
  case (store_select c active name aliases shell)
  then show ?case by (metis prod.collapse select_index_ok)
next
  case (store_publish c name aliases shell built active)
  then show ?case by (metis prod.collapse publish_ok)
qed (simp_all add: release_derived_indexes_def cache_default_ok cache_sound_def, simp_all add: cache_default_def)

section \<open>Newest first, without repetition\<close>

lemma remdups_snoc: "remdups (xs @ [x]) = remdups (filter (\<lambda>y. y \<noteq> x) xs) @ [x]"
  by (induction xs) auto

lemma length_seen_flags [simp]: "length (seen_flags seen xs) = length xs"
  by (induction seen xs rule: seen_flags.induct) auto

lemma keep_last_seen: "map fst (filter snd (zip xs (rev (seen_flags seen (rev xs))))) = remdups (filter (\<lambda>x. x \<notin> seen) xs)"
proof (induction xs arbitrary: seen rule: rev_induct)
  case (snoc x xs)
  show ?case
  proof (cases "x \<in> seen")
    case True
    then show ?thesis using snoc.IH [of seen] by (simp add: insert_absorb)
  next
    case False
    have "filter (\<lambda>y. y \<notin> insert x seen) xs = filter (\<lambda>y. y \<noteq> x) (filter (\<lambda>y. y \<notin> seen) xs)" by (simp add: conj_commute)
    with False show ?thesis using snoc.IH [of "insert x seen"] by (simp add: remdups_snoc)
  qed
qed simp

lemma keep_last_remdups: "keep_last xs = remdups xs"
  using keep_last_seen [of xs "{}"] by (simp add: keep_last_def)

text \<open>The first occurrences.\<close>

definition firsts :: "'a list \<Rightarrow> 'a list" where
  "firsts xs = rev (remdups (rev xs))"

lemma remdups_remdups_append: "remdups (remdups xs @ ys) = remdups (xs @ ys)"
  by (induction xs) auto

lemma add_unseen_firsts: "distinct out \<Longrightarrow> add_unseen out xs = firsts (out @ xs)"
proof (induction out xs rule: add_unseen.induct)
  case (1 out)
  then show ?case by (simp add: firsts_def distinct_remdups_id)
next
  case (2 out v xs)
  have "remdups (rev xs @ v # rev out) = remdups (rev xs @ rev out)" if "v \<in> set out"
    using that remdups_append2 [of "rev xs" "v # rev out"] remdups_append2 [of "rev xs" "rev out"] by simp
  with 2 show ?case by (auto simp: firsts_def)
qed

lemma add_unseen_remdups: "distinct out \<Longrightarrow> add_unseen out (rev (remdups xs)) = firsts (out @ rev xs)"
  by (simp add: add_unseen_firsts firsts_def remdups_remdups_append)

lemma firsts_append: "firsts (firsts xs @ ys) = firsts (xs @ ys)" "distinct (firsts xs)"
  using remdups_append2 [of "rev ys" "rev xs"] by (simp_all add: firsts_def)

section \<open>What the history says\<close>

definition history_commands :: "str list \<Rightarrow> str list list" where
  "history_commands lines = concat (map (\<lambda>line. split_tokens is_command_separator (fst (tokenize line))) lines)"

text \<open>All values the history filled into a slot, oldest first; the argument holds the values of every command.\<close>

definition values_of :: "(arg_slot \<times> str) list \<Rightarrow> arg_slot \<Rightarrow> str list" where
  "values_of recorded sl = map snd (filter (\<lambda>(s, v). s = sl \<and> v \<noteq> []) recorded)"

definition recorded :: "walk_env \<Rightarrow> (str \<Rightarrow> spec option) \<Rightarrow> (str \<times> str) list option \<Rightarrow> str \<Rightarrow> str list \<Rightarrow> (arg_slot \<times> str) list option" where
  "recorded env get_arc aliases root_name lines =
     map_option concat (those (map (command_values env get_arc aliases root_name) (history_commands lines)))"

lemma file_values_append: "file_values root_name (xs @ ys) index = file_values root_name ys (file_values root_name xs index)"
  by (simp add: file_values_def)

lemma index_commands_those:
  "index_commands env get_arc al root_name commands index =
   map_option (\<lambda>vss. file_values root_name (concat vss) index) (those (map (command_values env get_arc al root_name) commands))"
proof (induction commands arbitrary: index)
  case (Cons command commands)
  then show ?case
    by (cases "command_values env get_arc al root_name command"; cases "those (map (command_values env get_arc al root_name) commands)")
      (simp_all add: file_values_append)
qed (simp add: file_values_def)

lemma those_append: "those (xs @ ys) = Option.bind (those xs) (\<lambda>a. map_option ((@) a) (those ys))"
proof (induction xs)
  case (Cons x xs)
  then show ?case by (cases x; cases "those xs"; cases "those ys") simp_all
qed (cases "those ys", simp_all)

lemma index_lines_recorded:
  "index_lines env get_arc al root_name (\<lambda>_. False) i lines index = map_option (\<lambda>vs. file_values root_name vs index) (recorded env get_arc al root_name lines)"
proof (induction lines arbitrary: i index)
  case (Cons line lines)
  let ?f = "command_values env get_arc al root_name"
  let ?first = "those (map ?f (split_tokens is_command_separator (fst (tokenize line))))" and ?rest = "those (map ?f (history_commands lines))"
  have "history_commands (line # lines) = split_tokens is_command_separator (fst (tokenize line)) @ history_commands lines"
    by (simp add: history_commands_def)
  with Cons show ?case
    by (cases ?first; cases ?rest) (simp_all add: recorded_def index_commands_those those_append file_values_append)
qed (simp add: recorded_def history_commands_def file_values_def)

lemma file_values_slot:
  "sl_root sl = root_name \<Longrightarrow> file_values root_name vs index sl =
     (if values_of vs sl = [] then index sl else Some (unwrap_or [] (index sl) @ values_of vs sl))"
proof (induction vs arbitrary: index)
  case (Cons v vs)
  obtain s x where v: "v = (s, x)" by fastforce
  have "file_values root_name (v # vs) index = file_values root_name vs (if sl_root s \<noteq> root_name \<or> x = [] then index else push_value s x index)"
    by (simp add: file_values_def v)
  with Cons show ?case by (auto simp: v values_of_def push_value_def unwrap_or_def split: option.splits)
qed (simp add: file_values_def values_of_def)

lemma build_index_slot:
  assumes "build_index env get_arc lines (\<lambda>_. False) root_name aliases shell = Some index"
    and "recorded env get_arc (map_option (\<lambda>raw. parse_alias_map raw shell) aliases) root_name lines = Some vs" "sl_root sl = root_name"
  shows "unwrap_or [] (index sl) = remdups (values_of vs sl)"
  using assms by (auto simp: build_index_def index_lines_recorded file_values_slot keep_last_remdups unwrap_or_def)

lemma index_for_exact:
  assumes "store_run hs c" "hs_build hs root_name aliases shell = Some built"
  shows "\<exists>c'. index_for hs True True root_name aliases shell c = Some (built, c') \<and> store_run hs c'"
proof -
  obtain r c1 where sel: "select_index (hs_memory hs) True root_name aliases shell c = (r, c1)" by fastforce
  have run1: "store_run hs c1" using store_select [OF assms(1), of True root_name aliases shell] sel by simp
  note ok = store_run_ok [OF assms(1)] and ok1 = store_run_ok [OF run1]
  obtain found where found: "r = Some found" using sel by (auto simp: select_index_def split: prod.splits)
  show ?thesis
  proof (cases found)
    case None
    obtain x c2 where pub: "publish_index (hs_memory hs) True root_name aliases shell built c1 = (x, c2)" by fastforce
    moreover have "store_run hs c2" using store_publish [OF run1 assms(2), of True] pub by simp
    ultimately show ?thesis using publish_ok [OF conjunct1 [OF ok1] conjunct2 [OF ok1] assms(2) pub] sel found None assms(2)
      by (simp add: index_for_def)
  next
    case (Some index)
    then show ?thesis using select_index_ok [OF conjunct1 [OF ok] conjunct2 [OF ok] sel] found assms(2) sel run1
      by (simp add: index_for_def)
  qed
qed

text \<open>
  The tokenizer isolates no operator: a semicolon written against the word before it stays a part of
  that word, and the line counts as one command.
\<close>

lemma glued_semicolon_is_kept:
  "history_commands [lit ''ls; tool -m y''] = [[lit ''ls;'', lit ''tool'', lit ''-m'', lit ''y'']] \<and>
   history_commands [lit ''ls ; tool -m y''] = [[lit ''ls''], [lit ''tool'', lit ''-m'', lit ''y'']]"
  by code_simp

text \<open>
  Property C17. The values offered for an argument are those of the history, whatever the cache holds: after
  any sequence of requests under any aliases and shells, a request that stays active gets, for the slots
  it asks for in turn, every value the history commands filled into the slot, newest first and each
  once; values come from a fresh walk of the history and from the cache alike.
\<close>

theorem history_values_exact:
  assumes "store_run hs c" and "hs_build hs = build_index env get_arc lines (\<lambda>_. False)"
    and "\<And>sl. sl \<in> set slots \<Longrightarrow>
      recorded env get_arc (map_option (\<lambda>raw. parse_alias_map raw shell) aliases) (sl_root sl) lines = Some (vs (sl_root sl))"
  shows "\<exists>c'. arg_values hs (\<lambda>_. True) n aliases shell slots [] c =
      Some (firsts (concat (map (\<lambda>sl. rev (values_of (vs (sl_root sl)) sl)) (filter (\<lambda>sl. sl_root sl \<noteq> []) slots))), c') \<and> store_run hs c'"
proof -
  have "\<exists>c'. arg_values hs (\<lambda>_. True) n aliases shell slots (firsts out) c =
      Some (firsts (out @ concat (map (\<lambda>sl. rev (values_of (vs (sl_root sl)) sl)) (filter (\<lambda>sl. sl_root sl \<noteq> []) slots))), c') \<and> store_run hs c'"
    for out using assms(1,3)
  proof (induction slots arbitrary: out c n)
    case (Cons sl slots)
    show ?case
    proof (cases "sl_root sl = []")
      case True
      then show ?thesis using Cons.IH [OF Cons.prems(1)] Cons.prems(2) by simp
    next
      case False
      have "recorded env get_arc (map_option (\<lambda>raw. parse_alias_map raw shell) aliases) (sl_root sl) lines = Some (vs (sl_root sl))"
        using Cons.prems(2) by simp
      then obtain built where built: "hs_build hs (sl_root sl) aliases shell = Some built"
          "unwrap_or [] (built sl) = remdups (values_of (vs (sl_root sl)) sl)"
        using build_index_slot [of env get_arc lines "sl_root sl" aliases shell _ "vs (sl_root sl)" sl]
        by (auto simp: assms(2) build_index_def index_lines_recorded)
      obtain c1 where c1: "index_for hs True True (sl_root sl) aliases shell c = Some (built, c1)" "store_run hs c1"
        using index_for_exact [OF Cons.prems(1) built(1)] by blast
      have "(case built sl of None \<Rightarrow> firsts out | Some values \<Rightarrow> add_unseen (firsts out) (rev values)) =
          firsts (out @ rev (values_of (vs (sl_root sl)) sl))"
        using built(2) add_unseen_remdups [OF firsts_append(2), of out "values_of (vs (sl_root sl)) sl"]
          add_unseen_firsts [OF firsts_append(2), of out "[]"]
        by (cases "built sl") (auto simp: unwrap_or_def firsts_append(1))
      then show ?thesis using Cons.IH [OF c1(2), where out = "out @ rev (values_of (vs (sl_root sl)) sl)" and n = "n + 2"] Cons.prems(2) c1(1) False
        by simp
    qed
  qed (simp add: firsts_def)
  from this [of "[]"] show ?thesis by (simp add: firsts_def)
qed

theorem history_values_exact_witness:
  "let spec = sample_spec [sample_option [''-m''] [sample_arg ''msg'']] [sample_arg ''a''];
       lines = [lit ''tool -m x'', lit ''ls && tool -m y'', lit ''tool -m x''];
       hs = \<lparr>hs_build = build_index quiet_env (\<lambda>_. Some spec) lines (\<lambda>_. False),
             hs_memory = \<lparr>im_capacity = length, im_slot_index_bytes = (\<lambda>_. 0), im_size_of_string = 24, im_size_of_entry = 80\<rparr>\<rparr>
   in \<exists>c. arg_values hs (\<lambda>_. True) 0 None None [\<lparr>sl_root = lit ''tool'', sl_path = [], sl_option = Some (lit ''-m''), sl_index = 0\<rparr>] [] cache_default =
        Some ([lit ''x'', lit ''y''], c)"
proof -
  let ?spec = "sample_spec [sample_option [''-m''] [sample_arg ''msg'']] [sample_arg ''a'']"
  let ?lines = "[lit ''tool -m x'', lit ''ls && tool -m y'', lit ''tool -m x'']"
  let ?slot = "\<lparr>sl_root = lit ''tool'', sl_path = [], sl_option = Some (lit ''-m''), sl_index = 0\<rparr>"
  let ?vs = "[(?slot, lit ''x''), (?slot, lit ''y''), (?slot, lit ''x'')]"
  let ?mem = "\<lparr>im_capacity = length, im_slot_index_bytes = (\<lambda>_. 0), im_size_of_string = 24, im_size_of_entry = 80\<rparr>"
  have walked: "recorded quiet_env (\<lambda>_. Some ?spec) None (lit ''tool'') ?lines = Some ?vs" by code_simp
  have answer: "firsts (rev (values_of ?vs ?slot)) = [lit ''x'', lit ''y'']" by code_simp
  have named: "lit ''tool'' \<noteq> []" by code_simp
  show ?thesis unfolding Let_def
    using history_values_exact [OF store_default, where hs = "\<lparr>hs_build = build_index quiet_env (\<lambda>_. Some ?spec) ?lines (\<lambda>_. False), hs_memory = ?mem\<rparr>"
        and env = quiet_env and get_arc = "\<lambda>_. Some ?spec" and lines = ?lines and slots = "[?slot]" and aliases = None and shell = None
        and vs = "\<lambda>_. ?vs" and n = 0] walked answer named
    by auto
qed

text \<open>
  Property C18. The cache of history indexes stays bounded and right under every interleaving: it holds at
  most 32 indexes within 4 MiB together with the text of the context, the bytes it counts are those of
  its entries, and each index is the one its command's build gives under the aliases and the shell the
  cache is for, also when another request changed them while the index was being built.
\<close>

theorem history_cache_bounded:
  assumes "store_run hs c"
  shows "length (ic_entries c) \<le> 32 \<and> ic_allocated_bytes c + context_bytes (hs_memory hs) c \<le> 4 * 1024 * 1024 \<and>
    ic_allocated_bytes c = sum_list (map (snd \<circ> snd) (ic_entries c)) \<and> distinct (map fst (ic_entries c)) \<and>
    (\<forall>(name, index, _) \<in> set (ic_entries c). hs_build hs name (ic_aliases c) (ic_shell c) = Some index)"
  using store_run_ok [OF assms] by (simp add: cache_ok_def cache_sound_def MAX_CACHED_INDEXES_def MAX_INDEX_BYTES_def)

theorem history_cache_bounded_witness:
  "let hs = \<lparr>hs_build = (\<lambda>_ _ _. Some Map.empty),
             hs_memory = \<lparr>im_capacity = length, im_slot_index_bytes = (\<lambda>_. 0), im_size_of_string = 24, im_size_of_entry = 80\<rparr>\<rparr>;
       c = snd (publish_index (hs_memory hs) True (lit ''git'') None None Map.empty cache_default)
   in map fst (ic_entries c) = [lit ''git''] \<and> ic_allocated_bytes c = 134 \<and> ic_allocated_bytes c + context_bytes (hs_memory hs) c \<le> 4 * 1024 * 1024"
proof -
  let ?hs = "\<lparr>hs_build = (\<lambda>_ _ _. Some Map.empty),
      hs_memory = \<lparr>im_capacity = length, im_slot_index_bytes = (\<lambda>_. 0), im_size_of_string = 24, im_size_of_entry = 80\<rparr>\<rparr>"
  let ?c = "snd (publish_index (hs_memory ?hs) True (lit ''git'') None None Map.empty cache_default)"
  have "store_run ?hs ?c" by (rule store_publish [OF store_default]) simp
  note bounded = history_cache_bounded [OF this]
  have "map fst (ic_entries ?c) = [lit ''git''] \<and> ic_allocated_bytes ?c = 134"
    by (simp add: publish_index_def matches_context_def cache_default_def index_lookup_def cache_insert_def cache_remove_def context_bytes_def
        index_bytes_def MAX_INDEX_BYTES_def MAX_CACHED_INDEXES_def evict_indexes.simps [of _ _ "[]"] Let_def)
  then show ?thesis using bounded by (simp add: Let_def)
qed

end
