(* ===== verification/Engine_Idle.thy ===== *)
theory Engine_Idle
  imports Registry History_Index
begin

text \<open>
  What an idle engine holds and when it lets go of it (\<open>runtime.rs\<close> 357--690 and 743--795): the registry of
  specs, the hook results, the catalog of native hooks and the history indexes belong to the current
  input; once it has ended, each of them has a clock, and what has been idle for the grace period is
  released. What the attempt of a request did to them, and every reading of the clock, are inputs.
\<close>

section \<open>The engine's resources\<close>

record hook_cache =
  hc_suggestion_cache :: "(suggestion list cache_entry) cache_map"
  hc_script_output_cache :: "(str cache_entry) cache_map"
  hc_spec_cache :: "spec cache_map"

definition hook_cache_new :: hook_cache where
  "hook_cache_new = \<lparr>hc_suggestion_cache = cache_map_default, hc_script_output_cache = cache_map_default, hc_spec_cache = cache_map_default\<rparr>"

definition hook_cache_clear :: "hook_cache \<Rightarrow> hook_cache" where
  "hook_cache_clear hc = \<lparr>hc_suggestion_cache = cm_clear (hc_suggestion_cache hc), hc_script_output_cache = cm_clear (hc_script_output_cache hc),
     hc_spec_cache = cm_clear (hc_spec_cache hc)\<rparr>"

definition hook_cache_is_empty :: "hook_cache \<Rightarrow> bool" where
  "hook_cache_is_empty hc \<longleftrightarrow> cm_entries (hc_suggestion_cache hc) = [] \<and> cm_entries (hc_script_output_cache hc) = [] \<and> cm_entries (hc_spec_cache hc) = []"

text \<open>
  \<open>'n\<close> is the catalog of native hooks and \<open>'g\<close> the generator session. The lines a history store indexes
  are known by their address; a default store has lines of its own.
\<close>

record ('n, 'g) engine =
  en_registry :: registry
  en_native :: "'n option"
  en_hook_cache :: hook_cache
  en_history :: index_cache
  en_history_lines :: "nat option"
  en_generator_session :: 'g
  en_hook_cache_active :: bool
  en_hook_cache_idle_since :: "nat option"
  en_native_idle_since :: "nat option"
  en_history_index_idle_since :: "nat option"

definition from_registry :: "nat \<Rightarrow> 'n \<Rightarrow> 'g \<Rightarrow> registry \<Rightarrow> ('n, 'g) engine" where
  "from_registry now native session reg =
     \<lparr>en_registry = reg, en_native = Some native, en_hook_cache = hook_cache_new, en_history = cache_default, en_history_lines = None,
      en_generator_session = session, en_hook_cache_active = False, en_hook_cache_idle_since = None, en_native_idle_since = Some now,
      en_history_index_idle_since = None\<rparr>"

section \<open>Starting the clocks\<close>

definition note_idle_hook_cache :: "bool \<Rightarrow> nat \<Rightarrow> ('n, 'g) engine \<Rightarrow> ('n, 'g) engine" where
  "note_idle_hook_cache was_empty now e =
     (if \<not> en_hook_cache_active e \<and> \<not> hook_cache_is_empty (en_hook_cache e) \<and> (was_empty \<or> en_hook_cache_idle_since e = None)
      then e\<lparr>en_hook_cache_idle_since := Some now\<rparr> else e)"

definition note_idle_native :: "nat \<Rightarrow> ('n, 'g) engine \<Rightarrow> ('n, 'g) engine" where
  "note_idle_native now e =
     (if \<not> en_hook_cache_active e \<and> en_native e \<noteq> None \<and> en_native_idle_since e = None
      then e\<lparr>en_native_idle_since := Some now\<rparr> else e)"

definition note_idle_history_indexes :: "bool \<Rightarrow> nat \<Rightarrow> ('n, 'g) engine \<Rightarrow> ('n, 'g) engine" where
  "note_idle_history_indexes was_empty now e =
     (if \<not> en_hook_cache_active e \<and> has_derived_payload (en_history e) \<and> (was_empty \<or> en_history_index_idle_since e = None)
      then e\<lparr>en_history_index_idle_since := Some now\<rparr> else e)"

definition rebind_hosts :: "nat \<Rightarrow> 'n \<Rightarrow> ('n, 'g) engine \<Rightarrow> ('n, 'g) engine" where
  "rebind_hosts now native e =
     (let e' = note_idle_native now (e\<lparr>en_native := Some native\<rparr>) in e'\<lparr>en_hook_cache := hook_cache_clear (en_hook_cache e')\<rparr>)"

definition engine_end_input :: "'g \<Rightarrow> nat \<Rightarrow> ('n, 'g) engine \<Rightarrow> ('n, 'g) engine" where
  "engine_end_input session now e =
     (let e1 = e\<lparr>en_generator_session := session, en_hook_cache_active := False\<rparr>;
          e2 = note_idle_history_indexes False now (note_idle_native now (note_idle_hook_cache False now e1))
      in e2\<lparr>en_registry := note_idle_after_complete now (begin_idle_completion (en_registry e2))\<rparr>)"

section \<open>Releasing\<close>

definition idle_for :: "nat \<Rightarrow> nat \<Rightarrow> nat option \<Rightarrow> bool" where
  "idle_for now grace since \<longleftrightarrow> (case since of Some t \<Rightarrow> now - t \<ge> grace | None \<Rightarrow> False)"

definition release_idle_history :: "nat \<Rightarrow> nat \<Rightarrow> ('n, 'g) engine \<Rightarrow> ('n, 'g) engine" where
  "release_idle_history now grace e =
     (if \<not> en_hook_cache_active e \<and> idle_for now grace (en_history_index_idle_since e)
      then e\<lparr>en_history := release_derived_indexes (en_history e), en_history_index_idle_since := None\<rparr> else e)"

definition release_idle_hooks :: "nat \<Rightarrow> nat \<Rightarrow> ('n, 'g) engine \<Rightarrow> ('n, 'g) engine" where
  "release_idle_hooks now grace e =
     (if \<not> en_hook_cache_active e \<and> idle_for now grace (en_hook_cache_idle_since e)
      then e\<lparr>en_hook_cache := hook_cache_clear (en_hook_cache e), en_hook_cache_idle_since := None\<rparr> else e)"

definition release_idle_native :: "nat \<Rightarrow> nat \<Rightarrow> ('n, 'g) engine \<Rightarrow> ('n, 'g) engine" where
  "release_idle_native now grace e =
     (if \<not> en_hook_cache_active e \<and> idle_for now grace (en_native_idle_since e)
      then e\<lparr>en_native := None, en_native_idle_since := None\<rparr> else e)"

definition release_idle_specs :: "nat \<Rightarrow> nat \<Rightarrow> ('n, 'g) engine \<Rightarrow> ('n, 'g) engine" where
  "release_idle_specs now grace e =
     release_idle_native now grace (release_idle_hooks now grace (release_idle_history now grace
       (e\<lparr>en_registry := release_idle now grace (en_registry e)\<rparr>)))"

definition hook_deadline :: "nat \<Rightarrow> ('n, 'g) engine \<Rightarrow> nat option" where
  "hook_deadline grace e =
     (if \<not> en_hook_cache_active e \<and> \<not> hook_cache_is_empty (en_hook_cache e) then map_option (\<lambda>t. t + grace) (en_hook_cache_idle_since e) else None)"

definition native_deadline :: "nat \<Rightarrow> ('n, 'g) engine \<Rightarrow> nat option" where
  "native_deadline grace e =
     (if \<not> en_hook_cache_active e \<and> en_native e \<noteq> None then map_option (\<lambda>t. t + grace) (en_native_idle_since e) else None)"

definition history_deadline :: "nat \<Rightarrow> ('n, 'g) engine \<Rightarrow> nat option" where
  "history_deadline grace e =
     (if \<not> en_hook_cache_active e \<and> has_derived_payload (en_history e) then map_option (\<lambda>t. t + grace) (en_history_index_idle_since e) else None)"

definition earliest :: "nat option list \<Rightarrow> nat option" where
  "earliest deadlines = (case filter_map (\<lambda>d. d) deadlines of [] \<Rightarrow> None | t # ts \<Rightarrow> Some (fold min ts t))"

definition engine_idle_deadline :: "nat \<Rightarrow> ('n, 'g) engine \<Rightarrow> nat option" where
  "engine_idle_deadline grace e =
     earliest [next_idle_deadline grace (en_registry e), hook_deadline grace e, native_deadline grace e, history_deadline grace e]"

section \<open>Requests and new generations of specs\<close>

text \<open>\<open>reloaded\<close> is what opening the specs directory again gives: the registry and the hosts bound to it.\<close>

definition clear_caches_and_report :: "'g \<Rightarrow> nat \<Rightarrow> nat \<Rightarrow> (registry \<times> 'n) option \<Rightarrow> ('n, 'g) engine \<Rightarrow> bool \<times> ('n, 'g) engine" where
  "clear_caches_and_report session now1 now2 reloaded e0 =
     (let e = e0\<lparr>en_hook_cache := hook_cache_clear (en_hook_cache e0), en_hook_cache_idle_since := None, en_generator_session := session,
                 en_history := cache_default, en_history_lines := None, en_history_index_idle_since := None\<rparr>
      in case reloaded of
        None \<Rightarrow> (False, e)
      | Some (reg, native) \<Rightarrow>
          (True, note_idle_native now2 ((rebind_hosts now1 native e)\<lparr>en_registry := reg, en_hook_cache_active := False, en_native_idle_since := None\<rparr>)))"

definition refresh_specs_generation :: "'g \<Rightarrow> nat \<Rightarrow> bool \<Rightarrow> (registry \<times> 'n) option \<Rightarrow> ('n, 'g) engine \<Rightarrow> ('n, 'g) engine" where
  "refresh_specs_generation session now needs_refresh reloaded e =
     (if \<not> needs_refresh then e
      else case reloaded of
        None \<Rightarrow> e
      | Some (reg, native) \<Rightarrow>
          (rebind_hosts now native e)\<lparr>en_registry := reg, en_generator_session := session, en_history := cache_default, en_history_lines := None,
            en_history_index_idle_since := None\<rparr>)"

text \<open>
  What a request meets and does: whether the checks see it cancelled, the new generation of specs, the
  lookups in the registry, what happens to the hook results and to the history indexes, and whether
  finishing still finds the request active. \<open>at_clock\<close> gives the readings of the clock in turn.
\<close>

record ('n, 'g) engine_attempt =
  at_clock :: "nat \<Rightarrow> nat"
  at_cancelled_first :: bool
  at_cancelled_second :: bool
  at_cancelled_loading :: bool
  at_needs_refresh :: bool
  at_reloaded :: "(registry \<times> 'n) option"
  at_history_only :: bool
  at_lines :: nat
  at_native :: 'n
  at_load :: "path \<Rightarrow> spec option"
  at_lookups :: "registry_op list"
  at_hooks :: "hook_cache \<Rightarrow> hook_cache"
  at_indexes :: "index_cache \<Rightarrow> index_cache"
  at_session :: 'g
  at_ok :: bool
  at_finished :: bool

text \<open>The effect of \<open>complete_with_thread_session\<close> on the resources, and whether it gives a result.\<close>

definition run_attempt :: "('n, 'g) engine_attempt \<Rightarrow> ('n, 'g) engine \<Rightarrow> bool \<times> ('n, 'g) engine" where
  "run_attempt a e0 =
     (let e = e0\<lparr>en_registry := begin_idle_completion (en_registry e0)\<rparr>
      in if at_cancelled_loading a then (False, e)
         else
           let e = (if en_history_lines e = Some (at_lines a) then e
                    else e\<lparr>en_history := cache_default, en_history_lines := Some (at_lines a), en_history_index_idle_since := None\<rparr>);
               walked = fold (registry_apply (at_load a)) (at_lookups a) (en_registry e)
           in if at_history_only a then (True, e\<lparr>en_registry := walked\<rparr>)
              else (at_ok a, e\<lparr>en_native := Some (unwrap_or (at_native a) (en_native e)), en_registry := walked,
                     en_hook_cache := at_hooks a (en_hook_cache e), en_history := at_indexes a (en_history e)\<rparr>))"

definition settle_idle :: "('n, 'g) engine_attempt \<Rightarrow> bool \<Rightarrow> bool \<Rightarrow> idle_checkpoint \<Rightarrow> ('n, 'g) engine \<Rightarrow> ('n, 'g) engine" where
  "settle_idle a hook_cache_was_empty history_indexes_were_empty idle e0 =
     (let e = note_idle_history_indexes history_indexes_were_empty (at_clock a 3)
                (note_idle_native (at_clock a 2) (note_idle_hook_cache hook_cache_was_empty (at_clock a 1) e0))
      in e\<lparr>en_registry := restore_idle_checkpoint idle (at_clock a 4) (en_registry e)\<rparr>)"

text \<open>\<open>Engine::complete\<close>: the result tells whether a row list was published.\<close>

definition engine_complete :: "'g \<Rightarrow> ('n, 'g) engine_attempt \<Rightarrow> ('n, 'g) engine \<Rightarrow> bool \<times> ('n, 'g) engine" where
  "engine_complete fresh_session a e =
     (if at_cancelled_first a then (False, e)
      else
        let e = refresh_specs_generation fresh_session (at_clock a 0) (at_needs_refresh a) (at_reloaded a) e
        in if at_cancelled_second a then (False, e)
           else
             let idle = checkpoint_idle (en_registry e);
                 hook_cache_was_empty = hook_cache_is_empty (en_hook_cache e);
                 history_indexes_were_empty = (\<not> has_derived_payload (en_history e));
                 (ok, e) = run_attempt a (e\<lparr>en_generator_session := fresh_session\<rparr>)
             in if \<not> at_finished a then (False, settle_idle a hook_cache_was_empty history_indexes_were_empty idle e)
                else
                  let e = e\<lparr>en_generator_session := at_session a\<rparr>
                  in if ok \<and> \<not> at_history_only a
                     then (True, e\<lparr>en_hook_cache_active := True, en_hook_cache_idle_since := None, en_native_idle_since := None,
                            en_history_index_idle_since := None, en_registry := note_idle_after_complete (at_clock a 1) (en_registry e)\<rparr>)
                     else (ok, settle_idle a hook_cache_was_empty history_indexes_were_empty idle e))"

section \<open>One idle resource\<close>

text \<open>The clock of a resource is not ahead, and it runs while nobody owns the resource.\<close>

definition clock_running :: "bool \<Rightarrow> bool \<Rightarrow> nat option \<Rightarrow> nat \<Rightarrow> bool" where
  "clock_running active held since now \<longleftrightarrow> (\<forall>t. since = Some t \<longrightarrow> t \<le> now) \<and> (\<not> active \<longrightarrow> held \<longrightarrow> since \<noteq> None)"

locale idle_resource =
  fixes active :: "'e \<Rightarrow> bool" and held :: "'e \<Rightarrow> bool" and since :: "'e \<Rightarrow> nat option"
    and note_idle :: "bool \<Rightarrow> nat \<Rightarrow> 'e \<Rightarrow> 'e" and release :: "nat \<Rightarrow> nat \<Rightarrow> 'e \<Rightarrow> 'e" and deadline :: "nat \<Rightarrow> 'e \<Rightarrow> nat option"
  assumes note_since: "since (note_idle was_empty now e) = since e \<or> since (note_idle was_empty now e) = Some now"
    and note_starts: "\<not> active e \<Longrightarrow> held e \<Longrightarrow> since (note_idle was_empty now e) \<noteq> None"
    and release_held: "held (release now grace e) \<longleftrightarrow> held e \<and> (active e \<or> \<not> idle_for now grace (since e))"
    and release_since: "since (release now grace e) = (if \<not> active e \<and> idle_for now grace (since e) then None else since e)"
    and deadline_is: "deadline grace e = (if \<not> active e \<and> held e then map_option (\<lambda>t. t + grace) (since e) else None)"
begin

lemma note_running:
  assumes "\<And>t. since e = Some t \<Longrightarrow> t \<le> now"
  shows "clock_running (active e) (held e) (since (note_idle was_empty now e)) now"
  using assms note_since [of was_empty now e] note_starts [of e was_empty now] by (auto simp: clock_running_def)

lemma release_running:
  "clock_running (active e) (held e) (since e) now \<Longrightarrow>
   clock_running (active e) (held (release now' grace e)) (since (release now' grace e)) now"
  by (auto simp: clock_running_def release_held release_since)

lemma drained: "clock_running (active e) (held e) (since e) now \<Longrightarrow> \<not> active e \<Longrightarrow> now + grace \<le> now' \<Longrightarrow> \<not> held (release now' grace e)"
  by (fastforce simp: clock_running_def release_held idle_for_def split: option.splits)

lemma deadline_future: "active (release now grace e) = active e \<Longrightarrow> deadline grace (release now grace e) = Some d \<Longrightarrow> now < d"
  by (auto simp: deadline_is release_held release_since idle_for_def split: if_splits)

lemma deadline_known:
  "clock_running (active e) (held e) (since e) now \<Longrightarrow> \<not> active e \<Longrightarrow> held e \<Longrightarrow> \<exists>d \<le> now + grace. deadline grace e = Some d"
  by (auto simp: clock_running_def deadline_is)

end

lemma hook_cache_clear_empty [simp]: "hook_cache_is_empty (hook_cache_clear hc)" "hook_cache_is_empty hook_cache_new"
  by (simp_all add: hook_cache_is_empty_def hook_cache_clear_def hook_cache_new_def cm_clear_def cache_map_default_def)

lemma release_derived_empty [simp]: "\<not> has_derived_payload (release_derived_indexes c)" "\<not> has_derived_payload cache_default"
  by (simp_all add: has_derived_payload_def release_derived_indexes_def cache_default_def)

interpretation hooks: idle_resource en_hook_cache_active "\<lambda>e. \<not> hook_cache_is_empty (en_hook_cache e)" en_hook_cache_idle_since
  note_idle_hook_cache release_idle_hooks hook_deadline
  by unfold_locales (auto simp: note_idle_hook_cache_def release_idle_hooks_def hook_deadline_def)

interpretation native: idle_resource en_hook_cache_active "\<lambda>e. en_native e \<noteq> None" en_native_idle_since
  "\<lambda>_. note_idle_native" release_idle_native native_deadline
  by unfold_locales (auto simp: note_idle_native_def release_idle_native_def native_deadline_def)

interpretation indexes: idle_resource en_hook_cache_active "\<lambda>e. has_derived_payload (en_history e)" en_history_index_idle_since
  note_idle_history_indexes release_idle_history history_deadline
  by unfold_locales (auto simp: note_idle_history_indexes_def release_idle_history_def history_deadline_def)

text \<open>Each operation leaves the other resources alone.\<close>

lemma note_frame [simp]:
  "en_registry (note_idle_hook_cache b now e) = en_registry e" "en_native (note_idle_hook_cache b now e) = en_native e"
  "en_hook_cache (note_idle_hook_cache b now e) = en_hook_cache e" "en_history (note_idle_hook_cache b now e) = en_history e"
  "en_hook_cache_active (note_idle_hook_cache b now e) = en_hook_cache_active e"
  "en_native_idle_since (note_idle_hook_cache b now e) = en_native_idle_since e"
  "en_history_index_idle_since (note_idle_hook_cache b now e) = en_history_index_idle_since e"
  "en_registry (note_idle_native now e) = en_registry e" "en_native (note_idle_native now e) = en_native e"
  "en_hook_cache (note_idle_native now e) = en_hook_cache e" "en_history (note_idle_native now e) = en_history e"
  "en_hook_cache_active (note_idle_native now e) = en_hook_cache_active e"
  "en_hook_cache_idle_since (note_idle_native now e) = en_hook_cache_idle_since e"
  "en_history_index_idle_since (note_idle_native now e) = en_history_index_idle_since e"
  "en_registry (note_idle_history_indexes b now e) = en_registry e" "en_native (note_idle_history_indexes b now e) = en_native e"
  "en_hook_cache (note_idle_history_indexes b now e) = en_hook_cache e" "en_history (note_idle_history_indexes b now e) = en_history e"
  "en_hook_cache_active (note_idle_history_indexes b now e) = en_hook_cache_active e"
  "en_hook_cache_idle_since (note_idle_history_indexes b now e) = en_hook_cache_idle_since e"
  "en_native_idle_since (note_idle_history_indexes b now e) = en_native_idle_since e"
  by (simp_all add: note_idle_hook_cache_def note_idle_native_def note_idle_history_indexes_def)

lemma release_frame [simp]:
  "en_registry (release_idle_hooks now g e) = en_registry e" "en_native (release_idle_hooks now g e) = en_native e"
  "en_history (release_idle_hooks now g e) = en_history e" "en_hook_cache_active (release_idle_hooks now g e) = en_hook_cache_active e"
  "en_native_idle_since (release_idle_hooks now g e) = en_native_idle_since e"
  "en_history_index_idle_since (release_idle_hooks now g e) = en_history_index_idle_since e"
  "en_registry (release_idle_native now g e) = en_registry e" "en_hook_cache (release_idle_native now g e) = en_hook_cache e"
  "en_history (release_idle_native now g e) = en_history e" "en_hook_cache_active (release_idle_native now g e) = en_hook_cache_active e"
  "en_hook_cache_idle_since (release_idle_native now g e) = en_hook_cache_idle_since e"
  "en_history_index_idle_since (release_idle_native now g e) = en_history_index_idle_since e"
  "en_registry (release_idle_history now g e) = en_registry e" "en_native (release_idle_history now g e) = en_native e"
  "en_hook_cache (release_idle_history now g e) = en_hook_cache e" "en_hook_cache_active (release_idle_history now g e) = en_hook_cache_active e"
  "en_hook_cache_idle_since (release_idle_history now g e) = en_hook_cache_idle_since e"
  "en_native_idle_since (release_idle_history now g e) = en_native_idle_since e"
  by (simp_all add: release_idle_hooks_def release_idle_native_def release_idle_history_def)

section \<open>The clocks of the registry\<close>

definition marks_past :: "nat \<Rightarrow> (path \<times> nat option) list \<Rightarrow> bool" where
  "marks_past now marks \<longleftrightarrow> (\<forall>path t. (path, Some t) \<in> set marks \<longrightarrow> t \<le> now)"

abbreviation reg_past :: "nat \<Rightarrow> registry \<Rightarrow> bool" where
  "reg_past now reg \<equiv> marks_past now (rg_idle_since reg)"

definition reg_clocked :: "registry \<Rightarrow> bool" where
  "reg_clocked reg \<longleftrightarrow> (\<forall>path. releasable_arcs_for_path reg path \<noteq> [] \<longrightarrow> (\<exists>t. map_of (rg_idle_since reg) path = Some (Some t)))"

lemma releasable_owned: "releasable_arcs_for_path reg path \<noteq> [] \<Longrightarrow> path \<in> set (owned_paths reg)"
proof -
  assume "releasable_arcs_for_path reg path \<noteq> []"
  then obtain arc where "arc \<in> set (releasable_arcs_for_path reg path)" by (meson last_in_set)
  then consider "map_of (rg_load_spec_cache reg) path = Some arc" | "map_of (rg_path_specs reg) path = Some arc"
    | name where "(name, arc) \<in> set (rg_specs reg)" "map_of (rg_files reg) name = Some path"
    unfolding releasable_arcs_for_path_def set_filter set_append set_filter_map by (auto split: option.splits if_splits)
  then show ?thesis unfolding owned_paths_def set_remdups set_append set_filter_map set_map
  proof cases
    case 3
    then have "\<exists>x \<in> set (rg_specs reg). (case x of (name, _) \<Rightarrow> map_of (rg_files reg) name) = Some path" by (intro bexI [of _ "(name, arc)"]) auto
    then show "path \<in> fst ` set (rg_load_spec_cache reg) \<union> (fst ` set (rg_path_specs reg) \<union>
        {y. \<exists>x \<in> set (rg_specs reg). (case x of (name, _) \<Rightarrow> map_of (rg_files reg) name) = Some y})" by blast
  qed (auto dest!: map_of_SomeD intro: rev_image_eqI)
qed

lemma cached_iff [simp]: "path \<in> set (cached_file_paths reg) \<longleftrightarrow> releasable_arcs_for_path reg path \<noteq> []"
  using releasable_owned by (auto simp: cached_file_paths_def)

lemma releasable_clock [simp]:
  "releasable_arcs_for_path (reg\<lparr>rg_idle_since := marks\<rparr>) path = releasable_arcs_for_path reg path"
  "releasable_arcs_for_path (reg\<lparr>rg_idle_touched := touched\<rparr>) path = releasable_arcs_for_path reg path"
  "releasable_arcs_for_path (forget_unowned_idle_paths reg) path = releasable_arcs_for_path reg path"
  "releasable_arcs_for_path (begin_idle_completion reg) path = releasable_arcs_for_path reg path"
  by (simp_all add: releasable_arcs_for_path_def is_pinned_def forget_unowned_idle_paths_def begin_idle_completion_def)

lemma marks_past_update: "marks_past now marks \<Longrightarrow> (\<And>t. v = Some t \<Longrightarrow> t \<le> now) \<Longrightarrow> marks_past now (AList.update path v marks)"
  unfolding marks_past_def by (induction marks) (auto split: if_splits)

lemma marks_past_delete: "marks_past now marks \<Longrightarrow> marks_past now (AList.delete path marks)"
  by (auto simp: marks_past_def AList.delete_eq)

lemma marks_past_fold: "marks_past now marks \<Longrightarrow> (\<And>path marks. marks_past now marks \<Longrightarrow> marks_past now (f path marks)) \<Longrightarrow> marks_past now (fold f paths marks)"
  by (induction paths arbitrary: marks) auto

lemma forget_past: "reg_past now reg \<Longrightarrow> reg_past now (forget_unowned_idle_paths reg)"
  by (auto simp: marks_past_def forget_unowned_idle_paths_def)

text \<open>Marking the owned files.\<close>

lemma idle_marks_running:
  assumes "releasable_arcs_for_path reg path \<noteq> []" "rg_idle_touched reg = []" "path \<in> set paths \<or> (\<exists>t. map_of marks path = Some (Some t))"
  shows "\<exists>t. map_of (fold (idle_mark_after reg now) paths marks) path = Some (Some t)"
  using assms(3)
proof (induction paths arbitrary: marks)
  case (Cons q paths)
  have "\<exists>t. map_of (idle_mark_after reg now path marks) path = Some (Some t)"
    using assms(1,2) by (auto simp: idle_mark_after_def update_conv' split: option.splits)
  moreover have "map_of (idle_mark_after reg now q marks) path = map_of marks path" if "q \<noteq> path"
    using that by (auto simp: idle_mark_after_def update_conv' delete_conv' split: option.splits)
  ultimately show ?case using Cons.IH [of "idle_mark_after reg now q marks"] Cons.prems by (cases "q = path") auto
qed simp

lemma note_idle_clocks:
  assumes "reg_past now reg"
  shows "reg_past now (note_idle_after_complete now reg)" "rg_idle_touched reg = [] \<Longrightarrow> reg_clocked (note_idle_after_complete now reg)"
proof -
  let ?reg = "forget_unowned_idle_paths reg"
  have "marks_past now (idle_mark_after ?reg now path marks)" if "marks_past now marks" for path marks
    using that by (auto simp: idle_mark_after_def intro: marks_past_update marks_past_delete split: option.split)
  from marks_past_fold [OF forget_past [OF assms] this] show "reg_past now (note_idle_after_complete now reg)"
    by (simp add: note_idle_after_complete_def Let_def)
  assume "rg_idle_touched reg = []"
  then have "rg_idle_touched ?reg = []" by (simp add: forget_unowned_idle_paths_def)
  from idle_marks_running [OF _ this] releasable_owned show "reg_clocked (note_idle_after_complete now reg)"
    by (simp add: reg_clocked_def note_idle_after_complete_def Let_def)
qed

text \<open>Putting the marks of a checkpoint back.\<close>

lemma restore_marks:
  "map_of (fold (restore_mark checkpoint now) paths marks) path =
     (if path \<in> set paths then (case map_of checkpoint path of Some mark \<Rightarrow> mark | None \<Rightarrow> Some (Some now)) else map_of marks path)"
proof (induction paths arbitrary: marks)
  case (Cons q paths)
  have "map_of (restore_mark checkpoint now q marks) path =
      (if q = path then (case map_of checkpoint path of Some mark \<Rightarrow> mark | None \<Rightarrow> Some (Some now)) else map_of marks path)"
    by (auto simp: restore_mark_def update_conv' delete_conv' split: option.splits)
  then show ?case using Cons.IH [of "restore_mark checkpoint now q marks"] by auto
qed simp

lemma map_of_tabulate: "map_of (map (\<lambda>p. (p, f p)) ps) path = (if path \<in> set ps then Some (f path) else None)"
  by (induction ps) auto

lemma map_of_checkpoint: "map_of (checkpoint_idle reg) path = (if releasable_arcs_for_path reg path \<noteq> [] then Some (map_of (rg_idle_since reg) path) else None)"
  by (simp add: checkpoint_idle_def map_of_tabulate)

lemma restore_clocks:
  assumes "reg_past now before" "reg_past now reg"
  shows "reg_past now (restore_idle_checkpoint (checkpoint_idle before) now reg)"
    "reg_clocked before \<Longrightarrow> reg_clocked (restore_idle_checkpoint (checkpoint_idle before) now reg)"
proof -
  have "t \<le> now" if "map_of (checkpoint_idle before) path = Some (Some (Some t))" for path t
    using that assms(1) by (auto simp: map_of_checkpoint marks_past_def dest: map_of_SomeD split: if_splits)
  then have "marks_past now (restore_mark (checkpoint_idle before) now path marks)" if "marks_past now marks" for path marks
    using that by (auto simp: restore_mark_def intro: marks_past_update marks_past_delete split: option.split)
  from marks_past_fold [OF forget_past [OF assms(2)] this] show "reg_past now (restore_idle_checkpoint (checkpoint_idle before) now reg)"
    by (simp add: restore_idle_checkpoint_def Let_def)
  show "reg_clocked (restore_idle_checkpoint (checkpoint_idle before) now reg)" if "reg_clocked before"
    using that by (auto simp: reg_clocked_def restore_idle_checkpoint_def Let_def restore_marks map_of_checkpoint)
qed

lemma map_of_filter_keys: "k \<notin> K \<Longrightarrow> map_of (filter (\<lambda>(p, _). p \<notin> K) xs) k = map_of xs k"
  by (induction xs) auto

lemma release_clocks:
  assumes "reg_ok reg" "reg_past past reg"
  shows "reg_ok (release_idle now grace reg)" "reg_past past (release_idle now grace reg)"
    "reg_clocked reg \<Longrightarrow> reg_clocked (release_idle now grace reg)"
    "reg_clocked reg \<Longrightarrow> past + grace \<le> now \<Longrightarrow> releasable_arcs_for_path (release_idle now grace reg) path = []"
    "next_idle_deadline grace (release_idle now grace reg) = Some d \<Longrightarrow> now < d"
proof -
  let ?reg = "release_idle now grace reg" and ?expired = "{path. \<exists>t. (path, Some t) \<in> set (rg_idle_since reg) \<and> grace \<le> now - t}"
  from idle_release [OF assms(1), of now grace] have rel: "releases reg ?expired ?reg"
      and future: "\<forall>d. next_idle_deadline grace ?reg = Some d \<longrightarrow> now < d" by (simp_all add: Let_def)
  show "reg_ok ?reg" "reg_past past ?reg" using rel assms(2) by (auto simp: releases_def marks_past_def)
  show "next_idle_deadline grace ?reg = Some d \<Longrightarrow> now < d" using future by blast
  have sub: "releasable_arcs_for_path reg p \<noteq> [] \<and> p \<notin> ?expired" if "releasable_arcs_for_path ?reg p \<noteq> []" for p
  proof
    have "set (releasable_arcs_for_path ?reg p) \<subseteq> set (releasable_arcs_for_path reg p)" using rel unfolding releases_def by blast
    with that show "releasable_arcs_for_path reg p \<noteq> []" by auto
    show "p \<notin> ?expired" using rel that unfolding releases_def by blast
  qed
  have marks: "map_of (rg_idle_since ?reg) p = map_of (rg_idle_since reg) p" if "p \<notin> ?expired" for p
  proof -
    have "rg_idle_since ?reg = filter (\<lambda>(p, _). p \<notin> ?expired) (rg_idle_since reg)" using rel unfolding releases_def by blast
    then show ?thesis using map_of_filter_keys [OF that, of "rg_idle_since reg"] by simp
  qed
  show "reg_clocked ?reg" if "reg_clocked reg"
    unfolding reg_clocked_def
  proof (intro allI impI)
    fix p
    assume "releasable_arcs_for_path ?reg p \<noteq> []"
    from sub [OF this] have "releasable_arcs_for_path reg p \<noteq> []" "p \<notin> ?expired" by blast+
    then show "\<exists>t. map_of (rg_idle_since ?reg) p = Some (Some t)" using \<open>reg_clocked reg\<close> marks [of p] unfolding reg_clocked_def by simp
  qed
  show "releasable_arcs_for_path ?reg path = []" if clocked: "reg_clocked reg" "past + grace \<le> now"
  proof (rule ccontr)
    assume "releasable_arcs_for_path ?reg path \<noteq> []"
    with sub have held: "releasable_arcs_for_path reg path \<noteq> []" "path \<notin> ?expired" by auto
    then obtain t where "(path, Some t) \<in> set (rg_idle_since reg)" using clocked(1) map_of_SomeD unfolding reg_clocked_def by metis
    moreover from this have "t \<le> past" using assms(2) by (auto simp: marks_past_def)
    ultimately show False using held(2) clocked(2) by auto
  qed
qed

text \<open>A lookup moves no clock; at most it forgets one.\<close>

definition is_lookup :: "registry_op \<Rightarrow> bool" where
  "is_lookup op \<longleftrightarrow> (case op of Get _ \<Rightarrow> True | LoadReferenced _ \<Rightarrow> True | LoadRelative _ _ \<Rightarrow> True | _ \<Rightarrow> False)"

lemma fold_frame: "(\<And>x s. proj (f x s) = proj s) \<Longrightarrow> proj (fold f xs s) = proj s"
  by (induction xs arbitrary: s) auto

lemma clock_frame [simp]:
  "rg_idle_since (remember_name name reg) = rg_idle_since reg" "rg_idle_since (remember_file name path reg) = rg_idle_since reg"
  "rg_idle_since (note_idle_touch_path path reg) = rg_idle_since reg" "rg_idle_since (touch_loaded arc reg) = rg_idle_since reg"
  "rg_idle_since (snd (arc_new spec reg)) = rg_idle_since reg" "rg_idle_since (begin_idle_completion reg) = rg_idle_since reg"
  "rg_idle_since (insert_loaded spec file reg) = rg_idle_since reg" "rg_idle_since (snd (unlink_cached_arc arc reg)) = rg_idle_since reg"
proof -
  show name: "rg_idle_since (remember_name name reg) = rg_idle_since reg" for name reg by (simp add: remember_name_def Let_def)
  show "rg_idle_since (remember_file name path reg) = rg_idle_since reg" using name by (simp add: remember_file_def split: option.split)
  show "rg_idle_since (insert_loaded spec file reg) = rg_idle_since reg"
    by (simp add: insert_loaded_def arc_new_def Let_def fold_frame [where proj = rg_idle_since] name)
qed (simp_all add: note_idle_touch_path_def touch_loaded_def arc_new_def begin_idle_completion_def unlink_cached_arc_def Let_def split: option.split)

lemma evict_past: "reg_past now reg \<Longrightarrow> reg_past now (evict_oldest_spec reg)"
proof (induction reg rule: evict_oldest_spec.induct)
  case (1 reg)
  show ?case
  proof (cases "rg_loaded reg")
    case Nil
    then show ?thesis using 1(2) by (simp add: evict_oldest_spec.simps [of reg])
  next
    case (Cons old rest)
    obtain unlinked reg1 where un: "unlink_cached_arc old (reg\<lparr>rg_loaded := rest\<rparr>) = (unlinked, reg1)" by fastforce
    have "rg_idle_since reg1 = rg_idle_since reg" using clock_frame(8) [of old "reg\<lparr>rg_loaded := rest\<rparr>"] un by simp
    then have past: "reg_past now (forget_unowned_idle_paths reg1)" using 1(2) forget_past by simp
    then show ?thesis using 1(1) [OF Cons un [symmetric] refl refl _ past] Cons un
      by (simp add: evict_oldest_spec.simps [of reg] Let_def)
  qed
qed

lemma make_room_past [simp]: "reg_past now reg \<Longrightarrow> reg_past now (make_room reg)"
  by (simp add: make_room_def evict_past)

lemma ensure_loaded_past [simp]: "reg_past now reg \<Longrightarrow> reg_past now (ensure_loaded load name reg)"
  by (simp add: ensure_loaded_def Let_def fold_frame [where proj = rg_idle_since] split: option.split)

lemma load_into_past: "reg_past now reg \<Longrightarrow> reg_past now (snd (load_into_path_cache load path reg))"
  using clock_frame(5) by (simp add: load_into_path_cache_def arc_new_def Let_def split: option.split)

lemma lookup_past: "is_lookup op \<Longrightarrow> reg_past now reg \<Longrightarrow> reg_past now (registry_apply load op reg)"
  using load_into_past
  by (auto simp: is_lookup_def get_arc_def load_referenced_spec_def load_relative_spec_def arc_new_def Let_def split: registry_op.splits option.splits)

lemma lookups_keep:
  "\<forall>op \<in> set ops. is_lookup op \<Longrightarrow> reg_ok reg \<Longrightarrow> reg_past now reg \<Longrightarrow>
   reg_ok (fold (registry_apply load) ops reg) \<and> reg_past now (fold (registry_apply load) ops reg)"
proof (induction ops arbitrary: reg)
  case (Cons op ops)
  have "reg_ok (registry_apply load op reg)" using registry_apply_ok [of reg load op] Cons.prems by (auto simp: step_ok_def)
  then show ?case using Cons lookup_past by simp
qed simp

section \<open>Every run of the engine\<close>

text \<open>A registry just opened: nothing has been loaded from a file, so nothing can be released.\<close>

definition reg_fresh :: "registry \<Rightarrow> bool" where
  "reg_fresh reg \<longleftrightarrow> reg_ok reg \<and> rg_idle_since reg = [] \<and> (\<forall>path. releasable_arcs_for_path reg path = [])"

definition engine_ok :: "nat \<Rightarrow> ('n, 'g) engine \<Rightarrow> bool" where
  "engine_ok now e \<longleftrightarrow>
     reg_ok (en_registry e) \<and> reg_past now (en_registry e) \<and> (\<not> en_hook_cache_active e \<longrightarrow> reg_clocked (en_registry e)) \<and>
     clock_running (en_hook_cache_active e) (\<not> hook_cache_is_empty (en_hook_cache e)) (en_hook_cache_idle_since e) now \<and>
     clock_running (en_hook_cache_active e) (en_native e \<noteq> None) (en_native_idle_since e) now \<and>
     clock_running (en_hook_cache_active e) (has_derived_payload (en_history e)) (en_history_index_idle_since e) now"

inductive engine_run :: "nat \<Rightarrow> ('n, 'g) engine \<Rightarrow> bool" where
  run_start: "reg_fresh reg \<Longrightarrow> engine_run now (from_registry now native session reg)"
| run_wait: "engine_run now e \<Longrightarrow> now \<le> now' \<Longrightarrow> engine_run now' e"
| run_end: "engine_run now e \<Longrightarrow> engine_run now (engine_end_input session now e)"
| run_release: "engine_run now e \<Longrightarrow> engine_run now (release_idle_specs now grace e)"
| run_clear: "engine_run now e \<Longrightarrow> now \<le> now1 \<Longrightarrow> now1 \<le> now2 \<Longrightarrow> (\<And>reg native. reloaded = Some (reg, native) \<Longrightarrow> reg_fresh reg) \<Longrightarrow>
    engine_run now2 (snd (clear_caches_and_report session now1 now2 reloaded e))"
| run_complete: "engine_run now e \<Longrightarrow> now \<le> at_clock a 0 \<Longrightarrow> mono (at_clock a) \<Longrightarrow> (\<And>i. at_clock a i \<le> now') \<Longrightarrow>
    (\<And>reg native. at_reloaded a = Some (reg, native) \<Longrightarrow> reg_fresh reg) \<Longrightarrow> (\<forall>op \<in> set (at_lookups a). is_lookup op) \<Longrightarrow>
    engine_run now' (snd (engine_complete session a e))"

lemma running_mono: "clock_running active held since now \<Longrightarrow> now \<le> now' \<Longrightarrow> clock_running active held since now'"
  by (auto simp: clock_running_def intro: le_trans)

lemma past_mono: "marks_past now marks \<Longrightarrow> now \<le> now' \<Longrightarrow> marks_past now' marks"
  by (auto simp: marks_past_def intro: le_trans)

lemma engine_ok_mono: "engine_ok now e \<Longrightarrow> now \<le> now' \<Longrightarrow> engine_ok now' e"
  by (auto simp: engine_ok_def intro: running_mono past_mono)

lemma fresh_facts: "reg_fresh reg \<Longrightarrow> reg_ok reg \<and> reg_past now reg \<and> reg_clocked reg"
  by (simp add: reg_fresh_def marks_past_def reg_clocked_def)

lemma clocked_same: "same_cache a b \<Longrightarrow> reg_ok b \<Longrightarrow> reg_ok a"
  by (simp add: same_cache_ok)

text \<open>All three clocks and those of the registry, whatever the order of the notes.\<close>

definition not_ahead :: "nat \<Rightarrow> ('n, 'g) engine \<Rightarrow> bool" where
  "not_ahead now e \<longleftrightarrow> reg_ok (en_registry e) \<and> reg_past now (en_registry e) \<and>
     (\<forall>t. en_hook_cache_idle_since e = Some t \<or> en_native_idle_since e = Some t \<or> en_history_index_idle_since e = Some t \<longrightarrow> t \<le> now)"

lemma engine_not_ahead: "engine_ok now e \<Longrightarrow> not_ahead now e"
  by (auto simp: engine_ok_def not_ahead_def clock_running_def)

lemma noted_running:
  fixes e :: "('n, 'g) engine" and b1 b2 :: bool
  assumes "not_ahead now e" "now \<le> c1" "c1 \<le> now'" "now \<le> c2" "c2 \<le> now'" "now \<le> c3" "c3 \<le> now'"
  defines "e' \<equiv> note_idle_history_indexes b2 c3 (note_idle_native c2 (note_idle_hook_cache b1 c1 e))"
  shows "clock_running (en_hook_cache_active e) (\<not> hook_cache_is_empty (en_hook_cache e)) (en_hook_cache_idle_since e') now'"
    "clock_running (en_hook_cache_active e) (en_native e \<noteq> None) (en_native_idle_since e') now'"
    "clock_running (en_hook_cache_active e) (has_derived_payload (en_history e)) (en_history_index_idle_since e') now'"
proof -
  let ?e1 = "note_idle_hook_cache b1 c1 e"
  let ?e2 = "note_idle_native c2 ?e1"
  have ahead: "\<And>t. en_hook_cache_idle_since e = Some t \<Longrightarrow> t \<le> c1" "\<And>t. en_native_idle_since ?e1 = Some t \<Longrightarrow> t \<le> c2"
    "\<And>t. en_history_index_idle_since ?e2 = Some t \<Longrightarrow> t \<le> c3"
    using assms(1,2,4,6) by (force simp: not_ahead_def)+
  show "clock_running (en_hook_cache_active e) (\<not> hook_cache_is_empty (en_hook_cache e)) (en_hook_cache_idle_since e') now'"
    using running_mono [OF hooks.note_running [of e, OF ahead(1), of b1] assms(3)] by (simp add: e'_def)
  show "clock_running (en_hook_cache_active e) (en_native e \<noteq> None) (en_native_idle_since e') now'"
    using running_mono [OF native.note_running [of ?e1, OF ahead(2)] assms(5)] by (simp add: e'_def)
  show "clock_running (en_hook_cache_active e) (has_derived_payload (en_history e)) (en_history_index_idle_since e') now'"
    using running_mono [OF indexes.note_running [of ?e2, OF ahead(3), of b2] assms(7)] by (simp add: e'_def)
qed

lemma end_input_ok:
  assumes "engine_ok now e"
  shows "engine_ok now (engine_end_input session now e)" "\<not> en_hook_cache_active (engine_end_input session now e)"
proof -
  let ?e = "e\<lparr>en_generator_session := session, en_hook_cache_active := False\<rparr>"
  have "not_ahead now ?e" using engine_not_ahead [OF assms] by (simp add: not_ahead_def)
  note running = noted_running [OF this, of now now now now, where ?b1.0 = False and ?b2.0 = False]
  let ?reg = "begin_idle_completion (en_registry e)"
  have reg: "reg_ok ?reg" "reg_past now ?reg" "rg_idle_touched ?reg = []"
    using assms clocked_same [OF same_cache_steps(4)] by (simp_all add: engine_ok_def begin_idle_completion_def)
  show "engine_ok now (engine_end_input session now e)"
    using running reg(1) clocked_same [OF same_cache_steps(6)] note_idle_clocks [OF reg(2)] reg(3)
    by (simp add: engine_end_input_def engine_ok_def Let_def)
  show "\<not> en_hook_cache_active (engine_end_input session now e)" by (simp add: engine_end_input_def Let_def)
qed

lemma release_ok:
  assumes "engine_ok past e"
  shows "engine_ok past (release_idle_specs now grace e)"
proof -
  let ?e0 = "e\<lparr>en_registry := release_idle now grace (en_registry e)\<rparr>"
  let ?e1 = "release_idle_history now grace ?e0"
  let ?e2 = "release_idle_hooks now grace ?e1"
  note ok = assms [unfolded engine_ok_def]
  have reg: "reg_ok (en_registry e)" "reg_past past (en_registry e)" using ok by simp_all
  show ?thesis
    using ok release_clocks [OF reg] indexes.release_running [of ?e0 past now grace] hooks.release_running [of ?e1 past now grace]
      native.release_running [of ?e2 past now grace]
    by (simp add: engine_ok_def release_idle_specs_def)
qed

lemma rebind_frame [simp]:
  "en_registry (rebind_hosts now native e) = en_registry e" "en_history (rebind_hosts now native e) = en_history e"
  "en_hook_cache_active (rebind_hosts now native e) = en_hook_cache_active e" "en_native (rebind_hosts now native e) = Some native"
  "hook_cache_is_empty (en_hook_cache (rebind_hosts now native e))"
  "en_hook_cache_idle_since (rebind_hosts now native e) = en_hook_cache_idle_since e"
  "en_history_index_idle_since (rebind_hosts now native e) = en_history_index_idle_since e"
  by (simp_all add: rebind_hosts_def Let_def)

lemma rebind_native_running:
  assumes "not_ahead now e" "now \<le> now'"
  shows "clock_running (en_hook_cache_active e) True (en_native_idle_since (rebind_hosts now' native e)) now'"
proof -
  have "\<And>t. en_native_idle_since (e\<lparr>en_native := Some native\<rparr>) = Some t \<Longrightarrow> t \<le> now'" using assms by (force simp: not_ahead_def)
  from native.note_running [of "e\<lparr>en_native := Some native\<rparr>", OF this] show ?thesis by (simp add: rebind_hosts_def Let_def)
qed

lemma clear_ok:
  assumes "engine_ok now e" "now \<le> now1" "now1 \<le> now2" "\<And>reg native. reloaded = Some (reg, native) \<Longrightarrow> reg_fresh reg"
  shows "engine_ok now2 (snd (clear_caches_and_report session now1 now2 reloaded e))"
proof (cases reloaded)
  case None
  then show ?thesis using engine_ok_mono [OF assms(1), of now2] assms(2,3)
    by (auto simp: clear_caches_and_report_def engine_ok_def clock_running_def)
next
  case (Some r)
  obtain reg native where r: "r = (reg, native)" by fastforce
  then show ?thesis using Some fresh_facts [OF assms(4), of reg native now2]
    by (auto simp: clear_caches_and_report_def engine_ok_def clock_running_def note_idle_native_def)
qed

lemma refresh_ok:
  assumes "engine_ok now e" "now \<le> now'" "\<And>reg native. reloaded = Some (reg, native) \<Longrightarrow> reg_fresh reg"
  shows "engine_ok now' (refresh_specs_generation session now' needs reloaded e)"
proof (cases "needs \<and> reloaded \<noteq> None")
  case False
  then show ?thesis using engine_ok_mono [OF assms(1,2)] by (auto simp: refresh_specs_generation_def split: option.split)
next
  case True
  then obtain reg native where r: "reloaded = Some (reg, native)" "needs" by auto
  have "clock_running (en_hook_cache_active e) False (en_hook_cache_idle_since e) now'"
    using engine_ok_mono [OF assms(1,2)] by (auto simp: engine_ok_def clock_running_def)
  moreover have "clock_running (en_hook_cache_active e) False None now'" by (simp add: clock_running_def)
  ultimately show ?thesis using r fresh_facts [OF assms(3) [OF r(1)], of now'] rebind_native_running [OF engine_not_ahead [OF assms(1)] assms(2)]
    by (simp add: refresh_specs_generation_def engine_ok_def)
qed

lemma run_attempt_keeps:
  assumes "not_ahead now e" "\<forall>op \<in> set (at_lookups a). is_lookup op"
  shows "not_ahead now (snd (run_attempt a e))" "en_hook_cache_active (snd (run_attempt a e)) = en_hook_cache_active e"
proof -
  have "reg_ok (begin_idle_completion (en_registry e))" "reg_past now (begin_idle_completion (en_registry e))"
    using assms(1) clocked_same [OF same_cache_steps(4)] by (auto simp: not_ahead_def)
  note walked = this lookups_keep [OF assms(2) this, of "at_load a"]
  show "not_ahead now (snd (run_attempt a e))" using assms(1) walked by (auto simp: run_attempt_def not_ahead_def Let_def)
  show "en_hook_cache_active (snd (run_attempt a e)) = en_hook_cache_active e" by (simp add: run_attempt_def Let_def)
qed

lemma settle_ok:
  assumes "not_ahead now e" "\<And>i. now \<le> at_clock a i \<and> at_clock a i \<le> now'"
    and "reg_past now before" "\<not> en_hook_cache_active e \<Longrightarrow> reg_clocked before"
  shows "engine_ok now' (settle_idle a b1 b2 (checkpoint_idle before) e)"
proof -
  have "reg_ok (en_registry e)" "reg_past now (en_registry e)" using assms(1) by (simp_all add: not_ahead_def)
  moreover note past = past_mono [OF this(2)] past_mono [OF assms(3)]
  have "reg_past (at_clock a 4) (en_registry e)" "reg_past (at_clock a 4) before" using past assms(2) by blast+
  note restored = restore_clocks [OF this(2,1)]
  have "reg_past now' (restore_idle_checkpoint (checkpoint_idle before) (at_clock a 4) (en_registry e))"
    using past_mono [OF restored(1)] assms(2) by blast
  ultimately show ?thesis
    using noted_running [OF assms(1), of "at_clock a 1" now' "at_clock a 2" "at_clock a 3" b2 b1] assms(2,4) restored(2)
      clocked_same [OF same_cache_steps(5)]
    by (simp add: settle_idle_def engine_ok_def Let_def)
qed

lemma complete_ok:
  assumes "engine_ok now e" "now \<le> at_clock a 0" "mono (at_clock a)" "\<And>i. at_clock a i \<le> now'"
    and "\<And>reg native. at_reloaded a = Some (reg, native) \<Longrightarrow> reg_fresh reg" "\<forall>op \<in> set (at_lookups a). is_lookup op"
  shows "engine_ok now' (snd (engine_complete session a e))"
proof -
  let ?e = "refresh_specs_generation session (at_clock a 0) (at_needs_refresh a) (at_reloaded a) e"
  have ok: "engine_ok (at_clock a 0) ?e" using refresh_ok [OF assms(1,2,5)] .
  have clocks: "at_clock a 0 \<le> at_clock a i \<and> at_clock a i \<le> now'" for i using assms(3,4) monoD by blast
  let ?e0 = "?e\<lparr>en_generator_session := session\<rparr>"
  have "not_ahead (at_clock a 0) ?e0" using engine_not_ahead [OF ok] by (simp add: not_ahead_def)
  note ran = run_attempt_keeps [OF this assms(6)]
  obtain res e1 where run: "run_attempt a ?e0 = (res, e1)" by fastforce
  then have ahead: "not_ahead (at_clock a 0) e1" and act: "en_hook_cache_active e1 = en_hook_cache_active ?e" using ran by simp_all
  have before: "reg_past (at_clock a 0) (en_registry ?e)" "\<not> en_hook_cache_active e1 \<Longrightarrow> reg_clocked (en_registry ?e)"
    using ok act by (simp_all add: engine_ok_def)
  have settled: "engine_ok now' (settle_idle a b1 b2 (checkpoint_idle (en_registry ?e)) e2)"
    if "e2 = e1 \<or> e2 = e1\<lparr>en_generator_session := at_session a\<rparr>" for b1 b2 e2
  proof -
    have "not_ahead (at_clock a 0) e2" "en_hook_cache_active e2 = en_hook_cache_active e1" using that ahead by (auto simp: not_ahead_def)
    then show ?thesis by (intro settle_ok [OF _ clocks before(1)] before(2)) simp_all
  qed
  have "reg_past (at_clock a 1) (en_registry e1)" "reg_ok (en_registry e1)"
    using ahead past_mono clocks by (auto simp: not_ahead_def)
  then have owned: "reg_past now' (note_idle_after_complete (at_clock a 1) (en_registry e1))"
      "reg_ok (note_idle_after_complete (at_clock a 1) (en_registry e1))"
    using past_mono [OF note_idle_clocks(1)] clocks clocked_same [OF same_cache_steps(6)] by blast+
  have active: "engine_ok now' (e1\<lparr>en_generator_session := at_session a, en_hook_cache_active := True, en_hook_cache_idle_since := None,
      en_native_idle_since := None, en_history_index_idle_since := None, en_registry := note_idle_after_complete (at_clock a 1) (en_registry e1)\<rparr>)"
    using owned by (simp add: engine_ok_def clock_running_def)
  show ?thesis
  proof (cases "at_cancelled_first a \<or> at_cancelled_second a")
    case True
    have "now \<le> now'" "at_clock a 0 \<le> now'" using clocks [of 0] assms(2) by simp_all
    then show ?thesis using True engine_ok_mono [OF assms(1)] engine_ok_mono [OF ok] by (auto simp: engine_complete_def Let_def)
  next
    case False
    then show ?thesis using settled active by (simp add: engine_complete_def Let_def run)
  qed
qed

lemma engine_run_ok: "engine_run now e \<Longrightarrow> engine_ok now e"
proof (induction rule: engine_run.induct)
  case (run_start reg now native session)
  then show ?case using fresh_facts [of reg now] by (simp add: from_registry_def engine_ok_def clock_running_def)
next
  case (run_wait now e now')
  show ?case using run_wait.IH run_wait.hyps(2) by (rule engine_ok_mono)
next
  case (run_end now e session)
  show ?case using run_end.IH by (rule end_input_ok(1))
next
  case (run_release now e grace)
  show ?case using run_release.IH by (rule release_ok)
next
  case (run_clear now e now1 now2 reloaded session)
  show ?case by (rule clear_ok [OF run_clear.IH run_clear.hyps(2,3)]) (rule run_clear.hyps(4))
next
  case (run_complete now e a now' session)
  show ?case by (rule complete_ok [OF run_complete.IH run_complete.hyps(2-4)]) (use run_complete.hyps(5,6) in blast)+
qed

section \<open>Deadlines\<close>

lemma fold_min_Min: "fold min ts t = Min (set (t # ts))" for t :: nat
  by (simp only: Min.set_eq_fold)

lemma earliest_None: "earliest ds = None \<longleftrightarrow> set ds \<subseteq> {None}"
proof -
  have "filter_map (\<lambda>d. d) ds = [] \<longleftrightarrow> (\<forall>y. Some y \<notin> set ds)" using set_filter_map [of "\<lambda>d. d" ds] by (auto simp flip: set_empty)
  also have "\<dots> \<longleftrightarrow> set ds \<subseteq> {None}" by (metis insertCI not_None_eq singletonD subsetI subsetD)
  finally show ?thesis by (cases "filter_map (\<lambda>d. d) ds") (auto simp: earliest_def)
qed

lemma earliest_Some: "earliest ds = Some d \<Longrightarrow> Some d \<in> set ds"
proof -
  assume "earliest ds = Some d"
  then obtain t ts where ts: "filter_map (\<lambda>d. d) ds = t # ts" "d = Min (set (t # ts))"
    by (auto simp: earliest_def fold_min_Min simp del: list.set split: list.splits)
  then have "d \<in> set (filter_map (\<lambda>d. d) ds)" using Min_in [of "set (t # ts)"] by simp
  then show ?thesis by (simp add: set_filter_map)
qed

lemma earliest_le: "Some d \<in> set ds \<Longrightarrow> \<exists>d' \<le> d. earliest ds = Some d'"
proof -
  assume "Some d \<in> set ds"
  then have d: "d \<in> set (filter_map (\<lambda>d. d) ds)" by (simp add: set_filter_map)
  then obtain t ts where ts: "filter_map (\<lambda>d. d) ds = t # ts" by (cases "filter_map (\<lambda>d. d) ds") auto
  have "Min (set (t # ts)) \<le> d" using d unfolding ts by (intro Min_le) auto
  then show ?thesis by (simp add: earliest_def ts fold_min_Min del: list.set)
qed

lemma registry_deadline:
  assumes "reg_past now reg" "reg_clocked reg" "releasable_arcs_for_path reg path \<noteq> []"
  shows "\<exists>d \<le> now + grace. next_idle_deadline grace reg = Some d"
proof -
  obtain t where t: "(path, Some t) \<in> set (rg_idle_since reg)" using assms(2,3) map_of_SomeD unfolding reg_clocked_def by metis
  then have d: "t + grace \<in> set (idle_deadlines grace reg)" using assms(3) by (force simp: idle_deadlines_def set_filter_map)
  then obtain x xs where xs: "idle_deadlines grace reg = x # xs" by (cases "idle_deadlines grace reg") auto
  have "Min (set (x # xs)) \<le> t + grace" using d unfolding xs by (intro Min_le) auto
  also have "\<dots> \<le> now + grace" using assms(1) t by (auto simp: marks_past_def)
  finally show ?thesis by (simp add: next_idle_deadline_def xs fold_min_Min del: list.set)
qed

lemma no_registry_deadline: "(\<And>path. releasable_arcs_for_path reg path = []) \<Longrightarrow> next_idle_deadline grace reg = None"
proof -
  assume "\<And>path. releasable_arcs_for_path reg path = []"
  then have "set (idle_deadlines grace reg) = {}" by (auto simp: idle_deadlines_def set_filter_map split: option.splits)
  then show ?thesis by (simp add: next_idle_deadline_def)
qed

text \<open>Noting the end again changes no mark.\<close>

lemma note_idle_same:
  assumes "reg_clocked reg" "\<forall>(path, _) \<in> set (rg_idle_since reg). releasable_arcs_for_path reg path \<noteq> []"
  shows "rg_idle_since (note_idle_after_complete now (begin_idle_completion reg)) = rg_idle_since reg"
proof -
  let ?reg = "forget_unowned_idle_paths (begin_idle_completion reg)"
  have marks: "rg_idle_since ?reg = rg_idle_since reg" using assms(2) by (simp add: forget_unowned_idle_paths_def begin_idle_completion_def filter_id_conv)
  have "idle_mark_after ?reg now path (rg_idle_since reg) = rg_idle_since reg" for path
  proof (cases "releasable_arcs_for_path reg path = []")
    case True
    then have "path \<notin> fst ` set (rg_idle_since reg)" using assms(2) by auto
    then show ?thesis using True by (simp add: idle_mark_after_def)
  next
    case False
    then show ?thesis using assms(1) by (auto simp: idle_mark_after_def reg_clocked_def forget_unowned_idle_paths_def begin_idle_completion_def)
  qed
  then have "fold (idle_mark_after ?reg now) paths (rg_idle_since reg) = rg_idle_since reg" for paths by (induction paths) simp_all
  then show ?thesis by (simp add: note_idle_after_complete_def Let_def marks)
qed

lemma note_idle_owned:
  "\<forall>(path, _) \<in> set (rg_idle_since (note_idle_after_complete now reg)). releasable_arcs_for_path (note_idle_after_complete now reg) path \<noteq> []"
proof -
  let ?reg = "forget_unowned_idle_paths reg"
  define owned where "owned marks \<longleftrightarrow> (\<forall>(path, m :: nat option) \<in> set marks. releasable_arcs_for_path reg path \<noteq> [])" for marks
  have upd: "owned (AList.update path m marks)" if "owned marks" "releasable_arcs_for_path reg path \<noteq> []" for path m marks
    using that unfolding owned_def by (induction marks) (auto split: if_splits)
  have "owned (idle_mark_after ?reg now path marks)" if "owned marks" for path marks
    using that upd by (auto simp: idle_mark_after_def owned_def AList.delete_eq split: option.split)
  then have fold: "owned marks \<Longrightarrow> owned (fold (idle_mark_after ?reg now) paths marks)" for paths marks by (induction paths arbitrary: marks) simp_all
  have "owned (rg_idle_since ?reg)" by (auto simp: owned_def forget_unowned_idle_paths_def)
  from fold [OF this, of "owned_paths reg"] show ?thesis by (simp add: owned_def note_idle_after_complete_def Let_def)
qed

lemma end_input_frame [simp]:
  "en_hook_cache (engine_end_input session now e) = en_hook_cache e" "en_native (engine_end_input session now e) = en_native e"
  "en_history (engine_end_input session now e) = en_history e"
  "en_registry (engine_end_input session now e) = note_idle_after_complete now (begin_idle_completion (en_registry e))"
  "en_hook_cache_active (engine_end_input session now e) = False"
  by (simp_all add: engine_end_input_def Let_def)

text \<open>A running clock is not started again.\<close>

lemma end_input_keeps:
  assumes "engine_ok now e" "\<not> en_hook_cache_active e"
  shows "\<not> hook_cache_is_empty (en_hook_cache e) \<longrightarrow> en_hook_cache_idle_since (engine_end_input session later e) = en_hook_cache_idle_since e"
    "en_native e \<noteq> None \<longrightarrow> en_native_idle_since (engine_end_input session later e) = en_native_idle_since e"
    "has_derived_payload (en_history e) \<longrightarrow> en_history_index_idle_since (engine_end_input session later e) = en_history_index_idle_since e"
  using assms by (auto simp: engine_ok_def clock_running_def engine_end_input_def Let_def note_idle_hook_cache_def note_idle_native_def note_idle_history_indexes_def)

text \<open>Releasing: what is left of each resource depends on its own clock.\<close>

lemma release_parts:
  fixes e :: "('n, 'g) engine" and now grace :: nat
  defines "e' \<equiv> release_idle_specs now grace e"
  shows "hook_cache_is_empty (en_hook_cache e') = hook_cache_is_empty (en_hook_cache (release_idle_hooks now grace e))"
    "en_hook_cache_idle_since e' = en_hook_cache_idle_since (release_idle_hooks now grace e)"
    "en_native e' = en_native (release_idle_native now grace e)" "en_native_idle_since e' = en_native_idle_since (release_idle_native now grace e)"
    "en_history e' = en_history (release_idle_history now grace e)"
    "en_history_index_idle_since e' = en_history_index_idle_since (release_idle_history now grace e)"
    "en_registry e' = release_idle now grace (en_registry e)" "en_hook_cache_active e' = en_hook_cache_active e"
  by (simp_all add: e'_def release_idle_specs_def)
    (simp_all add: release_idle_hooks_def release_idle_native_def release_idle_history_def)

lemma release_deadlines:
  "hook_deadline grace (release_idle_specs now grace e) = hook_deadline grace (release_idle_hooks now grace e)"
  "native_deadline grace (release_idle_specs now grace e) = native_deadline grace (release_idle_native now grace e)"
  "history_deadline grace (release_idle_specs now grace e) = history_deadline grace (release_idle_history now grace e)"
  by (simp_all add: hooks.deadline_is native.deadline_is indexes.deadline_is release_parts)

lemma drained_parts:
  assumes "engine_ok now e" "\<not> en_hook_cache_active e" "now + grace \<le> now'"
  shows "hook_cache_is_empty (en_hook_cache (release_idle_specs now' grace e))" "en_native (release_idle_specs now' grace e) = None"
    "\<not> has_derived_payload (en_history (release_idle_specs now' grace e))"
    "releasable_arcs_for_path (en_registry (release_idle_specs now' grace e)) path = []"
proof -
  note ok = assms(1) [unfolded engine_ok_def]
  show "hook_cache_is_empty (en_hook_cache (release_idle_specs now' grace e))" "en_native (release_idle_specs now' grace e) = None"
    "\<not> has_derived_payload (en_history (release_idle_specs now' grace e))"
    using hooks.drained [of e now grace now'] native.drained [of e now grace now'] indexes.drained [of e now grace now'] ok assms(2,3)
    by (simp_all add: release_parts)
  show "releasable_arcs_for_path (en_registry (release_idle_specs now' grace e)) path = []"
    using release_clocks(4) [of "en_registry e" now grace now' path] ok assms(2,3) by (simp add: release_parts)
qed

lemma release_deadline_future:
  assumes "engine_ok past e" "engine_idle_deadline grace (release_idle_specs now grace e) = Some d"
  shows "now < d"
proof -
  let ?e = "release_idle_specs now grace e"
  have reg: "reg_ok (en_registry e)" "reg_past past (en_registry e)" using assms(1) by (simp_all add: engine_ok_def)
  have "Some d \<in> {next_idle_deadline grace (en_registry ?e), hook_deadline grace ?e, native_deadline grace ?e, history_deadline grace ?e}"
    using earliest_Some [OF assms(2) [unfolded engine_idle_deadline_def]] by auto
  then consider "next_idle_deadline grace (release_idle now grace (en_registry e)) = Some d" | "hook_deadline grace (release_idle_hooks now grace e) = Some d"
    | "native_deadline grace (release_idle_native now grace e) = Some d" | "history_deadline grace (release_idle_history now grace e) = Some d"
    unfolding release_deadlines release_parts by (elim insertE emptyE) simp_all
  then show ?thesis
    using release_clocks(5) [OF reg] hooks.deadline_future [OF release_frame(4)] native.deadline_future [OF release_frame(10)]
      indexes.deadline_future [OF release_frame(16)] by cases blast+
qed

lemma held_deadline:
  assumes "engine_ok now e" "\<not> en_hook_cache_active e"
    and "\<not> hook_cache_is_empty (en_hook_cache e) \<or> en_native e \<noteq> None \<or> has_derived_payload (en_history e) \<or> cached_file_paths (en_registry e) \<noteq> []"
  shows "\<exists>d \<le> now + grace. engine_idle_deadline grace e = Some d"
proof -
  note ok = assms(1) [unfolded engine_ok_def]
  let ?ds = "[next_idle_deadline grace (en_registry e), hook_deadline grace e, native_deadline grace e, history_deadline grace e]"
  have "\<exists>d \<le> now + grace. next_idle_deadline grace (en_registry e) = Some d" if "cached_file_paths (en_registry e) \<noteq> []"
    using registry_deadline [of now "en_registry e"] ok assms(2) that cached_iff last_in_set by metis
  moreover have "\<exists>d \<le> now + grace. hook_deadline grace e = Some d" if "\<not> hook_cache_is_empty (en_hook_cache e)"
    using hooks.deadline_known ok assms(2) that by blast
  moreover have "\<exists>d \<le> now + grace. native_deadline grace e = Some d" if "en_native e \<noteq> None" using native.deadline_known ok assms(2) that by blast
  moreover have "\<exists>d \<le> now + grace. history_deadline grace e = Some d" if "has_derived_payload (en_history e)"
    using indexes.deadline_known ok assms(2) that by blast
  ultimately obtain d where d: "d \<le> now + grace" "Some d \<in> set ?ds" using assms(3) unfolding list.set by (metis insertCI)
  then show ?thesis using earliest_le [OF d(2)] le_trans unfolding engine_idle_deadline_def by blast
qed

lemma end_again_same:
  assumes "engine_ok now e"
  shows "engine_idle_deadline grace (engine_end_input session' later (engine_end_input session now e)) = engine_idle_deadline grace (engine_end_input session now e)"
proof -
  let ?e = "engine_end_input session now e"
  have ok: "engine_ok now ?e" "\<not> en_hook_cache_active ?e" using end_input_ok [OF assms] by blast+
  then have "reg_clocked (en_registry ?e)" by (simp add: engine_ok_def)
  from note_idle_same [OF this] note_idle_owned
  have marks: "rg_idle_since (en_registry (engine_end_input session' later ?e)) = rg_idle_since (en_registry ?e)" by simp
  have rel: "releasable_arcs_for_path (en_registry (engine_end_input session' later ?e)) = releasable_arcs_for_path (en_registry ?e)"
    unfolding end_input_frame(4) [of session' later] by (rule ext) (simp add: note_idle_after_complete_def [of later] Let_def)
  have "next_idle_deadline grace (en_registry (engine_end_input session' later ?e)) = next_idle_deadline grace (en_registry ?e)"
    unfolding next_idle_deadline_def idle_deadlines_def marks rel ..
  moreover have "hook_deadline grace (engine_end_input session' later ?e) = hook_deadline grace ?e"
      "native_deadline grace (engine_end_input session' later ?e) = native_deadline grace ?e"
      "history_deadline grace (engine_end_input session' later ?e) = history_deadline grace ?e"
    using end_input_keeps [OF ok] by (simp_all add: hooks.deadline_is native.deadline_is indexes.deadline_is)
  ultimately show ?thesis by (simp add: engine_idle_deadline_def)
qed

text \<open>A registry opened and overlaid has loaded nothing that could be released.\<close>

definition nothing_loaded :: "registry \<Rightarrow> bool" where
  "nothing_loaded reg \<longleftrightarrow> reg_ok reg \<and> rg_idle_since reg = [] \<and> rg_load_spec_cache reg = [] \<and> rg_path_specs reg = [] \<and>
     (\<forall>(name, arc) \<in> set (rg_specs reg). is_pinned reg arc)"

lemma nothing_loaded_fresh: "nothing_loaded reg \<Longrightarrow> reg_fresh reg"
  by (auto simp: nothing_loaded_def reg_fresh_def releasable_arcs_for_path_def filter_empty_conv set_filter_map split: if_splits)

lemma overlay_names_marks: "rg_idle_since (fst (fold (overlay_name mode arc) names acc)) = rg_idle_since (fst acc)"
  by (rule fold_frame [where proj = "\<lambda>acc. rg_idle_since (fst acc)"]) (simp add: overlay_name_def case_prod_unfold)

lemma overlay_nothing_loaded:
  assumes "nothing_loaded reg"
  shows "nothing_loaded (overlay_spec spec mode reg)"
proof -
  note kept = assms [unfolded nothing_loaded_def]
  let ?arc = "\<lparr>arc_ptr = rg_next_ptr reg, arc_spec = spec\<rparr>" and ?reg1 = "reg\<lparr>rg_next_ptr := Suc (rg_next_ptr reg)\<rparr>"
  obtain reg2 claimed displaced where fold: "fold (overlay_name mode ?arc) (sp_names spec) (?reg1, False, []) = (reg2, claimed, displaced)"
    by (metis prod_cases3)
  have "distinct (map fst (rg_specs ?reg1))" using kept by (simp add: reg_ok_def)
  from overlay_names [OF this, of mode ?arc "sp_names spec" False "[]", unfolded fold]
  have frame: "rg_pinned reg2 = rg_pinned reg" "rg_path_specs reg2 = []" "rg_load_spec_cache reg2 = []"
    "set (rg_specs reg2) \<subseteq> set (rg_specs reg) \<union> {(name, ?arc) | name. claimed}"
    using kept by (simp_all add: same_cache_def)
  have marks: "rg_idle_since reg2 = []" using overlay_names_marks [of mode ?arc "sp_names spec" "(?reg1, False, [])"] kept by (simp add: fold)
  define reg3 where "reg3 = (if claimed then reg2\<lparr>rg_pinned := rg_pinned reg2 @ [?arc]\<rparr> else reg2)"
  have pinned: "\<forall>(name, arc) \<in> set (rg_specs reg3). is_pinned reg3 arc"
    using kept frame(4) by (fastforce simp: reg3_def is_pinned_def frame(1))
  let ?displace = "\<lambda>old reg. if still_owned reg old then reg else reg\<lparr>rg_loaded := filter (\<lambda>cached. \<not> ptr_eq cached old) (rg_loaded reg)\<rparr>"
  have eq: "overlay_spec spec mode reg = fold ?displace displaced reg3" by (simp add: overlay_spec_def arc_new_def fold reg3_def Let_def)
  let ?parts = "\<lambda>reg. (rg_idle_since reg, rg_load_spec_cache reg, rg_path_specs reg, rg_specs reg, rg_pinned reg)"
  have "?parts (overlay_spec spec mode reg) = ?parts reg3" unfolding eq by (rule fold_frame [where proj = ?parts]) simp
  moreover have "rg_idle_since reg3 = []" "rg_load_spec_cache reg3 = []" "rg_path_specs reg3 = []" using frame(2,3) marks by (simp_all add: reg3_def)
  ultimately show ?thesis using overlay_spec_ok [of reg spec mode] kept pinned by (simp add: nothing_loaded_def is_pinned_def)
qed

text \<open>An engine on a tree with one file.\<close>

definition one_file_registry :: registry where
  "one_file_registry = registry_new\<lparr>rg_files := [(lit ''git'', [lit ''git.json''])]\<rparr>"

lemma one_file_fresh: "reg_fresh one_file_registry"
  by (rule nothing_loaded_fresh)
    (simp add: one_file_registry_def nothing_loaded_def registry_new_def reg_ok_def links_ok_def MAX_CACHED_SPECS_def)

definition sample_attempt :: "(nat, nat) engine_attempt" where
  "sample_attempt = \<lparr>at_clock = (\<lambda>i. 5 + min i 4), at_cancelled_first = False, at_cancelled_second = False, at_cancelled_loading = False,
     at_needs_refresh = False, at_reloaded = None, at_history_only = False, at_lines = 1, at_native = 2,
     at_load = (\<lambda>_. Some (Spec spec_fields_default [] [] [] [] None)), at_lookups = [Get (lit ''git'')],
     at_hooks = (\<lambda>hc. hc\<lparr>hc_spec_cache := (hc_spec_cache hc)\<lparr>cm_entries := [(lit ''k'', 0, Spec spec_fields_default [] [] [] [] None)]\<rparr>\<rparr>),
     at_indexes = (\<lambda>c. c\<lparr>ic_aliases := Some (lit ''gs=git'')\<rparr>), at_session = 3, at_ok = True, at_finished = True\<rparr>"

definition busy_engine :: "(nat, nat) engine" where
  "busy_engine = snd (engine_complete 0 sample_attempt (from_registry 5 1 0 one_file_registry))"

lemma busy_engine_run: "engine_run 9 busy_engine"
proof -
  have "mono (at_clock sample_attempt)" by (auto simp: sample_attempt_def mono_def)
  then show ?thesis unfolding busy_engine_def
    by (intro run_complete [OF run_start [OF one_file_fresh]]) (auto simp: sample_attempt_def is_lookup_def)
qed

text \<open>
  Property C37. An engine without input lets go of everything: at any time of any run of requests,
  cancellations, new spec generations, cleared caches and releases, once the input has ended and the
  grace period has passed, one release leaves no hook result, no catalog, no history index and no
  parsed file the registry could release, and no deadline is pending.
\<close>

theorem idle_engine_drains:
  assumes "engine_run now e" "now + grace \<le> now'"
  shows "let e' = release_idle_specs now' grace (engine_end_input session now e) in
    hook_cache_is_empty (en_hook_cache e') \<and> en_native e' = None \<and> \<not> has_derived_payload (en_history e') \<and>
    cached_file_paths (en_registry e') = [] \<and> engine_idle_deadline grace e' = None"
proof -
  let ?e = "release_idle_specs now' grace (engine_end_input session now e)"
  note ended = end_input_ok [OF engine_run_ok [OF assms(1)], of session]
  note parts = drained_parts [OF ended assms(2)]
  have "cached_file_paths (en_registry ?e) = []" using parts(4) cached_iff last_in_set by metis
  moreover have "engine_idle_deadline grace ?e = None"
    using parts no_registry_deadline [OF parts(4)]
    by (simp add: engine_idle_deadline_def earliest_None hooks.deadline_is native.deadline_is indexes.deadline_is)
  ultimately show ?thesis using parts by (simp add: Let_def)
qed

theorem idle_engine_drains_witness:
  "let e = release_idle_specs 30 20 (engine_end_input 0 9 busy_engine) in
     \<not> hook_cache_is_empty (en_hook_cache busy_engine) \<and> has_derived_payload (en_history busy_engine) \<and>
     cached_file_paths (en_registry busy_engine) = [[lit ''git.json'']] \<and>
     hook_cache_is_empty (en_hook_cache e) \<and> \<not> has_derived_payload (en_history e) \<and> cached_file_paths (en_registry e) = [] \<and> en_native e = None"
proof -
  have "\<not> hook_cache_is_empty (en_hook_cache busy_engine) \<and> has_derived_payload (en_history busy_engine) \<and>
      cached_file_paths (en_registry busy_engine) = [[lit ''git.json'']]" by code_simp
  then show ?thesis using idle_engine_drains [OF busy_engine_run, of 20 30 0] by (simp add: Let_def)
qed

text \<open>
  Property C38. The deadline the supervisor sleeps for is neither missed nor moved. In any run: after a
  release the next deadline lies in the future; while no input owns them, whatever is held has a
  deadline within the grace period; and ending the input once more, later, leaves the deadline where
  it was.
\<close>

theorem idle_deadline_exact:
  fixes e :: "('n, 'g) engine"
  assumes "engine_run now e"
  shows "(\<forall>d. engine_idle_deadline grace (release_idle_specs now grace e) = Some d \<longrightarrow> now < d) \<and>
    (\<not> en_hook_cache_active e \<and> (\<not> hook_cache_is_empty (en_hook_cache e) \<or> en_native e \<noteq> None \<or> has_derived_payload (en_history e) \<or>
        cached_file_paths (en_registry e) \<noteq> []) \<longrightarrow> (\<exists>d \<le> now + grace. engine_idle_deadline grace e = Some d)) \<and>
    engine_idle_deadline grace (engine_end_input session' later (engine_end_input session now e)) = engine_idle_deadline grace (engine_end_input session now e)"
  using release_deadline_future [OF engine_run_ok [OF assms], of grace] held_deadline [OF engine_run_ok [OF assms], of grace]
    end_again_same [OF engine_run_ok [OF assms]] by blast

theorem idle_deadline_exact_witness:
  "engine_idle_deadline 20 (engine_end_input 0 50 (engine_end_input 0 9 busy_engine)) = Some 29"
proof -
  have "engine_idle_deadline 20 (engine_end_input 0 9 busy_engine) = Some 29" by code_simp
  then show ?thesis using idle_deadline_exact [OF busy_engine_run, of 20 0 50 0] by simp
qed

end
