(* ===== verification/Generators.thy ===== *)
theory Generators
  imports Query Suggestion Spec_IR Shell_Tokens JS_String Hook_Entry
begin

text \<open>
  The generators of an argument (\<open>generate.rs\<close> 16--1420): static rows, templates, scripts, custom hooks and
  the built-in sources, the session that decides when a generator runs again, and its debouncing.
  Processes, the file system, hooks and the hook caches answer through \<open>gen_env\<close>.
\<close>

section \<open>Rows and timeouts\<close>

definition hidden_generated_row_is_visible :: "suggestion \<Rightarrow> str \<Rightarrow> bool" where
  "hidden_generated_row_is_visible s query \<longleftrightarrow> \<not> sg_hidden s \<or> eq_ignore_ascii_case (sg_name s) query"

definition hidden_static_seed_is_visible :: "suggestion_seed \<Rightarrow> str \<Rightarrow> str \<Rightarrow> bool" where
  "hidden_static_seed_is_visible seed query kind \<longleftrightarrow>
     \<not> sm_hidden (ss_meta seed) \<or>
     (let exact_query = (if kind = lit ''folder'' \<and> \<not> ends_with query [c_slash] then query @ [c_slash] else query)
      in list_ex (\<lambda>candidate. eq_ignore_ascii_case candidate exact_query) (ss_names seed))"

definition DEFAULT_SCRIPT_TIMEOUT_MS :: int where "DEFAULT_SCRIPT_TIMEOUT_MS = 5000"
definition MAX_RESULTS :: nat where "MAX_RESULTS = 50"
definition MAX_CACHED :: nat where "MAX_CACHED = 32"

definition configured_script_timeout_ms_from :: "int option \<Rightarrow> int" where
  "configured_script_timeout_ms_from setting = unwrap_or DEFAULT_SCRIPT_TIMEOUT_MS setting"

definition effective_script_timeout_ms :: "int \<Rightarrow> int option \<Rightarrow> int option \<Rightarrow> nat" where
  "effective_script_timeout_ms default_timeout_ms generator_timeout_ms command_timeout_ms =
     nat (max (max default_timeout_ms (unwrap_or 0 generator_timeout_ms)) (unwrap_or 0 command_timeout_ms))"

section \<open>The session\<close>

record cached_generator =
  cg_results :: "suggestion list"
  cg_needs_run :: bool
  cg_ran :: bool

definition cached_generator_default :: cached_generator where
  "cached_generator_default = \<lparr>cg_results = [], cg_needs_run = False, cg_ran = False\<rparr>"

record generator_session =
  gn_arg_id :: str
  gn_search_term :: str
  gn_entries :: "cached_generator list"

definition generator_session_default :: generator_session where
  "generator_session_default = \<lparr>gn_arg_id = [], gn_search_term = [], gn_entries = []\<rparr>"

text \<open>The pending flag is kept with its delay, and read once.\<close>

definition take_pending_generators :: "bool \<times> int \<Rightarrow> (bool \<times> int option) \<times> (bool \<times> int)" where
  "take_pending_generators cell =
     (case cell of (pending, debounce_ms) \<Rightarrow>
        ((if pending then (True, Some (if debounce_ms > 0 then debounce_ms else 200)) else (False, None)), (False, 0)))"

text \<open>\<open>Debug\<close> of the enumerations that enter an argument's identity.\<close>

fun debug_template :: "template \<Rightarrow> str" where
  "debug_template Filepaths = lit ''Filepaths''"
| "debug_template Folders = lit ''Folders''"
| "debug_template History = lit ''History''"
| "debug_template Help = lit ''Help''"

fun debug_builtin :: "builtin \<Rightarrow> str" where
  "debug_builtin GitRefs = lit ''GitRefs''"
| "debug_builtin GitBranches = lit ''GitBranches''"
| "debug_builtin GitTags = lit ''GitTags''"
| "debug_builtin GitCommits = lit ''GitCommits''"
| "debug_builtin GitRemotes = lit ''GitRemotes''"
| "debug_builtin GitChangedFiles = lit ''GitChangedFiles''"
| "debug_builtin GitStashes = lit ''GitStashes''"
| "debug_builtin GitAliases = lit ''GitAliases''"
| "debug_builtin NpmScripts = lit ''NpmScripts''"
| "debug_builtin NpmDeps = lit ''NpmDeps''"
| "debug_builtin Cobra = lit ''Cobra''"

definition debug_templates :: "template list \<Rightarrow> str" where
  "debug_templates ts = lit ''['' @ str_join (lit '', '') (map debug_template ts) @ lit '']''"

definition debug_builtin_option :: "builtin option \<Rightarrow> str" where
  "debug_builtin_option b = (case b of None \<Rightarrow> lit ''None'' | Some b \<Rightarrow> lit ''Some('' @ debug_builtin b @ lit '')'')"

definition generator_arg_id :: "str list \<Rightarrow> arg_fields \<Rightarrow> str \<Rightarrow> str \<Rightarrow> str" where
  "generator_arg_id tokens arg cwd search_term =
     (let path = str_join [31] (if search_term = [] \<or> length tokens \<le> 1 then tokens else butlast tokens);
          gens = str_join (lit ''|'') (map (\<lambda>g. debug_templates (gs_templates g) @ lit '':'' @ unwrap_or [] (gs_js_custom g) @ lit '':'' @
            unwrap_or [] (gs_js_script g) @ lit '':'' @ str_join (lit '','') (gs_script g)) (af_generators arg))
      in cwd @ lit ''::'' @ path @ lit ''::'' @ af_name arg @ lit ''::'' @ debug_builtin_option (af_builtin arg) @ lit ''::'' @ gens @
         lit ''::'' @ unwrap_or [] (af_js_custom arg) @ lit ''::'' @ str_join [31] (af_script arg))"

section \<open>A small cache by modification time\<close>

record 'v mtime_lru =
  ml_entries :: "(str \<times> (nat option \<times> 'v)) list"
  ml_order :: "str list"

definition lru_default :: "'v mtime_lru" where
  "lru_default = \<lparr>ml_entries = [], ml_order = []\<rparr>"

definition lru_touch :: "str \<Rightarrow> 'v mtime_lru \<Rightarrow> 'v mtime_lru" where
  "lru_touch key lru =
     (if key \<in> set (ml_order lru) then lru\<lparr>ml_order := remove1 key (ml_order lru) @ [key]\<rparr> else lru)"

definition lru_remove :: "str \<Rightarrow> 'v mtime_lru \<Rightarrow> 'v mtime_lru" where
  "lru_remove key lru = lru\<lparr>ml_entries := AList.delete key (ml_entries lru), ml_order := remove1 key (ml_order lru)\<rparr>"

definition lru_get :: "str \<Rightarrow> nat option \<Rightarrow> 'v mtime_lru \<Rightarrow> 'v option \<times> 'v mtime_lru" where
  "lru_get key mtime lru =
     (case map_of (ml_entries lru) key of
        None \<Rightarrow> (None, lru)
      | Some (stored, v) \<Rightarrow> (if stored = mtime then (Some v, lru_touch key lru) else (None, lru_remove key lru)))"

fun lru_evict :: "str list \<Rightarrow> (str \<times> (nat option \<times> 'v)) list \<Rightarrow> 'v mtime_lru" where
  "lru_evict [] entries = \<lparr>ml_entries = entries, ml_order = []\<rparr>"
| "lru_evict (old # order) entries =
     (if map_of entries old \<noteq> None then \<lparr>ml_entries = AList.delete old entries, ml_order = order\<rparr> else lru_evict order entries)"

definition lru_insert_within :: "nat \<Rightarrow> str \<Rightarrow> nat option \<Rightarrow> 'v \<Rightarrow> 'v mtime_lru \<Rightarrow> 'v mtime_lru" where
  "lru_insert_within room key mtime v lru =
     (if map_of (ml_entries lru) key \<noteq> None
      then lru_touch key (lru\<lparr>ml_entries := AList.update key (mtime, v) (ml_entries lru)\<rparr>)
      else
        let lru' = (if length (ml_entries lru) \<ge> room then lru_evict (ml_order lru) (ml_entries lru) else lru)
        in lru'\<lparr>ml_order := ml_order lru' @ [key], ml_entries := AList.update key (mtime, v) (ml_entries lru')\<rparr>)"

definition lru_insert :: "str \<Rightarrow> nat option \<Rightarrow> 'v \<Rightarrow> 'v mtime_lru \<Rightarrow> 'v mtime_lru" where
  "lru_insert key mtime v lru = lru_insert_within MAX_CACHED key mtime v lru"

section \<open>When a generator runs\<close>

definition trigger_string :: "generator_trigger \<Rightarrow> str" where
  "trigger_string t =
     (case gt_string t of
        Some (JString s) \<Rightarrow> s
      | Some (JArray (JString s # _)) \<Rightarrow> s
      | _ \<Rightarrow> [])"

definition trigger_strings :: "generator_trigger \<Rightarrow> str list" where
  "trigger_strings t =
     (case gt_string t of
        Some (JString s) \<Rightarrow> [s]
      | Some (JArray items) \<Rightarrow> filter_map (\<lambda>v. case v of JString s \<Rightarrow> Some s | _ \<Rightarrow> None) items
      | _ \<Rightarrow> [])"

definition try_i32 :: "nat \<Rightarrow> int" where
  "try_i32 n = (if int n < 2147483648 then int n else - 1)"

definition trigger_match_index :: "generator_trigger \<Rightarrow> str \<Rightarrow> int" where
  "trigger_match_index t search_term =
     (let strings = trigger_strings t
      in case find (\<lambda>i. strings ! i = search_term) [0..<length strings] of None \<Rightarrow> - 1 | Some i \<Rightarrow> try_i32 i)"

definition utf16_len :: "str \<Rightarrow> nat" where
  "utf16_len s = length (encode_utf16 s)"

definition last_index :: "str \<Rightarrow> str \<Rightarrow> int" where
  "last_index haystack needle =
     (if needle = [] then try_i32 (utf16_len haystack)
      else case rfind_rest needle haystack of
        None \<Rightarrow> - 1
      | Some rest \<Rightarrow> try_i32 (utf16_len (take (length haystack - length rest) haystack)))"

text \<open>What the rest of the engine answers while one request generates.\<close>

record path_filter =
  pf_folders_only :: bool
  pf_files_only :: bool
  pf_extensions :: "str list"
  pf_equals :: "str list"
  pf_filter_folders :: bool
  pf_file_priority :: "int option"
  pf_folder_priority :: "int option"
  pf_root_directory :: "str option"
  pf_environment :: "(str \<times> str) list"
  pf_matches :: "str option"
  pf_matches_flags :: "str option"

record gen_env =
  ge_lowercase :: "str \<Rightarrow> str"
  ge_get_query_term :: "str \<Rightarrow> str \<Rightarrow> str option"
  ge_trigger :: "str \<Rightarrow> str \<Rightarrow> str \<Rightarrow> bool option"
  ge_script_timeout :: "int option"
  ge_session_cwd :: "str option"
  ge_environment :: "(str \<times> str) list"
  ge_execute :: "str \<Rightarrow> str list \<Rightarrow> str \<Rightarrow> nat \<Rightarrow> str"
  ge_try_execute :: "str \<Rightarrow> str list \<Rightarrow> str \<Rightarrow> nat \<Rightarrow> str option"
  ge_git_identity :: "str \<Rightarrow> str \<times> nat option"
  ge_package_json :: "str \<Rightarrow> json option"
  ge_cobra :: "str list \<Rightarrow> str \<Rightarrow> bool \<Rightarrow> suggestion list"
  ge_complete_path :: "str \<Rightarrow> str \<Rightarrow> bool \<Rightarrow> path_filter \<Rightarrow> suggestion list"
  ge_filter_template :: "str \<Rightarrow> suggestion list \<Rightarrow> str list \<Rightarrow> suggestion list option"
  ge_custom :: "str \<Rightarrow> str list \<Rightarrow> str \<Rightarrow> str \<Rightarrow> nat \<Rightarrow> bool \<Rightarrow> suggestion list option"
  ge_script_command :: "str \<Rightarrow> str list \<Rightarrow> script_command option"
  ge_post_process :: "str \<Rightarrow> str \<Rightarrow> str list \<Rightarrow> str list \<Rightarrow> suggestion list option"
  ge_script_cache_fallback :: "str \<Rightarrow> str list \<Rightarrow> str \<Rightarrow> str"
  ge_cached_rows :: "arg_fields \<Rightarrow> str \<Rightarrow> str \<Rightarrow> str \<Rightarrow> suggestion list \<Rightarrow> suggestion list"
  ge_cached_output :: "arg_fields \<Rightarrow> str \<Rightarrow> str \<Rightarrow> str \<Rightarrow> str"
  ge_history_values :: "str list"

definition should_trigger :: "gen_env \<Rightarrow> generator_trigger option \<Rightarrow> bool \<Rightarrow> bool \<Rightarrow> str \<Rightarrow> str \<Rightarrow> bool \<Rightarrow> bool" where
  "should_trigger env trigger debounce arg_changed search_term previous lists_paths =
     (if arg_changed then True
      else case trigger of
        None \<Rightarrow> (if lists_paths then search_term \<noteq> previous else debounce)
      | Some t \<Rightarrow>
          (if gt_on t = lit ''function''
           then (case gt_js_trigger t of None \<Rightarrow> True | Some hook \<Rightarrow> unwrap_or True (ge_trigger env hook search_term previous))
           else if gt_on t = lit ''string''
           then last_index search_term (trigger_string t) \<noteq> last_index previous (trigger_string t)
           else if gt_on t = lit ''threshold''
           then utf16_len search_term > nat (unwrap_or 0 (gt_length t)) \<and> utf16_len previous \<le> nat (unwrap_or 0 (gt_length t))
           else if gt_on t = lit ''match''
           then trigger_match_index t search_term \<noteq> trigger_match_index t previous
           else search_term \<noteq> previous))"

section \<open>Filtering and identity of rows\<close>

definition is_path_kind :: "str \<Rightarrow> bool" where
  "is_path_kind kind \<longleftrightarrow> kind = lit ''file'' \<or> kind = lit ''folder''"

definition generated_row_matches_query :: "gen_env \<Rightarrow> suggestion \<Rightarrow> str \<Rightarrow> bool \<Rightarrow> bool" where
  "generated_row_matches_query env s query fuzzy \<longleftrightarrow>
     query = [] \<or> matches_query (ge_lowercase env) (sg_name s) query fuzzy \<or>
     is_path_kind (sg_kind s) \<and>
     matches_query (ge_lowercase env) (rsplit_first (\<lambda>c. c = c_slash) (trim_end_matches (\<lambda>c. c = c_slash) (sg_name s))) query fuzzy"

definition refilter_generated :: "gen_env \<Rightarrow> suggestion list \<Rightarrow> str \<Rightarrow> bool \<Rightarrow> suggestion list" where
  "refilter_generated env rows query fuzzy =
     filter (\<lambda>s. hidden_generated_row_is_visible s query) (filter (\<lambda>s. generated_row_matches_query env s query fuzzy) rows)"

text \<open>\<open>retain\<close> with \<open>seen.insert\<close>: the first row of every key stays.\<close>

fun retain_first :: "('a \<Rightarrow> 'k) \<Rightarrow> 'k set \<Rightarrow> 'a list \<Rightarrow> 'a list" where
  "retain_first key seen [] = []"
| "retain_first key seen (x # xs) =
     (if key x \<in> seen then retain_first key seen xs else x # retain_first key (insert (key x) seen) xs)"

definition dedup_suggestions :: "suggestion list \<Rightarrow> suggestion list" where
  "dedup_suggestions rows = retain_first (\<lambda>s. (sg_name s, sg_kind s, sg_insert_value s)) {} rows"

definition dedup_session_rows :: "suggestion list \<Rightarrow> suggestion list" where
  "dedup_session_rows rows =
     (if length rows \<le> 1 then rows else retain_first (\<lambda>s. (sg_name s, sg_kind s, sg_insert_value s, sg_hidden s)) {} rows)"

definition path_row_already_includes_directory_prefix :: "str \<Rightarrow> str \<Rightarrow> str \<Rightarrow> str \<Rightarrow> bool" where
  "path_row_already_includes_directory_prefix name kind search_term query_term \<longleftrightarrow>
     is_path_kind kind \<and>
     (let normalized = parser_inner_text search_term
      in ends_with normalized query_term \<and>
         (let directory = take (length normalized - length query_term) normalized
          in directory \<noteq> [] \<and> starts_with name directory))"

definition stamp_row :: "str \<Rightarrow> str \<Rightarrow> suggestion \<Rightarrow> suggestion" where
  "stamp_row query_term search_term s =
     (if sg_query_term s \<noteq> None \<or> path_row_already_includes_directory_prefix (sg_name s) (sg_kind s) search_term query_term then s
      else s\<lparr>sg_query_term := Some query_term\<rparr>)"

definition stamp_query_term :: "str \<Rightarrow> str \<Rightarrow> bool \<Rightarrow> suggestion list \<Rightarrow> suggestion list" where
  "stamp_query_term query_term search_term has_rule rows = (if has_rule then map (stamp_row query_term search_term) rows else rows)"

definition seed_row :: "gen_env \<Rightarrow> arg_fields \<Rightarrow> str \<Rightarrow> str \<Rightarrow> bool \<Rightarrow> suggestion_seed \<Rightarrow> suggestion option" where
  "seed_row env arg query search_term fuzzy seed =
     (let meta = ss_meta seed;
          kind = unwrap_or (lit ''arg'') (sm_suggestion_type meta);
          (seed_query, seed_query_term) =
            suggestion_query_term_with_hook (ge_get_query_term env) kind (sm_get_query_term meta) (sm_js_get_query_term meta) query search_term;
          name = or_else (find (\<lambda>candidate. matches_query (ge_lowercase env) candidate seed_query fuzzy) (ss_names seed))
            (case sm_display_name meta of
               Some display \<Rightarrow> (if matches_query (ge_lowercase env) display seed_query fuzzy \<and> ss_names seed \<noteq> [] then Some (hd (ss_names seed)) else None)
             | None \<Rightarrow> None)
      in case name of
        None \<Rightarrow> None
      | Some name \<Rightarrow>
          (if \<not> hidden_static_seed_is_visible seed seed_query kind then None
           else
             let display_name = or_else (sm_display_name meta) (if length (ss_names seed) > 1 then Some (str_join (lit '', '') (ss_names seed)) else None)
             in Some ((with_meta (sm_insert_value meta) display_name (sm_separator_to_add meta) (unwrap_or False (sm_should_add_space meta))
                  (sm_hidden meta) (sm_priority meta) (sm_icon meta) ((suggestion_new name (ss_description seed) kind)\<lparr>sg_args_hint := ss_args_hint seed\<rparr>))
                \<lparr>sg_primary_name := (if ss_names seed = [] then None else Some (hd (ss_names seed))), sg_alias_names := ss_names seed,
                 sg_is_dangerous := (sm_is_dangerous meta \<or> sm_is_dangerous (af_meta arg)), sg_original_type := sm_original_type meta,
                 sg_query_term := seed_query_term\<rparr>)))"

definition generate_static_seeds :: "gen_env \<Rightarrow> arg_fields \<Rightarrow> str \<Rightarrow> str \<Rightarrow> bool \<Rightarrow> suggestion list" where
  "generate_static_seeds env arg query search_term fuzzy = filter_map (seed_row env arg query search_term fuzzy) (af_suggestions arg)"

section \<open>Which generators an argument has\<close>

definition generator_default :: generator_spec where
  "generator_default =
     \<lparr>gs_templates = [], gs_script = [], gs_split_on = None, gs_js_post_process = None, gs_js_custom = None, gs_js_script = None,
      gs_cache_key = None, gs_cache_by_directory = None, gs_cache_ttl_ms = None, gs_cache_strategy = None, gs_script_timeout_ms = None,
      gs_builtin = None, gs_get_query_term = None, gs_js_get_query_term = None, gs_js_filter_template_suggestions = None, gs_trigger = None,
      gs_extensions = [], gs_equals = [], gs_show_folders = None, gs_filter_folders = None, gs_file_priority = None,
      gs_folder_priority = None, gs_root_directory = None, gs_matches = None, gs_matches_flags = None\<rparr>"

definition effective_generators :: "arg_fields \<Rightarrow> generator_spec list" where
  "effective_generators arg =
     (if af_generators arg \<noteq> []
      then
        let missing = filter (\<lambda>t. \<not> list_ex (\<lambda>g. t \<in> set (gs_templates g)) (af_generators arg)) (af_templates arg)
        in af_generators arg @ (if missing \<noteq> [] then [generator_default\<lparr>gs_templates := missing\<rparr>] else [])
      else
        [generator_default\<lparr>gs_templates := af_templates arg, gs_script := af_script arg, gs_split_on := af_split_on arg,
           gs_js_post_process := af_js_post_process arg, gs_js_custom := af_js_custom arg, gs_js_script := af_js_script arg,
           gs_cache_key := af_cache_key arg, gs_cache_by_directory := af_cache_by_directory arg, gs_cache_ttl_ms := af_cache_ttl_ms arg,
           gs_cache_strategy := af_cache_strategy arg, gs_script_timeout_ms := af_script_timeout_ms arg, gs_builtin := af_builtin arg,
           gs_get_query_term := sm_get_query_term (af_meta arg),
           gs_js_get_query_term := or_else (af_js_get_query_term arg) (sm_js_get_query_term (af_meta arg))\<rparr>])"

definition generator_templates :: "generator_spec \<Rightarrow> arg_fields \<Rightarrow> template list" where
  "generator_templates g arg = (if af_generators arg = [] \<and> gs_templates g = [] then af_templates arg else gs_templates g)"

definition lists_paths_of :: "template list \<Rightarrow> bool" where
  "lists_paths_of ts \<longleftrightarrow> list_ex (\<lambda>t. t = Filepaths \<or> t = Folders) ts"

definition generator_lists_paths :: "generator_spec \<Rightarrow> arg_fields \<Rightarrow> bool" where
  "generator_lists_paths g arg = lists_paths_of (generator_templates g arg)"

definition arg_snapshot_for_generator :: "arg_fields \<Rightarrow> generator_spec \<Rightarrow> arg_fields" where
  "arg_snapshot_for_generator arg g =
     (if af_generators arg = [] then arg
      else arg_fields_default
        \<lparr>af_name := af_name arg, af_description := af_description arg, af_templates := gs_templates g, af_script := gs_script g,
         af_split_on := gs_split_on g, af_js_post_process := gs_js_post_process g, af_js_custom := gs_js_custom g, af_js_script := gs_js_script g,
         af_cache_key := gs_cache_key g, af_cache_by_directory := gs_cache_by_directory g, af_cache_ttl_ms := gs_cache_ttl_ms g,
         af_cache_strategy := gs_cache_strategy g, af_script_timeout_ms := or_else (gs_script_timeout_ms g) (af_script_timeout_ms arg),
         af_builtin := gs_builtin g,
         af_meta := meta_default
           \<lparr>sm_get_query_term := or_else (gs_get_query_term g) (sm_get_query_term (af_meta arg)),
            sm_js_get_query_term := or_else (or_else (gs_js_get_query_term g) (af_js_get_query_term arg)) (sm_js_get_query_term (af_meta arg)),
            sm_is_dangerous := sm_is_dangerous (af_meta arg)\<rparr>,
         af_js_get_query_term := or_else (gs_js_get_query_term g) (af_js_get_query_term arg), af_debounce_ms := af_debounce_ms arg\<rparr>)"

section \<open>Scripts and hooks\<close>

text \<open>\<open>str::split\<close> and \<open>str::replace\<close> with a non-empty pattern, on the same cuts as the hook language.\<close>

definition str_split :: "str \<Rightarrow> str \<Rightarrow> str list" where
  "str_split pattern txt = pieces pattern txt"

definition str_replace :: "str \<Rightarrow> str \<Rightarrow> str \<Rightarrow> str" where
  "str_replace pattern new txt = str_join new (str_split pattern txt)"

definition clean_output :: "str \<Rightarrow> str" where
  "clean_output output =
     trim_end_matches (\<lambda>c. c = c_nl) (trim_start_matches (\<lambda>c. c = c_nl)
       (str_replace (27 # lit ''[?25h'') [] (str_replace [c_cr, c_nl] [c_nl] output)))"

definition arg_row :: "str \<Rightarrow> suggestion" where
  "arg_row part = with_insert_value part (suggestion_new part [] (lit ''arg''))"

definition unique_script_rows :: "str list \<Rightarrow> suggestion list" where
  "unique_script_rows parts = map arg_row (retain_first (\<lambda>part. part) {} parts)"

definition all_lines :: "str \<Rightarrow> suggestion list" where
  "all_lines stdout = unique_script_rows (filter (\<lambda>line. line \<noteq> []) (map trim (str_lines stdout)))"

definition all_split :: "str \<Rightarrow> str \<Rightarrow> suggestion list" where
  "all_split stdout split_on =
     (if split_on = [] then all_lines stdout
      else if trim stdout = [] then [] else unique_script_rows (str_split split_on (trim stdout)))"

definition filter_lines :: "gen_env \<Rightarrow> str \<Rightarrow> str \<Rightarrow> bool \<Rightarrow> suggestion list" where
  "filter_lines env stdout query fuzzy =
     map arg_row (take MAX_RESULTS (filter (\<lambda>line. matches_query (ge_lowercase env) line query fuzzy)
       (filter (\<lambda>line. line \<noteq> []) (map trim (str_lines stdout)))))"

definition filter_split :: "gen_env \<Rightarrow> str \<Rightarrow> str \<Rightarrow> bool \<Rightarrow> str \<Rightarrow> suggestion list" where
  "filter_split env stdout query fuzzy split_on =
     (if split_on = [] then filter_lines env stdout query fuzzy
      else if trim stdout = [] then []
      else map arg_row (take MAX_RESULTS (filter (\<lambda>part. matches_query (ge_lowercase env) part query fuzzy) (str_split split_on (trim stdout)))))"

definition run_script :: "gen_env \<Rightarrow> str list \<Rightarrow> str \<Rightarrow> str \<Rightarrow> bool \<Rightarrow> nat \<Rightarrow> str option \<Rightarrow> suggestion list" where
  "run_script env script query cwd fuzzy timeout split_on =
     (case script of
        [] \<Rightarrow> []
      | command # args \<Rightarrow>
          (let stdout = ge_execute env command args cwd timeout
           in case split_on of
             Some separator \<Rightarrow> (if separator = [] then [] else filter_split env stdout query fuzzy separator)
           | None \<Rightarrow> []))"

definition shape_script_output :: "gen_env \<Rightarrow> arg_fields \<Rightarrow> str list \<Rightarrow> str list \<Rightarrow> str \<Rightarrow> suggestion list" where
  "shape_script_output env arg tokens script stdout0 =
     (let stdout = clean_output stdout0
      in if unwrap_or [] (af_split_on arg) \<noteq> [] then all_split stdout (the (af_split_on arg))
         else case af_js_post_process arg of
           Some hook_id \<Rightarrow> unwrap_or [] (ge_post_process env hook_id stdout tokens script)
         | None \<Rightarrow> [])"

definition run_script_or_post_process :: "gen_env \<Rightarrow> arg_fields \<Rightarrow> str list \<Rightarrow> str \<Rightarrow> nat \<Rightarrow> suggestion list" where
  "run_script_or_post_process env arg tokens cwd timeout =
     (let resolved =
        (case af_js_script arg of
           Some hook_id \<Rightarrow>
             map_option (\<lambda>script. (sc_command script, sc_args script,
               effective_script_timeout_ms (int timeout) (af_script_timeout_ms arg) (sc_timeout_ms script))) (ge_script_command env hook_id tokens)
         | None \<Rightarrow> (case af_script arg of command # args \<Rightarrow> Some (command, args, timeout) | [] \<Rightarrow> None))
      in case resolved of
        None \<Rightarrow> []
      | Some (command, args, timeout) \<Rightarrow>
          (if command = [] then []
           else
             let stdout = ge_cached_output env arg cwd (ge_script_cache_fallback env command args cwd) (ge_execute env command args cwd timeout)
             in shape_script_output env arg tokens (command # args) stdout))"

definition run_js_generators :: "gen_env \<Rightarrow> arg_fields \<Rightarrow> str list \<Rightarrow> str \<Rightarrow> str \<Rightarrow> str \<Rightarrow> bool \<Rightarrow> nat \<Rightarrow> suggestion list" where
  "run_js_generators env arg tokens query search_term cwd fuzzy timeout =
     (if cwd = [] then []
      else
        let keep = filter (\<lambda>s. matches_query (ge_lowercase env) (sg_name s) query fuzzy \<and> hidden_generated_row_is_visible s query);
            scripted = (if af_script arg \<noteq> [] \<or> af_js_script arg \<noteq> None then keep (run_script_or_post_process env arg tokens cwd timeout) else []);
            custom = (case af_js_custom arg of
              Some hook_id \<Rightarrow>
                keep (ge_cached_rows env arg cwd (lit ''custom'') (str_join (lit '' '') tokens)
                  (unwrap_or [] (ge_custom env hook_id tokens cwd search_term timeout (sm_is_dangerous (af_meta arg)))))
            | None \<Rightarrow> [])
        in scripted @ custom)"

section \<open>The built-in sources\<close>

definition sort_dedup :: "str list \<Rightarrow> str list" where
  "sort_dedup names = dedup_by (=) (sort_by_key (\<lambda>name. name) names)"

definition lines_to_suggestions :: "gen_env \<Rightarrow> str \<Rightarrow> str \<Rightarrow> bool \<Rightarrow> str \<Rightarrow> suggestion list" where
  "lines_to_suggestions env stdout query fuzzy kind =
     map (\<lambda>name. suggestion_new name [] kind) (take MAX_RESULTS (sort_dedup
       (filter (\<lambda>line. line \<noteq> [] \<and> matches_query (ge_lowercase env) line query fuzzy) (map trim (str_lines stdout)))))"

definition branch_lines_to_suggestions :: "gen_env \<Rightarrow> str \<Rightarrow> str \<Rightarrow> bool \<Rightarrow> suggestion list" where
  "branch_lines_to_suggestions env stdout query fuzzy =
     map (\<lambda>name. suggestion_new name [] (lit ''branch'')) (take MAX_RESULTS (sort_dedup
       (filter_map (\<lambda>line. case unwrap_or (line, []) (split_once c_tab line) of (name, symref) \<Rightarrow>
          (if trim symref = [] \<and> trim name \<noteq> [] \<and> matches_query (ge_lowercase env) (trim name) query fuzzy then Some (trim name) else None))
        (str_lines stdout))))"

definition described_rows :: "gen_env \<Rightarrow> str \<Rightarrow> str \<Rightarrow> bool \<Rightarrow> str \<Rightarrow> suggestion list" where
  "described_rows env stdout query fuzzy kind =
     take MAX_RESULTS (filter_map (\<lambda>line. case unwrap_or (line, []) (split_once c_tab line) of (name, description) \<Rightarrow>
       (if trim name = [] \<or> \<not> matches_query (ge_lowercase env) (trim name) query fuzzy then None
        else Some (suggestion_new (trim name) (trim description) kind))) (str_lines stdout))"

definition changed_path :: "str \<Rightarrow> str option" where
  "changed_path line =
     map_option (\<lambda>rest. let path = trim rest
       in trim_matches (\<lambda>c. c = 34) (case rfind_rest (lit '' -> '') path of Some tail \<Rightarrow> drop 4 tail | None \<Rightarrow> path)) (str_from line 3)"

definition changed_file_rows :: "gen_env \<Rightarrow> str \<Rightarrow> str \<Rightarrow> bool \<Rightarrow> suggestion list" where
  "changed_file_rows env stdout query fuzzy =
     map (\<lambda>name. suggestion_new name (lit ''Changed file'') (lit ''file'')) (take MAX_RESULTS (sort_dedup
       (filter (\<lambda>path. path \<noteq> [] \<and> matches_query (ge_lowercase env) path query fuzzy) (filter_map changed_path (str_lines stdout)))))"

definition parse_git_alias :: "str \<Rightarrow> suggestion option" where
  "parse_git_alias line0 =
     Option.bind (strip_prefix (lit ''alias.'') (trim line0)) (\<lambda>rest.
       let name = trim (takeWhile (\<lambda>c. \<not> is_whitespace c) rest);
           expansion = trim (drop 1 (dropWhile (\<lambda>c. \<not> is_whitespace c) rest))
       in if name = [] then None else Some (suggestion_new name (lit ''Alias for '' @ [39] @ expansion @ [39]) (lit ''arg'')))"

definition filter_cached_lines :: "gen_env \<Rightarrow> str list \<Rightarrow> str \<Rightarrow> bool \<Rightarrow> suggestion list" where
  "filter_cached_lines env lines query fuzzy =
     map (\<lambda>line. suggestion_new line [] (lit ''arg'')) (take MAX_RESULTS (filter (\<lambda>line. matches_query (ge_lowercase env) line query fuzzy) lines))"

text \<open>\<open>git_refs\<close> keeps its lines by the age of the repository's refs. The code releases the lock of the cache while
  git runs; lookup and insertion are one step here, as requests are served one after the other.\<close>

definition git_refs :: "gen_env \<Rightarrow> str \<Rightarrow> str \<Rightarrow> bool \<Rightarrow> nat \<Rightarrow> str list mtime_lru \<Rightarrow> suggestion list \<times> str list mtime_lru" where
  "git_refs env query cwd fuzzy timeout lru =
     (case ge_git_identity env cwd of (key, mtime) \<Rightarrow>
      case lru_get key mtime lru of
        (Some lines, lru') \<Rightarrow> (filter_cached_lines env lines query fuzzy, lru')
      | (None, lru') \<Rightarrow>
          (case ge_try_execute env (lit ''git'') (map lit [''for-each-ref'', ''--format=%(refname:short)'', ''refs/heads'', ''refs/tags'']) cwd timeout of
             None \<Rightarrow> ([], lru')
           | Some stdout \<Rightarrow>
               (let lines = filter (\<lambda>line. line \<noteq> []) (map trim (str_lines stdout))
                in (filter_cached_lines env lines query fuzzy, lru_insert key mtime lines lru'))))"

definition git_output :: "gen_env \<Rightarrow> string list \<Rightarrow> str \<Rightarrow> nat \<Rightarrow> (str \<Rightarrow> suggestion list) \<Rightarrow> suggestion list" where
  "git_output env args cwd timeout rows = (case ge_try_execute env (lit ''git'') (map lit args) cwd timeout of None \<Rightarrow> [] | Some stdout \<Rightarrow> rows stdout)"

definition json_object_at :: "string \<Rightarrow> json \<Rightarrow> (str \<times> json) list option" where
  "json_object_at key v =
     (case v of JObject members \<Rightarrow> (case map_of members (lit key) of Some (JObject inner) \<Rightarrow> Some inner | _ \<Rightarrow> None) | _ \<Rightarrow> None)"

definition npm_scripts :: "gen_env \<Rightarrow> str \<Rightarrow> str \<Rightarrow> bool \<Rightarrow> suggestion list" where
  "npm_scripts env query cwd fuzzy =
     (case Option.bind (ge_package_json env cwd) (json_object_at ''scripts'') of
        None \<Rightarrow> []
      | Some scripts \<Rightarrow>
          take MAX_RESULTS (sort_by_key sg_name
            (map (\<lambda>(name, cmd). suggestion_new name (case cmd of JString c \<Rightarrow> c | _ \<Rightarrow> []) (lit ''arg''))
              (filter (\<lambda>(name, _). matches_query (ge_lowercase env) name query fuzzy) scripts))))"

definition npm_deps :: "gen_env \<Rightarrow> str \<Rightarrow> str \<Rightarrow> bool \<Rightarrow> suggestion list" where
  "npm_deps env query cwd fuzzy =
     (case ge_package_json env cwd of
        None \<Rightarrow> []
      | Some pkg \<Rightarrow>
          map (\<lambda>name. suggestion_new name (lit ''dependency'') (lit ''arg'')) (take MAX_RESULTS
            (filter (\<lambda>name. matches_query (ge_lowercase env) name query fuzzy) (sort_dedup
              (concat (map (\<lambda>key. map fst (unwrap_or [] (json_object_at key pkg))) [''dependencies'', ''devDependencies'', ''optionalDependencies'']))))))"

definition run_builtin :: "gen_env \<Rightarrow> str list \<Rightarrow> str \<Rightarrow> str \<Rightarrow> bool \<Rightarrow> nat \<Rightarrow> builtin \<Rightarrow> str list mtime_lru \<Rightarrow> suggestion list \<times> str list mtime_lru" where
  "run_builtin env tokens query cwd fuzzy timeout b lru =
     (case b of
        GitRefs \<Rightarrow> git_refs env query cwd fuzzy timeout lru
      | GitBranches \<Rightarrow> (git_output env [''for-each-ref'', ''--format=%(refname:short)%09%(symref)'', ''refs/heads'', ''refs/remotes''] cwd timeout
          (\<lambda>stdout. branch_lines_to_suggestions env stdout query fuzzy), lru)
      | GitTags \<Rightarrow> (git_output env [''for-each-ref'', ''--format=%(refname:short)'', ''refs/tags''] cwd timeout
          (\<lambda>stdout. lines_to_suggestions env stdout query fuzzy (lit ''tag'')), lru)
      | GitCommits \<Rightarrow> (git_output env [''--no-optional-locks'', ''log'', ''--all'', ''--pretty=format:%h%x09%s'', ''-n'', ''100''] cwd timeout
          (\<lambda>stdout. described_rows env stdout query fuzzy (lit ''commit'')), lru)
      | GitRemotes \<Rightarrow> (git_output env [''remote''] cwd timeout (\<lambda>stdout. lines_to_suggestions env stdout query fuzzy (lit ''remote'')), lru)
      | GitChangedFiles \<Rightarrow> (git_output env [''--no-optional-locks'', ''status'', ''--short'', ''--untracked-files=all''] cwd timeout
          (\<lambda>stdout. changed_file_rows env stdout query fuzzy), lru)
      | GitStashes \<Rightarrow> (git_output env [''--no-optional-locks'', ''stash'', ''list'', ''--pretty=format:%gd%x09%s''] cwd timeout
          (\<lambda>stdout. described_rows env stdout query fuzzy (lit ''stash'')), lru)
      | GitAliases \<Rightarrow> (git_output env [''--no-optional-locks'', ''config'', ''--get-regexp'', ''^alias.''] cwd timeout
          (\<lambda>stdout. take MAX_RESULTS (filter (\<lambda>s. matches_query (ge_lowercase env) (sg_name s) query fuzzy) (filter_map parse_git_alias (str_lines stdout)))), lru)
      | NpmScripts \<Rightarrow> (npm_scripts env query cwd fuzzy, lru)
      | NpmDeps \<Rightarrow> (npm_deps env query cwd fuzzy, lru)
      | Cobra \<Rightarrow> (ge_cobra env tokens cwd fuzzy, lru))"

fun run_builtins :: "gen_env \<Rightarrow> str list \<Rightarrow> str \<Rightarrow> str \<Rightarrow> bool \<Rightarrow> nat \<Rightarrow> builtin list \<Rightarrow> str list mtime_lru \<Rightarrow> suggestion list \<times> str list mtime_lru" where
  "run_builtins env tokens query cwd fuzzy timeout [] lru = ([], lru)"
| "run_builtins env tokens query cwd fuzzy timeout (b # bs) lru =
     (case run_builtin env tokens query cwd fuzzy timeout b lru of (rows, lru') \<Rightarrow>
      case run_builtins env tokens query cwd fuzzy timeout bs lru' of (rest, lru'') \<Rightarrow> (rows @ rest, lru''))"

section \<open>One generator\<close>

text \<open>What the cancellation checks see: before a generator, inside it, and after it.\<close>

record gen_checks =
  gk_before :: "nat \<Rightarrow> bool"
  gk_scripts :: "nat \<Rightarrow> bool"
  gk_history :: "nat \<Rightarrow> bool"
  gk_after :: "nat \<Rightarrow> bool"
  gk_end :: bool

record gen_request =
  gr_tokens :: "str list"
  gr_query :: str
  gr_search_term :: str
  gr_cwd :: str
  gr_fuzzy :: bool

definition path_filter_of :: "gen_env \<Rightarrow> generator_spec \<Rightarrow> template list \<Rightarrow> path_filter" where
  "path_filter_of env g templates =
     \<lparr>pf_folders_only = (Folders \<in> set templates \<and> Filepaths \<notin> set templates \<or> gs_show_folders g = Some (lit ''only'')),
      pf_files_only = (gs_show_folders g = Some (lit ''never'')), pf_extensions = gs_extensions g, pf_equals = gs_equals g,
      pf_filter_folders = unwrap_or False (gs_filter_folders g), pf_file_priority = gs_file_priority g,
      pf_folder_priority = gs_folder_priority g, pf_root_directory = gs_root_directory g, pf_environment = ge_environment env,
      pf_matches = gs_matches g, pf_matches_flags = gs_matches_flags g\<rparr>"

definition history_template_suggestions :: "gen_env \<Rightarrow> str list \<Rightarrow> str \<Rightarrow> bool \<Rightarrow> suggestion list" where
  "history_template_suggestions env values query fuzzy =
     map arg_row (filter (\<lambda>v. query = [] \<or> matches_query (ge_lowercase env) v query fuzzy) values)"

definition generator_builtins :: "arg_fields \<Rightarrow> generator_spec \<Rightarrow> builtin list" where
  "generator_builtins arg g =
     retain_first (\<lambda>b. b) {}
       (if af_generators arg = []
        then af_builtins arg @ (case or_else (gs_builtin g) (af_builtin arg) of Some b \<Rightarrow> [b] | None \<Rightarrow> [])
        else (case gs_builtin g of Some b \<Rightarrow> [b] | None \<Rightarrow> []))"

definition template_rows_of :: "gen_env \<Rightarrow> generator_spec \<Rightarrow> template list \<Rightarrow> str list \<Rightarrow> str \<Rightarrow> str \<Rightarrow> str \<Rightarrow> bool \<Rightarrow> suggestion list" where
  "template_rows_of env g templates tokens query search_term cwd fuzzy =
     (let rows = (if lists_paths_of templates then ge_complete_path env search_term cwd fuzzy (path_filter_of env g templates) else []) @
                 (if History \<in> set templates then history_template_suggestions env (ge_history_values env) query fuzzy else [])
      in case gs_js_filter_template_suggestions g of
        Some hook \<Rightarrow> unwrap_or rows (ge_filter_template env hook rows tokens)
      | None \<Rightarrow> rows)"

definition generate_from_generator ::
  "gen_env \<Rightarrow> gen_checks \<Rightarrow> nat \<Rightarrow> arg_fields \<Rightarrow> generator_spec \<Rightarrow> gen_request \<Rightarrow> str \<Rightarrow> str \<Rightarrow> nat \<Rightarrow> str list mtime_lru \<Rightarrow>
   suggestion list \<times> str list mtime_lru" where
  "generate_from_generator env chk i arg g req query search_term timeout0 lru =
     (let timeout = effective_script_timeout_ms (int timeout0) (or_else (gs_script_timeout_ms g) (af_script_timeout_ms arg)) None;
          tokens = gr_tokens req; cwd = gr_cwd req; fuzzy = gr_fuzzy req;
          (builtin_rows, lru') = run_builtins env tokens query cwd fuzzy timeout (generator_builtins arg g) lru;
          snapshot = arg_snapshot_for_generator arg g;
          script_rows =
            (case ge_session_cwd env of
               Some session_cwd \<Rightarrow> run_js_generators env snapshot tokens query search_term (if cwd = [] then session_cwd else cwd) fuzzy timeout
             | None \<Rightarrow>
                 (if af_script snapshot \<noteq> [] \<and> cwd \<noteq> [] then run_script env (af_script snapshot) query cwd fuzzy timeout (af_split_on snapshot) else []));
          templates = generator_templates g arg
      in if gk_scripts chk i \<or> History \<in> set templates \<and> gk_history chk i then ([], lru')
         else (builtin_rows @ script_rows @ template_rows_of env g templates tokens query search_term cwd fuzzy, lru'))"

section \<open>All generators of an argument\<close>

record gen_state =
  gl_session :: generator_session
  gl_refs :: "str list mtime_lru"
  gl_pending :: bool
  gl_out :: "suggestion list"

definition has_arg_rule :: "arg_fields \<Rightarrow> bool" where
  "has_arg_rule arg \<longleftrightarrow>
     sm_get_query_term (af_meta arg) \<noteq> None \<or> af_js_get_query_term arg \<noteq> None \<or> sm_js_get_query_term (af_meta arg) \<noteq> None"

definition has_query_rule :: "arg_fields \<Rightarrow> generator_spec \<Rightarrow> bool" where
  "has_query_rule arg g \<longleftrightarrow> gs_get_query_term g \<noteq> None \<or> gs_js_get_query_term g \<noteq> None \<or> has_arg_rule arg"

definition generator_query :: "gen_env \<Rightarrow> arg_fields \<Rightarrow> generator_spec \<Rightarrow> str \<Rightarrow> str" where
  "generator_query env arg g search_term =
     query_term_with_hook (ge_get_query_term env) search_term (or_else (gs_get_query_term g) (sm_get_query_term (af_meta arg)))
       (or_else (or_else (gs_js_get_query_term g) (af_js_get_query_term arg)) (sm_js_get_query_term (af_meta arg)))"

definition set_entry :: "nat \<Rightarrow> (cached_generator \<Rightarrow> cached_generator) \<Rightarrow> gen_state \<Rightarrow> gen_state" where
  "set_entry i f st =
     (let entries = gn_entries (gl_session st)
      in st\<lparr>gl_session := (gl_session st)\<lparr>gn_entries := entries[i := f (entries ! i)]\<rparr>\<rparr>)"

text \<open>What is done with the \<open>i\<close>-th generator: wait, show what is cached, or run; a run that sees the
  cancellation gives \<open>None\<close> for its rows.\<close>

definition entry_rows ::
  "gen_env \<Rightarrow> gen_checks \<Rightarrow> nat \<Rightarrow> arg_fields \<Rightarrow> generator_spec \<Rightarrow> gen_request \<Rightarrow> bool \<Rightarrow> str \<Rightarrow> gen_state \<Rightarrow> suggestion list option \<times> gen_state" where
  "entry_rows env chk i arg g req arg_changed previous st =
     (let search_term = parser_inner_text (gr_search_term req); fuzzy = gr_fuzzy req;
          entry = gn_entries (gl_session st) ! i;
          debounce = (af_debounce_ms arg \<noteq> None);
          trigger = should_trigger env (gs_trigger g) debounce (arg_changed \<or> \<not> cg_ran entry) search_term previous (generator_lists_paths g arg);
          query = generator_query env arg g search_term;
          follow_up = (debounce \<and> \<not> arg_changed \<and> cg_needs_run entry \<and> gn_search_term (gl_session st) = search_term)
      in if debounce \<and> \<not> follow_up \<and> (trigger \<or> arg_changed)
         then (Some (if has_query_rule arg g then [] else refilter_generated env (cg_results entry) query fuzzy),
               set_entry i (\<lambda>e. e\<lparr>cg_needs_run := True\<rparr>) (st\<lparr>gl_pending := True\<rparr>))
         else if \<not> trigger \<and> \<not> follow_up then (Some (refilter_generated env (cg_results entry) query fuzzy), st)
         else
           (case generate_from_generator env chk i arg g req query search_term
                   (effective_script_timeout_ms (configured_script_timeout_ms_from (ge_script_timeout env)) (af_script_timeout_ms arg) None) (gl_refs st) of
              (rows0, refs) \<Rightarrow>
                (if gk_after chk i then (None, st\<lparr>gl_refs := refs\<rparr>)
                 else
                   let rows = dedup_session_rows rows0
                   in (Some rows, set_entry i (\<lambda>e. \<lparr>cg_results = rows, cg_needs_run = False, cg_ran = True\<rparr>) (st\<lparr>gl_refs := refs\<rparr>)))))"

fun run_generators ::
  "gen_env \<Rightarrow> gen_checks \<Rightarrow> arg_fields \<Rightarrow> gen_request \<Rightarrow> bool \<Rightarrow> str \<Rightarrow> nat \<Rightarrow> generator_spec list \<Rightarrow> gen_state \<Rightarrow> gen_state" where
  "run_generators env chk arg req arg_changed previous i [] st =
     st\<lparr>gl_session := (gl_session st)\<lparr>gn_search_term := parser_inner_text (gr_search_term req)\<rparr>\<rparr>"
| "run_generators env chk arg req arg_changed previous i (g # gs) st =
     (if gk_before chk i then st
      else case entry_rows env chk i arg g req arg_changed previous st of
        (None, st') \<Rightarrow> st'
      | (Some rows, st') \<Rightarrow>
          (let stamped = stamp_query_term (generator_query env arg g (parser_inner_text (gr_search_term req))) (gr_search_term req) (has_query_rule arg g) rows
           in run_generators env chk arg req arg_changed previous (i + 1) gs (st'\<lparr>gl_out := gl_out st' @ stamped\<rparr>)))"

text \<open>The session is cut to the generators of the argument, or started afresh for another argument.\<close>

definition open_session :: "str \<Rightarrow> nat \<Rightarrow> generator_session \<Rightarrow> bool \<times> generator_session" where
  "open_session arg_id n session =
     (let arg_changed = (gn_arg_id session \<noteq> arg_id);
          kept = (if arg_changed then \<lparr>gn_arg_id = arg_id, gn_search_term = [], gn_entries = []\<rparr> else session)
      in (arg_changed, kept\<lparr>gn_entries := take n (gn_entries kept) @ replicate (n - length (gn_entries kept)) cached_generator_default\<rparr>))"

definition generate_for_arg_with_history ::
  "gen_env \<Rightarrow> gen_checks \<Rightarrow> arg_fields \<Rightarrow> gen_request \<Rightarrow> generator_session \<Rightarrow> str list mtime_lru \<Rightarrow> bool \<times> int \<Rightarrow>
   suggestion list \<times> generator_session \<times> str list mtime_lru \<times> (bool \<times> int)" where
  "generate_for_arg_with_history env chk arg req session refs pending =
     (let search_term = parser_inner_text (gr_search_term req);
          arg_query = (if has_arg_rule arg
            then query_term_with_hook (ge_get_query_term env) search_term (sm_get_query_term (af_meta arg))
              (or_else (af_js_get_query_term arg) (sm_js_get_query_term (af_meta arg)))
            else gr_query req);
          generators = effective_generators arg;
          (arg_changed, opened) = open_session (generator_arg_id (gr_tokens req) arg (gr_cwd req) (gr_search_term req)) (length generators) session;
          st = run_generators env chk arg req arg_changed (gn_search_term opened) 0 generators
            \<lparr>gl_session = opened, gl_refs = refs, gl_pending = False, gl_out = generate_static_seeds env arg arg_query search_term (gr_fuzzy req)\<rparr>
      in if gk_end chk then ([], gl_session st, gl_refs st, pending)
         else
           let pending' = (if gl_pending st then (True, unwrap_or 200 (af_debounce_ms arg)) else pending);
               rows = (if sm_is_dangerous (af_meta arg) then map (\<lambda>s. s\<lparr>sg_is_dangerous := True\<rparr>) (gl_out st) else gl_out st)
           in (dedup_suggestions (stamp_query_term arg_query (gr_search_term req) (has_arg_rule arg) rows), gl_session st, gl_refs st, pending'))"

end
