(* ===== verification/Filegen.thy ===== *)
theory Filegen
  imports Generators
begin

text \<open>
  The file listing of the path templates (\<open>filegen.rs\<close>): expansion of a typed path, the directory it
  names, the filters, and the bounded heap that keeps the first rows. The file system, the account
  database, the environment of the process, the regex engine and the Unicode tables answer through
  \<open>file_env\<close>; a row of the listing is kept by the order \<open>cmp_candidate\<close>.
\<close>

section \<open>Entries and candidates\<close>

datatype file_type = FDirectory | FSymlink | FOther

record dir_entry =
  de_name :: str
  de_file_type :: "file_type option"
  de_target_is_dir :: bool

text \<open>A directory is read as a list; an entry that could not be read is \<open>None\<close>.\<close>

record file_env =
  fe_lowercase :: "str \<Rightarrow> str"
  fe_lower_char :: "rchar \<Rightarrow> str"
  fe_is_lowercase :: "rchar \<Rightarrow> bool"
  fe_var :: "str \<Rightarrow> str option"
  fe_home_os :: "str option"
  fe_user_home :: "str \<Rightarrow> str option"
  fe_regex :: "str \<Rightarrow> (str \<Rightarrow> bool) option"
  fe_read_dir :: "str \<Rightarrow> dir_entry option list option"

record path_checks =
  pk_open :: bool
  pk_start :: bool
  pk_entry :: "nat \<Rightarrow> nat \<Rightarrow> bool"
  pk_sort :: bool
  pk_end :: bool

definition entry_is_directory :: "bool \<Rightarrow> dir_entry \<Rightarrow> bool" where
  "entry_is_directory cancelled e =
     (case de_file_type e of
        Some FDirectory \<Rightarrow> True
      | Some FOther \<Rightarrow> False
      | _ \<Rightarrow> (if cancelled then False else de_target_is_dir e))"

record path_candidate =
  pc_name :: str
  pc_is_dir :: bool
  pc_sequence :: nat

section \<open>The order of the names\<close>

fun exact_difference :: "(rchar \<Rightarrow> bool) \<Rightarrow> str \<Rightarrow> str \<Rightarrow> ordering option" where
  "exact_difference lower (l # ls) (r # rs) =
     (if l = r then exact_difference lower ls rs
      else if lower l \<noteq> lower r then Some (if lower l then Less else Greater)
      else Some (cmp_of l r))"
| "exact_difference lower _ _ = None"

definition compare_file_names :: "file_env \<Rightarrow> str \<Rightarrow> str \<Rightarrow> ordering" where
  "compare_file_names env left right =
     (let folded = cmp_of (concat (map (fe_lower_char env) left)) (concat (map (fe_lower_char env) right))
      in if folded \<noteq> Equal then folded
         else unwrap_or (cmp_of (str_len left) (str_len right)) (exact_difference (fe_is_lowercase env) left right))"

definition cmp_candidate :: "file_env \<Rightarrow> path_candidate \<Rightarrow> path_candidate \<Rightarrow> ordering" where
  "cmp_candidate env a b =
     cmp_then (cmp_then (cmp_then (cmp_of (starts_with_char (pc_name a) c_dot) (starts_with_char (pc_name b) c_dot))
       (compare_file_names env (pc_name a) (pc_name b))) (cmp_of (pc_sequence a) (pc_sequence b))) (cmp_of (pc_is_dir a) (pc_is_dir b))"

text \<open>The heap is the list of what it holds; its root is the greatest, \<open>into_sorted_vec\<close> sorts it.\<close>

definition heap_worst :: "('a \<Rightarrow> 'a \<Rightarrow> ordering) \<Rightarrow> 'a list \<Rightarrow> 'a" where
  "heap_worst cmp heap = fold (\<lambda>x worst. if cmp worst x = Less then x else worst) (tl heap) (hd heap)"

definition retain_best :: "('a \<Rightarrow> 'a \<Rightarrow> ordering) \<Rightarrow> nat \<Rightarrow> 'a \<Rightarrow> 'a list \<Rightarrow> 'a list" where
  "retain_best cmp n x heap =
     (if length heap < n then x # heap
      else if heap \<noteq> [] \<and> cmp x (heap_worst cmp heap) = Less then x # remove1 (heap_worst cmp heap) heap
      else heap)"

definition retain_path_candidate :: "file_env \<Rightarrow> path_candidate \<Rightarrow> path_candidate list \<Rightarrow> path_candidate list" where
  "retain_path_candidate env x names = retain_best (cmp_candidate env) (MAX_RESULTS - 1) x names"

section \<open>Filters\<close>

text \<open>\<open>while\<close> the extension grows to the left by one part at a time.\<close>

fun suffix_matches :: "str list \<Rightarrow> str list \<Rightarrow> str \<Rightarrow> bool" where
  "suffix_matches extensions [] ext = (ext \<in> set extensions)"
| "suffix_matches extensions (part # parts) ext =
     (ext \<in> set extensions \<or> suffix_matches extensions parts (part @ c_dot # ext))"

definition extension_matches :: "str \<Rightarrow> str list \<Rightarrow> bool" where
  "extension_matches name extensions =
     (if extensions = [] then False
      else case rev (tl (split_char c_dot name)) of
        [] \<Rightarrow> False
      | ext # parts \<Rightarrow> suffix_matches extensions parts ext)"

definition matches_regex_pattern :: "str \<Rightarrow> str option \<Rightarrow> str" where
  "matches_regex_pattern source flags =
     (let p = (case flags of None \<Rightarrow> [] | Some flags \<Rightarrow> filter (\<lambda>flag. flag \<in> set flags) (lit ''ims''))
      in if p = [] then source else lit ''(?'' @ p @ lit '')'' @ source)"

definition MAX_MATCHES_REGEX_CACHE :: nat where "MAX_MATCHES_REGEX_CACHE = 32"

type_synonym regex_cache = "(str \<times> (str \<Rightarrow> bool) option) list"

definition cached_matches_regex :: "file_env \<Rightarrow> str \<Rightarrow> regex_cache \<Rightarrow> (str \<Rightarrow> bool) option \<times> regex_cache" where
  "cached_matches_regex env pattern cache =
     (case map_of cache pattern of
        Some compiled \<Rightarrow> (compiled, cache)
      | None \<Rightarrow>
          (let compiled = fe_regex env pattern
           in (compiled, (pattern, compiled) # (if length cache \<ge> MAX_MATCHES_REGEX_CACHE then [] else cache))))"

definition compiled_matches :: "file_env \<Rightarrow> path_filter \<Rightarrow> regex_cache \<Rightarrow> (str \<Rightarrow> bool) option \<times> regex_cache" where
  "compiled_matches env f cache =
     (case pf_matches f of
        None \<Rightarrow> (None, cache)
      | Some source \<Rightarrow> (if source = [] then (None, cache) else cached_matches_regex env (matches_regex_pattern source (pf_matches_flags f)) cache))"

definition path_name_passes_filter :: "str \<Rightarrow> bool \<Rightarrow> path_filter \<Rightarrow> (str \<Rightarrow> bool) option \<Rightarrow> bool" where
  "path_name_passes_filter name is_dir f matches \<longleftrightarrow>
     pf_extensions f = [] \<and> pf_equals f = [] \<and> pf_matches f = None \<or>
     is_dir \<and> \<not> pf_filter_folders f \<or> name \<in> set (pf_equals f) \<or>
     (case matches of Some is_match \<Rightarrow> is_match name | None \<Rightarrow> False) \<or> extension_matches name (pf_extensions f)"

definition path_suggestion_with_filter :: "path_filter \<Rightarrow> str \<Rightarrow> bool \<Rightarrow> suggestion" where
  "path_suggestion_with_filter f name is_dir =
     (let kind = (if is_dir then lit ''folder'' else lit ''file'');
          s = with_insert_value name (suggestion_new name kind kind)
      in case (if is_dir then pf_folder_priority f else pf_file_priority f) of Some p \<Rightarrow> with_priority p s | None \<Rightarrow> s)"

section \<open>Reading a directory\<close>

text \<open>One entry: \<open>None\<close> when a cancellation was seen, \<open>Some None\<close> when it is left out.\<close>

definition entry_step ::
  "file_env \<Rightarrow> path_checks \<Rightarrow> path_filter \<Rightarrow> (str \<Rightarrow> bool) option \<Rightarrow> str \<Rightarrow> bool \<Rightarrow> nat \<Rightarrow> nat \<Rightarrow> dir_entry \<Rightarrow> path_candidate option option" where
  "entry_step env chk f matches query fuzzy i sequence e =
     (if de_name e = lit ''.'' \<or> de_name e = lit ''..'' \<or> eq_ignore_ascii_case (de_name e) (lit ''.DS_Store'') then Some None
      else if pk_entry chk i 2 then None
      else
        let is_dir = entry_is_directory (pk_entry chk i 3) e
        in if pk_entry chk i 4 then None
           else if pf_folders_only f \<and> \<not> is_dir \<or> pf_files_only f \<and> is_dir then Some None
           else
             let name = (if is_dir \<and> \<not> ends_with (de_name e) [c_slash] then de_name e @ [c_slash] else de_name e)
             in if pk_entry chk i 5 then None
                else if \<not> path_name_passes_filter name is_dir f matches \<or> query \<noteq> [] \<and> \<not> matches_query (fe_lowercase env) name query fuzzy then Some None
                else Some (Some \<lparr>pc_name = name, pc_is_dir = is_dir, pc_sequence = sequence\<rparr>))"

fun scan_entries ::
  "file_env \<Rightarrow> path_checks \<Rightarrow> path_filter \<Rightarrow> (str \<Rightarrow> bool) option \<Rightarrow> str \<Rightarrow> bool \<Rightarrow> nat \<Rightarrow> nat \<Rightarrow> path_candidate list \<Rightarrow>
   dir_entry option list \<Rightarrow> path_candidate list option" where
  "scan_entries env chk f matches query fuzzy i sequence names [] = (if pk_entry chk i 0 then None else Some names)"
| "scan_entries env chk f matches query fuzzy i sequence names (entry # entries) =
     (if pk_entry chk i 0 \<or> pk_entry chk i 1 then None
      else case entry of
        None \<Rightarrow> scan_entries env chk f matches query fuzzy (i + 1) sequence names entries
      | Some e \<Rightarrow>
          (case entry_step env chk f matches query fuzzy i sequence e of
             None \<Rightarrow> None
           | Some None \<Rightarrow> scan_entries env chk f matches query fuzzy (i + 1) (sequence + 1) names entries
           | Some (Some candidate) \<Rightarrow>
               scan_entries env chk f matches query fuzzy (i + 1) (sequence + 1) (retain_path_candidate env candidate names) entries))"

definition parent_row :: "file_env \<Rightarrow> path_filter \<Rightarrow> (str \<Rightarrow> bool) option \<Rightarrow> str \<Rightarrow> bool \<Rightarrow> suggestion list" where
  "parent_row env f matches query fuzzy =
     (if \<not> pf_files_only f \<and> matches_query (fe_lowercase env) (lit ''../'') query fuzzy \<and> path_name_passes_filter (lit ''../'') True f matches
      then [(path_suggestion_with_filter f (lit ''../'') True)\<lparr>sg_query_term := Some query\<rparr>] else [])"

definition complete_path_from_entries ::
  "file_env \<Rightarrow> path_checks \<Rightarrow> dir_entry option list \<Rightarrow> str \<Rightarrow> str \<Rightarrow> bool \<Rightarrow> path_filter \<Rightarrow> regex_cache \<Rightarrow> suggestion list \<times> regex_cache" where
  "complete_path_from_entries env chk entries query display_prefix fuzzy f cache =
     (if pk_start chk then ([], cache)
      else case compiled_matches env f cache of (matches, cache') \<Rightarrow>
        (case scan_entries env chk f matches query fuzzy 0 0 [] entries of
           None \<Rightarrow> ([], cache')
         | Some names \<Rightarrow>
             (if pk_sort chk then ([], cache')
              else
                let rows = map (\<lambda>c. path_suggestion_with_filter f (display_prefix @ pc_name c) (pc_is_dir c)) (sort_by (cmp_candidate env) names) @
                           parent_row env f matches query fuzzy
                in (if pk_end chk then [] else rows, cache'))))"

section \<open>The typed path\<close>

definition is_environment_name_character :: "rchar \<Rightarrow> bool" where
  "is_environment_name_character c \<longleftrightarrow> is_ascii_alphanumeric c \<or> c = c_under"

definition environment_value :: "file_env \<Rightarrow> (str \<times> str) list \<Rightarrow> str \<Rightarrow> str option" where
  "environment_value env vars name = (case map_of vars name of Some v \<Rightarrow> Some v | None \<Rightarrow> fe_var env name)"

definition parse_braced_variable :: "str \<Rightarrow> (str \<times> str option) option" where
  "parse_braced_variable body =
     (let (name, fallback) = (case window_position (lit '':-'') body of None \<Rightarrow> (body, None) | Some i \<Rightarrow> (take i body, Some (drop (i + 2) body)))
      in if name \<noteq> [] \<and> list_all is_environment_name_character name then Some (name, fallback) else None)"

lemma dropWhile_rest: "dropWhile P (tl cs) = x # rest \<Longrightarrow> length rest \<le> length cs"
  using length_dropWhile_le [of P "tl cs"] by simp

function expand_environment_variables :: "(str \<Rightarrow> str option) \<Rightarrow> str \<Rightarrow> str" where
  "expand_environment_variables lookup [] = []"
| "expand_environment_variables lookup (c # cs) =
     (if c \<noteq> c_dollar then c # expand_environment_variables lookup cs
      else if starts_with_char cs c_lbrace
      then
        (case dropWhile (\<lambda>c. c \<noteq> c_rbrace) (tl cs) of
           [] \<Rightarrow> c_dollar # expand_environment_variables lookup cs
         | _ # rest \<Rightarrow>
             (let body = takeWhile (\<lambda>c. c \<noteq> c_rbrace) (tl cs); literally = lit ''${'' @ body @ [c_rbrace]
              in (case parse_braced_variable body of
                    Some (name, fallback) \<Rightarrow> unwrap_or (unwrap_or literally fallback) (lookup name)
                  | None \<Rightarrow> literally) @ expand_environment_variables lookup rest))
      else
        let name = takeWhile is_environment_name_character cs
        in if name = [] then c_dollar # expand_environment_variables lookup cs
           else unwrap_or (c_dollar # name) (lookup name) @ expand_environment_variables lookup (dropWhile is_environment_name_character cs))"
  by pat_completeness auto
termination
  by (relation "measure (\<lambda>(_, cs). length cs)") (auto simp: less_Suc_eq_le length_dropWhile_le dropWhile_rest)

text \<open>\<open>Path::join\<close> on Unix, on the text of the path.\<close>

definition path_join :: "str \<Rightarrow> str \<Rightarrow> str" where
  "path_join base rel =
     (if starts_with_char rel c_slash then rel else if base = [] \<or> ends_with base [c_slash] then base @ rel else base @ c_slash # rel)"

definition join_home_prefix :: "str \<Rightarrow> str \<Rightarrow> bool \<Rightarrow> str" where
  "join_home_prefix home tail_path append_slash =
     (let expanded = (if tail_path = [] then home else path_join home tail_path)
      in if append_slash \<and> \<not> ends_with expanded [c_slash] then expanded @ [c_slash] else expanded)"

definition expand_tilde :: "file_env \<Rightarrow> (str \<times> str) list \<Rightarrow> str \<Rightarrow> str" where
  "expand_tilde env vars path =
     (case strip_prefix (lit ''~'') path of
        None \<Rightarrow> path
      | Some rest \<Rightarrow>
          (let (home, tail_path) =
             (if rest = [] \<or> starts_with_char rest c_slash then (or_else (environment_value env vars (lit ''HOME'')) (fe_home_os env), rest)
              else (fe_user_home env (takeWhile (\<lambda>c. c \<noteq> c_slash) rest), dropWhile (\<lambda>c. c \<noteq> c_slash) rest));
               trimmed = trim_start_matches (\<lambda>c. c = c_slash) tail_path
           in case home of
             None \<Rightarrow> path
           | Some home \<Rightarrow> join_home_prefix home trimmed (tail_path = [] \<or> starts_with_char tail_path c_slash \<and> trimmed = [])))"

definition expand_home_with :: "file_env \<Rightarrow> (str \<times> str) list \<Rightarrow> str \<Rightarrow> str" where
  "expand_home_with env vars path = expand_environment_variables (environment_value env vars) (expand_tilde env vars path)"

definition dir_prefix :: "str \<Rightarrow> str" where
  "dir_prefix p =
     (if ends_with p [c_slash] then p
      else case rfind_rest [c_slash] p of Some tail \<Rightarrow> take (length p - length tail + 1) p | None \<Rightarrow> [])"

definition join_base :: "file_env \<Rightarrow> str \<Rightarrow> str \<Rightarrow> str" where
  "join_base env base rel =
     (let expanded = expand_tilde env [] rel in if starts_with_char expanded c_slash then expanded else path_join base rel)"

definition split_prefix :: "file_env \<Rightarrow> str \<Rightarrow> str \<Rightarrow> str \<times> str" where
  "split_prefix env p cwd =
     (if cwd = [] \<and> \<not> starts_with_char p c_slash \<and> \<not> starts_with_char p 126 then ([], [])
      else
        let base = (if cwd = [] then [c_slash] else cwd)
        in if p = [] then (base, [])
           else if ends_with p [c_slash] then (join_base env base p, [])
           else case rfind_rest [c_slash] p of
             Some tail \<Rightarrow> (join_base env base (take (length p - length tail + 1) p), drop 1 tail)
           | None \<Rightarrow> (base, p))"

definition list_directory_of :: "path_filter \<Rightarrow> str \<Rightarrow> str" where
  "list_directory_of f cwd = (case pf_root_directory f of Some r \<Rightarrow> (if r = [] then cwd else r) | None \<Rightarrow> cwd)"

definition complete_path_filtered ::
  "file_env \<Rightarrow> path_checks \<Rightarrow> str \<Rightarrow> str \<Rightarrow> bool \<Rightarrow> path_filter \<Rightarrow> regex_cache \<Rightarrow> suggestion list \<times> regex_cache" where
  "complete_path_filtered env chk typed cwd fuzzy f cache =
     (let list_cwd = list_directory_of f cwd
      in if list_cwd = [] \<and> \<not> starts_with_char typed c_slash \<and> \<not> starts_with_char typed 126 then ([], cache)
         else
           let p = (if typed = lit ''~'' then lit ''~/'' else typed);
               (dir, query) = split_prefix env (expand_home_with env (pf_environment f) p) list_cwd
           in if pk_open chk then ([], cache)
              else case fe_read_dir env dir of
                None \<Rightarrow> ([], cache)
              | Some entries \<Rightarrow> complete_path_from_entries env chk entries query (dir_prefix p) fuzzy f cache)"

end
