(* ===== verification/Filegen_Facts.thy ===== *)
theory Filegen_Facts
  imports Filegen
begin

text \<open>
  What holds of the file listing: the bounded heap gives the first rows of the stable sort of all
  entries that pass, a cancelled listing gives no row, the names shown lead to the entries listed.
\<close>

section \<open>A bounded heap over a linear comparison\<close>

locale linear_compare = total_compare +
  assumes cmp_antisym: "cmp a b = Equal \<Longrightarrow> a = b"
begin

lemma le_antisym: "le a b \<Longrightarrow> le b a \<Longrightarrow> a = b"
  using equal_iff_le cmp_antisym by blast

lemma sorted_unique: "sorted_wrt le xs \<Longrightarrow> sorted_wrt le ys \<Longrightarrow> mset xs = mset ys \<Longrightarrow> xs = ys"
proof (induction xs arbitrary: ys)
  case (Cons x xs)
  then obtain y ys' where ys: "ys = y # ys'" by (cases ys) auto
  have "x \<in> set ys" "y \<in> set (x # xs)" using mset_eq_setD [OF Cons.prems(3)] ys by auto
  then have "x = y" using Cons.prems(1,2) ys le_antisym by auto
  then show ?case using Cons.IH [of ys'] Cons.prems ys by simp
qed simp

lemma heap_worst_fold:
  "fold (\<lambda>x worst. if cmp worst x = Less then x else worst) xs w \<in> insert w (set xs) \<and>
   (\<forall>y \<in> insert w (set xs). le y (fold (\<lambda>x worst. if cmp worst x = Less then x else worst) xs w))"
proof (induction xs arbitrary: w)
  case Nil
  then show ?case using le_total [of w w] by simp
next
  case (Cons x xs)
  define w' where "w' = (if cmp w x = Less then x else w)"
  define r where "r = fold (\<lambda>x worst. if cmp worst x = Less then x else worst) xs w'"
  have step: "fold (\<lambda>x worst. if cmp worst x = Less then x else worst) (x # xs) w = r" by (simp add: r_def w'_def)
  have up: "le x w'" "le w w'" using le_total [of w w] le_total [of x x] cmp_flip [of w x] by (auto simp: le_def w'_def)
  have IH: "r \<in> insert w' (set xs)" "\<forall>y \<in> insert w' (set xs). le y r" using Cons.IH [of w'] by (simp_all add: r_def)
  have "w' \<in> {x, w}" by (simp add: w'_def)
  with IH(1) have "r \<in> insert w (set (x # xs))" by auto
  moreover have "le w' r" using IH(2) by simp
  then have "le x r" "le w r" using up le_trans by blast+
  ultimately show ?case unfolding step using IH(2) by simp
qed

lemma heap_worst_greatest: "heap \<noteq> [] \<Longrightarrow> heap_worst cmp heap \<in> set heap \<and> (\<forall>y \<in> set heap. le y (heap_worst cmp heap))"
  using heap_worst_fold [of "tl heap" "hd heap"] by (cases heap) (simp_all add: heap_worst_def)

lemma insort_by_snoc: "cmp x w \<noteq> Greater \<Longrightarrow> insort_by cmp x (s @ [w]) = insort_by cmp x s @ [w]"
  by (induction s) auto

lemma retain_best_sorted:
  assumes "0 < n" "length heap \<le> n"
  shows "sort_by cmp (retain_best cmp n x heap) = take n (insort_by cmp x (sort_by cmp heap))" "length (retain_best cmp n x heap) \<le> n"
proof -
  let ?w = "heap_worst cmp heap" and ?s = "sort_by cmp (remove1 (heap_worst cmp heap) heap)"
  have "sort_by cmp (retain_best cmp n x heap) = take n (insort_by cmp x (sort_by cmp heap)) \<and> length (retain_best cmp n x heap) \<le> n"
  proof (cases "length heap < n")
    case False
    with assms have full: "length heap = n" "heap \<noteq> []" by auto
    note worst = heap_worst_greatest [OF full(2)]
    have split: "sort_by cmp heap = ?s @ [?w]"
      using worst by (intro sorted_unique) (auto simp: sorted_sort_by sorted_wrt_append dest: notin_set_remove1)
    have len: "length ?s = n - 1" using worst full by (simp add: length_remove1)
    show ?thesis
    proof (cases "cmp x ?w = Less")
      case True
      then show ?thesis using full assms len False worst by (simp add: retain_best_def split insort_by_snoc length_remove1)
    next
      case False
      then have above: "le ?w x" using le_total [of x ?w] by (metis cmp_flip le_def ordering.exhaust)
      then have "\<forall>y \<in> set heap. le y x" using worst le_trans by blast
      then have "insort_by cmp x (?s @ [?w]) = ?s @ [?w] @ [x]"
        unfolding split [symmetric] append_assoc [symmetric]
        by (intro sorted_unique) (simp_all add: sorted_insort_by sorted_sort_by sorted_wrt_append)
      then show ?thesis using False full len assms(1) by (cases n) (simp_all add: retain_best_def split)
    qed
  qed (use assms in \<open>simp add: retain_best_def\<close>)
  then show "sort_by cmp (retain_best cmp n x heap) = take n (insort_by cmp x (sort_by cmp heap))" "length (retain_best cmp n x heap) \<le> n" by auto
qed

lemma take_insort_by: "take n (insort_by cmp x (take n s)) = take n (insort_by cmp x s)"
proof (induction s arbitrary: n)
  case (Cons y s)
  show ?case using Cons.IH by (cases n) (auto simp: take_Cons split: nat.splits)
qed simp

lemma take_fold_insort: "take n (fold (insort_by cmp) xs (take n s)) = take n (fold (insort_by cmp) xs s)"
proof (induction xs arbitrary: s)
  case (Cons x xs)
  have "take n (fold (insort_by cmp) xs (insort_by cmp x (take n s))) = take n (fold (insort_by cmp) xs (take n (insort_by cmp x (take n s))))"
    by (rule Cons.IH [symmetric])
  also have "\<dots> = take n (fold (insort_by cmp) xs (insort_by cmp x s))" unfolding take_insort_by by (rule Cons.IH)
  finally show ?case by simp
qed simp

lemma retain_best_fold:
  "0 < n \<Longrightarrow> length heap \<le> n \<Longrightarrow> sort_by cmp (fold (retain_best cmp n) xs heap) = take n (fold (insort_by cmp) xs (sort_by cmp heap))"
proof (induction xs arbitrary: heap)
  case (Cons x xs)
  show ?case using Cons.IH [OF Cons.prems(1) retain_best_sorted(2) [OF Cons.prems]] retain_best_sorted(1) [OF Cons.prems] by (simp add: take_fold_insort)
qed simp

lemma fold_insort_by: "sorted_wrt le s \<Longrightarrow> sorted_wrt le (fold (insort_by cmp) xs s) \<and> mset (fold (insort_by cmp) xs s) = mset xs + mset s"
  by (induction xs arbitrary: s) (auto simp: sorted_insort_by)

text \<open>A heap of at most \<open>n\<close> elements ends up with the first \<open>n\<close> of the sorted list.\<close>

lemma bounded_heap: "0 < n \<Longrightarrow> sort_by cmp (fold (retain_best cmp n) xs []) = take n (sort_by cmp xs)"
  using retain_best_fold [of n "[]" xs] fold_insort_by [of "[]" xs] sorted_unique [OF _ sorted_sort_by, of "fold (insort_by cmp) xs []" xs] by simp

end

section \<open>The order of the listing\<close>

definition exact_key :: "(rchar \<Rightarrow> bool) \<Rightarrow> str \<Rightarrow> nat list" where
  "exact_key lower s = concat (map (\<lambda>c. [if lower c then 0 else 1, c]) s)"

lemma exact_key_simps [simp]: "exact_key lower [] = []" "exact_key lower (c # s) = (if lower c then 0 else 1) # c # exact_key lower s"
  by (simp_all add: exact_key_def)

lemma cmp_of_Cons: "cmp_of (a # as) (b # bs) = cmp_then (cmp_of a b) (cmp_of as bs)"
  by (auto simp: cmp_of_def cmp_then_def)

lemma exact_difference_key:
  "unwrap_or (cmp_of (str_len l) (str_len r)) (exact_difference lower l r) = cmp_of (exact_key lower l) (exact_key lower r)"
proof (induction l arbitrary: r)
  case Nil
  then show ?case by (cases r) (simp_all add: unwrap_or_def cmp_of_def)
next
  case IH: (Cons c ls)
  show ?case
  proof (cases r)
    case Nil
    then show ?thesis by (simp add: unwrap_or_def cmp_of_def)
  next
    case (Cons d rs)
    have "cmp_of (str_len (c # ls)) (str_len (c # rs)) = cmp_of (str_len ls) (str_len rs)" by (simp add: cmp_of_def)
    moreover have num: "cmp_of 0 (Suc 0) = Less" "cmp_of (Suc 0) 0 = Greater" "\<And>a::nat. cmp_of a a = Equal" by simp_all
    ultimately show ?thesis using Cons IH.IH [of rs] by (cases "c = d") (auto simp: cmp_of_Cons unwrap_or_def cmp_then_def num)
  qed
qed

lemma compare_file_names_key:
  "compare_file_names env l r = cmp_then (cmp_of (concat (map (fe_lower_char env) l)) (concat (map (fe_lower_char env) r)))
     (cmp_of (exact_key (fe_is_lowercase env) l) (exact_key (fe_is_lowercase env) r))"
  by (simp add: compare_file_names_def exact_difference_key cmp_then_def Let_def)

lemma exact_key_inj: "exact_key lower l = exact_key lower r \<Longrightarrow> l = r"
proof (induction l arbitrary: r)
  case (Cons c l)
  then show ?case by (cases r) auto
qed (case_tac r; simp)

definition listing_order :: "file_env \<Rightarrow> str \<times> bool \<Rightarrow> str \<times> bool \<Rightarrow> ordering" where
  "listing_order env a b = cmp_then (cmp_of (starts_with_char (fst a) c_dot) (starts_with_char (fst b) c_dot)) (compare_file_names env (fst a) (fst b))"

interpretation listing: total_compare "listing_order env"
  unfolding listing_order_def compare_file_names_key by (intro total_compare_then total_compare_key)

interpretation candidate: linear_compare "cmp_candidate env"
proof -
  have "total_compare (cmp_candidate env)"
    unfolding cmp_candidate_def compare_file_names_key by (intro total_compare_then total_compare_key)
  then show "linear_compare (cmp_candidate env)"
    by (rule linear_compare.intro) (unfold_locales, auto simp: cmp_candidate_def compare_file_names_key cmp_then_def cmp_of_def split: if_splits dest: exact_key_inj)
qed

text \<open>The sequence numbers only make the sort stable.\<close>

lemma cmp_candidate_listing:
  "pc_sequence a < pc_sequence b \<Longrightarrow> cmp_candidate env a b = Greater \<longleftrightarrow> listing_order env (pc_name a, pc_is_dir a) (pc_name b, pc_is_dir b) = Greater"
  by (auto simp: cmp_candidate_def listing_order_def cmp_then_def)

lemma sort_sequenced:
  assumes "sorted_wrt (\<lambda>a b. pc_sequence a < pc_sequence b) cs"
  shows "map (\<lambda>c. (pc_name c, pc_is_dir c)) (sort_by (cmp_candidate env) cs) = sort_by (listing_order env) (map (\<lambda>c. (pc_name c, pc_is_dir c)) cs)"
  using assms
proof (induction cs)
  case (Cons c cs)
  have "map (\<lambda>c. (pc_name c, pc_is_dir c)) (insort_by (cmp_candidate env) c ds) =
      insort_by (listing_order env) (pc_name c, pc_is_dir c) (map (\<lambda>c. (pc_name c, pc_is_dir c)) ds)"
    if "\<forall>d \<in> set ds. pc_sequence c < pc_sequence d" for ds
    using that by (induction ds) (simp_all add: cmp_candidate_listing)
  with Cons show ?case by simp
qed simp

section \<open>The listing as a filter\<close>

definition listed_entry :: "file_env \<Rightarrow> path_filter \<Rightarrow> (str \<Rightarrow> bool) option \<Rightarrow> str \<Rightarrow> bool \<Rightarrow> dir_entry \<Rightarrow> (str \<times> bool) option" where
  "listed_entry env f matches query fuzzy e =
     (let is_dir = entry_is_directory False e;
          name = (if is_dir \<and> \<not> ends_with (de_name e) [c_slash] then de_name e @ [c_slash] else de_name e)
      in if de_name e \<noteq> lit ''.'' \<and> de_name e \<noteq> lit ''..'' \<and> \<not> eq_ignore_ascii_case (de_name e) (lit ''.DS_Store'') \<and>
            (pf_folders_only f \<longrightarrow> is_dir) \<and> (pf_files_only f \<longrightarrow> \<not> is_dir) \<and>
            path_name_passes_filter name is_dir f matches \<and> matches_query (fe_lowercase env) name query fuzzy
         then Some (name, is_dir) else None)"

definition listed :: "file_env \<Rightarrow> path_filter \<Rightarrow> (str \<Rightarrow> bool) option \<Rightarrow> str \<Rightarrow> bool \<Rightarrow> dir_entry option list \<Rightarrow> (str \<times> bool) list" where
  "listed env f matches query fuzzy entries = filter_map (listed_entry env f matches query fuzzy) (filter_map (\<lambda>e. e) entries)"

fun numbered :: "(dir_entry \<Rightarrow> (str \<times> bool) option) \<Rightarrow> nat \<Rightarrow> dir_entry option list \<Rightarrow> path_candidate list" where
  "numbered pick n [] = []"
| "numbered pick n (None # es) = numbered pick n es"
| "numbered pick n (Some e # es) =
     (case pick e of None \<Rightarrow> [] | Some (name, is_dir) \<Rightarrow> [\<lparr>pc_name = name, pc_is_dir = is_dir, pc_sequence = n\<rparr>]) @ numbered pick (n + 1) es"

lemma numbered_listed: "map (\<lambda>c. (pc_name c, pc_is_dir c)) (numbered pick n es) = filter_map pick (filter_map (\<lambda>e. e) es)"
  by (induction pick n es rule: numbered.induct) (auto split: option.splits)

lemma numbered_from: "c \<in> set (numbered pick n es) \<Longrightarrow> n \<le> pc_sequence c"
  by (induction pick n es rule: numbered.induct) (force split: option.splits)+

lemma numbered_ascending: "sorted_wrt (\<lambda>a b. pc_sequence a < pc_sequence b) (numbered pick n es)"
  by (induction pick n es rule: numbered.induct) (auto simp: sorted_wrt_append Suc_le_eq dest!: numbered_from split: option.splits)

text \<open>A cancellation that was seen while a link was followed is seen again right after.\<close>

definition checks_persist :: "path_checks \<Rightarrow> bool" where
  "checks_persist chk \<longleftrightarrow> (\<forall>i. pk_entry chk i 3 \<longrightarrow> pk_entry chk i 4)"

definition never_cancelled :: path_checks where
  "never_cancelled = \<lparr>pk_open = False, pk_start = False, pk_entry = (\<lambda>_ _. False), pk_sort = False, pk_end = False\<rparr>"

lemma entry_step_listed:
  assumes "checks_persist chk"
  shows "entry_step env chk f matches query fuzzy i n e \<in>
    {None, Some (map_option (\<lambda>(name, is_dir). \<lparr>pc_name = name, pc_is_dir = is_dir, pc_sequence = n\<rparr>) (listed_entry env f matches query fuzzy e))}"
proof (cases "pk_entry chk i 3")
  case True
  then have "pk_entry chk i 4" using assms by (simp add: checks_persist_def)
  then show ?thesis by (auto simp: entry_step_def listed_entry_def Let_def)
next
  case False
  then show ?thesis by (auto simp: entry_step_def listed_entry_def Let_def matches_query_def)
qed

lemma entry_step_never: "entry_step env never_cancelled f matches query fuzzy i n e \<noteq> None"
  by (simp add: entry_step_def never_cancelled_def Let_def)

lemma scan_entries_numbered:
  assumes "checks_persist chk"
  shows "scan_entries env chk f matches query fuzzy i n names es \<in>
    {None, Some (fold (retain_path_candidate env) (numbered (listed_entry env f matches query fuzzy) n es) names)}"
proof (induction es arbitrary: i n names)
  case (Cons entry es)
  show ?case
  proof (cases entry)
    case None
    then show ?thesis using Cons.IH by simp
  next
    case (Some e)
    consider "entry_step env chk f matches query fuzzy i n e = None"
      | "entry_step env chk f matches query fuzzy i n e = Some None" "listed_entry env f matches query fuzzy e = None"
      | name is_dir where "entry_step env chk f matches query fuzzy i n e = Some (Some \<lparr>pc_name = name, pc_is_dir = is_dir, pc_sequence = n\<rparr>)"
          "listed_entry env f matches query fuzzy e = Some (name, is_dir)"
      using entry_step_listed [OF assms, of env f matches query fuzzy i n e] by (cases "listed_entry env f matches query fuzzy e") auto
    then show ?thesis
    proof cases
      case 3
      then show ?thesis using Some Cons.IH by simp
    qed (use Some Cons.IH in simp_all)
  qed
qed simp

lemma scan_entries_never: "scan_entries env never_cancelled f matches query fuzzy i n names es \<noteq> None"
proof (induction es arbitrary: i n names)
  case (Cons entry es)
  have checks: "\<not> pk_entry never_cancelled i j" for j by (simp add: never_cancelled_def)
  show ?case
  proof (cases entry)
    case (Some e)
    obtain r where "entry_step env never_cancelled f matches query fuzzy i n e = Some r" using entry_step_never by fastforce
    then show ?thesis using Some Cons.IH checks by (cases r) simp_all
  qed (use Cons.IH checks in simp)
qed (simp add: never_cancelled_def)

section \<open>The cache of compiled patterns\<close>

definition regex_cache_ok :: "file_env \<Rightarrow> regex_cache \<Rightarrow> bool" where
  "regex_cache_ok env cache \<longleftrightarrow> length cache \<le> MAX_MATCHES_REGEX_CACHE \<and> (\<forall>(pattern, compiled) \<in> set cache. compiled = fe_regex env pattern)"

definition filter_regex :: "file_env \<Rightarrow> path_filter \<Rightarrow> (str \<Rightarrow> bool) option" where
  "filter_regex env f = (case pf_matches f of None \<Rightarrow> None | Some source \<Rightarrow> (if source = [] then None else fe_regex env (matches_regex_pattern source (pf_matches_flags f))))"

lemma compiled_matches_ok:
  "regex_cache_ok env cache \<Longrightarrow> compiled_matches env f cache = (matches, cache') \<Longrightarrow> matches = filter_regex env f \<and> regex_cache_ok env cache'"
  by (auto simp: compiled_matches_def cached_matches_regex_def filter_regex_def regex_cache_ok_def MAX_MATCHES_REGEX_CACHE_def Let_def
    dest!: map_of_SomeD split: option.splits if_splits)

definition listing_rows :: "file_env \<Rightarrow> dir_entry option list \<Rightarrow> str \<Rightarrow> str \<Rightarrow> bool \<Rightarrow> path_filter \<Rightarrow> suggestion list" where
  "listing_rows env entries query display fuzzy f =
     map (\<lambda>(name, is_dir). path_suggestion_with_filter f (display @ name) is_dir)
       (take 49 (sort_by (listing_order env) (listed env f (filter_regex env f) query fuzzy entries))) @
     parent_row env f (filter_regex env f) query fuzzy"

lemma listing_rows_or_none:
  assumes "checks_persist chk" "regex_cache_ok env cache"
    and "complete_path_from_entries env chk entries query display fuzzy f cache = (rows, cache')"
  shows "rows \<in> {[], listing_rows env entries query display fuzzy f} \<and>
    (chk = never_cancelled \<longrightarrow> rows = listing_rows env entries query display fuzzy f) \<and> regex_cache_ok env cache'"
proof (cases "pk_start chk")
  case True
  then show ?thesis using assms by (auto simp: complete_path_from_entries_def never_cancelled_def)
next
  case False
  obtain matches cache'' where cm: "compiled_matches env f cache = (matches, cache'')" by fastforce
  note ok = compiled_matches_ok [OF assms(2) this]
  let ?cs = "numbered (listed_entry env f matches query fuzzy) 0 entries"
  have "fold (retain_path_candidate env) ?cs [] = fold (retain_best (cmp_candidate env) 49) ?cs []"
    by (intro fold_cong) (simp_all add: fun_eq_iff retain_path_candidate_def MAX_RESULTS_def)
  then have sorted: "sort_by (cmp_candidate env) (fold (retain_path_candidate env) ?cs []) = take 49 (sort_by (cmp_candidate env) ?cs)"
    by (simp add: candidate.bounded_heap)
  have "map (\<lambda>c. (pc_name c, pc_is_dir c)) (take 49 (sort_by (cmp_candidate env) ?cs)) = take 49 (sort_by (listing_order env) (listed env f matches query fuzzy entries))"
    by (simp add: take_map [symmetric] sort_sequenced [OF numbered_ascending] numbered_listed listed_def)
  then have "map (\<lambda>c. path_suggestion_with_filter f (display @ pc_name c) (pc_is_dir c)) (sort_by (cmp_candidate env) (fold (retain_path_candidate env) ?cs [])) =
      map (\<lambda>(name, is_dir). path_suggestion_with_filter f (display @ name) is_dir) (take 49 (sort_by (listing_order env) (listed env f matches query fuzzy entries)))"
    unfolding sorted by (metis (no_types, lifting) ext list.map_comp comp_apply case_prod_conv)
  then show ?thesis
    using assms(3) False scan_entries_numbered [OF assms(1), of env f matches query fuzzy 0 0 "[]" entries] ok
      scan_entries_never [of env f matches query fuzzy 0 0 "[]" entries]
    by (auto simp: complete_path_from_entries_def cm listing_rows_def Let_def never_cancelled_def split: option.splits if_splits)
qed

text \<open>A small file system.\<close>

definition sample_entries :: "dir_entry option list" where
  "sample_entries =
     [Some \<lparr>de_name = lit ''b'', de_file_type = Some FDirectory, de_target_is_dir = False\<rparr>, None,
      Some \<lparr>de_name = lit ''.x'', de_file_type = Some FOther, de_target_is_dir = False\<rparr>,
      Some \<lparr>de_name = lit ''a'', de_file_type = Some FSymlink, de_target_is_dir = False\<rparr>]"

definition sample_files :: file_env where
  "sample_files =
     \<lparr>fe_lowercase = map to_ascii_lowercase, fe_lower_char = (\<lambda>c. [to_ascii_lowercase c]), fe_is_lowercase = (\<lambda>c. 97 \<le> c), fe_var = (\<lambda>_. None),
      fe_home_os = None, fe_user_home = (\<lambda>user. if user = lit ''b'' then Some (lit ''/h/b'') else None), fe_regex = (\<lambda>_. None),
      fe_read_dir = (\<lambda>dir. if dir \<in> {lit ''/w/s/'', lit ''/h/'', lit ''/h/b/''} then Some sample_entries else None)\<rparr>"

definition sample_filter :: path_filter where
  "sample_filter =
     \<lparr>pf_folders_only = False, pf_files_only = False, pf_extensions = [], pf_equals = [], pf_filter_folders = False, pf_file_priority = None,
      pf_folder_priority = None, pf_root_directory = None, pf_environment = [(lit ''HOME'', lit ''/h/b'')], pf_matches = None, pf_matches_flags = None\<rparr>"

lemma checks_persist_never: "checks_persist never_cancelled"
  by (simp add: checks_persist_def never_cancelled_def)

lemma regex_cache_empty: "regex_cache_ok env []"
  by (simp add: regex_cache_ok_def)

text \<open>
  Property C35. The listing of a directory is a filter and a stable sort: the heap of at most 49
  candidates gives the first 49 of all entries that pass the filters and match the query, ordinary
  names first and each group in the order of names, followed by the parent. A listing that sees a
  cancellation gives these rows or none, never a part of them, and one that sees none gives them all.
  The cache of compiled patterns stays within its bound and never gives another pattern's regex.
\<close>

theorem listing_is_sorted_filter:
  assumes "checks_persist chk" "regex_cache_ok env cache"
    and "complete_path_from_entries env chk entries query display fuzzy f cache = (rows, cache')"
  shows "rows \<in> {[], listing_rows env entries query display fuzzy f} \<and>
    (chk = never_cancelled \<longrightarrow> rows = listing_rows env entries query display fuzzy f) \<and> regex_cache_ok env cache'"
  using listing_rows_or_none [OF assms] .

theorem listing_is_sorted_filter_witness:
  "fst (complete_path_from_entries sample_files never_cancelled sample_entries [] (lit ''s/'') False sample_filter []) =
     listing_rows sample_files sample_entries [] (lit ''s/'') False sample_filter \<and>
   map sg_name (listing_rows sample_files sample_entries [] (lit ''s/'') False sample_filter) = map lit [''s/a'', ''s/b/'', ''s/.x'', ''../'']"
proof (rule conjI)
  obtain rows cache' where run: "complete_path_from_entries sample_files never_cancelled sample_entries [] (lit ''s/'') False sample_filter [] = (rows, cache')" by fastforce
  show "fst (complete_path_from_entries sample_files never_cancelled sample_entries [] (lit ''s/'') False sample_filter []) =
      listing_rows sample_files sample_entries [] (lit ''s/'') False sample_filter"
    using listing_is_sorted_filter [OF checks_persist_never regex_cache_empty run] unfolding run by simp
  show "map sg_name (listing_rows sample_files sample_entries [] (lit ''s/'') False sample_filter) = map lit [''s/a'', ''s/b/'', ''s/.x'', ''../'']"
    by code_simp
qed

section \<open>The directory of a typed path\<close>

lemma rfind_slash: "rfind_rest [c] p = (if c \<in> set p then Some (c # rev (takeWhile (\<lambda>x. x \<noteq> c) (rev p))) else None)"
proof (induction p)
  case (Cons x p)
  then show ?case by (auto simp: starts_with_def takeWhile_append takeWhile_tail split: if_splits)
qed simp

text \<open>The part shown before a name and the query make up what was typed.\<close>

lemma split_prefix_parts:
  assumes "cwd \<noteq> []"
  shows "\<exists>query. p = dir_prefix p @ query \<and> (dir_prefix p = [] \<or> ends_with (dir_prefix p) [c_slash]) \<and>
    split_prefix env p cwd = (if dir_prefix p = [] then cwd else join_base env cwd (dir_prefix p), query)"
proof (cases "c_slash \<in> set p")
  case True
  then obtain d q where p: "p = d @ c_slash # q" "c_slash \<notin> set q" by (meson split_list_last)
  have whole: "takeWhile (\<lambda>x. x \<noteq> c_slash) (rev q) = rev q" using p(2) by (auto simp: takeWhile_eq_all_conv)
  have at: "rfind_rest [c_slash] p = Some (c_slash # q)" using p True by (simp add: rfind_slash takeWhile_tail whole)
  have "ends_with p [c_slash] \<longleftrightarrow> q = []" using p by (cases q rule: rev_cases) (auto simp: ends_with_iff)
  then have "dir_prefix p = d @ [c_slash]" using at p by (simp add: dir_prefix_def)
  moreover have "split_prefix env p cwd = (join_base env cwd (d @ [c_slash]), q)"
    using at p assms \<open>ends_with p [c_slash] \<longleftrightarrow> q = []\<close> by (simp add: split_prefix_def Let_def)
  ultimately show ?thesis using p by (auto simp: ends_with_iff)
next
  case False
  then have "\<not> ends_with p [c_slash]" by (auto simp: ends_with_iff)
  then show ?thesis using False assms by (simp add: dir_prefix_def split_prefix_def rfind_slash Let_def)
qed

lemma join_base_plain: "\<not> starts_with_char rel 126 \<Longrightarrow> join_base env base rel = path_join base rel"
  by (cases rel) (auto simp: join_base_def expand_tilde_def strip_prefix_def starts_with_def starts_with_char_def path_join_def Let_def)

lemma path_join_assoc:
  assumes "ends_with d [c_slash]" "\<not> starts_with_char name c_slash"
  shows "path_join (path_join base d) name = path_join base (d @ name)"
proof -
  obtain d' where d: "d = d' @ [c_slash]" using assms(1) by (auto simp: ends_with_iff)
  then have "starts_with_char (d @ name) c_slash = starts_with_char d c_slash" by (cases d') (simp_all add: starts_with_char_def)
  then show ?thesis using assms(2) by (auto simp: path_join_def d ends_with_iff)
qed

text \<open>The token that is left when a row is taken: its query term, or all that is typed where it has none, is replaced by its insertion.\<close>

definition completed_token :: "str \<Rightarrow> suggestion \<Rightarrow> str" where
  "completed_token typed row =
     take (length typed - length (unwrap_or typed (sg_query_term row))) typed @ unwrap_or (sg_name row) (sg_insert_value row)"

lemma path_row_fields:
  "sg_name (path_suggestion_with_filter f name is_dir) = name"
  "sg_insert_value (path_suggestion_with_filter f name is_dir) = Some name"
  "sg_query_term (path_suggestion_with_filter f name is_dir) = None"
  by (simp_all add: path_suggestion_with_filter_def with_priority_def with_insert_value_def suggestion_new_def Let_def split: option.split)

lemma listing_row_entry:
  assumes "row \<in> set (listing_rows env entries query display fuzzy f)"
  shows "\<exists>target. (target = lit ''..'' \<or> (\<exists>e. Some e \<in> set entries \<and> target = de_name e)) \<and> sg_name row \<in> {lit ''../'', completed_token (display @ query) row} \<and>
    completed_token (display @ query) row \<in> {display @ target, display @ target @ [c_slash]}"
proof -
  consider "row \<in> set (parent_row env f (filter_regex env f) query fuzzy)"
    | name is_dir where "row = path_suggestion_with_filter f (display @ name) is_dir" "(name, is_dir) \<in> set (listed env f (filter_regex env f) query fuzzy entries)"
    using assms by (auto simp: listing_rows_def dest!: in_set_takeD)
  then show ?thesis
  proof cases
    case 1
    then have "row = (path_suggestion_with_filter f (lit ''../'') True)\<lparr>sg_query_term := Some query\<rparr>" by (auto simp: parent_row_def split: if_splits)
    then show ?thesis by (intro exI [of _ "lit ''..''"]) (simp add: completed_token_def path_row_fields unwrap_or_def)
  next
    case 2
    then obtain e where "Some e \<in> set entries" "name \<in> {de_name e, de_name e @ [c_slash]}"
      by (auto simp: listed_def set_filter_map listed_entry_def Let_def split: if_splits)
    then show ?thesis using 2(1) by (auto simp: completed_token_def path_row_fields unwrap_or_def)
  qed
qed

text \<open>The file system gives no name that starts with a slash.\<close>

definition file_names_ok :: "file_env \<Rightarrow> bool" where
  "file_names_ok env \<longleftrightarrow> (\<forall>dir es e. fe_read_dir env dir = Some es \<longrightarrow> Some e \<in> set es \<longrightarrow> \<not> starts_with_char (de_name e) c_slash)"

text \<open>Without a directory to list, an absolute path is listed from the root.\<close>

lemma split_prefix_absolute: "starts_with_char p c_slash \<Longrightarrow> split_prefix env p [] = split_prefix env p [c_slash]"
  by (simp add: split_prefix_def)

lemma typed_directory:
  assumes "\<not> starts_with_char typed 126" "base \<noteq> [] \<or> starts_with_char typed c_slash"
  obtains dir query where "split_prefix env typed base = (dir, query)" "typed = dir_prefix typed @ query"
    "\<And>target. \<not> starts_with_char target c_slash \<Longrightarrow> path_join base (dir_prefix typed @ target) = path_join dir target"
proof -
  let ?base = "if base = [] then [c_slash] else base"
  have "?base \<noteq> []" by simp
  from split_prefix_parts [OF this, of typed env] obtain query where parts: "typed = dir_prefix typed @ query"
      "dir_prefix typed = [] \<or> ends_with (dir_prefix typed) [c_slash]"
      "split_prefix env typed ?base = (if dir_prefix typed = [] then ?base else join_base env ?base (dir_prefix typed), query)" by blast
  let ?dir = "if dir_prefix typed = [] then ?base else path_join ?base (dir_prefix typed)"
  have head: "dir_prefix typed \<noteq> [] \<Longrightarrow> starts_with_char (dir_prefix typed) c = starts_with_char typed c" for c
    by (subst (2) parts(1)) (cases "dir_prefix typed", simp_all add: starts_with_char_def)
  have absolute: "dir_prefix typed \<noteq> [] \<and> starts_with_char (dir_prefix typed) c_slash" if "base = []"
  proof -
    have "c_slash \<in> set typed" using that assms(2) by (cases typed) (auto simp: starts_with_char_def)
    then have "dir_prefix typed \<noteq> []" by (auto simp: dir_prefix_def rfind_slash split: if_splits)
    then show ?thesis using head that assms(2) by simp
  qed
  have "split_prefix env typed base = (?dir, query)"
    using parts(3) assms head [of 126] split_prefix_absolute [of typed env] by (auto simp: join_base_plain split: if_splits)
  moreover have "path_join base (dir_prefix typed @ target) = path_join ?dir target" if "\<not> starts_with_char target c_slash" for target
  proof (cases "dir_prefix typed = []")
    case True
    then show ?thesis using absolute by auto
  next
    case False
    then have "starts_with_char (dir_prefix typed @ target) c = starts_with_char (dir_prefix typed) c" for c
      by (cases "dir_prefix typed") (simp_all add: starts_with_char_def)
    then show ?thesis using False path_join_assoc [OF _ that, of "dir_prefix typed" ?base] parts(2) absolute by (auto simp: path_join_def)
  qed
  ultimately show thesis using that parts(1) by blast
qed

text \<open>
  Property C36. Every row of a listing leads where it says: for a typed path without a home directory or
  variable in it, replacing the query term of a row, or all that is typed where it has none, by what the
  row inserts leaves the typed directory followed by the name of an entry of the directory listed, or by
  the parent, and that path, resolved from the listing directory, is that entry
  or the parent of the directory listed. The row shows this path, the row of the parent only its last
  part. The typed directory and the query together are what was typed.
\<close>

theorem shown_path_resolves:
  assumes "complete_path_filtered env chk typed cwd fuzzy f cache = (rows, cache')" "checks_persist chk" "regex_cache_ok env cache"
    and plain: "expand_home_with env (pf_environment f) typed = typed" "\<not> starts_with_char typed 126"
    and names: "file_names_ok env"
    and row: "row \<in> set rows"
  shows "\<exists>dir query entries target. split_prefix env typed (list_directory_of f cwd) = (dir, query) \<and> typed = dir_prefix typed @ query \<and>
    fe_read_dir env dir = Some entries \<and> (target = lit ''..'' \<or> (\<exists>e. Some e \<in> set entries \<and> target = de_name e)) \<and>
    completed_token typed row \<in> {dir_prefix typed @ target, dir_prefix typed @ target @ [c_slash]} \<and>
    sg_name row \<in> {lit ''../'', completed_token typed row} \<and>
    path_join (list_directory_of f cwd) (dir_prefix typed @ target) = path_join dir target"
proof -
  let ?base = "list_directory_of f cwd"
  have tilde: "typed \<noteq> lit ''~''" using plain(2) by (auto simp: starts_with_char_def)
  have "?base \<noteq> [] \<or> starts_with_char typed c_slash"
    using assms(1) row plain(2) by (auto simp: complete_path_filtered_def Let_def split: if_splits)
  then obtain dir query where split: "split_prefix env typed ?base = (dir, query)" "typed = dir_prefix typed @ query"
      "\<And>target. \<not> starts_with_char target c_slash \<Longrightarrow> path_join ?base (dir_prefix typed @ target) = path_join dir target"
    using typed_directory [OF plain(2)] by metis
  obtain entries where entries: "fe_read_dir env dir = Some entries"
      "complete_path_from_entries env chk entries query (dir_prefix typed) fuzzy f cache = (rows, cache')"
    using assms(1) row plain(1) tilde split(1) by (auto simp: complete_path_filtered_def Let_def split: if_splits option.splits)
  have "row \<in> set (listing_rows env entries query (dir_prefix typed) fuzzy f)"
    using listing_rows_or_none [OF assms(2,3) entries(2)] row by auto
  from listing_row_entry [OF this, folded split(2)] obtain target
    where target: "target = lit ''..'' \<or> (\<exists>e. Some e \<in> set entries \<and> target = de_name e)" "sg_name row \<in> {lit ''../'', completed_token typed row}"
      "completed_token typed row \<in> {dir_prefix typed @ target, dir_prefix typed @ target @ [c_slash]}" by blast
  have "\<not> starts_with_char target c_slash" using target(1) names entries(1) by (auto simp: file_names_ok_def starts_with_char_def)
  then show ?thesis using split entries(1) target by blast
qed

theorem shown_path_resolves_witness:
  "\<exists>row \<in> set (fst (complete_path_filtered sample_files never_cancelled (lit ''s/'') (lit ''/w'') False sample_filter [])). sg_name row = lit ''../'' \<and>
     (\<exists>dir query entries target. split_prefix sample_files (lit ''s/'') (list_directory_of sample_filter (lit ''/w'')) = (dir, query) \<and>
       lit ''s/'' = dir_prefix (lit ''s/'') @ query \<and> fe_read_dir sample_files dir = Some entries \<and>
       (target = lit ''..'' \<or> (\<exists>e. Some e \<in> set entries \<and> target = de_name e)) \<and>
       completed_token (lit ''s/'') row \<in> {dir_prefix (lit ''s/'') @ target, dir_prefix (lit ''s/'') @ target @ [c_slash]} \<and>
       sg_name row \<in> {lit ''../'', completed_token (lit ''s/'') row} \<and>
       path_join (list_directory_of sample_filter (lit ''/w'')) (dir_prefix (lit ''s/'') @ target) = path_join dir target)"
proof -
  let ?run = "complete_path_filtered sample_files never_cancelled (lit ''s/'') (lit ''/w'') False sample_filter []"
  have facts: "map sg_name (fst ?run) = map lit [''s/a'', ''s/b/'', ''s/.x'', ''../'']"
      "expand_home_with sample_files (pf_environment sample_filter) (lit ''s/'') = lit ''s/''" "\<not> starts_with_char (lit ''s/'') 126" by code_simp+
  have "lit ''../'' \<in> set (map sg_name (fst ?run))" unfolding facts(1) by simp
  then obtain row where row: "row \<in> set (fst ?run)" "sg_name row = lit ''../''" by auto
  have names: "file_names_ok sample_files"
    by (auto simp: file_names_ok_def sample_files_def sample_entries_def starts_with_char_def split: if_splits)
  have run: "?run = (fst ?run, snd ?run)" by simp
  show ?thesis
    using row shown_path_resolves [OF run checks_persist_never regex_cache_empty facts(2,3) names row(1)] by blast
qed

text \<open>
  It fails for a variable or a user's home directory without a slash after it: the entries of the
  directory are shown by their bare names, which lead to another place than the one listed.
\<close>

lemma variable_row_loses_directory:
  "map sg_name (fst (complete_path_filtered sample_files never_cancelled (lit ''$HOME'') (lit ''/w'') False sample_filter [])) = [lit ''b/''] \<and>
   map sg_name (fst (complete_path_filtered sample_files never_cancelled (lit ''~b'') (lit ''/w'') False sample_filter [])) = map lit [''a'', ''b/'', ''.x'', ''../''] \<and>
   path_join (lit ''/w'') (lit ''b/'') = lit ''/w/b/''"
  by code_simp

section \<open>Variables\<close>

lemma expand_plain: "c_dollar \<notin> set before \<Longrightarrow> expand_environment_variables lookup (before @ rest) = before @ expand_environment_variables lookup rest"
  by (induction before) auto

lemma takeWhile_name: "list_all P name \<Longrightarrow> rest = [] \<or> \<not> P (hd rest) \<Longrightarrow> takeWhile P (name @ rest) = name \<and> dropWhile P (name @ rest) = rest"
  by (induction name) (cases rest; simp)+

lemma braced_body: "c_rbrace \<notin> set body \<Longrightarrow> takeWhile (\<lambda>c. c \<noteq> c_rbrace) (body @ c_rbrace # rest) = body \<and> dropWhile (\<lambda>c. c \<noteq> c_rbrace) (body @ c_rbrace # rest) = c_rbrace # rest"
  by (induction body) auto

lemma expand_variable:
  assumes "name \<noteq> []" "list_all is_environment_name_character name" "rest = [] \<or> \<not> is_environment_name_character (hd rest)"
  shows "expand_environment_variables lookup (c_dollar # name @ rest) = unwrap_or (c_dollar # name) (lookup name) @ expand_environment_variables lookup rest"
proof -
  have "\<not> starts_with_char (name @ rest) c_lbrace"
    using assms(1,2) by (cases name) (auto simp: starts_with_char_def is_environment_name_character_def is_ascii_alphanumeric_def is_ascii_alphabetic_def is_ascii_digit_def)
  then show ?thesis using takeWhile_name [OF assms(2,3)] assms(1) by (simp add: Let_def)
qed

lemma expand_braced:
  assumes "parse_braced_variable body = Some (name, fallback)" "c_rbrace \<notin> set body"
  shows "expand_environment_variables lookup (lit ''${'' @ body @ c_rbrace # rest) =
    unwrap_or (unwrap_or (lit ''${'' @ body @ [c_rbrace]) fallback) (lookup name) @ expand_environment_variables lookup rest"
  using assms braced_body [OF assms(2), of rest] by (simp add: starts_with_char_def Let_def)

end
