(* ===== verification/Generator_Facts.thy ===== *)
theory Generator_Facts
  imports Generators Complete Hook_Cache
begin

text \<open>
  What holds of the generators: dropping duplicates from a session changes no later answer, a debounced
  generator runs exactly when its wait is over, the cache of refs answers for the state of the
  repository it was filled in, and no generated row can be published.
\<close>

section \<open>Keeping first rows\<close>

lemma retain_first_append:
  "retain_first key seen (xs @ ys) = retain_first key seen xs @ retain_first key (seen \<union> key ` set xs) ys"
  by (induction key seen xs rule: retain_first.induct) (simp_all add: insert_absorb)

lemma retain_first_keys: "key ` set (retain_first key seen xs) = key ` set xs - seen"
  by (induction key seen xs rule: retain_first.induct) auto

lemma retain_first_map: "(\<And>x. key (h x) = key x) \<Longrightarrow> retain_first key seen (map h xs) = map h (retain_first key seen xs)"
  by (induction key seen xs rule: retain_first.induct) simp_all

text \<open>Rows kept by a finer key first, then filtered by what that key decides, then kept by a coarser one.\<close>

lemma retain_first_twice:
  assumes "\<And>x. key x = f (key' x)" "\<And>x. P x = Q (key' x)"
  shows "\<forall>k \<in> seen'. Q k \<longrightarrow> f k \<in> seen \<Longrightarrow> retain_first key seen (filter P (retain_first key' seen' xs)) = retain_first key seen (filter P xs)"
proof (induction xs arbitrary: seen seen')
  case (Cons x xs)
  show ?case
  proof (cases "key' x \<in> seen'")
    case True
    then show ?thesis using Cons.IH [OF Cons.prems] Cons.prems by (auto simp: assms)
  next
    case False
    have "\<forall>k \<in> insert (key' x) seen'. Q k \<longrightarrow> f k \<in> (if P x then insert (key x) seen else seen)"
      using Cons.prems by (auto simp: assms)
    from False Cons.IH [OF this] show ?thesis by (auto simp: insert_absorb split: if_splits)
  qed
qed simp

lemma retain_first_middle:
  assumes "retain_first key (key ` set xs) ys = retain_first key (key ` set xs) ys'"
  shows "retain_first key {} (xs @ ys @ zs) = retain_first key {} (xs @ ys' @ zs)"
proof -
  have "key ` set ys - key ` set xs = key ` set ys' - key ` set xs" using assms retain_first_keys by metis
  then have "key ` set xs \<union> key ` set ys = key ` set xs \<union> key ` set ys'" by blast
  with assms show ?thesis by (simp add: retain_first_append)
qed

lemma stamp_row_key: "sg_name (stamp_row q raw s) = sg_name s" "sg_kind (stamp_row q raw s) = sg_kind s"
  "sg_insert_value (stamp_row q raw s) = sg_insert_value s" "marked (stamp_row q raw s) = marked s"
  by (simp_all add: stamp_row_def marked_def)

text \<open>
  Property C31. Dropping duplicates before the rows of a generator are kept is never seen: whatever is
  typed later, filtering the kept rows again, stamping their query terms and dropping duplicates from
  the final list gives the same rows, in any surroundings, as if all rows had been kept.
\<close>

theorem session_dedup_invisible:
  "dedup_suggestions (before @ stamp_query_term term raw has_rule (refilter_generated env (dedup_session_rows rows) query fuzzy) @ after) =
   dedup_suggestions (before @ stamp_query_term term raw has_rule (refilter_generated env rows query fuzzy) @ after)"
proof -
  let ?key = "\<lambda>s. (sg_name s, sg_kind s, sg_insert_value s)" and ?key' = "\<lambda>s. (sg_name s, sg_kind s, sg_insert_value s, sg_hidden s)"
  let ?P = "\<lambda>s. generated_row_matches_query env s query fuzzy \<and> hidden_generated_row_is_visible s query"
  have refilter: "refilter_generated env rs query fuzzy = filter ?P rs" for rs by (simp add: refilter_generated_def conj_commute)
  have "retain_first ?key seen (filter ?P (retain_first ?key' {} rows)) = retain_first ?key seen (filter ?P rows)" for seen
    by (rule retain_first_twice [where f = "\<lambda>(n, k, v, h). (n, k, v)" and Q = "\<lambda>(n, k, v, h). ?P (suggestion_new n [] k\<lparr>sg_hidden := h\<rparr>)"])
      (simp_all add: generated_row_matches_query_def hidden_generated_row_is_visible_def suggestion_new_def)
  then have kept: "retain_first ?key seen (filter ?P (dedup_session_rows rows)) = retain_first ?key seen (filter ?P rows)" for seen
    by (simp add: dedup_session_rows_def)
  have "retain_first ?key seen (map (stamp_row term raw) (filter ?P (dedup_session_rows rows))) = retain_first ?key seen (map (stamp_row term raw) (filter ?P rows))" for seen
    using kept by (simp add: retain_first_map [where h = "stamp_row term raw"] stamp_row_key)
  with kept show ?thesis unfolding dedup_suggestions_def refilter stamp_query_term_def by (intro retain_first_middle) (cases has_rule, simp_all)
qed

section \<open>Debouncing\<close>

definition no_cancel :: gen_checks where
  "no_cancel = \<lparr>gk_before = (\<lambda>_. False), gk_scripts = (\<lambda>_. False), gk_history = (\<lambda>_. False), gk_after = (\<lambda>_. False), gk_end = False\<rparr>"

definition run_timeout :: "gen_env \<Rightarrow> arg_fields \<Rightarrow> nat" where
  "run_timeout env arg = effective_script_timeout_ms (configured_script_timeout_ms_from (ge_script_timeout env)) (af_script_timeout_ms arg) None"

definition fresh_rows :: "gen_env \<Rightarrow> nat \<Rightarrow> arg_fields \<Rightarrow> generator_spec \<Rightarrow> gen_request \<Rightarrow> str list mtime_lru \<Rightarrow> suggestion list" where
  "fresh_rows env i arg g req refs =
     fst (generate_from_generator env no_cancel i arg g req (generator_query env arg g (parser_inner_text (gr_search_term req)))
       (parser_inner_text (gr_search_term req)) (run_timeout env arg) refs)"

text \<open>What one request does to the entry of a debounced generator.\<close>

definition debounced_entry :: "bool \<Rightarrow> suggestion list \<Rightarrow> cached_generator \<Rightarrow> cached_generator \<Rightarrow> bool" where
  "debounced_entry follow_up rows entry entry' \<longleftrightarrow>
     (if follow_up then entry' = \<lparr>cg_results = dedup_session_rows rows, cg_needs_run = False, cg_ran = True\<rparr>
      else cg_results entry' = cg_results entry \<and> cg_ran entry' = cg_ran entry \<and> (cg_needs_run entry \<longrightarrow> cg_needs_run entry'))"

lemma no_cancel_simps [simp]: "gk_before no_cancel i = False" "gk_after no_cancel i = False" "gk_end no_cancel = False"
  by (simp_all add: no_cancel_def)

lemma entry_rows_debounced:
  assumes "af_debounce_ms arg \<noteq> None" "entry_rows env no_cancel i arg g req changed previous st = (r, st')"
  shows "\<exists>rows entry' refs. r = Some rows \<and>
    gl_session st' = (gl_session st)\<lparr>gn_entries := (gn_entries (gl_session st))[i := entry']\<rparr> \<and>
    debounced_entry (\<not> changed \<and> cg_needs_run (gn_entries (gl_session st) ! i) \<and> gn_search_term (gl_session st) = parser_inner_text (gr_search_term req))
      (fresh_rows env i arg g req refs) (gn_entries (gl_session st) ! i) entry'"
  using assms unfolding entry_rows_def set_entry_def debounced_entry_def fresh_rows_def run_timeout_def Let_def
  by (auto split: if_splits prod.splits simp: case_prod_unfold) (rule exI [of _ "gn_entries (gl_session st') ! i"], simp)+

lemma run_generators_debounced:
  fixes env :: gen_env and req :: gen_request and changed :: bool and previous :: str
  assumes "af_debounce_ms arg \<noteq> None" "i + length gs \<le> length (gn_entries (gl_session st))"
  defines "st' \<equiv> run_generators env no_cancel arg req changed previous i gs st"
  shows "length (gn_entries (gl_session st')) = length (gn_entries (gl_session st)) \<and> gn_arg_id (gl_session st') = gn_arg_id (gl_session st) \<and>
    gn_search_term (gl_session st') = parser_inner_text (gr_search_term req) \<and>
    (\<forall>j < length (gn_entries (gl_session st)). \<exists>refs.
       if i \<le> j \<and> j < i + length gs
       then debounced_entry (\<not> changed \<and> cg_needs_run (gn_entries (gl_session st) ! j) \<and> gn_search_term (gl_session st) = parser_inner_text (gr_search_term req))
         (fresh_rows env j arg (gs ! (j - i)) req refs) (gn_entries (gl_session st) ! j) (gn_entries (gl_session st') ! j)
       else gn_entries (gl_session st') ! j = gn_entries (gl_session st) ! j)"
  unfolding st'_def using assms(2)
proof (induction gs arbitrary: i st)
  case (Cons g gs)
  obtain r st1 where er: "entry_rows env no_cancel i arg g req changed previous st = (r, st1)" by fastforce
  from entry_rows_debounced [OF assms(1) this] obtain rows entry' refs where one: "r = Some rows"
      "gl_session st1 = (gl_session st)\<lparr>gn_entries := (gn_entries (gl_session st))[i := entry']\<rparr>"
      "debounced_entry (\<not> changed \<and> cg_needs_run (gn_entries (gl_session st) ! i) \<and> gn_search_term (gl_session st) = parser_inner_text (gr_search_term req))
        (fresh_rows env i arg g req refs) (gn_entries (gl_session st) ! i) entry'" by blast
  define st2 where "st2 = st1\<lparr>gl_out := gl_out st1 @ stamp_query_term (generator_query env arg g (parser_inner_text (gr_search_term req))) (gr_search_term req) (has_query_rule arg g) rows\<rparr>"
  have session: "gl_session st2 = (gl_session st)\<lparr>gn_entries := (gn_entries (gl_session st))[i := entry']\<rparr>" by (simp add: st2_def one(2))
  then have typed: "gn_search_term (gl_session st2) = gn_search_term (gl_session st)" by simp
  have step: "run_generators env no_cancel arg req changed previous i (g # gs) st = run_generators env no_cancel arg req changed previous (i + 1) gs st2"
    by (simp add: er one(1) Let_def st2_def)
  have "i + 1 + length gs \<le> length (gn_entries (gl_session st2))" using Cons.prems by (simp add: session)
  note IH = Cons.IH [OF this]
  show ?case unfolding step
  proof (intro conjI allI impI)
    fix j
    assume "j < length (gn_entries (gl_session st))"
    with IH obtain refs' where at: "if i + 1 \<le> j \<and> j < i + 1 + length gs
       then debounced_entry (\<not> changed \<and> cg_needs_run (gn_entries (gl_session st2) ! j) \<and> gn_search_term (gl_session st2) = parser_inner_text (gr_search_term req))
         (fresh_rows env j arg (gs ! (j - (i + 1))) req refs') (gn_entries (gl_session st2) ! j)
         (gn_entries (gl_session (run_generators env no_cancel arg req changed previous (i + 1) gs st2)) ! j)
       else gn_entries (gl_session (run_generators env no_cancel arg req changed previous (i + 1) gs st2)) ! j = gn_entries (gl_session st2) ! j"
      by (auto simp: session)
    consider "j < i" | "j = i" | "i < j" by linarith
    then show "\<exists>refs. if i \<le> j \<and> j < i + length (g # gs)
       then debounced_entry (\<not> changed \<and> cg_needs_run (gn_entries (gl_session st) ! j) \<and> gn_search_term (gl_session st) = parser_inner_text (gr_search_term req))
         (fresh_rows env j arg ((g # gs) ! (j - i)) req refs) (gn_entries (gl_session st) ! j)
         (gn_entries (gl_session (run_generators env no_cancel arg req changed previous (i + 1) gs st2)) ! j)
       else gn_entries (gl_session (run_generators env no_cancel arg req changed previous (i + 1) gs st2)) ! j = gn_entries (gl_session st) ! j"
    proof cases
      case 1
      then show ?thesis using at by (simp add: session)
    next
      case 2
      then show ?thesis using at one(3) Cons.prems by (intro exI [of _ refs]) (simp add: session)
    next
      case 3
      then have "gs ! (j - (i + 1)) = (g # gs) ! (j - i)" "gn_entries (gl_session st2) ! j = gn_entries (gl_session st) ! j"
          "(i + 1 \<le> j \<and> j < i + 1 + length gs) = (i \<le> j \<and> j < i + length (g # gs))"
        by (auto simp: nth_Cons' session)
      then show ?thesis using at unfolding typed by metis
    qed
  qed (use IH in \<open>simp_all add: session\<close>)
qed auto

text \<open>A debounced script, and what is typed.\<close>

definition sample_gen_env :: gen_env where
  "sample_gen_env =
     \<lparr>ge_lowercase = map to_ascii_lowercase, ge_get_query_term = (\<lambda>_ _. None), ge_trigger = (\<lambda>_ _ _. None), ge_script_timeout = Some 9,
      ge_session_cwd = Some (lit ''/''), ge_environment = [], ge_execute = (\<lambda>_ _ _ _. lit ''x,y,x''), ge_try_execute = (\<lambda>_ _ _ _. None),
      ge_git_identity = (\<lambda>cwd. (cwd, None)), ge_package_json = (\<lambda>_. None), ge_cobra = (\<lambda>_ _ _. []), ge_complete_path = (\<lambda>_ _ _ _. []),
      ge_filter_template = (\<lambda>_ _ _. None), ge_custom = (\<lambda>_ _ _ _ _ _. None), ge_script_command = (\<lambda>_ _. None),
      ge_post_process = (\<lambda>_ _ _ _. None), ge_script_cache_fallback = (\<lambda>_ _ cwd. cwd), ge_cached_rows = (\<lambda>_ _ _ _ rows. rows),
      ge_cached_output = (\<lambda>_ _ _ out. out), ge_history_values = []\<rparr>"

definition sample_debounced :: arg_fields where
  "sample_debounced = arg_fields_default\<lparr>af_debounce_ms := Some 100, af_generators :=
     [generator_default\<lparr>gs_script := [lit ''ls''], gs_split_on := Some (lit '',''),
        gs_trigger := Some \<lparr>gt_on = lit ''string'', gt_string = Some (JString (lit ''/'')), gt_length = None, gt_js_trigger = None\<rparr>\<rparr>]\<rparr>"

definition typed_request :: "string \<Rightarrow> gen_request" where
  "typed_request t = \<lparr>gr_tokens = (if t = [] then [lit ''tool''] else [lit ''tool'', lit t]), gr_query = lit t, gr_search_term = lit t, gr_cwd = lit ''/'', gr_fuzzy = False\<rparr>"

definition sample_request :: "string \<Rightarrow> generator_session \<Rightarrow> suggestion list \<times> generator_session \<times> str list mtime_lru \<times> (bool \<times> int)" where
  "sample_request t session = generate_for_arg_with_history sample_gen_env no_cancel sample_debounced (typed_request t) session lru_default (False, 0)"

definition session_after :: "string list \<Rightarrow> generator_session" where
  "session_after ts = fold (\<lambda>t session. fst (snd (sample_request t session))) ts generator_session_default"

text \<open>
  Typing on loses a run: a slash triggers the generator, which has run before, and it waits; the next
  letter triggers nothing and is no repetition, so the old rows are filtered, nothing is pending any
  more, and the generator is left waiting for a run that no one asks for.
\<close>

definition typed_session :: "string \<Rightarrow> bool \<Rightarrow> suggestion list \<Rightarrow> generator_session" where
  "typed_session t waits rows =
     \<lparr>gn_arg_id = generator_arg_id [lit ''tool''] sample_debounced (lit ''/'') [], gn_search_term = lit t,
      gn_entries = [\<lparr>cg_results = rows, cg_needs_run = waits, cg_ran = True\<rparr>]\<rparr>"

lemma typed_request_id:
  "t \<noteq> [] \<Longrightarrow> generator_arg_id (gr_tokens (typed_request t)) sample_debounced (gr_cwd (typed_request t)) (gr_search_term (typed_request t)) =
    generator_arg_id [lit ''tool''] sample_debounced (lit ''/'') []"
  by (simp add: generator_arg_id_def typed_request_def Let_def)

lemma sample_generators: "effective_generators sample_debounced = af_generators sample_debounced"
  by (simp add: effective_generators_def sample_debounced_def arg_fields_default_def)

lemma slash_index: "last_index (lit ''a/'') (lit ''/'') = 1" "last_index (lit ''a/b'') (lit ''/'') = 1" "last_index [] (lit ''/'') = - 1"
  by (simp_all add: last_index_def utf16_len_def encode_utf16_def encode_utf16_char_def starts_with_def try_i32_def)

lemma slash_terms: "parser_inner_text (lit ''a/'') = lit ''a/''" "parser_inner_text (lit ''a/b'') = lit ''a/b''"
  by code_simp+

lemma typed_session_typed: "typed_session before waits rows\<lparr>gn_search_term := lit t\<rparr> = typed_session t waits rows"
  by (simp add: typed_session_def)

lemma one_generator:
  "entry_rows env no_cancel 0 arg g req changed previous st = (Some shown, \<lparr>gl_session = session, gl_refs = refs, gl_pending = pending, gl_out = out\<rparr>) \<Longrightarrow>
   run_generators env no_cancel arg req changed previous 0 [g] st =
     \<lparr>gl_session = session\<lparr>gn_search_term := parser_inner_text (gr_search_term req)\<rparr>, gl_refs = refs, gl_pending = pending,
      gl_out = out @ stamp_query_term (generator_query env arg g (parser_inner_text (gr_search_term req))) (gr_search_term req) (has_query_rule arg g) shown\<rparr>"
  by (simp add: Let_def)

lemma typing_on_loses_the_run:
  "snd (sample_request ''a/'' (typed_session [] False rows)) = (typed_session ''a/'' True rows, lru_default, (True, 100)) \<and>
   snd (sample_request ''a/b'' (typed_session ''a/'' True rows)) = (typed_session ''a/b'' True rows, lru_default, (False, 0))"
proof -
  have step: "snd (sample_request t (typed_session before waits rows)) =
      (typed_session t (waits \<or> triggered) rows, lru_default, if triggered then (True, 100) else (False, 0))"
    if "t \<noteq> []" "parser_inner_text (lit t) = lit t" "lit before \<noteq> lit t"
      "triggered = (last_index (lit t) (lit ''/'') \<noteq> last_index (lit before) (lit ''/''))" for t before waits triggered
  proof -
    define tr where "tr = \<lparr>gt_on = lit ''string'', gt_string = Some (JString (lit ''/'')), gt_length = None, gt_js_trigger = None\<rparr>"
    define g where "g = hd (af_generators sample_debounced)"
    have gens: "af_generators sample_debounced = [g]" and trigger: "gs_trigger g = Some tr" by (simp_all add: g_def tr_def sample_debounced_def)
    have "should_trigger sample_gen_env (Some tr) True False (lit t) (lit before) p = triggered" for p
      unfolding should_trigger_def trigger_string_def tr_def using that(4) by simp
    then have asked: "should_trigger sample_gen_env (gs_trigger g) True False (lit t) (lit before) p = triggered" for p unfolding trigger .
    have req: "gr_search_term (typed_request t) = lit t" "gr_fuzzy (typed_request t) = False" by (simp_all add: typed_request_def)
    have debounce: "af_debounce_ms sample_debounced = Some 100" by (simp add: sample_debounced_def)
    have "\<exists>shown. entry_rows sample_gen_env no_cancel 0 sample_debounced g (typed_request t) False (lit before)
        \<lparr>gl_session = typed_session before waits rows, gl_refs = lru_default, gl_pending = False, gl_out = out\<rparr> =
        (Some shown, \<lparr>gl_session = typed_session before (waits \<or> triggered) rows, gl_refs = lru_default, gl_pending = triggered, gl_out = out\<rparr>)" for out
      unfolding entry_rows_def Let_def req that(2) debounce using that(3) asked by (cases triggered) (simp_all add: typed_session_def set_entry_def)
    then obtain shown where "entry_rows sample_gen_env no_cancel 0 sample_debounced g (typed_request t) False (lit before)
        \<lparr>gl_session = typed_session before waits rows, gl_refs = lru_default, gl_pending = False, gl_out = out\<rparr> =
        (Some (shown out), \<lparr>gl_session = typed_session before (waits \<or> triggered) rows, gl_refs = lru_default, gl_pending = triggered, gl_out = out\<rparr>)" for out
      by metis
    note ran = one_generator [OF this, unfolded req that(2) typed_session_typed]
    have opened: "open_session (generator_arg_id [lit ''tool''] sample_debounced (lit ''/'') []) (length [g])
        (typed_session before waits rows) = (False, typed_session before waits rows)"
      unfolding open_session_def typed_session_def Let_def by simp
    have before: "gn_search_term (typed_session before waits rows) = lit before" by (simp add: typed_session_def)
    show ?thesis
      unfolding sample_request_def generate_for_arg_with_history_def typed_request_id [OF that(1)] sample_generators gens opened Let_def prod.case before ran debounce
      by (simp add: unwrap_or_def)
  qed
  show ?thesis using step [of "''a/''" "[]" True False] step [of "''a/b''" "''a/''" False True] slash_terms slash_index by simp
qed

text \<open>
  Property C32. A debounced generator runs exactly when its wait is over. In a request that is not
  cancelled, it runs if the session is for the same argument, it was waiting, and nothing was typed since;
  then the entry holds the rows of this run, freed of duplicates, and waits no more. In every other
  case it does not run: its rows stay as they were, or start empty for a new argument.
\<close>

theorem debounced_generator_waits:
  assumes "af_debounce_ms arg \<noteq> None" "i < length (effective_generators arg)"
    and "generate_for_arg_with_history env no_cancel arg req session refs pending = (rows, session', rest)"
  shows "let same = (gn_arg_id session = generator_arg_id (gr_tokens req) arg (gr_cwd req) (gr_search_term req));
      entry = (if same \<and> i < length (gn_entries session) then gn_entries session ! i else cached_generator_default);
      over = (same \<and> cg_needs_run entry \<and> gn_search_term session = parser_inner_text (gr_search_term req))
    in gn_arg_id session' = generator_arg_id (gr_tokens req) arg (gr_cwd req) (gr_search_term req) \<and>
       gn_search_term session' = parser_inner_text (gr_search_term req) \<and> i < length (gn_entries session') \<and>
       (\<exists>refs'. if over
          then gn_entries session' ! i =
            \<lparr>cg_results = dedup_session_rows (fresh_rows env i arg (effective_generators arg ! i) req refs'), cg_needs_run = False, cg_ran = True\<rparr>
          else cg_results (gn_entries session' ! i) = cg_results entry \<and> cg_ran (gn_entries session' ! i) = cg_ran entry \<and>
            (cg_needs_run entry \<longrightarrow> cg_needs_run (gn_entries session' ! i)))"
proof -
  let ?id = "generator_arg_id (gr_tokens req) arg (gr_cwd req) (gr_search_term req)" and ?gens = "effective_generators arg"
  obtain changed opened where op: "open_session ?id (length ?gens) session = (changed, opened)" by fastforce
  then have opened: "changed = (gn_arg_id session \<noteq> ?id)" "length (gn_entries opened) = length ?gens" "gn_arg_id opened = ?id"
      "gn_entries opened ! i = (if \<not> changed \<and> i < length (gn_entries session) then gn_entries session ! i else cached_generator_default)"
      "\<not> changed \<Longrightarrow> gn_search_term opened = gn_search_term session"
    using assms(2) by (auto simp: open_session_def Let_def nth_append split: if_splits)
  define st where "st out = run_generators env no_cancel arg req changed (gn_search_term opened) 0 ?gens
      \<lparr>gl_session = opened, gl_refs = refs, gl_pending = False, gl_out = out\<rparr>" for out
  obtain out where session': "session' = gl_session (st out)"
    using assms(3) by (auto simp: generate_for_arg_with_history_def Let_def op st_def)
  have facts: "length (gn_entries session') = length ?gens" "gn_arg_id session' = ?id" "gn_search_term session' = parser_inner_text (gr_search_term req)"
      "\<exists>refs. debounced_entry (\<not> changed \<and> cg_needs_run (gn_entries opened ! i) \<and> gn_search_term opened = parser_inner_text (gr_search_term req))
        (fresh_rows env i arg (?gens ! i) req refs) (gn_entries opened ! i) (gn_entries session' ! i)"
    using run_generators_debounced [OF assms(1), of 0 ?gens "\<lparr>gl_session = opened, gl_refs = refs, gl_pending = False, gl_out = out\<rparr>" env req changed "gn_search_term opened"]
      opened(2,3) assms(2) unfolding session' st_def by auto
  show ?thesis using facts assms(2) opened unfolding debounced_entry_def Let_def by (cases changed) auto
qed

theorem debounced_generator_waits_witness:
  "map cg_needs_run (gn_entries (session_after [[]])) = [True] \<and>
   (\<exists>refs'. gn_entries (session_after [[], []]) ! 0 =
      \<lparr>cg_results = dedup_session_rows (fresh_rows sample_gen_env 0 sample_debounced (effective_generators sample_debounced ! 0) (typed_request []) refs'),
       cg_needs_run = False, cg_ran = True\<rparr>)"
proof -
  let ?s = "session_after [[]]"
  have "session_after [[], []] = fst (snd (sample_request [] ?s))" by (simp add: session_after_def)
  then obtain rows rest where second: "sample_request [] ?s = (rows, session_after [[], []], rest)" by (metis prod.collapse)
  have facts: "gn_arg_id ?s = generator_arg_id (gr_tokens (typed_request [])) sample_debounced (gr_cwd (typed_request [])) (gr_search_term (typed_request [])) \<and>
      gn_search_term ?s = parser_inner_text (gr_search_term (typed_request [])) \<and> map cg_needs_run (gn_entries ?s) = [True] \<and>
      length (effective_generators sample_debounced) = 1" by code_simp
  have entry: "length (gn_entries ?s) = 1" "cg_needs_run (gn_entries ?s ! 0)" using facts by (cases "gn_entries ?s"; simp)+
  have "af_debounce_ms sample_debounced \<noteq> None" "0 < length (effective_generators sample_debounced)" using facts by (simp_all add: sample_debounced_def)
  from debounced_generator_waits [OF this second [unfolded sample_request_def]] facts entry show ?thesis by (simp add: Let_def)
qed

section \<open>The cache of refs\<close>

definition lru_ok :: "nat \<Rightarrow> 'v mtime_lru \<Rightarrow> bool" where
  "lru_ok room lru \<longleftrightarrow>
     distinct (map fst (ml_entries lru)) \<and> distinct (ml_order lru) \<and> set (ml_order lru) = fst ` set (ml_entries lru) \<and>
     length (ml_entries lru) \<le> room"

lemma delete_key_set: "fst ` set (AList.delete key es) = fst ` set es - {key}"
  by (metis delete_keys set_map set_removeAll)

lemma lru_evict_ok:
  assumes "lru_ok room lru" "ml_entries lru \<noteq> []"
  defines "lru' \<equiv> lru_evict (ml_order lru) (ml_entries lru)"
  shows "lru_ok room lru' \<and> length (ml_entries lru') < length (ml_entries lru) \<and>
    (\<forall>k. map_of (ml_entries lru') k = None \<or> map_of (ml_entries lru') k = map_of (ml_entries lru) k)"
proof -
  have "ml_order lru \<noteq> []" using assms(1,2) by (auto simp: lru_ok_def)
  then obtain old order where order: "ml_order lru = old # order" by (cases "ml_order lru") auto
  then have "old \<in> fst ` set (ml_entries lru)" using assms(1) by (auto simp: lru_ok_def)
  then have found: "map_of (ml_entries lru) old \<noteq> None" by (simp add: map_of_eq_None_iff)
  have "length (AList.delete old (ml_entries lru)) < length (ml_entries lru)"
    using \<open>old \<in> fst ` set (ml_entries lru)\<close> by (auto simp: AList.delete_eq intro!: length_filter_less)
  moreover have "set order = fst ` set (AList.delete old (ml_entries lru))" using assms(1) order by (auto simp: lru_ok_def delete_key_set)
  ultimately show ?thesis using assms(1) order found by (auto simp: lru'_def lru_ok_def distinct_delete delete_conv')
qed

lemma lru_touch_ok: "lru_ok room lru \<Longrightarrow> lru_ok room (lru_touch key lru) \<and> ml_entries (lru_touch key lru) = ml_entries lru"
  by (auto simp: lru_touch_def lru_ok_def)

lemma lru_remove_ok: "lru_ok room lru \<Longrightarrow> lru_ok room (lru_remove key lru)"
  by (auto simp: lru_remove_def lru_ok_def distinct_delete delete_key_set intro: le_trans [OF length_delete_le])

lemma lru_insert_within_ok:
  assumes "lru_ok room lru" "0 < room"
  shows "lru_ok room (lru_insert_within room key mtime v lru)" "map_of (ml_entries (lru_insert_within room key mtime v lru)) key = Some (mtime, v)"
    "k \<noteq> key \<Longrightarrow> map_of (ml_entries (lru_insert_within room key mtime v lru)) k = None \<or> map_of (ml_entries (lru_insert_within room key mtime v lru)) k = map_of (ml_entries lru) k"
proof -
  define lru' where "lru' = (if length (ml_entries lru) \<ge> room then lru_evict (ml_order lru) (ml_entries lru) else lru)"
  have full: "length (ml_entries lru) \<ge> room \<Longrightarrow> ml_entries lru \<noteq> []" using assms(2) by auto
  have room: "lru_ok room lru'" "length (ml_entries lru') < room"
      "\<And>k. map_of (ml_entries lru') k = None \<or> map_of (ml_entries lru') k = map_of (ml_entries lru) k"
    using assms(1) lru_evict_ok [OF assms(1) full] by (auto simp: lru'_def lru_ok_def)
  have all: "lru_ok room (lru_insert_within room key mtime v lru) \<and> map_of (ml_entries (lru_insert_within room key mtime v lru)) key = Some (mtime, v) \<and>
    (k \<noteq> key \<longrightarrow> map_of (ml_entries (lru_insert_within room key mtime v lru)) k = None \<or> map_of (ml_entries (lru_insert_within room key mtime v lru)) k = map_of (ml_entries lru) k)" for k
  proof (cases "map_of (ml_entries lru) key = None")
    case True
    then have absent: "map_of (ml_entries lru') key = None" using room(3) [of key] by auto
    then have fresh: "key \<notin> fst ` set (ml_entries lru')" by (simp add: map_of_eq_None_iff)
    have "lru_insert_within room key mtime v lru = lru'\<lparr>ml_order := ml_order lru' @ [key], ml_entries := ml_entries lru' @ [(key, mtime, v)]\<rparr>"
      using True by (simp add: lru_insert_within_def lru'_def [symmetric] update_fresh [OF fresh])
    then show ?thesis using room(1,2) room(3) [of k] fresh absent by (auto simp: lru_ok_def map_add_def split: option.splits)
  next
    case False
    let ?lru = "lru\<lparr>ml_entries := AList.update key (mtime, v) (ml_entries lru)\<rparr>"
    have present: "key \<in> fst ` set (ml_entries lru)" using False by (simp add: map_of_eq_None_iff)
    have "map fst (AList.update key (mtime, v) (ml_entries lru)) = map fst (ml_entries lru)"
      using present by (simp add: update_keys)
    then have "lru_ok room ?lru" using assms(1) by (simp add: lru_ok_def) (metis length_map set_map)
    from lru_touch_ok [OF this, of key] False show ?thesis by (auto simp: lru_insert_within_def update_conv')
  qed
  then show "lru_ok room (lru_insert_within room key mtime v lru)" "map_of (ml_entries (lru_insert_within room key mtime v lru)) key = Some (mtime, v)"
    "k \<noteq> key \<Longrightarrow> map_of (ml_entries (lru_insert_within room key mtime v lru)) k = None \<or> map_of (ml_entries (lru_insert_within room key mtime v lru)) k = map_of (ml_entries lru) k"
    by blast+
qed

lemma keyed_store_within: "0 < room \<Longrightarrow> keyed_store (lru_ok room) (\<lambda>lru. map_of (ml_entries lru)) (\<lambda>key (mtime, v). lru_insert_within room key mtime v) lru_remove"
  by unfold_locales (auto simp: lru_insert_within_ok lru_remove_ok, auto simp: lru_remove_def delete_conv' dest: lru_insert_within_ok(3))

lemma MAX_CACHED_pos: "0 < MAX_CACHED"
  by (simp add: MAX_CACHED_def)

lemmas lru_insert_ok = lru_insert_within_ok [where room = MAX_CACHED, OF _ MAX_CACHED_pos, folded lru_insert_def]

interpretation lru_store: keyed_store "lru_ok MAX_CACHED" "\<lambda>lru. map_of (ml_entries lru)" "\<lambda>key (mtime, v). lru_insert key mtime v" lru_remove
  unfolding lru_insert_def by (rule keyed_store_within [OF MAX_CACHED_pos])

text \<open>
  The refs that \<open>git\<close> printed, with the repository and its age at that time, newest first, and the cache
  they left behind.
\<close>

abbreviation printed_refs :: "gen_env \<Rightarrow> str \<Rightarrow> nat \<Rightarrow> str list option" where
  "printed_refs env cwd timeout \<equiv> map_option (\<lambda>stdout. filter (\<lambda>line. line \<noteq> []) (map trim (str_lines stdout)))
     (ge_try_execute env (lit ''git'') (map lit [''for-each-ref'', ''--format=%(refname:short)'', ''refs/heads'', ''refs/tags'']) cwd timeout)"

inductive refs_run :: "(str \<times> (nat option \<times> str list)) list \<Rightarrow> str list mtime_lru \<Rightarrow> bool" where
  refs_start: "refs_run [] lru_default"
| refs_hit: "refs_run seen lru \<Longrightarrow> ge_git_identity env cwd = (key, mtime) \<Longrightarrow> fst (lru_get key mtime lru) \<noteq> None \<or> printed_refs env cwd timeout = None \<Longrightarrow>
    refs_run seen (snd (git_refs env query cwd fuzzy timeout lru))"
| refs_read: "refs_run seen lru \<Longrightarrow> ge_git_identity env cwd = (key, mtime) \<Longrightarrow> fst (lru_get key mtime lru) = None \<Longrightarrow>
    printed_refs env cwd timeout = Some lines \<Longrightarrow> refs_run ((key, mtime, lines) # seen) (snd (git_refs env query cwd fuzzy timeout lru))"

lemma lru_get_ok:
  assumes "lru_ok room lru" "lru_get key mtime lru = (r, lru')"
  shows "lru_ok room lru' \<and> (\<forall>k. map_of (ml_entries lru') k = None \<or> map_of (ml_entries lru') k = map_of (ml_entries lru) k) \<and>
    (\<forall>v. r = Some v \<longrightarrow> map_of (ml_entries lru) key = Some (mtime, v))"
proof (cases "map_of (ml_entries lru) key")
  case None
  then show ?thesis using assms by (auto simp: lru_get_def)
next
  case (Some e)
  obtain stored v where e: "e = (stored, v)" by fastforce
  show ?thesis
  proof (cases "stored = mtime")
    case True
    then have "lru' = lru_touch key lru" "r = Some v" using assms(2) by (simp_all add: lru_get_def Some e)
    then show ?thesis using lru_touch_ok [OF assms(1), of key] True by (simp add: Some e)
  next
    case False
    then have r: "lru' = lru_remove key lru" "r = None" using assms(2) by (simp_all add: lru_get_def Some e)
    have "map_of (ml_entries (lru_remove key lru)) k = None \<or> map_of (ml_entries (lru_remove key lru)) k = map_of (ml_entries lru) k" for k
      by (simp add: lru_remove_def delete_conv')
    then show ?thesis unfolding r using lru_remove_ok [OF assms(1)] by simp
  qed
qed

lemma refs_run_ok: "refs_run seen lru \<Longrightarrow> lru_ok MAX_CACHED lru \<and> (\<forall>k e. map_of (ml_entries lru) k = Some e \<longrightarrow> map_of seen k = Some e)"
proof (induction rule: refs_run.induct)
  case refs_start
  then show ?case by (simp add: lru_default_def lru_ok_def)
next
  case (refs_hit seen lru env cwd key mtime timeout query fuzzy)
  obtain r lru' where look: "lru_get key mtime lru = (r, lru')" by fastforce
  have "snd (git_refs env query cwd fuzzy timeout lru) = lru'" using refs_hit look by (auto simp: git_refs_def split: option.splits)
  then show ?case using lru_get_ok [OF conjunct1 [OF refs_hit.IH] look] refs_hit.IH by (metis option.distinct(1))
next
  case (refs_read seen lru env cwd key mtime timeout lines query fuzzy)
  obtain lru' where look: "lru_get key mtime lru = (None, lru')" using refs_read.hyps(3) by (metis prod.collapse)
  have eq: "snd (git_refs env query cwd fuzzy timeout lru) = lru_insert key mtime lines lru'"
    using refs_read.hyps(2,4) look by (auto simp: git_refs_def Let_def split: option.splits)
  note kept = lru_get_ok [OF conjunct1 [OF refs_read.IH] look]
  note ins = lru_insert_ok [OF conjunct1 [OF kept], where key = key and mtime = mtime and v = lines]
  show ?case unfolding eq
  proof (intro conjI allI impI ins(1))
    fix k e
    assume e: "map_of (ml_entries (lru_insert key mtime lines lru')) k = Some e"
    show "map_of ((key, mtime, lines) # seen) k = Some e"
    proof (cases "k = key")
      case True
      then show ?thesis using e ins(2) by simp
    next
      case False
      then have "map_of (ml_entries lru') k = Some e" using e ins(3) [where k = k] by auto
      then have "map_of (ml_entries lru) k = Some e" using kept by (metis option.distinct(1))
      then have "map_of seen k = Some e" using refs_read.IH by blast
      then show ?thesis using False by simp
    qed
  qed
qed

text \<open>
  Property C33. The refs offered belong to the present state of the repository: after any sequence of
  requests in any directories, the cache holds at most 32 lists, and the rows are a filter of what
  \<open>git\<close> prints now, or of what it printed last for this repository, and then at the same age of its refs.
\<close>

theorem git_refs_current:
  assumes "refs_run seen lru" "ge_git_identity env cwd = (key, mtime)"
  shows "length (ml_entries lru) \<le> 32 \<and>
    (\<exists>lines. fst (git_refs env query cwd fuzzy timeout lru) = filter_cached_lines env lines query fuzzy \<and>
       (map_of seen key = Some (mtime, lines) \<or> lines = unwrap_or [] (printed_refs env cwd timeout)))"
proof -
  note ok = refs_run_ok [OF assms(1)]
  obtain r lru' where look: "lru_get key mtime lru = (r, lru')" by fastforce
  note got = lru_get_ok [OF conjunct1 [OF ok] look]
  have nil: "filter_cached_lines env [] query fuzzy = []" by (simp add: filter_cached_lines_def)
  have "\<exists>lines. fst (git_refs env query cwd fuzzy timeout lru) = filter_cached_lines env lines query fuzzy \<and>
       (map_of seen key = Some (mtime, lines) \<or> lines = unwrap_or [] (printed_refs env cwd timeout))"
  proof (cases r)
    case (Some lines)
    then show ?thesis using got ok by (intro exI [of _ lines]) (auto simp: git_refs_def assms(2) look)
  next
    case None
    then show ?thesis
      by (intro exI [of _ "unwrap_or [] (printed_refs env cwd timeout)"])
        (auto simp: git_refs_def assms(2) look Let_def nil unwrap_or_def split: option.split)
  qed
  then show ?thesis using ok by (simp add: lru_ok_def MAX_CACHED_def)
qed

theorem git_refs_current_witness:
  "length (ml_entries (lru_default :: str list mtime_lru)) \<le> 32 \<and>
   (\<exists>lines. fst (git_refs sample_gen_env [] (lit ''/repo'') False 10 lru_default) = filter_cached_lines sample_gen_env lines [] False \<and>
     (map_of [] (lit ''/repo'') = Some (None :: nat option, lines) \<or> lines = unwrap_or [] (printed_refs sample_gen_env (lit ''/repo'') 10)))"
  by (rule git_refs_current [OF refs_start]) (simp add: sample_gen_env_def)

section \<open>Generated rows are not published\<close>

definition unmarked :: "suggestion list \<Rightarrow> bool" where
  "unmarked rows \<longleftrightarrow> list_all (\<lambda>s. \<not> marked s) rows"

lemma unmarked_simps [simp]: "unmarked []" "unmarked (xs @ ys) \<longleftrightarrow> unmarked xs \<and> unmarked ys"
  by (simp_all add: unmarked_def)

lemma unmarked_sub: "unmarked rows \<Longrightarrow> set rows' \<subseteq> set rows \<Longrightarrow> unmarked rows'"
  by (auto simp: unmarked_def list_all_iff)

lemma unmarked_filter: "unmarked rows \<Longrightarrow> unmarked (filter P rows)" "unmarked rows \<Longrightarrow> unmarked (take n rows)"
  by (auto intro: unmarked_sub dest: in_set_takeD)

lemma unmarked_map: "(\<And>x. \<not> marked (f x)) \<Longrightarrow> unmarked (map f xs)"
  by (simp add: unmarked_def list_all_iff)

lemma unmarked_filter_map: "(\<And>x s. f x = Some s \<Longrightarrow> \<not> marked s) \<Longrightarrow> unmarked (filter_map f xs)"
  by (auto simp: unmarked_def list_all_iff set_filter_map)

lemma unmarked_retain: "unmarked rows \<Longrightarrow> unmarked (retain_first key seen rows)"
  by (induction key seen rows rule: retain_first.induct) (auto simp: unmarked_def)

lemma unmarked_stamp: "unmarked rows \<Longrightarrow> unmarked (stamp_query_term term raw rule rows)"
  by (auto simp: stamp_query_term_def unmarked_def list_all_iff stamp_row_key)

lemma unmarked_new [simp]: "\<not> marked (suggestion_new name description kind)" "\<not> marked (arg_row part)"
  by (simp_all add: marked_def suggestion_new_def arg_row_def with_insert_value_def)

text \<open>Files, Cobra programs and hooks give rows of their own; the cache gives back rows it was given.\<close>

definition env_unmarked :: "gen_env \<Rightarrow> bool" where
  "env_unmarked env \<longleftrightarrow>
     (\<forall>tokens cwd fuzzy. unmarked (ge_cobra env tokens cwd fuzzy)) \<and>
     (\<forall>search_term cwd fuzzy paths. unmarked (ge_complete_path env search_term cwd fuzzy paths)) \<and>
     (\<forall>hook rows tokens. unmarked rows \<longrightarrow> unmarked (unwrap_or [] (ge_filter_template env hook rows tokens))) \<and>
     (\<forall>hook tokens cwd search_term timeout dangerous. unmarked (unwrap_or [] (ge_custom env hook tokens cwd search_term timeout dangerous))) \<and>
     (\<forall>hook stdout tokens script. unmarked (unwrap_or [] (ge_post_process env hook stdout tokens script))) \<and>
     (\<forall>arg cwd kind fallback rows. unmarked rows \<longrightarrow> unmarked (ge_cached_rows env arg cwd kind fallback rows))"

lemma env_unmarkedD:
  assumes "env_unmarked env"
  shows "unmarked (ge_cobra env tokens cwd fuzzy)" "unmarked (ge_complete_path env search_term cwd fuzzy paths)"
    "unmarked rows \<Longrightarrow> unmarked (unwrap_or [] (ge_filter_template env hook rows tokens))"
    "unmarked (unwrap_or [] (ge_custom env hook tokens cwd search_term timeout dangerous))"
    "unmarked (unwrap_or [] (ge_post_process env hook stdout tokens script))"
    "unmarked rows \<Longrightarrow> unmarked (ge_cached_rows env arg cwd kind fallback rows)"
  using assms by (simp_all add: env_unmarked_def)

lemma unmarked_seeds: "unmarked (generate_static_seeds env arg query search_term fuzzy)"
  unfolding generate_static_seeds_def
  by (rule unmarked_filter_map)
    (auto simp: seed_row_def marked_def suggestion_new_def with_meta_def Let_def split: option.splits prod.splits if_splits)

lemma unmarked_lines [simp]:
  "unmarked (lines_to_suggestions env stdout query fuzzy kind)" "unmarked (branch_lines_to_suggestions env stdout query fuzzy)"
  "unmarked (changed_file_rows env stdout query fuzzy)" "unmarked (filter_cached_lines env lines query fuzzy)"
  "unmarked (npm_deps env query cwd fuzzy)" "unmarked (history_template_suggestions env values query fuzzy)"
  "unmarked (filter_split env stdout query fuzzy separator)" "unmarked (all_split stdout separator)"
  by (simp_all add: lines_to_suggestions_def branch_lines_to_suggestions_def changed_file_rows_def filter_cached_lines_def npm_deps_def
      history_template_suggestions_def filter_split_def filter_lines_def all_split_def all_lines_def unique_script_rows_def unmarked_map split: option.split)

lemma unmarked_described [simp]: "unmarked (described_rows env stdout query fuzzy kind)"
  unfolding described_rows_def by (intro unmarked_filter(2) unmarked_filter_map) (auto simp: case_prod_unfold split: if_splits)

lemma unmarked_aliases: "parse_git_alias line = Some s \<Longrightarrow> \<not> marked s"
  by (auto simp: parse_git_alias_def Let_def split: Option.bind_splits if_splits)

lemma unmarked_scripts [simp]: "unmarked (npm_scripts env query cwd fuzzy)"
proof -
  have "unmarked (take n (sort_by_key sg_name (map (\<lambda>(name, cmd). suggestion_new name (f cmd) kind) xs)))" for n f kind and xs :: "(str \<times> json) list"
    by (rule unmarked_filter(2), rule unmarked_sub [OF unmarked_map [of "\<lambda>(name, cmd). suggestion_new name (f cmd) kind" xs]])
      (auto simp: sort_by_key_def)
  then show ?thesis by (simp add: npm_scripts_def split: option.split)
qed

lemma unmarked_builtin: "env_unmarked env \<Longrightarrow> unmarked (fst (run_builtin env tokens query cwd fuzzy timeout b lru))"
proof (cases b)
  case GitRefs
  then show ?thesis by (auto simp: run_builtin_def git_refs_def Let_def split: prod.splits option.splits)
next
  case GitAliases
  have "unmarked (take n (filter P (filter_map parse_git_alias ls)))" for n P ls
    by (intro unmarked_filter unmarked_filter_map unmarked_aliases)
  with GitAliases show ?thesis by (simp add: run_builtin_def git_output_def split: option.split)
qed (simp_all add: run_builtin_def git_output_def env_unmarkedD split: option.split)

lemma unmarked_builtins: "env_unmarked env \<Longrightarrow> unmarked (fst (run_builtins env tokens query cwd fuzzy timeout bs lru))"
proof (induction bs arbitrary: lru)
  case (Cons b bs)
  show ?case using unmarked_builtin [OF Cons.prems, of tokens query cwd fuzzy timeout b lru] Cons.IH [OF Cons.prems] by (simp add: case_prod_unfold)
qed simp

lemma unmarked_js:
  assumes "env_unmarked env"
  shows "unmarked (run_js_generators env arg tokens query search_term cwd fuzzy timeout)"
proof -
  have "unmarked (shape_script_output env arg tokens script stdout)" for script stdout
    by (simp add: shape_script_output_def env_unmarkedD [OF assms] Let_def split: option.split)
  then have "unmarked (run_script_or_post_process env arg tokens cwd timeout)"
    by (simp add: run_script_or_post_process_def Let_def case_prod_unfold split: option.split list.split)
  then show ?thesis by (simp add: run_js_generators_def Let_def unmarked_filter env_unmarkedD [OF assms] split: option.split)
qed

lemma unmarked_generator:
  assumes "env_unmarked env"
  shows "unmarked (fst (generate_from_generator env chk i arg g req query search_term timeout lru))"
proof -
  have "unmarked (unwrap_or rows (ge_filter_template env hook rows tokens))" if "unmarked rows" for rows hook tokens
    using env_unmarkedD(3) [OF assms that, of hook tokens] that by (simp add: unwrap_or_def split: option.splits)
  then have "unmarked (template_rows_of env g templates tokens query search_term cwd fuzzy)" for templates tokens cwd fuzzy
    by (simp add: template_rows_of_def Let_def env_unmarkedD [OF assms] split: option.split)
  moreover have "unmarked (run_script env script query cwd fuzzy t split_on)" for script cwd fuzzy t split_on
    by (simp add: run_script_def Let_def split: list.split option.split)
  ultimately show ?thesis
    using unmarked_js [OF assms] unmarked_builtins [OF assms]
    by (simp add: generate_from_generator_def Let_def case_prod_unfold split: option.split)
qed

definition session_unmarked :: "generator_session \<Rightarrow> bool" where
  "session_unmarked session \<longleftrightarrow> list_all (\<lambda>entry. unmarked (cg_results entry)) (gn_entries session)"

lemma session_unmarked_set: "session_unmarked session \<Longrightarrow> unmarked (cg_results entry) \<Longrightarrow> session_unmarked (session\<lparr>gn_entries := (gn_entries session)[i := entry]\<rparr>)"
  by (auto simp: session_unmarked_def list_all_iff dest!: set_update_subset_insert [THEN subsetD])

lemma entry_rows_unmarked:
  assumes "env_unmarked env" "session_unmarked (gl_session st)" "i < length (gn_entries (gl_session st))"
    and "entry_rows env chk i arg g req changed previous st = (r, st')"
  shows "unmarked (unwrap_or [] r)" "session_unmarked (gl_session st')" "length (gn_entries (gl_session st')) = length (gn_entries (gl_session st))" "gl_out st' = gl_out st"
proof -
  have kept: "unmarked (cg_results (gn_entries (gl_session st) ! i))" using assms(2,3) by (simp add: session_unmarked_def list_all_length)
  then have shown: "unmarked (refilter_generated env (cg_results (gn_entries (gl_session st) ! i)) query fuzzy)" for query fuzzy
    by (simp add: refilter_generated_def unmarked_filter del: filter_filter)
  obtain rows refs where ran: "generate_from_generator env chk i arg g req (generator_query env arg g (parser_inner_text (gr_search_term req)))
      (parser_inner_text (gr_search_term req)) (run_timeout env arg) (gl_refs st) = (rows, refs)" by fastforce
  then have "unmarked rows" using unmarked_generator [OF assms(1)] by (metis fst_conv)
  then have fresh: "unmarked (dedup_session_rows rows)" by (simp add: dedup_session_rows_def unmarked_retain)
  note step = assms(4) [unfolded entry_rows_def Let_def run_timeout_def [symmetric] ran prod.case set_entry_def]
  show "unmarked (unwrap_or [] r)" using step shown fresh by (auto simp: unwrap_or_def split: if_splits)
  show "session_unmarked (gl_session st')" using step assms(2) kept fresh by (auto intro!: session_unmarked_set split: if_splits)
  show "length (gn_entries (gl_session st')) = length (gn_entries (gl_session st))" "gl_out st' = gl_out st" using step by (auto split: if_splits)
qed

lemma run_generators_unmarked:
  assumes "env_unmarked env"
  shows "session_unmarked (gl_session st) \<Longrightarrow> unmarked (gl_out st) \<Longrightarrow> i + length gs \<le> length (gn_entries (gl_session st)) \<Longrightarrow>
    unmarked (gl_out (run_generators env chk arg req changed previous i gs st)) \<and> session_unmarked (gl_session (run_generators env chk arg req changed previous i gs st))"
proof (induction gs arbitrary: i st)
  case Nil
  then show ?case by (simp add: session_unmarked_def)
next
  case (Cons g gs)
  obtain r st1 where er: "entry_rows env chk i arg g req changed previous st = (r, st1)" by fastforce
  have "i < length (gn_entries (gl_session st))" using Cons.prems(3) by simp
  note one = entry_rows_unmarked [OF assms Cons.prems(1) this er]
  show ?case
  proof (cases r)
    case None
    then show ?thesis using Cons.prems one er by simp
  next
    case (Some rows)
    let ?st = "st1\<lparr>gl_out := gl_out st1 @ stamp_query_term (generator_query env arg g (parser_inner_text (gr_search_term req))) (gr_search_term req) (has_query_rule arg g) rows\<rparr>"
    have "unmarked (gl_out ?st)" using one(1,4) Some Cons.prems(2) by (simp add: unmarked_stamp unwrap_or_def)
    then show ?thesis using Cons.IH [of ?st "i + 1"] Cons.prems one(2,3) er Some by (simp add: Let_def)
  qed
qed

lemma generate_unmarked:
  assumes "env_unmarked env" "session_unmarked session"
  shows "unmarked (fst (generate_for_arg_with_history env chk arg req session refs pending)) \<and>
    session_unmarked (fst (snd (generate_for_arg_with_history env chk arg req session refs pending)))"
proof -
  let ?gens = "effective_generators arg"
  obtain changed opened where op: "open_session (generator_arg_id (gr_tokens req) arg (gr_cwd req) (gr_search_term req)) (length ?gens) session = (changed, opened)"
    by fastforce
  have opened: "session_unmarked opened" "length (gn_entries opened) = length ?gens"
    using op assms(2) by (auto simp: open_session_def session_unmarked_def cached_generator_default_def list_all_iff Let_def dest!: in_set_takeD split: if_splits)
  have ran: "unmarked (gl_out (run_generators env chk arg req changed (gn_search_term opened) 0 ?gens
        \<lparr>gl_session = opened, gl_refs = refs, gl_pending = False, gl_out = generate_static_seeds env arg q t f\<rparr>)) \<and>
      session_unmarked (gl_session (run_generators env chk arg req changed (gn_search_term opened) 0 ?gens
        \<lparr>gl_session = opened, gl_refs = refs, gl_pending = False, gl_out = generate_static_seeds env arg q t f\<rparr>))" for q t f
    by (rule run_generators_unmarked [OF assms(1)]) (simp_all add: opened unmarked_seeds)
  have danger: "unmarked (map (\<lambda>s. s\<lparr>sg_is_dangerous := True\<rparr>) rows)" if "unmarked rows" for rows
    using that by (simp add: unmarked_def list_all_iff marked_def)
  show ?thesis
    by (simp add: generate_for_arg_with_history_def Let_def op ran danger dedup_suggestions_def unmarked_retain unmarked_stamp)
qed

text \<open>The generators as a completion sees them; the values of the history depend on the slots asked for.\<close>

definition generate_rows ::
  "gen_env \<Rightarrow> (arg_slot list \<Rightarrow> str list) \<Rightarrow> gen_checks \<Rightarrow> generator_session \<Rightarrow> str list mtime_lru \<Rightarrow>
   arg_spec \<Rightarrow> str list \<Rightarrow> str \<Rightarrow> str \<Rightarrow> str \<Rightarrow> bool \<Rightarrow> arg_slot list \<Rightarrow> suggestion list" where
  "generate_rows env history chk session refs arg tokens query search_term cwd fuzzy slots =
     fst (generate_for_arg_with_history (env\<lparr>ge_history_values := history slots\<rparr>) chk (ar_fields arg)
       \<lparr>gr_tokens = tokens, gr_query = query, gr_search_term = search_term, gr_cwd = cwd, gr_fuzzy = fuzzy\<rparr> session refs (False, 0))"

text \<open>
  No generated row is a candidate for publication: if hooks, files and programs mark no row, then neither the rows of an argument, whatever generators, scripts, built-in sources and history
  values it has, nor the rows kept in the session are marked, so the completion built on them meets what
  publication requires of generators.
\<close>

lemma generators_mark_nothing:
  assumes "env_unmarked env" "session_unmarked session"
  shows "generators_unmarked (cenv\<lparr>ce_generate_for_arg := generate_rows env history chk session refs\<rparr>) \<and>
    session_unmarked (fst (snd (generate_for_arg_with_history env chk arg req session refs pending)))"
proof -
  have "env_unmarked (env\<lparr>ge_history_values := vs\<rparr>)" for vs using assms(1) by (simp add: env_unmarked_def)
  from generate_unmarked [OF this assms(2)] generate_unmarked [OF assms]
  show ?thesis by (auto simp: generators_unmarked_def generate_rows_def unmarked_def list_all_iff)
qed

lemma sample_generators_mark_nothing:
  "generators_unmarked (plain_env\<lparr>ce_generate_for_arg := generate_rows sample_gen_env (\<lambda>_. [lit ''old'']) no_cancel generator_session_default lru_default\<rparr>)"
proof -
  have env: "env_unmarked sample_gen_env" by (simp add: env_unmarked_def sample_gen_env_def unwrap_or_def)
  have session: "session_unmarked generator_session_default" by (simp add: session_unmarked_def generator_session_default_def)
  show ?thesis
    using generators_mark_nothing [OF env session, where cenv = plain_env and history = "\<lambda>_. [lit ''old'']" and chk = no_cancel and refs = lru_default and arg = arg_fields_default and
      req = "typed_request []" and pending = "(False, 0)"] by blast
qed

end
