(* ===== verification/Cobra_Complete.thy ===== *)
theory Cobra_Complete
  imports Filegen Generator_Facts
begin

text \<open>
  The fallback to the completions a Cobra program prints itself (\<open>cobra.rs\<close>): finding the program,
  reading its lines, and the bounded cache of its answers by the age of the program. The file system, the
  search path and the run of the program answer through \<open>cobra_env\<close>.
\<close>

section \<open>The operations\<close>

record cobra_env =
  cb_lowercase :: "str \<Rightarrow> str"
  cb_is_file :: "str \<Rightarrow> bool"
  cb_search_path :: "str list option"
  cb_modified :: "str \<Rightarrow> nat option"
  cb_execute :: "str \<Rightarrow> str list \<Rightarrow> str \<Rightarrow> str option"

definition MAX_COBRA_CACHED :: nat where "MAX_COBRA_CACHED = 48"

definition resolve_binary :: "cobra_env \<Rightarrow> str \<Rightarrow> str \<Rightarrow> str option" where
  "resolve_binary env name cwd =
     (if c_slash \<in> set name
      then let resolved = (if starts_with_char name c_slash then name else path_join cwd name)
           in if cb_is_file env resolved then Some resolved else None
      else Option.bind (cb_search_path env) (\<lambda>dirs. find (cb_is_file env) (map (\<lambda>dir. path_join dir name) dirs)))"

definition parse_complete_line :: "str \<Rightarrow> suggestion option" where
  "parse_complete_line line =
     (if starts_with_char line 58 \<and> list_all is_ascii_digit (tl line) then None
      else case unwrap_or (line, []) (split_once c_tab line) of (name, description) \<Rightarrow>
        (if trim name = [] then None
         else Some (with_insert_value (trim name) (suggestion_new (trim name) (trim description) (lit ''arg'')))))"

definition parse_complete_output :: "str \<Rightarrow> suggestion list" where
  "parse_complete_output stdout =
     take MAX_RESULTS (filter_map parse_complete_line
       (filter (\<lambda>line. line \<noteq> [] \<and> \<not> starts_with_char line c_under \<and> line \<noteq> lit '':4'' \<and> line \<noteq> lit '':0'') (map trim (str_lines stdout))))"

definition filter_cached :: "cobra_env \<Rightarrow> suggestion list \<Rightarrow> str list \<Rightarrow> bool \<Rightarrow> suggestion list" where
  "filter_cached env rows tokens fuzzy =
     (if length tokens \<le> 1 \<or> last tokens = [] then rows else filter (\<lambda>s. matches_query (cb_lowercase env) (sg_name s) (last tokens) fuzzy) rows)"

definition cobra_cache_key :: "str \<Rightarrow> str list \<Rightarrow> str" where
  "cobra_cache_key binary rest = binary @ lit ''|'' @ str_join [31] rest"

definition cobra_complete :: "cobra_env \<Rightarrow> str list \<Rightarrow> str \<Rightarrow> bool \<Rightarrow> suggestion list mtime_lru \<Rightarrow> suggestion list \<times> suggestion list mtime_lru" where
  "cobra_complete env tokens cwd fuzzy lru =
     (case tokens of
        [] \<Rightarrow> ([], lru)
      | argv0 # rest \<Rightarrow>
          (case resolve_binary env argv0 cwd of
             None \<Rightarrow> ([], lru)
           | Some binary \<Rightarrow>
               (let mtime = cb_modified env binary; key = cobra_cache_key binary rest
                in case lru_get key mtime lru of
                  (Some rows, lru') \<Rightarrow> (filter_cached env rows tokens fuzzy, lru')
                | (None, lru') \<Rightarrow>
                    (case cb_execute env binary (lit ''__complete'' # rest) cwd of
                       None \<Rightarrow> ([], lru')
                     | Some stdout \<Rightarrow>
                         (let rows = parse_complete_output stdout
                          in (filter_cached env rows tokens fuzzy, lru_insert_within MAX_COBRA_CACHED key mtime rows lru'))))))"

section \<open>The cache\<close>

lemma MAX_COBRA_CACHED_pos: "0 < MAX_COBRA_CACHED"
  by (simp add: MAX_COBRA_CACHED_def)

interpretation cobra_store: keyed_store "lru_ok MAX_COBRA_CACHED" "\<lambda>lru. map_of (ml_entries lru)" "\<lambda>key (mtime, v). lru_insert_within MAX_COBRA_CACHED key mtime v" lru_remove
  by (rule keyed_store_within [OF MAX_COBRA_CACHED_pos])

text \<open>A request keeps the cache within its bound; a program that does not print rows caches nothing.\<close>

lemma cobra_complete_ok:
  assumes "lru_ok MAX_COBRA_CACHED lru"
  shows "lru_ok MAX_COBRA_CACHED (snd (cobra_complete env tokens cwd fuzzy lru))"
proof (cases "\<exists>argv0 rest binary. tokens = argv0 # rest \<and> resolve_binary env argv0 cwd = Some binary")
  case True
  then obtain argv0 rest binary where run: "tokens = argv0 # rest" "resolve_binary env argv0 cwd = Some binary" by blast
  obtain r lru' where look: "lru_get (cobra_cache_key binary rest) (cb_modified env binary) lru = (r, lru')" by fastforce
  have ok: "lru_ok MAX_COBRA_CACHED lru'" using lru_get_ok [OF assms look] by blast
  then show ?thesis
    using run look lru_insert_within_ok(1) [OF ok MAX_COBRA_CACHED_pos] by (simp add: cobra_complete_def Let_def split: option.split)
qed (use assms in \<open>auto simp: cobra_complete_def split: list.split option.split\<close>)

text \<open>
  The key names the program and its words but not the directory it runs in: a program that completes
  by its directory is answered with the rows of the directory it was first asked in.
\<close>

lemma cobra_cache_ignores_directory:
  assumes "c_slash \<notin> set argv0" "resolve_binary env argv0 a = Some binary" "cb_execute env binary (lit ''__complete'' # rest) a = Some stdout"
  shows "fst (cobra_complete env (argv0 # rest) b fuzzy (snd (cobra_complete env (argv0 # rest) a fuzzy lru_default))) =
    filter_cached env (parse_complete_output stdout) (argv0 # rest) fuzzy"
proof -
  have "resolve_binary env argv0 b = Some binary" using assms(1,2) by (simp add: resolve_binary_def)
  then show ?thesis
    using assms(2,3) by (simp add: cobra_complete_def lru_get_def lru_insert_within_def lru_default_def lru_touch_def MAX_COBRA_CACHED_def Let_def)
qed

end
