(* ===== verification/Spec2Isabelle.thy ===== *)
theory Spec2Isabelle
  imports Query Command_Slice Cancel_Token Fig_Spec Hook_Cache Versioned Acceptance Frecency
    Walk_Path Pipeline Registry_Names Hook_Rows Worker_Facts Supervised Engine_Idle Filegen_Facts Cobra_Complete
begin

text \<open>
  FasTab is a terminal completion program. Its engine, the crate \<open>src/crates/fastab_engine\<close>, takes the
  text of a command line with a caret, finds the command the caret is in, walks the completion spec of
  that command along the typed tokens, collects rows for the argument, option or subcommand under the
  caret, and ranks them by how well they match and how often and how recently they were used. This
  development models that engine.

  \<^bold>\<open>Conventions.\<close> A string is a list of Unicode scalar values (\<open>Rust_Str\<close>), so byte offsets, slices and
  character boundaries are explicit and a slice inside a character is an error. A Rust \<open>HashMap\<close> whose
  order is not observed is a map or an association list with distinct keys; sizes are \<open>nat\<close>, signed
  scores \<open>int\<close>, with the machine bounds stated where they matter. An early return or an error is a value of
  an option or sum type. A loop that always ends is a recursive function; the walk over a spec, which
  may not end, is \<open>while_option\<close>, so that \<open>None\<close> is the run that never returns. Code outside the
  repository (the regex engine, child processes, Unicode lower casing) and parts of the engine not
  modelled (the registry and the hooks as the walker sees them) are parameters.

  \<^bold>\<open>Parts.\<close>
  \<^item> \<open>Rust_Prelude\<close>: orderings and their chaining (locale \<open>total_compare\<close>), stable sorting, iterator
    adapters, overlay of named items (locale \<open>overlay\<close>). \<open>Rust_Str\<close>: characters, slices, trimming,
    splitting. \<open>Store_Contract\<close>: the locale of keyed stores.
  \<^item> \<open>Query\<close> (\<open>query.rs\<close>): prefix and fuzzy matching. Fuzzy matching accepts exactly the subsequences,
    its strict search is sound and complete, its positions spell the query, its score fits an \<open>i64\<close>.
  \<^item> \<open>Shell_Tokens\<close>, \<open>Shell_Facts\<close> (\<open>lookup.rs\<close> 11--305): the tokenizer, the raw token under the caret,
    aliases. Quoting round trips, the raw token is the last token where whitespace is ASCII, alias expansion refines one-step
    rewriting.
  \<^item> \<open>Command_Slice\<close> (\<open>lookup.rs\<close> 307--641): the command the caret is in, and what precedes it.
  \<^item> \<open>Spec_IR\<close> (\<open>ir.rs\<close> 18--425) and \<open>Fig_Spec\<close> (\<open>fig_spec.rs\<close>): the spec tree, specs printed by
    generators, merging them; provenance marks cannot be forged.
  \<^item> \<open>Option_Parse\<close>, \<open>Walk\<close>, \<open>Walk_Facts\<close>, \<open>Walk_Ends\<close>, \<open>Walk_Path\<close>, \<open>Active_Arg\<close> (\<open>lookup.rs\<close> 680--1842 and
    \<open>WalkTrace\<close> of \<open>history.rs\<close>): option tokens, the walk along the spec, the argument under the caret.
    The walk reads in bounds, ends on specs without argument aliases, follows subcommands; the active
    argument after plain words is the one they lead to.
  \<^item> \<open>Cancel_Token\<close> (\<open>cancellation.rs\<close>) and \<open>Hook_Cache\<close> (\<open>hook_cache.rs\<close>): cancellation under any
    interleaving, the bounded cache of hook results and its runners.
  \<^item> \<open>Versioned\<close> (\<open>versioned.rs\<close>): choosing a versioned spec file.
  \<^item> \<open>Acceptance\<close>, \<open>Frecency\<close> (\<open>rank.rs\<close> 18--780) and \<open>Suggestion\<close> (\<open>runtime.rs\<close> 14--345): acceptance
    indexes within their budgets, next-word counts of the history, rows and requests.
  \<^item> \<open>History_Index\<close> (\<open>history.rs\<close> 126--470): argument values remembered from the history, under any
    interleaving of the requests that share the cache; what is offered is what a fresh walk of the
    history gives.
  \<^item> \<open>Rank\<close> (\<open>rank.rs\<close> 170--393 and 782--1290): history rows, priorities, the order of the rows and their
    deduplication. The order is a total preorder, so the sort is defined and stable, and it is the one its
    reader sees: run rows, better matches, higher priority.
  \<^item> \<open>Public_AI\<close> (\<open>public_ai.rs\<close>): the rows that may be shown to a public model, the literal paths of
    the pinned tree where they may, and the passes that drop every unsafe one.
  \<^item> \<open>Rows\<close> (\<open>lookup.rs\<close> 643--677 and 2436--3058): the rows of a spec node, the options still offered, the
    rows that run the command at once: exactly which options are shown, and when a line may be run.
  \<^item> \<open>Argument_Scope\<close> (\<open>rank.rs\<close> 39--77): the identity of an argument row, injective up to collisions of
    the hash. \<open>Complete\<close> (\<open>lookup.rs\<close> 1844--2410): a completion from the buffer to the collected rows; it
    always returns on specs without argument aliases. \<open>Pipeline\<close> (\<open>runtime.rs\<close>,
    \<open>complete_with_thread_session\<close>): the whole request, up to what is published to a model.
  \<^item> \<open>Generators\<close>, \<open>Generator_Facts\<close> (\<open>generate.rs\<close>): the rows of an argument from templates, scripts, hooks and
    built-in sources, the session that keeps them between requests, triggers and debouncing, the cache of
    refs. \<open>Complete\<close> takes the rows of a generator as a parameter; the rows modelled here carry
    no mark for publication, as it assumes, if those of hooks, files and programs carry none. Dropping duplicates early is invisible, a debounced generator runs exactly when its
    wait is over, refs are offered at the age of the repository they were read at.
  \<^item> \<open>Filegen\<close>, \<open>Filegen_Facts\<close> (\<open>filegen.rs\<close>): expansion of a typed path, filters and the listing of a
    directory with its bounded heap. The locale \<open>linear_compare\<close> has the argument that such a heap keeps the
    first elements of the sorted list. The listing equals a filter and a stable sort, every row, the
    parent too, leads to the entry listed. \<open>Cobra_Complete\<close> (\<open>cobra.rs\<close>): rows a Cobra program prints, and their cache. The
    generators take both as parameters.
  \<^item> \<open>Registry\<close>, \<open>Registry_Names\<close> (\<open>ir.rs\<close> 983--1912 and 2095--2105): the registry of specs: loading by name
    and by reference, the bounded cache, release of idle specs, overlays, the search of command names.
    Specs are shared values with an identity, as \<open>Arc::ptr_eq\<close> sees it; reading a file is a parameter.
    The cache stays bounded and consistent, idle files are released, the searches equal a filter.
  \<^item> \<open>Engine_Idle\<close> (\<open>runtime.rs\<close>, \<open>Engine\<close>): what the engine holds between requests (registry, hook
    results, catalog, history indexes), with one idle clock each. The locale \<open>idle_resource\<close> has the
    argument for one clock and is interpreted three times. An engine without input lets go of everything
    and its next deadline is right.
  \<^item> \<open>JS_String\<close>, \<open>Typed_Hook\<close>, \<open>Hook_Value\<close>, \<open>Hook_Eval\<close> (\<open>typed_hook/mod.rs\<close>, \<open>typed_hook/eval.rs\<close>): the
    language of hooks, small programs in specs: UTF-16 strings with the JavaScript operations, the
    expressions and their validator, values, and the evaluator as a function of a world (cancellation,
    clock, processes) and a state. The evaluator is primitive recursive: \<open>while\<close> is capped by the code.
    Encoding round trips, replacing is splitting and joining, slices stay in range.
  \<^item> \<open>Hook_Cancel\<close>: what an evaluation may do to the outside, as the locale \<open>hook_steps\<close>; a cancelled hook
    ends in the cancellation error and starts no process any more. \<open>Hook_Typing\<close>: inferred types are those
    of the values where no expected type is adopted and no \<open>try\<close> is crossed, accepted hooks stay within the limits. \<open>Hook_Entry\<close>, \<open>Hook_Rows\<close>: one entry point per
    hook field; arguments have the types of the contract, rows survive the way through a hook.
  \<^item> \<open>Job_Queue\<close>, \<open>Worker\<close>, \<open>Worker_Inv\<close>, \<open>Worker_Facts\<close>, \<open>Supervised\<close> (\<open>worker.rs\<close>): the thread that owns the
    engine. Clients and supervisor are events on one state, in any order; what a supervised thread did is
    an input. The locale \<open>reserved_budget\<close> has the argument for the room kept back in the mailbox, once for
    places and once for bytes. Every request is answered once, ends of sessions are never refused and
    free the resources; the counters of operations are exact.

  \<^bold>\<open>Not modelled.\<close> The desktop, terminal, settings and installer crates, the catalog and reference files
  of the hooks, process execution, file system access and serialisation; the manifest lists them.
\<close>

end
